(* ===== verification/Prelude.thy ===== *)
theory Prelude
  imports Main "HOL-Library.Multiset"
begin

text \<open>
  Shared vocabulary of the development: the types that stand for Go's strings, times and
  results, the outcomes the environment supplies to an operation (entropy), and the generic
  lemmas on lists and keyed records that the component theories use.

  A Go \<open>string\<close> or \<open>[]byte\<close> is a HOL \<open>string\<close>: a list of bytes.  A Go \<open>time.Time\<close> is an
  integer count of nanoseconds since Go's zero time, so \<open>IsZero\<close> is \<open>t = 0\<close>, \<open>Before\<close> is
  \<open><\<close>, \<open>After\<close> is \<open>>\<close>, \<open>Equal\<close> is \<open>=\<close> and \<open>Add\<close> is \<open>+\<close>.  A \<open>time.Duration\<close> is an integer count of
  nanoseconds.  A function returning \<open>(T, error)\<close> returns a sum: \<open>Inl\<close> the error, \<open>Inr\<close> the value.
\<close>

named_theorems keyed "facts about lists of records that are distinct by a key"
named_theorems step_invs "preservation of an invariant by single operations"

section \<open>Types shared by the components\<close>

type_synonym time = int
type_synonym duration = int

text \<open>The outcome of one \<open>rand.Read\<close>: \<open>None\<close> is a failed read, \<open>Some f\<close> fills byte \<open>i\<close>
  of the buffer with \<open>f i\<close>.\<close>
type_synonym entropy = "(nat \<Rightarrow> char) option"

definition second :: duration where "second = 1000000000"
definition minute :: duration where "minute = 60 * second"
definition hour :: duration where "hour = 60 * minute"

text \<open>\<open>Time.Sub\<close> saturates at the bounds of an int64 duration.\<close>
definition time_sub :: "time \<Rightarrow> time \<Rightarrow> duration" where
  "time_sub a b = max (- (2 ^ 63)) (min (2 ^ 63 - 1) (a - b))"

lemma time_sub_gt_iff:
  assumes "0 \<le> d" "d < 2 ^ 63 - 1"
  shows "time_sub a b > d \<longleftrightarrow> a - b > d"
  using assms by (auto simp: time_sub_def)

lemmas duration_defs = second_def minute_def hour_def

section \<open>Lists\<close>

text \<open>\<open>slices.DeleteFunc\<close> removes every element the predicate holds for.\<close>
definition delete_func :: "('a \<Rightarrow> bool) \<Rightarrow> 'a list \<Rightarrow> 'a list" where
  "delete_func p xs = filter (\<lambda>x. \<not> p x) xs"

lemma set_delete_func [simp]: "set (delete_func p xs) = {x \<in> set xs. \<not> p x}"
  by (auto simp: delete_func_def)

lemma length_delete_func_le: "length (delete_func p xs) \<le> length xs"
  by (simp add: delete_func_def)

lemma delete_func_Nil [simp]: "delete_func p [] = []"
  by (simp add: delete_func_def)

lemma delete_func_Cons [simp]:
  "delete_func p (x # xs) = (if p x then delete_func p xs else x # delete_func p xs)"
  by (simp add: delete_func_def)

lemma filter_delete_func [simp]:
  "filter q (delete_func p xs) = filter (\<lambda>x. q x \<and> \<not> p x) xs"
  by (simp add: delete_func_def conj_commute)

lemma distinct_map_delete_func [keyed]:
  "distinct (map f xs) \<Longrightarrow> distinct (map f (delete_func p xs))"
  by (simp add: delete_func_def distinct_map_filter)

lemma image_delete_func [keyed]:
  "distinct (map f xs) \<Longrightarrow> f ` set (delete_func p xs) = f ` set xs - set (map f (filter p xs))"
  by (auto simp: distinct_map inj_on_def)

lemma mset_delete_func: "mset (map f (delete_func p xs)) + mset (map f (filter p xs)) = mset (map f xs)"
  by (induction xs) auto

lemma distinct_map_append1 [keyed]:
  "distinct (map f (xs @ [x])) \<longleftrightarrow> distinct (map f xs) \<and> f x \<notin> f ` set xs"
  by auto

text \<open>Replacing the first element a predicate holds for: the shape of the code's
  \<open>for index := range xs \<dots> break\<close> updates.\<close>
fun update_first :: "('a \<Rightarrow> bool) \<Rightarrow> ('a \<Rightarrow> 'a) \<Rightarrow> 'a list \<Rightarrow> 'a list" where
  "update_first p f [] = []"
| "update_first p f (x # xs) = (if p x then f x # xs else x # update_first p f xs)"

text \<open>Deleting the first element a predicate holds for:
  \<open>append(xs[:index], xs[index+1:]...)\<close> at the first hit.\<close>
fun delete_first :: "('a \<Rightarrow> bool) \<Rightarrow> 'a list \<Rightarrow> 'a list" where
  "delete_first p [] = []"
| "delete_first p (x # xs) = (if p x then xs else x # delete_first p xs)"

lemma length_update_first [simp]: "length (update_first p f xs) = length xs"
  by (induction xs) auto

lemma map_update_first:
  "(\<And>x. x \<in> set xs \<Longrightarrow> p x \<Longrightarrow> g (f x) = g x) \<Longrightarrow> map g (update_first p f xs) = map g xs"
  by (induction xs) auto

lemma set_update_first: "set (update_first p f xs) \<subseteq> set xs \<union> f ` {x \<in> set xs. p x}"
  by (induction xs) auto

lemma update_first_in_set:
  assumes "x \<in> set (update_first p f xs)"
  shows "x \<in> set xs \<or> (\<exists>y \<in> set xs. p y \<and> x = f y)"
  using assms set_update_first [of p f xs] by auto

lemma update_first_none: "(\<And>x. x \<in> set xs \<Longrightarrow> \<not> p x) \<Longrightarrow> update_first p f xs = xs"
  by (induction xs) auto

lemma delete_first_subset: "set (delete_first p xs) \<subseteq> set xs"
  by (induction xs) auto

lemma length_delete_first_le: "length (delete_first p xs) \<le> length xs"
  by (induction xs) auto

lemma length_delete_first:
  "x \<in> set xs \<Longrightarrow> p x \<Longrightarrow> length (delete_first p xs) = length xs - 1"
  by (induction xs) (auto, metis Suc_pred length_pos_if_in_set)

lemma delete_first_none: "(\<And>x. x \<in> set xs \<Longrightarrow> \<not> p x) \<Longrightarrow> delete_first p xs = xs"
  by (induction xs) auto

lemma distinct_map_delete_first [keyed]:
  "distinct (map f xs) \<Longrightarrow> distinct (map f (delete_first p xs))"
  by (induction xs) (auto dest: subsetD [OF delete_first_subset])

lemma delete_first_key:
  "distinct (map f xs) \<Longrightarrow> delete_first (\<lambda>x. f x = k) xs = delete_func (\<lambda>x. f x = k) xs"
proof (induction xs)
  case (Cons x xs)
  have "delete_func (\<lambda>y. f y = k) xs = xs" if "f x = k"
    using Cons.prems that by (auto simp: delete_func_def filter_id_conv) (metis imageI)
  then show ?case using Cons by auto
qed simp

lemma find_update_first_other:
  "(\<And>x. q x \<Longrightarrow> \<not> p x) \<Longrightarrow> (\<And>x. x \<in> set xs \<Longrightarrow> p x \<Longrightarrow> \<not> q (f x)) \<Longrightarrow>
   find q (update_first p f xs) = find q xs"
  by (induction xs) auto

lemma find_update_first_hit: "find p xs = Some x \<Longrightarrow> p y \<Longrightarrow> find p (update_first p (\<lambda>_. y) xs) = Some y"
  by (induction xs) (auto split: if_splits)

lemma find_append_None: "find p xs = None \<Longrightarrow> find p (xs @ ys) = find p ys"
  by (induction xs) (auto split: if_splits)

lemma option_eqI: "(\<And>x. a = Some x \<longleftrightarrow> b = Some x) \<Longrightarrow> a = b"
  by (cases a; cases b) auto

lemma find_SomeD: "find p xs = Some x \<Longrightarrow> x \<in> set xs \<and> p x"
  by (induction xs) (auto split: if_splits)

lemma find_NoneD: "find p xs = None \<Longrightarrow> x \<in> set xs \<Longrightarrow> \<not> p x"
  by (auto simp: find_None_iff)

lemma find_filter_same: "(\<And>x. p x \<Longrightarrow> q x) \<Longrightarrow> find p (filter q xs) = find p xs"
  by (induction xs) auto

lemma find_cong_key:
  "distinct (map f xs) \<Longrightarrow> x \<in> set xs \<Longrightarrow> f x = k \<Longrightarrow> find (\<lambda>y. f y = k) xs = Some x"
  by (induction xs) auto

lemma length_filter_mono: "(\<And>x. x \<in> set xs \<Longrightarrow> p x \<Longrightarrow> q x) \<Longrightarrow> length (filter p xs) \<le> length (filter q xs)"
  by (induction xs) auto

section \<open>Tables by key, and results with errors\<close>

definition index_by :: "('a \<Rightarrow> string) \<Rightarrow> 'a list \<Rightarrow> string \<rightharpoonup> 'a" where
  "index_by key xs = map_of (map (\<lambda>x. (key x, x)) xs)"

lemma index_by_Cons: "index_by key (x # xs) = (index_by key xs)(key x \<mapsto> x)"
  by (simp add: index_by_def)

lemma index_by_Nil [simp]: "index_by key [] = Map.empty"
  by (simp add: index_by_def)

lemma index_by_None: "index_by key xs k = None \<longleftrightarrow> k \<notin> key ` set xs"
  by (simp add: index_by_def map_of_eq_None_iff image_image)

lemma index_by_Some: "distinct (map key xs) \<Longrightarrow> index_by key xs k = Some x \<longleftrightarrow> x \<in> set xs \<and> key x = k"
  unfolding index_by_def by (subst map_of_eq_Some_iff) (auto simp: comp_def)

lemma index_by_mem: "index_by key xs k = Some x \<Longrightarrow> x \<in> set xs \<and> key x = k"
  unfolding index_by_def by (drule map_of_SomeD) auto

lemma add_index_Cons:
  "key x \<notin> key ` set xs \<Longrightarrow> m ++ index_by key (x # xs) = m(key x \<mapsto> x) ++ index_by key xs"
  by (rule ext) (auto simp: index_by_Cons map_add_def index_by_None [THEN iffD2] split: option.splits)

lemma inr_if: "(if b then Inl e else r) = Inr x \<longleftrightarrow> \<not> b \<and> r = Inr x"
  by simp

lemma case_sum_inr: "(case r of Inl e \<Rightarrow> Inl e | Inr a \<Rightarrow> f a) = Inr x \<longleftrightarrow> (\<exists>a. r = Inr a \<and> f a = Inr x)"
  by (cases r) auto

lemma fresh_ball:
  assumes "key x \<notin> key ` set xs"
  shows "(\<forall>y \<in> set xs. (m(key x \<mapsto> v)) (key y) = None) \<longleftrightarrow> (\<forall>y \<in> set xs. m (key y) = None)"
proof -
  have "key y \<noteq> key x" if "y \<in> set xs" for y using assms that by (metis imageI)
  then show ?thesis by simp
qed

end
