(* ===== verification/GoStrings.thy ===== *)
theory GoStrings
  imports Prelude "HOL-Library.Char_ord"
begin

text \<open>
  The parts of Go's \<open>strings\<close>, \<open>strconv\<close>, \<open>unicode\<close> and \<open>unicode/utf8\<close> packages that the
  modelled code uses, on strings as lists of bytes.
\<close>

section \<open>Bytes and ASCII\<close>

abbreviation byte :: "char \<Rightarrow> nat" where "byte c \<equiv> of_char c"

definition chr :: "nat \<Rightarrow> char" where "chr n = char_of n"

lemma byte_chr [simp]: "byte (chr n) = n mod 256"
  by (simp add: chr_def)

lemma byte_less [simp]: "byte c < 256"
  by (metis nat_of_char_less_256)

lemma chr_byte [simp]: "chr (byte c) = c"
  by (simp add: chr_def)

definition is_digit :: "char \<Rightarrow> bool" where
  "is_digit c \<longleftrightarrow> 48 \<le> byte c \<and> byte c \<le> 57"

definition is_lower :: "char \<Rightarrow> bool" where
  "is_lower c \<longleftrightarrow> 97 \<le> byte c \<and> byte c \<le> 122"

definition is_upper :: "char \<Rightarrow> bool" where
  "is_upper c \<longleftrightarrow> 65 \<le> byte c \<and> byte c \<le> 90"

text \<open>\<open>strings.ToLower\<close> and \<open>strings.ToUpper\<close> on ASCII letters; other bytes stay.\<close>
definition lower_char :: "char \<Rightarrow> char" where
  "lower_char c = (if is_upper c then chr (byte c + 32) else c)"

definition upper_char :: "char \<Rightarrow> char" where
  "upper_char c = (if is_lower c then chr (byte c - 32) else c)"

definition to_lower :: "string \<Rightarrow> string" where "to_lower s = map lower_char s"
definition to_upper :: "string \<Rightarrow> string" where "to_upper s = map upper_char s"

lemma lower_char_id: "\<not> is_upper c \<Longrightarrow> lower_char c = c"
  by (simp add: lower_char_def)

lemma to_lower_id: "(\<And>c. c \<in> set s \<Longrightarrow> \<not> is_upper c) \<Longrightarrow> to_lower s = s"
  by (induction s) (auto simp: to_lower_def lower_char_id)

section \<open>Prefixes, suffixes, splitting\<close>

fun has_prefix :: "string \<Rightarrow> string \<Rightarrow> bool" where
  "has_prefix s [] = True"
| "has_prefix [] (p # ps) = False"
| "has_prefix (c # s) (p # ps) = (c = p \<and> has_prefix s ps)"

lemma has_prefix_iff: "has_prefix s p \<longleftrightarrow> (\<exists>t. s = p @ t)"
  by (induction s p rule: has_prefix.induct) auto

lemma has_prefix_append [simp]: "has_prefix (p @ t) p"
  by (auto simp: has_prefix_iff)

definition has_suffix :: "string \<Rightarrow> string \<Rightarrow> bool" where
  "has_suffix s p \<longleftrightarrow> has_prefix (rev s) (rev p)"

lemma has_suffix_iff: "has_suffix s p \<longleftrightarrow> (\<exists>t. s = t @ p)"
  unfolding has_suffix_def has_prefix_iff
  by (metis rev_append rev_rev_ident)

definition trim_prefix :: "string \<Rightarrow> string \<Rightarrow> string" where
  "trim_prefix s p = (if has_prefix s p then drop (length p) s else s)"

definition trim_suffix :: "string \<Rightarrow> string \<Rightarrow> string" where
  "trim_suffix s p = (if has_suffix s p then take (length s - length p) s else s)"

text \<open>\<open>strings.Split\<close> at a one-byte separator: never the empty list.\<close>
fun split_on :: "char \<Rightarrow> string \<Rightarrow> string list" where
  "split_on c [] = [[]]"
| "split_on c (x # xs) =
     (if x = c then [] # split_on c xs
      else (case split_on c xs of [] \<Rightarrow> [[x]] | p # ps \<Rightarrow> (x # p) # ps))"

lemma split_on_nonempty [simp]: "split_on c s \<noteq> []"
  by (induction s) (auto split: list.splits)

lemma split_on_no_sep: "c \<notin> set s \<Longrightarrow> split_on c s = [s]"
  by (induction s) auto

lemma split_on_parts: "p \<in> set (split_on c s) \<Longrightarrow> set p \<subseteq> set s - {c}"
proof (induction s arbitrary: p)
  case (Cons a s)
  obtain q qs where q: "split_on c s = q # qs"
    by (cases "split_on c s") auto
  have "set q \<subseteq> set s - {c}" "\<And>r. r \<in> set qs \<Longrightarrow> set r \<subseteq> set s - {c}"
    using Cons.IH q by auto
  with Cons.prems q show ?case by (auto split: if_splits)
qed simp

lemma split_on_chars: "set s \<subseteq> insert c (\<Union> (set ` set (split_on c s)))"
proof (induction s)
  case (Cons a s)
  obtain q qs where "split_on c s = q # qs"
    by (cases "split_on c s") auto
  with Cons show ?case by auto
qed simp

lemma split_on_append_sep: "split_on c (p @ c # s) = butlast (split_on c p) @ last (split_on c p) # split_on c s"
proof (induction p)
  case (Cons x p)
  then show ?case by (cases "split_on c p") auto
qed simp

text \<open>\<open>strings.Cut\<close> at the first separator.\<close>
fun cut_at :: "char \<Rightarrow> string \<Rightarrow> (string \<times> string) option" where
  "cut_at c [] = None"
| "cut_at c (x # xs) =
     (if x = c then Some ([], xs)
      else (case cut_at c xs of None \<Rightarrow> None | Some (a, b) \<Rightarrow> Some (x # a, b)))"

lemma cut_at_None: "cut_at c s = None \<longleftrightarrow> c \<notin> set s"
  by (induction s) (auto split: option.splits)

lemma cut_at_Some: "cut_at c s = Some (a, b) \<Longrightarrow> s = a @ c # b \<and> c \<notin> set a"
  by (induction s arbitrary: a) (auto split: if_splits option.splits)

lemma cut_at_append: "c \<notin> set a \<Longrightarrow> cut_at c (a @ c # b) = Some (a, b)"
  by (induction a) auto

text \<open>\<open>strings.LastIndex\<close> of one byte.\<close>
definition last_index :: "char \<Rightarrow> string \<Rightarrow> nat option" where
  "last_index c s = (case cut_at c (rev s) of None \<Rightarrow> None | Some (a, b) \<Rightarrow> Some (length b))"

lemma last_index_None: "last_index c s = None \<longleftrightarrow> c \<notin> set s"
  using cut_at_None [of c "rev s"] by (auto simp: last_index_def split: option.splits)

lemma last_index_Some:
  "last_index c s = Some i \<Longrightarrow>
   i < length s \<and> s ! i = c \<and> s = take i s @ c # drop (Suc i) s \<and> c \<notin> set (drop (Suc i) s)"
proof -
  assume "last_index c s = Some i"
  then obtain a b where ab: "cut_at c (rev s) = Some (a, b)" and i: "i = length b"
    by (auto simp: last_index_def split: option.splits)
  from cut_at_Some [OF ab] have "rev s = a @ c # b" and a: "c \<notin> set a" by auto
  then have "s = rev (a @ c # b)" by (metis rev_rev_ident)
  then have s: "s = rev b @ c # rev a" by simp
  show ?thesis using a unfolding i s by (simp add: nth_append)
qed

section \<open>Decimal numbers\<close>

fun digits_rev :: "nat \<Rightarrow> nat list" where
  "digits_rev n = (if n < 10 then [n] else (n mod 10) # digits_rev (n div 10))"

declare digits_rev.simps [simp del]

text \<open>\<open>strconv.Itoa\<close> on a non-negative number.\<close>
definition itoa :: "nat \<Rightarrow> string" where
  "itoa n = map (\<lambda>d. chr (d + 48)) (rev (digits_rev n))"

definition digit_val :: "char \<Rightarrow> nat" where
  "digit_val c = byte c - 48"

text \<open>The value of a string of decimal digits, as \<open>strconv.Atoi\<close> and \<open>ParseInt\<close> compute
  it before their range checks.\<close>
definition digits_val :: "string \<Rightarrow> nat" where
  "digits_val s = foldl (\<lambda>n c. n * 10 + digit_val c) 0 s"

definition all_digits :: "string \<Rightarrow> bool" where
  "all_digits s \<longleftrightarrow> s \<noteq> [] \<and> list_all is_digit s"

text \<open>\<open>strconv.ParseInt(s, 10, 64)\<close>, and \<open>strconv.Atoi\<close> where int is 64 bits: an optional
  sign, then decimal digits; a value outside int64 is an error.\<close>
definition parse_int64 :: "string \<Rightarrow> int option" where
  "parse_int64 s =
     (let neg = (case s of c # _ \<Rightarrow> c = CHR ''-'' | [] \<Rightarrow> False);
          body = (case s of c # r \<Rightarrow> if c = CHR ''-'' \<or> c = CHR ''+'' then r else s | [] \<Rightarrow> [])
      in if \<not> all_digits body then None
         else let v = (if neg then - int (digits_val body) else int (digits_val body))
              in if - (2 ^ 63) \<le> v \<and> v < 2 ^ 63 then Some v else None)"

abbreviation atoi :: "string \<Rightarrow> int option" where "atoi \<equiv> parse_int64"

lemma digits_rev_bound: "d \<in> set (digits_rev n) \<Longrightarrow> d < 10"
proof (induction n rule: digits_rev.induct)
  case (1 n)
  then show ?case by (subst (asm) (2) digits_rev.simps) (auto split: if_splits)
qed

lemma digits_rev_nonempty [simp]: "digits_rev n \<noteq> []"
  by (subst digits_rev.simps) simp

lemma digit_char: "d < 10 \<Longrightarrow> is_digit (chr (d + 48)) \<and> digit_val (chr (d + 48)) = d"
  by (simp add: is_digit_def digit_val_def)

lemma digits_val_snoc: "digits_val (s @ [c]) = digits_val s * 10 + digit_val c"
  by (simp add: digits_val_def)

lemma digits_val_itoa [simp]: "digits_val (itoa n) = n"
proof (induction n rule: digits_rev.induct)
  case (1 n)
  show ?case
  proof (cases "n < 10")
    case True
    then show ?thesis
      by (simp add: itoa_def digits_rev.simps [of n] digits_val_def digit_char)
  next
    case False
    then have "itoa n = itoa (n div 10) @ [chr (n mod 10 + 48)]"
      by (simp add: itoa_def digits_rev.simps [of n])
    with False 1 show ?thesis
      by (simp add: digits_val_snoc digit_char)
  qed
qed

lemma all_digits_itoa [simp]: "all_digits (itoa n)"
  by (auto simp: all_digits_def itoa_def list_all_iff digit_char dest: digits_rev_bound)

lemma itoa_inject [simp]: "itoa m = itoa n \<longleftrightarrow> m = n"
  by (metis digits_val_itoa)

lemma itoa_nonempty [simp]: "itoa n \<noteq> []"
  using all_digits_itoa all_digits_def by blast

lemma is_digit_not_sign: "is_digit c \<Longrightarrow> c \<noteq> CHR ''-'' \<and> c \<noteq> CHR ''+''"
  by (auto simp: is_digit_def)

lemma parse_int64_digits:
  "all_digits s \<Longrightarrow> digits_val s < 2 ^ 63 \<Longrightarrow> parse_int64 s = Some (int (digits_val s))"
  by (cases s) (auto simp: parse_int64_def all_digits_def Let_def dest: is_digit_not_sign)

lemma parse_int64_itoa: "n < 2 ^ 63 \<Longrightarrow> parse_int64 (itoa n) = Some (int n)"
  by (simp add: parse_int64_digits)

lemma digits_val_bound: "list_all is_digit s \<Longrightarrow> digits_val s < 10 ^ length s"
proof (induction s rule: rev_induct)
  case (snoc c s)
  then have "digits_val s < 10 ^ length s" "digit_val c < 10"
    by (auto simp: is_digit_def digit_val_def)
  then show ?case by (simp add: digits_val_snoc)
qed (simp add: digits_val_def)

lemma length_itoa: "length (itoa n) = length (digits_rev n)"
  by (simp add: itoa_def)

end
