(* ===== verification/Utf8.thy ===== *)
theory Utf8
  imports GoStrings
begin

text \<open>
  UTF-8 as Go's \<open>unicode/utf8\<close> package and \<open>range\<close> loops read it, the character classes of
  Go's \<open>unicode\<close> package that the code asks for, and the space trimming and field
  splitting of \<open>strings\<close>.  A rune is a natural number.
\<close>

definition rune_error :: nat where "rune_error = 0xFFFD"

definition is_cont :: "nat \<Rightarrow> bool" where
  "is_cont b \<longleftrightarrow> 0x80 \<le> b \<and> b \<le> 0xBF"

text \<open>The range of the second byte that a lead byte accepts: surrogates, overlong
  forms and values above 0x10FFFF are not UTF-8.\<close>
definition second_ok :: "nat \<Rightarrow> nat \<Rightarrow> bool" where
  "second_ok b0 b1 \<longleftrightarrow>
     (if b0 = 0xE0 then 0xA0 \<le> b1 \<and> b1 \<le> 0xBF
      else if b0 = 0xED then 0x80 \<le> b1 \<and> b1 \<le> 0x9F
      else if b0 = 0xF0 then 0x90 \<le> b1 \<and> b1 \<le> 0xBF
      else if b0 = 0xF4 then 0x80 \<le> b1 \<and> b1 \<le> 0x8F
      else is_cont b1)"

text \<open>\<open>utf8.DecodeRune\<close> on a non-empty string: the rune, its width in bytes, and whether the
  encoding was valid.  An invalid byte is the rune error with width one.\<close>
definition decode_rune :: "nat list \<Rightarrow> nat \<times> nat \<times> bool" where
  "decode_rune bs =
     (case bs of [] \<Rightarrow> (rune_error, 0, False)
      | b0 # r \<Rightarrow>
        if b0 < 0x80 then (b0, 1, True)
        else if 0xC2 \<le> b0 \<and> b0 \<le> 0xDF then
          (case r of b1 # _ \<Rightarrow>
             if is_cont b1 then ((b0 - 0xC0) * 64 + (b1 - 0x80), 2, True) else (rune_error, 1, False)
           | _ \<Rightarrow> (rune_error, 1, False))
        else if 0xE0 \<le> b0 \<and> b0 \<le> 0xEF then
          (case r of b1 # b2 # _ \<Rightarrow>
             if second_ok b0 b1 \<and> is_cont b2
             then ((b0 - 0xE0) * 4096 + (b1 - 0x80) * 64 + (b2 - 0x80), 3, True)
             else (rune_error, 1, False)
           | _ \<Rightarrow> (rune_error, 1, False))
        else if 0xF0 \<le> b0 \<and> b0 \<le> 0xF4 then
          (case r of b1 # b2 # b3 # _ \<Rightarrow>
             if second_ok b0 b1 \<and> is_cont b2 \<and> is_cont b3
             then ((b0 - 0xF0) * 262144 + (b1 - 0x80) * 4096 + (b2 - 0x80) * 64 + (b3 - 0x80), 4, True)
             else (rune_error, 1, False)
           | _ \<Rightarrow> (rune_error, 1, False))
        else (rune_error, 1, False))"

text \<open>The runes of a string with the bytes each came from and whether they were valid:
  what a \<open>range\<close> loop sees.\<close>
function rune_chunks :: "string \<Rightarrow> (nat \<times> string \<times> bool) list" where
  "rune_chunks [] = []"
| "rune_chunks (c # s) =
     (let (r, w, ok) = decode_rune (map of_char (c # s))
      in (r, take (max 1 w) (c # s), ok) # rune_chunks (drop (max 1 w) (c # s)))"
  by pat_completeness auto
termination
  by (relation "measure length") auto

definition runes :: "string \<Rightarrow> nat list" where
  "runes s = map fst (rune_chunks s)"

text \<open>\<open>utf8.ValidString\<close> and \<open>utf8.RuneCountInString\<close>.\<close>
definition valid_utf8 :: "string \<Rightarrow> bool" where
  "valid_utf8 s \<longleftrightarrow> list_all (\<lambda>(r, b, ok). ok) (rune_chunks s)"

definition rune_count :: "string \<Rightarrow> nat" where
  "rune_count s = length (rune_chunks s)"

text \<open>\<open>strings.Builder.WriteRune\<close>: a surrogate or a value out of range writes the rune error.\<close>
definition encode_rune :: "nat \<Rightarrow> string" where
  "encode_rune r0 =
     (let r = (if r0 > 0x10FFFF \<or> 0xD800 \<le> r0 \<and> r0 \<le> 0xDFFF then rune_error else r0)
      in if r < 0x80 then [chr r]
         else if r < 0x800 then [chr (0xC0 + r div 64), chr (0x80 + r mod 64)]
         else if r < 0x10000 then
           [chr (0xE0 + r div 4096), chr (0x80 + r div 64 mod 64), chr (0x80 + r mod 64)]
         else [chr (0xF0 + r div 262144), chr (0x80 + r div 4096 mod 64),
               chr (0x80 + r div 64 mod 64), chr (0x80 + r mod 64)])"

definition encode_runes :: "nat list \<Rightarrow> string" where
  "encode_runes rs = concat (map encode_rune rs)"

lemma concat_chunks [simp]: "concat (map (\<lambda>(r, b, ok). b) (rune_chunks s)) = s"
proof (induction s rule: rune_chunks.induct)
  case (2 c s)
  obtain r w ok where d: "decode_rune (map of_char (c # s)) = (r, w, ok)"
    by (metis prod_cases3)
  have "take (max 1 w) (c # s) @ concat (map (\<lambda>(r, b, ok). b) (rune_chunks (drop (max 1 w) (c # s)))) = c # s"
    using 2 [OF d [symmetric] refl refl] by (metis append_take_drop_id)
  then show ?case using d by simp
qed simp

declare rune_chunks.simps(2) [simp del]

lemma decode_rune_ascii: "b < 128 \<Longrightarrow> decode_rune (b # bs) = (b, 1, True)"
  by (simp add: decode_rune_def)

lemma rune_chunks_ascii_Cons:
  "byte c < 128 \<Longrightarrow> rune_chunks (c # s) = (byte c, [c], True) # rune_chunks s"
  by (simp add: decode_rune_ascii rune_chunks.simps(2))

lemma rune_chunks_ascii:
  "(\<And>c. c \<in> set s \<Longrightarrow> byte c < 128) \<Longrightarrow> rune_chunks s = map (\<lambda>c. (byte c, [c], True)) s"
  by (induction s) (auto simp: rune_chunks_ascii_Cons)

lemma rune_chunks_eq_Nil [simp]: "rune_chunks s = [] \<longleftrightarrow> s = []"
  by (cases s) (auto simp: split_beta Let_def rune_chunks.simps(2))

lemma decode_rune_append:
  assumes "decode_rune bs = (r, w, True)"
  shows "decode_rune (bs @ ys) = (r, w, True)"
  using assms by (auto simp: decode_rune_def split: list.splits if_splits)

lemma byte_small: "n < 256 \<Longrightarrow> byte (chr n) = n"
  by simp

lemma decode_two:
  assumes "2 \<le> a" "a < 32" "c < 64"
  shows "decode_rune [0xC0 + a, 0x80 + c] = (a * 64 + c, 2, True)"
  using assms by (simp add: decode_rune_def is_cont_def)

lemma decode_three:
  assumes "a < 16" "b < 64" "c < 64" "a = 0 \<longrightarrow> 32 \<le> b" "a = 13 \<longrightarrow> b < 32"
  shows "decode_rune [0xE0 + a, 0x80 + b, 0x80 + c] = (a * 4096 + b * 64 + c, 3, True)"
proof -
  have "second_ok (0xE0 + a) (0x80 + b)" "is_cont (0x80 + c)"
    using assms by (auto simp: second_ok_def is_cont_def)
  then show ?thesis using assms(1) by (simp add: decode_rune_def)
qed

lemma is_cont_plus [simp]: "is_cont (0x80 + c) \<longleftrightarrow> c < 64"
  by (simp add: is_cont_def) arith

lemma second_ok_four:
  assumes "a < 5" "b < 64" "a = 0 \<longrightarrow> 16 \<le> b" "a = 4 \<longrightarrow> b < 16"
  shows "second_ok (0xF0 + a) (0x80 + b)"
proof -
  consider "a = 0" | "a = 1" | "a = 2" | "a = 3" | "a = 4" using assms(1) by linarith
  then show ?thesis using assms(2-) by cases (simp_all add: second_ok_def is_cont_def)
qed

lemma decode_four:
  assumes "a < 5" "second_ok (0xF0 + a) (0x80 + b)" "c < 64" "d < 64"
  shows "decode_rune [0xF0 + a, 0x80 + b, 0x80 + c, 0x80 + d] = (a * 262144 + b * 4096 + c * 64 + d, 4, True)"
proof -
  consider "a = 0" | "a = 1" | "a = 2" | "a = 3" | "a = 4" using assms(1) by linarith
  then show ?thesis using assms(2-) by cases (simp_all add: decode_rune_def)
qed

lemma split_64:
  fixes r :: nat
  shows "r div 64 * 64 + r mod 64 = r"
    and "r div 4096 * 4096 + r div 64 mod 64 * 64 + r mod 64 = r"
    and "r div 262144 * 262144 + r div 4096 mod 64 * 4096 + r div 64 mod 64 * 64 + r mod 64 = r"
proof -
  have q: "r div 4096 = r div 64 div 64" "r div 262144 = r div 64 div 64 div 64"
    by (simp_all add: div_mult2_eq [symmetric])
  have 1: "r div 64 * 64 + r mod 64 = r" by (rule div_mult_mod_eq)
  have 2: "r div 64 div 64 * 64 + r div 64 mod 64 = r div 64" by (rule div_mult_mod_eq)
  have 3: "r div 64 div 64 div 64 * 64 + r div 64 div 64 mod 64 = r div 64 div 64"
    by (rule div_mult_mod_eq)
  show "r div 64 * 64 + r mod 64 = r" by (rule 1)
  show "r div 4096 * 4096 + r div 64 mod 64 * 64 + r mod 64 = r" unfolding q using 1 2 by linarith
  show "r div 262144 * 262144 + r div 4096 mod 64 * 4096 + r div 64 mod 64 * 64 + r mod 64 = r"
    unfolding q using 1 2 3 by linarith
qed

lemma decode_encode_rune:
  assumes "r \<le> 0x10FFFF" "\<not> (0xD800 \<le> r \<and> r \<le> 0xDFFF)"
  shows "decode_rune (map of_char (encode_rune r)) = (r, length (encode_rune r), True)"
proof -
  consider (1) "r < 0x80" | (2) "0x80 \<le> r" "r < 0x800" | (3) "0x800 \<le> r" "r < 0x10000"
    | (4) "0x10000 \<le> r" by linarith
  then show ?thesis
  proof cases
    case 1
    then show ?thesis by (simp add: encode_rune_def decode_rune_def)
  next
    case 2
    define a c where "a = r div 64" and "c = r mod 64"
    have e: "encode_rune r = [chr (0xC0 + a), chr (0x80 + c)]"
      using 2 by (simp add: encode_rune_def a_def c_def)
    have v: "c < 64" "a * 64 + c = r" unfolding a_def c_def by (simp_all add: split_64)
    have "2 \<le> a" "a < 32" using v 2 by linarith+
    show ?thesis unfolding e list.map using v \<open>2 \<le> a\<close> \<open>a < 32\<close>
      by (simp add: byte_small decode_two)
  next
    case 3
    define a b c where "a = r div 4096" and "b = r div 64 mod 64" and "c = r mod 64"
    have e: "encode_rune r = [chr (0xE0 + a), chr (0x80 + b), chr (0x80 + c)]"
      using 3 assms by (auto simp add: encode_rune_def a_def b_def c_def Let_def)
    have v: "b < 64" "c < 64" "a * 4096 + b * 64 + c = r"
      unfolding a_def b_def c_def by (simp_all add: split_64)
    have "a < 16" using v(3) 3(2) by linarith
    have "32 \<le> b" if "a = 0" using v that 3(1) by simp
    moreover have "b < 32" if "a = 13" using v that assms(2) by simp
    ultimately have w: "a = 0 \<longrightarrow> 32 \<le> b" "a = 13 \<longrightarrow> b < 32" by blast+
    show ?thesis unfolding e list.map using v w \<open>a < 16\<close> by (simp add: byte_small decode_three)
  next
    case 4
    define a b c d where "a = r div 262144" and "b = r div 4096 mod 64"
      and "c = r div 64 mod 64" and "d = r mod 64"
    have e: "encode_rune r = [chr (0xF0 + a), chr (0x80 + b), chr (0x80 + c), chr (0x80 + d)]"
      using 4 assms by (simp add: encode_rune_def a_def b_def c_def d_def)
    have v: "b < 64" "c < 64" "d < 64" "a * 262144 + b * 4096 + c * 64 + d = r"
      unfolding a_def b_def c_def d_def by (simp_all add: split_64)
    have "a < 5" using v(4) assms(1) by linarith
    have "16 \<le> b" if "a = 0" using v that 4 by simp
    moreover have "b < 16" if "a = 4" using v that assms(1) by simp
    ultimately have w: "a = 0 \<longrightarrow> 16 \<le> b" "a = 4 \<longrightarrow> b < 16" by blast+
    show ?thesis unfolding e list.map using v w \<open>a < 5\<close> by (simp add: byte_small decode_four second_ok_four)
  qed
qed

lemma encode_rune_nonempty [simp]: "encode_rune r \<noteq> []"
  by (simp add: encode_rune_def Let_def)

definition scalar_value :: "nat \<Rightarrow> bool" where
  "scalar_value r \<longleftrightarrow> r \<le> 0x10FFFF \<and> \<not> (0xD800 \<le> r \<and> r \<le> 0xDFFF)"

lemma rune_chunks_encode_append:
  assumes "scalar_value r"
  shows "rune_chunks (encode_rune r @ s) = (r, encode_rune r, True) # rune_chunks s"
proof -
  obtain c t where ct: "encode_rune r = c # t" by (cases "encode_rune r") auto
  have d: "decode_rune (map of_char (encode_rune r @ s)) = (r, length (encode_rune r), True)"
    using decode_rune_append [OF decode_encode_rune] assms by (simp add: scalar_value_def)
  show ?thesis
    using d unfolding ct by (simp add: rune_chunks.simps(2))
qed

text \<open>Writing runes and reading them back is the identity: every string the code builds rune by
  rune is valid UTF-8 with exactly those runes.\<close>
lemma rune_chunks_encode_runes:
  "list_all scalar_value rs \<Longrightarrow>
   rune_chunks (encode_runes rs) = map (\<lambda>r. (r, encode_rune r, True)) rs"
  by (induction rs) (simp_all add: encode_runes_def rune_chunks_encode_append)

lemma runes_encode_runes: "list_all scalar_value rs \<Longrightarrow> runes (encode_runes rs) = rs"
  by (simp add: runes_def rune_chunks_encode_runes comp_def)

lemma valid_utf8_encode_runes: "list_all scalar_value rs \<Longrightarrow> valid_utf8 (encode_runes rs)"
  by (simp add: valid_utf8_def rune_chunks_encode_runes list_all_iff)

lemma is_cont_obtain: "is_cont b \<Longrightarrow> \<exists>c < 64. b = 0x80 + c"
  unfolding is_cont_def by presburger

lemma second_ok_cont: "second_ok b0 b1 \<Longrightarrow> is_cont b1"
  by (auto simp: second_ok_def is_cont_def split: if_splits)

lemma scalar_two:
  assumes "b0 \<le> 0xDF" "is_cont b1"
  shows "scalar_value ((b0 - 0xC0) * 64 + (b1 - 0x80))"
proof -
  obtain c where "b1 = 0x80 + c" "c < 64" using is_cont_obtain [OF assms(2)] by auto
  moreover have "b0 - 0xC0 \<le> 31" using assms(1) by simp
  ultimately show ?thesis by (simp add: scalar_value_def)
qed

lemma scalar_three:
  assumes "0xE0 \<le> b0" "b0 \<le> 0xEF" "second_ok b0 b1" "is_cont b2"
  shows "scalar_value ((b0 - 0xE0) * 4096 + (b1 - 0x80) * 64 + (b2 - 0x80))"
proof -
  obtain c where c: "b2 = 0x80 + c" "c < 64" using is_cont_obtain [OF assms(4)] by auto
  obtain b where b: "b1 = 0x80 + b" "b < 64"
    using is_cont_obtain [OF second_ok_cont [OF assms(3)]] by auto
  obtain a where a: "b0 = 0xE0 + a" using assms(1) le_Suc_ex by blast
  have a15: "a \<le> 15" using assms(2) a by simp
  have "b < 32" if "a = 13" using assms(3) unfolding that a b by (simp add: second_ok_def)
  then have "\<not> (0xD800 \<le> a * 4096 + b * 64 + c \<and> a * 4096 + b * 64 + c \<le> 0xDFFF)"
  proof -
    assume h: "a = 13 \<Longrightarrow> b < 32"
    consider "a = 13" "b < 32" | "a < 13" | "13 < a" using h by linarith
    then show ?thesis using b(2) c(2) by cases linarith+
  qed
  moreover have "a * 4096 + b * 64 + c \<le> 0x10FFFF" using a15 b(2) c(2) by linarith
  ultimately show ?thesis by (simp add: a b c scalar_value_def)
qed

lemma scalar_four:
  assumes "0xF0 \<le> b0" "b0 \<le> 0xF4" "second_ok b0 b1" "is_cont b2" "is_cont b3"
  shows "scalar_value ((b0 - 0xF0) * 262144 + (b1 - 0x80) * 4096 + (b2 - 0x80) * 64 + (b3 - 0x80))"
proof -
  obtain c where c: "b2 = 0x80 + c" "c < 64" using is_cont_obtain [OF assms(4)] by auto
  obtain d where d: "b3 = 0x80 + d" "d < 64" using is_cont_obtain [OF assms(5)] by auto
  obtain b where b: "b1 = 0x80 + b" "b < 64"
    using is_cont_obtain [OF second_ok_cont [OF assms(3)]] by auto
  obtain a where a: "b0 = 0xF0 + a" using assms(1) le_Suc_ex by blast
  have lo: "16 \<le> b" if "a = 0" using assms(3) unfolding that a b by (simp add: second_ok_def)
  have hi: "b < 16" if "a = 4" using assms(3) unfolding that a b by (simp add: second_ok_def)
  have a4: "a \<le> 4" using assms(2) a by simp
  have "0x10000 \<le> a * 262144 + b * 4096 + c * 64 + d" using lo by (cases "a = 0") simp_all
  moreover have "a * 262144 + b * 4096 + c * 64 + d \<le> 0x10FFFF"
    using hi a4 b(2) c(2) d(2) by (cases "a = 4") simp_all
  ultimately show ?thesis by (simp add: a b c d scalar_value_def)
qed

lemma scalar_byte: "b < 128 \<Longrightarrow> scalar_value b" and scalar_error: "scalar_value rune_error"
  by (simp_all add: scalar_value_def rune_error_def)

lemma decode_rune_scalar: "scalar_value (fst (decode_rune bs))"
  unfolding decode_rune_def
  by (simp add: scalar_two scalar_three scalar_four scalar_byte scalar_error split: list.split)

lemma runes_scalar: "list_all scalar_value (runes s)"
proof (induction s rule: rune_chunks.induct)
  case (2 c s)
  obtain r w ok where d: "decode_rune (map of_char (c # s)) = (r, w, ok)"
    by (metis prod_cases3)
  have "scalar_value r" using decode_rune_scalar [of "map of_char (c # s)"] d by simp
  with 2 d show ?case by (simp add: runes_def rune_chunks.simps(2))
qed (simp add: runes_def)

section \<open>Character classes\<close>

text \<open>\<open>unicode.IsSpace\<close>, \<open>unicode.IsControl\<close> and \<open>unicode.Is(unicode.Cf, _)\<close>.\<close>
definition is_space :: "nat \<Rightarrow> bool" where
  "is_space r \<longleftrightarrow> (9 \<le> r \<and> r \<le> 13) \<or> r = 32 \<or> r = 0x85 \<or> r = 0xA0 \<or> r = 0x1680
     \<or> (0x2000 \<le> r \<and> r \<le> 0x200A) \<or> r = 0x2028 \<or> r = 0x2029 \<or> r = 0x202F \<or> r = 0x205F \<or> r = 0x3000"

definition is_control :: "nat \<Rightarrow> bool" where
  "is_control r \<longleftrightarrow> r < 32 \<or> (0x7F \<le> r \<and> r < 0xA0)"

definition cf_ranges :: "(nat \<times> nat) list" where
  "cf_ranges = [(0xAD, 0xAD), (0x600, 0x605), (0x61C, 0x61C), (0x6DD, 0x6DD), (0x70F, 0x70F),
     (0x890, 0x891), (0x8E2, 0x8E2), (0x180E, 0x180E), (0x200B, 0x200F), (0x202A, 0x202E),
     (0x2060, 0x2064), (0x2066, 0x206F), (0xFEFF, 0xFEFF), (0xFFF9, 0xFFFB), (0x110BD, 0x110BD),
     (0x110CD, 0x110CD), (0x13430, 0x1343F), (0x1BCA0, 0x1BCA3), (0x1D173, 0x1D17A),
     (0xE0001, 0xE0001), (0xE0020, 0xE007F)]"

definition is_format :: "nat \<Rightarrow> bool" where
  "is_format r \<longleftrightarrow> list_ex (\<lambda>(a, b). a \<le> r \<and> r \<le> b) cf_ranges"

section \<open>Trimming and fields\<close>

abbreviation chunk_space :: "nat \<times> string \<times> bool \<Rightarrow> bool" where
  "chunk_space x \<equiv> is_space (fst x)"

abbreviation chunk_bytes :: "(nat \<times> string \<times> bool) list \<Rightarrow> string" where
  "chunk_bytes xs \<equiv> concat (map (\<lambda>(r, b, ok). b) xs)"

text \<open>\<open>strings.TrimSpace\<close>.\<close>
definition trim_space :: "string \<Rightarrow> string" where
  "trim_space s =
     chunk_bytes (rev (dropWhile chunk_space (rev (dropWhile chunk_space (rune_chunks s)))))"

text \<open>\<open>strings.Fields\<close>: the maximal runs of runes that are not space.\<close>
function fields_of :: "(nat \<times> string \<times> bool) list \<Rightarrow> string list" where
  "fields_of xs =
     (let ys = dropWhile chunk_space xs
      in if ys = [] then []
         else chunk_bytes (takeWhile (\<lambda>x. \<not> chunk_space x) ys) #
              fields_of (dropWhile (\<lambda>x. \<not> chunk_space x) ys))"
  by pat_completeness auto
termination
proof (relation "measure length", simp)
  fix xs ys :: "(nat \<times> string \<times> bool) list"
  assume ys: "ys = dropWhile chunk_space xs" and ne: "ys \<noteq> []"
  have "\<not> chunk_space (hd ys)" using ne hd_dropWhile [of chunk_space xs] by (simp add: ys)
  then have "length (dropWhile (\<lambda>x. \<not> chunk_space x) ys) < length ys"
    using ne length_dropWhile_le [of "\<lambda>x. \<not> chunk_space x" "tl ys"] by (cases ys) auto
  also have "\<dots> \<le> length xs" by (simp add: ys length_dropWhile_le)
  finally show "(dropWhile (\<lambda>x. \<not> chunk_space x) ys, xs) \<in> measure length" by simp
qed

declare fields_of.simps [simp del]

definition fields :: "string \<Rightarrow> string list" where
  "fields s = fields_of (rune_chunks s)"

definition join_space :: "string list \<Rightarrow> string" where
  "join_space ps = (case ps of [] \<Rightarrow> [] | p # qs \<Rightarrow> p @ concat (map (\<lambda>q. CHR '' '' # q) qs))"

lemma dropWhile_none: "(\<And>x. x \<in> set xs \<Longrightarrow> \<not> P x) \<Longrightarrow> dropWhile P xs = xs"
  by (cases xs) auto

lemma trim_space_ascii_id:
  assumes "\<And>c. c \<in> set s \<Longrightarrow> byte c < 128 \<and> \<not> is_space (byte c)"
  shows "trim_space s = s"
proof -
  have c: "rune_chunks s = map (\<lambda>c. (byte c, [c], True)) s"
    using assms by (intro rune_chunks_ascii) auto
  have "\<not> chunk_space x" if "x \<in> set (rune_chunks s)" for x
    using that assms by (auto simp: c)
  then have "dropWhile chunk_space (rune_chunks s) = rune_chunks s"
    "dropWhile chunk_space (rev (rune_chunks s)) = rev (rune_chunks s)"
    by (auto intro!: dropWhile_none)
  then show ?thesis by (simp add: trim_space_def)
qed

end
