(* ===== verification/GoNet.thy ===== *)
theory GoNet
  imports Utf8
begin

text \<open>
  The parts of Go's \<open>net/url\<close> and \<open>net\<close> packages the code uses: \<open>url.Parse\<close> with the fields the
  checks read, \<open>URL.Hostname\<close>, \<open>URL.Port\<close>, and the dotted form of \<open>net.ParseIP\<close>.
  \<open>RawPath\<close> is left out: Go sets it only together with a non-empty \<open>Path\<close>, and the code only asks
  whether either is non-empty.
\<close>

record url =
  scheme :: string
  opaque :: string
  user :: "string option"
  host :: string
  path :: string
  raw_query :: string
  force_query :: bool
  fragment :: string

section \<open>Percent escapes\<close>

definition is_hex :: "char \<Rightarrow> bool" where
  "is_hex c \<longleftrightarrow> is_digit c \<or> (97 \<le> byte c \<and> byte c \<le> 102) \<or> (65 \<le> byte c \<and> byte c \<le> 70)"

definition unhex :: "char \<Rightarrow> nat" where
  "unhex c = (if is_digit c then byte c - 48 else if byte c \<ge> 97 then byte c - 87 else byte c - 55)"

text \<open>Bytes that may stand unescaped in a host: unreserved characters, and the delimiters Go
  lets through.\<close>
definition host_char :: "char \<Rightarrow> bool" where
  "host_char c \<longleftrightarrow> is_lower c \<or> is_upper c \<or> is_digit c \<or> c \<in> set ''-_.~!$&()*+,;=:[]<>'' \<or> byte c = 34 \<or> byte c = 39
     \<or> 128 \<le> byte c"

datatype escape_mode = InHost | InOther

fun unescape :: "escape_mode \<Rightarrow> string \<Rightarrow> string option" where
  "unescape m [] = Some []"
| "unescape m (c # s) =
     (if c = CHR ''%'' then
        (case s of a # b # r \<Rightarrow>
           if is_hex a \<and> is_hex b
              \<and> \<not> (m = InHost \<and> unhex a < 8 \<and> \<not> (a = CHR ''2'' \<and> b = CHR ''5''))
           then map_option (\<lambda>t. chr (unhex a * 16 + unhex b) # t) (unescape m r)
           else None
         | _ \<Rightarrow> None)
      else if m = InHost \<and> \<not> host_char c then None
      else map_option (\<lambda>t. c # t) (unescape m s))"

section \<open>url.Parse\<close>

definition scheme_char :: "char \<Rightarrow> bool" where
  "scheme_char c \<longleftrightarrow> is_digit c \<or> c = CHR ''+'' \<or> c = CHR ''-'' \<or> c = CHR ''.''"

text \<open>\<open>getScheme\<close>: \<open>None\<close> is an error.  The first argument is the scheme read so far, reversed.\<close>
fun get_scheme_from :: "string \<Rightarrow> string \<Rightarrow> string \<Rightarrow> (string \<times> string) option" where
  "get_scheme_from raw acc [] = Some ([], raw)"
| "get_scheme_from raw acc (c # s) =
     (if is_lower c \<or> is_upper c then get_scheme_from raw (c # acc) s
      else if scheme_char c then
        (if acc = [] then Some ([], raw) else get_scheme_from raw (c # acc) s)
      else if c = CHR '':'' then (if acc = [] then None else Some (rev acc, s))
      else Some ([], raw))"

definition get_scheme :: "string \<Rightarrow> (string \<times> string) option" where
  "get_scheme raw = get_scheme_from raw [] raw"

definition valid_optional_port :: "string \<Rightarrow> bool" where
  "valid_optional_port p \<longleftrightarrow> (case p of [] \<Rightarrow> True | c # d \<Rightarrow> c = CHR '':'' \<and> list_all is_digit d)"

text \<open>\<open>parseHost\<close>.  A host with an opening bracket must close it and carry only a port after it.\<close>
definition parse_host :: "string \<Rightarrow> string option" where
  "parse_host h =
     (if CHR ''['' \<in> set h then
        (case last_index (CHR '']'') h of None \<Rightarrow> None
         | Some i \<Rightarrow> if valid_optional_port (drop (Suc i) h) then unescape InHost h else None)
      else case last_index (CHR '':'') h of
        Some i \<Rightarrow> if valid_optional_port (drop i h) then unescape InHost h else None
      | None \<Rightarrow> unescape InHost h)"

definition userinfo_char :: "char \<Rightarrow> bool" where
  "userinfo_char c \<longleftrightarrow> is_lower c \<or> is_upper c \<or> is_digit c \<or> c \<in> set ''-._:~!$&()*+,;=%@'' \<or> byte c = 39"

definition parse_authority :: "string \<Rightarrow> (string option \<times> string) option" where
  "parse_authority a =
     (case last_index (CHR ''@'') a of
        None \<Rightarrow> map_option (\<lambda>h. (None, h)) (parse_host a)
      | Some i \<Rightarrow>
          (case parse_host (drop (Suc i) a) of None \<Rightarrow> None
           | Some h \<Rightarrow>
             if list_all userinfo_char (take i a)
             then map_option (\<lambda>u. (Some u, h)) (unescape InOther (take i a)) else None))"

definition control_byte :: "char \<Rightarrow> bool" where
  "control_byte c \<longleftrightarrow> byte c < 32 \<or> byte c = 127"

definition empty_url :: url where
  "empty_url = \<lparr>scheme = [], opaque = [], user = None, host = [], path = [], raw_query = [],
     force_query = False, fragment = []\<rparr>"

text \<open>\<open>strings.Cut(rest, "?")\<close>, and the lone trailing question mark that only forces a query.\<close>
definition split_query :: "string \<Rightarrow> string \<times> string \<times> bool" where
  "split_query rest =
     (case cut_at (CHR ''?'') rest of
        None \<Rightarrow> (rest, [], False)
      | Some (a, q) \<Rightarrow> (a, q, q = []))"

definition url_parse_main :: "string \<Rightarrow> url option" where
  "url_parse_main raw =
     (if list_ex control_byte raw then None
      else if raw = ''*'' then Some (empty_url\<lparr>path := ''*''\<rparr>)
      else case get_scheme raw of None \<Rightarrow> None
      | Some (sc, rest0) \<Rightarrow>
        let (rest, q, force) = split_query rest0;
            u = empty_url\<lparr>scheme := to_lower sc, raw_query := q, force_query := force\<rparr>
        in if \<not> has_prefix rest ''/'' \<and> sc \<noteq> [] then Some (u\<lparr>opaque := rest\<rparr>)
           else if \<not> has_prefix rest ''/'' \<and> CHR '':'' \<in> set (takeWhile (\<lambda>c. c \<noteq> CHR ''/'') rest) then None
           else if (sc \<noteq> [] \<or> \<not> has_prefix rest ''///'') \<and> has_prefix rest ''//'' then
             (let au = takeWhile (\<lambda>c. c \<noteq> CHR ''/'') (drop 2 rest);
                  p = dropWhile (\<lambda>c. c \<noteq> CHR ''/'') (drop 2 rest)
              in case parse_authority au of None \<Rightarrow> None
                 | Some (us, h) \<Rightarrow>
                   map_option (\<lambda>p'. u\<lparr>user := us, host := h, path := p'\<rparr>) (unescape InOther p))
           else map_option (\<lambda>p'. u\<lparr>path := p'\<rparr>) (unescape InOther rest))"

definition url_parse :: "string \<Rightarrow> url option" where
  "url_parse raw =
     (case cut_at (CHR ''#'') raw of
        None \<Rightarrow> url_parse_main raw
      | Some (a, f) \<Rightarrow>
          (case url_parse_main a of None \<Rightarrow> None
           | Some u \<Rightarrow> map_option (\<lambda>f'. u\<lparr>fragment := f'\<rparr>) (unescape InOther f)))"

text \<open>\<open>splitHostPort\<close> of \<open>URL.Hostname\<close> and \<open>URL.Port\<close>.\<close>
definition split_host_port :: "string \<Rightarrow> string \<times> string" where
  "split_host_port hp =
     (let (h, p) = (case last_index (CHR '':'') hp of
            Some i \<Rightarrow> if valid_optional_port (drop i hp) then (take i hp, drop (Suc i) hp) else (hp, [])
          | None \<Rightarrow> (hp, []))
      in if has_prefix h ''['' \<and> has_suffix h '']'' then (butlast (tl h), p) else (h, p))"

definition hostname :: "url \<Rightarrow> string" where "hostname u = fst (split_host_port (host u))"
definition port :: "url \<Rightarrow> string" where "port u = snd (split_host_port (host u))"

section \<open>net.ParseIP, dotted form\<close>

definition ipv4_field :: "string \<Rightarrow> nat option" where
  "ipv4_field f =
     (if all_digits f \<and> length f \<le> 3 \<and> (length f > 1 \<longrightarrow> hd f \<noteq> CHR ''0'') \<and> digits_val f \<le> 255
      then Some (digits_val f) else None)"

definition parse_ipv4 :: "string \<Rightarrow> (nat \<times> nat \<times> nat \<times> nat) option" where
  "parse_ipv4 s =
     (case map ipv4_field (split_on (CHR ''.'') s) of
        [Some a, Some b, Some c, Some d] \<Rightarrow> Some (a, b, c, d)
      | _ \<Rightarrow> None)"

section \<open>A host of plain characters\<close>

lemma unescape_plain:
  "(\<And>c. c \<in> set s \<Longrightarrow> c \<noteq> CHR ''%'' \<and> (m = InHost \<longrightarrow> host_char c)) \<Longrightarrow> unescape m s = Some s"
  by (induction s) auto

text \<open>Parsing \<open>https://\<close> and an authority of plain characters with an optional port.\<close>
definition plain_host_char :: "char \<Rightarrow> bool" where
  "plain_host_char c \<longleftrightarrow> is_lower c \<or> is_digit c \<or> c = CHR ''-'' \<or> c = CHR ''.''"

lemma plain_host_char_simps:
  assumes "plain_host_char c"
  shows "\<not> control_byte c" "host_char c" "c \<noteq> CHR ''%''" "c \<noteq> CHR '':''" "c \<noteq> CHR ''/''"
    "c \<noteq> CHR ''?''" "c \<noteq> CHR ''#''" "c \<noteq> CHR ''@''" "c \<noteq> CHR ''[''" "c \<noteq> CHR '']''"
    "byte c < 128" "\<not> is_space (byte c)" "\<not> is_upper c"
proof -
  have h: "(97 \<le> byte c \<and> byte c \<le> 122) \<or> (48 \<le> byte c \<and> byte c \<le> 57) \<or> byte c = 45 \<or> byte c = 46"
    using assms by (auto simp: plain_host_char_def is_lower_def is_digit_def)
  show "\<not> control_byte c" "byte c < 128" "\<not> is_space (byte c)" "\<not> is_upper c"
    using h by (auto simp: control_byte_def is_space_def is_upper_def)
  show "host_char c"
    using assms unfolding plain_host_char_def host_char_def by (elim disjE) simp_all
  show "c \<noteq> CHR ''%''" "c \<noteq> CHR '':''" "c \<noteq> CHR ''/''"
    "c \<noteq> CHR ''?''" "c \<noteq> CHR ''#''" "c \<noteq> CHR ''@''" "c \<noteq> CHR ''[''" "c \<noteq> CHR '']''"
    using h by auto
qed

lemma is_digit_plain: "is_digit c \<Longrightarrow> plain_host_char c"
  by (simp add: plain_host_char_def)

lemma last_index_append_notin:
  "c \<notin> set b \<Longrightarrow> last_index c (a @ c # b) = Some (length a)"
  by (simp add: last_index_def cut_at_append)

lemma url_parse_https_plain:
  assumes au: "\<And>c. c \<in> set au \<Longrightarrow> plain_host_char c \<or> c = CHR '':''"
    and ph: "parse_host au = Some au"
  shows "url_parse (''https://'' @ au) =
     Some (empty_url\<lparr>scheme := ''https'', host := au\<rparr>)"
proof -
  have ne: "c \<noteq> d" if "c \<in> set au" "\<not> plain_host_char d" "d \<noteq> CHR '':''" for c d
    using au [OF that(1)] that(2,3) by auto
  have np: "\<not> plain_host_char (CHR ''#'')" "\<not> plain_host_char (CHR ''?'')"
    "\<not> plain_host_char (CHR ''/'')" "\<not> plain_host_char (CHR ''@'')"
    using plain_host_char_simps by blast+
  have notin: "CHR ''#'' \<notin> set au" "CHR ''?'' \<notin> set au" "CHR ''/'' \<notin> set au" "CHR ''@'' \<notin> set au"
    using ne np by blast+
  have "\<not> control_byte c" if "c \<in> set au" for c
    using au [OF that] plain_host_char_simps(1) [of c] by (auto simp: control_byte_def)
  then have ctl: "\<not> list_ex control_byte (''https://'' @ au)"
    by (auto simp: list_ex_iff control_byte_def)
  have gs: "get_scheme (''https://'' @ au) = Some (''https'', ''//'' @ au)"
    by (simp add: get_scheme_def is_lower_def is_upper_def scheme_char_def is_digit_def)
  have sq: "split_query (CHR ''/'' # CHR ''/'' # au) = (CHR ''/'' # CHR ''/'' # au, [], False)"
    using notin by (simp add: split_query_def cut_at_None [THEN iffD2])
  have lo: "to_lower ''https'' = ''https''"
    by (simp add: to_lower_def lower_char_def is_upper_def)
  have tw: "takeWhile (\<lambda>c. c \<noteq> CHR ''/'') au = au" "dropWhile (\<lambda>c. c \<noteq> CHR ''/'') au = []"
    using notin by (auto simp: takeWhile_eq_all_conv dropWhile_eq_Nil_conv)
  have pa: "parse_authority au = Some (None, au)"
    using notin ph by (simp add: parse_authority_def last_index_None [THEN iffD2])
  have star: "''https://'' @ au \<noteq> ''*''" by simp
  have "url_parse_main (''https://'' @ au) =
      Some (empty_url\<lparr>scheme := ''https'', host := au\<rparr>)"
    unfolding url_parse_main_def if_not_P [OF ctl] if_not_P [OF star] gs
    by (simp add: sq lo tw pa empty_url_def)
  moreover have "cut_at (CHR ''#'') (''https://'' @ au) = None"
    using notin by (intro cut_at_None [THEN iffD2]) simp
  ultimately show ?thesis by (simp add: url_parse_def)
qed

end
