(* ===== verification/AccessConfig.thy ===== *)
theory AccessConfig
  imports GoNet
begin

text \<open>
  \<open>internal/access/config.go\<close>: the session lifetime setting and the canonical public origin.
  The main results are that a lifetime and its text form are inverse to each other, and that
  \<open>ParseCanonicalOrigin\<close> accepts exactly the texts the error message describes.
\<close>

section \<open>Session lifetimes\<close>

definition max_session_days :: nat where "max_session_days = 365"
definition default_session_lifetime :: string where "default_session_lifetime = ''30d''"

record session_lifetime =
  days :: nat
  no_expiry :: bool

definition lifetime_string :: "session_lifetime \<Rightarrow> string" where
  "lifetime_string l = (if no_expiry l then ''none'' else itoa (days l) @ ''d'')"

definition lifetime_duration :: "session_lifetime \<Rightarrow> duration" where
  "lifetime_duration l = (if no_expiry l then 0 else int (days l) * 24 * hour)"

datatype config_error = InvalidLifetime | InvalidOrigin

definition parse_session_lifetime :: "string \<Rightarrow> config_error + session_lifetime" where
  "parse_session_lifetime v =
     (if v = ''none'' then Inr \<lparr>days = 0, no_expiry = True\<rparr>
      else if length v < 2 \<or> last v \<noteq> CHR ''d'' then Inl InvalidLifetime
      else let t = butlast v in
        if has_prefix t ''+'' \<or> length t > 3 \<or> (length t > 1 \<and> hd t = CHR ''0'') then Inl InvalidLifetime
        else if \<not> list_all is_digit t then Inl InvalidLifetime
        else case atoi t of None \<Rightarrow> Inl InvalidLifetime
          | Some d \<Rightarrow> if d < 1 \<or> d > int max_session_days then Inl InvalidLifetime
                      else Inr \<lparr>days = nat d, no_expiry = False\<rparr>)"

text \<open>The lifetimes the parser yields.\<close>
definition lifetime_ok :: "session_lifetime \<Rightarrow> bool" where
  "lifetime_ok l \<longleftrightarrow> (if no_expiry l then days l = 0 else 1 \<le> days l \<and> days l \<le> max_session_days)"

lemma parse_lifetime_ok: "parse_session_lifetime v = Inr l \<Longrightarrow> lifetime_ok l"
  by (auto simp: parse_session_lifetime_def lifetime_ok_def Let_def split: if_splits option.splits)

lemma digits_rev_three: "n < 1000 \<Longrightarrow> length (digits_rev n) \<le> 3"
  by (subst digits_rev.simps, simp, intro impI, subst digits_rev.simps, simp, intro impI,
      subst digits_rev.simps, simp)

lemma last_digits_rev: "n > 0 \<Longrightarrow> last (digits_rev n) \<noteq> 0"
proof (induction n rule: digits_rev.induct)
  case (1 n)
  then show ?case by (subst digits_rev.simps) auto
qed

lemma hd_itoa: "n > 0 \<Longrightarrow> hd (itoa n) \<noteq> CHR ''0''"
proof
  assume n: "n > 0" and h: "hd (itoa n) = CHR ''0''"
  have l: "last (digits_rev n) < 10" using digits_rev_bound last_in_set digits_rev_nonempty by blast
  have "hd (itoa n) = chr (last (digits_rev n) + 48)"
    by (simp add: itoa_def hd_map hd_rev)
  with h have "byte (chr (last (digits_rev n) + 48)) = 48" by simp
  with l last_digits_rev [OF n] show False by simp
qed

lemma itoa_no_sign: "\<not> has_prefix (itoa n) ''+''"
proof -
  have "is_digit (hd (itoa n))" using all_digits_itoa [of n] by (cases "itoa n") (auto simp: all_digits_def)
  then have "hd (itoa n) \<noteq> CHR ''+''" using is_digit_not_sign by blast
  then show ?thesis by (cases "itoa n") auto
qed

text \<open>Writing a lifetime and reading it back gives the same lifetime.\<close>
lemma parse_lifetime_string:
  assumes "lifetime_ok l"
  shows "parse_session_lifetime (lifetime_string l) = Inr l"
proof (cases "no_expiry l")
  case True
  with assms show ?thesis
    by (cases l) (simp add: parse_session_lifetime_def lifetime_string_def lifetime_ok_def)
next
  case False
  with assms have d: "1 \<le> days l" "days l \<le> 365"
    by (auto simp: lifetime_ok_def max_session_days_def)
  let ?t = "itoa (days l)"
  have t: "list_all is_digit ?t" "length ?t \<le> 3" "hd ?t \<noteq> CHR ''0''"
    using all_digits_itoa [of "days l"] digits_rev_three [of "days l"] hd_itoa [of "days l"] d
    by (auto simp: all_digits_def length_itoa)
  have "atoi ?t = Some (int (days l))" using d by (intro parse_int64_itoa) simp
  moreover have "?t @ ''d'' \<noteq> ''none''"
  proof
    assume "?t @ ''d'' = ''none''"
    from arg_cong [where f = last, OF this] show False by simp
  qed
  moreover have "length (?t @ ''d'') \<ge> 2" using itoa_nonempty [of "days l"]
    by (cases ?t) auto
  moreover have "l = \<lparr>days = days l, no_expiry = False\<rparr>" using False by (cases l) simp
  ultimately show ?thesis using t d itoa_no_sign [of "days l"] False
    unfolding parse_session_lifetime_def lifetime_string_def Let_def max_session_days_def by simp
qed

lemma digits_val_pos:
  "list_all is_digit t \<Longrightarrow> t \<noteq> [] \<Longrightarrow> hd t \<noteq> CHR ''0'' \<Longrightarrow> 0 < digits_val t"
proof (induction t rule: rev_induct)
  case (snoc c t)
  show ?case
  proof (cases "t = []")
    case True
    have "chr 48 = CHR ''0''" by code_simp
    then have "byte c \<noteq> 48" using snoc.prems(3) True chr_byte [of c] by (metis append_Nil list.sel(1))
    with snoc.prems True show ?thesis by (simp add: digits_val_def digit_val_def is_digit_def)
  next
    case False
    with snoc have "0 < digits_val t" by simp
    then show ?thesis by (simp add: digits_val_snoc)
  qed
qed simp

lemma digit_chr: "is_digit c \<Longrightarrow> chr (digit_val c + 48) = c \<and> digit_val c < 10"
  by (auto simp: is_digit_def digit_val_def)

text \<open>Decimal digits without a leading zero are the digits of their value.\<close>
lemma itoa_digits_val:
  "list_all is_digit t \<Longrightarrow> t \<noteq> [] \<Longrightarrow> hd t \<noteq> CHR ''0'' \<or> length t = 1 \<Longrightarrow> itoa (digits_val t) = t"
proof (induction t rule: rev_induct)
  case (snoc c t)
  have c: "chr (digit_val c + 48) = c" "digit_val c < 10" using snoc.prems(1) digit_chr by auto
  show ?case
  proof (cases "t = []")
    case True
    with c show ?thesis by (simp add: digits_val_def itoa_def digits_rev.simps [of "digit_val c"])
  next
    case False
    with snoc have h: "hd t \<noteq> CHR ''0''" "list_all is_digit t" by auto
    with False snoc.IH have i: "itoa (digits_val t) = t" by simp
    have "0 < digits_val t" using digits_val_pos h False by blast
    then have "itoa (digits_val t * 10 + digit_val c) = itoa (digits_val t) @ [chr (digit_val c + 48)]"
      using c by (simp add: itoa_def digits_rev.simps [of "digits_val t * 10 + digit_val c"])
    then show ?thesis using i c by (simp add: digits_val_snoc)
  qed
qed simp

lemma parse_lifetime_inv:
  assumes "parse_session_lifetime v = Inr l"
  shows "v = lifetime_string l"
proof (cases "v = ''none''")
  case True
  with assms show ?thesis by (auto simp: parse_session_lifetime_def lifetime_string_def)
next
  case False
  let ?t = "butlast v"
  have v1: "\<not> (length v < 2 \<or> last v \<noteq> CHR ''d'')"
  proof
    assume "length v < 2 \<or> last v \<noteq> CHR ''d''"
    with assms show False unfolding parse_session_lifetime_def if_not_P [OF False] by simp
  qed
  note u1 = assms [unfolded parse_session_lifetime_def if_not_P [OF False] if_not_P [OF v1] Let_def]
  have v2: "\<not> (has_prefix ?t ''+'' \<or> length ?t > 3 \<or> (length ?t > 1 \<and> hd ?t = CHR ''0''))"
  proof
    assume h: "has_prefix ?t ''+'' \<or> length ?t > 3 \<or> (length ?t > 1 \<and> hd ?t = CHR ''0'')"
    from u1 [unfolded if_P [OF h]] show False by simp
  qed
  note u2 = u1 [unfolded if_not_P [OF v2]]
  have v: "2 \<le> length v" "last v = CHR ''d''" "length ?t \<le> 3"
    "\<not> (length ?t > 1 \<and> hd ?t = CHR ''0'')" using v1 v2 by auto
  have v5: "list_all is_digit ?t" using u2 by (auto split: if_splits)
  have "v \<noteq> []" using v(1) by auto
  then have t2: "v = ?t @ ''d''" using v(2) by (metis append_butlast_last_id)
  have t: "?t \<noteq> []"
  proof
    assume "?t = []"
    with t2 have "length v = 1" by (metis append_Nil length_Cons list.size(3) One_nat_def)
    with v(1) show False by simp
  qed
  have b: "digits_val ?t < 2 ^ 63"
    using digits_val_bound [OF v5] power_increasing [OF v(3), of "10::nat"] by simp
  have a: "atoi ?t = Some (int (digits_val ?t))"
    using v5 t b by (intro parse_int64_digits) (simp_all add: all_digits_def)
  have l: "l = \<lparr>days = digits_val ?t, no_expiry = False\<rparr>"
    using u2 v5 by (simp add: a split: if_splits)
  have "hd ?t \<noteq> CHR ''0'' \<or> length ?t = 1" using v(4) t by (metis length_0_conv less_one linorder_neqE_nat)
  with v5 t have "itoa (digits_val ?t) = ?t" by (rule itoa_digits_val)
  with l t2 show ?thesis by (simp add: lifetime_string_def)
qed

lemma parse_lifetime_iff:
  "parse_session_lifetime v = Inr l \<longleftrightarrow> lifetime_ok l \<and> v = lifetime_string l"
  using parse_lifetime_ok parse_lifetime_inv parse_lifetime_string by blast

text \<open>\<open>ParseSessionLifetime\<close> accepts exactly \<open>none\<close> and the texts \<open>1d\<close> to \<open>365d\<close> without a
  leading zero or sign, and \<open>SessionLifetime.String\<close> is its inverse.\<close>
theorem session_lifetime_roundtrip:
  "parse_session_lifetime v = Inr l \<longleftrightarrow> lifetime_ok l \<and> v = lifetime_string l"
  by (rule parse_lifetime_iff)

lemma parse_lifetime_none: "parse_session_lifetime ''none'' = Inr \<lparr>days = 0, no_expiry = True\<rparr>"
  by (simp add: parse_session_lifetime_def)

lemma lifetime_duration_pos:
  "parse_session_lifetime v = Inr l \<Longrightarrow> \<not> no_expiry l \<Longrightarrow> 0 < lifetime_duration l"
  by (auto dest!: parse_lifetime_ok simp: lifetime_ok_def lifetime_duration_def duration_defs)

section \<open>The canonical public origin\<close>

record origin =
  authority :: string
  rpid :: string
  origin_value :: string

text \<open>\<open>strconv.ParseUint(digits, base, 32)\<close> for bases 8, 10 and 16.\<close>
definition base_digit :: "nat \<Rightarrow> char \<Rightarrow> bool" where
  "base_digit b c \<longleftrightarrow> is_hex c \<and> unhex c < b"

definition parse_uint32 :: "nat \<Rightarrow> string \<Rightarrow> nat option" where
  "parse_uint32 b s =
     (if s \<noteq> [] \<and> list_all (base_digit b) s
      then let v = foldl (\<lambda>n c. n * b + unhex c) 0 s in if v < 2 ^ 32 then Some v else None
      else None)"

definition ipv4_number_part :: "string \<Rightarrow> bool" where
  "ipv4_number_part part =
     (let (base, ds) =
        (if length part > 2 \<and> has_prefix part ''0x'' then (16, drop 2 part)
         else if length part > 1 \<and> hd part = CHR ''0'' then (8, drop 1 part)
         else (10, part))
      in ds \<noteq> [] \<and> parse_uint32 base ds \<noteq> None)"

definition looks_like_ipv4_number :: "string \<Rightarrow> bool" where
  "looks_like_ipv4_number name =
     (let parts = split_on (CHR ''.'') name in length parts \<le> 4 \<and> list_all ipv4_number_part parts)"

definition dns_char :: "char \<Rightarrow> bool" where
  "dns_char c \<longleftrightarrow> is_lower c \<or> is_digit c \<or> c = CHR ''-''"

definition dns_label :: "string \<Rightarrow> bool" where
  "dns_label l \<longleftrightarrow> 1 \<le> length l \<and> length l \<le> 63 \<and> hd l \<noteq> CHR ''-'' \<and> last l \<noteq> CHR ''-'' \<and> list_all dns_char l"

definition valid_ascii_dns_name :: "string \<Rightarrow> bool" where
  "valid_ascii_dns_name name \<longleftrightarrow>
     length name \<le> 253 \<and> list_all dns_label (split_on (CHR ''.'') name)"

definition parse_canonical_origin :: "string \<Rightarrow> config_error + origin" where
  "parse_canonical_origin v =
     (if v = [] \<or> trim_space v \<noteq> v then Inl InvalidOrigin
      else case url_parse v of None \<Rightarrow> Inl InvalidOrigin
      | Some u \<Rightarrow>
        if scheme u \<noteq> ''https'' \<or> opaque u \<noteq> [] \<or> user u \<noteq> None \<or> host u = [] \<or> path u \<noteq> []
           \<or> raw_query u \<noteq> [] \<or> force_query u \<or> fragment u \<noteq> [] then Inl InvalidOrigin
        else let hn = hostname u in
          if hn = [] \<or> hn \<noteq> to_lower hn \<or> has_suffix hn ''.'' \<or> \<not> valid_ascii_dns_name hn
             \<or> parse_ipv4 hn \<noteq> None \<or> looks_like_ipv4_number hn then Inl InvalidOrigin
          else if ''localhost'' \<in> set (split_on (CHR ''.'') hn) then Inl InvalidOrigin
          else let pt = port u in
            if pt = ''443'' then Inl InvalidOrigin
            else if pt \<noteq> [] \<and> (case atoi pt of None \<Rightarrow> True
                     | Some n \<Rightarrow> n < 1 \<or> n > 65535 \<or> itoa (nat n) \<noteq> pt) then Inl InvalidOrigin
            else let au = (if pt \<noteq> [] then hn @ '':'' @ pt else hn);
                     canonical = ''https://'' @ au
              in if canonical \<noteq> v \<or> host u \<noteq> au then Inl InvalidOrigin
                 else Inr \<lparr>authority = au, rpid = hn, origin_value = v\<rparr>)"

definition validate_host :: "origin \<Rightarrow> string \<Rightarrow> bool" where
  "validate_host og h \<longleftrightarrow> h = authority og"

definition validate_origin_header :: "origin \<Rightarrow> string list \<Rightarrow> bool" where
  "validate_origin_header og vs =
     (case vs of [v] \<Rightarrow> v = origin_value og \<and> parse_canonical_origin v = Inr og | _ \<Rightarrow> False)"

definition invitation_url :: "origin \<Rightarrow> string \<Rightarrow> string" where
  "invitation_url og token = origin_value og @ ''/#trust='' @ token"

subsection \<open>What is a canonical origin\<close>

text \<open>The specification: a lowercase ASCII DNS name that is neither an IP address nor under
  \<open>localhost\<close>, and an optional port that is not the default one, written without leading zeros.\<close>
definition canonical_host :: "string \<Rightarrow> bool" where
  "canonical_host h \<longleftrightarrow> valid_ascii_dns_name h \<and> parse_ipv4 h = None \<and> \<not> looks_like_ipv4_number h
     \<and> ''localhost'' \<notin> set (split_on (CHR ''.'') h)"

definition canonical_port :: "nat option \<Rightarrow> bool" where
  "canonical_port p \<longleftrightarrow> (case p of None \<Rightarrow> True | Some n \<Rightarrow> 1 \<le> n \<and> n \<le> 65535 \<and> n \<noteq> 443)"

definition origin_of :: "string \<Rightarrow> nat option \<Rightarrow> origin" where
  "origin_of h p =
     (let au = (case p of None \<Rightarrow> h | Some n \<Rightarrow> h @ '':'' @ itoa n)
      in \<lparr>authority = au, rpid = h, origin_value = ''https://'' @ au\<rparr>)"

lemma dns_name_chars:
  assumes v: "valid_ascii_dns_name h" and c: "c \<in> set h"
  shows "plain_host_char c"
proof -
  from c split_on_chars [of h "CHR ''.''"]
  consider "c = CHR ''.''" | l where "l \<in> set (split_on (CHR ''.'') h)" "c \<in> set l" by blast
  then show ?thesis
  proof cases
    case 2
    then have "dns_char c" using v by (auto simp: valid_ascii_dns_name_def dns_label_def list_all_iff)
    then show ?thesis unfolding dns_char_def plain_host_char_def by blast
  qed (simp add: plain_host_char_def)
qed

lemma dns_name_nonempty: "valid_ascii_dns_name h \<Longrightarrow> h \<noteq> []"
  by (auto simp: valid_ascii_dns_name_def dns_label_def)

lemma dns_name_no_trailing_dot:
  assumes "valid_ascii_dns_name h"
  shows "\<not> has_suffix h ''.''"
proof
  assume "has_suffix h ''.''"
  then obtain t where "h = t @ ''.'' @ []" by (auto simp: has_suffix_iff)
  then have "[] \<in> set (split_on (CHR ''.'') h)" using split_on_append_sep [of "CHR ''.''" t "[]"] by simp
  with assms show False by (auto simp: valid_ascii_dns_name_def dns_label_def list_all_iff)
qed

lemma parse_host_plain:
  assumes "\<And>c. c \<in> set h \<Longrightarrow> plain_host_char c"
  shows "parse_host h = Some h" "split_host_port h = (h, [])"
proof -
  have n: "CHR ''['' \<notin> set h" "CHR '':'' \<notin> set h" using assms plain_host_char_simps by blast+
  have u: "unescape InHost h = Some h" using assms plain_host_char_simps by (intro unescape_plain) auto
  have "\<not> has_prefix h ''[''" using n(1) by (cases h) auto
  then show "parse_host h = Some h" "split_host_port h = (h, [])"
    using n u last_index_None [of "CHR '':''" h] by (auto simp: parse_host_def split_host_port_def)
qed

lemma colon_host_char: "host_char (CHR '':'')" "CHR '':'' \<noteq> CHR ''%''" "CHR '':'' \<noteq> CHR ''[''"
  by (simp_all add: host_char_def)

lemma parse_host_plain_port:
  assumes h: "\<And>c. c \<in> set h \<Longrightarrow> plain_host_char c" and p: "list_all is_digit p"
  shows "parse_host (h @ CHR '':'' # p) = Some (h @ CHR '':'' # p)" (is ?A)
    "split_host_port (h @ CHR '':'' # p) = (h, p)" (is ?B)
proof -
  have pp: "plain_host_char c" if "c \<in> set p" for c
    using p that by (auto simp: list_all_iff is_digit_plain)
  have n: "CHR ''['' \<notin> set h" "CHR ''['' \<notin> set p" "CHR '':'' \<notin> set p"
    using h pp plain_host_char_simps by blast+
  have hc: "c \<noteq> CHR ''%'' \<and> (InHost = InHost \<longrightarrow> host_char c)" if c: "c \<in> set (h @ CHR '':'' # p)" for c
  proof -
    from c consider "plain_host_char c" | "c = CHR '':''" using h pp by (auto simp del: insert_iff)
    then show ?thesis using plain_host_char_simps(2,3) colon_host_char by cases blast+
  qed
  have u: "unescape InHost (h @ CHR '':'' # p) = Some (h @ CHR '':'' # p)"
    using hc by (rule unescape_plain)
  have l: "last_index (CHR '':'') (h @ CHR '':'' # p) = Some (length h)"
    using n(3) by (rule last_index_append_notin)
  have v: "valid_optional_port (drop (length h) (h @ CHR '':'' # p))"
    using p by (simp add: valid_optional_port_def)
  have b: "CHR ''['' \<notin> set (h @ CHR '':'' # p)" using n colon_host_char(3) by auto
  show ?A unfolding parse_host_def if_not_P [OF b] l using v u by simp
  have "\<not> has_prefix h ''[''" using n(1) by (cases h) auto
  then show ?B unfolding split_host_port_def l using v by simp
qed

lemma url_parse_origin_of:
  assumes h: "valid_ascii_dns_name h"
  shows "url_parse (origin_value (origin_of h p)) =
     Some (empty_url\<lparr>scheme := ''https'', host := authority (origin_of h p)\<rparr>)"
    and "split_host_port (authority (origin_of h p)) =
     (h, case p of None \<Rightarrow> [] | Some n \<Rightarrow> itoa n)"
proof -
  note hc = dns_name_chars [OF h]
  have d: "list_all is_digit (itoa n)" for n
    using all_digits_itoa by (auto simp: all_digits_def)
  let ?au = "authority (origin_of h p)"
  have au: "?au = (case p of None \<Rightarrow> h | Some n \<Rightarrow> h @ CHR '':'' # itoa n)"
    by (simp add: origin_of_def Let_def split: option.split)
  have v: "origin_value (origin_of h p) = ''https://'' @ ?au"
    by (simp add: origin_of_def Let_def)
  have c: "plain_host_char c \<or> c = CHR '':''" if "c \<in> set ?au" for c
    using that hc d is_digit_plain by (auto simp: au list_all_iff split: option.splits)
  have ph: "parse_host ?au = Some ?au"
    using parse_host_plain(1) [OF hc] parse_host_plain_port(1) [OF hc d] by (simp add: au split: option.split)
  show "url_parse (origin_value (origin_of h p)) = Some (empty_url\<lparr>scheme := ''https'', host := ?au\<rparr>)"
    unfolding v using c ph by (rule url_parse_https_plain)
  show "split_host_port ?au = (h, case p of None \<Rightarrow> [] | Some n \<Rightarrow> itoa n)"
    using parse_host_plain(2) [OF hc] parse_host_plain_port(2) [OF hc d] by (simp add: au split: option.split)
qed

lemma https_no_space: "c \<in> set ''https://'' \<Longrightarrow> byte c < 128 \<and> \<not> is_space (byte c)"
  by (auto simp: is_space_def)

lemma origin_value_no_space:
  assumes "valid_ascii_dns_name h"
  shows "trim_space (origin_value (origin_of h p)) = origin_value (origin_of h p)"
proof (rule trim_space_ascii_id)
  fix c assume c: "c \<in> set (origin_value (origin_of h p))"
  have d: "plain_host_char c" if "c \<in> set (itoa n)" for n
    using that all_digits_itoa [of n] by (auto simp: all_digits_def list_all_iff is_digit_plain)
  have h: "plain_host_char c" if "c \<in> set h" using dns_name_chars [OF assms that] .
  have s: "plain_host_char c \<or> c = CHR '':''" if "c \<in> set (authority (origin_of h p))"
    using that d h by (auto simp: origin_of_def Let_def split: option.splits)
  have "origin_value (origin_of h p) = ''https://'' @ authority (origin_of h p)"
    by (simp add: origin_of_def Let_def)
  then have "c \<in> set ''https://'' \<or> c \<in> set (authority (origin_of h p))"
    using c by (metis Un_iff set_append)
  then consider "c \<in> set ''https://''" | "plain_host_char c" using s by fastforce
  then show "byte c < 128 \<and> \<not> is_space (byte c)"
    using https_no_space plain_host_char_simps(11,12) by cases blast+
qed

lemma parse_canonical_origin_step:
  assumes "v \<noteq> []" "trim_space v = v" "au \<noteq> []"
    "url_parse v = Some (empty_url\<lparr>scheme := ''https'', host := au\<rparr>)"
    "split_host_port au = (h, pt)" "canonical_host h" "pt \<noteq> ''443''"
    "pt \<noteq> [] \<Longrightarrow> atoi pt = Some n \<and> 1 \<le> n \<and> n \<le> 65535 \<and> itoa (nat n) = pt"
    "au = (if pt \<noteq> [] then h @ '':'' @ pt else h)" "v = ''https://'' @ au"
  shows "parse_canonical_origin v = Inr \<lparr>authority = au, rpid = h, origin_value = v\<rparr>"
proof -
  have v: "valid_ascii_dns_name h" and ip: "parse_ipv4 h = None"
    and nn: "\<not> looks_like_ipv4_number h" and loc: "''localhost'' \<notin> set (split_on (CHR ''.'') h)"
    using assms(6) by (auto simp: canonical_host_def)
  have lo: "h = to_lower h" using dns_name_chars [OF v] plain_host_char_simps(13)
    by (intro to_lower_id [symmetric]) auto
  have hn: "hostname (empty_url\<lparr>scheme := ''https'', host := au\<rparr>) = h"
    "port (empty_url\<lparr>scheme := ''https'', host := au\<rparr>) = pt"
    using assms(5) by (simp_all add: hostname_def port_def)
  have c1: "\<not> (v = [] \<or> trim_space v \<noteq> v)" using assms by simp
  let ?u = "empty_url\<lparr>scheme := ''https'', host := au\<rparr>"
  have c2: "\<not> (scheme ?u \<noteq> ''https'' \<or> opaque ?u \<noteq> [] \<or> user ?u \<noteq> None \<or> host ?u = [] \<or> path ?u \<noteq> []
           \<or> raw_query ?u \<noteq> [] \<or> force_query ?u \<or> fragment ?u \<noteq> [])"
    using assms(3) by (simp add: empty_url_def)
  have c3: "\<not> (h = [] \<or> h \<noteq> to_lower h \<or> has_suffix h ''.'' \<or> \<not> valid_ascii_dns_name h
             \<or> parse_ipv4 h \<noteq> None \<or> looks_like_ipv4_number h)"
    using v ip nn lo dns_name_nonempty [OF v] dns_name_no_trailing_dot [OF v] by blast
  have c4: "\<not> (pt \<noteq> [] \<and> (case atoi pt of None \<Rightarrow> True
                     | Some n \<Rightarrow> n < 1 \<or> n > 65535 \<or> itoa (nat n) \<noteq> pt))"
    using assms(8) by auto
  have c5: "\<not> (''https://'' @ au \<noteq> v \<or> host ?u \<noteq> au)" using assms(10) by simp
  show ?thesis
    unfolding parse_canonical_origin_def if_not_P [OF c1] assms(4) option.case if_not_P [OF c2] hn Let_def
      if_not_P [OF c3] if_not_P [OF loc] if_not_P [OF assms(7)] if_not_P [OF c4] assms(9) [symmetric]
      if_not_P [OF c5] ..
qed

lemma itoa_443: "itoa n = ''443'' \<longleftrightarrow> n = 443"
proof -
  have "itoa 443 = ''443''" by code_simp
  then show ?thesis by (metis itoa_inject)
qed

lemma parse_canonical_origin_of:
  assumes "canonical_host h" "canonical_port p"
  shows "parse_canonical_origin (origin_value (origin_of h p)) = Inr (origin_of h p)"
proof -
  have v: "valid_ascii_dns_name h" using assms(1) by (simp add: canonical_host_def)
  let ?pt = "case p of None \<Rightarrow> [] | Some n \<Rightarrow> itoa n"
  have og: "origin_of h p = \<lparr>authority = authority (origin_of h p), rpid = h,
      origin_value = origin_value (origin_of h p)\<rparr>"
    by (simp add: origin_of_def Let_def)
  have "parse_canonical_origin (origin_value (origin_of h p)) =
     Inr \<lparr>authority = authority (origin_of h p), rpid = h, origin_value = origin_value (origin_of h p)\<rparr>"
  proof (rule parse_canonical_origin_step [where pt = ?pt and n = "int (the p)"])
    show "origin_value (origin_of h p) \<noteq> []" "origin_value (origin_of h p) = ''https://'' @ authority (origin_of h p)"
      by (simp_all add: origin_of_def Let_def)
    show "authority (origin_of h p) \<noteq> []"
      using dns_name_nonempty [OF v] by (simp add: origin_of_def Let_def split: option.split)
    show "?pt \<noteq> ''443''" using assms(2) by (simp add: canonical_port_def itoa_443 split: option.splits)
    show "atoi ?pt = Some (int (the p)) \<and> 1 \<le> int (the p) \<and> int (the p) \<le> 65535 \<and> itoa (nat (int (the p))) = ?pt"
      if "?pt \<noteq> []"
      using assms(2) that by (auto simp: canonical_port_def intro!: parse_int64_itoa split: option.splits)
    show "authority (origin_of h p) = (if ?pt \<noteq> [] then h @ '':'' @ ?pt else h)"
      by (simp add: origin_of_def Let_def split: option.split)
  qed (rule origin_value_no_space [OF v] url_parse_origin_of [OF v] assms)+
  then show ?thesis using og by simp
qed

lemma parse_canonical_origin_inv:
  assumes "parse_canonical_origin v = Inr og"
  shows "\<exists>h p. canonical_host h \<and> canonical_port p \<and> og = origin_of h p \<and> v = origin_value og"
proof -
  from assms obtain u where u: "url_parse v = Some u"
    by (auto simp: parse_canonical_origin_def split: if_splits option.splits)
  let ?h = "hostname u" and ?p = "port u"
  have c: "canonical_host ?h"
    using assms by (auto simp: parse_canonical_origin_def u canonical_host_def Let_def
        simp del: not_None_eq split: if_splits)
  show ?thesis
  proof (cases "?p = []")
    case True
    then have "og = origin_of ?h None" "v = origin_value og"
      using assms by (auto simp: parse_canonical_origin_def u origin_of_def Let_def split: if_splits)
    then show ?thesis using c by (intro exI [of _ ?h] exI [of _ None]) (simp add: canonical_port_def)
  next
    case False
    then obtain n where n: "atoi ?p = Some n" "1 \<le> n" "n \<le> 65535" "itoa (nat n) = ?p" "?p \<noteq> ''443''"
      using assms by (auto simp: parse_canonical_origin_def u Let_def split: if_splits option.splits)
    have "itoa 443 = ''443''" by code_simp
    with n(4,5) have "nat n \<noteq> 443" by metis
    moreover have "og = origin_of ?h (Some (nat n))" "v = origin_value og"
      using assms False n(4)
      by (auto simp: parse_canonical_origin_def u origin_of_def Let_def split: if_splits)
    ultimately show ?thesis using c n(2,3)
      by (intro exI [of _ ?h] exI [of _ "Some (nat n)"]) (simp add: canonical_port_def nat_le_iff)
  qed
qed

text \<open>C8.  \<open>ParseCanonicalOrigin\<close> accepts exactly the texts \<open>https://\<close>, a lowercase ASCII DNS name
  that is no IP address, no IPv4 number and has no label \<open>localhost\<close>, and optionally a colon and a
  port from 1 to 65535 other than 443 without leading zeros; and it returns that name, that
  authority and the text itself.\<close>
theorem canonical_origin_iff:
  "parse_canonical_origin v = Inr og \<longleftrightarrow>
   (\<exists>h p. canonical_host h \<and> canonical_port p \<and> og = origin_of h p \<and> v = origin_value og)"
  using parse_canonical_origin_inv parse_canonical_origin_of by blast

lemma parse_canonical_origin_value:
  "parse_canonical_origin v = Inr og \<Longrightarrow> origin_value og = v"
  by (auto simp: parse_canonical_origin_def Let_def split: if_splits option.splits)

end
