(* ===== verification/Encoding.thy ===== *)
theory Encoding
  imports GoStrings "HOL-Library.Word"
begin

unbundle bit_operations_syntax

text \<open>
  The encodings and the digest of Go's standard library that the code relies on:
  \<open>base64.RawURLEncoding\<close>, \<open>encoding/hex\<close> and \<open>crypto/sha256\<close>, on strings of bytes.
\<close>

section \<open>base64.RawURLEncoding\<close>

text \<open>The character of a six-bit value, and back.\<close>
definition b64_char :: "nat \<Rightarrow> char" where
  "b64_char v = (if v < 26 then chr (65 + v) else if v < 52 then chr (71 + v)
     else if v < 62 then chr (v - 4) else if v = 62 then CHR ''-'' else CHR ''_'')"

definition b64_val :: "char \<Rightarrow> nat option" where
  "b64_val c =
     (if is_upper c then Some (byte c - 65) else if is_lower c then Some (byte c - 71)
      else if is_digit c then Some (byte c + 4) else if c = CHR ''-'' then Some 62
      else if c = CHR ''_'' then Some 63 else None)"

fun b64_encode :: "string \<Rightarrow> string" where
  "b64_encode [] = []"
| "b64_encode [a] = (let n = byte a * 16 in [b64_char (n div 64), b64_char (n mod 64)])"
| "b64_encode [a, b] =
     (let n = (byte a * 256 + byte b) * 4
      in [b64_char (n div 4096), b64_char (n div 64 mod 64), b64_char (n mod 64)])"
| "b64_encode (a # b # c # r) =
     (let n = byte a * 65536 + byte b * 256 + byte c
      in b64_char (n div 262144) # b64_char (n div 4096 mod 64) # b64_char (n div 64 mod 64)
         # b64_char (n mod 64) # b64_encode r)"

text \<open>The bytes of a list of six-bit values.  One value alone is an error; the spare low bits
  of a short last group are ignored, as Go's non-strict encoding does.\<close>
fun b64_bytes :: "nat list \<Rightarrow> string option" where
  "b64_bytes [] = Some []"
| "b64_bytes [x] = None"
| "b64_bytes [x, y] = Some [chr ((x * 64 + y) div 16)]"
| "b64_bytes [x, y, z] =
     (let n = (x * 4096 + y * 64 + z) div 4 in Some [chr (n div 256), chr (n mod 256)])"
| "b64_bytes (x # y # z # w # r) =
     (let n = x * 262144 + y * 4096 + z * 64 + w
      in map_option (\<lambda>bs. chr (n div 65536) # chr (n div 256 mod 256) # chr (n mod 256) # bs)
           (b64_bytes r))"

fun b64_vals :: "string \<Rightarrow> nat list option" where
  "b64_vals [] = Some []"
| "b64_vals (c # s) =
     (case b64_val c of None \<Rightarrow> None
      | Some v \<Rightarrow> map_option (\<lambda>vs. v # vs) (b64_vals s))"

text \<open>\<open>DecodeString\<close>: carriage returns and newlines are skipped.\<close>
definition b64_decode :: "string \<Rightarrow> string option" where
  "b64_decode s =
     (case b64_vals (filter (\<lambda>c. c \<noteq> chr 10 \<and> c \<noteq> chr 13) s) of
        None \<Rightarrow> None | Some vs \<Rightarrow> b64_bytes vs)"

lemma b64_val_char: "v < 64 \<Longrightarrow> b64_val (b64_char v) = Some v"
proof -
  assume "v < 64"
  then consider "v < 26" | "26 \<le> v" "v < 52" | "52 \<le> v" "v < 62" | "v = 62" | "v = 63" by linarith
  then show ?thesis
    by cases (auto simp: b64_val_def b64_char_def is_upper_def is_lower_def is_digit_def)
qed

lemma b64_char_graphic: "v < 64 \<Longrightarrow> b64_char v \<noteq> chr 10 \<and> b64_char v \<noteq> chr 13"
proof -
  assume v: "v < 64"
  have "b64_val (chr 10) = None" "b64_val (chr 13) = None"
    by code_simp+
  then show ?thesis using b64_val_char [OF v] by auto
qed

lemma b64_vals_chars:
  "list_all (\<lambda>v. v < 64) vs \<Longrightarrow> b64_vals (map b64_char vs) = Some vs"
  by (induction vs) (auto simp: b64_val_char)

text \<open>The six-bit values of an encoding.\<close>
fun b64_groups :: "string \<Rightarrow> nat list" where
  "b64_groups [] = []"
| "b64_groups [a] = (let n = byte a * 16 in [n div 64, n mod 64])"
| "b64_groups [a, b] = (let n = (byte a * 256 + byte b) * 4 in [n div 4096, n div 64 mod 64, n mod 64])"
| "b64_groups (a # b # c # r) =
     (let n = byte a * 65536 + byte b * 256 + byte c
      in n div 262144 # n div 4096 mod 64 # n div 64 mod 64 # n mod 64 # b64_groups r)"

lemma b64_encode_groups: "b64_encode s = map b64_char (b64_groups s)"
  by (induction s rule: b64_encode.induct) (simp_all add: Let_def)

lemma small_quotients:
  "byte a * 16 div 64 < 64"
  "(byte a * 256 + byte b) * 4 div 4096 < 64"
  "(byte a * 65536 + byte b * 256 + byte c) div 262144 < 64"
proof -
  have h: "x * 16 < 64 * 64" "(x * 256 + y) * 4 < 64 * 4096" "x * 65536 + y * 256 + z < 64 * 262144"
    if "x < 256" "y < 256" "z < 256" for x y z :: nat
    using that by simp_all
  from h [OF byte_less [of a] byte_less [of b] byte_less [of c]]
  have "byte a * 16 < 64 * 64" "(byte a * 256 + byte b) * 4 < 64 * 4096"
    "byte a * 65536 + byte b * 256 + byte c < 64 * 262144" .
  then show "byte a * 16 div 64 < 64"
    "(byte a * 256 + byte b) * 4 div 4096 < 64"
    "(byte a * 65536 + byte b * 256 + byte c) div 262144 < 64"
    by (simp_all only: less_mult_imp_div_less)
qed

lemma b64_groups_small: "list_all (\<lambda>v. v < 64) (b64_groups s)"
  by (induction s rule: b64_groups.induct)
     (simp_all only: b64_groups.simps Let_def list.pred_inject small_quotients, simp_all)

lemma regroup_64:
  fixes n :: nat
  shows "n div 64 * 64 + n mod 64 = n"
    and "n div 4096 * 4096 + n div 64 mod 64 * 64 + n mod 64 = n"
    and "n div 262144 * 262144 + n div 4096 mod 64 * 4096 + n div 64 mod 64 * 64 + n mod 64 = n"
proof -
  have q: "n div 4096 = n div 64 div 64" "n div 262144 = n div 64 div 64 div 64"
    by (simp_all add: div_mult2_eq [symmetric])
  have 1: "n div 64 * 64 + n mod 64 = n" by (rule div_mult_mod_eq)
  have 2: "n div 64 div 64 * 64 + n div 64 mod 64 = n div 64" by (rule div_mult_mod_eq)
  have 3: "n div 64 div 64 div 64 * 64 + n div 64 div 64 mod 64 = n div 64 div 64"
    by (rule div_mult_mod_eq)
  show "n div 64 * 64 + n mod 64 = n" by (rule 1)
  show "n div 4096 * 4096 + n div 64 mod 64 * 64 + n mod 64 = n" unfolding q using 1 2 by linarith
  show "n div 262144 * 262144 + n div 4096 mod 64 * 4096 + n div 64 mod 64 * 64 + n mod 64 = n"
    unfolding q using 1 2 3 by linarith
qed

lemma split_256:
  fixes a b c :: nat
  assumes "a < 256" "b < 256" "c < 256"
  shows "(a * 65536 + b * 256 + c) div 65536 = a"
    and "(a * 65536 + b * 256 + c) div 256 mod 256 = b"
    and "(a * 65536 + b * 256 + c) mod 256 = c"
    and "(a * 256 + b) div 256 = a" and "(a * 256 + b) mod 256 = b"
proof -
  have s: "a * 65536 + b * 256 + c = c + 256 * (b + 256 * a)" by simp
  have d: "(a * 65536 + b * 256 + c) div 256 = b + 256 * a"
    using assms unfolding s by simp
  show "(a * 65536 + b * 256 + c) div 256 mod 256 = b" using assms unfolding d by simp
  have "(a * 65536 + b * 256 + c) div 65536 = (a * 65536 + b * 256 + c) div 256 div 256"
    by (simp add: div_mult2_eq [symmetric])
  then show "(a * 65536 + b * 256 + c) div 65536 = a" using assms unfolding d by simp
  show "(a * 65536 + b * 256 + c) mod 256 = c"
    using assms unfolding s by (simp only: mod_mult_self2) simp
  show "(a * 256 + b) div 256 = a" "(a * 256 + b) mod 256 = b" using assms by simp_all
qed

lemma b64_bytes_groups: "b64_bytes (b64_groups s) = Some s"
proof (induction s rule: b64_groups.induct)
  case (2 a)
  have "byte a * 16 div 16 = byte a" by simp
  then show ?case
    by (simp only: b64_groups.simps b64_bytes.simps Let_def regroup_64 chr_byte)
next
  case (3 a b)
  have "(byte a * 256 + byte b) * 4 div 4 = byte a * 256 + byte b" by simp
  then show ?case
    by (simp only: b64_groups.simps b64_bytes.simps Let_def regroup_64 split_256 [OF byte_less byte_less byte_less] chr_byte)
next
  case (4 a b c r)
  then show ?case
    by (simp only: b64_groups.simps b64_bytes.simps Let_def regroup_64 split_256 [OF byte_less byte_less byte_less]
        chr_byte option.map)
qed simp

theorem b64_decode_encode [simp]: "b64_decode (b64_encode s) = Some s"
proof -
  have "filter (\<lambda>c. c \<noteq> chr 10 \<and> c \<noteq> chr 13) (b64_encode s) = b64_encode s"
    using b64_groups_small [of s] b64_char_graphic
    by (auto simp: b64_encode_groups filter_id_conv list_all_iff)
  then show ?thesis
    by (simp add: b64_decode_def b64_encode_groups b64_vals_chars b64_groups_small b64_bytes_groups)
qed

lemma b64_encode_inject [simp]: "b64_encode s = b64_encode t \<longleftrightarrow> s = t"
  by (metis b64_decode_encode option.inject)

lemma length_b64_encode: "length (b64_encode s) = (length s * 4 + 2) div 3"
  by (induction s rule: b64_encode.induct) (auto simp: Let_def)

section \<open>encoding/hex\<close>

definition hex_digit :: "nat \<Rightarrow> char" where
  "hex_digit v = (if v < 10 then chr (48 + v) else chr (87 + v))"

definition hex_val :: "char \<Rightarrow> nat option" where
  "hex_val c = (if is_digit c then Some (byte c - 48)
     else if 97 \<le> byte c \<and> byte c \<le> 102 then Some (byte c - 87)
     else if 65 \<le> byte c \<and> byte c \<le> 70 then Some (byte c - 55) else None)"

definition hex_encode :: "string \<Rightarrow> string" where
  "hex_encode s = concat (map (\<lambda>c. [hex_digit (byte c div 16), hex_digit (byte c mod 16)]) s)"

fun hex_decode :: "string \<Rightarrow> string option" where
  "hex_decode [] = Some []"
| "hex_decode [x] = None"
| "hex_decode (x # y # r) =
     (case (hex_val x, hex_val y) of
        (Some a, Some b) \<Rightarrow> map_option (\<lambda>bs. chr (a * 16 + b) # bs) (hex_decode r)
      | _ \<Rightarrow> None)"

lemma hex_val_digit: "v < 16 \<Longrightarrow> hex_val (hex_digit v) = Some v"
  by (auto simp: hex_val_def hex_digit_def is_digit_def)

lemma hex_decode_encode [simp]: "hex_decode (hex_encode s) = Some s"
proof (induction s)
  case (Cons c s)
  have "byte c div 16 < 16" using byte_less [of c] by (simp add: less_mult_imp_div_less)
  with Cons show ?case by (simp add: hex_encode_def hex_val_digit)
qed (simp add: hex_encode_def)

lemma length_hex_encode [simp]: "length (hex_encode s) = 2 * length s"
  by (induction s) (auto simp: hex_encode_def)

lemma length_hex_decode: "hex_decode s = Some bs \<Longrightarrow> length s = 2 * length bs"
  by (induction s arbitrary: bs rule: hex_decode.induct) (auto split: option.splits)

section \<open>crypto/sha256\<close>

type_synonym u32 = "32 word"

definition sha_k :: "u32 list" where
  "sha_k = [
   1116352408, 1899447441, 3049323471, 3921009573, 961987163, 1508970993, 2453635748, 2870763221,
   3624381080, 310598401, 607225278, 1426881987, 1925078388, 2162078206, 2614888103, 3248222580,
   3835390401, 4022224774, 264347078, 604807628, 770255983, 1249150122, 1555081692, 1996064986,
   2554220882, 2821834349, 2952996808, 3210313671, 3336571891, 3584528711, 113926993, 338241895,
   666307205, 773529912, 1294757372, 1396182291, 1695183700, 1986661051, 2177026350, 2456956037,
   2730485921, 2820302411, 3259730800, 3345764771, 3516065817, 3600352804, 4094571909, 275423344,
   430227734, 506948616, 659060556, 883997877, 958139571, 1322822218, 1537002063, 1747873779,
   1955562222, 2024104815, 2227730452, 2361852424, 2428436474, 2756734187, 3204031479, 3329325298]"

definition sha_h0 :: "u32 list" where
  "sha_h0 = [1779033703, 3144134277, 1013904242, 2773480762, 1359893119, 2600822924, 528734635, 1541459225]"

definition rotr :: "nat \<Rightarrow> u32 \<Rightarrow> u32" where
  "rotr n x = drop_bit n x OR push_bit (32 - n) x"

definition sha_word :: "string \<Rightarrow> u32" where
  "sha_word bs = foldl (\<lambda>w c. push_bit 8 w OR of_nat (byte c)) 0 bs"

fun chunks_of :: "nat \<Rightarrow> nat \<Rightarrow> 'a list \<Rightarrow> 'a list list" where
  "chunks_of n 0 xs = []"
| "chunks_of n (Suc k) xs = take n xs # chunks_of n k (drop n xs)"

text \<open>The message schedule, newest word first.\<close>
fun sha_schedule :: "nat \<Rightarrow> u32 list \<Rightarrow> u32 list" where
  "sha_schedule 0 ws = ws"
| "sha_schedule (Suc k) ws =
     (let w2 = ws ! 1; w7 = ws ! 6; w15 = ws ! 14; w16 = ws ! 15;
          s0 = rotr 7 w15 XOR rotr 18 w15 XOR drop_bit 3 w15;
          s1 = rotr 17 w2 XOR rotr 19 w2 XOR drop_bit 10 w2
      in sha_schedule k ((w16 + s0 + w7 + s1) # ws))"

definition sha_round :: "u32 list \<Rightarrow> u32 \<times> u32 \<Rightarrow> u32 list" where
  "sha_round st kw =
     (case st of [a, b, c, d, e, f, g, h] \<Rightarrow>
        let s1 = rotr 6 e XOR rotr 11 e XOR rotr 25 e;
            ch = (e AND f) XOR (NOT e AND g);
            t1 = h + s1 + ch + fst kw + snd kw;
            s0 = rotr 2 a XOR rotr 13 a XOR rotr 22 a;
            maj = (a AND b) XOR (a AND c) XOR (b AND c)
        in [t1 + (s0 + maj), a, b, c, d + t1, e, f, g]
      | _ \<Rightarrow> st)"

definition sha_block :: "u32 list \<Rightarrow> string \<Rightarrow> u32 list" where
  "sha_block h blk =
     (let w = rev (sha_schedule 48 (rev (map sha_word (chunks_of 4 16 blk))))
      in map2 (+) h (foldl sha_round h (zip sha_k w)))"

definition sha_pad :: "string \<Rightarrow> string" where
  "sha_pad m =
     (let n = length m; z = (119 - n mod 64) mod 64; bits = n * 8
      in m @ chr 0x80 # replicate z (chr 0) @ map (\<lambda>i. chr (bits div 256 ^ (7 - i))) [0..<8])"

definition word_bytes :: "u32 \<Rightarrow> string" where
  "word_bytes w = map (\<lambda>i. chr (unat (drop_bit (24 - 8 * i) w))) [0..<4]"

definition sha256 :: "string \<Rightarrow> string" where
  "sha256 m =
     (let p = sha_pad m
      in concat (map word_bytes (foldl sha_block sha_h0 (chunks_of 64 (length p div 64) p))))"

lemma length_sha_round: "length (sha_round st kw) = length st"
  by (auto simp: sha_round_def Let_def split: list.splits)

lemma length_sha_rounds: "length (foldl sha_round st kws) = length st"
  by (induction kws arbitrary: st) (simp_all add: length_sha_round)

lemma length_sha_block: "length (sha_block h blk) = length h"
  by (simp add: sha_block_def Let_def length_sha_rounds)

lemma length_sha_blocks: "length (foldl sha_block h bs) = length h"
  by (induction bs arbitrary: h) (simp_all add: length_sha_block)

lemma length_concat_const:
  "(\<And>x. x \<in> set xs \<Longrightarrow> length (f x) = n) \<Longrightarrow> length (concat (map f xs)) = n * length xs"
  by (induction xs) auto

theorem length_sha256 [simp]: "length (sha256 m) = 32"
  by (simp add: sha256_def Let_def length_concat_const [where n = 4] word_bytes_def
      length_sha_blocks sha_h0_def)

end
