(* ===== verification/StateFile.thy ===== *)
theory StateFile
  imports Prelude
begin

text \<open>
  The private state files.  Three packages (\<open>access\<close>, \<open>notifications\<close>, \<open>uploads\<close>) keep their state in one
  owner-only file in an owner-only directory, and \<open>shares\<close> keeps an index the same way; each
  writes a temporary file, syncs it and renames it over the old one.

  A disk has the directory's and the file's metadata, the state the file decodes to, and the
  number of temporary files left over.  Which system call fails is chosen by the environment:
  \<open>io c\<close> is true when the call \<open>c\<close> fails.  The law the packages rely on is the locale
  \<open>atomic_replace\<close>: a write that succeeds leaves the new state, one that fails leaves the old
  state or the new one, and nothing in between.  It is interpreted on the four writers.
\<close>

section \<open>Files and directories\<close>

record finfo =
  f_dir :: bool
  f_symlink :: bool
  f_regular :: bool
  f_perm :: nat
  f_owned :: bool
  f_links :: nat

record 'a disk =
  dk_dir :: "finfo option"
  dk_file :: "(finfo \<times> 'a) option"
  dk_temps :: nat

datatype io_call =
    Marshal | TooLarge | MkdirAll | LstatDir | LstatFile | OpenFile | StatFile | ReadFile
  | CreateTemp | ChmodTemp | WriteTemp | SyncTemp | CloseTemp | RenameTemp | OpenDir | SyncDir | RemoveTemp

type_synonym faults = "io_call \<Rightarrow> bool"

datatype io_error = IoFailed io_call | NotPrivateDir | NotPrivateFile | NotExist

definition content :: "'a disk \<Rightarrow> 'a option" where
  "content d = map_option snd (dk_file d)"

text \<open>Permission bits 0600 and 0700.\<close>
definition perm_file :: nat where "perm_file = 384"
definition perm_dir :: nat where "perm_dir = 448"

definition new_dir :: finfo where
  "new_dir = \<lparr>f_dir = True, f_symlink = False, f_regular = False, f_perm = perm_dir, f_owned = True, f_links = 2\<rparr>"

definition new_file :: finfo where
  "new_file = \<lparr>f_dir = False, f_symlink = False, f_regular = True, f_perm = perm_file, f_owned = True, f_links = 1\<rparr>"

definition private_dir_info :: "finfo \<Rightarrow> bool" where
  "private_dir_info i \<longleftrightarrow> f_dir i \<and> \<not> f_symlink i \<and> f_perm i = perm_dir \<and> f_owned i"

definition private_file_info :: "finfo \<Rightarrow> bool" where
  "private_file_info i \<longleftrightarrow> f_regular i \<and> f_perm i = perm_file \<and> f_owned i \<and> f_links i = 1"

lemma new_infos_private [simp]: "private_dir_info new_dir" "private_file_info new_file"
  by (simp_all add: private_dir_info_def private_file_info_def new_dir_def new_file_def)

section \<open>The steps the writers share\<close>

text \<open>\<open>ensurePrivateDirectory\<close>.\<close>
definition ensure_private_directory :: "faults \<Rightarrow> bool \<Rightarrow> 'a disk \<Rightarrow> (io_error + unit) \<times> 'a disk" where
  "ensure_private_directory io create d =
     (if create \<and> io MkdirAll then (Inl (IoFailed MkdirAll), d)
      else let d' = (if create \<and> dk_dir d = None then d\<lparr>dk_dir := Some new_dir\<rparr> else d)
        in if io LstatDir then (Inl (IoFailed LstatDir), d')
           else (case dk_dir d' of None \<Rightarrow> (Inl NotExist, d')
             | Some i \<Rightarrow> if private_dir_info i then (Inr (), d') else (Inl NotPrivateDir, d')))"

text \<open>\<open>openPrivateRegular\<close>: the open follows no link and the file must be one private regular file.\<close>
definition open_private_regular :: "faults \<Rightarrow> 'a disk \<Rightarrow> io_error + 'a" where
  "open_private_regular io d =
     (case dk_file d of None \<Rightarrow> Inl NotExist
      | Some (i, s) \<Rightarrow>
        if io OpenFile \<or> f_symlink i then Inl (IoFailed OpenFile)
        else if io StatFile then Inl (IoFailed StatFile)
        else if private_file_info i then Inr s else Inl NotPrivateFile)"

text \<open>\<open>os.CreateTemp\<close>, \<open>Chmod\<close>, \<open>Write\<close>, \<open>Sync\<close>, \<open>Close\<close> and \<open>Rename\<close> in this order, with the
  deferred \<open>os.Remove\<close> of the temporary file.\<close>
definition first_fault :: "faults \<Rightarrow> io_call list \<Rightarrow> io_call option" where
  "first_fault io cs = find io cs"

definition drop_temp :: "faults \<Rightarrow> 'a disk \<Rightarrow> 'a disk" where
  "drop_temp io d = (if io RemoveTemp then d else d\<lparr>dk_temps := dk_temps d - 1\<rparr>)"

definition replace_via_temp :: "faults \<Rightarrow> 'a \<Rightarrow> 'a disk \<Rightarrow> (io_error + unit) \<times> 'a disk" where
  "replace_via_temp io s d =
     (if io CreateTemp then (Inl (IoFailed CreateTemp), d)
      else let d1 = d\<lparr>dk_temps := Suc (dk_temps d)\<rparr>
        in case first_fault io [ChmodTemp, WriteTemp, SyncTemp, CloseTemp, RenameTemp] of
             Some c \<Rightarrow> (Inl (IoFailed c), drop_temp io d1)
           | None \<Rightarrow> (Inr (), d\<lparr>dk_file := Some (new_file, s)\<rparr>))"

section \<open>The four writers\<close>

text \<open>\<open>writeState\<close> of \<open>internal/access/store.go\<close>.\<close>
definition access_write_state :: "faults \<Rightarrow> 'a \<Rightarrow> 'a disk \<Rightarrow> (io_error + unit) \<times> 'a disk" where
  "access_write_state io s d =
     (if io Marshal then (Inl (IoFailed Marshal), d)
      else if io TooLarge then (Inl (IoFailed TooLarge), d)
      else case ensure_private_directory io True d of (Inl e, d1) \<Rightarrow> (Inl e, d1)
      | (Inr _, d1) \<Rightarrow>
        if io LstatFile then (Inl (IoFailed LstatFile), d1)
        else if dk_file d1 \<noteq> None \<and> (case open_private_regular io d1 of Inl _ \<Rightarrow> True | Inr _ \<Rightarrow> False)
          then (Inl NotPrivateFile, d1)
        else (case replace_via_temp io s d1 of (Inl e, d2) \<Rightarrow> (Inl e, d2)
          | (Inr _, d2) \<Rightarrow>
            if io OpenDir then (Inl (IoFailed OpenDir), d2)
            else if io SyncDir then (Inl (IoFailed SyncDir), d2)
            else (Inr (), d2)))"

text \<open>\<open>writeState\<close> of \<open>internal/notifications/store.go\<close>: a failed sync of the directory is not an
  error there.\<close>
definition notify_write_state :: "faults \<Rightarrow> 'a \<Rightarrow> 'a disk \<Rightarrow> (io_error + unit) \<times> 'a disk" where
  "notify_write_state io s d =
     (if io Marshal then (Inl (IoFailed Marshal), d)
      else case ensure_private_directory io True d of (Inl e, d1) \<Rightarrow> (Inl e, d1)
      | (Inr _, d1) \<Rightarrow>
        (case open_private_regular io d1 of
           Inl NotExist \<Rightarrow> replace_via_temp io s d1
         | Inl e \<Rightarrow> (Inl e, d1)
         | Inr _ \<Rightarrow> replace_via_temp io s d1))"

text \<open>\<open>writeAssociations\<close> of \<open>internal/uploads/store.go\<close>.\<close>
definition uploads_write_associations :: "faults \<Rightarrow> 'a \<Rightarrow> 'a disk \<Rightarrow> (io_error + unit) \<times> 'a disk" where
  "uploads_write_associations io s d =
     (if io Marshal then (Inl (IoFailed Marshal), d)
      else if io TooLarge then (Inl (IoFailed TooLarge), d)
      else case ensure_private_directory io True d of (Inl e, d1) \<Rightarrow> (Inl e, d1)
      | (Inr _, d1) \<Rightarrow>
        if io LstatFile then (Inl (IoFailed LstatFile), d1)
        else if dk_file d1 \<noteq> None \<and> (case open_private_regular io d1 of Inl _ \<Rightarrow> True | Inr _ \<Rightarrow> False)
          then (Inl NotPrivateFile, d1)
        else (case replace_via_temp io s d1 of (Inl e, d2) \<Rightarrow> (Inl e, d2)
          | (Inr _, d2) \<Rightarrow>
            if io OpenDir then (Inl (IoFailed OpenDir), d2)
            else if io SyncDir then (Inl (IoFailed SyncDir), d2)
            else (Inr (), d2)))"

text \<open>\<open>writeIndex\<close> of \<open>internal/shares/store.go\<close>, with \<open>syncDirectory\<close>: the folder was checked and
  locked when the store was opened.\<close>
definition shares_write_index :: "faults \<Rightarrow> 'a \<Rightarrow> 'a disk \<Rightarrow> (io_error + unit) \<times> 'a disk" where
  "shares_write_index io s d =
     (if io Marshal then (Inl (IoFailed Marshal), d)
      else case replace_via_temp io s d of (Inl e, d1) \<Rightarrow> (Inl e, d1)
      | (Inr _, d1) \<Rightarrow>
        if io OpenDir then (Inl (IoFailed OpenDir), d1)
        else if io SyncDir then (Inl (IoFailed SyncDir), d1)
        else (Inr (), d1))"

section \<open>The law of the writers\<close>

locale atomic_replace =
  fixes wr :: "faults \<Rightarrow> 'a \<Rightarrow> 'a disk \<Rightarrow> (io_error + unit) \<times> 'a disk"
  assumes write_ok: "wr io s d = (Inr (), d') \<Longrightarrow> dk_file d' = Some (new_file, s)"
    and write_error: "wr io s d = (Inl e, d') \<Longrightarrow>
      dk_file d' = dk_file d \<or> dk_file d' = Some (new_file, s)"
begin

lemma write_content:
  "wr io s d = (r, d') \<Longrightarrow> content d' = content d \<or> content d' = Some s"
  using write_ok [of io s d d'] write_error [of io s d _ d']
  by (cases r) (auto simp: content_def)

lemma write_keeps:
  assumes "wr io s d = (r, d')" "pred_option P (content d)" "P s"
  shows "pred_option P (content d')"
  using write_content [OF assms(1)] assms(2,3) by auto

text \<open>A history of writes, each with its own faults: the file holds the state it had at first or
  one that was written.\<close>
fun write_all :: "(faults \<times> 'a) list \<Rightarrow> 'a disk \<Rightarrow> 'a disk" where
  "write_all [] d = d"
| "write_all (w # ws) d = write_all ws (snd (wr (fst w) (snd w) d))"

lemma write_all_content:
  "content (write_all ws d) = content d \<or> content (write_all ws d) \<in> Some ` snd ` set ws"
proof (induction ws arbitrary: d)
  case (Cons w ws)
  obtain r d' where w: "wr (fst w) (snd w) d = (r, d')" by (meson surj_pair)
  show ?case
    using Cons.IH [of d'] write_content [OF w] by (auto simp: w)
qed simp

end

lemma replace_via_temp_cases:
  "replace_via_temp io s d = (r, d') \<Longrightarrow>
   (\<exists>e. r = Inl e \<and> dk_file d' = dk_file d \<and> dk_dir d' = dk_dir d)
   \<or> (r = Inr () \<and> dk_file d' = Some (new_file, s) \<and> dk_temps d' = dk_temps d \<and> dk_dir d' = dk_dir d)"
  by (auto simp: replace_via_temp_def drop_temp_def Let_def split: if_splits option.splits)

lemma ensure_private_directory_file:
  "ensure_private_directory io c d = (r, d') \<Longrightarrow> dk_file d' = dk_file d \<and> dk_temps d' = dk_temps d"
  by (auto simp: ensure_private_directory_def Let_def split: if_splits option.splits)

lemma access_write_cases:
  assumes "access_write_state io s d = (r, d')"
  shows "dk_file d' = (case r of Inr _ \<Rightarrow> Some (new_file, s) | Inl _ \<Rightarrow> dk_file d)
    \<or> (r \<in> {Inl (IoFailed OpenDir), Inl (IoFailed SyncDir)} \<and> dk_file d' = Some (new_file, s))"
  using assms unfolding access_write_state_def
  by (auto split: if_splits prod.splits sum.splits
      dest!: ensure_private_directory_file replace_via_temp_cases)

interpretation access_file: atomic_replace access_write_state
proof
  fix io s d e and d' :: "'a disk"
  show "access_write_state io s d = (Inr (), d') \<Longrightarrow> dk_file d' = Some (new_file, s)"
    using access_write_cases [of io s d "Inr ()" d'] by simp
  show "access_write_state io s d = (Inl e, d') \<Longrightarrow>
      dk_file d' = dk_file d \<or> dk_file d' = Some (new_file, s)"
    using access_write_cases [of io s d "Inl e" d'] by auto
qed

lemma notify_write_cases:
  assumes "notify_write_state io s d = (r, d')"
  shows "dk_file d' = (case r of Inr _ \<Rightarrow> Some (new_file, s) | Inl _ \<Rightarrow> dk_file d)"
  using assms unfolding notify_write_state_def
  by (auto split: if_splits prod.splits sum.splits io_error.splits
      dest!: ensure_private_directory_file replace_via_temp_cases)

interpretation notify_file: atomic_replace notify_write_state
proof
  fix io s d e and d' :: "'a disk"
  show "notify_write_state io s d = (Inr (), d') \<Longrightarrow> dk_file d' = Some (new_file, s)"
    using notify_write_cases [of io s d "Inr ()" d'] by simp
  show "notify_write_state io s d = (Inl e, d') \<Longrightarrow>
      dk_file d' = dk_file d \<or> dk_file d' = Some (new_file, s)"
    using notify_write_cases [of io s d "Inl e" d'] by simp
qed

lemma uploads_write_eq: "uploads_write_associations io s d = access_write_state io s d"
  by (simp only: uploads_write_associations_def access_write_state_def)

interpretation uploads_file: atomic_replace uploads_write_associations
  by unfold_locales (auto simp only: uploads_write_eq access_file.write_ok dest: access_file.write_error)

lemma shares_write_cases:
  assumes "shares_write_index io s d = (r, d')"
  shows "dk_file d' = (case r of Inr _ \<Rightarrow> Some (new_file, s) | Inl _ \<Rightarrow> dk_file d)
    \<or> (r \<in> {Inl (IoFailed OpenDir), Inl (IoFailed SyncDir)} \<and> dk_file d' = Some (new_file, s))"
  using assms unfolding shares_write_index_def
  by (auto split: if_splits prod.splits sum.splits dest!: replace_via_temp_cases)

interpretation shares_file: atomic_replace shares_write_index
proof
  fix io s d e and d' :: "'a disk"
  show "shares_write_index io s d = (Inr (), d') \<Longrightarrow> dk_file d' = Some (new_file, s)"
    using shares_write_cases [of io s d "Inr ()" d'] by simp
  show "shares_write_index io s d = (Inl e, d') \<Longrightarrow>
      dk_file d' = dk_file d \<or> dk_file d' = Some (new_file, s)"
    using shares_write_cases [of io s d "Inl e" d'] by auto
qed

section \<open>Files that stay private\<close>

lemma access_write_private:
  "access_write_state io s d = (Inr (), d') \<Longrightarrow> \<exists>i. dk_file d' = Some (i, s) \<and> private_file_info i"
  using access_file.write_ok [of io s d d'] by auto

text \<open>A file that is not private is never replaced by the three checking writers.\<close>
lemma access_write_refuses:
  assumes "dk_file d = Some (i, t)" "\<not> private_file_info i" "access_write_state io s d = (r, d')"
  shows "(\<exists>e. r = Inl e) \<and> dk_file d' = dk_file d"
  using assms unfolding access_write_state_def
  by (auto simp: open_private_regular_def split: if_splits prod.splits sum.splits
      dest!: ensure_private_directory_file)

section \<open>The contract of a store that commits\<close>

text \<open>What the operations of a manager rely on: a commit that returns no error leaves the new state, well
  formed, in memory and in the file; one that fails leaves the memory as it was, and the file holds what
  it held or the new state.\<close>
locale committed_store =
  fixes commit :: "'env \<Rightarrow> 's \<Rightarrow> 'm \<Rightarrow> ('e + unit) \<times> 'm"
    and state :: "'m \<Rightarrow> 's"
    and saved :: "'m \<Rightarrow> 's option"
    and ok :: "'s \<Rightarrow> bool"
  assumes commit_ok: "commit env s m = (Inr u, m') \<Longrightarrow> ok s \<and> state m' = s \<and> saved m' = Some s"
    and commit_error: "commit env s m = (Inl e, m') \<Longrightarrow>
      state m' = state m \<and> (saved m' = saved m \<or> ok s \<and> saved m' = Some s)"
begin

definition sound :: "'m \<Rightarrow> bool" where
  "sound m \<longleftrightarrow> ok (state m) \<and> pred_option ok (saved m)"

lemma commit_sound: "commit env s m = (r, m') \<Longrightarrow> sound m \<Longrightarrow> sound m'"
  using commit_ok [of env s m _ m'] commit_error [of env s m _ m']
  by (cases r) (auto simp: sound_def)

lemma commit_state: "commit env s m = (r, m') \<Longrightarrow> state m' = (case r of Inr _ \<Rightarrow> s | Inl _ \<Rightarrow> state m)"
  using commit_ok [of env s m _ m'] commit_error [of env s m _ m'] by (cases r) auto

text \<open>A history of commits: memory holds a well formed state all along, and it is the first one or the
  last one whose commit succeeded.\<close>
fun commits :: "('env \<times> 's) list \<Rightarrow> 'm \<Rightarrow> 'm" where
  "commits [] m = m"
| "commits (c # cs) m = commits cs (snd (commit (fst c) (snd c) m))"

lemma commits_sound: "sound m \<Longrightarrow> sound (commits cs m)"
proof (induction cs arbitrary: m)
  case (Cons c cs)
  obtain r m' where c: "commit (fst c) (snd c) m = (r, m')" by (meson surj_pair)
  show ?case using Cons.IH [OF commit_sound [OF c Cons.prems]] by (simp add: c)
qed simp

lemma commits_state: "state (commits cs m) = state m \<or> state (commits cs m) \<in> snd ` set cs"
proof (induction cs arbitrary: m)
  case (Cons c cs)
  obtain r m' where c: "commit (fst c) (snd c) m = (r, m')" by (meson surj_pair)
  show ?case using Cons.IH [of m'] commit_state [OF c] by (cases r) (auto simp: c)
qed simp

end

end
