(* ===== verification/AccessTypes.thy ===== *)
theory AccessTypes
  imports AccessConfig Encoding StateFile
begin

text \<open>
  \<open>internal/access/types.go\<close>: the persistent access state and its validation.

  The state's records are HOL records field for field.  A \<open>*time.Time\<close> is an optional time.  The
  third-party \<open>webauthn.Credential\<close> keeps the fields the code reads: identifier, public key and
  the two backup flags.  \<open>validateState\<close> is written with the loops and the maps of the code
  (\<open>check_credentials\<close>, \<open>check_sessions\<close>, \<open>check_invitations\<close>); \<open>valid_state\<close> is the declarative
  reading of the same rules, and \<open>validate_state_iff\<close> shows the two agree.
\<close>

section \<open>Limits\<close>

definition state_version :: nat where "state_version = 1"
definition max_credentials :: nat where "max_credentials = 32"
definition max_invitations :: nat where "max_invitations = 32"
definition max_authorizer_invites :: nat where "max_authorizer_invites = 8"
definition max_sessions :: nat where "max_sessions = 256"
definition max_trust_sessions :: nat where "max_trust_sessions = 32"
definition invitation_lifetime :: duration where "invitation_lifetime = 10 * minute"
definition reservation_lifetime :: duration where "reservation_lifetime = 5 * minute"
definition fresh_lifetime :: duration where "fresh_lifetime = 5 * minute"

lemmas access_limits = max_credentials_def max_invitations_def max_authorizer_invites_def
  max_sessions_def max_trust_sessions_def
lemmas access_durations = invitation_lifetime_def reservation_lifetime_def fresh_lifetime_def
  duration_defs

section \<open>Records\<close>

record wa_credential =
  wa_id :: string
  wa_key :: string
  wa_backup_eligible :: bool
  wa_backup_state :: bool

record credential_record =
  c_trust :: string
  c_label :: string
  c_created :: time
  c_used :: time
  c_backup_seen :: time
  c_revoked :: "time option"
  c_cred :: wa_credential

record session_record =
  s_digest :: string
  s_trust :: string
  s_created :: time
  s_lifetime :: string
  s_expires :: "time option"
  s_fresh_trust :: string
  s_fresh_at :: time

record invitation_record =
  i_digest :: string
  i_issuer :: string
  i_issued :: time
  i_expires :: time
  i_rclient :: string
  i_runtil :: "time option"
  i_consumed :: "time option"

record access_state =
  st_version :: nat
  st_origin :: string
  st_rpid :: string
  st_lifetime :: string
  st_handle :: string
  credentials :: "credential_record list"
  sessions :: "session_record list"
  invitations :: "invitation_record list"

record device =
  d_trust :: string
  d_label :: string
  d_created :: time
  d_used :: time
  d_backup_eligible :: bool
  d_backup_state :: bool
  d_backup_seen :: time

datatype access_error =
    ErrUnauthorized | ErrFreshRequired | ErrLastCredential | ErrInvitationGeneric | ErrCapacity
  | ErrNotFound | ErrDigest | ErrRandom | ErrIo io_error | ErrConfig config_error | ErrRunning
  | ErrNotInitialized | ErrOriginMismatch | ErrPath | ErrDecode
  | ErrVersion | ErrOrigin | ErrLifetime | ErrHandle | ErrLimits
  | ErrCredential | ErrDuplicateCredential | ErrSession | ErrSessionExpiry | ErrSessionExpiryMismatch
  | ErrTrustSessions | ErrInvitation | ErrIssuer | ErrReservation | ErrConsumption | ErrAuthorizerInvites

section \<open>Tokens and identifiers\<close>

definition digest_token :: "string \<Rightarrow> string" where
  "digest_token token = b64_encode (sha256 token)"

definition decode_digest :: "string \<Rightarrow> access_error + string" where
  "decode_digest v = (case b64_decode v of
      Some d \<Rightarrow> if length d = 32 then Inr d else Inl ErrDigest | None \<Rightarrow> Inl ErrDigest)"

definition valid_opaque_id :: "string \<Rightarrow> bool" where
  "valid_opaque_id v = (case b64_decode v of Some d \<Rightarrow> length d = 16 | None \<Rightarrow> False)"

definition digest_ok :: "string \<Rightarrow> bool" where
  "digest_ok v \<longleftrightarrow> (\<exists>d. decode_digest v = Inr d)"

lemma decode_digest_token [simp]: "decode_digest (digest_token t) = Inr (sha256 t)"
  by (simp add: decode_digest_def digest_token_def)

lemma digest_ok_token [simp]: "digest_ok (digest_token t)"
  by (simp add: digest_ok_def)

lemma digest_ok_nonempty: "digest_ok v \<Longrightarrow> v \<noteq> []"
  by (auto simp: digest_ok_def decode_digest_def b64_decode_def)

lemma digest_token_nonempty [simp]: "digest_token t \<noteq> []"
  using digest_ok_nonempty digest_ok_token by blast

lemma valid_opaque_id_encode: "length b = 16 \<Longrightarrow> valid_opaque_id (b64_encode b)"
  by (simp add: valid_opaque_id_def)

lemma valid_opaque_id_nonempty: "valid_opaque_id v \<Longrightarrow> v \<noteq> []"
  by (auto simp: valid_opaque_id_def b64_decode_def)

text \<open>\<open>decodeDigest\<close> failing, as a test.\<close>
definition bad_digest :: "string \<Rightarrow> bool" where
  "bad_digest v = (case decode_digest v of Inl _ \<Rightarrow> True | Inr _ \<Rightarrow> False)"

lemma bad_digest_iff [simp]: "bad_digest v \<longleftrightarrow> \<not> digest_ok v"
  by (auto simp: bad_digest_def digest_ok_def split: sum.splits)

section \<open>validateState as the code runs it\<close>

text \<open>The per-record tests of the three loops.\<close>
definition bad_credential :: "credential_record \<Rightarrow> bool" where
  "bad_credential c \<longleftrightarrow> \<not> valid_opaque_id (c_trust c) \<or> length (c_label c) > 160 \<or> c_created c = 0
     \<or> c_used c = 0 \<or> c_backup_seen c = 0 \<or> c_used c < c_created c \<or> c_backup_seen c < c_created c
     \<or> (case c_revoked c of Some r \<Rightarrow> r < c_created c | None \<Rightarrow> False)
     \<or> wa_id (c_cred c) = [] \<or> wa_key (c_cred c) = []"

text \<open>\<open>seen\<close> and \<open>ids\<close> are the keys of \<open>seenTrustIDs\<close> and \<open>credentialIDs\<close>; \<open>active\<close> is the map
  \<open>trustIDs\<close>, false where it has no entry.\<close>
fun check_credentials ::
  "credential_record list \<Rightarrow> string list \<Rightarrow> string list \<Rightarrow> (string \<Rightarrow> bool) \<Rightarrow> access_error + (string \<Rightarrow> bool)" where
  "check_credentials [] seen ids active = Inr active"
| "check_credentials (c # cs) seen ids active =
     (if bad_credential c \<or> c_trust c \<in> set seen then Inl ErrCredential
      else if b64_encode (wa_id (c_cred c)) \<in> set ids then Inl ErrDuplicateCredential
      else check_credentials cs (c_trust c # seen) (b64_encode (wa_id (c_cred c)) # ids)
             (active(c_trust c := (c_revoked c = None))))"

fun check_sessions ::
  "(string \<Rightarrow> bool) \<Rightarrow> session_record list \<Rightarrow> string list \<Rightarrow> (string \<Rightarrow> nat) \<Rightarrow> access_error + unit" where
  "check_sessions active [] seen cnt = Inr ()"
| "check_sessions active (s # ss) seen cnt =
     (if bad_digest (s_digest s) \<or> s_digest s \<in> set seen \<or> \<not> active (s_trust s) \<or> s_created s = 0
         \<or> s_fresh_at s \<noteq> s_created s \<or> \<not> active (s_fresh_trust s) then Inl ErrSession
      else case parse_session_lifetime (s_lifetime s) of
        Inl _ \<Rightarrow> Inl ErrSessionExpiry
      | Inr l \<Rightarrow>
        if no_expiry l \<noteq> (s_expires s = None) then Inl ErrSessionExpiry
        else if (case s_expires s of Some e \<Rightarrow> e \<noteq> s_created s + lifetime_duration l | None \<Rightarrow> False)
          then Inl ErrSessionExpiryMismatch
        else let cnt' = cnt(s_trust s := Suc (cnt (s_trust s)))
          in if cnt' (s_trust s) > max_trust_sessions then Inl ErrTrustSessions
             else check_sessions active ss (s_digest s # seen) cnt')"

definition bad_reservation :: "invitation_record \<Rightarrow> bool" where
  "bad_reservation i \<longleftrightarrow> (i_rclient i = []) \<noteq> (i_runtil i = None)
     \<or> (i_rclient i \<noteq> [] \<and>
         (case i_runtil i of None \<Rightarrow> True
          | Some u \<Rightarrow> bad_digest (i_rclient i) \<or> \<not> u > i_issued i \<or> u > i_expires i
              \<or> u > i_issued i + invitation_lifetime))"

definition bad_consumption :: "invitation_record \<Rightarrow> bool" where
  "bad_consumption i = (case i_consumed i of None \<Rightarrow> False
     | Some t \<Rightarrow> t < i_issued i \<or> t > i_expires i \<or> i_runtil i \<noteq> None)"

fun check_invitations ::
  "(string \<Rightarrow> bool) \<Rightarrow> invitation_record list \<Rightarrow> string list \<Rightarrow> (string \<Rightarrow> nat) \<Rightarrow> access_error + unit" where
  "check_invitations active [] seen cnt = Inr ()"
| "check_invitations active (i # invs) seen cnt =
     (if bad_digest (i_digest i) \<or> i_digest i \<in> set seen \<or> i_issued i = 0
         \<or> i_expires i \<noteq> i_issued i + invitation_lifetime then Inl ErrInvitation
      else if i_issuer i \<noteq> [] \<and> \<not> active (i_issuer i) then Inl ErrIssuer
      else if bad_reservation i then Inl ErrReservation
      else if bad_consumption i then Inl ErrConsumption
      else if i_consumed i = None \<and> i_issuer i \<noteq> [] then
        (let cnt' = cnt(i_issuer i := Suc (cnt (i_issuer i)))
         in if cnt' (i_issuer i) > max_authorizer_invites then Inl ErrAuthorizerInvites
            else check_invitations active invs (i_digest i # seen) cnt')
      else check_invitations active invs (i_digest i # seen) cnt)"

definition validate_state :: "access_state \<Rightarrow> access_error + unit" where
  "validate_state st =
     (if st_version st \<noteq> state_version then Inl ErrVersion
      else if (case parse_canonical_origin (st_origin st) of Inl _ \<Rightarrow> True | Inr og \<Rightarrow> rpid og \<noteq> st_rpid st)
        then Inl ErrOrigin
      else if (case parse_session_lifetime (st_lifetime st) of Inl _ \<Rightarrow> True
               | Inr l \<Rightarrow> lifetime_string l \<noteq> st_lifetime st) then Inl ErrLifetime
      else if (case b64_decode (st_handle st) of None \<Rightarrow> True | Some h \<Rightarrow> length h \<noteq> 64) then Inl ErrHandle
      else if length (credentials st) > max_credentials \<or> length (invitations st) > max_invitations
              \<or> length (sessions st) > max_sessions then Inl ErrLimits
      else case check_credentials (credentials st) [] [] (\<lambda>_. False) of Inl e \<Rightarrow> Inl e
      | Inr active \<Rightarrow>
        (case check_sessions active (sessions st) [] (\<lambda>_. 0) of Inl e \<Rightarrow> Inl e
         | Inr _ \<Rightarrow> check_invitations active (invitations st) [] (\<lambda>_. 0)))"

section \<open>The rules, declaratively\<close>

definition active_trust :: "credential_record list \<Rightarrow> string \<Rightarrow> bool" where
  "active_trust cs t \<longleftrightarrow> (\<exists>c \<in> set cs. c_trust c = t \<and> c_revoked c = None)"

definition session_expiry_ok :: "session_record \<Rightarrow> bool" where
  "session_expiry_ok s \<longleftrightarrow>
     (\<exists>l. parse_session_lifetime (s_lifetime s) = Inr l
        \<and> s_expires s = (if no_expiry l then None else Some (s_created s + lifetime_duration l)))"

definition session_ok :: "(string \<Rightarrow> bool) \<Rightarrow> session_record \<Rightarrow> bool" where
  "session_ok active s \<longleftrightarrow> digest_ok (s_digest s) \<and> active (s_trust s) \<and> s_created s \<noteq> 0
     \<and> s_fresh_at s = s_created s \<and> active (s_fresh_trust s) \<and> session_expiry_ok s"

definition invitation_ok :: "(string \<Rightarrow> bool) \<Rightarrow> invitation_record \<Rightarrow> bool" where
  "invitation_ok active i \<longleftrightarrow> digest_ok (i_digest i) \<and> i_issued i \<noteq> 0
     \<and> i_expires i = i_issued i + invitation_lifetime
     \<and> (i_issuer i = [] \<or> active (i_issuer i)) \<and> \<not> bad_reservation i \<and> \<not> bad_consumption i"

definition trust_sessions :: "session_record list \<Rightarrow> string \<Rightarrow> session_record list" where
  "trust_sessions ss t = filter (\<lambda>s. s_trust s = t) ss"

definition open_invites :: "invitation_record list \<Rightarrow> string \<Rightarrow> invitation_record list" where
  "open_invites invs t = filter (\<lambda>i. i_consumed i = None \<and> i_issuer i = t) invs"

definition credentials_ok :: "credential_record list \<Rightarrow> bool" where
  "credentials_ok cs \<longleftrightarrow> length cs \<le> max_credentials \<and> (\<forall>c \<in> set cs. \<not> bad_credential c)
     \<and> distinct (map c_trust cs) \<and> distinct (map (\<lambda>c. wa_id (c_cred c)) cs)"

definition sessions_ok :: "(string \<Rightarrow> bool) \<Rightarrow> session_record list \<Rightarrow> bool" where
  "sessions_ok active ss \<longleftrightarrow> length ss \<le> max_sessions \<and> (\<forall>s \<in> set ss. session_ok active s)
     \<and> distinct (map s_digest ss) \<and> (\<forall>t. length (trust_sessions ss t) \<le> max_trust_sessions)"

definition invitations_ok :: "(string \<Rightarrow> bool) \<Rightarrow> invitation_record list \<Rightarrow> bool" where
  "invitations_ok active invs \<longleftrightarrow> length invs \<le> max_invitations \<and> (\<forall>i \<in> set invs. invitation_ok active i)
     \<and> distinct (map i_digest invs)
     \<and> (\<forall>t. t \<noteq> [] \<longrightarrow> length (open_invites invs t) \<le> max_authorizer_invites)"

definition header_ok :: "access_state \<Rightarrow> bool" where
  "header_ok st \<longleftrightarrow> st_version st = state_version
     \<and> (\<exists>og. parse_canonical_origin (st_origin st) = Inr og \<and> rpid og = st_rpid st)
     \<and> (\<exists>l. parse_session_lifetime (st_lifetime st) = Inr l)
     \<and> (\<exists>h. b64_decode (st_handle st) = Some h \<and> length h = 64)"

definition valid_state :: "access_state \<Rightarrow> bool" where
  "valid_state st \<longleftrightarrow> header_ok st \<and> credentials_ok (credentials st)
     \<and> sessions_ok (active_trust (credentials st)) (sessions st)
     \<and> invitations_ok (active_trust (credentials st)) (invitations st)"

section \<open>The loops compute the rules\<close>

lemma check_credentials_iff:
  "check_credentials cs seen ids active = Inr active' \<longleftrightarrow>
     (\<forall>c \<in> set cs. \<not> bad_credential c \<and> c_trust c \<notin> set seen \<and> b64_encode (wa_id (c_cred c)) \<notin> set ids)
     \<and> distinct (map c_trust cs) \<and> distinct (map (\<lambda>c. wa_id (c_cred c)) cs)
     \<and> active' = foldl (\<lambda>a c. a(c_trust c := (c_revoked c = None))) active cs"
proof (induction cs arbitrary: seen ids active)
  case (Cons c cs)
  show ?case
    by (simp add: Cons.IH) (auto simp: image_iff)
qed auto

lemma foldl_active:
  "distinct (map c_trust cs) \<Longrightarrow>
   foldl (\<lambda>a c. a(c_trust c := (c_revoked c = None))) active cs t =
   (if t \<in> c_trust ` set cs then active_trust cs t else active t)"
proof (induction cs arbitrary: active)
  case (Cons c cs)
  then show ?case by (auto simp: active_trust_def image_iff)
qed simp

text \<open>One turn of a loop that records the keys it has seen.\<close>
lemma seen_step:
  "(\<forall>x \<in> set (y # ys). P x \<and> f x \<notin> set seen) \<and> distinct (map f (y # ys)) \<longleftrightarrow>
   P y \<and> f y \<notin> set seen \<and> (\<forall>x \<in> set ys. P x \<and> f x \<notin> set (f y # seen)) \<and> distinct (map f ys)"
  by (auto simp: image_iff)

lemma loop_step:
  "(X \<longleftrightarrow> A \<and> C \<and> R) \<Longrightarrow> (R \<longleftrightarrow> S \<and> D \<and> T) \<Longrightarrow> (S' \<and> D' \<longleftrightarrow> A \<and> S \<and> D) \<Longrightarrow> (C \<and> T \<longleftrightarrow> T') \<Longrightarrow>
   X \<longleftrightarrow> S' \<and> D' \<and> T'"
  by blast

lemma check_sessions_iff:
  "check_sessions active ss seen cnt = Inr () \<longleftrightarrow>
     (\<forall>s \<in> set ss. session_ok active s \<and> s_digest s \<notin> set seen)
     \<and> distinct (map s_digest ss)
     \<and> (\<forall>t. trust_sessions ss t \<noteq> [] \<longrightarrow> cnt t + length (trust_sessions ss t) \<le> max_trust_sessions)"
proof (induction ss arbitrary: seen cnt)
  case (Cons s ss)
  let ?cnt = "cnt(s_trust s := Suc (cnt (s_trust s)))"
  have step: "check_sessions active (s # ss) seen cnt = Inr () \<longleftrightarrow>
      (session_ok active s \<and> s_digest s \<notin> set seen) \<and> Suc (cnt (s_trust s)) \<le> max_trust_sessions
      \<and> check_sessions active ss (s_digest s # seen) ?cnt = Inr ()"
    by (auto simp: session_ok_def session_expiry_ok_def Let_def split: sum.splits option.splits if_splits)
  have counts: "(Suc (cnt (s_trust s)) \<le> max_trust_sessions \<and>
      (\<forall>t. trust_sessions ss t \<noteq> [] \<longrightarrow> ?cnt t + length (trust_sessions ss t) \<le> max_trust_sessions)) \<longleftrightarrow>
      (\<forall>t. trust_sessions (s # ss) t \<noteq> [] \<longrightarrow> cnt t + length (trust_sessions (s # ss) t) \<le> max_trust_sessions)"
    (is "?l \<longleftrightarrow> ?r")
  proof
    assume l: ?l
    show ?r
    proof (intro allI impI)
      fix t
      from l have "trust_sessions ss t \<noteq> [] \<Longrightarrow> ?cnt t + length (trust_sessions ss t) \<le> max_trust_sessions"
        by blast
      with l show "trust_sessions (s # ss) t \<noteq> [] \<Longrightarrow> cnt t + length (trust_sessions (s # ss) t) \<le> max_trust_sessions"
        by (cases "trust_sessions ss t = []") (auto simp: trust_sessions_def split: if_splits)
    qed
  next
    assume r: ?r
    from spec [OF r, of "s_trust s"] have "Suc (cnt (s_trust s)) \<le> max_trust_sessions"
      by (simp add: trust_sessions_def)
    moreover have "?cnt t + length (trust_sessions ss t) \<le> max_trust_sessions" if "trust_sessions ss t \<noteq> []" for t
      using spec [OF r, of t] that by (auto simp: trust_sessions_def)
    ultimately show ?l by blast
  qed
  show ?case
    by (rule loop_step [OF step Cons.IH _ counts]) (simp only: seen_step conj_assoc)
qed (simp add: trust_sessions_def)

lemma check_invitations_iff:
  "check_invitations active invs seen cnt = Inr () \<longleftrightarrow>
     (\<forall>i \<in> set invs. invitation_ok active i \<and> i_digest i \<notin> set seen)
     \<and> distinct (map i_digest invs)
     \<and> (\<forall>t. t \<noteq> [] \<and> open_invites invs t \<noteq> [] \<longrightarrow> cnt t + length (open_invites invs t) \<le> max_authorizer_invites)"
proof (induction invs arbitrary: seen cnt)
  case (Cons i invs)
  let ?open = "i_consumed i = None \<and> i_issuer i \<noteq> []"
  let ?cnt = "if ?open then cnt(i_issuer i := Suc (cnt (i_issuer i))) else cnt"
  have step: "check_invitations active (i # invs) seen cnt = Inr () \<longleftrightarrow>
      (invitation_ok active i \<and> i_digest i \<notin> set seen)
      \<and> (?open \<longrightarrow> ?cnt (i_issuer i) \<le> max_authorizer_invites)
      \<and> check_invitations active invs (i_digest i # seen) ?cnt = Inr ()"
    by (auto simp: invitation_ok_def Let_def)
  have counts: "((?open \<longrightarrow> ?cnt (i_issuer i) \<le> max_authorizer_invites) \<and>
      (\<forall>t. t \<noteq> [] \<and> open_invites invs t \<noteq> [] \<longrightarrow> ?cnt t + length (open_invites invs t) \<le> max_authorizer_invites)) \<longleftrightarrow>
      (\<forall>t. t \<noteq> [] \<and> open_invites (i # invs) t \<noteq> [] \<longrightarrow>
         cnt t + length (open_invites (i # invs) t) \<le> max_authorizer_invites)"
    (is "?l \<longleftrightarrow> ?r")
  proof
    assume l: ?l
    show ?r
    proof (intro allI impI)
      fix t
      from l have "t \<noteq> [] \<and> open_invites invs t \<noteq> [] \<Longrightarrow> ?cnt t + length (open_invites invs t) \<le> max_authorizer_invites"
        by blast
      with l show "t \<noteq> [] \<and> open_invites (i # invs) t \<noteq> [] \<Longrightarrow>
          cnt t + length (open_invites (i # invs) t) \<le> max_authorizer_invites"
        by (cases "open_invites invs t = []") (auto simp: open_invites_def split: if_splits)
    qed
  next
    assume r: ?r
    have "?open \<longrightarrow> ?cnt (i_issuer i) \<le> max_authorizer_invites"
      using spec [OF r, of "i_issuer i"] by (auto simp: open_invites_def)
    moreover have "?cnt t + length (open_invites invs t) \<le> max_authorizer_invites"
      if "t \<noteq> []" "open_invites invs t \<noteq> []" for t
      using spec [OF r, of t] that by (auto simp: open_invites_def)
    ultimately show ?l by blast
  qed
  show ?case
    by (rule loop_step [OF step Cons.IH _ counts]) (simp only: seen_step conj_assoc)
qed (simp add: open_invites_def)

lemma session_ok_cong: "(\<And>t. active t = active' t) \<Longrightarrow> session_ok active s = session_ok active' s"
  by (simp add: session_ok_def)

lemma nonempty_bound: "(\<forall>t. f t \<noteq> [] \<longrightarrow> length (f t) \<le> n) \<longleftrightarrow> (\<forall>t. length (f t) \<le> n)"
  by (metis le0 list.size(3))

lemma validate_state_rules: "validate_state st = Inr () \<longleftrightarrow> valid_state st"
proof -
  let ?hd = "\<not> (st_version st \<noteq> state_version) \<and> \<not> (case parse_canonical_origin (st_origin st) of Inl _ \<Rightarrow> True | Inr og \<Rightarrow> rpid og \<noteq> st_rpid st)
     \<and> \<not> (case parse_session_lifetime (st_lifetime st) of Inl _ \<Rightarrow> True
               | Inr l \<Rightarrow> lifetime_string l \<noteq> st_lifetime st)
     \<and> \<not> (case b64_decode (st_handle st) of None \<Rightarrow> True | Some h \<Rightarrow> length h \<noteq> 64)"
  have hd: "?hd \<longleftrightarrow> header_ok st"
    by (auto simp: header_ok_def parse_lifetime_iff split: sum.splits option.splits)
       (metis parse_lifetime_string sum.distinct(1))+
  show ?thesis
  proof (cases "check_credentials (credentials st) [] [] (\<lambda>_. False)")
    case (Inl e)
    then have "\<not> ((\<forall>c \<in> set (credentials st). \<not> bad_credential c) \<and> distinct (map c_trust (credentials st))
        \<and> distinct (map (\<lambda>c. wa_id (c_cred c)) (credentials st)))"
      using check_credentials_iff [of "credentials st" "[]" "[]" "\<lambda>_. False"] by auto
    then show ?thesis using Inl by (auto simp: validate_state_def valid_state_def credentials_ok_def)
  next
    case (Inr active)
    note c = Inr [unfolded check_credentials_iff]
    then have a: "active = active_trust (credentials st)"
      using foldl_active [of "credentials st" "\<lambda>_. False"] by (auto simp: active_trust_def fun_eq_iff)
    have "validate_state st = Inr () \<longleftrightarrow> ?hd
        \<and> \<not> (length (credentials st) > max_credentials \<or> length (invitations st) > max_invitations
              \<or> length (sessions st) > max_sessions)
        \<and> check_sessions active (sessions st) [] (\<lambda>_. 0) = Inr ()
        \<and> check_invitations active (invitations st) [] (\<lambda>_. 0) = Inr ()"
      unfolding validate_state_def Inr by (simp split: sum.split)
    also have "\<dots> \<longleftrightarrow> valid_state st"
      unfolding hd check_sessions_iff check_invitations_iff a
      using c nonempty_bound [of "trust_sessions (sessions st)" max_trust_sessions]
      by (auto simp: valid_state_def credentials_ok_def sessions_ok_def invitations_ok_def)
    finally show ?thesis .
  qed
qed

text \<open>C7.  \<open>validateState\<close>, with its loops and its five maps, accepts a state exactly when the
  declarative rules hold: the header is canonical, record limits are kept, credentials are well formed
  and distinct by trust and credential identifier, every session and invitation belongs to an active
  trust, is distinct by digest, has the expiry its lifetime gives and respects the limits for each trust.\<close>
theorem validate_state_iff: "validate_state st = Inr () \<longleftrightarrow> valid_state st"
  by (rule validate_state_rules)

end
