(* ===== verification/AccessStore.thy ===== *)
theory AccessStore
  imports AccessTypes
begin

text \<open>
  \<open>internal/access/store.go\<close>: opening, locking, reading and writing the access state, and the
  random values it is made of.  JSON encoding is not modelled: a state file holds the state it
  decodes to, and an undecodable, oversized or unreadable file is a fault of the environment.
\<close>

section \<open>Random values\<close>

definition random_bytes :: "entropy \<Rightarrow> nat \<Rightarrow> access_error + string" where
  "random_bytes r sz = (case r of None \<Rightarrow> Inl ErrRandom | Some f \<Rightarrow> Inr (map f [0..<sz]))"

definition random_token :: "entropy \<Rightarrow> nat \<Rightarrow> access_error + string" where
  "random_token r sz = (case random_bytes r sz of Inl e \<Rightarrow> Inl e | Inr b \<Rightarrow> Inr (b64_encode b))"

lemma random_bytes_length: "random_bytes r n = Inr b \<Longrightarrow> length b = n"
  by (auto simp: random_bytes_def split: option.splits)

lemma random_token_decodes: "random_token r n = Inr t \<Longrightarrow> \<exists>b. b64_decode t = Some b \<and> length b = n"
  by (auto simp: random_token_def random_bytes_length split: sum.splits)

definition active_credential_count :: "access_state \<Rightarrow> nat" where
  "active_credential_count st = length (filter (\<lambda>c. c_revoked c = None) (credentials st))"

definition new_invitation :: "time \<Rightarrow> string \<Rightarrow> entropy \<Rightarrow> access_error + (string \<times> invitation_record)" where
  "new_invitation now issuer r =
     (case random_token r 32 of Inl e \<Rightarrow> Inl e
      | Inr token \<Rightarrow> Inr (token, \<lparr>i_digest = digest_token token, i_issuer = issuer, i_issued = now,
          i_expires = now + invitation_lifetime, i_rclient = [], i_runtil = None, i_consumed = None\<rparr>))"

text \<open>\<open>pruneInvitations\<close> of \<open>manager.go\<close>.\<close>
definition prune_invitations :: "access_state \<Rightarrow> time \<Rightarrow> access_state" where
  "prune_invitations st now =
     st\<lparr>invitations := delete_func (\<lambda>i. i_consumed i \<noteq> None \<or> \<not> now < i_expires i) (invitations st)\<rparr>"

section \<open>The store\<close>

record store =
  sto_state :: access_state
  sto_disk :: "access_state disk"

definition lift_io :: "io_error + 'a \<Rightarrow> access_error + 'a" where
  "lift_io r = (case r of Inl e \<Rightarrow> Inl (ErrIo e) | Inr x \<Rightarrow> Inr x)"

text \<open>\<open>Store.write\<close>: validate, then replace the file.\<close>
definition store_write :: "faults \<Rightarrow> store \<Rightarrow> (access_error + unit) \<times> store" where
  "store_write io s =
     (case validate_state (sto_state s) of Inl e \<Rightarrow> (Inl e, s)
      | Inr _ \<Rightarrow> (case access_write_state io (sto_state s) (sto_disk s) of
          (r, d) \<Rightarrow> (lift_io r, s\<lparr>sto_disk := d\<rparr>)))"

text \<open>\<open>readState\<close>.\<close>
definition read_state :: "faults \<Rightarrow> access_state disk \<Rightarrow> access_error + access_state" where
  "read_state io d =
     (case open_private_regular io d of Inl e \<Rightarrow> Inl (ErrIo e)
      | Inr st \<Rightarrow>
        if io ReadFile then Inl (ErrIo (IoFailed ReadFile))
        else if io TooLarge then Inl (ErrIo (IoFailed TooLarge))
        else if io Marshal then Inl ErrDecode
        else (case validate_state st of Inl e \<Rightarrow> Inl e | Inr _ \<Rightarrow> Inr st))"

section \<open>The service lock\<close>

text \<open>The lock file beside the state: its metadata, whether this process holds the lock, and
  whether another one does.\<close>
record lock_file =
  lk_info :: "finfo option"
  lk_held :: bool
  lk_other :: bool

text \<open>\<open>acquireLock\<close>.\<close>
definition acquire_lock :: "faults \<Rightarrow> bool \<Rightarrow> lock_file \<Rightarrow> (access_error + unit) \<times> lock_file" where
  "acquire_lock io create lk =
     (let lk1 = (if create \<and> lk_info lk = None \<and> \<not> io OpenFile then lk\<lparr>lk_info := Some new_file\<rparr> else lk)
      in case lk_info lk1 of None \<Rightarrow> (Inl (ErrIo (if io OpenFile then IoFailed OpenFile else NotExist)), lk1)
      | Some i \<Rightarrow>
        if io OpenFile \<or> f_symlink i then (Inl (ErrIo (IoFailed OpenFile)), lk1)
        else if io StatFile then (Inl (ErrIo (IoFailed StatFile)), lk1)
        else if \<not> private_file_info i then (Inl (ErrIo NotPrivateFile), lk1)
        else if lk_other lk1 \<or> lk_held lk1 then (Inl ErrRunning, lk1)
        else (Inr (), lk1\<lparr>lk_held := True\<rparr>))"

text \<open>\<open>Store.Close\<close>.\<close>
definition release_lock :: "lock_file \<Rightarrow> lock_file" where
  "release_lock lk = lk\<lparr>lk_held := False\<rparr>"

lemma acquire_lock_exclusive:
  "acquire_lock io create lk = (Inr (), lk') \<Longrightarrow> \<not> lk_other lk \<and> lk_held lk' \<and> \<not> lk_held lk"
  by (auto simp: acquire_lock_def Let_def split: if_splits option.splits)

lemma acquire_lock_error:
  "acquire_lock io create lk = (Inl e, lk') \<Longrightarrow> lk_held lk' = lk_held lk"
  by (auto simp: acquire_lock_def Let_def split: if_splits option.splits)

section \<open>OpenProtected\<close>

record open_options =
  oo_path_given :: bool
  oo_origin :: string
  oo_lifetime :: string
  oo_lifetime_set :: bool
  oo_now :: time

record open_env =
  oe_clock :: time
  oe_dir_io :: faults
  oe_lock_io :: faults
  oe_read_io :: faults
  oe_write_io :: faults
  oe_handle :: entropy
  oe_token :: entropy

record open_result =
  or_token :: string
  or_origin :: origin
  or_store :: store

text \<open>\<open>initial_state\<close>: what a first start with a public origin begins with.\<close>
definition initial_state :: "origin \<Rightarrow> session_lifetime \<Rightarrow> string \<Rightarrow> access_state" where
  "initial_state og l handle =
     \<lparr>st_version = state_version, st_origin = origin_value og, st_rpid = rpid og,
      st_lifetime = lifetime_string l, st_handle = b64_encode handle,
      credentials = [], sessions = [], invitations = []\<rparr>"

definition no_origin :: origin where
  "no_origin = \<lparr>authority = [], rpid = [], origin_value = []\<rparr>"

text \<open>The state to start from and its origin: the persisted one, or a new one when there is none.\<close>
definition start_state ::
  "open_env \<Rightarrow> open_options \<Rightarrow> origin \<Rightarrow> session_lifetime \<Rightarrow> access_state disk \<Rightarrow>
     access_error + (access_state \<times> origin \<times> bool)" where
  "start_state env oo supplied l d =
     (case read_state (oe_read_io env) d of
        Inl e \<Rightarrow>
          if e = ErrIo NotExist then
            (if oo_origin oo = [] then Inl ErrNotInitialized
             else case random_bytes (oe_handle env) 64 of Inl e \<Rightarrow> Inl e
               | Inr h \<Rightarrow> Inr (initial_state supplied l h, supplied, True))
          else Inl e
      | Inr st \<Rightarrow>
          (case parse_canonical_origin (st_origin st) of Inl e \<Rightarrow> Inl (ErrConfig e)
           | Inr persisted \<Rightarrow>
             if oo_origin oo \<noteq> [] \<and> supplied \<noteq> persisted then Inl ErrOriginMismatch
             else Inr (if oo_lifetime_set oo then st\<lparr>st_lifetime := lifetime_string l\<rparr> else st,
                       persisted, oo_lifetime_set oo)))"

text \<open>Pruning, and the bootstrap invitation when no passkey and no invitation is left.\<close>
definition bootstrap ::
  "open_env \<Rightarrow> time \<Rightarrow> access_state \<Rightarrow> access_error + (access_state \<times> string \<times> bool)" where
  "bootstrap env now st =
     (let st1 = prune_invitations st now;
          pruned = (length (invitations st) \<noteq> length (invitations st1))
      in if active_credential_count st1 = 0 \<and> invitations st1 = [] then
           (case new_invitation now [] (oe_token env) of Inl e \<Rightarrow> Inl e
            | Inr (token, i) \<Rightarrow> Inr (st1\<lparr>invitations := invitations st1 @ [i]\<rparr>, token, True))
         else Inr (st1, [], pruned))"

definition open_protected ::
  "open_env \<Rightarrow> open_options \<Rightarrow> access_state disk \<Rightarrow> lock_file \<Rightarrow>
     (access_error + open_result) \<times> access_state disk \<times> lock_file" where
  "open_protected env oo d lk =
     (if \<not> oo_path_given oo then (Inl ErrPath, d, lk)
      else let now = (if oo_now oo = 0 then oe_clock env else oo_now oo);
               supplied = (if oo_origin oo = [] then Inr no_origin else parse_canonical_origin (oo_origin oo));
               lt = (if oo_lifetime_set oo then oo_lifetime oo else default_session_lifetime)
        in case supplied of Inl e \<Rightarrow> (Inl (ErrConfig e), d, lk)
        | Inr og \<Rightarrow>
          (case parse_session_lifetime lt of Inl e \<Rightarrow> (Inl (ErrConfig e), d, lk)
           | Inr l \<Rightarrow>
             (case ensure_private_directory (oe_dir_io env) True d of (Inl e, d1) \<Rightarrow> (Inl (ErrIo e), d1, lk)
              | (Inr _, d1) \<Rightarrow>
                (case acquire_lock (oe_lock_io env) True lk of (Inl e, lk1) \<Rightarrow> (Inl e, d1, lk1)
                 | (Inr _, lk1) \<Rightarrow>
                   (case start_state env oo og l d1 of Inl e \<Rightarrow> (Inl e, d1, release_lock lk1)
                    | Inr (st, og1, changed) \<Rightarrow>
                      (case bootstrap env now st of Inl e \<Rightarrow> (Inl e, d1, release_lock lk1)
                       | Inr (st1, token, changed1) \<Rightarrow>
                         let s = \<lparr>sto_state = st1, sto_disk = d1\<rparr>
                         in if changed \<or> changed1 then
                              (case store_write (oe_write_io env) s of
                                 (Inl e, s1) \<Rightarrow> (Inl e, sto_disk s1, release_lock lk1)
                               | (Inr _, s1) \<Rightarrow>
                                 (Inr \<lparr>or_token = token, or_origin = og1, or_store = s1\<rparr>, sto_disk s1, lk1))
                            else (Inr \<lparr>or_token = token, or_origin = og1, or_store = s\<rparr>, d1, lk1)))))))"

text \<open>\<open>OpenExistingStopped\<close>.\<close>
definition open_existing_stopped ::
  "open_env \<Rightarrow> access_state disk \<Rightarrow> lock_file \<Rightarrow>
     (access_error + (store \<times> origin)) \<times> lock_file" where
  "open_existing_stopped env d lk =
     (case ensure_private_directory (oe_dir_io env) False d of (Inl e, d1) \<Rightarrow> (Inl (ErrIo e), lk)
      | (Inr _, d1) \<Rightarrow>
        (case acquire_lock (oe_lock_io env) False lk of (Inl e, lk1) \<Rightarrow> (Inl e, lk1)
         | (Inr _, lk1) \<Rightarrow>
           (case read_state (oe_read_io env) d1 of Inl e \<Rightarrow> (Inl e, release_lock lk1)
            | Inr st \<Rightarrow>
              (case parse_canonical_origin (st_origin st) of Inl e \<Rightarrow> (Inl (ErrConfig e), release_lock lk1)
               | Inr og \<Rightarrow> (Inr (\<lparr>sto_state = st, sto_disk = d1\<rparr>, og), lk1)))))"

text \<open>\<open>HoldServiceLock\<close>.\<close>
definition hold_service_lock ::
  "open_env \<Rightarrow> bool \<Rightarrow> access_state disk \<Rightarrow> lock_file \<Rightarrow>
     (access_error + unit) \<times> access_state disk \<times> lock_file" where
  "hold_service_lock env path_given d lk =
     (if \<not> path_given then (Inl ErrPath, d, lk)
      else case ensure_private_directory (oe_dir_io env) True d of (Inl e, d1) \<Rightarrow> (Inl (ErrIo e), d1, lk)
      | (Inr _, d1) \<Rightarrow> (case acquire_lock (oe_lock_io env) True lk of (r, lk1) \<Rightarrow> (r, d1, lk1)))"

section \<open>What a successful open gives\<close>

lemma store_write_ok:
  assumes "store_write io s = (Inr u, s')"
  shows "valid_state (sto_state s)" "sto_state s' = sto_state s"
    "dk_file (sto_disk s') = Some (new_file, sto_state s)"
  using assms
  by (auto simp: store_write_def lift_io_def split: sum.splits prod.splits
      dest!: access_file.write_ok intro: validate_state_rules [THEN iffD1])

lemma store_write_error:
  assumes "store_write io s = (Inl e, s')"
  shows "sto_state s' = sto_state s"
    "dk_file (sto_disk s') = dk_file (sto_disk s) \<or>
     dk_file (sto_disk s') = Some (new_file, sto_state s) \<and> valid_state (sto_state s)"
  using assms
  by (auto simp: store_write_def lift_io_def split: sum.splits prod.splits
      dest: access_file.write_error validate_state_rules [THEN iffD1])

lemma store_write_file:
  "store_write io s = (r, s') \<Longrightarrow>
   dk_file (sto_disk s') = dk_file (sto_disk s) \<or>
   dk_file (sto_disk s') = Some (new_file, sto_state s) \<and> valid_state (sto_state s)"
  using store_write_ok [of io s _ s'] store_write_error [of io s _ s'] by (cases r) auto

lemma read_state_ok:
  "read_state io d = Inr st \<Longrightarrow> \<exists>i. dk_file d = Some (i, st) \<and> private_file_info i \<and> valid_state st"
  by (auto simp: read_state_def open_private_regular_def validate_state_rules
      split: sum.splits if_splits option.splits prod.splits)

lemma parse_origin_idem:
  "parse_canonical_origin v = Inr og \<Longrightarrow> parse_canonical_origin (origin_value og) = Inr og"
  using parse_canonical_origin_value by blast

lemma start_state_ok:
  assumes "start_state env oo og l d = Inr (st, og1, changed)"
  shows "parse_canonical_origin (oo_origin oo) = Inr og \<Longrightarrow> parse_canonical_origin (st_origin st) = Inr og1
      \<or> oo_origin oo = []"
    and "oo_origin oo = [] \<Longrightarrow> parse_canonical_origin (st_origin st) = Inr og1"
    and "\<not> changed \<Longrightarrow> content d = Some st \<and> valid_state st"
  using assms
  by (auto simp: start_state_def initial_state_def content_def
      split: sum.splits if_splits dest: read_state_ok parse_origin_idem)

lemma bootstrap_ok:
  assumes "bootstrap env now st = Inr (st1, token, changed)"
  shows "st_origin st1 = st_origin st" "active_credential_count st1 > 0 \<or> invitations st1 \<noteq> []"
    "\<not> changed \<Longrightarrow> st1 = st"
    "token \<noteq> [] \<Longrightarrow> \<exists>i \<in> set (invitations st1). i_digest i = digest_token token \<and> i_issuer i = []"
proof -
  have filt: "delete_func p xs = xs" if "length xs = length (delete_func p xs)" for p and xs :: "invitation_record list"
    using that filter_id_conv [of "\<lambda>x. \<not> p x" xs]
    by (metis delete_func_def length_filter_less nat_neq_iff)
  show "st_origin st1 = st_origin st" "active_credential_count st1 > 0 \<or> invitations st1 \<noteq> []"
    "token \<noteq> [] \<Longrightarrow> \<exists>i \<in> set (invitations st1). i_digest i = digest_token token \<and> i_issuer i = []"
    using assms by (auto simp: bootstrap_def prune_invitations_def Let_def new_invitation_def
        split: if_splits sum.splits)
  show "st1 = st" if "\<not> changed"
  proof -
    from assms that have "length (invitations st) = length (invitations (prune_invitations st now))"
      "st1 = prune_invitations st now"
      by (auto simp: bootstrap_def Let_def split: if_splits sum.splits)
    then show ?thesis using filt by (simp add: prune_invitations_def)
  qed
qed

lemma open_protected_inv:
  assumes "open_protected env oo d lk = (Inr res, d', lk')"
  obtains og l d1 st changed st1 changed1 lk1 where
    "oo_origin oo = [] \<or> parse_canonical_origin (oo_origin oo) = Inr og"
    "ensure_private_directory (oe_dir_io env) True d = (Inr (), d1)"
    "acquire_lock (oe_lock_io env) True lk = (Inr (), lk')"
    "start_state env oo og l d1 = Inr (st, or_origin res, changed)"
    "bootstrap env (if oo_now oo = 0 then oe_clock env else oo_now oo) st = Inr (st1, or_token res, changed1)"
    "\<not> changed \<and> \<not> changed1 \<and> or_store res = \<lparr>sto_state = st1, sto_disk = d1\<rparr> \<and> d' = d1
     \<or> store_write (oe_write_io env) \<lparr>sto_state = st1, sto_disk = d1\<rparr> = (Inr (), or_store res)
        \<and> d' = sto_disk (or_store res)"
  using assms unfolding open_protected_def
  by (auto simp: Let_def split: if_splits sum.splits prod.splits)

text \<open>C9.  When \<open>OpenProtected\<close> succeeds, the state in memory is valid, the private state file holds
  exactly that state, its origin is the parsed public origin, this process alone holds the service
  lock, and some passkey or some invitation exists, so that someone can sign in or be trusted; a
  returned bootstrap token is the token of an invitation of that state.\<close>
theorem open_protected_ok:
  assumes "open_protected env oo d lk = (Inr res, d', lk')"
  shows "valid_state (sto_state (or_store res))
    \<and> content d' = Some (sto_state (or_store res))
    \<and> parse_canonical_origin (st_origin (sto_state (or_store res))) = Inr (or_origin res)
    \<and> lk_held lk' \<and> \<not> lk_other lk \<and> \<not> lk_held lk
    \<and> (active_credential_count (sto_state (or_store res)) > 0 \<or> invitations (sto_state (or_store res)) \<noteq> [])
    \<and> (or_token res \<noteq> [] \<longrightarrow> (\<exists>i \<in> set (invitations (sto_state (or_store res))).
           i_digest i = digest_token (or_token res) \<and> i_issuer i = []))"
proof -
  obtain og l d1 st changed st1 changed1 where
    o: "oo_origin oo = [] \<or> parse_canonical_origin (oo_origin oo) = Inr og"
    and lk: "acquire_lock (oe_lock_io env) True lk = (Inr (), lk')"
    and s: "start_state env oo og l d1 = Inr (st, or_origin res, changed)"
    and b: "bootstrap env (if oo_now oo = 0 then oe_clock env else oo_now oo) st = Inr (st1, or_token res, changed1)"
    and w: "\<not> changed \<and> \<not> changed1 \<and> or_store res = \<lparr>sto_state = st1, sto_disk = d1\<rparr> \<and> d' = d1
     \<or> store_write (oe_write_io env) \<lparr>sto_state = st1, sto_disk = d1\<rparr> = (Inr (), or_store res)
        \<and> d' = sto_disk (or_store res)"
    using assms by (rule open_protected_inv)
  note b' = bootstrap_ok [OF b] and ss = start_state_ok [OF s]
  have st1: "sto_state (or_store res) = st1" using w store_write_ok(2) by fastforce
  have v: "valid_state st1 \<and> content d' = Some st1"
    using w b'(3) ss(3) store_write_ok(1,3) by (fastforce simp: content_def)
  have o': "parse_canonical_origin (st_origin st1) = Inr (or_origin res)"
    using o ss(1,2) b'(1) by auto
  show ?thesis using v o' b'(2,4) acquire_lock_exclusive [OF lk] by (simp add: st1)
qed


section \<open>A concrete first start\<close>

text \<open>A first start with the origin \<open>https://a.b\<close>, on an empty disk, with no fault.  It is the input of
  the witnesses here and in the theories that build on the store.\<close>
definition no_faults :: faults where "no_faults = (\<lambda>_. False)"

definition sample_origin :: origin where "sample_origin = origin_of ''a.b'' None"

definition sample_entropy :: entropy where "sample_entropy = Some (\<lambda>_. CHR ''x'')"

definition sample_env :: open_env where
  "sample_env = \<lparr>oe_clock = 1000, oe_dir_io = no_faults, oe_lock_io = no_faults, oe_read_io = no_faults,
     oe_write_io = no_faults, oe_handle = sample_entropy, oe_token = sample_entropy\<rparr>"

definition sample_options :: open_options where
  "sample_options = \<lparr>oo_path_given = True, oo_origin = origin_value sample_origin, oo_lifetime = [],
     oo_lifetime_set = False, oo_now = 0\<rparr>"

definition empty_disk :: "'a disk" where
  "empty_disk = \<lparr>dk_dir = None, dk_file = None, dk_temps = 0\<rparr>"

definition free_lock :: lock_file where
  "free_lock = \<lparr>lk_info = None, lk_held = False, lk_other = False\<rparr>"

definition sample_token :: string where "sample_token = b64_encode (replicate 32 (CHR ''x''))"

definition sample_invitation :: invitation_record where
  "sample_invitation = \<lparr>i_digest = digest_token sample_token, i_issuer = [], i_issued = 1000,
     i_expires = 1000 + invitation_lifetime, i_rclient = [], i_runtil = None, i_consumed = None\<rparr>"

definition sample_state :: access_state where
  "sample_state = (initial_state sample_origin \<lparr>days = 30, no_expiry = False\<rparr> (replicate 64 (CHR ''x'')))
     \<lparr>invitations := [sample_invitation]\<rparr>"

lemma sample_host: "canonical_host ''a.b''"
  by code_simp

lemma sample_origin_parses: "parse_canonical_origin (origin_value sample_origin) = Inr sample_origin"
  unfolding sample_origin_def
  by (rule parse_canonical_origin_of [OF sample_host]) (simp add: canonical_port_def)

lemma default_lifetime_parses: "parse_session_lifetime default_session_lifetime = Inr \<lparr>days = 30, no_expiry = False\<rparr>"
  by code_simp

lemma sample_fields:
  "st_origin sample_state = origin_value sample_origin" "st_rpid sample_state = rpid sample_origin"
  "st_version sample_state = state_version" "st_lifetime sample_state = lifetime_string \<lparr>days = 30, no_expiry = False\<rparr>"
  "st_handle sample_state = b64_encode (replicate 64 (CHR ''x''))" "credentials sample_state = []"
  "sessions sample_state = []" "invitations sample_state = [sample_invitation]"
  by (simp_all add: sample_state_def initial_state_def)

lemma sample_lifetime: "parse_session_lifetime (lifetime_string \<lparr>days = 30, no_expiry = False\<rparr>) = Inr \<lparr>days = 30, no_expiry = False\<rparr>"
  by (rule parse_lifetime_string) (simp add: lifetime_ok_def max_session_days_def)

lemma sample_invitation_ok: "invitation_ok active sample_invitation"
  by (simp add: invitation_ok_def sample_invitation_def bad_reservation_def bad_consumption_def)

lemma sample_state_valid: "valid_state sample_state"
proof -
  have "header_ok sample_state"
    unfolding header_ok_def sample_fields
    using sample_origin_parses sample_lifetime by simp
  then show ?thesis
    by (auto simp: valid_state_def sample_fields credentials_ok_def sessions_ok_def invitations_ok_def
        access_limits trust_sessions_def open_invites_def sample_invitation_ok)
qed

lemma sample_entropy_bytes: "random_bytes sample_entropy n = Inr (replicate n (CHR ''x''))"
  by (simp add: random_bytes_def sample_entropy_def map_replicate_const)

lemma sample_new_invitation: "new_invitation 1000 [] sample_entropy = Inr (sample_token, sample_invitation)"
  by (simp add: new_invitation_def random_token_def sample_entropy_bytes sample_token_def sample_invitation_def)

lemma sample_open:
  "open_protected sample_env sample_options empty_disk free_lock =
     (Inr \<lparr>or_token = sample_token, or_origin = sample_origin,
        or_store = \<lparr>sto_state = sample_state, sto_disk = \<lparr>dk_dir = Some new_dir, dk_file = Some (new_file, sample_state), dk_temps = 0\<rparr>\<rparr>\<rparr>,
      \<lparr>dk_dir = Some new_dir, dk_file = Some (new_file, sample_state), dk_temps = 0\<rparr>,
      \<lparr>lk_info = Some new_file, lk_held = True, lk_other = False\<rparr>)"
proof -
  have o: "origin_value sample_origin \<noteq> []" by (simp add: sample_origin_def origin_of_def Let_def)
  have d: "ensure_private_directory (oe_dir_io sample_env) True (empty_disk :: access_state disk) =
      (Inr (), \<lparr>dk_dir = Some new_dir, dk_file = None, dk_temps = 0\<rparr>)"
    by (simp add: ensure_private_directory_def sample_env_def no_faults_def empty_disk_def)
  have l: "acquire_lock (oe_lock_io sample_env) True free_lock =
      (Inr (), \<lparr>lk_info = Some new_file, lk_held = True, lk_other = False\<rparr>)"
    by (simp add: acquire_lock_def sample_env_def no_faults_def free_lock_def Let_def)
       (simp add: new_file_def private_file_info_def)
  have s: "start_state sample_env sample_options sample_origin \<lparr>days = 30, no_expiry = False\<rparr>
      \<lparr>dk_dir = Some new_dir, dk_file = None, dk_temps = 0\<rparr> =
      Inr (initial_state sample_origin \<lparr>days = 30, no_expiry = False\<rparr> (replicate 64 (CHR ''x'')), sample_origin, True)"
    using o by (simp add: start_state_def read_state_def open_private_regular_def sample_options_def
        sample_env_def sample_entropy_bytes)
  have b: "bootstrap sample_env 1000 (initial_state sample_origin \<lparr>days = 30, no_expiry = False\<rparr> (replicate 64 (CHR ''x''))) =
      Inr (sample_state, sample_token, True)"
    by (simp add: bootstrap_def prune_invitations_def active_credential_count_def initial_state_def sample_env_def
        sample_new_invitation sample_state_def Let_def)
  have w: "store_write (oe_write_io sample_env) \<lparr>sto_state = sample_state, sto_disk = \<lparr>dk_dir = Some new_dir, dk_file = None, dk_temps = 0\<rparr>\<rparr> =
      (Inr (), \<lparr>sto_state = sample_state, sto_disk = \<lparr>dk_dir = Some new_dir, dk_file = Some (new_file, sample_state), dk_temps = 0\<rparr>\<rparr>)"
    by (simp add: store_write_def validate_state_rules [THEN iffD2, OF sample_state_valid] access_write_state_def
        ensure_private_directory_def replace_via_temp_def first_fault_def sample_env_def no_faults_def lift_io_def)
  have c: "oe_clock sample_env = 1000" "oo_now sample_options = 0" "oo_path_given sample_options"
    "oo_origin sample_options = origin_value sample_origin" "\<not> oo_lifetime_set sample_options"
    by (simp_all add: sample_env_def sample_options_def)
  show ?thesis
    unfolding open_protected_def
    using o s b d l w c sample_origin_parses default_lifetime_parses
    by (simp add: Let_def)
qed

theorem open_protected_ok_witness:
  "valid_state sample_state \<and> invitations sample_state \<noteq> []"
  using open_protected_ok [OF sample_open] by (simp add: active_credential_count_def sample_fields)

text \<open>A start that finds another Shepherdr running.\<close>
lemma sample_open_locked:
  "open_protected sample_env sample_options empty_disk (free_lock\<lparr>lk_other := True\<rparr>) =
     (Inl ErrRunning, \<lparr>dk_dir = Some new_dir, dk_file = None, dk_temps = 0\<rparr>,
      \<lparr>lk_info = Some new_file, lk_held = False, lk_other = True\<rparr>)"
proof -
  have o: "origin_value sample_origin \<noteq> []" by (simp add: sample_origin_def origin_of_def Let_def)
  have d: "ensure_private_directory (oe_dir_io sample_env) True (empty_disk :: access_state disk) =
      (Inr (), \<lparr>dk_dir = Some new_dir, dk_file = None, dk_temps = 0\<rparr>)"
    by (simp add: ensure_private_directory_def sample_env_def no_faults_def empty_disk_def)
  have l: "acquire_lock (oe_lock_io sample_env) True (free_lock\<lparr>lk_other := True\<rparr>) =
      (Inl ErrRunning, \<lparr>lk_info = Some new_file, lk_held = False, lk_other = True\<rparr>)"
    by (simp add: acquire_lock_def sample_env_def no_faults_def free_lock_def Let_def)
       (simp add: new_file_def private_file_info_def)
  have c: "oe_clock sample_env = 1000" "oo_now sample_options = 0" "oo_path_given sample_options"
    "oo_origin sample_options = origin_value sample_origin" "\<not> oo_lifetime_set sample_options"
    by (simp_all add: sample_env_def sample_options_def)
  show ?thesis
    unfolding open_protected_def
    using o d l c sample_origin_parses default_lifetime_parses by (simp add: Let_def)
qed


end
