(* ===== verification/AccessManager.thy ===== *)
theory AccessManager
  imports AccessStore
begin

text \<open>
  \<open>internal/access/manager.go\<close>: the manager of trusted sign-ins.  Each method runs under the
  manager's gate, so it is one atomic function of the manager; the clock, the random reads, the
  faults of the disk and the result of the notification cleanup are its environment.

  The state is kept twice, as in the code: \<open>mg_state\<close> is \<open>m.state\<close> and \<open>sto_state (mg_store m)\<close> is
  \<open>m.store.state\<close>.  A session runtime is a number; \<open>mg_runtimes\<close> maps a session digest to its runtime,
  \<open>mg_cancelled\<close> holds the runtimes whose context was cancelled and \<open>mg_waits\<close> counts their leases.
  Calls to the notification authority are recorded in \<open>mg_events\<close>.

  \<open>cloneState\<close> encodes and decodes the state so that later changes do not touch the current one; on
  values without sharing it is the identity.
\<close>

section \<open>The manager\<close>

datatype auth_event =
    TrustedSignInAdded string
  | RemoveTrustSubscriptions string string
  | ResetProtectedSubscriptions

record manager =
  mg_store :: store
  mg_state :: access_state
  mg_origin :: origin
  mg_authority :: bool
  mg_events :: "auth_event list"
  mg_runtimes :: "string \<rightharpoonup> nat"
  mg_next :: nat
  mg_cancelled :: "nat set"
  mg_waits :: "nat \<Rightarrow> nat"

record mgr_env =
  me_now :: time
  me_rand1 :: entropy
  me_rand2 :: entropy
  me_io :: faults
  me_cleanup_fails :: bool

record session_identity =
  sid_digest :: string
  sid_trust :: string

record session_lease =
  le_runtime :: nat
  le_session :: session_identity

record revocation =
  rv_runtimes :: "nat list"
  rv_label :: string
  rv_cleanup_error :: bool

section \<open>Lookups\<close>

definition session_live :: "session_record \<Rightarrow> time \<Rightarrow> bool" where
  "session_live s now \<longleftrightarrow> (case s_expires s of None \<Rightarrow> True | Some e \<Rightarrow> now < e)"

definition active_trust_locked :: "'z manager_scheme \<Rightarrow> string \<Rightarrow> bool" where
  "active_trust_locked m t =
     (case find (\<lambda>c. c_trust c = t) (credentials (mg_state m)) of
        None \<Rightarrow> False | Some c \<Rightarrow> c_revoked c = None)"

definition active_session_locked :: "'z manager_scheme \<Rightarrow> string \<Rightarrow> time \<Rightarrow> session_record option" where
  "active_session_locked m digest now =
     find (\<lambda>s. s_digest s = digest \<and> session_live s now \<and> active_trust_locked m (s_trust s))
       (sessions (mg_state m))"

text \<open>The check most methods begin with: the session is active and still belongs to its trust.\<close>
definition session_of :: "'z manager_scheme \<Rightarrow> session_identity \<Rightarrow> time \<Rightarrow> session_record option" where
  "session_of m sid now =
     (case active_session_locked m (sid_digest sid) now of None \<Rightarrow> None
      | Some s \<Rightarrow> if s_trust s = sid_trust sid then Some s else None)"

definition protected_state :: "'z manager_scheme \<Rightarrow> bool \<times> string" where
  "protected_state m = (active_credential_count (mg_state m) > 0, st_lifetime (mg_state m))"

definition authenticate_token :: "'z manager_scheme \<Rightarrow> time \<Rightarrow> string \<Rightarrow> session_identity option" where
  "authenticate_token m now token =
     (if length token < 40 \<or> length token > 128 then None
      else case active_session_locked m (digest_token token) now of None \<Rightarrow> None
      | Some s \<Rightarrow> Some \<lparr>sid_digest = digest_token token, sid_trust = s_trust s\<rparr>)"

definition recheck :: "'z manager_scheme \<Rightarrow> time \<Rightarrow> session_identity \<Rightarrow> bool" where
  "recheck m now sid \<longleftrightarrow> session_of m sid now \<noteq> None"

definition bind :: "'z manager_scheme \<Rightarrow> time \<Rightarrow> session_identity \<Rightarrow> session_lease option \<times> 'z manager_scheme" where
  "bind m now sid =
     (case session_of m sid now of None \<Rightarrow> (None, m)
      | Some s \<Rightarrow>
        (case mg_runtimes m (sid_digest sid) of None \<Rightarrow> (None, m)
         | Some r \<Rightarrow> (Some \<lparr>le_runtime = r, le_session = sid\<rparr>,
             m\<lparr>mg_waits := (mg_waits m)(r := Suc (mg_waits m r))\<rparr>)))"

definition lease_valid :: "'z manager_scheme \<Rightarrow> time \<Rightarrow> session_lease \<Rightarrow> bool" where
  "lease_valid m now l \<longleftrightarrow> le_runtime l \<notin> mg_cancelled m \<and> recheck m now (le_session l)"

definition lease_close :: "'z manager_scheme \<Rightarrow> session_lease \<Rightarrow> 'z manager_scheme" where
  "lease_close m l = m\<lparr>mg_waits := (mg_waits m)(le_runtime l := mg_waits m (le_runtime l) - 1)\<rparr>"

definition with_session_read ::
  "'z manager_scheme \<Rightarrow> time \<Rightarrow> session_identity \<Rightarrow> (string \<Rightarrow> access_error + 'a) \<Rightarrow> access_error + 'a" where
  "with_session_read m now sid op =
     (case session_of m sid now of None \<Rightarrow> Inl ErrUnauthorized
      | Some s \<Rightarrow> if active_trust_locked m (s_trust s) then op (s_trust s) else Inl ErrUnauthorized)"

definition with_session_commit ::
  "'z manager_scheme \<Rightarrow> time \<Rightarrow> session_identity \<Rightarrow> (string \<Rightarrow> access_error + 'a) \<Rightarrow> access_error + 'a" where
  "with_session_commit m now sid op =
     (case session_of m sid now of None \<Rightarrow> Inl ErrUnauthorized
      | Some s \<Rightarrow> if active_trust_locked m (s_trust s) then op (s_trust s) else Inl ErrUnauthorized)"

definition with_active_trust_read ::
  "'z manager_scheme \<Rightarrow> string \<Rightarrow> (unit \<Rightarrow> access_error + 'a) \<Rightarrow> access_error + 'a" where
  "with_active_trust_read m t op = (if active_trust_locked m t then op () else Inl ErrUnauthorized)"

definition device_of :: "credential_record \<Rightarrow> device" where
  "device_of c = \<lparr>d_trust = c_trust c, d_label = c_label c, d_created = c_created c, d_used = c_used c,
     d_backup_eligible = wa_backup_eligible (c_cred c), d_backup_state = wa_backup_state (c_cred c),
     d_backup_seen = c_backup_seen c\<rparr>"

text \<open>\<open>sort.Slice\<close> by creation time.  Go does not say in which order equal times come; the model keeps
  the stored order.\<close>
definition local_devices :: "'z manager_scheme \<Rightarrow> device list" where
  "local_devices m =
     sort_key d_created (map device_of (filter (\<lambda>c. c_revoked c = None) (credentials (mg_state m))))"

definition devices :: "'z manager_scheme \<Rightarrow> time \<Rightarrow> session_identity \<Rightarrow> access_error + device list" where
  "devices m now sid =
     (case session_of m sid now of None \<Rightarrow> Inl ErrUnauthorized
      | Some _ \<Rightarrow> Inr (sort_key d_created
          (map device_of (filter (\<lambda>c. c_revoked c = None) (credentials (mg_state m))))))"

definition active_trust_ids :: "'z manager_scheme \<Rightarrow> string set" where
  "active_trust_ids m = c_trust ` {c \<in> set (credentials (mg_state m)). c_revoked c = None}"

record operator_user =
  ou_handle :: string
  ou_credentials :: "wa_credential list"

definition active_user_locked :: "'z manager_scheme \<Rightarrow> access_error + operator_user" where
  "active_user_locked m =
     (case b64_decode (st_handle (mg_state m)) of None \<Rightarrow> Inl ErrDecode
      | Some h \<Rightarrow> Inr \<lparr>ou_handle = h,
          ou_credentials = map c_cred (filter (\<lambda>c. c_revoked c = None) (credentials (mg_state m)))\<rparr>)"

definition discoverable_user_locked ::
  "'z manager_scheme \<Rightarrow> string \<Rightarrow> string \<Rightarrow> access_error + (operator_user \<times> string)" where
  "discoverable_user_locked m raw_id handle =
     (case active_user_locked m of Inl _ \<Rightarrow> Inl ErrUnauthorized
      | Inr u \<Rightarrow>
        if ou_handle u \<noteq> handle then Inl ErrUnauthorized
        else case find (\<lambda>c. c_revoked c = None \<and> wa_id (c_cred c) = raw_id) (credentials (mg_state m)) of
            None \<Rightarrow> Inl ErrUnauthorized
          | Some c \<Rightarrow> Inr (u, c_trust c))"

section \<open>Committing\<close>

text \<open>\<open>commitLocked\<close>: validate, put the new state into the store, write it, and put the old state
  back when the write fails.\<close>
definition commit_locked ::
  "mgr_env \<Rightarrow> access_state \<Rightarrow> 'z manager_scheme \<Rightarrow> (access_error + unit) \<times> 'z manager_scheme" where
  "commit_locked env updated m =
     (case validate_state updated of Inl e \<Rightarrow> (Inl e, m)
      | Inr _ \<Rightarrow>
        let original = sto_state (mg_store m)
        in case store_write (me_io env) ((mg_store m)\<lparr>sto_state := updated\<rparr>) of
             (Inl e, s) \<Rightarrow> (Inl e, m\<lparr>mg_store := s\<lparr>sto_state := original\<rparr>\<rparr>)
           | (Inr _, s) \<Rightarrow> (Inr (), m\<lparr>mg_store := s, mg_state := updated\<rparr>))"

fun cancel_runtimes :: "string list \<Rightarrow> 'z manager_scheme \<Rightarrow> nat list \<times> 'z manager_scheme" where
  "cancel_runtimes [] m = ([], m)"
| "cancel_runtimes (d # ds) m =
     (case mg_runtimes m d of None \<Rightarrow> cancel_runtimes ds m
      | Some r \<Rightarrow>
        (case cancel_runtimes ds (m\<lparr>mg_runtimes := (mg_runtimes m)(d := None),
             mg_cancelled := insert r (mg_cancelled m)\<rparr>) of (rs, m') \<Rightarrow> (r # rs, m')))"

definition install_runtime :: "string \<Rightarrow> 'z manager_scheme \<Rightarrow> 'z manager_scheme" where
  "install_runtime d m = m\<lparr>mg_runtimes := (mg_runtimes m)(d \<mapsto> mg_next m), mg_next := Suc (mg_next m)\<rparr>"

definition notify_authority :: "auth_event \<Rightarrow> 'z manager_scheme \<Rightarrow> 'z manager_scheme" where
  "notify_authority ev m = (if mg_authority m then m\<lparr>mg_events := mg_events m @ [ev]\<rparr> else m)"

definition set_notification_authority :: "'z manager_scheme \<Rightarrow> 'z manager_scheme" where
  "set_notification_authority m = m\<lparr>mg_authority := True\<rparr>"

section \<open>Invitations\<close>

definition fresh_session :: "'z manager_scheme \<Rightarrow> time \<Rightarrow> session_record \<Rightarrow> bool" where
  "fresh_session m now s \<longleftrightarrow>
     \<not> time_sub now (s_fresh_at s) > fresh_lifetime \<and> active_trust_locked m (s_fresh_trust s)"

definition create_browser_invitation ::
  "mgr_env \<Rightarrow> session_identity \<Rightarrow> 'z manager_scheme \<Rightarrow> (access_error + string \<times> time) \<times> 'z manager_scheme" where
  "create_browser_invitation env sid m =
     (let now = me_now env
      in case session_of m sid now of None \<Rightarrow> (Inl ErrUnauthorized, m)
      | Some s \<Rightarrow>
        if \<not> fresh_session m now s then (Inl ErrFreshRequired, m)
        else let updated = prune_invitations (mg_state m) now;
                 n = length (open_invites (invitations updated) (s_fresh_trust s))
          in if length (invitations updated) \<ge> max_invitations \<or> n \<ge> max_authorizer_invites
             then (Inl ErrCapacity, m)
             else case new_invitation now (s_fresh_trust s) (me_rand1 env) of Inl e \<Rightarrow> (Inl e, m)
             | Inr (token, i) \<Rightarrow>
               (case commit_locked env (updated\<lparr>invitations := invitations updated @ [i]\<rparr>) m of
                  (Inl e, m') \<Rightarrow> (Inl e, m')
                | (Inr _, m') \<Rightarrow> (Inr (invitation_url (mg_origin m) token, i_expires i), m')))"

definition create_local_invitation ::
  "mgr_env \<Rightarrow> 'z manager_scheme \<Rightarrow> (access_error + string \<times> time) \<times> 'z manager_scheme" where
  "create_local_invitation env m =
     (let now = me_now env; updated = prune_invitations (mg_state m) now
      in if length (invitations updated) \<ge> max_invitations then (Inl ErrCapacity, m)
         else case new_invitation now [] (me_rand1 env) of Inl e \<Rightarrow> (Inl e, m)
         | Inr (token, i) \<Rightarrow>
           (case commit_locked env (updated\<lparr>invitations := invitations updated @ [i]\<rparr>) m of
              (Inl e, m') \<Rightarrow> (Inl e, m')
            | (Inr _, m') \<Rightarrow> (Inr (invitation_url (mg_origin m) token, i_expires i), m')))"

section \<open>Revoking, signing out, resetting, expiring\<close>

definition revoke_locked ::
  "mgr_env \<Rightarrow> string \<Rightarrow> 'z manager_scheme \<Rightarrow> (access_error + revocation) \<times> 'z manager_scheme" where
  "revoke_locked env target m =
     (let now = me_now env; st = mg_state m
      in if active_credential_count st \<le> 1 then (Inl ErrLastCredential, m)
         else case find (\<lambda>c. c_trust c = target \<and> c_revoked c = None) (credentials st) of
           None \<Rightarrow> (Inl ErrNotFound, m)
         | Some c \<Rightarrow>
           let creds = update_first (\<lambda>c. c_trust c = target \<and> c_revoked c = None)
                         (\<lambda>c. c\<lparr>c_revoked := Some now\<rparr>) (credentials st);
               gone = filter (\<lambda>s. s_trust s = target) (sessions st);
               updated = st\<lparr>credentials := creds,
                 sessions := delete_func (\<lambda>s. s_trust s = target) (sessions st),
                 invitations := delete_func (\<lambda>i. i_issuer i = target) (invitations st)\<rparr>
           in (case commit_locked env updated m of (Inl e, m') \<Rightarrow> (Inl e, m')
               | (Inr _, m') \<Rightarrow>
                 (case cancel_runtimes (map s_digest gone) m' of (rs, m'') \<Rightarrow>
                    (Inr \<lparr>rv_runtimes = rs, rv_label = c_label c,
                         rv_cleanup_error = (mg_authority m'' \<and> me_cleanup_fails env)\<rparr>,
                     notify_authority (RemoveTrustSubscriptions target (c_label c)) m''))))"

definition revoke_browser ::
  "mgr_env \<Rightarrow> session_identity \<Rightarrow> string \<Rightarrow> 'z manager_scheme \<Rightarrow> (access_error + revocation) \<times> 'z manager_scheme" where
  "revoke_browser env sid target m =
     (case session_of m sid (me_now env) of None \<Rightarrow> (Inl ErrUnauthorized, m)
      | Some s \<Rightarrow>
        if \<not> fresh_session m (me_now env) s then (Inl ErrFreshRequired, m)
        else revoke_locked env target m)"

definition revoke_local ::
  "mgr_env \<Rightarrow> string \<Rightarrow> 'z manager_scheme \<Rightarrow> (access_error + revocation) \<times> 'z manager_scheme" where
  "revoke_local env target m = revoke_locked env target m"

definition sign_out ::
  "mgr_env \<Rightarrow> session_identity \<Rightarrow> 'z manager_scheme \<Rightarrow> (access_error + nat list) \<times> 'z manager_scheme" where
  "sign_out env sid m =
     (let st = mg_state m;
          mine = (\<lambda>s. s_digest s = sid_digest sid \<and> s_trust s = sid_trust sid)
      in if \<not> list_ex mine (sessions st) then (Inl ErrUnauthorized, m)
         else case commit_locked env (st\<lparr>sessions := delete_func mine (sessions st)\<rparr>) m of
           (Inl e, m') \<Rightarrow> (Inl e, m')
         | (Inr _, m') \<Rightarrow>
           (case cancel_runtimes [sid_digest sid] m' of (rs, m'') \<Rightarrow> (Inr rs, m'')))"

definition reset :: "mgr_env \<Rightarrow> 'z manager_scheme \<Rightarrow> (access_error + nat list) \<times> 'z manager_scheme" where
  "reset env m =
     (let st = mg_state m
      in case random_bytes (me_rand1 env) 64 of Inl e \<Rightarrow> (Inl e, m)
      | Inr h \<Rightarrow>
        (case commit_locked env (st\<lparr>st_handle := b64_encode h, credentials := [], sessions := [],
             invitations := []\<rparr>) m of
           (Inl e, m') \<Rightarrow> (Inl e, m')
         | (Inr _, m') \<Rightarrow>
           (case cancel_runtimes (map s_digest (sessions st)) m' of (rs, m'') \<Rightarrow>
              (Inr rs, notify_authority ResetProtectedSubscriptions m''))))"

definition expire_now :: "mgr_env \<Rightarrow> 'z manager_scheme \<Rightarrow> (access_error + nat list) \<times> 'z manager_scheme" where
  "expire_now env m =
     (let st = mg_state m; now = me_now env;
          gone = filter (\<lambda>s. \<not> session_live s now) (sessions st)
      in if gone = [] then (Inr [], m)
         else case commit_locked env (st\<lparr>sessions := delete_func (\<lambda>s. \<not> session_live s now) (sessions st)\<rparr>) m of
           (Inl e, m') \<Rightarrow> (Inl e, m')
         | (Inr _, m') \<Rightarrow>
           (case cancel_runtimes (map s_digest gone) m' of (rs, m'') \<Rightarrow> (Inr rs, m'')))"

section \<open>Starting and closing\<close>

fun install_runtimes :: "string list \<Rightarrow> 'z manager_scheme \<Rightarrow> 'z manager_scheme" where
  "install_runtimes [] m = m"
| "install_runtimes (d # ds) m = install_runtimes ds (install_runtime d m)"

definition fresh_manager :: "store \<Rightarrow> origin \<Rightarrow> manager" where
  "fresh_manager s og = \<lparr>mg_store = s, mg_state = sto_state s, mg_origin = og, mg_authority = False,
     mg_events = [], mg_runtimes = Map.empty, mg_next = 0, mg_cancelled = {}, mg_waits = (\<lambda>_. 0)\<rparr>"

text \<open>\<open>NewManager\<close>.  \<open>webauthn_ok\<close> is whether the third-party \<open>webauthn.New\<close> accepts the configuration.\<close>
definition new_manager :: "mgr_env \<Rightarrow> bool \<Rightarrow> store \<Rightarrow> access_error + manager" where
  "new_manager env webauthn_ok s =
     (case parse_canonical_origin (st_origin (sto_state s)) of Inl e \<Rightarrow> Inl (ErrConfig e)
      | Inr og \<Rightarrow>
        if \<not> webauthn_ok then Inl ErrOrigin
        else case expire_now env (install_runtimes (map s_digest (sessions (sto_state s))) (fresh_manager s og)) of
            (Inl e, _) \<Rightarrow> Inl e
          | (Inr _, m) \<Rightarrow> Inr m)"

text \<open>\<open>Close\<close> cancels every runtime; it leaves the map in place.\<close>
definition close :: "'z manager_scheme \<Rightarrow> 'z manager_scheme" where
  "close m = m\<lparr>mg_cancelled := mg_cancelled m \<union> ran (mg_runtimes m)\<rparr>"

section \<open>Commits\<close>

lemma commit_locked_cases:
  assumes "commit_locked env st m = (r, m')"
  obtains (ok) d where "r = Inr ()" "valid_state st" "content d = Some st"
      "m' = m\<lparr>mg_store := \<lparr>sto_state = st, sto_disk = d\<rparr>, mg_state := st\<rparr>"
  | (error) e d where "r = Inl e" "m' = m\<lparr>mg_store := \<lparr>sto_state = sto_state (mg_store m), sto_disk = d\<rparr>\<rparr>"
      "content d = content (sto_disk (mg_store m)) \<or> valid_state st \<and> content d = Some st"
proof (cases "validate_state st")
  case (Inl e)
  with assms have "r = Inl e" "m' = m" by (simp_all add: commit_locked_def)
  then show thesis by (intro error [of e "sto_disk (mg_store m)"]) simp_all
next
  case (Inr u)
  let ?s = "(mg_store m)\<lparr>sto_state := st\<rparr>"
  obtain q s where w: "store_write (me_io env) ?s = (q, s)" by (meson surj_pair)
  show thesis
  proof (cases q)
    case (Inl e)
    with assms w Inr have "r = Inl e" "m' = m\<lparr>mg_store := s\<lparr>sto_state := sto_state (mg_store m)\<rparr>\<rparr>"
      by (auto simp: commit_locked_def Let_def)
    then show thesis using store_write_error [OF w [unfolded Inl]]
      by (intro error [of e "sto_disk s"]) (auto simp: content_def)
  next
    case (Inr u')
    with assms w \<open>validate_state st = Inr u\<close> have "r = Inr ()" "m' = m\<lparr>mg_store := s, mg_state := st\<rparr>"
      by (auto simp: commit_locked_def Let_def)
    moreover have "s = \<lparr>sto_state = st, sto_disk = sto_disk s\<rparr>"
      using store_write_ok(2) [OF w [unfolded Inr]] by simp
    ultimately show thesis using store_write_ok [OF w [unfolded Inr]]
      by (intro ok [of "sto_disk s"]) (auto simp: content_def)
  qed
qed

interpretation mgr: committed_store commit_locked mg_state "\<lambda>m. content (sto_disk (mg_store m))" valid_state
  by unfold_locales (auto elim!: commit_locked_cases)

lemma mgr_sound_iff:
  "mgr.sound m \<longleftrightarrow> valid_state (mg_state m) \<and> pred_option valid_state (content (sto_disk (mg_store m)))"
  by (simp add: mgr.sound_def)

section \<open>Runtimes\<close>

definition runtimes_of :: "'z manager_scheme \<Rightarrow> string set \<Rightarrow> nat set" where
  "runtimes_of m ds = {r. \<exists>d \<in> ds. mg_runtimes m d = Some r}"

lemma runtimes_of_store [simp]:
  "runtimes_of (m\<lparr>mg_store := s\<rparr>) = runtimes_of m" "runtimes_of (m\<lparr>mg_state := st\<rparr>) = runtimes_of m"
  by (simp_all add: runtimes_of_def fun_eq_iff)

lemma cancel_runtimes_spec:
  "cancel_runtimes ds m = (rs, m') \<Longrightarrow>
   set rs = runtimes_of m (set ds) \<and>
   m' = m\<lparr>mg_runtimes := mg_runtimes m |` (- set ds), mg_cancelled := mg_cancelled m \<union> runtimes_of m (set ds)\<rparr>"
proof (induction ds arbitrary: m rs m')
  case Nil
  then show ?case by (simp add: runtimes_of_def)
next
  case (Cons d ds)
  show ?case
  proof (cases "mg_runtimes m d")
    case None
    then have "runtimes_of m (set (d # ds)) = runtimes_of m (set ds)"
      "mg_runtimes m |` (- set (d # ds)) = mg_runtimes m |` (- set ds)"
      by (auto simp: runtimes_of_def restrict_map_def fun_eq_iff)
    with Cons.IH [of m rs m'] Cons.prems None show ?thesis by simp
  next
    case (Some r)
    let ?m = "m\<lparr>mg_runtimes := (mg_runtimes m)(d := None), mg_cancelled := insert r (mg_cancelled m)\<rparr>"
    from Cons.prems Some obtain rs' where c: "cancel_runtimes ds ?m = (rs', m')" "rs = r # rs'"
      by (auto split: prod.splits)
    note rs' = conjunct1 [OF Cons.IH [OF c(1)]] and m' = conjunct2 [OF Cons.IH [OF c(1)]]
    have e1: "mg_runtimes ?m |` (- set ds) = mg_runtimes m |` (- set (d # ds))"
      by (auto simp: restrict_map_def fun_eq_iff)
    have e2: "insert r (runtimes_of ?m (set ds)) = runtimes_of m (set (d # ds))"
      using Some by (auto simp: runtimes_of_def split: if_splits) (metis option.inject)
    then have e3: "mg_cancelled ?m \<union> runtimes_of ?m (set ds) = mg_cancelled m \<union> runtimes_of m (set (d # ds))"
      by auto
    have "m' = m\<lparr>mg_runtimes := mg_runtimes m |` (- set (d # ds)),
        mg_cancelled := mg_cancelled m \<union> runtimes_of m (set (d # ds))\<rparr>"
      unfolding m' e1 e3 by simp
    moreover have "set rs = runtimes_of m (set (d # ds))"
      using e2 by (simp only: c(2) rs' list.set)
    ultimately show ?thesis by blast
  qed
qed

text \<open>The runtimes are numbered without reuse: two sessions never share one, and no session has a
  cancelled one.\<close>
definition runtimes_ok :: "'z manager_scheme \<Rightarrow> bool" where
  "runtimes_ok m \<longleftrightarrow> inj_on (mg_runtimes m) (dom (mg_runtimes m))
     \<and> (\<forall>r \<in> ran (mg_runtimes m). r < mg_next m \<and> r \<notin> mg_cancelled m) \<and> mg_cancelled m \<subseteq> {..<mg_next m}"

lemma runtimes_ok_cong:
  "mg_runtimes m' = mg_runtimes m \<Longrightarrow> mg_next m' = mg_next m \<Longrightarrow> mg_cancelled m' = mg_cancelled m \<Longrightarrow>
   runtimes_ok m' = runtimes_ok m"
  by (simp add: runtimes_ok_def)

lemma runtimes_ok_store [simp]:
  "runtimes_ok (m\<lparr>mg_store := s\<rparr>) = runtimes_ok m" "runtimes_ok (m\<lparr>mg_state := st\<rparr>) = runtimes_ok m"
  by (simp_all add: runtimes_ok_def)

lemma runtimes_ok_install:
  "runtimes_ok m \<Longrightarrow> runtimes_ok (install_runtime d m)"
  by (auto simp: runtimes_ok_def install_runtime_def inj_on_def ran_def dom_def subset_iff less_Suc_eq
      split: if_splits)

lemma runtimes_ok_cancel:
  assumes "runtimes_ok m"
  shows "runtimes_ok (m\<lparr>mg_runtimes := mg_runtimes m |` (- ds), mg_cancelled := mg_cancelled m \<union> runtimes_of m ds\<rparr>)"
  using assms by (auto simp: runtimes_ok_def inj_on_def ran_def dom_def runtimes_of_def restrict_map_def subset_iff
      split: if_splits) (metis domI option.inject)+

lemma install_runtimes_frame:
  "\<exists>f n. install_runtimes ds m = m\<lparr>mg_runtimes := f, mg_next := n\<rparr> \<and> dom f = dom (mg_runtimes m) \<union> set ds"
proof (induction ds arbitrary: m)
  case Nil
  then show ?case by (intro exI [of _ "mg_runtimes m"] exI [of _ "mg_next m"]) simp
next
  case (Cons d ds)
  from Cons.IH [of "install_runtime d m"] obtain f n where
    "install_runtimes ds (install_runtime d m) = (install_runtime d m)\<lparr>mg_runtimes := f, mg_next := n\<rparr>"
    "dom f = dom (mg_runtimes (install_runtime d m)) \<union> set ds" by blast
  then show ?case by (intro exI [of _ f] exI [of _ n]) (simp add: install_runtime_def)
qed

lemma runtimes_ok_installs: "runtimes_ok m \<Longrightarrow> runtimes_ok (install_runtimes ds m)"
  by (induction ds arbitrary: m) (simp_all add: runtimes_ok_install)

section \<open>The invariant\<close>

text \<open>The state in memory is well formed and is the store's; the file holds a well formed state; exactly
  the sessions of the state have a runtime.\<close>
definition mgr_inv :: "'z manager_scheme \<Rightarrow> bool" where
  "mgr_inv m \<longleftrightarrow> mgr.sound m \<and> sto_state (mg_store m) = mg_state m \<and> runtimes_ok m
     \<and> dom (mg_runtimes m) = s_digest ` set (sessions (mg_state m))"

lemma mgr_inv_cong:
  "mg_store m' = mg_store m \<Longrightarrow> mg_state m' = mg_state m \<Longrightarrow> mg_runtimes m' = mg_runtimes m \<Longrightarrow>
   mg_next m' = mg_next m \<Longrightarrow> mg_cancelled m' = mg_cancelled m \<Longrightarrow> mgr_inv m' = mgr_inv m"
  using runtimes_ok_cong [of m' m] by (simp add: mgr_inv_def mgr.sound_def)

lemma mgr_inv_valid: "mgr_inv m \<Longrightarrow> valid_state (mg_state m)"
  by (simp add: mgr_inv_def mgr.sound_def)

lemma notify_authority_simps [simp]:
  "mg_state (notify_authority ev m) = mg_state m" "mg_store (notify_authority ev m) = mg_store m"
  "mg_runtimes (notify_authority ev m) = mg_runtimes m" "mg_cancelled (notify_authority ev m) = mg_cancelled m"
  "mg_next (notify_authority ev m) = mg_next m"
  "mg_events (notify_authority ev m) = mg_events m @ (if mg_authority m then [ev] else [])"
  by (simp_all add: notify_authority_def)

lemma mgr_inv_notify [simp]: "mgr_inv (notify_authority ev m) = mgr_inv m"
  by (rule mgr_inv_cong) (simp_all add: notify_authority_def)

lemma commit_error_inv:
  assumes "commit_locked env st m = (Inl e, m')" "mgr_inv m"
  shows "mgr_inv m' \<and> mg_state m' = mg_state m \<and> mg_runtimes m' = mg_runtimes m \<and> mg_cancelled m' = mg_cancelled m
    \<and> mg_events m' = mg_events m"
  using mgr.commit_sound [OF assms(1)] assms
  by (elim commit_locked_cases) (simp_all add: mgr_inv_def)

text \<open>The shape every operation that ends sessions has: commit, then cancel the runtimes of the sessions
  that are gone.\<close>
lemma commit_cancel_inv:
  assumes c: "commit_locked env st m = (Inr u, m1)" and k: "cancel_runtimes ds m1 = (rs, m2)"
    and inv: "mgr_inv m" and gone: "s_digest ` set (sessions st) = s_digest ` set (sessions (mg_state m)) - set ds"
  shows "mgr_inv m2 \<and> mg_state m2 = st \<and> valid_state st \<and> content (sto_disk (mg_store m2)) = Some st
    \<and> set rs = runtimes_of m (set ds) \<and> mg_runtimes m2 = mg_runtimes m |` (- set ds)
    \<and> mg_cancelled m2 = mg_cancelled m \<union> set rs \<and> mg_events m2 = mg_events m \<and> mg_authority m2 = mg_authority m
    \<and> mg_next m2 = mg_next m"
proof -
  from c obtain d where d: "valid_state st" "content d = Some st"
      "m1 = m\<lparr>mg_store := \<lparr>sto_state = st, sto_disk = d\<rparr>, mg_state := st\<rparr>"
    by (elim commit_locked_cases) auto
  from cancel_runtimes_spec [OF k] have rs: "set rs = runtimes_of m1 (set ds)"
    and m2: "m2 = m1\<lparr>mg_runtimes := mg_runtimes m1 |` (- set ds), mg_cancelled := mg_cancelled m1 \<union> runtimes_of m1 (set ds)\<rparr>"
    by simp_all
  have r: "runtimes_of m1 = runtimes_of m" by (simp add: d(3) runtimes_of_def fun_eq_iff)
  have "runtimes_ok m1" using inv d(3) by (simp add: mgr_inv_def)
  then have ok: "runtimes_ok m2" unfolding m2 by (rule runtimes_ok_cancel)
  have "dom (mg_runtimes m2) = s_digest ` set (sessions st)"
    using inv gone by (auto simp: m2 d(3) mgr_inv_def)
  with ok d show ?thesis by (simp add: m2 rs r mgr_inv_def mgr.sound_def)
qed

lemma valid_digests: "valid_state st \<Longrightarrow> distinct (map s_digest (sessions st))"
  by (simp add: valid_state_def sessions_ok_def)

lemma valid_trusts: "valid_state st \<Longrightarrow> distinct (map c_trust (credentials st))"
  by (simp add: valid_state_def credentials_ok_def)

lemma active_trust_locked_iff:
  assumes "valid_state (mg_state m)"
  shows "active_trust_locked m t = active_trust (credentials (mg_state m)) t"
proof (cases "find (\<lambda>c. c_trust c = t) (credentials (mg_state m))")
  case None
  then show ?thesis
    using find_NoneD [OF None] by (auto simp: active_trust_locked_def active_trust_def)
next
  case (Some c)
  have "c' = c" if "c' \<in> set (credentials (mg_state m))" "c_trust c' = t" for c'
    using find_cong_key [OF valid_trusts [OF assms] that] Some by simp
  then show ?thesis using find_SomeD [OF Some] Some by (auto simp: active_trust_locked_def active_trust_def)
qed

lemma session_of_SomeD:
  assumes "session_of m sid now = Some s"
  shows "s \<in> set (sessions (mg_state m)) \<and> s_digest s = sid_digest sid \<and> s_trust s = sid_trust sid
    \<and> session_live s now \<and> active_trust_locked m (s_trust s)"
  using assms by (auto simp: session_of_def active_session_locked_def split: option.splits if_splits dest!: find_SomeD)

text \<open>The digests of a state are distinct, so the first match is the only one.\<close>
lemma active_session_locked_iff:
  assumes "valid_state (mg_state m)"
  shows "active_session_locked m d now = Some s \<longleftrightarrow>
    s \<in> set (sessions (mg_state m)) \<and> s_digest s = d \<and> session_live s now"
proof -
  have a: "active_trust_locked m (s_trust x)" if "x \<in> set (sessions (mg_state m))" for x
    using assms that by (simp add: active_trust_locked_iff valid_state_def sessions_ok_def session_ok_def)
  let ?p = "\<lambda>x. s_digest x = d \<and> session_live x now \<and> active_trust_locked m (s_trust x)"
  have "find ?p (sessions (mg_state m)) = Some s" if s: "s \<in> set (sessions (mg_state m))" "s_digest s = d" "session_live s now"
  proof (cases "find ?p (sessions (mg_state m))")
    case None
    then show ?thesis using find_NoneD [OF None s(1)] s a by simp
  next
    case (Some x)
    then show ?thesis
      using find_SomeD [OF Some] s find_cong_key [OF valid_digests [OF assms], of x d] find_cong_key [OF valid_digests [OF assms], of s d]
      by simp
  qed
  then show ?thesis by (auto simp: active_session_locked_def dest!: find_SomeD)
qed

lemma session_of_iff:
  "valid_state (mg_state m) \<Longrightarrow> session_of m sid now = Some s \<longleftrightarrow>
    s \<in> set (sessions (mg_state m)) \<and> s_digest s = sid_digest sid \<and> s_trust s = sid_trust sid \<and> session_live s now"
  by (auto simp: session_of_def active_session_locked_iff split: option.splits)
     (metis active_session_locked_iff option.distinct(1) option.inject)+

section \<open>Every operation keeps the invariant\<close>

lemma prune_invitations_simps [simp]:
  "sessions (prune_invitations st now) = sessions st" "credentials (prune_invitations st now) = credentials st"
  "st_handle (prune_invitations st now) = st_handle st" "st_lifetime (prune_invitations st now) = st_lifetime st"
  "st_origin (prune_invitations st now) = st_origin st"
  by (simp_all add: prune_invitations_def)

text \<open>A commit that leaves the sessions as they are.\<close>
lemma commit_same_sessions_inv:
  assumes "commit_locked env st m = (Inr u, m')" "mgr_inv m"
    and "s_digest ` set (sessions st) = s_digest ` set (sessions (mg_state m))"
  shows "mgr_inv m' \<and> mg_state m' = st \<and> valid_state st \<and> mg_runtimes m' = mg_runtimes m
    \<and> mg_cancelled m' = mg_cancelled m \<and> mg_events m' = mg_events m \<and> content (sto_disk (mg_store m')) = Some st"
  using commit_cancel_inv [of env st m u m' "[]" "[]" m'] assms by (simp add: runtimes_of_def restrict_map_def)

lemma create_browser_invitation_inv [step_invs]:
  "create_browser_invitation env sid m = (r, m') \<Longrightarrow> mgr_inv m \<Longrightarrow> mgr_inv m'"
  by (auto simp: create_browser_invitation_def Let_def split: option.splits if_splits sum.splits prod.splits
      dest!: commit_error_inv commit_same_sessions_inv)

lemma create_local_invitation_inv [step_invs]:
  "create_local_invitation env m = (r, m') \<Longrightarrow> mgr_inv m \<Longrightarrow> mgr_inv m'"
  by (auto simp: create_local_invitation_def Let_def split: option.splits if_splits sum.splits prod.splits
      dest!: commit_error_inv commit_same_sessions_inv)

text \<open>An operation that commits a state without some of the sessions and then cancels their runtimes.\<close>
lemma end_sessions:
  assumes c: "commit_locked env st m = (Inr u, m1)" and k: "cancel_runtimes ds m1 = (rs, m2)" and inv: "mgr_inv m"
    and s: "sessions st = delete_func p (sessions (mg_state m))"
    and ds: "set ds = set (map s_digest (filter p (sessions (mg_state m))))"
  shows "mgr_inv m2 \<and> mg_state m2 = st \<and> valid_state st \<and> content (sto_disk (mg_store m2)) = Some st
    \<and> set rs = runtimes_of m (set ds) \<and> mg_runtimes m2 = mg_runtimes m |` (- set ds)
    \<and> mg_cancelled m2 = mg_cancelled m \<union> set rs \<and> mg_events m2 = mg_events m \<and> mg_authority m2 = mg_authority m
    \<and> mg_next m2 = mg_next m"
  using image_delete_func [OF valid_digests [OF mgr_inv_valid [OF inv]], of p]
  by (intro commit_cancel_inv [OF c k inv]) (simp add: s ds)

lemma revoke_locked_error:
  "revoke_locked env t m = (Inl e, m') \<Longrightarrow> mgr_inv m \<Longrightarrow>
   mgr_inv m' \<and> mg_state m' = mg_state m \<and> mg_runtimes m' = mg_runtimes m \<and> mg_cancelled m' = mg_cancelled m
   \<and> mg_events m' = mg_events m"
  by (auto simp: revoke_locked_def Let_def split: option.splits if_splits sum.splits prod.splits
      dest!: commit_error_inv)

lemma revoke_locked_ok:
  assumes "revoke_locked env t m = (Inr rv, m')" "mgr_inv m"
  obtains c where "find (\<lambda>c. c_trust c = t \<and> c_revoked c = None) (credentials (mg_state m)) = Some c"
    "mg_state m' = (mg_state m)\<lparr>
       credentials := update_first (\<lambda>c. c_trust c = t \<and> c_revoked c = None)
         (\<lambda>c. c\<lparr>c_revoked := Some (me_now env)\<rparr>) (credentials (mg_state m)),
       sessions := delete_func (\<lambda>s. s_trust s = t) (sessions (mg_state m)),
       invitations := delete_func (\<lambda>i. i_issuer i = t) (invitations (mg_state m))\<rparr>"
    "active_credential_count (mg_state m) > 1" "rv_label rv = c_label c" "mgr_inv m'"
    "content (sto_disk (mg_store m')) = Some (mg_state m')"
    "set (rv_runtimes rv) = runtimes_of m (s_digest ` set (trust_sessions (sessions (mg_state m)) t))"
    "mg_cancelled m' = mg_cancelled m \<union> set (rv_runtimes rv)"
    "mg_runtimes m' = mg_runtimes m |` (- s_digest ` set (trust_sessions (sessions (mg_state m)) t))"
    "mg_events m' = mg_events m @ (if mg_authority m then [RemoveTrustSubscriptions t (c_label c)] else [])"
proof -
  let ?p = "\<lambda>c. c_trust c = t \<and> c_revoked c = None"
  let ?ds = "map s_digest (filter (\<lambda>s. s_trust s = t) (sessions (mg_state m)))"
  let ?st = "(mg_state m)\<lparr>credentials := update_first ?p (\<lambda>c. c\<lparr>c_revoked := Some (me_now env)\<rparr>) (credentials (mg_state m)),
       sessions := delete_func (\<lambda>s. s_trust s = t) (sessions (mg_state m)),
       invitations := delete_func (\<lambda>i. i_issuer i = t) (invitations (mg_state m))\<rparr>"
  from assms(1) obtain c m1 rs m2 where a: "active_credential_count (mg_state m) > 1"
      "find ?p (credentials (mg_state m)) = Some c"
    and s: "commit_locked env ?st m = (Inr (), m1)" and k: "cancel_runtimes ?ds m1 = (rs, m2)"
    and r: "rv = \<lparr>rv_runtimes = rs, rv_label = c_label c, rv_cleanup_error = (mg_authority m2 \<and> me_cleanup_fails env)\<rparr>"
      "m' = notify_authority (RemoveTrustSubscriptions t (c_label c)) m2"
    by (auto simp: revoke_locked_def Let_def split: option.splits if_splits sum.splits prod.splits)
  note e = end_sessions [OF s k assms(2) _ refl, simplified]
  show thesis
    by (rule that [of c]) (use a e r in \<open>simp_all add: trust_sessions_def\<close>)
qed

lemma revoke_locked_inv: "revoke_locked env t m = (r, m') \<Longrightarrow> mgr_inv m \<Longrightarrow> mgr_inv m'"
  by (cases r) (use revoke_locked_error revoke_locked_ok in blast)+

lemma revoke_local_inv [step_invs]: "revoke_local env t m = (r, m') \<Longrightarrow> mgr_inv m \<Longrightarrow> mgr_inv m'"
  unfolding revoke_local_def by (rule revoke_locked_inv)

lemma revoke_browser_inv [step_invs]: "revoke_browser env sid t m = (r, m') \<Longrightarrow> mgr_inv m \<Longrightarrow> mgr_inv m'"
  by (auto simp: revoke_browser_def split: option.splits if_splits dest: revoke_locked_inv)

lemma sign_out_ok:
  assumes "sign_out env sid m = (Inr rs, m')" "mgr_inv m"
  defines "mine \<equiv> \<lambda>s. s_digest s = sid_digest sid \<and> s_trust s = sid_trust sid"
  shows "list_ex mine (sessions (mg_state m)) \<and> mgr_inv m'
    \<and> mg_state m' = (mg_state m)\<lparr>sessions := delete_func mine (sessions (mg_state m))\<rparr>
    \<and> set rs = runtimes_of m {sid_digest sid} \<and> mg_cancelled m' = mg_cancelled m \<union> set rs
    \<and> mg_runtimes m' = (mg_runtimes m)(sid_digest sid := None) \<and> mg_events m' = mg_events m
    \<and> content (sto_disk (mg_store m')) = Some (mg_state m')"
proof -
  from assms(1) obtain m1 where l: "list_ex mine (sessions (mg_state m))"
    and s: "commit_locked env ((mg_state m)\<lparr>sessions := delete_func mine (sessions (mg_state m))\<rparr>) m = (Inr (), m1)"
    and k: "cancel_runtimes [sid_digest sid] m1 = (rs, m')"
    by (auto simp: sign_out_def Let_def mine_def simp del: cancel_runtimes.simps split: if_splits sum.splits prod.splits)
  have "set [sid_digest sid] = set (map s_digest (filter mine (sessions (mg_state m))))"
    using l by (auto simp: mine_def list_ex_iff)
  from end_sessions [OF s k assms(2) _ this] l show ?thesis by (simp add: restrict_complement_singleton_eq)
qed

lemma sign_out_inv [step_invs]: "sign_out env sid m = (r, m') \<Longrightarrow> mgr_inv m \<Longrightarrow> mgr_inv m'"
proof (cases r)
  case (Inl e)
  then show "sign_out env sid m = (r, m') \<Longrightarrow> mgr_inv m \<Longrightarrow> mgr_inv m'"
    by (auto simp: sign_out_def Let_def split: if_splits sum.splits prod.splits dest!: commit_error_inv)
qed (auto dest: sign_out_ok)

lemma reset_ok:
  assumes "reset env m = (Inr rs, m')" "mgr_inv m"
  shows "\<exists>h. length h = 64 \<and> mgr_inv m'
    \<and> mg_state m' = (mg_state m)\<lparr>st_handle := b64_encode h, credentials := [], sessions := [], invitations := []\<rparr>
    \<and> mg_cancelled m' = mg_cancelled m \<union> ran (mg_runtimes m) \<and> set rs = ran (mg_runtimes m)
    \<and> mg_runtimes m' = Map.empty
    \<and> mg_events m' = mg_events m @ (if mg_authority m then [ResetProtectedSubscriptions] else [])
    \<and> content (sto_disk (mg_store m')) = Some (mg_state m')"
proof -
  from assms(1) obtain h m1 m2 where h: "length h = 64"
    and s: "commit_locked env ((mg_state m)\<lparr>st_handle := b64_encode h, credentials := [], sessions := [],
             invitations := []\<rparr>) m = (Inr (), m1)"
    and k: "cancel_runtimes (map s_digest (sessions (mg_state m))) m1 = (rs, m2)"
    and r: "m' = notify_authority ResetProtectedSubscriptions m2"
    by (auto simp: reset_def Let_def dest!: random_bytes_length split: sum.splits prod.splits)
  have d: "dom (mg_runtimes m) = s_digest ` set (sessions (mg_state m))" using assms(2) by (simp add: mgr_inv_def)
  then have e: "runtimes_of m (s_digest ` set (sessions (mg_state m))) = ran (mg_runtimes m)"
    "mg_runtimes m |` (- s_digest ` set (sessions (mg_state m))) = Map.empty"
    by (auto simp: runtimes_of_def ran_def restrict_map_def fun_eq_iff simp flip: d)
  from end_sessions [OF s k assms(2), of "\<lambda>_. True"] e h show ?thesis
    by (intro exI [of _ h]) (simp add: r delete_func_def)
qed

lemma reset_inv [step_invs]: "reset env m = (r, m') \<Longrightarrow> mgr_inv m \<Longrightarrow> mgr_inv m'"
proof (cases r)
  case (Inl e)
  then show "reset env m = (r, m') \<Longrightarrow> mgr_inv m \<Longrightarrow> mgr_inv m'"
    by (auto simp: reset_def Let_def split: if_splits sum.splits prod.splits dest!: commit_error_inv)
qed (auto dest: reset_ok)

lemma expire_now_ok:
  assumes "expire_now env m = (Inr rs, m')" "mgr_inv m"
  shows "mgr_inv m'
    \<and> mg_state m' = (mg_state m)\<lparr>sessions := filter (\<lambda>s. session_live s (me_now env)) (sessions (mg_state m))\<rparr>
    \<and> set rs = runtimes_of m (s_digest ` {s \<in> set (sessions (mg_state m)). \<not> session_live s (me_now env)})
    \<and> mg_cancelled m' = mg_cancelled m \<union> set rs \<and> mg_events m' = mg_events m"
proof (cases "filter (\<lambda>s. \<not> session_live s (me_now env)) (sessions (mg_state m)) = []")
  case True
  then have live: "\<forall>s \<in> set (sessions (mg_state m)). session_live s (me_now env)" by (simp add: filter_empty_conv)
  then have "filter (\<lambda>s. session_live s (me_now env)) (sessions (mg_state m)) = sessions (mg_state m)"
    by (simp add: filter_id_conv)
  moreover have "rs = []" "m' = m" using assms(1) True by (simp_all add: expire_now_def Let_def)
  ultimately show ?thesis using assms(2) live by (auto simp: runtimes_of_def)
next
  case False
  with assms(1) obtain m1 where
    s: "commit_locked env ((mg_state m)\<lparr>sessions := delete_func (\<lambda>s. \<not> session_live s (me_now env)) (sessions (mg_state m))\<rparr>) m = (Inr (), m1)"
    and k: "cancel_runtimes (map s_digest (filter (\<lambda>s. \<not> session_live s (me_now env)) (sessions (mg_state m)))) m1 = (rs, m')"
    by (auto simp: expire_now_def Let_def split: if_splits sum.splits prod.splits)
  from end_sessions [OF s k assms(2) _ refl] show ?thesis by (simp add: delete_func_def)
qed

lemma expire_now_inv [step_invs]: "expire_now env m = (r, m') \<Longrightarrow> mgr_inv m \<Longrightarrow> mgr_inv m'"
proof (cases r)
  case (Inl e)
  then show "expire_now env m = (r, m') \<Longrightarrow> mgr_inv m \<Longrightarrow> mgr_inv m'"
    by (auto simp: expire_now_def Let_def split: if_splits sum.splits prod.splits dest!: commit_error_inv)
qed (auto dest: expire_now_ok)

end
