(* ===== verification/AccessManagerFacts.thy ===== *)
theory AccessManagerFacts
  imports AccessManager
begin

text \<open>
  What the operations of the access manager achieve: the states they leave, when they must succeed, and a
  concrete manager to run them on.  The operations are in \<open>AccessManager\<close>.
\<close>

section \<open>Parts of a well formed state\<close>

lemma session_ok_mono:
  "session_ok active s \<Longrightarrow> active' (s_trust s) \<Longrightarrow> active' (s_fresh_trust s) \<Longrightarrow> session_ok active' s"
  by (simp add: session_ok_def)

lemma invitation_ok_mono:
  "invitation_ok active i \<Longrightarrow> (i_issuer i \<noteq> [] \<Longrightarrow> active' (i_issuer i)) \<Longrightarrow> invitation_ok active' i"
  by (auto simp: invitation_ok_def)

lemma sessions_ok_delete:
  assumes "sessions_ok active ss"
    and "\<And>s. s \<in> set ss \<Longrightarrow> \<not> p s \<Longrightarrow> active' (s_trust s) \<and> active' (s_fresh_trust s)"
  shows "sessions_ok active' (delete_func p ss)"
proof -
  have "length (trust_sessions (delete_func p ss) t) \<le> max_trust_sessions" for t
  proof -
    have "length (trust_sessions (delete_func p ss) t) \<le> length (trust_sessions ss t)"
      by (auto simp: trust_sessions_def intro: length_filter_mono)
    also have "\<dots> \<le> max_trust_sessions" using assms(1) by (simp add: sessions_ok_def)
    finally show ?thesis .
  qed
  moreover have "length (delete_func p ss) \<le> max_sessions"
    using assms(1) length_delete_func_le [of p ss] by (simp add: sessions_ok_def)
  ultimately show ?thesis
    using assms by (auto simp: sessions_ok_def distinct_map_delete_func intro: session_ok_mono)
qed

lemma invitations_ok_delete:
  assumes "invitations_ok active invs"
    and "\<And>i. i \<in> set invs \<Longrightarrow> \<not> p i \<Longrightarrow> i_issuer i \<noteq> [] \<Longrightarrow> active (i_issuer i) \<Longrightarrow> active' (i_issuer i)"
  shows "invitations_ok active' (delete_func p invs)"
proof -
  have "length (open_invites (delete_func p invs) t) \<le> max_authorizer_invites" if "t \<noteq> []" for t
  proof -
    have "length (open_invites (delete_func p invs) t) \<le> length (open_invites invs t)"
      by (auto simp: open_invites_def intro: length_filter_mono)
    also have "\<dots> \<le> max_authorizer_invites" using assms(1) that by (simp add: invitations_ok_def)
    finally show ?thesis .
  qed
  moreover have "length (delete_func p invs) \<le> max_invitations"
    using assms(1) length_delete_func_le [of p invs] by (simp add: invitations_ok_def)
  moreover have "invitation_ok active' i" if "i \<in> set invs" "\<not> p i" for i
  proof -
    from assms(1) that(1) have ok: "invitation_ok active i" by (simp add: invitations_ok_def)
    then have "i_issuer i \<noteq> [] \<Longrightarrow> active (i_issuer i)" by (simp add: invitation_ok_def)
    then show ?thesis using assms(2) [OF that] by (intro invitation_ok_mono [OF ok]) blast
  qed
  moreover have "distinct (map i_digest (delete_func p invs))"
    using assms(1) by (simp add: invitations_ok_def distinct_map_delete_func)
  ultimately show ?thesis by (simp add: invitations_ok_def)
qed

text \<open>Adding one fresh invitation.\<close>
lemma invitations_ok_append:
  assumes "invitations_ok active invs" "invitation_ok active i" "i_digest i \<notin> i_digest ` set invs"
    and "length invs < max_invitations"
    and "i_issuer i \<noteq> [] \<Longrightarrow> length (open_invites invs (i_issuer i)) < max_authorizer_invites"
  shows "invitations_ok active (invs @ [i])"
  using assms by (auto simp: invitations_ok_def open_invites_def)

lemma active_trust_revoke:
  assumes "distinct (map c_trust cs)"
  shows "active_trust (update_first (\<lambda>c. c_trust c = t \<and> c_revoked c = None) (\<lambda>c. c\<lparr>c_revoked := Some now\<rparr>) cs) t'
    \<longleftrightarrow> active_trust cs t' \<and> t' \<noteq> t"
  using assms
proof (induction cs)
  case (Cons c cs)
  then show ?case by (auto simp: active_trust_def image_iff)
qed (simp add: active_trust_def)

lemma active_count_revoke:
  assumes "find p cs = Some c" "\<And>c. p c \<Longrightarrow> c_revoked c = None"
  shows "length (filter (\<lambda>c. c_revoked c = None) cs) =
    Suc (length (filter (\<lambda>c. c_revoked c = None) (update_first p (\<lambda>c. c\<lparr>c_revoked := Some now\<rparr>) cs)))"
  using assms by (induction cs) (auto split: if_splits)

lemma credentials_ok_revoke:
  assumes "credentials_ok cs" and "\<And>c. c \<in> set cs \<Longrightarrow> p c \<Longrightarrow> c_created c \<le> now"
  shows "credentials_ok (update_first p (\<lambda>c. c\<lparr>c_revoked := Some now\<rparr>) cs)"
proof -
  let ?cs = "update_first p (\<lambda>c. c\<lparr>c_revoked := Some now\<rparr>) cs"
  have "map c_trust ?cs = map c_trust cs" "map (\<lambda>c. wa_id (c_cred c)) ?cs = map (\<lambda>c. wa_id (c_cred c)) cs"
    by (rule map_update_first; simp)+
  moreover have "\<not> bad_credential c" if "c \<in> set ?cs" for c
    using update_first_in_set [OF that] assms by (fastforce simp: credentials_ok_def bad_credential_def)
  ultimately show ?thesis using assms(1) by (simp add: credentials_ok_def)
qed

section \<open>Commits that must succeed\<close>

text \<open>A disk whose folder and file, where they exist, are private, and no call fails.\<close>
definition disk_ready :: "faults \<Rightarrow> 'a disk \<Rightarrow> bool" where
  "disk_ready io d \<longleftrightarrow> (\<forall>c. \<not> io c) \<and> pred_option private_dir_info (dk_dir d)
     \<and> pred_option (\<lambda>f. private_file_info (fst f) \<and> \<not> f_symlink (fst f)) (dk_file d)"

lemma access_write_works:
  assumes "disk_ready io d"
  shows "\<exists>d'. access_write_state io s d = (Inr (), d')"
  using assms
  by (cases "dk_dir d"; cases "dk_file d")
     (auto simp: disk_ready_def access_write_state_def ensure_private_directory_def Let_def replace_via_temp_def
       first_fault_def open_private_regular_def)

lemma commit_works:
  assumes "valid_state st" "disk_ready (me_io env) (sto_disk (mg_store m))"
  shows "\<exists>m'. commit_locked env st m = (Inr (), m')"
proof -
  obtain d' where "access_write_state (me_io env) st (sto_disk (mg_store m)) = (Inr (), d')"
    using access_write_works [OF assms(2)] by blast
  then show ?thesis
    using validate_state_rules [THEN iffD2, OF assms(1)] by (simp add: commit_locked_def store_write_def lift_io_def)
qed

text \<open>Sessions are always issued with their own trust as the fresh one; it is this that lets a revocation
  pass the validation.\<close>
definition fresh_own :: "access_state \<Rightarrow> bool" where
  "fresh_own st \<longleftrightarrow> (\<forall>s \<in> set (sessions st). s_fresh_trust s = s_trust s)"

lemma revoke_valid:
  assumes v: "valid_state st" and f: "fresh_own st"
    and now: "\<And>c. c \<in> set (credentials st) \<Longrightarrow> c_trust c = t \<Longrightarrow> c_created c \<le> now"
  shows "valid_state (st\<lparr>
       credentials := update_first (\<lambda>c. c_trust c = t \<and> c_revoked c = None)
         (\<lambda>c. c\<lparr>c_revoked := Some now\<rparr>) (credentials st),
       sessions := delete_func (\<lambda>s. s_trust s = t) (sessions st),
       invitations := delete_func (\<lambda>i. i_issuer i = t) (invitations st)\<rparr>)"
proof -
  note d = valid_trusts [OF v]
  let ?a = "active_trust (update_first (\<lambda>c. c_trust c = t \<and> c_revoked c = None)
         (\<lambda>c. c\<lparr>c_revoked := Some now\<rparr>) (credentials st))"
  have "sessions_ok ?a (delete_func (\<lambda>s. s_trust s = t) (sessions st))"
    using v f by (intro sessions_ok_delete [of "active_trust (credentials st)"])
      (auto simp: valid_state_def active_trust_revoke [OF d] sessions_ok_def session_ok_def fresh_own_def)
  moreover have "invitations_ok ?a (delete_func (\<lambda>i. i_issuer i = t) (invitations st))"
    using v by (intro invitations_ok_delete [of "active_trust (credentials st)"])
      (auto simp: valid_state_def active_trust_revoke [OF d])
  moreover have "credentials_ok (update_first (\<lambda>c. c_trust c = t \<and> c_revoked c = None)
         (\<lambda>c. c\<lparr>c_revoked := Some now\<rparr>) (credentials st))"
    using v now by (intro credentials_ok_revoke) (auto simp: valid_state_def)
  ultimately show ?thesis using v by (simp add: valid_state_def header_ok_def)
qed

lemma delete_sessions_valid:
  "valid_state st \<Longrightarrow> valid_state (st\<lparr>sessions := delete_func p (sessions st)\<rparr>)"
  using sessions_ok_delete [of "active_trust (credentials st)" "sessions st" p "active_trust (credentials st)"]
  by (auto simp: valid_state_def header_ok_def sessions_ok_def session_ok_def)

lemma reset_valid:
  assumes "valid_state st" "length h = 64"
  shows "valid_state (st\<lparr>st_handle := b64_encode h, credentials := [], sessions := [], invitations := []\<rparr>)"
  using assms by (auto simp: valid_state_def header_ok_def sessions_ok_def credentials_ok_def invitations_ok_def
      trust_sessions_def open_invites_def access_limits)

lemma prune_valid: "valid_state st \<Longrightarrow> valid_state (prune_invitations st now)"
  using invitations_ok_delete [of "active_trust (credentials st)" "invitations st" _ "active_trust (credentials st)"]
  by (auto simp: valid_state_def header_ok_def prune_invitations_def)

section \<open>A concrete manager\<close>

text \<open>Two trusted sign-ins and one session; the input of the witnesses.\<close>
definition trust_a :: string where "trust_a = b64_encode (replicate 16 (CHR ''a''))"
definition trust_b :: string where "trust_b = b64_encode (replicate 16 (CHR ''b''))"

definition sample_credential :: "string \<Rightarrow> string \<Rightarrow> credential_record" where
  "sample_credential t rid = \<lparr>c_trust = t, c_label = ''laptop'', c_created = 1000, c_used = 1000, c_backup_seen = 1000,
     c_revoked = None, c_cred = \<lparr>wa_id = rid, wa_key = ''key'', wa_backup_eligible = False, wa_backup_state = False\<rparr>\<rparr>"

definition sample_session :: session_record where
  "sample_session = \<lparr>s_digest = digest_token sample_token, s_trust = trust_a, s_created = 1000, s_lifetime = ''none'',
     s_expires = None, s_fresh_trust = trust_a, s_fresh_at = 1000\<rparr>"

definition signed_state :: access_state where
  "signed_state = sample_state\<lparr>credentials := [sample_credential trust_a ''x'', sample_credential trust_b ''y''],
     sessions := [sample_session], invitations := []\<rparr>"

definition signed_disk :: "access_state disk" where
  "signed_disk = \<lparr>dk_dir = Some new_dir, dk_file = Some (new_file, signed_state), dk_temps = 0\<rparr>"

definition signed_manager :: manager where
  "signed_manager = (fresh_manager \<lparr>sto_state = signed_state, sto_disk = signed_disk\<rparr> sample_origin)
     \<lparr>mg_authority := True, mg_runtimes := [digest_token sample_token \<mapsto> 0], mg_next := 1\<rparr>"

definition sample_mgr_env :: mgr_env where
  "sample_mgr_env = \<lparr>me_now = 2000, me_rand1 = sample_entropy, me_rand2 = sample_entropy, me_io = no_faults,
     me_cleanup_fails = False\<rparr>"

definition sample_sid :: session_identity where
  "sample_sid = \<lparr>sid_digest = digest_token sample_token, sid_trust = trust_a\<rparr>"

lemma trusts_distinct [simp]: "trust_a \<noteq> trust_b" "trust_b \<noteq> trust_a"
  by (simp_all add: trust_a_def trust_b_def b64_encode_inject replicate_eq_replicate)

lemma trusts_valid [simp]: "valid_opaque_id trust_a" "valid_opaque_id trust_b"
  by (simp_all add: trust_a_def trust_b_def valid_opaque_id_encode)

lemma signed_fields [simp]:
  "credentials signed_state = [sample_credential trust_a ''x'', sample_credential trust_b ''y'']"
  "sessions signed_state = [sample_session]" "invitations signed_state = []"
  "mg_state signed_manager = signed_state" "me_now sample_mgr_env = 2000" "me_io sample_mgr_env = no_faults"
  "sid_digest sample_sid = digest_token sample_token" "sid_trust sample_sid = trust_a"
  "sto_disk (mg_store signed_manager) = signed_disk" "sto_state (mg_store signed_manager) = signed_state"
  "mg_origin signed_manager = sample_origin"
  by (simp_all add: signed_state_def signed_manager_def fresh_manager_def sample_mgr_env_def sample_sid_def)

lemma signed_active [simp]:
  "active_trust [sample_credential trust_a ''x'', sample_credential trust_b ''y''] = (\<lambda>t. t = trust_a \<or> t = trust_b)"
  by (rule ext) (auto simp: active_trust_def sample_credential_def)

lemma sample_session_ok: "session_ok (\<lambda>t. t = trust_a \<or> t = trust_b) sample_session"
  by (simp add: session_ok_def sample_session_def session_expiry_ok_def parse_lifetime_none)

lemma signed_state_valid: "valid_state signed_state"
proof -
  have "header_ok signed_state"
    using sample_state_valid by (simp add: valid_state_def header_ok_def signed_state_def)
  moreover have "credentials_ok [sample_credential trust_a ''x'', sample_credential trust_b ''y'']"
    by (simp add: credentials_ok_def bad_credential_def sample_credential_def access_limits)
  moreover have "sessions_ok (active_trust (credentials signed_state)) [sample_session]"
    using sample_session_ok by (simp add: sessions_ok_def access_limits trust_sessions_def)
  ultimately show ?thesis
    by (simp add: valid_state_def invitations_ok_def open_invites_def access_limits)
qed

lemma signed_inv: "mgr_inv signed_manager"
proof -
  have "mgr.sound signed_manager"
    unfolding mgr_sound_iff using signed_state_valid by (simp add: signed_disk_def content_def)
  moreover have "runtimes_ok signed_manager" "dom (mg_runtimes signed_manager) = {digest_token sample_token}"
    by (simp_all add: runtimes_ok_def signed_manager_def fresh_manager_def)
  ultimately show ?thesis by (simp add: mgr_inv_def sample_session_def)
qed

lemma signed_disk_ready: "disk_ready (me_io sample_mgr_env) (sto_disk (mg_store signed_manager))"
  by (simp add: disk_ready_def no_faults_def signed_disk_def) (simp add: new_file_def)

lemma signed_session: "session_of signed_manager sample_sid now = Some sample_session"
  using signed_state_valid by (simp add: session_of_iff) (simp add: sample_session_def session_live_def)

lemma signed_trust: "active_trust_locked signed_manager trust_a"
  using signed_state_valid by (simp add: active_trust_locked_iff)

lemma signed_count: "active_credential_count signed_state = 2"
  by (simp add: active_credential_count_def sample_credential_def)

section \<open>Revoking a trusted sign-in\<close>

lemma revoke_works_helper:
  assumes inv: "mgr_inv m" and f: "fresh_own (mg_state m)" and dr: "disk_ready (me_io env) (sto_disk (mg_store m))"
    and act: "active_trust_locked m t" and cnt: "1 < active_credential_count (mg_state m)"
    and now: "\<forall>c \<in> set (credentials (mg_state m)). c_trust c = t \<longrightarrow> c_created c \<le> me_now env"
  shows "\<exists>rv m'. revoke_locked env t m = (Inr rv, m')"
proof -
  note v = mgr_inv_valid [OF inv]
  have "find (\<lambda>c. c_trust c = t \<and> c_revoked c = None) (credentials (mg_state m)) \<noteq> None"
    using act v by (auto simp: active_trust_locked_iff active_trust_def find_None_iff)
  then obtain c where c: "find (\<lambda>c. c_trust c = t \<and> c_revoked c = None) (credentials (mg_state m)) = Some c"
    by blast
  from now have "valid_state ((mg_state m)\<lparr>
       credentials := update_first (\<lambda>c. c_trust c = t \<and> c_revoked c = None)
         (\<lambda>c. c\<lparr>c_revoked := Some (me_now env)\<rparr>) (credentials (mg_state m)),
       sessions := delete_func (\<lambda>s. s_trust s = t) (sessions (mg_state m)),
       invitations := delete_func (\<lambda>i. i_issuer i = t) (invitations (mg_state m))\<rparr>)"
    by (intro revoke_valid [OF v f]) blast
  from commit_works [OF this dr] cnt c show ?thesis
    by (auto simp: revoke_locked_def Let_def split: prod.splits)
qed

lemma signed_fresh: "fresh_own signed_state"
  by (simp add: fresh_own_def sample_session_def)

lemma signed_revoke: "\<exists>rv m'. revoke_local sample_mgr_env trust_a signed_manager = (Inr rv, m')"
  unfolding revoke_local_def
  by (rule revoke_works_helper [OF signed_inv _ signed_disk_ready signed_trust])
     (simp_all add: signed_fresh signed_count sample_credential_def)



section \<open>Signing in, signing out, resetting\<close>

text \<open>A token signs in exactly when its length is plausible and the state has a session with its digest
  whose expiry has not come; the answer names that session's trust.\<close>
theorem authenticate_token_iff:
  assumes "mgr_inv m"
  shows "authenticate_token m now token = Some sid \<longleftrightarrow>
    40 \<le> length token \<and> length token \<le> 128
    \<and> (\<exists>s \<in> set (sessions (mg_state m)). s_digest s = digest_token token \<and> session_live s now
        \<and> sid = \<lparr>sid_digest = digest_token token, sid_trust = s_trust s\<rparr>)"
proof -
  have "authenticate_token m now token = Some sid \<longleftrightarrow> 40 \<le> length token \<and> length token \<le> 128
    \<and> (\<exists>s. active_session_locked m (digest_token token) now = Some s
        \<and> sid = \<lparr>sid_digest = digest_token token, sid_trust = s_trust s\<rparr>)"
    by (auto simp: authenticate_token_def split: option.splits)
  then show ?thesis
    unfolding active_session_locked_iff [OF mgr_inv_valid [OF assms]] by blast
qed

lemma sample_token_length: "length sample_token = 43"
  by (simp add: sample_token_def length_b64_encode)

theorem authenticate_token_iff_witness: "authenticate_token signed_manager 5000 sample_token = Some sample_sid"
  by (rule authenticate_token_iff [OF signed_inv, THEN iffD2])
     (simp add: sample_token_length sample_session_def session_live_def sample_sid_def)

text \<open>Signing out removes that one session and cancels its runtime; every other session is accepted as
  before.  It fails without a change when the session is not there.\<close>
theorem sign_out_effect:
  assumes "sign_out env sid m = (r, m')" "mgr_inv m"
  shows "case r of
      Inl e \<Rightarrow> mg_state m' = mg_state m \<and> mg_cancelled m' = mg_cancelled m
    | Inr rs \<Rightarrow> (\<forall>sid' now. session_of m' sid' now = (if sid_digest sid' = sid_digest sid then None else session_of m sid' now))
        \<and> (\<forall>rt. mg_runtimes m (sid_digest sid) = Some rt \<longrightarrow> rt \<in> mg_cancelled m')
        \<and> credentials (mg_state m') = credentials (mg_state m) \<and> invitations (mg_state m') = invitations (mg_state m)
        \<and> content (sto_disk (mg_store m')) = Some (mg_state m')"
proof (cases r)
  case (Inl e)
  then show ?thesis using assms
    by (auto simp: sign_out_def Let_def split: if_splits sum.splits prod.splits dest!: commit_error_inv)
next
  case (Inr rs)
  note o = sign_out_ok [OF assms(1) [unfolded Inr] assms(2)]
  note v = mgr_inv_valid [OF assms(2)]
  have v': "valid_state (mg_state m')" using o mgr_inv_valid by blast
  have only: "s_trust s = sid_trust sid" if "s \<in> set (sessions (mg_state m))" "s_digest s = sid_digest sid" for s
    using o find_cong_key [OF valid_digests [OF v] that] find_cong_key [OF valid_digests [OF v], of _ "sid_digest sid"]
    by (auto simp: list_ex_iff)
  have "session_of m' sid' now = (if sid_digest sid' = sid_digest sid then None else session_of m sid' now)" for sid' now
  proof (rule option_eqI)
    fix s
    show "session_of m' sid' now = Some s \<longleftrightarrow>
        (if sid_digest sid' = sid_digest sid then None else session_of m sid' now) = Some s"
      unfolding session_of_iff [OF v'] using o only by (auto simp: session_of_iff [OF v])
  qed
  then show ?thesis using o by (auto simp: Inr runtimes_of_def)
qed

lemma signed_sign_out: "\<exists>rs m'. sign_out sample_mgr_env sample_sid signed_manager = (Inr rs, m')"
proof -
  let ?mine = "\<lambda>s. s_digest s = sid_digest sample_sid \<and> s_trust s = sid_trust sample_sid"
  obtain m1 where "commit_locked sample_mgr_env (signed_state\<lparr>sessions := delete_func ?mine (sessions signed_state)\<rparr>) signed_manager = (Inr (), m1)"
    using commit_works [OF delete_sessions_valid [OF signed_state_valid] signed_disk_ready] by blast
  then show ?thesis
    by (simp add: sign_out_def Let_def del: cancel_runtimes.simps split: prod.splits)
       (simp add: sample_session_def)
qed

theorem sign_out_effect_witness: "\<exists>m'. session_of (m' :: manager) sample_sid 5000 = None"
proof -
  obtain rs m' where r: "sign_out sample_mgr_env sample_sid signed_manager = (Inr rs, m')"
    using signed_sign_out by blast
  from sign_out_effect [OF r signed_inv] show ?thesis by (intro exI [of _ m']) simp
qed

text \<open>\<open>access reset\<close> on a well formed state with a working disk and random source always succeeds, and
  afterwards no token signs in, no sign-in is active, no invitation is left, every lease is cancelled and the
  notification authority has been told.\<close>
theorem reset_effect:
  assumes "mgr_inv m" "disk_ready (me_io env) (sto_disk (mg_store m))" "me_rand1 env = Some f"
  shows "\<exists>rs m'. reset env m = (Inr rs, m') \<and> (\<forall>now token. authenticate_token m' now token = None)
    \<and> (\<forall>t. \<not> active_trust_locked m' t) \<and> invitations (mg_state m') = []
    \<and> (\<forall>now sid l m1. bind m now sid = (Some l, m1) \<longrightarrow> le_runtime l \<in> mg_cancelled m')
    \<and> (mg_authority m \<longrightarrow> last (mg_events m') = ResetProtectedSubscriptions)
    \<and> content (sto_disk (mg_store m')) = Some (mg_state m')"
proof -
  let ?h = "map f [0..<64]"
  let ?st = "(mg_state m)\<lparr>st_handle := b64_encode ?h, credentials := [], sessions := [], invitations := []\<rparr>"
  have "length ?h = 64" by simp
  from commit_works [OF reset_valid [OF mgr_inv_valid [OF assms(1)] this] assms(2)] obtain m1 where
    "commit_locked env ?st m = (Inr (), m1)" by blast
  moreover obtain rs m2 where "cancel_runtimes (map s_digest (sessions (mg_state m))) m1 = (rs, m2)" by (meson surj_pair)
  ultimately obtain m' where r: "reset env m = (Inr rs, m')"
    by (simp add: reset_def Let_def random_bytes_def assms(3))
  from reset_ok [OF r assms(1)] show ?thesis
    by (intro exI [of _ rs] exI [of _ m'])
       (auto simp: r authenticate_token_def active_session_locked_def active_trust_locked_def bind_def ran_def
         split: option.splits)
qed

theorem reset_effect_witness: "\<exists>rs m'. reset sample_mgr_env signed_manager = (Inr rs, m') \<and> invitations (mg_state m') = []"
  using reset_effect [OF signed_inv signed_disk_ready, of "\<lambda>_. CHR ''x''"]
  by (auto simp: sample_mgr_env_def sample_entropy_def)

section \<open>Invitations\<close>

lemma new_invitation_fields:
  assumes "new_invitation now issuer r = Inr (token, i)"
  shows "(\<exists>b. b64_decode token = Some b \<and> length b = 32) \<and> i = \<lparr>i_digest = digest_token token, i_issuer = issuer,
    i_issued = now, i_expires = now + invitation_lifetime, i_rclient = [], i_runtil = None, i_consumed = None\<rparr>"
  using assms by (auto simp: new_invitation_def dest: random_token_decodes split: sum.splits)

lemma browser_invitation_inv:
  assumes "create_browser_invitation env sid m = (Inr (url, ex), m')"
  obtains s token i where "session_of m sid (me_now env) = Some s" "fresh_session m (me_now env) s"
    "new_invitation (me_now env) (s_fresh_trust s) (me_rand1 env) = Inr (token, i)"
    "url = invitation_url (mg_origin m) token" "ex = i_expires i"
    "commit_locked env ((prune_invitations (mg_state m) (me_now env))
       \<lparr>invitations := invitations (prune_invitations (mg_state m) (me_now env)) @ [i]\<rparr>) m = (Inr (), m')"
  using assms by (auto simp: create_browser_invitation_def Let_def split: option.splits if_splits sum.splits prod.splits)

text \<open>An invitation made in the browser: the session signed in with its passkey within the last five
  minutes, the address carries a token of 32 random bytes that is not stored, the invitation is issued by the
  session's trust and expires ten minutes from now, spent and expired invitations are dropped, an authorizer
  never has more than eight open ones, and nothing else changes.\<close>
theorem browser_invitation_effect:
  assumes "create_browser_invitation env sid m = (Inr (url, ex), m')" "mgr_inv m"
  shows "\<exists>s token i. session_of m sid (me_now env) = Some s \<and> me_now env - s_fresh_at s \<le> 5 * minute
    \<and> url = invitation_url (mg_origin m) token \<and> (\<exists>b. b64_decode token = Some b \<and> length b = 32)
    \<and> i_digest i = digest_token token \<and> i_issuer i = s_fresh_trust s \<and> i_consumed i = None
    \<and> i_expires i = me_now env + 10 * minute \<and> ex = i_expires i
    \<and> mg_state m' = (mg_state m)\<lparr>invitations :=
         filter (\<lambda>i. i_consumed i = None \<and> me_now env < i_expires i) (invitations (mg_state m)) @ [i]\<rparr>
    \<and> length (open_invites (invitations (mg_state m')) (s_fresh_trust s)) \<le> 8 \<and> mgr_inv m'"
proof -
  from assms(1) obtain s token i where
    s: "session_of m sid (me_now env) = Some s" and f: "fresh_session m (me_now env) s"
    and n: "new_invitation (me_now env) (s_fresh_trust s) (me_rand1 env) = Inr (token, i)"
    and u: "url = invitation_url (mg_origin m) token" "ex = i_expires i"
    and c: "commit_locked env ((prune_invitations (mg_state m) (me_now env))
       \<lparr>invitations := invitations (prune_invitations (mg_state m) (me_now env)) @ [i]\<rparr>) m = (Inr (), m')"
    by (rule browser_invitation_inv)
  note i = new_invitation_fields [OF n]
  from commit_same_sessions_inv [OF c assms(2)]
  have m': "mgr_inv m'" "mg_state m' = (prune_invitations (mg_state m) (me_now env))
       \<lparr>invitations := invitations (prune_invitations (mg_state m) (me_now env)) @ [i]\<rparr>" by simp_all
  have t: "s_fresh_trust s \<noteq> []"
    using f mgr_inv_valid [OF assms(2)] valid_opaque_id_nonempty
    by (auto simp: fresh_session_def active_trust_locked_iff active_trust_def valid_state_def credentials_ok_def bad_credential_def)
  have "length (open_invites (invitations (mg_state m')) (s_fresh_trust s)) \<le> 8"
    using mgr_inv_valid [OF m'(1)] t by (simp add: valid_state_def invitations_ok_def access_limits)
  moreover have "me_now env - s_fresh_at s \<le> 5 * minute"
    using f time_sub_gt_iff [of fresh_lifetime "me_now env" "s_fresh_at s"]
    by (simp add: fresh_session_def access_durations)
  moreover have "mg_state m' = (mg_state m)\<lparr>invitations :=
         filter (\<lambda>i. i_consumed i = None \<and> me_now env < i_expires i) (invitations (mg_state m)) @ [i]\<rparr>"
    by (simp add: m'(2) prune_invitations_def delete_func_def)
  ultimately show ?thesis using s u i m'(1)
    by (intro exI [of _ s] exI [of _ token] exI [of _ i]) (simp add: invitation_lifetime_def)
qed

lemma signed_invite: "\<exists>url ex m'. create_browser_invitation sample_mgr_env sample_sid signed_manager = (Inr (url, ex), m')"
proof -
  let ?i = "\<lparr>i_digest = digest_token sample_token, i_issuer = trust_a, i_issued = 2000,
     i_expires = 2000 + invitation_lifetime, i_rclient = [], i_runtil = None, i_consumed = None\<rparr>"
  have n: "new_invitation 2000 trust_a (me_rand1 sample_mgr_env) = Inr (sample_token, ?i)"
    by (simp add: new_invitation_def random_token_def sample_entropy_bytes sample_token_def sample_mgr_env_def)
  have p: "prune_invitations signed_state 2000 = signed_state"
    by (simp add: prune_invitations_def signed_state_def)
  have "invitations_ok (active_trust (credentials signed_state)) [?i]"
    by (simp add: invitations_ok_def access_limits open_invites_def invitation_ok_def bad_reservation_def bad_consumption_def)
  then have "valid_state (signed_state\<lparr>invitations := [?i]\<rparr>)"
    using signed_state_valid by (simp add: valid_state_def header_ok_def)
  from commit_works [OF this signed_disk_ready] obtain m' where
    "commit_locked sample_mgr_env (signed_state\<lparr>invitations := [?i]\<rparr>) signed_manager = (Inr (), m')" by blast
  moreover have "fresh_session signed_manager 2000 sample_session"
    using signed_trust by (simp add: fresh_session_def sample_session_def time_sub_def access_durations)
  moreover have "s_fresh_trust sample_session = trust_a" by (simp add: sample_session_def)
  ultimately show ?thesis
    using signed_session [of 2000] n p
    by (simp add: create_browser_invitation_def Let_def access_limits open_invites_def)
qed

theorem browser_invitation_effect_witness:
  "\<exists>m' token. mgr_inv (m' :: manager) \<and> (\<exists>i \<in> set (invitations (mg_state m')). i_digest i = digest_token token)"
proof -
  obtain url ex m' where r: "create_browser_invitation sample_mgr_env sample_sid signed_manager = (Inr (url, ex), m')"
    using signed_invite by blast
  from browser_invitation_effect [OF r signed_inv] show ?thesis by fastforce
qed

section \<open>Starting\<close>

text \<open>A manager made from the store that \<open>OpenProtected\<close> gives starts in the invariant, with the state of
  the store less the sessions that have expired.\<close>
theorem new_manager_ok:
  assumes "new_manager env webauthn_ok s = Inr m"
    and "valid_state (sto_state s)" "content (sto_disk s) = Some (sto_state s)"
  shows "mgr_inv m \<and> mg_state m =
    (sto_state s)\<lparr>sessions := filter (\<lambda>x. session_live x (me_now env)) (sessions (sto_state s))\<rparr>"
proof -
  from assms(1) obtain og rs where
    e: "expire_now env (install_runtimes (map s_digest (sessions (sto_state s))) (fresh_manager s og)) = (Inr rs, m)"
    by (auto simp: new_manager_def split: sum.splits if_splits prod.splits)
  let ?m = "install_runtimes (map s_digest (sessions (sto_state s))) (fresh_manager s og)"
  from install_runtimes_frame [of "map s_digest (sessions (sto_state s))" "fresh_manager s og"] obtain f n where
    f: "?m = (fresh_manager s og)\<lparr>mg_runtimes := f, mg_next := n\<rparr>"
      "dom f = dom (mg_runtimes (fresh_manager s og)) \<union> set (map s_digest (sessions (sto_state s)))" by blast
  have "runtimes_ok (fresh_manager s og)" by (simp add: runtimes_ok_def fresh_manager_def)
  then have "runtimes_ok ?m" by (rule runtimes_ok_installs)
  moreover have "mgr.sound ?m" unfolding mgr_sound_iff f using assms(2,3) by (simp add: fresh_manager_def)
  ultimately have "mgr_inv ?m" using f by (simp add: mgr_inv_def) (simp add: fresh_manager_def)
  from expire_now_ok [OF e this] show ?thesis by (simp add: f(1)) (simp add: fresh_manager_def)
qed

lemma signed_new_manager:
  "\<exists>m. new_manager sample_mgr_env True \<lparr>sto_state = signed_state, sto_disk = signed_disk\<rparr> = Inr m"
proof -
  have "parse_canonical_origin (st_origin signed_state) = Inr sample_origin"
    using sample_origin_parses by (simp add: signed_state_def sample_fields)
  moreover have "mg_state (install_runtimes ds (fresh_manager s og)) = sto_state s" for ds s og
    using install_runtimes_frame [of ds "fresh_manager s og"] by (auto simp: fresh_manager_def)
  moreover have "session_live sample_session 2000" by (simp add: sample_session_def session_live_def)
  ultimately show ?thesis
    by (simp add: new_manager_def expire_now_def Let_def del: install_runtimes.simps list.map)
qed

theorem new_manager_ok_witness: "\<exists>m. mgr_inv (m :: manager)"
proof -
  obtain m where m: "new_manager sample_mgr_env True \<lparr>sto_state = signed_state, sto_disk = signed_disk\<rparr> = Inr m"
    using signed_new_manager by blast
  from new_manager_ok [OF m] show ?thesis
    using signed_state_valid by (intro exI [of _ m]) (simp add: signed_disk_def content_def)
qed

end
