(* ===== verification/AccessCeremony.thy ===== *)
theory AccessCeremony
  imports AccessManagerFacts "HOL-Library.AList"
begin

text \<open>
  \<open>internal/access/ceremony.go\<close>: the passkey ceremonies.  A ceremony is begun, is then verified by one
  request at a time, and its result is committed.  The tables \<open>ceremonies\<close> and \<open>attempts\<close> are association
  lists with distinct keys; their order stands for the order in which Go visits a map.  A ceremony has a
  number, which stands for its address: \<open>m.ceremonies[key] != current\<close> compares numbers.

  The WebAuthn library is a parameter: whether it begins a ceremony and with which session data, for which
  credential and user handle it asks, and whether it accepts the answer.
\<close>

section \<open>Tables\<close>

datatype ceremony_kind = CeremonySignIn | CeremonyTrust | CeremonyReauth

fun kind_text :: "ceremony_kind \<Rightarrow> string" where
  "kind_text CeremonySignIn = ''signin''"
| "kind_text CeremonyTrust = ''trust''"
| "kind_text CeremonyReauth = ''reauth''"

definition max_attempts :: nat where "max_attempts = 5"

fun pool_limit :: "ceremony_kind \<Rightarrow> nat" where
  "pool_limit CeremonySignIn = 128"
| "pool_limit CeremonyReauth = max_sessions"
| "pool_limit CeremonyTrust = max_invitations"

record ceremony =
  cy_id :: nat
  cy_kind :: ceremony_kind
  cy_key :: string
  cy_client :: string
  cy_expires :: time
  cy_session :: string
  cy_invitation :: string
  cy_label :: string
  cy_in_flight :: bool

record ceremony_attempts =
  at_count :: nat
  at_expires :: time

record gatekeeper = manager +
  gk_ceremonies :: "(string \<times> ceremony) list"
  gk_attempts :: "(string \<times> ceremony_attempts) list"
  gk_next :: nat

datatype ceremony_resolution = CeremonyVerificationFailed | CeremonyTerminal | CeremonySucceeded

datatype finish_error = Retryable access_error | Final access_error

record ceremony_begin =
  cb_client :: string
  cb_expires :: time
  cb_ttl :: duration

record session_issue =
  is_token :: string
  is_created :: time
  is_expires :: "time option"
  is_lifetime :: string
  is_trust :: string
  is_runtimes :: "nat list"

definition no_attempts :: ceremony_attempts where "no_attempts = \<lparr>at_count = 0, at_expires = 0\<rparr>"

text \<open>Reading a Go map: the zero value where there is no entry.\<close>
definition attempts_of :: "'z gatekeeper_scheme \<Rightarrow> string \<Rightarrow> ceremony_attempts" where
  "attempts_of m key = (case map_of (gk_attempts m) key of None \<Rightarrow> no_attempts | Some a \<Rightarrow> a)"

definition ceremony_key :: "ceremony_kind \<Rightarrow> string \<Rightarrow> string" where
  "ceremony_key kind subject = kind_text kind @ '':'' @ subject"

definition of_kind :: "ceremony_kind \<Rightarrow> string \<Rightarrow> bool" where
  "of_kind kind key = has_prefix key (kind_text kind @ '':'')"

definition pool_size :: "(string \<times> 'v) list \<Rightarrow> ceremony_kind \<Rightarrow> nat" where
  "pool_size records kind = length (filter (\<lambda>e. of_kind kind (fst e)) records)"

definition in_flight_at :: "'z gatekeeper_scheme \<Rightarrow> string \<Rightarrow> bool" where
  "in_flight_at m key = (case map_of (gk_ceremonies m) key of None \<Rightarrow> False | Some c \<Rightarrow> cy_in_flight c)"

definition prune_ceremonies :: "time \<Rightarrow> 'z gatekeeper_scheme \<Rightarrow> 'z gatekeeper_scheme" where
  "prune_ceremonies now m =
     (let m1 = m\<lparr>gk_ceremonies := filter (\<lambda>(_, c). \<not> (\<not> cy_in_flight c \<and> \<not> now < cy_expires c)) (gk_ceremonies m)\<rparr>
      in m1\<lparr>gk_attempts := filter (\<lambda>(key, a). now < at_expires a \<or> in_flight_at m1 key) (gk_attempts m)\<rparr>)"

text \<open>\<open>evictOldestSignInLocked\<close>.  \<open>consider\<close> runs over the attempts and then over the ceremonies.\<close>
definition consider_record :: "'z gatekeeper_scheme \<Rightarrow> string \<times> time \<Rightarrow> string \<times> time \<Rightarrow> string \<times> time" where
  "consider_record m e oldest =
     (if \<not> of_kind CeremonySignIn (fst e) then oldest
      else if in_flight_at m (fst e) then oldest
      else if fst oldest = [] \<or> snd e < snd oldest then e else oldest)"

definition oldest_sign_in :: "'z gatekeeper_scheme \<Rightarrow> string" where
  "oldest_sign_in m =
     fst (fold (consider_record m) (map (\<lambda>(k, a). (k, at_expires a)) (gk_attempts m) @ map (\<lambda>(k, c). (k, cy_expires c)) (gk_ceremonies m))
       ([], 0))"

definition evict_oldest_sign_in :: "'z gatekeeper_scheme \<Rightarrow> bool \<times> 'z gatekeeper_scheme" where
  "evict_oldest_sign_in m =
     (let k = oldest_sign_in m
      in if k = [] then (False, m)
         else (True, m\<lparr>gk_ceremonies := AList.delete k (gk_ceremonies m), gk_attempts := AList.delete k (gk_attempts m)\<rparr>))"

lemma of_kind_nonempty: "of_kind kind key \<Longrightarrow> key \<noteq> []"
  by (cases kind) (auto simp: of_kind_def has_prefix_iff)

lemma fold_consider_record:
  "fst (fold (consider_record m) es o0) \<noteq> [] \<Longrightarrow>
   fold (consider_record m) es o0 = o0 \<or>
   (fold (consider_record m) es o0 \<in> set es \<and> of_kind CeremonySignIn (fst (fold (consider_record m) es o0))
     \<and> \<not> in_flight_at m (fst (fold (consider_record m) es o0)))"
proof (induction es arbitrary: o0)
  case (Cons e es)
  show ?case
    using Cons.IH [of "consider_record m e o0"] Cons.prems by (auto simp: consider_record_def split: if_splits)
qed simp

lemma oldest_sign_in_key:
  assumes "oldest_sign_in m \<noteq> []"
  shows "oldest_sign_in m \<in> fst ` set (gk_attempts m) \<union> fst ` set (gk_ceremonies m)"
    "of_kind CeremonySignIn (oldest_sign_in m)" "\<not> in_flight_at m (oldest_sign_in m)"
proof -
  define es where "es = map (\<lambda>(k, a). (k, at_expires a)) (gk_attempts m) @ map (\<lambda>(k, c). (k, cy_expires c)) (gk_ceremonies m)"
  define w where "w = fold (consider_record m) es ([], 0)"
  have k: "oldest_sign_in m = fst w" by (simp add: oldest_sign_in_def es_def w_def)
  with assms fold_consider_record [of m es "([], 0)"] have w: "w \<in> set es" "of_kind CeremonySignIn (fst w)" "\<not> in_flight_at m (fst w)"
    unfolding w_def by auto
  then have "fst w \<in> fst ` set es" by blast
  also have "fst ` set es = fst ` set (gk_attempts m) \<union> fst ` set (gk_ceremonies m)"
    by (force simp: es_def)
  finally show "oldest_sign_in m \<in> fst ` set (gk_attempts m) \<union> fst ` set (gk_ceremonies m)" by (simp add: k)
  show "of_kind CeremonySignIn (oldest_sign_in m)" "\<not> in_flight_at m (oldest_sign_in m)"
    using w by (simp_all add: k)
qed

lemma alist_delete_length: "length (AList.delete k xs) \<le> length xs"
  by (simp add: AList.delete_eq)

lemma alist_delete_less: "k \<in> fst ` set xs \<Longrightarrow> length (AList.delete k xs) < length xs"
  by (auto simp: AList.delete_eq intro!: length_filter_less)

text \<open>\<open>makeCeremonyRoomLocked\<close>; \<open>has_c\<close> and \<open>has_a\<close> are \<open>hasCeremony\<close> and \<open>hasAttempts\<close>, read once.\<close>
function ceremony_room :: "ceremony_kind \<Rightarrow> bool \<Rightarrow> bool \<Rightarrow> 'z gatekeeper_scheme \<Rightarrow> bool \<times> 'z gatekeeper_scheme" where
  "ceremony_room kind has_c has_a m =
     (if (\<not> has_c \<and> pool_size (gk_ceremonies m) kind \<ge> pool_limit kind)
         \<or> (\<not> has_a \<and> pool_size (gk_attempts m) kind \<ge> pool_limit kind)
      then (if kind \<noteq> CeremonySignIn then (False, m)
            else if oldest_sign_in m = [] then (False, m)
            else ceremony_room kind has_c has_a (snd (evict_oldest_sign_in m)))
      else (True, m))"
  by pat_completeness auto
termination
proof (relation "measure (\<lambda>(_, _, _, m). length (gk_ceremonies m) + length (gk_attempts m))", simp)
  fix m :: "'z gatekeeper_scheme"
  assume "oldest_sign_in m \<noteq> []"
  then have "length (gk_ceremonies (snd (evict_oldest_sign_in m))) + length (gk_attempts (snd (evict_oldest_sign_in m)))
      < length (gk_ceremonies m) + length (gk_attempts m)"
    using oldest_sign_in_key(1) [of m] alist_delete_length [of "oldest_sign_in m" "gk_ceremonies m"]
      alist_delete_length [of "oldest_sign_in m" "gk_attempts m"]
      alist_delete_less [of "oldest_sign_in m" "gk_ceremonies m"] alist_delete_less [of "oldest_sign_in m" "gk_attempts m"]
    by (simp add: evict_oldest_sign_in_def Let_def) linarith
  then show "((kind, has_c, has_a, snd (evict_oldest_sign_in m)), kind, has_c, has_a, m)
      \<in> measure (\<lambda>(_, _, _, m). length (gk_ceremonies m) + length (gk_attempts m))" for kind has_c has_a
    by simp
qed

declare ceremony_room.simps [simp del]

definition make_ceremony_room :: "ceremony_kind \<Rightarrow> string \<Rightarrow> 'z gatekeeper_scheme \<Rightarrow> bool \<times> 'z gatekeeper_scheme" where
  "make_ceremony_room kind key m =
     ceremony_room kind (map_of (gk_ceremonies m) key \<noteq> None) (map_of (gk_attempts m) key \<noteq> None) m"

section \<open>Beginning a ceremony\<close>

definition normalize_ceremony_client :: "string \<Rightarrow> entropy \<Rightarrow> access_error + (string \<times> string)" where
  "normalize_ceremony_client token r =
     (if token \<noteq> [] \<and> (case b64_decode token of Some d \<Rightarrow> length d = 32 | None \<Rightarrow> False)
      then Inr (token, digest_token token)
      else case random_token r 32 of Inl e \<Rightarrow> Inl e | Inr t \<Rightarrow> Inr (t, digest_token t))"

text \<open>The entry both beginnings make: the ceremony under its key, and attempts when there is no live window.\<close>
definition attempts_live :: "'z gatekeeper_scheme \<Rightarrow> string \<Rightarrow> time \<Rightarrow> bool" where
  "attempts_live m key now = (case map_of (gk_attempts m) key of Some a \<Rightarrow> now < at_expires a | None \<Rightarrow> False)"

definition put_ceremony :: "time \<Rightarrow> ceremony \<Rightarrow> 'z gatekeeper_scheme \<Rightarrow> 'z gatekeeper_scheme" where
  "put_ceremony now c m =
     m\<lparr>gk_ceremonies := AList.update (cy_key c) c (gk_ceremonies m), gk_next := Suc (gk_next m),
       gk_attempts := (if attempts_live m (cy_key c) now then gk_attempts m
         else AList.update (cy_key c) \<lparr>at_count = 0, at_expires = cy_expires c\<rparr> (gk_attempts m))\<rparr>"

text \<open>The part of \<open>beginAssertion\<close> after the pruning.  \<open>wa\<close> is the session data of
  \<open>BeginDiscoverableLogin\<close>, or \<open>None\<close> when it fails.\<close>
definition begin_assertion_at ::
  "time \<Rightarrow> string option \<Rightarrow> ceremony_kind \<Rightarrow> string \<Rightarrow> string \<Rightarrow> string \<Rightarrow> 'z gatekeeper_scheme \<Rightarrow>
     (access_error + ceremony_begin) \<times> 'z gatekeeper_scheme" where
  "begin_assertion_at now wa kind key client client_digest m =
     (if in_flight_at m key then (Inl ErrUnauthorized, m)
      else if at_count (attempts_of m key) \<ge> max_attempts \<and> now < at_expires (attempts_of m key)
        then (Inl ErrUnauthorized, m)
      else case make_ceremony_room kind key m of (False, m2) \<Rightarrow> (Inl ErrCapacity, m2)
        | (True, m2) \<Rightarrow>
          (case wa of None \<Rightarrow> (Inl ErrOrigin, m2)
           | Some session \<Rightarrow>
             let expires = (if attempts_live m2 key now then at_expires (attempts_of m2 key) else now + reservation_lifetime);
                 c = \<lparr>cy_id = gk_next m2, cy_kind = kind, cy_key = key, cy_client = client_digest,
                      cy_expires = expires, cy_session = session, cy_invitation = [], cy_label = [],
                      cy_in_flight = False\<rparr>
             in (Inr \<lparr>cb_client = client, cb_expires = expires, cb_ttl = time_sub expires now\<rparr>, put_ceremony now c m2)))"

text \<open>\<open>beginAssertion\<close>.\<close>
definition begin_assertion ::
  "mgr_env \<Rightarrow> string option \<Rightarrow> ceremony_kind \<Rightarrow> string \<Rightarrow> session_identity \<Rightarrow> 'z gatekeeper_scheme \<Rightarrow>
     (access_error + ceremony_begin) \<times> 'z gatekeeper_scheme" where
  "begin_assertion env wa kind client_token current m =
     (let now = me_now env
      in case normalize_ceremony_client client_token (me_rand1 env) of Inl e \<Rightarrow> (Inl e, m)
      | Inr (client, client_digest) \<Rightarrow>
        if kind = CeremonyReauth \<and> \<not> recheck m now current then (Inl ErrUnauthorized, m)
        else begin_assertion_at now wa kind
          (if kind = CeremonyReauth then ceremony_key kind (sid_digest current) else ceremony_key kind client_digest)
          client client_digest (prune_ceremonies now m))"

definition no_session :: session_identity where "no_session = \<lparr>sid_digest = [], sid_trust = []\<rparr>"

definition begin_sign_in ::
  "mgr_env \<Rightarrow> string option \<Rightarrow> string \<Rightarrow> 'z gatekeeper_scheme \<Rightarrow> (access_error + ceremony_begin) \<times> 'z gatekeeper_scheme" where
  "begin_sign_in env wa client_token m = begin_assertion env wa CeremonySignIn client_token no_session m"

definition begin_reauthentication ::
  "mgr_env \<Rightarrow> string option \<Rightarrow> string \<Rightarrow> session_identity \<Rightarrow> 'z gatekeeper_scheme \<Rightarrow>
     (access_error + ceremony_begin) \<times> 'z gatekeeper_scheme" where
  "begin_reauthentication env wa client_token current m = begin_assertion env wa CeremonyReauth client_token current m"

text \<open>\<open>usableInvitation\<close>: the open invitation with the digest, with an expired reservation cleared.
  \<open>set_invitation\<close> is the caller's write through the pointer it returns.\<close>
definition open_at :: "string \<Rightarrow> time \<Rightarrow> invitation_record \<Rightarrow> bool" where
  "open_at digest now i \<longleftrightarrow> i_digest i = digest \<and> i_consumed i = None \<and> now < i_expires i"

definition usable_invitation :: "access_state \<Rightarrow> string \<Rightarrow> string \<Rightarrow> time \<Rightarrow> invitation_record option" where
  "usable_invitation st digest client now =
     (case find (open_at digest now) (invitations st) of None \<Rightarrow> None
      | Some i \<Rightarrow>
        if i_issuer i \<noteq> [] \<and> \<not> active_trust (credentials st) (i_issuer i) then None
        else (case i_runtil i of None \<Rightarrow> Some i
          | Some u \<Rightarrow>
            if now < u \<and> i_rclient i \<noteq> client then None
            else if \<not> now < u then Some (i\<lparr>i_runtil := None, i_rclient := []\<rparr>)
            else Some i))"

definition set_invitation :: "string \<Rightarrow> time \<Rightarrow> invitation_record \<Rightarrow> access_state \<Rightarrow> access_state" where
  "set_invitation digest now i st =
     st\<lparr>invitations := update_first (open_at digest now) (\<lambda>_. i) (invitations st)\<rparr>"

text \<open>The reservation \<open>BeginTrust\<close> makes.\<close>
definition reserve_invitation :: "string \<Rightarrow> time \<Rightarrow> invitation_record \<Rightarrow> invitation_record" where
  "reserve_invitation client now i =
     (if i_runtil i = None \<or> i_rclient i = [] \<or> (case i_runtil i of Some u \<Rightarrow> \<not> now < u | None \<Rightarrow> True)
      then i\<lparr>i_rclient := client, i_runtil := Some (min (now + reservation_lifetime) (i_expires i))\<rparr>
      else i)"

text \<open>\<open>other.kind == CeremonyTrust && other.clientDigest == clientDigest\<close>.\<close>
definition trust_of_client :: "string \<Rightarrow> ceremony \<Rightarrow> bool" where
  "trust_of_client client_digest c \<longleftrightarrow> cy_kind c = CeremonyTrust \<and> cy_client c = client_digest"

definition drop_other_trusts :: "string \<Rightarrow> string \<Rightarrow> 'z gatekeeper_scheme \<Rightarrow> 'z gatekeeper_scheme" where
  "drop_other_trusts client_digest key m =
     m\<lparr>gk_ceremonies := filter (\<lambda>(k, c). \<not> (trust_of_client client_digest c \<and> k \<noteq> key)) (gk_ceremonies m)\<rparr>"

text \<open>The part of \<open>BeginTrust\<close> under the gate: reserve the invitation and commit.  It gives the user and the
  end of the reservation.\<close>
definition reserve_trust ::
  "mgr_env \<Rightarrow> string \<Rightarrow> string \<Rightarrow> invitation_record \<Rightarrow> 'z manager_scheme \<Rightarrow> (operator_user \<times> time) option \<times> 'z manager_scheme" where
  "reserve_trust env digest client_digest i m =
     (let i' = reserve_invitation client_digest (me_now env) i
      in case commit_locked env (set_invitation digest (me_now env) i' (mg_state m)) m of
           (Inl e, m1) \<Rightarrow> (None, m1)
         | (Inr _, m1) \<Rightarrow>
           (case active_user_locked m1 of Inl _ \<Rightarrow> (None, m1)
            | Inr usr \<Rightarrow> (Some (usr, case i_runtil i' of Some u \<Rightarrow> u | None \<Rightarrow> 0), m1)))"

text \<open>The part of \<open>BeginTrust\<close> after the pruning.  \<open>wa\<close> is the session data of \<open>BeginRegistration\<close> for the
  user it is given.\<close>
definition begin_trust_at ::
  "mgr_env \<Rightarrow> (operator_user \<Rightarrow> string option) \<Rightarrow> string \<Rightarrow> string \<Rightarrow> string \<Rightarrow> string \<Rightarrow> string \<Rightarrow> 'z gatekeeper_scheme \<Rightarrow>
     ceremony_begin option \<times> 'z gatekeeper_scheme" where
  "begin_trust_at env wa key client client_digest digest label m =
     (let now = me_now env
      in if list_ex (\<lambda>(_, c). trust_of_client client_digest c \<and> cy_in_flight c) (gk_ceremonies m) then (None, m)
      else if in_flight_at m key then (None, m)
      else case usable_invitation (mg_state m) digest client_digest now of None \<Rightarrow> (None, m)
      | Some i \<Rightarrow>
        if at_count (attempts_of m key) \<ge> max_attempts \<and> now < at_expires (attempts_of m key) then (None, m)
        else (case make_ceremony_room CeremonyTrust key m of (False, m2) \<Rightarrow> (None, m2)
          | (True, m2) \<Rightarrow>
            (case reserve_trust env digest client_digest i m2 of (None, m3) \<Rightarrow> (None, m3)
             | (Some (usr, expires), m3) \<Rightarrow>
               (case wa usr of None \<Rightarrow> (None, m3)
                | Some session \<Rightarrow>
                  let m4 = drop_other_trusts client_digest key m3;
                      c = \<lparr>cy_id = gk_next m4, cy_kind = CeremonyTrust, cy_key = key, cy_client = client_digest,
                           cy_expires = expires, cy_session = session, cy_invitation = digest, cy_label = label,
                           cy_in_flight = False\<rparr>
                  in (Some \<lparr>cb_client = client, cb_expires = expires, cb_ttl = time_sub expires now\<rparr>,
                      put_ceremony now c m4)))))"

text \<open>\<open>BeginTrust\<close>: every failure is \<open>ErrInvitationGeneric\<close>.\<close>
definition begin_trust ::
  "mgr_env \<Rightarrow> (operator_user \<Rightarrow> string option) \<Rightarrow> string \<Rightarrow> string \<Rightarrow> string \<Rightarrow> 'z gatekeeper_scheme \<Rightarrow>
     (access_error + ceremony_begin) \<times> 'z gatekeeper_scheme" where
  "begin_trust env wa client_token invitation_token label0 m =
     (let label = trim_space label0
      in if label = [] \<or> length label > 160 then (Inl ErrInvitationGeneric, m)
      else case normalize_ceremony_client client_token (me_rand1 env) of Inl e \<Rightarrow> (Inl ErrInvitationGeneric, m)
      | Inr (client, client_digest) \<Rightarrow>
        if length invitation_token < 40 \<or> length invitation_token > 128 then (Inl ErrInvitationGeneric, m)
        else let digest = digest_token invitation_token
          in case begin_trust_at env wa (ceremony_key CeremonyTrust digest) client client_digest digest label
                    (prune_ceremonies (me_now env) m) of
               (None, m1) \<Rightarrow> (Inl ErrInvitationGeneric, m1)
             | (Some b, m1) \<Rightarrow> (Inr b, m1))"

section \<open>Verifying\<close>

text \<open>\<open>startCeremonyVerification\<close>.  \<open>None\<close> in the error stands for \<open>errCeremonyInFlight\<close>.\<close>
definition find_ceremony :: "ceremony_kind \<Rightarrow> string \<Rightarrow> string \<Rightarrow> 'z gatekeeper_scheme \<Rightarrow> ceremony option" where
  "find_ceremony kind client_digest session_digest m =
     (case kind of
        CeremonySignIn \<Rightarrow> map_of (gk_ceremonies m) (ceremony_key kind client_digest)
      | CeremonyReauth \<Rightarrow> map_of (gk_ceremonies m) (ceremony_key kind session_digest)
      | CeremonyTrust \<Rightarrow> map_option snd
          (find (\<lambda>(_, c). trust_of_client client_digest c) (gk_ceremonies m)))"

datatype start_error = StartUnauthorized | StartInFlight

definition start_ceremony_verification ::
  "time \<Rightarrow> ceremony_kind \<Rightarrow> string \<Rightarrow> string \<Rightarrow> 'z gatekeeper_scheme \<Rightarrow> (start_error + ceremony) \<times> 'z gatekeeper_scheme" where
  "start_ceremony_verification now kind client_token session_digest m =
     (if length client_token < 40 \<or> length client_token > 128 then (Inl StartUnauthorized, m)
      else let client_digest = digest_token client_token; m1 = prune_ceremonies now m
        in case find_ceremony kind client_digest session_digest m1 of None \<Rightarrow> (Inl StartUnauthorized, m1)
        | Some c \<Rightarrow>
          if cy_client c \<noteq> client_digest \<or> \<not> now < cy_expires c then (Inl StartUnauthorized, m1)
          else if cy_in_flight c then (Inl StartInFlight, m1)
          else let a = attempts_of m1 (cy_key c)
            in if at_count a \<ge> max_attempts \<and> now < at_expires a then (Inl StartUnauthorized, m1)
               else let a' = \<lparr>at_count = Suc (at_count a),
                              at_expires = (if at_expires a = 0 then cy_expires c else at_expires a)\<rparr>;
                        c' = c\<lparr>cy_in_flight := True\<rparr>
                 in (Inr c', m1\<lparr>gk_attempts := AList.update (cy_key c) a' (gk_attempts m1),
                                gk_ceremonies := map (\<lambda>(k, x). (k, if cy_id x = cy_id c then c' else x)) (gk_ceremonies m1)\<rparr>))"

definition ceremony_start_error :: "start_error \<Rightarrow> access_error \<Rightarrow> finish_error" where
  "ceremony_start_error e cause = (if e = StartInFlight then Retryable cause else Final cause)"

text \<open>\<open>CeremonyCanRetry\<close>.\<close>
definition ceremony_can_retry :: "finish_error \<Rightarrow> bool" where
  "ceremony_can_retry e = (case e of Retryable _ \<Rightarrow> True | Final _ \<Rightarrow> False)"

text \<open>\<open>verifyAssertion\<close>.  \<open>asked\<close> is the credential and user handle the library's handler is called with, and
  \<open>answer\<close> what the library returns for the user the handler gives.\<close>
definition verify_assertion ::
  "(string \<times> string) option \<Rightarrow> (operator_user \<Rightarrow> wa_credential option) \<Rightarrow> 'z manager_scheme \<Rightarrow>
     access_error + (wa_credential \<times> string)" where
  "verify_assertion asked answer m =
     (case asked of None \<Rightarrow> Inl ErrUnauthorized
      | Some (raw_id, handle) \<Rightarrow>
        (case discoverable_user_locked m raw_id handle of Inl e \<Rightarrow> Inl ErrUnauthorized
         | Inr (usr, trust) \<Rightarrow>
           (case answer usr of None \<Rightarrow> Inl ErrUnauthorized
            | Some cred \<Rightarrow> if trust = [] then Inl ErrUnauthorized else Inr (cred, trust))))"

definition verify_registration ::
  "(operator_user \<Rightarrow> wa_credential option) \<Rightarrow> operator_user \<Rightarrow> access_error + wa_credential" where
  "verify_registration answer usr = (case answer usr of None \<Rightarrow> Inl ErrUnauthorized | Some cred \<Rightarrow> Inr cred)"

definition is_current :: "'z gatekeeper_scheme \<Rightarrow> ceremony \<Rightarrow> bool" where
  "is_current m c =
     (case map_of (gk_ceremonies m) (cy_key c) of None \<Rightarrow> False | Some c' \<Rightarrow> cy_id c' = cy_id c \<and> cy_in_flight c')"

definition ceremony_can_commit :: "'z gatekeeper_scheme \<Rightarrow> time \<Rightarrow> ceremony \<Rightarrow> bool" where
  "ceremony_can_commit m now c \<longleftrightarrow>
     is_current m c \<and> at_count (attempts_of m (cy_key c)) > 0
     \<and> at_count (attempts_of m (cy_key c)) \<le> max_attempts \<and> now < cy_expires c"

definition resolve_ceremony ::
  "time \<Rightarrow> ceremony \<Rightarrow> ceremony_resolution \<Rightarrow> 'z gatekeeper_scheme \<Rightarrow> bool \<times> 'z gatekeeper_scheme" where
  "resolve_ceremony now c res m =
     (if \<not> is_current m c then (False, m)
      else let key = cy_key c; a = attempts_of m key;
               m1 = m\<lparr>gk_ceremonies := AList.delete key (gk_ceremonies m)\<rparr>;
               m2 = m1\<lparr>gk_attempts := AList.delete key (gk_attempts m)\<rparr>
        in case res of CeremonyVerificationFailed \<Rightarrow>
             if \<not> now < at_expires a then (False, m2) else (at_count a < max_attempts, m1)
           | _ \<Rightarrow> (False, m2))"

section \<open>Issuing a session\<close>

definition trust_session_count :: "session_record list \<Rightarrow> string \<Rightarrow> nat" where
  "trust_session_count ss t = length (filter (\<lambda>s. s_trust s = t) ss)"

text \<open>\<open>oldestSessionIndex\<close>: \<open>best\<close> is the index found so far with its creation time.\<close>
fun oldest_from :: "string \<Rightarrow> session_record list \<Rightarrow> nat \<Rightarrow> (nat \<times> time) option \<Rightarrow> nat option" where
  "oldest_from t [] i best = map_option fst best"
| "oldest_from t (s # ss) i best =
     (if t \<noteq> [] \<and> s_trust s \<noteq> t then oldest_from t ss (Suc i) best
      else case best of
          None \<Rightarrow> oldest_from t ss (Suc i) (Some (i, s_created s))
        | Some (_, at) \<Rightarrow> oldest_from t ss (Suc i) (if s_created s < at then Some (i, s_created s) else best))"

definition oldest_session_index :: "session_record list \<Rightarrow> string \<Rightarrow> nat option" where
  "oldest_session_index ss t = oldest_from t ss 0 None"

lemma oldest_from_bound:
  assumes "oldest_from t ss i best = Some j"
  shows "(\<exists>at. best = Some (j, at)) \<or> (i \<le> j \<and> j < i + length ss \<and> (t = [] \<or> s_trust (ss ! (j - i)) = t))"
  using assms
proof (induction ss arbitrary: i best)
  case (Cons s ss)
  have later: "i \<le> j \<and> j < i + length (s # ss) \<and> (t = [] \<or> s_trust ((s # ss) ! (j - i)) = t)"
    if "Suc i \<le> j \<and> j < Suc i + length ss \<and> (t = [] \<or> s_trust (ss ! (j - Suc i)) = t)"
  proof -
    from that have "Suc i \<le> j" by blast
    then have "j - i = Suc (j - Suc i)" by linarith
    with that show ?thesis by simp
  qed
  show ?case
  proof (cases "t \<noteq> [] \<and> s_trust s \<noteq> t")
    case True
    with Cons.prems have "oldest_from t ss (Suc i) best = Some j" by simp
    from Cons.IH [OF this] later show ?thesis by blast
  next
    case False
    with Cons.prems obtain b where b: "oldest_from t ss (Suc i) (Some b) = Some j" "b = (i, s_created s) \<or> best = Some b"
      by (auto split: option.splits if_splits)
    from Cons.IH [OF b(1)] show ?thesis
    proof
      assume "\<exists>at. Some b = Some (j, at)"
      with b(2) False show ?thesis by auto
    qed (use later in blast)
  qed
qed auto

lemma oldest_from_some:
  "best \<noteq> None \<or> (\<exists>s \<in> set ss. t = [] \<or> s_trust s = t) \<Longrightarrow> oldest_from t ss i best \<noteq> None"
  by (induction t ss i best rule: oldest_from.induct) (auto split: option.splits)

text \<open>The two loops of \<open>addSession\<close>.  The index is never -1 where they read it
  (\<open>shed_sessions_index\<close>); the value \<open>None\<close> would be a panic.\<close>
function shed_sessions ::
  "string \<Rightarrow> (session_record list \<Rightarrow> bool) \<Rightarrow> session_record list \<Rightarrow> string list \<Rightarrow> (session_record list \<times> string list) option" where
  "shed_sessions t full ss gone =
     (if \<not> full ss then Some (ss, gone)
      else case oldest_session_index ss t of None \<Rightarrow> None
      | Some i \<Rightarrow> shed_sessions t full (take i ss @ drop (Suc i) ss) (gone @ [s_digest (ss ! i)]))"
  by pat_completeness auto
termination
proof (relation "measure (\<lambda>(_, _, ss, _). length ss)", simp)
  fix t :: string and full :: "session_record list \<Rightarrow> bool" and ss :: "session_record list" and gone :: "string list" and i
  assume "oldest_session_index ss t = Some i"
  then have "i < length ss" using oldest_from_bound [of t ss 0 None i] by (simp add: oldest_session_index_def)
  then show "((t, full, take i ss @ drop (Suc i) ss, gone @ [s_digest (ss ! i)]), t, full, ss, gone)
      \<in> measure (\<lambda>(_, _, ss, _). length ss)" by simp
qed

declare shed_sessions.simps [simp del]

text \<open>\<open>addSession\<close>.\<close>
definition add_session ::
  "access_state \<Rightarrow> string \<Rightarrow> string \<Rightarrow> time \<Rightarrow> string \<Rightarrow> entropy \<Rightarrow>
     access_error + (access_state \<times> session_issue \<times> string list)" where
  "add_session st trust fresh now replace r =
     (case random_token r 32 of Inl e \<Rightarrow> Inl e
      | Inr token \<Rightarrow>
        (case parse_session_lifetime (st_lifetime st) of Inl e \<Rightarrow> Inl (ErrConfig e)
         | Inr lifetime \<Rightarrow>
           let gone0 = (if replace = [] then [] else map s_digest (filter (\<lambda>s. s_digest s = replace) (sessions st)));
               ss0 = (if replace = [] then sessions st else delete_func (\<lambda>s. s_digest s = replace) (sessions st))
           in case Option.bind (shed_sessions trust (\<lambda>ss. trust_session_count ss trust \<ge> max_trust_sessions) ss0 gone0)
                     (\<lambda>(ss, gone). shed_sessions [] (\<lambda>ss. length ss \<ge> max_sessions) ss gone) of
                None \<Rightarrow> Inl ErrLimits
              | Some (ss, gone) \<Rightarrow>
                let s = \<lparr>s_digest = digest_token token, s_trust = trust, s_created = now,
                         s_lifetime = lifetime_string lifetime,
                         s_expires = (if no_expiry lifetime then None else Some (now + lifetime_duration lifetime)),
                         s_fresh_trust = fresh, s_fresh_at = now\<rparr>
                in Inr (st\<lparr>sessions := ss @ [s]\<rparr>,
                     \<lparr>is_token = token, is_created = now, is_expires = s_expires s, is_lifetime = s_lifetime s,
                      is_trust = trust, is_runtimes = []\<rparr>, gone)))"

text \<open>The end of both commits: cancel what the session replaced and install its runtime.\<close>
definition issue_session :: "session_issue \<Rightarrow> string list \<Rightarrow> 'z manager_scheme \<Rightarrow> session_issue \<times> 'z manager_scheme" where
  "issue_session issue gone m =
     (case cancel_runtimes gone m of (rs, m1) \<Rightarrow>
        (issue\<lparr>is_runtimes := rs\<rparr>, install_runtime (digest_token (is_token issue)) m1))"

text \<open>\<open>commitAssertion\<close>.\<close>
definition commit_assertion ::
  "mgr_env \<Rightarrow> wa_credential \<Rightarrow> string \<Rightarrow> string \<Rightarrow> bool \<Rightarrow> time \<Rightarrow> 'z manager_scheme \<Rightarrow>
     (access_error + session_issue) \<times> 'z manager_scheme" where
  "commit_assertion env cred trust old reauth deadline m =
     (let now = me_now env; st = mg_state m;
          hit = (\<lambda>c. c_trust c = trust \<and> c_revoked c = None \<and> wa_id (c_cred c) = wa_id cred)
      in if \<not> now < deadline then (Inl ErrUnauthorized, m)
         else if reauth \<and> active_session_locked m old now = None then (Inl ErrUnauthorized, m)
         else if \<not> list_ex hit (credentials st) then (Inl ErrUnauthorized, m)
         else case add_session (st\<lparr>credentials := update_first hit
                    (\<lambda>c. c\<lparr>c_cred := cred, c_used := now, c_backup_seen := now\<rparr>) (credentials st)\<rparr>)
                trust trust now old (me_rand1 env) of Inl e \<Rightarrow> (Inl e, m)
         | Inr (updated, issue, gone) \<Rightarrow>
           (case commit_locked env updated m of (Inl e, m1) \<Rightarrow> (Inl e, m1)
            | (Inr _, m1) \<Rightarrow> (case issue_session issue gone m1 of (issue', m2) \<Rightarrow> (Inr issue', m2))))"

text \<open>\<open>commitRegistration\<close>.\<close>
definition commit_registration ::
  "mgr_env \<Rightarrow> ceremony \<Rightarrow> wa_credential \<Rightarrow> string \<Rightarrow> 'z manager_scheme \<Rightarrow>
     (access_error + session_issue) \<times> 'z manager_scheme" where
  "commit_registration env c cred old m =
     (let now = me_now env; st = mg_state m
      in case usable_invitation st (cy_invitation c) (cy_client c) now of None \<Rightarrow> (Inl ErrInvitationGeneric, m)
      | Some i \<Rightarrow>
        if i_rclient i \<noteq> cy_client c \<or> (case i_runtil i of None \<Rightarrow> True | Some u \<Rightarrow> \<not> now < u)
          then (Inl ErrInvitationGeneric, m)
        else let creds = delete_func (\<lambda>x. c_revoked x \<noteq> None) (credentials st)
          in if length (filter (\<lambda>x. c_revoked x = None) creds) \<ge> max_credentials then (Inl ErrCapacity, m)
             else if list_ex (\<lambda>x. wa_id (c_cred x) = wa_id cred) creds then (Inl ErrInvitationGeneric, m)
             else case random_token (me_rand1 env) 16 of Inl e \<Rightarrow> (Inl e, m)
             | Inr trust \<Rightarrow>
               let st1 = (set_invitation (cy_invitation c) now (i\<lparr>i_consumed := Some now, i_rclient := [], i_runtil := None\<rparr>) st)
                     \<lparr>credentials := creds @ [\<lparr>c_trust = trust, c_label = cy_label c, c_created = now, c_used = now,
                        c_backup_seen = now, c_revoked = None, c_cred = cred\<rparr>]\<rparr>
               in case add_session st1 trust trust now old (me_rand2 env) of Inl e \<Rightarrow> (Inl e, m)
                  | Inr (updated, issue, gone) \<Rightarrow>
                    (case commit_locked env updated m of (Inl e, m1) \<Rightarrow> (Inl e, m1)
                     | (Inr _, m1) \<Rightarrow>
                       (case issue_session issue gone m1 of (issue', m2) \<Rightarrow>
                          (Inr issue', notify_authority (TrustedSignInAdded (cy_label c)) m2))))"

section \<open>Finishing a ceremony\<close>

text \<open>The clock at the four points where a finishing request looks at it; the third is \<open>me_now\<close> of the
  commit's environment.\<close>
record finish_env =
  fe_start :: time
  fe_check :: time
  fe_commit :: mgr_env
  fe_resolve :: time

definition old_digest :: "session_identity option \<Rightarrow> string" where
  "old_digest old = (case old of None \<Rightarrow> [] | Some s \<Rightarrow> sid_digest s)"

text \<open>After a failed verification: retry when attempts are left.\<close>
definition finish_failed ::
  "time \<Rightarrow> ceremony \<Rightarrow> access_error \<Rightarrow> 'z gatekeeper_scheme \<Rightarrow> (finish_error + session_issue) \<times> 'z gatekeeper_scheme" where
  "finish_failed now c cause m =
     (case resolve_ceremony now c CeremonyVerificationFailed m of
        (True, m1) \<Rightarrow> (Inl (Retryable cause), m1) | (False, m1) \<Rightarrow> (Inl (Final cause), m1))"

text \<open>After a verification that succeeded: check the ceremony again, commit, and resolve.\<close>
definition finish_commit ::
  "finish_env \<Rightarrow> ceremony \<Rightarrow> access_error \<Rightarrow> ('z gatekeeper_scheme \<Rightarrow> (access_error + session_issue) \<times> 'z gatekeeper_scheme) \<Rightarrow>
     'z gatekeeper_scheme \<Rightarrow> (finish_error + session_issue) \<times> 'z gatekeeper_scheme" where
  "finish_commit env c cause commit m =
     (if \<not> ceremony_can_commit m (fe_check env) c
      then (Inl (Final cause), snd (resolve_ceremony (fe_resolve env) c CeremonyTerminal m))
      else case commit m of
          (Inl _, m1) \<Rightarrow> (Inl (Final cause), snd (resolve_ceremony (fe_resolve env) c CeremonyTerminal m1))
        | (Inr issue, m1) \<Rightarrow> (Inr issue, snd (resolve_ceremony (fe_resolve env) c CeremonySucceeded m1)))"

definition finish_sign_in ::
  "finish_env \<Rightarrow> (string \<times> string) option \<Rightarrow> (operator_user \<Rightarrow> wa_credential option) \<Rightarrow> string \<Rightarrow> session_identity option \<Rightarrow>
     'z gatekeeper_scheme \<Rightarrow> (finish_error + session_issue) \<times> 'z gatekeeper_scheme" where
  "finish_sign_in env asked answer client_token old m =
     (case start_ceremony_verification (fe_start env) CeremonySignIn client_token [] m of
        (Inl e, m1) \<Rightarrow> (Inl (ceremony_start_error e ErrUnauthorized), m1)
      | (Inr c, m1) \<Rightarrow>
        (case verify_assertion asked answer m1 of
           Inl _ \<Rightarrow> finish_failed (fe_resolve env) c ErrUnauthorized m1
         | Inr (cred, trust) \<Rightarrow>
           finish_commit env c ErrUnauthorized
             (commit_assertion (fe_commit env) cred trust (old_digest old) False (cy_expires c)) m1))"

definition finish_reauthentication ::
  "finish_env \<Rightarrow> (string \<times> string) option \<Rightarrow> (operator_user \<Rightarrow> wa_credential option) \<Rightarrow> string \<Rightarrow> session_identity \<Rightarrow>
     'z gatekeeper_scheme \<Rightarrow> (finish_error + session_issue) \<times> 'z gatekeeper_scheme" where
  "finish_reauthentication env asked answer client_token current m =
     (case start_ceremony_verification (fe_start env) CeremonyReauth client_token (sid_digest current) m of
        (Inl e, m1) \<Rightarrow> (Inl (ceremony_start_error e ErrUnauthorized), m1)
      | (Inr c, m1) \<Rightarrow>
        (case verify_assertion asked answer m1 of
           Inl _ \<Rightarrow> finish_failed (fe_resolve env) c ErrUnauthorized m1
         | Inr (cred, trust) \<Rightarrow>
           finish_commit env c ErrUnauthorized
             (commit_assertion (fe_commit env) cred trust (sid_digest current) True (cy_expires c)) m1))"

definition finish_trust ::
  "finish_env \<Rightarrow> (operator_user \<Rightarrow> wa_credential option) \<Rightarrow> string \<Rightarrow> session_identity option \<Rightarrow>
     'z gatekeeper_scheme \<Rightarrow> (finish_error + session_issue) \<times> 'z gatekeeper_scheme" where
  "finish_trust env answer client_token old m =
     (case start_ceremony_verification (fe_start env) CeremonyTrust client_token [] m of
        (Inl e, m1) \<Rightarrow> (Inl (ceremony_start_error e ErrInvitationGeneric), m1)
      | (Inr c, m1) \<Rightarrow>
        (case active_user_locked m1 of
           Inl _ \<Rightarrow> (Inl (Final ErrInvitationGeneric), snd (resolve_ceremony (fe_resolve env) c CeremonyTerminal m1))
         | Inr usr \<Rightarrow>
           (case verify_registration answer usr of
              Inl _ \<Rightarrow> finish_failed (fe_resolve env) c ErrInvitationGeneric m1
            | Inr cred \<Rightarrow>
              finish_commit env c ErrInvitationGeneric
                (commit_registration (fe_commit env) c cred (old_digest old)) m1)))"

end
