(* ===== verification/AccessCeremonyFacts.thy ===== *)
theory AccessCeremonyFacts
  imports AccessCeremony
begin

text \<open>
  Facts about the passkey ceremonies of \<open>AccessCeremony\<close>: the sessions they issue, the tables they keep, and
  that the operations of the manager leave those tables alone.
\<close>

section \<open>Making room for a session\<close>

lemma oldest_session_index_bound:
  "oldest_session_index ss t = Some i \<Longrightarrow> i < length ss \<and> (t = [] \<or> s_trust (ss ! i) = t)"
  using oldest_from_bound [of t ss 0 None i] by (simp add: oldest_session_index_def)

lemma remove_nth_mset: "i < length xs \<Longrightarrow> mset (take i xs @ drop (Suc i) xs) + {#xs ! i#} = mset xs"
  by (metis add_mset_add_single id_take_nth_drop mset.simps(2) mset_append union_mset_add_mset_right)

lemma remove_nth_filter:
  "i < length xs \<Longrightarrow> \<not> p (xs ! i) \<Longrightarrow> filter p (take i xs @ drop (Suc i) xs) = filter p xs"
  by (subst (3) id_take_nth_drop [of i xs]) auto

lemma shed_sessions_some:
  "(\<And>xs. full xs \<Longrightarrow> \<exists>s \<in> set xs. t = [] \<or> s_trust s = t) \<Longrightarrow> shed_sessions t full ss gone \<noteq> None"
proof (induction t full ss gone rule: shed_sessions.induct)
  case (1 t full ss gone)
  show ?case
  proof (cases "full ss")
    case True
    then have "oldest_session_index ss t \<noteq> None"
      unfolding oldest_session_index_def using 1(2) by (intro oldest_from_some) blast
    then obtain i where i: "oldest_session_index ss t = Some i" by blast
    from 1(1) [OF _ i 1(2)] True show ?thesis
      by (subst shed_sessions.simps) (simp add: i)
  qed (subst shed_sessions.simps, simp)
qed

text \<open>What the loops leave: not too many sessions, a part of the old ones, and with \<open>gone\<close> exactly the old ones;
  sessions of other trusts stay.\<close>
lemma shed_sessions_spec:
  "shed_sessions t full ss gone = Some (ss', gone') \<Longrightarrow>
   \<not> full ss' \<and> (\<exists>ds. gone' = gone @ ds \<and> mset (map s_digest ss') + mset ds = mset (map s_digest ss))
   \<and> set ss' \<subseteq> set ss \<and> (t \<noteq> [] \<longrightarrow> filter (\<lambda>s. s_trust s \<noteq> t) ss' = filter (\<lambda>s. s_trust s \<noteq> t) ss)
   \<and> length ss' \<le> length ss \<and> (\<forall>p. length (filter p ss') \<le> length (filter p ss))"
proof (induction t full ss gone rule: shed_sessions.induct)
  case (1 t full ss gone)
  show ?case
  proof (cases "full ss")
    case False
    with 1(2) show ?thesis by (subst (asm) shed_sessions.simps) simp
  next
    case True
    with 1(2) obtain i where i: "oldest_session_index ss t = Some i"
      and s: "shed_sessions t full (take i ss @ drop (Suc i) ss) (gone @ [s_digest (ss ! i)]) = Some (ss', gone')"
      by (subst (asm) shed_sessions.simps) (auto split: option.splits)
    note b = oldest_session_index_bound [OF i]
    from 1(1) [OF _ i s] True obtain ds where
      ih: "\<not> full ss'" "gone' = (gone @ [s_digest (ss ! i)]) @ ds"
        "mset (map s_digest ss') + mset ds = mset (map s_digest (take i ss @ drop (Suc i) ss))"
        "set ss' \<subseteq> set (take i ss @ drop (Suc i) ss)"
        "t \<noteq> [] \<longrightarrow> filter (\<lambda>s. s_trust s \<noteq> t) ss' = filter (\<lambda>s. s_trust s \<noteq> t) (take i ss @ drop (Suc i) ss)"
        "length ss' \<le> length (take i ss @ drop (Suc i) ss)"
        "\<forall>p. length (filter p ss') \<le> length (filter p (take i ss @ drop (Suc i) ss))" by blast
    have "mset (map s_digest ss') + mset (s_digest (ss ! i) # ds) = mset (map s_digest ss)"
    proof -
      have "mset (map s_digest ss') + mset (s_digest (ss ! i) # ds) = (mset (map s_digest ss') + mset ds) + {#s_digest (ss ! i)#}"
        by simp
      also have "\<dots> = image_mset s_digest (mset (take i ss @ drop (Suc i) ss) + {#ss ! i#})"
        using ih(3) by (simp only: mset_map image_mset_union image_mset_single)
      also have "\<dots> = mset (map s_digest ss)"
        using remove_nth_mset [of i ss] b by (simp only: mset_map)
      finally show ?thesis .
    qed
    moreover have "set (take i ss @ drop (Suc i) ss) \<subseteq> set ss"
      using set_take_subset [of i ss] set_drop_subset [of "Suc i" ss] by auto
    moreover have "length (filter p (take i ss @ drop (Suc i) ss)) \<le> length (filter p ss)" for p
      using b by (subst (3) id_take_nth_drop [of i ss]) auto
    ultimately show ?thesis
      using ih b remove_nth_filter [of i ss "\<lambda>s. s_trust s \<noteq> t"]
      by (intro conjI exI [of _ "s_digest (ss ! i) # ds"]) (auto intro: order_trans)
  qed
qed

lemma add_session_some:
  assumes "random_token r 32 = Inr token" "parse_session_lifetime (st_lifetime st) = Inr l"
  shows "\<exists>st' issue gone. add_session st trust fresh now replace r = Inr (st', issue, gone)"
proof -
  let ?f1 = "\<lambda>ss. trust_session_count ss trust \<ge> max_trust_sessions" and ?f2 = "\<lambda>ss. length ss \<ge> max_sessions"
  have f1: "\<exists>s \<in> set ss. trust = [] \<or> s_trust s = trust" if "?f1 ss" for ss
  proof -
    have "filter (\<lambda>s. s_trust s = trust) ss \<noteq> []"
      using that by (auto simp: trust_session_count_def access_limits)
    then show ?thesis by (auto simp: filter_empty_conv)
  qed
  have f2: "\<exists>s \<in> set ss. [] = [] \<or> s_trust s = []" if "?f2 ss" for ss
    using that by (cases ss) (auto simp: access_limits)
  obtain x where x: "shed_sessions trust ?f1 (if replace = [] then sessions st else delete_func (\<lambda>s. s_digest s = replace) (sessions st))
      (if replace = [] then [] else map s_digest (filter (\<lambda>s. s_digest s = replace) (sessions st))) = Some x"
    using shed_sessions_some [of ?f1, OF f1] by blast
  obtain y where "shed_sessions [] ?f2 (fst x) (snd x) = Some y"
    using shed_sessions_some [of ?f2 "[]", OF f2] by blast
  with x show ?thesis
    by (auto simp: add_session_def assms Let_def split: prod.splits)
qed

text \<open>What \<open>addSession\<close> does to the state.\<close>
lemma add_session_spec:
  assumes "add_session st trust fresh now replace r = Inr (st', issue, gone)"
    and d: "distinct (map s_digest (sessions st))"
  obtains ss s l where "st' = st\<lparr>sessions := ss @ [s]\<rparr>"
    "random_token r 32 = Inr (is_token issue)" "parse_session_lifetime (st_lifetime st) = Inr l"
    "s = \<lparr>s_digest = digest_token (is_token issue), s_trust = trust, s_created = now, s_lifetime = lifetime_string l,
        s_expires = (if no_expiry l then None else Some (now + lifetime_duration l)), s_fresh_trust = fresh, s_fresh_at = now\<rparr>"
    "issue = \<lparr>is_token = is_token issue, is_created = now, is_expires = s_expires s, is_lifetime = s_lifetime s,
        is_trust = trust, is_runtimes = []\<rparr>"
    "set ss \<subseteq> set (sessions st)" "distinct (map s_digest ss)"
    "s_digest ` set ss = s_digest ` set (sessions st) - set gone" "set gone \<subseteq> s_digest ` set (sessions st)"
    "length (trust_sessions ss trust) < max_trust_sessions" "length ss < max_sessions"
    "\<And>t. length (trust_sessions ss t) \<le> length (trust_sessions (sessions st) t)"
    "replace \<noteq> [] \<longrightarrow> replace \<notin> s_digest ` set ss"
proof -
  let ?gone0 = "if replace = [] then [] else map s_digest (filter (\<lambda>s. s_digest s = replace) (sessions st))"
  let ?ss0 = "if replace = [] then sessions st else delete_func (\<lambda>s. s_digest s = replace) (sessions st)"
  let ?f1 = "\<lambda>ss. trust_session_count ss trust \<ge> max_trust_sessions" and ?f2 = "\<lambda>ss. length ss \<ge> max_sessions"
  from assms(1) obtain token l ss1 gone1 ss where
    t: "random_token r 32 = Inr token" and l: "parse_session_lifetime (st_lifetime st) = Inr l"
    and 1: "shed_sessions trust ?f1 ?ss0 ?gone0 = Some (ss1, gone1)"
    and 2: "shed_sessions [] ?f2 ss1 gone1 = Some (ss, gone)"
    and st: "st' = st\<lparr>sessions := ss @ [\<lparr>s_digest = digest_token token, s_trust = trust, s_created = now, s_lifetime = lifetime_string l,
        s_expires = (if no_expiry l then None else Some (now + lifetime_duration l)), s_fresh_trust = fresh, s_fresh_at = now\<rparr>]\<rparr>"
    and iss: "issue = \<lparr>is_token = token, is_created = now,
        is_expires = (if no_expiry l then None else Some (now + lifetime_duration l)), is_lifetime = lifetime_string l,
        is_trust = trust, is_runtimes = []\<rparr>"
    by (auto simp: add_session_def Let_def split: sum.splits option.splits prod.splits bind_splits)
  note s1 = shed_sessions_spec [OF 1] and s2 = shed_sessions_spec [OF 2]
  from s1 s2 obtain d1 d2 where g: "gone1 = ?gone0 @ d1" "gone = gone1 @ d2"
    and m1: "mset (map s_digest ss1) + mset d1 = mset (map s_digest ?ss0)"
    and m2: "mset (map s_digest ss) + mset d2 = mset (map s_digest ss1)" by blast
  have m0: "mset (map s_digest ?ss0) + mset ?gone0 = mset (map s_digest (sessions st))"
    using mset_delete_func [of s_digest "\<lambda>s. s_digest s = replace" "sessions st"] by simp
  have m: "mset (map s_digest ss) + mset gone = mset (map s_digest (sessions st))"
  proof -
    have "mset (map s_digest ss) + mset gone = mset ?gone0 + ((mset (map s_digest ss) + mset d2) + mset d1)"
      by (simp only: g mset_append ac_simps)
    also have "\<dots> = mset ?gone0 + mset (map s_digest ?ss0)" by (simp only: m2 m1)
    also have "\<dots> = mset (map s_digest (sessions st))" using m0 by (simp only: add.commute)
    finally show ?thesis .
  qed
  then have dd: "distinct (map s_digest ss @ gone)" using d
    by (metis mset_append distinct_count_atmost_1 mset_eq_imp_distinct_iff)
  have set: "s_digest ` set ss \<union> set gone = s_digest ` set (sessions st)"
    using arg_cong [OF m, of set_mset] by simp
  have c0: "length (filter p ?ss0) \<le> length (filter p (sessions st))" for p
    by (auto intro: length_filter_mono)
  have c: "length (filter p ss) \<le> length (filter p (sessions st))" for p
    using s1 s2 c0 [of p] by (meson order_trans)
  show thesis
  proof (rule that)
    show "st' = st\<lparr>sessions := ss @ [\<lparr>s_digest = digest_token (is_token issue), s_trust = trust, s_created = now,
        s_lifetime = lifetime_string l, s_expires = (if no_expiry l then None else Some (now + lifetime_duration l)),
        s_fresh_trust = fresh, s_fresh_at = now\<rparr>]\<rparr>" by (simp add: st iss)
    show "random_token r 32 = Inr (is_token issue)" by (simp add: t iss)
    show "parse_session_lifetime (st_lifetime st) = Inr l" by (rule l)
    show "distinct (map s_digest ss)" "s_digest ` set ss = s_digest ` set (sessions st) - set gone"
      "set gone \<subseteq> s_digest ` set (sessions st)"
      using dd set by auto
    show "set ss \<subseteq> set (sessions st)" using s1 s2 by (auto split: if_splits)
    show "length (trust_sessions ss trust) < max_trust_sessions"
      using s1 s2 by (auto simp: trust_session_count_def trust_sessions_def intro: le_less_trans)
    show "length ss < max_sessions" using s2 by auto
    show "length (trust_sessions ss t) \<le> length (trust_sessions (sessions st) t)" for t
      using c by (simp add: trust_sessions_def)
    show "replace \<noteq> [] \<longrightarrow> replace \<notin> s_digest ` set ss"
      using s1 s2 by auto
  qed (simp_all add: iss)
qed

section \<open>Issuing a session keeps the manager's invariant\<close>

lemma install_runtime_inv:
  assumes "sto_state (mg_store m) = mg_state m" "mgr.sound m" "runtimes_ok m"
    and "dom (mg_runtimes m) \<union> {d} = s_digest ` set (sessions (mg_state m))"
  shows "mgr_inv (install_runtime d m)"
proof -
  have "mgr.sound (install_runtime d m)"
    using assms(2) unfolding mgr_sound_iff by (simp add: install_runtime_def)
  then show ?thesis
    using assms runtimes_ok_install [OF assms(3), of d] by (auto simp: mgr_inv_def) (auto simp: install_runtime_def)
qed

text \<open>The common end of the two commits.\<close>
lemma issue_session_inv:
  assumes c: "commit_locked env st' m = (Inr u, m1)" and i: "issue_session issue gone m1 = (issue', m2)" and inv: "mgr_inv m"
    and st': "sessions st' = ss @ [s]" "s_digest s = digest_token (is_token issue)"
    and ss: "s_digest ` set ss = s_digest ` set (sessions (mg_state m)) - set gone"
  shows "mgr_inv m2 \<and> mg_state m2 = st' \<and> valid_state st' \<and> content (sto_disk (mg_store m2)) = Some st'
    \<and> is_token issue' = is_token issue \<and> mg_cancelled m2 = mg_cancelled m \<union> runtimes_of m (set gone)
    \<and> mg_runtimes m2 = (mg_runtimes m |` (- set gone))(digest_token (is_token issue) \<mapsto> mg_next m)
    \<and> mg_next m2 = Suc (mg_next m) \<and> mg_events m2 = mg_events m \<and> mg_authority m2 = mg_authority m"
proof -
  from c obtain d where d: "valid_state st'" "content d = Some st'"
      "m1 = m\<lparr>mg_store := \<lparr>sto_state = st', sto_disk = d\<rparr>, mg_state := st'\<rparr>"
    by (elim commit_locked_cases) auto
  from i obtain rs m1' where k: "cancel_runtimes gone m1 = (rs, m1')"
    and m2: "issue' = issue\<lparr>is_runtimes := rs\<rparr>" "m2 = install_runtime (digest_token (is_token issue)) m1'"
    by (auto simp: issue_session_def split: prod.splits)
  have m1': "m1' = m1\<lparr>mg_runtimes := mg_runtimes m1 |` (- set gone), mg_cancelled := mg_cancelled m1 \<union> runtimes_of m1 (set gone)\<rparr>"
    using cancel_runtimes_spec [OF k] by simp
  have "runtimes_ok m1" using inv d(3) by (simp add: mgr_inv_def)
  then have r: "runtimes_ok m1'" unfolding m1' by (rule runtimes_ok_cancel)
  have "mgr.sound m1'" unfolding mgr_sound_iff using d by (simp add: m1')
  moreover have "dom (mg_runtimes m1') \<union> {digest_token (is_token issue)} = s_digest ` set (sessions (mg_state m1'))"
    using inv ss by (auto simp: m1' d(3) st' mgr_inv_def)
  ultimately have "mgr_inv m2"
    unfolding m2(2) using r by (intro install_runtime_inv) (simp_all add: m1' d(3))
  then show ?thesis using d by (simp add: m2 install_runtime_def m1')
qed

lemma commit_assertion_error:
  "commit_assertion env cred trust old reauth deadline m = (Inl e, m') \<Longrightarrow> mgr_inv m \<Longrightarrow>
   mgr_inv m' \<and> mg_state m' = mg_state m \<and> mg_runtimes m' = mg_runtimes m \<and> mg_cancelled m' = mg_cancelled m"
  by (auto simp: commit_assertion_def Let_def split: if_splits sum.splits prod.splits dest!: commit_error_inv)

definition used_credential :: "wa_credential \<Rightarrow> time \<Rightarrow> credential_record \<Rightarrow> credential_record" where
  "used_credential cred now c = c\<lparr>c_cred := cred, c_used := now, c_backup_seen := now\<rparr>"

definition assertion_hit :: "string \<Rightarrow> wa_credential \<Rightarrow> credential_record \<Rightarrow> bool" where
  "assertion_hit trust cred c \<longleftrightarrow> c_trust c = trust \<and> c_revoked c = None \<and> wa_id (c_cred c) = wa_id cred"

lemma commit_assertion_inv_parts:
  assumes "commit_assertion env cred trust old reauth deadline m = (Inr issue', m')"
  obtains updated issue gone m1 where "me_now env < deadline"
    "reauth \<longrightarrow> active_session_locked m old (me_now env) \<noteq> None"
    "list_ex (assertion_hit trust cred) (credentials (mg_state m))"
    "add_session ((mg_state m)\<lparr>credentials := update_first (assertion_hit trust cred)
        (used_credential cred (me_now env)) (credentials (mg_state m))\<rparr>) trust trust (me_now env) old (me_rand1 env)
      = Inr (updated, issue, gone)"
    "commit_locked env updated m = (Inr (), m1)" "issue_session issue gone m1 = (issue', m')"
  using assms unfolding assertion_hit_def [abs_def] used_credential_def [abs_def]
  by (auto simp: commit_assertion_def Let_def simp del: not_None_eq split: if_splits sum.splits prod.splits)

text \<open>A successful assertion, sign-in or reauthentication.\<close>
lemma commit_assertion_ok:
  assumes "commit_assertion env cred trust old reauth deadline m = (Inr issue, m')" "mgr_inv m"
  obtains ss s gone where
    "mg_state m' = (mg_state m)\<lparr>credentials := update_first (assertion_hit trust cred)
        (used_credential cred (me_now env)) (credentials (mg_state m)), sessions := ss @ [s]\<rparr>"
    "s_digest s = digest_token (is_token issue)" "s_trust s = trust" "s_fresh_trust s = trust"
    "s_created s = me_now env" "s_fresh_at s = me_now env"
    "set ss \<subseteq> set (sessions (mg_state m))" "old \<noteq> [] \<longrightarrow> old \<notin> s_digest ` set ss"
    "s_digest ` set ss = s_digest ` set (sessions (mg_state m)) - set gone"
    "list_ex (assertion_hit trust cred) (credentials (mg_state m))" "me_now env < deadline"
    "reauth \<longrightarrow> active_session_locked m old (me_now env) \<noteq> None"
    "random_token (me_rand1 env) 32 = Inr (is_token issue)"
    "mgr_inv m'" "content (sto_disk (mg_store m')) = Some (mg_state m')"
    "mg_cancelled m' = mg_cancelled m \<union> runtimes_of m (set gone)"
proof -
  from assms(1) obtain updated issue0 gone m1 where p: "me_now env < deadline"
    "reauth \<longrightarrow> active_session_locked m old (me_now env) \<noteq> None"
    "list_ex (assertion_hit trust cred) (credentials (mg_state m))"
    and a: "add_session ((mg_state m)\<lparr>credentials := update_first (assertion_hit trust cred)
        (used_credential cred (me_now env)) (credentials (mg_state m))\<rparr>) trust trust (me_now env) old (me_rand1 env)
      = Inr (updated, issue0, gone)"
    and c: "commit_locked env updated m = (Inr (), m1)" and i: "issue_session issue0 gone m1 = (issue, m')"
    by (rule commit_assertion_inv_parts)
  have "distinct (map s_digest (sessions ((mg_state m)\<lparr>credentials := update_first (assertion_hit trust cred)
        (used_credential cred (me_now env)) (credentials (mg_state m))\<rparr>)))"
    using valid_digests [OF mgr_inv_valid [OF assms(2)]] by simp
  from a this show thesis
  proof (rule add_session_spec, goal_cases)
    case (1 ss s l)
    have s: "s_digest s = digest_token (is_token issue0)" "s_trust s = trust" "s_fresh_trust s = trust"
      "s_created s = me_now env" "s_fresh_at s = me_now env"
      by (simp_all add: 1(4))
    have ss: "s_digest ` set ss = s_digest ` set (sessions (mg_state m)) - set gone" "set ss \<subseteq> set (sessions (mg_state m))"
      using 1(6,8) by simp_all
    have "sessions updated = ss @ [s]" by (simp add: 1(1))
    note iss = issue_session_inv [OF c i assms(2) this s(1) ss(1)]
    show thesis
      by (rule that [of ss s gone]) (use iss s ss p 1(1,2,13) in simp_all)
  qed
qed

lemma commit_assertion_inv [step_invs]:
  "commit_assertion env cred trust old reauth deadline m = (r, m') \<Longrightarrow> mgr_inv m \<Longrightarrow> mgr_inv m'"
  by (cases r) (use commit_assertion_error commit_assertion_ok in blast)+

section \<open>Registering a new sign-in\<close>

lemma commit_registration_error:
  "commit_registration env c cred old m = (Inl e, m') \<Longrightarrow> mgr_inv m \<Longrightarrow>
   mgr_inv m' \<and> mg_state m' = mg_state m \<and> mg_runtimes m' = mg_runtimes m \<and> mg_cancelled m' = mg_cancelled m"
  by (auto simp: commit_registration_def Let_def split: if_splits sum.splits prod.splits option.splits dest!: commit_error_inv)

definition new_credential :: "time \<Rightarrow> string \<Rightarrow> string \<Rightarrow> wa_credential \<Rightarrow> credential_record" where
  "new_credential now trust label cred = \<lparr>c_trust = trust, c_label = label, c_created = now, c_used = now,
     c_backup_seen = now, c_revoked = None, c_cred = cred\<rparr>"

definition consume :: "time \<Rightarrow> invitation_record \<Rightarrow> invitation_record" where
  "consume now i = i\<lparr>i_consumed := Some now, i_rclient := [], i_runtil := None\<rparr>"

text \<open>The state a registration commits before the session is added.\<close>
definition registered :: "time \<Rightarrow> ceremony \<Rightarrow> string \<Rightarrow> wa_credential \<Rightarrow> invitation_record \<Rightarrow> access_state \<Rightarrow> access_state" where
  "registered now c trust cred i st =
     (set_invitation (cy_invitation c) now (consume now i) st)
       \<lparr>credentials := filter (\<lambda>x. c_revoked x = None) (credentials st) @ [new_credential now trust (cy_label c) cred]\<rparr>"

lemma commit_registration_parts:
  assumes "commit_registration env c cred old m = (Inr issue', m')"
  obtains i trust updated issue gone m1 m2 where
    "usable_invitation (mg_state m) (cy_invitation c) (cy_client c) (me_now env) = Some i"
    "i_rclient i = cy_client c" "\<exists>u. i_runtil i = Some u \<and> me_now env < u"
    "length (filter (\<lambda>x. c_revoked x = None) (credentials (mg_state m))) < max_credentials"
    "\<forall>x \<in> set (credentials (mg_state m)). c_revoked x = None \<longrightarrow> wa_id (c_cred x) \<noteq> wa_id cred"
    "random_token (me_rand1 env) 16 = Inr trust"
    "add_session (registered (me_now env) c trust cred i (mg_state m)) trust trust (me_now env) old (me_rand2 env)
      = Inr (updated, issue, gone)"
    "commit_locked env updated m = (Inr (), m1)" "issue_session issue gone m1 = (issue', m2)"
    "m' = notify_authority (TrustedSignInAdded (cy_label c)) m2"
  using assms unfolding registered_def new_credential_def consume_def
  by (auto simp: commit_registration_def Let_def delete_func_def list_ex_iff
      simp del: not_None_eq split: if_splits sum.splits prod.splits option.splits)

lemma usable_invitation_open:
  assumes "usable_invitation st digest client now = Some i"
  obtains i0 where "find (open_at digest now) (invitations st) = Some i0" "i_digest i = digest" "i_consumed i = None"
    "now < i_expires i" "i_issuer i = i_issuer i0" "i_issuer i = [] \<or> active_trust (credentials st) (i_issuer i)"
    "i_issued i = i_issued i0" "i_expires i = i_expires i0"
    "i = i0 \<or> i = i0\<lparr>i_runtil := None, i_rclient := []\<rparr>"
    "\<forall>u. i_runtil i = Some u \<longrightarrow> now < u \<and> i_rclient i = client"
proof -
  from assms obtain i0 where i0: "find (open_at digest now) (invitations st) = Some i0"
    by (auto simp: usable_invitation_def split: option.splits)
  show thesis
    by (rule that [OF i0])
       (use assms find_SomeD [OF i0] in \<open>auto simp: usable_invitation_def i0 open_at_def split: option.splits if_splits\<close>)
qed

text \<open>A successful registration.\<close>
lemma commit_registration_ok:
  assumes "commit_registration env c cred old m = (Inr issue, m')" "mgr_inv m"
  obtains i trust ss s gone where
    "usable_invitation (mg_state m) (cy_invitation c) (cy_client c) (me_now env) = Some i"
    "i_rclient i = cy_client c" "\<exists>u. i_runtil i = Some u \<and> me_now env < u"
    "length (filter (\<lambda>x. c_revoked x = None) (credentials (mg_state m))) < max_credentials"
    "\<forall>x \<in> set (credentials (mg_state m)). c_revoked x = None \<longrightarrow> wa_id (c_cred x) \<noteq> wa_id cred"
    "random_token (me_rand1 env) 16 = Inr trust"
    "mg_state m' = (registered (me_now env) c trust cred i (mg_state m))\<lparr>sessions := ss @ [s]\<rparr>"
    "s_digest s = digest_token (is_token issue)" "s_trust s = trust" "s_fresh_trust s = trust" "s_fresh_at s = me_now env"
    "set ss \<subseteq> set (sessions (mg_state m))"
    "s_digest ` set ss = s_digest ` set (sessions (mg_state m)) - set gone"
    "mgr_inv m'" "content (sto_disk (mg_store m')) = Some (mg_state m')"
    "mg_cancelled m' = mg_cancelled m \<union> runtimes_of m (set gone)"
    "mg_events m' = mg_events m @ (if mg_authority m then [TrustedSignInAdded (cy_label c)] else [])"
proof -
  from assms(1) obtain i trust updated issue0 gone m1 m2 where p:
    "usable_invitation (mg_state m) (cy_invitation c) (cy_client c) (me_now env) = Some i"
    "i_rclient i = cy_client c" "\<exists>u. i_runtil i = Some u \<and> me_now env < u"
    "length (filter (\<lambda>x. c_revoked x = None) (credentials (mg_state m))) < max_credentials"
    "\<forall>x \<in> set (credentials (mg_state m)). c_revoked x = None \<longrightarrow> wa_id (c_cred x) \<noteq> wa_id cred"
    "random_token (me_rand1 env) 16 = Inr trust"
    and a: "add_session (registered (me_now env) c trust cred i (mg_state m)) trust trust (me_now env) old (me_rand2 env)
      = Inr (updated, issue0, gone)"
    and cm: "commit_locked env updated m = (Inr (), m1)" and i: "issue_session issue0 gone m1 = (issue, m2)"
    and m': "m' = notify_authority (TrustedSignInAdded (cy_label c)) m2"
    by (rule commit_registration_parts)
  have r: "sessions (registered (me_now env) c trust cred i (mg_state m)) = sessions (mg_state m)"
    by (simp add: registered_def set_invitation_def)
  have "distinct (map s_digest (sessions (registered (me_now env) c trust cred i (mg_state m))))"
    using valid_digests [OF mgr_inv_valid [OF assms(2)]] by (simp add: r)
  from a this show thesis
  proof (rule add_session_spec, goal_cases)
    case (1 ss s l)
    have s: "s_digest s = digest_token (is_token issue0)" "s_trust s = trust" "s_fresh_trust s = trust" "s_fresh_at s = me_now env"
      by (simp_all add: 1(4))
    have ss: "s_digest ` set ss = s_digest ` set (sessions (mg_state m)) - set gone" "set ss \<subseteq> set (sessions (mg_state m))"
      using 1(6,8) by (simp_all add: r)
    have "sessions updated = ss @ [s]" by (simp add: 1(1))
    note iss = issue_session_inv [OF cm i assms(2) this s(1) ss(1)]
    show thesis
      by (rule that [of i trust ss s gone]) (use iss s ss p 1(1) in \<open>simp_all add: m'\<close>)
  qed
qed

lemma commit_registration_inv [step_invs]:
  "commit_registration env c cred old m = (r, m') \<Longrightarrow> mgr_inv m \<Longrightarrow> mgr_inv m'"
  by (cases r) (use commit_registration_error commit_registration_ok in blast)+

end
