(* ===== verification/AccessSystem.thy ===== *)
theory AccessSystem
  imports AccessCeremonyFacts
begin

text \<open>
  The access manager with all its operations, as one transition system.  Requests interleave at the points
  where the code releases its locks: a request that finishes a ceremony starts the verification, verifies
  outside the locks, checks the ceremony again, commits and resolves, and any other operation may run in
  between.  The invariants of reachable states are shown operation by operation.
\<close>

section \<open>What the manager's operations leave alone\<close>

lemma more_gk:
  assumes "manager.more m' = manager.more m"
  shows "gk_ceremonies m' = gk_ceremonies m" "gk_attempts m' = gk_attempts m" "gk_next m' = gk_next m"
  using assms by (cases m; cases m'; simp)+

lemma commit_locked_more: "commit_locked env st m = (r, m') \<Longrightarrow> manager.more m' = manager.more m"
  by (elim commit_locked_cases) simp_all

lemma cancel_runtimes_more: "cancel_runtimes ds m = (rs, m') \<Longrightarrow> manager.more m' = manager.more m"
  using cancel_runtimes_spec [of ds m rs m'] by simp

lemma notify_authority_more [simp]: "manager.more (notify_authority ev m) = manager.more m"
  by (simp add: notify_authority_def)

lemma install_runtime_more [simp]: "manager.more (install_runtime d m) = manager.more m"
  by (simp add: install_runtime_def)

lemma issue_session_more: "issue_session issue gone m = (i, m') \<Longrightarrow> manager.more m' = manager.more m"
  by (auto simp: issue_session_def dest: cancel_runtimes_more split: prod.splits)

lemmas more_dests = commit_locked_more cancel_runtimes_more issue_session_more
lemmas op_splits = option.splits if_splits sum.splits prod.splits

lemma create_browser_invitation_more:
  "create_browser_invitation env sid m = (r, m') \<Longrightarrow> manager.more m' = manager.more m"
  by (auto simp: create_browser_invitation_def Let_def dest!: more_dests split: op_splits)

lemma create_local_invitation_more:
  "create_local_invitation env m = (r, m') \<Longrightarrow> manager.more m' = manager.more m"
  by (auto simp: create_local_invitation_def Let_def dest!: more_dests split: op_splits)

lemma revoke_locked_more: "revoke_locked env t m = (r, m') \<Longrightarrow> manager.more m' = manager.more m"
  by (auto simp: revoke_locked_def Let_def dest!: more_dests split: op_splits)

lemma revoke_browser_more: "revoke_browser env sid t m = (r, m') \<Longrightarrow> manager.more m' = manager.more m"
  by (auto simp: revoke_browser_def dest!: revoke_locked_more split: op_splits)

lemma sign_out_more: "sign_out env sid m = (r, m') \<Longrightarrow> manager.more m' = manager.more m"
  by (auto simp: sign_out_def Let_def simp del: cancel_runtimes.simps dest!: more_dests split: op_splits)

lemma reset_more: "reset env m = (r, m') \<Longrightarrow> manager.more m' = manager.more m"
  by (auto simp: reset_def Let_def dest!: more_dests split: op_splits)

lemma expire_now_more: "expire_now env m = (r, m') \<Longrightarrow> manager.more m' = manager.more m"
  by (auto simp: expire_now_def Let_def dest!: more_dests split: op_splits)

lemma commit_assertion_more:
  "commit_assertion env cred trust old reauth deadline m = (r, m') \<Longrightarrow> manager.more m' = manager.more m"
  by (auto simp: commit_assertion_def Let_def dest!: more_dests split: op_splits)

lemma commit_registration_more:
  "commit_registration env c cred old m = (r, m') \<Longrightarrow> manager.more m' = manager.more m"
  by (auto simp: commit_registration_def Let_def dest!: more_dests split: op_splits)

section \<open>The operations as labelled steps\<close>

text \<open>The operations that touch only the access state.\<close>
datatype manager_op =
    CreateBrowserInvitation session_identity
  | CreateLocalInvitation
  | RevokeBrowser session_identity string
  | RevokeLocal string
  | SignOut session_identity
  | Reset
  | ExpireNow
  | CommitAssertion wa_credential string string bool time
  | CommitRegistration ceremony wa_credential string

fun run_op :: "mgr_env \<Rightarrow> manager_op \<Rightarrow> 'z manager_scheme \<Rightarrow> 'z manager_scheme" where
  "run_op env (CreateBrowserInvitation sid) m = snd (create_browser_invitation env sid m)"
| "run_op env CreateLocalInvitation m = snd (create_local_invitation env m)"
| "run_op env (RevokeBrowser sid t) m = snd (revoke_browser env sid t m)"
| "run_op env (RevokeLocal t) m = snd (revoke_local env t m)"
| "run_op env (SignOut sid) m = snd (sign_out env sid m)"
| "run_op env Reset m = snd (reset env m)"
| "run_op env ExpireNow m = snd (expire_now env m)"
| "run_op env (CommitAssertion cred t old re d) m = snd (commit_assertion env cred t old re d m)"
| "run_op env (CommitRegistration c cred old) m = snd (commit_registration env c cred old m)"

lemma run_op_inv: "mgr_inv m \<Longrightarrow> mgr_inv (run_op env op m)"
  by (cases op) (auto intro: step_invs [OF prod.collapse [symmetric]])

lemma run_op_more: "manager.more (run_op env op m) = manager.more m"
  by (cases op)
     (auto simp: revoke_local_def intro: create_browser_invitation_more [OF prod.collapse [symmetric]]
       create_local_invitation_more [OF prod.collapse [symmetric]] revoke_locked_more [OF prod.collapse [symmetric]]
       revoke_browser_more [OF prod.collapse [symmetric]] sign_out_more [OF prod.collapse [symmetric]]
       reset_more [OF prod.collapse [symmetric]] expire_now_more [OF prod.collapse [symmetric]]
       commit_assertion_more [OF prod.collapse [symmetric]] commit_registration_more [OF prod.collapse [symmetric]])

lemmas run_op_tables = more_gk [OF run_op_more]

text \<open>Every session has its own trust as the fresh one, whatever happens.\<close>
lemma fresh_own_subset: "set (sessions st') \<subseteq> set (sessions st) \<Longrightarrow> fresh_own st \<Longrightarrow> fresh_own st'"
  by (auto simp: fresh_own_def)

lemma commit_state_cases:
  "commit_locked env st m = (r, m') \<Longrightarrow> mg_state m' = mg_state m \<or> mg_state m' = st"
  by (elim commit_locked_cases) simp_all

lemma create_browser_fresh:
  "create_browser_invitation env sid m = (r, m') \<Longrightarrow> sessions (mg_state m') = sessions (mg_state m)"
  by (auto simp: create_browser_invitation_def Let_def dest!: commit_state_cases split: op_splits)

lemma create_local_fresh:
  "create_local_invitation env m = (r, m') \<Longrightarrow> sessions (mg_state m') = sessions (mg_state m)"
  by (auto simp: create_local_invitation_def Let_def dest!: commit_state_cases split: op_splits)

lemma revoke_locked_subset:
  assumes "revoke_locked env t m = (r, m')" "mgr_inv m"
  shows "set (sessions (mg_state m')) \<subseteq> set (sessions (mg_state m))"
proof (cases r)
  case (Inl e)
  then show ?thesis using revoke_locked_error assms by fastforce
next
  case (Inr rv)
  show ?thesis by (rule revoke_locked_ok [OF assms(1) [unfolded Inr] assms(2)]) auto
qed

lemma sign_out_subset:
  assumes "sign_out env sid m = (r, m')" "mgr_inv m"
  shows "set (sessions (mg_state m')) \<subseteq> set (sessions (mg_state m))"
proof (cases r)
  case (Inl e)
  then show ?thesis using assms
    by (auto simp: sign_out_def Let_def split: op_splits dest!: commit_error_inv)
next
  case (Inr rs)
  show ?thesis using sign_out_ok [OF assms(1) [unfolded Inr] assms(2)] by auto
qed

lemma reset_subset:
  assumes "reset env m = (r, m')" "mgr_inv m"
  shows "set (sessions (mg_state m')) \<subseteq> set (sessions (mg_state m))"
proof (cases r)
  case (Inl e)
  then show ?thesis using assms
    by (auto simp: reset_def Let_def split: op_splits dest!: commit_error_inv)
next
  case (Inr rs)
  show ?thesis using reset_ok [OF assms(1) [unfolded Inr] assms(2)] by auto
qed

lemma expire_now_subset:
  assumes "expire_now env m = (r, m')" "mgr_inv m"
  shows "set (sessions (mg_state m')) \<subseteq> set (sessions (mg_state m))"
proof (cases r)
  case (Inl e)
  then show ?thesis using assms
    by (auto simp: expire_now_def Let_def split: op_splits dest!: commit_error_inv)
next
  case (Inr rs)
  show ?thesis using expire_now_ok [OF assms(1) [unfolded Inr] assms(2)] by auto
qed

lemma commit_assertion_fresh:
  assumes "commit_assertion env cred trust old reauth deadline m = (r, m')" "mgr_inv m" "fresh_own (mg_state m)"
  shows "fresh_own (mg_state m')"
proof (cases r)
  case (Inl e)
  then show ?thesis using commit_assertion_error assms by fastforce
next
  case (Inr issue)
  show ?thesis
    by (rule commit_assertion_ok [OF assms(1) [unfolded Inr] assms(2)])
       (use assms(3) in \<open>auto simp: fresh_own_def\<close>)
qed

lemma commit_registration_fresh:
  assumes "commit_registration env c cred old m = (r, m')" "mgr_inv m" "fresh_own (mg_state m)"
  shows "fresh_own (mg_state m')"
proof (cases r)
  case (Inl e)
  then show ?thesis using commit_registration_error assms by fastforce
next
  case (Inr issue)
  show ?thesis
    by (rule commit_registration_ok [OF assms(1) [unfolded Inr] assms(2)])
       (use assms(3) in \<open>auto simp: fresh_own_def\<close>)
qed

lemma fresh_own_same: "sessions st' = sessions st \<Longrightarrow> fresh_own st \<Longrightarrow> fresh_own st'"
  by (simp add: fresh_own_def)

lemma run_op_fresh:
  assumes "mgr_inv m" "fresh_own (mg_state m)"
  shows "fresh_own (mg_state (run_op env op m))"
proof -
  note p = prod.collapse [symmetric]
  show ?thesis
  proof (cases op)
    case (CreateBrowserInvitation sid)
    show ?thesis using fresh_own_same [OF create_browser_fresh [OF p] assms(2)] by (simp add: CreateBrowserInvitation)
  next
    case CreateLocalInvitation
    show ?thesis using fresh_own_same [OF create_local_fresh [OF p] assms(2)] by (simp add: CreateLocalInvitation)
  next
    case (RevokeBrowser sid t)
    have "set (sessions (mg_state (snd (revoke_browser env sid t m)))) \<subseteq> set (sessions (mg_state m))"
      using revoke_locked_subset [OF p assms(1), of env t] by (auto simp: revoke_browser_def split: op_splits)
    from fresh_own_subset [OF this assms(2)] show ?thesis by (simp add: RevokeBrowser)
  next
    case (RevokeLocal t)
    show ?thesis using fresh_own_subset [OF revoke_locked_subset [OF p assms(1)] assms(2)]
      by (simp add: RevokeLocal revoke_local_def)
  next
    case (SignOut sid)
    show ?thesis using fresh_own_subset [OF sign_out_subset [OF p assms(1)] assms(2)] by (simp add: SignOut)
  next
    case Reset
    show ?thesis using fresh_own_subset [OF reset_subset [OF p assms(1)] assms(2)] by (simp add: Reset)
  next
    case ExpireNow
    show ?thesis using fresh_own_subset [OF expire_now_subset [OF p assms(1)] assms(2)] by (simp add: ExpireNow)
  next
    case (CommitAssertion cred t old re d)
    show ?thesis using commit_assertion_fresh [OF p assms] by (simp add: CommitAssertion)
  next
    case (CommitRegistration c cred old)
    show ?thesis using commit_registration_fresh [OF p assms] by (simp add: CommitRegistration)
  qed
qed

section \<open>The tables as maps\<close>

text \<open>\<open>tables cs as n\<close>: the ceremonies \<open>cs\<close> and attempts \<open>as\<close>, read as maps, with \<open>n\<close> the next number.
  A ceremony is kept under its key and has a number of its own; one being verified has used an attempt;
  five attempts are the most; the window of an assertion is that of its attempts; a browser has one trust
  ceremony; no pool is larger than its limit.\<close>
definition pool_card :: "(string \<rightharpoonup> 'v) \<Rightarrow> ceremony_kind \<Rightarrow> nat" where
  "pool_card f kind = card {k \<in> dom f. of_kind kind k}"

definition ceremonies_ok :: "(string \<rightharpoonup> ceremony) \<Rightarrow> nat \<Rightarrow> bool" where
  "ceremonies_ok cs n \<longleftrightarrow> finite (dom cs)
     \<and> (\<forall>k c. cs k = Some c \<longrightarrow> cy_key c = k \<and> of_kind (cy_kind c) k \<and> cy_id c < n)
     \<and> (\<forall>k c k' c'. cs k = Some c \<and> cs k' = Some c' \<and> cy_id c = cy_id c' \<longrightarrow> k = k')
     \<and> (\<forall>k c k' c'. cs k = Some c \<and> cs k' = Some c' \<and> cy_kind c = CeremonyTrust \<and> cy_kind c' = CeremonyTrust
          \<and> cy_client c = cy_client c' \<longrightarrow> k = k')
     \<and> (\<forall>kind. pool_card cs kind \<le> pool_limit kind)"

definition attempts_ok :: "(string \<rightharpoonup> ceremony) \<Rightarrow> (string \<rightharpoonup> ceremony_attempts) \<Rightarrow> bool" where
  "attempts_ok cs as \<longleftrightarrow> finite (dom as) \<and> (\<forall>k a. as k = Some a \<longrightarrow> at_count a \<le> max_attempts)
     \<and> (\<forall>k c. cs k = Some c \<and> cy_in_flight c \<longrightarrow> (\<exists>a. as k = Some a \<and> 0 < at_count a))
     \<and> (\<forall>k c. cs k = Some c \<and> cy_kind c \<noteq> CeremonyTrust \<longrightarrow> (\<exists>a. as k = Some a \<and> at_expires a = cy_expires c))
     \<and> (\<forall>kind. kind \<noteq> CeremonyTrust \<longrightarrow> pool_card as kind \<le> pool_limit kind)"

definition tables_ok :: "'z gatekeeper_scheme \<Rightarrow> bool" where
  "tables_ok m \<longleftrightarrow> distinct (map fst (gk_ceremonies m)) \<and> distinct (map fst (gk_attempts m))
     \<and> ceremonies_ok (map_of (gk_ceremonies m)) (gk_next m)
     \<and> attempts_ok (map_of (gk_ceremonies m)) (map_of (gk_attempts m))"

lemma map_of_filter_key:
  assumes "distinct (map fst table)"
  shows "map_of (filter keep table) key = (case map_of table key of None \<Rightarrow> None | Some x \<Rightarrow> if keep (key, x) then Some x else None)"
  using assms by (induction table) (auto split: option.splits simp: image_iff dest!: map_of_SomeD)

lemma pool_size_card: "distinct (map fst xs) \<Longrightarrow> pool_size xs kind = pool_card (map_of xs) kind"
proof -
  assume d: "distinct (map fst xs)"
  have "pool_size xs kind = length (map fst (filter (\<lambda>e. of_kind kind (fst e)) xs))" by (simp add: pool_size_def)
  also have "\<dots> = card (set (map fst (filter (\<lambda>e. of_kind kind (fst e)) xs)))"
    using d by (intro distinct_card [symmetric]) (simp add: distinct_map_filter)
  also have "set (map fst (filter (\<lambda>e. of_kind kind (fst e)) xs)) = {k \<in> dom (map_of xs). of_kind kind k}"
    by (auto simp: dom_map_of_conv_image_fst)
  finally show ?thesis by (simp add: pool_card_def)
qed

lemma pool_card_mono: "finite (dom f) \<Longrightarrow> dom g \<subseteq> dom f \<Longrightarrow> pool_card g kind \<le> pool_card f kind"
  unfolding pool_card_def by (intro card_mono) (auto intro: finite_subset)

lemma pool_card_insert:
  assumes "finite (dom f)"
  shows "pool_card (f(k \<mapsto> v)) kind = (if of_kind kind k \<and> f k = None then Suc (pool_card f kind) else pool_card f kind)"
proof (cases "of_kind kind k \<and> f k = None")
  case True
  then have "{x \<in> dom (f(k \<mapsto> v)). of_kind kind x} = insert k {x \<in> dom f. of_kind kind x}" by auto
  moreover have "k \<notin> {x \<in> dom f. of_kind kind x}" using True by auto
  ultimately show ?thesis using True assms by (simp add: pool_card_def)
next
  case False
  then have "{x \<in> dom (f(k \<mapsto> v)). of_kind kind x} = {x \<in> dom f. of_kind kind x}" by auto
  then show ?thesis using False by (simp add: pool_card_def)
qed

lemma pool_card_less:
  assumes "finite (dom f)" "dom g \<subseteq> dom f" "f k \<noteq> None" "g k = None" "of_kind kind k"
  shows "pool_card g kind < pool_card f kind"
  unfolding pool_card_def
proof (rule psubset_card_mono)
  show "finite {k \<in> dom f. of_kind kind k}" using assms(1) by simp
  show "{k \<in> dom g. of_kind kind k} \<subset> {k \<in> dom f. of_kind kind k}"
    using assms(2-5) by auto
qed

section \<open>Shrinking the tables\<close>

text \<open>Pruning, evicting and resolving only take entries away; \<open>kept\<close> says which must stay.\<close>
definition shrinks ::
  "(string \<rightharpoonup> ceremony) \<Rightarrow> (string \<rightharpoonup> ceremony_attempts) \<Rightarrow> (string \<rightharpoonup> ceremony) \<Rightarrow> (string \<rightharpoonup> ceremony_attempts) \<Rightarrow> bool" where
  "shrinks cs as cs' as' \<longleftrightarrow> cs' \<subseteq>\<^sub>m cs \<and> as' \<subseteq>\<^sub>m as
     \<and> (\<forall>k c. cs' k = Some c \<and> (cy_in_flight c \<or> cy_kind c \<noteq> CeremonyTrust) \<longrightarrow> as' k = as k)"

lemma map_le_SomeD: "f \<subseteq>\<^sub>m g \<Longrightarrow> f k = Some v \<Longrightarrow> g k = Some v"
  by (metis domI map_le_def)

lemma shrinks_trans: "shrinks a b c d \<Longrightarrow> shrinks c d e f \<Longrightarrow> shrinks a b e f"
  unfolding shrinks_def by (metis map_le_trans map_le_SomeD)

lemma shrinks_refl [simp]: "shrinks a b a b"
  by (simp add: shrinks_def)

lemma shrinks_ok:
  assumes s: "shrinks cs as cs' as'" and c: "ceremonies_ok cs n" and a: "attempts_ok cs as"
  shows "ceremonies_ok cs' n \<and> attempts_ok cs' as'"
proof
  note le = map_le_SomeD [of cs' cs] map_le_SomeD [of as' as]
  have sub: "cs' \<subseteq>\<^sub>m cs" "as' \<subseteq>\<^sub>m as" using s by (simp_all add: shrinks_def)
  then have d: "dom cs' \<subseteq> dom cs" "dom as' \<subseteq> dom as" by (auto dest: map_le_implies_dom_le)
  have fin: "finite (dom cs)" "finite (dom as)" using c a by (simp_all add: ceremonies_ok_def attempts_ok_def)
  have p: "pool_card cs' kind \<le> pool_limit kind" for kind
    using pool_card_mono [OF fin(1) d(1), of kind] c by (auto simp: ceremonies_ok_def intro: order_trans)
  show "ceremonies_ok cs' n"
    unfolding ceremonies_ok_def
  proof (intro conjI allI impI)
    show "finite (dom cs')" using fin d by (auto intro: finite_subset)
    show "cy_key c = k" "of_kind (cy_kind c) k" "cy_id c < n" if "cs' k = Some c" for k c
      using c le(1) [OF sub(1) that] by (auto simp: ceremonies_ok_def)
    show "k = k'" if "cs' k = Some c \<and> cs' k' = Some c' \<and> cy_id c = cy_id c'" for k c k' c'
      using c le(1) [OF sub(1)] that unfolding ceremonies_ok_def by metis
    show "k = k'" if "cs' k = Some c \<and> cs' k' = Some c' \<and> cy_kind c = CeremonyTrust \<and> cy_kind c' = CeremonyTrust
        \<and> cy_client c = cy_client c'" for k c k' c'
      using c le(1) [OF sub(1)] that unfolding ceremonies_ok_def by metis
  qed (rule p)
  have q: "pool_card as' kind \<le> pool_limit kind" if "kind \<noteq> CeremonyTrust" for kind
    using pool_card_mono [OF fin(2) d(2), of kind] a that by (auto simp: attempts_ok_def intro: order_trans)
  show "attempts_ok cs' as'"
    unfolding attempts_ok_def
  proof (intro conjI allI impI)
    show "finite (dom as')" using fin d by (auto intro: finite_subset)
    show "at_count x \<le> max_attempts" if "as' k = Some x" for k x
      using a le(2) [OF sub(2) that] by (auto simp: attempts_ok_def)
    show "\<exists>a. as' k = Some a \<and> 0 < at_count a" if "cs' k = Some x \<and> cy_in_flight x" for k x
      using a le(1) [OF sub(1)] that s unfolding attempts_ok_def shrinks_def by metis
    show "\<exists>a. as' k = Some a \<and> at_expires a = cy_expires x" if "cs' k = Some x \<and> cy_kind x \<noteq> CeremonyTrust" for k x
      using a le(1) [OF sub(1)] that s unfolding attempts_ok_def shrinks_def by metis
  qed (rule q)
qed

definition keeps :: "(string \<rightharpoonup> ceremony) \<Rightarrow> (string \<rightharpoonup> ceremony) \<Rightarrow> bool" where
  "keeps cs cs' \<longleftrightarrow> (\<forall>k c. cs k = Some c \<and> cy_in_flight c \<longrightarrow> cs' k = Some c)"

lemma keeps_trans: "keeps a b \<Longrightarrow> keeps b c \<Longrightarrow> keeps a c"
  by (simp add: keeps_def)

text \<open>A change of the tables that takes away and keeps what is being verified.\<close>
definition table_le :: "'z gatekeeper_scheme \<Rightarrow> 'z gatekeeper_scheme \<Rightarrow> bool" where
  "table_le m m' \<longleftrightarrow> gk_next m' = gk_next m \<and> distinct (map fst (gk_ceremonies m')) \<and> distinct (map fst (gk_attempts m'))
     \<and> shrinks (map_of (gk_ceremonies m)) (map_of (gk_attempts m)) (map_of (gk_ceremonies m')) (map_of (gk_attempts m'))
     \<and> keeps (map_of (gk_ceremonies m)) (map_of (gk_ceremonies m'))
     \<and> manager.truncate m' = manager.truncate m"

lemma table_le_ok: "table_le m m' \<Longrightarrow> tables_ok m \<Longrightarrow> tables_ok m'"
  using shrinks_ok by (auto simp: table_le_def tables_ok_def)

lemma table_le_refl: "tables_ok m \<Longrightarrow> table_le m m"
  by (simp add: table_le_def tables_ok_def keeps_def)

lemma table_le_trans: "table_le a b \<Longrightarrow> table_le b c \<Longrightarrow> table_le a c"
  unfolding table_le_def by (auto intro: shrinks_trans keeps_trans)

lemma truncate_fields:
  assumes "manager.truncate m' = manager.truncate m"
  shows "mg_state m' = mg_state m" "mg_store m' = mg_store m" "mg_runtimes m' = mg_runtimes m"
    "mg_next m' = mg_next m" "mg_cancelled m' = mg_cancelled m"
  using assms by (auto simp: manager.defs)

lemma truncate_inv: "manager.truncate m' = manager.truncate m \<Longrightarrow> mgr_inv m' = mgr_inv m"
  by (rule mgr_inv_cong) (auto dest: truncate_fields)

lemma in_flight_at_iff: "in_flight_at m k \<longleftrightarrow> (\<exists>c. map_of (gk_ceremonies m) k = Some c \<and> cy_in_flight c)"
  by (auto simp: in_flight_at_def split: option.splits)

lemma prune_table_le:
  assumes ok: "tables_ok m"
  shows "table_le m (prune_ceremonies now m)"
    "map_of (gk_attempts (prune_ceremonies now m)) k = Some a \<Longrightarrow> now < at_expires a \<or> in_flight_at (prune_ceremonies now m) k"
    "map_of (gk_ceremonies (prune_ceremonies now m)) k = Some c \<Longrightarrow> now < cy_expires c \<or> cy_in_flight c"
proof -
  let ?m = "prune_ceremonies now m"
  let ?cs = "map_of (gk_ceremonies m)" and ?as = "map_of (gk_attempts m)"
  have d: "distinct (map fst (gk_ceremonies m))" "distinct (map fst (gk_attempts m))" "attempts_ok ?cs ?as"
    using ok by (simp_all add: tables_ok_def)
  have cs: "gk_ceremonies ?m = filter (\<lambda>(_, c). \<not> (\<not> cy_in_flight c \<and> \<not> now < cy_expires c)) (gk_ceremonies m)"
    by (simp add: prune_ceremonies_def Let_def)
  have fl: "in_flight_at ?m = in_flight_at (m\<lparr>gk_ceremonies := filter (\<lambda>(_, c). \<not> (\<not> cy_in_flight c \<and> \<not> now < cy_expires c)) (gk_ceremonies m)\<rparr>)"
    by (simp add: prune_ceremonies_def Let_def in_flight_at_def fun_eq_iff)
  have as: "gk_attempts ?m = filter (\<lambda>(key, a). now < at_expires a \<or> in_flight_at ?m key) (gk_attempts m)"
    unfolding fl by (simp add: prune_ceremonies_def Let_def)
  have C: "map_of (gk_ceremonies ?m) k = Some c \<longleftrightarrow> ?cs k = Some c \<and> (cy_in_flight c \<or> now < cy_expires c)" for k c
    unfolding cs map_of_filter_key [OF d(1)] by (cases "?cs k") auto
  have A: "map_of (gk_attempts ?m) k = Some a \<longleftrightarrow> ?as k = Some a \<and> (now < at_expires a \<or> in_flight_at ?m k)" for k a
    unfolding as map_of_filter_key [OF d(2)] by (cases "?as k") auto
  have stay: "map_of (gk_attempts ?m) k = ?as k" if "map_of (gk_ceremonies ?m) k = Some c" "cy_in_flight c \<or> cy_kind c \<noteq> CeremonyTrust" for k c
  proof (rule option_eqI)
    fix a
    have "?as k = Some a \<Longrightarrow> now < at_expires a \<or> in_flight_at ?m k"
    proof (cases "cy_in_flight c")
      case False
      assume a: "?as k = Some a"
      from that False have "?cs k = Some c" "now < cy_expires c" "cy_kind c \<noteq> CeremonyTrust" by (auto simp: C)
      with d(3) a show ?thesis unfolding attempts_ok_def by (metis option.inject)
    qed (use that in \<open>auto simp: in_flight_at_iff\<close>)
    then show "map_of (gk_attempts ?m) k = Some a \<longleftrightarrow> ?as k = Some a" by (auto simp: A)
  qed
  show "table_le m ?m"
    unfolding table_le_def shrinks_def keeps_def map_le_def
  proof (intro conjI)
    show "distinct (map fst (gk_ceremonies ?m))" "distinct (map fst (gk_attempts ?m))"
      unfolding cs as using d by (simp_all add: distinct_map_filter)
    show "gk_next ?m = gk_next m" "manager.truncate ?m = manager.truncate m"
      by (simp_all add: prune_ceremonies_def Let_def manager.defs)
  qed (use stay in \<open>auto simp: C A\<close>)
  show "map_of (gk_attempts ?m) k = Some a \<Longrightarrow> now < at_expires a \<or> in_flight_at ?m k" by (simp add: A)
  show "map_of (gk_ceremonies ?m) k = Some c \<Longrightarrow> now < cy_expires c \<or> cy_in_flight c" by (auto simp: C)
qed

lemma evict_table_le:
  assumes ok: "tables_ok m" and k: "oldest_sign_in m \<noteq> []"
  shows "table_le m (snd (evict_oldest_sign_in m))"
proof -
  let ?k = "oldest_sign_in m" and ?m = "snd (evict_oldest_sign_in m)"
  have m: "gk_ceremonies ?m = AList.delete ?k (gk_ceremonies m)" "gk_attempts ?m = AList.delete ?k (gk_attempts m)"
    "gk_next ?m = gk_next m" "manager.truncate ?m = manager.truncate m"
    using k by (simp_all add: evict_oldest_sign_in_def Let_def manager.defs)
  have "\<not> (\<exists>c. map_of (gk_ceremonies m) ?k = Some c \<and> cy_in_flight c)"
    using oldest_sign_in_key(3) [OF k] by (simp add: in_flight_at_iff)
  then show ?thesis
    using ok unfolding table_le_def m
    by (auto simp: tables_ok_def shrinks_def keeps_def map_le_def delete_conv' distinct_delete)
qed

lemma of_kind_unique: "of_kind k key \<Longrightarrow> of_kind k' key \<Longrightarrow> k = k'"
  by (cases k; cases k') (auto simp: of_kind_def has_prefix_iff)

lemma ceremony_room_table_le:
  assumes "ceremony_room kind has_c has_a m = (r, m')" "tables_ok m"
  shows "table_le m m' \<and> (r \<longrightarrow> (\<not> has_c \<longrightarrow> pool_card (map_of (gk_ceremonies m')) kind < pool_limit kind)
     \<and> (\<not> has_a \<longrightarrow> pool_card (map_of (gk_attempts m')) kind < pool_limit kind))"
  using assms
proof (induction kind has_c has_a m rule: ceremony_room.induct)
  case (1 kind has_c has_a m)
  let ?full = "(\<not> has_c \<and> pool_size (gk_ceremonies m) kind \<ge> pool_limit kind)
         \<or> (\<not> has_a \<and> pool_size (gk_attempts m) kind \<ge> pool_limit kind)"
  have d: "distinct (map fst (gk_ceremonies m))" "distinct (map fst (gk_attempts m))"
    using 1(3) by (simp_all add: tables_ok_def)
  show ?case
  proof (cases "?full \<and> kind = CeremonySignIn \<and> oldest_sign_in m \<noteq> []")
    case True
    then have e: "ceremony_room kind has_c has_a (snd (evict_oldest_sign_in m)) = (r, m')"
      using 1(2) by (subst (asm) ceremony_room.simps) (auto split: if_splits)
    from True have le: "table_le m (snd (evict_oldest_sign_in m))" by (intro evict_table_le [OF 1(3)]) simp
    have "table_le (snd (evict_oldest_sign_in m)) m' \<and> (r \<longrightarrow>
        (\<not> has_c \<longrightarrow> pool_card (map_of (gk_ceremonies m')) kind < pool_limit kind)
        \<and> (\<not> has_a \<longrightarrow> pool_card (map_of (gk_attempts m')) kind < pool_limit kind))"
    proof (rule 1(1) [OF _ _ _ e table_le_ok [OF le 1(3)]])
      show ?full "\<not> kind \<noteq> CeremonySignIn" "oldest_sign_in m \<noteq> []" using True by blast+
    qed
    then show ?thesis using table_le_trans [OF le] by blast
  next
    case False
    then have "m' = m \<and> (r \<longrightarrow> \<not> ?full)"
      using 1(2) by (subst (asm) ceremony_room.simps) (auto split: if_splits)
    then show ?thesis
      using table_le_refl [OF 1(3)] by (auto simp: pool_size_card [OF d(1)] pool_size_card [OF d(2)])
  qed
qed

section \<open>Beginning, starting and resolving\<close>

lemma insert_ok:
  assumes c: "ceremonies_ok cs n" and a: "attempts_ok cs as"
    and new: "cy_key c = k" "of_kind (cy_kind c) k" "cy_id c = n" "\<not> cy_in_flight c"
    and idle: "\<And>x. cs k = Some x \<Longrightarrow> \<not> cy_in_flight x"
    and room: "cs k = None \<Longrightarrow> pool_card cs (cy_kind c) < pool_limit (cy_kind c)"
    and trust: "\<And>k' x. cy_kind c = CeremonyTrust \<Longrightarrow> cs k' = Some x \<Longrightarrow> cy_kind x = CeremonyTrust \<Longrightarrow> cy_client x = cy_client c \<Longrightarrow> k' = k"
    and as': "as' = as \<and> (cy_kind c \<noteq> CeremonyTrust \<longrightarrow> (\<exists>a. as k = Some a \<and> at_expires a = cy_expires c))
      \<or> as' = as(k \<mapsto> a0) \<and> at_count a0 = 0 \<and> at_expires a0 = cy_expires c
        \<and> (cy_kind c \<noteq> CeremonyTrust \<and> as k = None \<longrightarrow> pool_card as (cy_kind c) < pool_limit (cy_kind c))"
  shows "ceremonies_ok (cs(k \<mapsto> c)) (Suc n) \<and> attempts_ok (cs(k \<mapsto> c)) as'"
proof
  have fin: "finite (dom cs)" "finite (dom as)" using c a by (simp_all add: ceremonies_ok_def attempts_ok_def)
  have kind: "of_kind kind k \<longleftrightarrow> kind = cy_kind c" for kind using of_kind_unique [OF new(2)] new(2) by blast
  have pool: "pool_card (cs(k \<mapsto> c)) kind \<le> pool_limit kind" for kind
    unfolding pool_card_insert [OF fin(1)] kind using room c by (auto simp: ceremonies_ok_def intro: Suc_leI)
  have base: "\<And>k x. cs k = Some x \<Longrightarrow> cy_key x = k \<and> of_kind (cy_kind x) k \<and> cy_id x < n"
    "\<And>k x k' x'. cs k = Some x \<Longrightarrow> cs k' = Some x' \<Longrightarrow> cy_id x = cy_id x' \<Longrightarrow> k = k'"
    "\<And>k x k' x'. cs k = Some x \<Longrightarrow> cs k' = Some x' \<Longrightarrow> cy_kind x = CeremonyTrust \<Longrightarrow> cy_kind x' = CeremonyTrust
       \<Longrightarrow> cy_client x = cy_client x' \<Longrightarrow> k = k'"
    using c unfolding ceremonies_ok_def by blast+
  show "ceremonies_ok (cs(k \<mapsto> c)) (Suc n)"
    unfolding ceremonies_ok_def
  proof (intro conjI allI impI)
    show "finite (dom (cs(k \<mapsto> c)))" using fin by simp
    show "pool_card (cs(k \<mapsto> c)) kind \<le> pool_limit kind" for kind by (rule pool)
    show "cy_key x = k'" "of_kind (cy_kind x) k'" "cy_id x < Suc n" if "(cs(k \<mapsto> c)) k' = Some x" for k' x
      using base(1) [of k' x] new that by (auto split: if_splits)
    show "k1 = k2" if "(cs(k \<mapsto> c)) k1 = Some c1 \<and> (cs(k \<mapsto> c)) k2 = Some c2 \<and> cy_id c1 = cy_id c2" for k1 c1 k2 c2
      using that base(1) [of k1 c1] base(1) [of k2 c2] base(2) [of k1 c1 k2 c2] new(3) by (auto split: if_splits)
    show "k1 = k2" if "(cs(k \<mapsto> c)) k1 = Some c1 \<and> (cs(k \<mapsto> c)) k2 = Some c2 \<and> cy_kind c1 = CeremonyTrust
        \<and> cy_kind c2 = CeremonyTrust \<and> cy_client c1 = cy_client c2" for k1 c1 k2 c2
    proof -
      from that have h: "k1 = k \<and> c1 = c \<or> cs k1 = Some c1" "k2 = k \<and> c2 = c \<or> cs k2 = Some c2"
        "cy_kind c1 = CeremonyTrust" "cy_kind c2 = CeremonyTrust" "cy_client c1 = cy_client c2"
        by (auto split: if_splits)
      from h(1,2) show ?thesis
        by (elim disjE conjE) (use h(3-5) base(3) trust in metis)+
    qed
  qed
  have old: "\<And>k x. as k = Some x \<Longrightarrow> at_count x \<le> max_attempts"
    "\<And>k x. cs k = Some x \<Longrightarrow> cy_in_flight x \<Longrightarrow> \<exists>a. as k = Some a \<and> 0 < at_count a"
    "\<And>k x. cs k = Some x \<Longrightarrow> cy_kind x \<noteq> CeremonyTrust \<Longrightarrow> \<exists>a. as k = Some a \<and> at_expires a = cy_expires x"
    "\<And>kind. kind \<noteq> CeremonyTrust \<Longrightarrow> pool_card as kind \<le> pool_limit kind"
    using a unfolding attempts_ok_def by blast+
  show "attempts_ok (cs(k \<mapsto> c)) as'"
    unfolding attempts_ok_def
  proof (intro conjI allI impI)
    show "finite (dom as')" using as' fin by auto
    show "at_count a \<le> max_attempts" if "as' k' = Some a" for k' a
      using as' old(1) [of k' a] that by (auto split: if_splits)
    show "\<exists>a. as' k' = Some a \<and> 0 < at_count a" if x: "(cs(k \<mapsto> c)) k' = Some x \<and> cy_in_flight x" for k' x
    proof -
      from x new(4) have k': "k' \<noteq> k" "cs k' = Some x" by (auto split: if_splits)
      from old(2) [OF k'(2)] x as' k'(1) show ?thesis by auto
    qed
    show "\<exists>a. as' k' = Some a \<and> at_expires a = cy_expires x"
      if x: "(cs(k \<mapsto> c)) k' = Some x \<and> cy_kind x \<noteq> CeremonyTrust" for k' x
    proof (cases "k' = k")
      case True
      with x as' show ?thesis by auto
    next
      case False
      with x have "cs k' = Some x" by simp
      from old(3) [OF this] x as' False show ?thesis by auto
    qed
    show "pool_card as' kind \<le> pool_limit kind" if "kind \<noteq> CeremonyTrust" for kind
      using as' old(4) [OF that] that by (auto simp: pool_card_insert [OF fin(2)] kind split: if_splits)
  qed
qed

lemma room_for_key:
  assumes r: "make_ceremony_room kind key m = (True, m')" and ok: "tables_ok m" and k: "of_kind kind key"
  shows "table_le m m'"
    "map_of (gk_ceremonies m') key = None \<Longrightarrow> pool_card (map_of (gk_ceremonies m')) kind < pool_limit kind"
    "kind \<noteq> CeremonyTrust \<Longrightarrow> map_of (gk_attempts m') key = None \<Longrightarrow> pool_card (map_of (gk_attempts m')) kind < pool_limit kind"
proof -
  let ?cs = "map_of (gk_ceremonies m)" and ?as = "map_of (gk_attempts m)"
  let ?cs' = "map_of (gk_ceremonies m')" and ?as' = "map_of (gk_attempts m')"
  from ceremony_room_table_le [OF r [unfolded make_ceremony_room_def] ok] have
    le: "table_le m m'" and c: "?cs key = None \<Longrightarrow> pool_card ?cs' kind < pool_limit kind"
    and a: "?as key = None \<Longrightarrow> pool_card ?as' kind < pool_limit kind" by simp_all
  show "table_le m m'" by (rule le)
  have sub: "dom ?cs' \<subseteq> dom ?cs" "dom ?as' \<subseteq> dom ?as"
    using le by (auto simp: table_le_def shrinks_def dest: map_le_implies_dom_le)
  have lim: "pool_card ?cs kind \<le> pool_limit kind" "kind \<noteq> CeremonyTrust \<Longrightarrow> pool_card ?as kind \<le> pool_limit kind"
    using ok by (simp_all add: tables_ok_def ceremonies_ok_def attempts_ok_def)
  show "pool_card ?cs' kind < pool_limit kind" if "?cs' key = None"
    using c pool_card_less [OF _ sub(1) _ that k] lim(1) by (cases "?cs key") (auto simp: finite_dom_map_of)
  show "pool_card ?as' kind < pool_limit kind" if "kind \<noteq> CeremonyTrust" "?as' key = None"
    using a pool_card_less [OF _ sub(2) _ that(2) k] lim(2) [OF that(1)] by (cases "?as key") (auto simp: finite_dom_map_of)
qed

lemma room_false: "make_ceremony_room kind key m = (False, m') \<Longrightarrow> tables_ok m \<Longrightarrow> table_le m m'"
  unfolding make_ceremony_room_def by (drule (1) ceremony_room_table_le) blast

lemma of_kind_key [simp]: "of_kind kind (ceremony_key kind s)"
  by (auto simp: of_kind_def ceremony_key_def has_prefix_iff)

text \<open>What a step of one request does to the ceremonies that others are verifying: nothing.\<close>
lemma is_current_iff:
  "is_current m c \<longleftrightarrow> (\<exists>x. map_of (gk_ceremonies m) (cy_key c) = Some x \<and> cy_id x = cy_id c \<and> cy_in_flight x)"
  by (auto simp: is_current_def split: option.splits)

definition undisturbed :: "'z gatekeeper_scheme \<Rightarrow> 'z gatekeeper_scheme \<Rightarrow> bool" where
  "undisturbed m m' \<longleftrightarrow> (\<forall>k x. cy_in_flight x \<longrightarrow>
     (map_of (gk_ceremonies m) k = Some x \<longleftrightarrow> map_of (gk_ceremonies m') k = Some x))"

lemma undisturbed_current: "undisturbed m m' \<Longrightarrow> is_current m c \<longleftrightarrow> is_current m' c"
  unfolding undisturbed_def is_current_iff by blast

lemma table_le_undisturbed: "table_le m m' \<Longrightarrow> undisturbed m m'"
  unfolding table_le_def undisturbed_def shrinks_def keeps_def by (meson map_le_SomeD)

lemma undisturbed_trans: "undisturbed a b \<Longrightarrow> undisturbed b c \<Longrightarrow> undisturbed a c"
  unfolding undisturbed_def by simp

lemma undisturbed_refl [simp]: "undisturbed m m"
  by (simp add: undisturbed_def)

text \<open>Entering a ceremony under a key that no verification holds and that has room.\<close>
lemma put_ceremony_ok:
  assumes ok: "tables_ok m" and c: "of_kind (cy_kind c) (cy_key c)" "cy_id c = gk_next m" "\<not> cy_in_flight c"
    and idle: "\<not> in_flight_at m (cy_key c)"
    and room: "map_of (gk_ceremonies m) (cy_key c) = None \<Longrightarrow> pool_card (map_of (gk_ceremonies m)) (cy_kind c) < pool_limit (cy_kind c)"
    and aroom: "cy_kind c \<noteq> CeremonyTrust \<Longrightarrow> map_of (gk_attempts m) (cy_key c) = None \<Longrightarrow>
      pool_card (map_of (gk_attempts m)) (cy_kind c) < pool_limit (cy_kind c)"
    and live: "cy_kind c \<noteq> CeremonyTrust \<Longrightarrow> attempts_live m (cy_key c) now \<Longrightarrow> cy_expires c = at_expires (attempts_of m (cy_key c))"
    and trust: "\<And>k x. cy_kind c = CeremonyTrust \<Longrightarrow> map_of (gk_ceremonies m) k = Some x \<Longrightarrow> trust_of_client (cy_client c) x \<Longrightarrow> k = cy_key c"
  shows "tables_ok (put_ceremony now c m) \<and> undisturbed m (put_ceremony now c m)
    \<and> manager.truncate (put_ceremony now c m) = manager.truncate m"
proof -
  let ?cs = "map_of (gk_ceremonies m)" and ?as = "map_of (gk_attempts m)" and ?k = "cy_key c"
  let ?a = "\<lparr>at_count = 0, at_expires = cy_expires c\<rparr>"
  let ?as' = "if attempts_live m ?k now then ?as else ?as(?k \<mapsto> ?a)"
  have i: "\<And>x. ?cs ?k = Some x \<Longrightarrow> \<not> cy_in_flight x" using idle by (auto simp: in_flight_at_iff)
  have ins: "ceremonies_ok (?cs(?k \<mapsto> c)) (Suc (gk_next m)) \<and> attempts_ok (?cs(?k \<mapsto> c)) ?as'"
  proof (rule insert_ok [OF _ _ refl c(1) c(2) c(3) i])
    show "ceremonies_ok ?cs (gk_next m)" "attempts_ok ?cs ?as" using ok by (simp_all add: tables_ok_def)
    show "k' = ?k" if "cy_kind c = CeremonyTrust" "?cs k' = Some x" "cy_kind x = CeremonyTrust" "cy_client x = cy_client c" for k' x
      using trust [OF that(1,2)] that by (simp add: trust_of_client_def)
    show "?as' = ?as \<and> (cy_kind c \<noteq> CeremonyTrust \<longrightarrow> (\<exists>a. ?as ?k = Some a \<and> at_expires a = cy_expires c))
      \<or> ?as' = ?as(?k \<mapsto> ?a) \<and> at_count ?a = 0 \<and> at_expires ?a = cy_expires c
        \<and> (cy_kind c \<noteq> CeremonyTrust \<and> ?as ?k = None \<longrightarrow> pool_card ?as (cy_kind c) < pool_limit (cy_kind c))"
      using live aroom by (auto simp: attempts_live_def attempts_of_def split: option.splits)
  qed (use room in auto)
  have fl: "\<forall>k x. cy_in_flight x \<longrightarrow> (?cs k = Some x \<longleftrightarrow> (?cs(?k \<mapsto> c)) k = Some x)" using i c(3) by auto
  show ?thesis
  proof -
    have "map_of (gk_ceremonies (put_ceremony now c m)) = ?cs(?k \<mapsto> c)" "map_of (gk_attempts (put_ceremony now c m)) = ?as'"
      "gk_next (put_ceremony now c m) = Suc (gk_next m)" "manager.truncate (put_ceremony now c m) = manager.truncate m"
      by (simp_all add: put_ceremony_def update_conv' manager.defs)
    moreover have "distinct (map fst (gk_ceremonies (put_ceremony now c m)))" "distinct (map fst (gk_attempts (put_ceremony now c m)))"
      using ok by (simp_all add: put_ceremony_def tables_ok_def distinct_update)
    ultimately show ?thesis using ins fl unfolding tables_ok_def undisturbed_def by (simp only: simp_thms)
  qed
qed

lemma begin_assertion_at_ok:
  assumes b: "begin_assertion_at now wa kind key client digest m = (r, m')" and ok: "tables_ok m"
    and k: "of_kind kind key" "kind \<noteq> CeremonyTrust"
  shows "tables_ok m' \<and> undisturbed m m' \<and> manager.truncate m' = manager.truncate m"
proof -
  have le: "tables_ok m' \<and> undisturbed m m' \<and> manager.truncate m' = manager.truncate m" if "table_le m m'"
    using that table_le_ok [OF that ok] table_le_undisturbed [OF that] by (simp add: table_le_def)
  obtain b m2 where r: "make_ceremony_room kind key m = (b, m2)" by (meson surj_pair)
  show ?thesis
  proof (cases "b \<and> \<not> in_flight_at m key \<and> \<not> (at_count (attempts_of m key) \<ge> max_attempts \<and> now < at_expires (attempts_of m key))")
    case False
    then have "m' = m \<or> m' = m2 \<and> \<not> b"
      using assms(1) r by (auto simp: begin_assertion_at_def split: if_splits)
    moreover have "\<not> b \<Longrightarrow> table_le m m2" using room_false [of kind key m m2] ok r by simp
    ultimately show ?thesis using le table_le_refl [OF ok] by blast
  next
    case True
    note rk = room_for_key [OF r [unfolded conjunct1 [OF True, THEN eqTrueI]] ok k(1)]
    note ok2 = table_le_ok [OF rk(1) ok]
    have idle: "\<not> in_flight_at m2 key"
      using rk(1) True by (auto simp: table_le_def shrinks_def in_flight_at_iff dest: map_le_SomeD)
    show ?thesis
    proof (cases wa)
      case None
      then have "m' = m2" using assms(1) r True by (auto simp: begin_assertion_at_def)
      then show ?thesis using le rk(1) by simp
    next
      case (Some session)
      let ?c = "\<lparr>cy_id = gk_next m2, cy_kind = kind, cy_key = key, cy_client = digest,
          cy_expires = (if attempts_live m2 key now then at_expires (attempts_of m2 key) else now + reservation_lifetime),
          cy_session = session, cy_invitation = [], cy_label = [], cy_in_flight = False\<rparr>"
      have m': "m' = put_ceremony now ?c m2"
        using assms(1) r True Some by (auto simp: begin_assertion_at_def Let_def)
      have "tables_ok m' \<and> undisturbed m2 m' \<and> manager.truncate m' = manager.truncate m2"
        unfolding m' by (rule put_ceremony_ok [OF ok2]) (use k idle rk in auto)
      then show ?thesis
        using rk(1) undisturbed_trans [OF table_le_undisturbed [OF rk(1)]] by (simp add: table_le_def)
    qed
  qed
qed

lemma begin_assertion_ok:
  assumes "begin_assertion env wa kind tok cur m = (r, m')" and ok: "tables_ok m" and k: "kind \<noteq> CeremonyTrust"
  shows "tables_ok m' \<and> undisturbed m m' \<and> manager.truncate m' = manager.truncate m"
proof (cases "m' = m")
  case True
  then show ?thesis using ok by simp
next
  case False
  with assms(1) obtain key client digest where
    b: "begin_assertion_at (me_now env) wa kind key client digest (prune_ceremonies (me_now env) m) = (r, m')" "of_kind kind key"
    by (auto simp: begin_assertion_def Let_def split: sum.splits prod.splits if_splits)
  note le = prune_table_le(1) [OF ok, of "me_now env"]
  from begin_assertion_at_ok [OF b(1) table_le_ok [OF le ok] b(2) k]
  show ?thesis using undisturbed_trans [OF table_le_undisturbed [OF le]] le by (simp add: table_le_def)
qed

lemma reserve_trust_ok:
  assumes "reserve_trust env digest client i m = (r, m')"
  shows "manager.more m' = manager.more m" "mgr_inv m \<Longrightarrow> mgr_inv m'" "sessions (mg_state m') = sessions (mg_state m)"
proof -
  let ?st = "set_invitation digest (me_now env) (reserve_invitation client (me_now env) i) (mg_state m)"
  have s: "sessions ?st = sessions (mg_state m)" by (simp add: set_invitation_def)
  from assms obtain q where c: "commit_locked env ?st m = (q, m')"
    by (auto simp: reserve_trust_def Let_def split: sum.splits prod.splits)
  show "manager.more m' = manager.more m" by (rule commit_locked_more [OF c])
  show "sessions (mg_state m') = sessions (mg_state m)" using commit_state_cases [OF c] s by auto
  show "mgr_inv m'" if "mgr_inv m"
    using commit_same_sessions_inv [of env ?st m _ m'] commit_error_inv [of env ?st m _ m'] c that s by (cases q) auto
qed

lemma more_tables:
  "manager.more m' = manager.more m \<Longrightarrow> tables_ok m' = tables_ok m \<and> undisturbed m m'
     \<and> in_flight_at m' = in_flight_at m \<and> attempts_of m' = attempts_of m"
  using more_gk [of m' m] by (simp add: tables_ok_def undisturbed_def in_flight_at_def attempts_of_def fun_eq_iff)

lemma drop_other_trusts_le:
  assumes ok: "tables_ok m"
    and idle: "\<forall>k c. map_of (gk_ceremonies m) k = Some c \<and> trust_of_client client c \<longrightarrow> \<not> cy_in_flight c"
  shows "table_le m (drop_other_trusts client key m)"
    "map_of (gk_ceremonies (drop_other_trusts client key m)) k = Some c \<Longrightarrow> trust_of_client client c \<Longrightarrow> k = key"
    "map_of (gk_ceremonies (drop_other_trusts client key m)) key = map_of (gk_ceremonies m) key"
proof -
  let ?m = "drop_other_trusts client key m"
  have d: "distinct (map fst (gk_ceremonies m))" "distinct (map fst (gk_attempts m))" using ok by (simp_all add: tables_ok_def)
  have m: "gk_ceremonies ?m = filter (\<lambda>(k, c). \<not> (trust_of_client client c \<and> k \<noteq> key)) (gk_ceremonies m)"
    "gk_attempts ?m = gk_attempts m" "gk_next ?m = gk_next m" "manager.truncate ?m = manager.truncate m"
    by (simp_all add: drop_other_trusts_def manager.defs)
  have C: "map_of (gk_ceremonies ?m) k = Some c \<longleftrightarrow> map_of (gk_ceremonies m) k = Some c \<and> \<not> (trust_of_client client c \<and> k \<noteq> key)" for k c
    unfolding m map_of_filter_key [OF d(1)] by (cases "map_of (gk_ceremonies m) k") auto
  show "map_of (gk_ceremonies ?m) k = Some c \<Longrightarrow> trust_of_client client c \<Longrightarrow> k = key" by (simp add: C)
  show "map_of (gk_ceremonies ?m) key = map_of (gk_ceremonies m) key" by (rule option_eqI) (simp add: C)
  have "distinct (map fst (gk_ceremonies ?m))" using d(1) by (simp add: m distinct_map_filter)
  then show "table_le m ?m"
    using d(2) idle unfolding table_le_def shrinks_def keeps_def map_le_def
    by (auto simp: m(2-4) C)
qed

lemma begin_trust_at_ok:
  assumes b: "begin_trust_at env wa key client digest dg label m = (r, m')" and ok: "tables_ok m"
    and k: "of_kind CeremonyTrust key" and inv: "mgr_inv m"
  shows "tables_ok m' \<and> undisturbed m m' \<and> mgr_inv m' \<and> sessions (mg_state m') = sessions (mg_state m)"
proof -
  let ?now = "me_now env"
  have le: "tables_ok x \<and> undisturbed m x \<and> mgr_inv x \<and> sessions (mg_state x) = sessions (mg_state m)" if "table_le m x" for x
    using that table_le_ok [OF that ok] table_le_undisturbed [OF that] inv truncate_inv [of x m] truncate_fields(1) [of x m]
    by (simp add: table_le_def)
  obtain b m2 where rm: "make_ceremony_room CeremonyTrust key m = (b, m2)" by (meson surj_pair)
  let ?busy = "list_ex (\<lambda>(_, c). trust_of_client digest c \<and> cy_in_flight c) (gk_ceremonies m) \<or> in_flight_at m key"
  show ?thesis
  proof (cases "?busy \<or> usable_invitation (mg_state m) dg digest ?now = None \<or> \<not> b \<or>
      (at_count (attempts_of m key) \<ge> max_attempts \<and> ?now < at_expires (attempts_of m key))")
    case True
    then have "m' = m \<or> m' = m2 \<and> \<not> b"
      using b rm by (auto simp: begin_trust_at_def Let_def split: if_splits option.splits)
    moreover have "\<not> b \<Longrightarrow> table_le m m2" using room_false [of CeremonyTrust key m m2] ok rm by simp
    ultimately show ?thesis using le table_le_refl [OF ok] by blast
  next
    case nf: False
    then obtain i where i: "usable_invitation (mg_state m) dg digest ?now = Some i" and nb: "\<not> ?busy" "b" by auto
    note rk = room_for_key [OF rm [unfolded nb(2) [THEN eqTrueI]] ok k]
    note ok2 = table_le_ok [OF rk(1) ok] and le2 = le [OF rk(1)]
    obtain q m3 where rs: "reserve_trust env dg digest i m2 = (q, m3)" by (meson surj_pair)
    note r3 = reserve_trust_ok [OF rs] and g3 = more_gk [OF reserve_trust_ok(1) [OF rs]]
    have ok3: "tables_ok m3" "undisturbed m m3" "mgr_inv m3" "sessions (mg_state m3) = sessions (mg_state m)"
      using more_tables [OF r3(1)] ok2 le2 r3 undisturbed_trans [of m m2 m3] by auto
    show ?thesis
    proof (cases "\<exists>usr expires session. q = Some (usr, expires) \<and> wa usr = Some session")
      case False
      then have "m' = m3"
        using b rm rs i nb nf
        by (auto simp: begin_trust_at_def Let_def split: option.splits prod.splits)
      then show ?thesis using ok3 by simp
    next
      case True
      then obtain usr expires session where q: "q = Some (usr, expires)" "wa usr = Some session" by blast
      let ?m4 = "drop_other_trusts digest key m3"
      let ?c = "\<lparr>cy_id = gk_next ?m4, cy_kind = CeremonyTrust, cy_key = key, cy_client = digest, cy_expires = expires,
          cy_session = session, cy_invitation = dg, cy_label = label, cy_in_flight = False\<rparr>"
      have m': "m' = put_ceremony ?now ?c ?m4"
        using b rm rs i nb q nf
        by (auto simp: begin_trust_at_def Let_def)
      have sub: "map_of (gk_ceremonies m) k = Some c" if "map_of (gk_ceremonies m3) k = Some c" for k c
        using that rk(1) g3(1) map_le_SomeD by (fastforce simp: table_le_def shrinks_def)
      have idle: "\<forall>k c. map_of (gk_ceremonies m3) k = Some c \<and> trust_of_client digest c \<longrightarrow> \<not> cy_in_flight c"
      proof (intro allI impI)
        fix k c
        assume a: "map_of (gk_ceremonies m3) k = Some c \<and> trust_of_client digest c"
        then have "(k, c) \<in> set (gk_ceremonies m)" using sub map_of_SomeD by fast
        with nb(1) a show "\<not> cy_in_flight c" by (auto simp: list_ex_iff)
      qed
      note d = drop_other_trusts_le [OF ok3(1) idle, of key]
      have "\<not> in_flight_at m key" using nb(1) by simp
      then have "\<not> in_flight_at ?m4 key"
        using sub unfolding in_flight_at_iff d(3) by blast
      moreover have "pool_card (map_of (gk_ceremonies ?m4)) CeremonyTrust < pool_limit CeremonyTrust"
        if "map_of (gk_ceremonies ?m4) key = None"
      proof -
        have "pool_card (map_of (gk_ceremonies ?m4)) CeremonyTrust \<le> pool_card (map_of (gk_ceremonies m3)) CeremonyTrust"
          using d(1) by (intro pool_card_mono) (auto simp: table_le_def shrinks_def finite_dom_map_of dest: map_le_implies_dom_le)
        also have "\<dots> < pool_limit CeremonyTrust" using that rk(2) by (simp add: d(3) g3)
        finally show ?thesis .
      qed
      ultimately have "tables_ok m' \<and> undisturbed ?m4 m' \<and> manager.truncate m' = manager.truncate ?m4"
        unfolding m' by (intro put_ceremony_ok [OF table_le_ok [OF d(1) ok3(1)]]) (use k d(2) in auto)
      moreover have "undisturbed m ?m4" "manager.truncate ?m4 = manager.truncate m3"
        using undisturbed_trans [OF ok3(2) table_le_undisturbed [OF d(1)]] d(1) by (simp_all add: table_le_def)
      ultimately show ?thesis
        using ok3 undisturbed_trans [of m ?m4 m'] truncate_inv [of m' m3] truncate_fields(1) [of m' m3] by auto
    qed
  qed
qed

lemma begin_trust_ok:
  assumes "begin_trust env wa tok inv_tok label m = (r, m')" and ok: "tables_ok m" and inv: "mgr_inv m"
  shows "tables_ok m' \<and> undisturbed m m' \<and> mgr_inv m' \<and> sessions (mg_state m') = sessions (mg_state m)"
proof (cases "m' = m")
  case True
  then show ?thesis using ok inv by simp
next
  case False
  with assms(1) obtain b client digest dg l where
    b: "begin_trust_at env wa (ceremony_key CeremonyTrust dg) client digest dg l (prune_ceremonies (me_now env) m) = (b, m')"
    by (auto simp: begin_trust_def Let_def split: sum.splits prod.splits if_splits option.splits)
  note le = prune_table_le(1) [OF ok, of "me_now env"]
  have p: "mgr_inv (prune_ceremonies (me_now env) m)" "sessions (mg_state (prune_ceremonies (me_now env) m)) = sessions (mg_state m)"
    using le inv truncate_inv [of "prune_ceremonies (me_now env) m" m] truncate_fields(1) [of "prune_ceremonies (me_now env) m" m]
    by (simp_all add: table_le_def)
  from begin_trust_at_ok [OF b table_le_ok [OF le ok] _ p(1)]
  show ?thesis using undisturbed_trans [OF table_le_undisturbed [OF le]] p(2) by simp
qed

lemma find_ceremony_table:
  assumes "find_ceremony kind digest sd m = Some c" "tables_ok m"
  shows "map_of (gk_ceremonies m) (cy_key c) = Some c"
proof -
  have "\<exists>k. map_of (gk_ceremonies m) k = Some c"
  proof (cases kind)
    case CeremonyTrust
    then obtain k where "(k, c) \<in> set (gk_ceremonies m)"
      using assms(1) by (auto simp: find_ceremony_def dest!: find_SomeD)
    then show ?thesis using assms(2) by (auto simp: tables_ok_def)
  qed (use assms(1) in \<open>auto simp: find_ceremony_def\<close>)
  then show ?thesis using assms(2) unfolding tables_ok_def ceremonies_ok_def by metis
qed

text \<open>Marking a ceremony as being verified.\<close>
definition mark_in_flight :: "ceremony \<Rightarrow> ceremony_attempts \<Rightarrow> 'z gatekeeper_scheme \<Rightarrow> 'z gatekeeper_scheme" where
  "mark_in_flight c a m =
     m\<lparr>gk_attempts := AList.update (cy_key c) a (gk_attempts m),
       gk_ceremonies := map (\<lambda>(k, x). (k, if cy_id x = cy_id c then c\<lparr>cy_in_flight := True\<rparr> else x)) (gk_ceremonies m)\<rparr>"

lemma mark_in_flight_tables:
  assumes ok: "tables_ok m" and c: "map_of (gk_ceremonies m) (cy_key c) = Some c"
  shows "map_of (gk_ceremonies (mark_in_flight c a m)) = (map_of (gk_ceremonies m))(cy_key c \<mapsto> c\<lparr>cy_in_flight := True\<rparr>)"
    "map_of (gk_attempts (mark_in_flight c a m)) = (map_of (gk_attempts m))(cy_key c \<mapsto> a)"
    "distinct (map fst (gk_ceremonies (mark_in_flight c a m)))" "distinct (map fst (gk_attempts (mark_in_flight c a m)))"
proof -
  let ?f = "\<lambda>x. if cy_id x = cy_id c then c\<lparr>cy_in_flight := True\<rparr> else x"
  have uniq: "k = cy_key c" if "map_of (gk_ceremonies m) k = Some x" "cy_id x = cy_id c" for k x
  proof -
    have "ceremonies_ok (map_of (gk_ceremonies m)) (gk_next m)" using ok by (simp add: tables_ok_def)
    then show ?thesis using that c unfolding ceremonies_ok_def by blast
  qed
  have "map_of (gk_ceremonies (mark_in_flight c a m)) k = ((map_of (gk_ceremonies m))(cy_key c \<mapsto> c\<lparr>cy_in_flight := True\<rparr>)) k" for k
  proof (cases "map_of (gk_ceremonies m) k")
    case None
    then have "k \<noteq> cy_key c" using c by auto
    with None show ?thesis by (simp add: mark_in_flight_def map_of_map)
  next
    case (Some x)
    then have "map_of (gk_ceremonies (mark_in_flight c a m)) k = Some (?f x)" by (simp add: mark_in_flight_def map_of_map)
    then show ?thesis using uniq [OF Some] c Some by (cases "k = cy_key c") auto
  qed
  then show "map_of (gk_ceremonies (mark_in_flight c a m)) = (map_of (gk_ceremonies m))(cy_key c \<mapsto> c\<lparr>cy_in_flight := True\<rparr>)"
    by (rule ext)
  have "map fst (gk_ceremonies (mark_in_flight c a m)) = map fst (gk_ceremonies m)"
    by (simp add: mark_in_flight_def case_prod_unfold comp_def)
  then show "distinct (map fst (gk_ceremonies (mark_in_flight c a m)))" using ok by (simp add: tables_ok_def)
  show "distinct (map fst (gk_attempts (mark_in_flight c a m)))"
    "map_of (gk_attempts (mark_in_flight c a m)) = (map_of (gk_attempts m))(cy_key c \<mapsto> a)"
    using ok by (simp_all add: mark_in_flight_def tables_ok_def distinct_update update_conv')
qed

lemma mark_in_flight_ok:
  assumes ok: "tables_ok m" and c: "map_of (gk_ceremonies m) (cy_key c) = Some c" "\<not> cy_in_flight c"
    and a: "0 < at_count a" "at_count a \<le> max_attempts"
    and ex: "cy_kind c \<noteq> CeremonyTrust \<Longrightarrow> at_expires a = cy_expires c"
  shows "tables_ok (mark_in_flight c a m)
    \<and> (\<forall>k x. cy_in_flight x \<longrightarrow> map_of (gk_ceremonies (mark_in_flight c a m)) k = Some x \<longleftrightarrow>
         map_of (gk_ceremonies m) k = Some x \<or> k = cy_key c \<and> x = c\<lparr>cy_in_flight := True\<rparr>)
    \<and> is_current (mark_in_flight c a m) (c\<lparr>cy_in_flight := True\<rparr>)
    \<and> manager.truncate (mark_in_flight c a m) = manager.truncate m"
proof -
  let ?cs = "map_of (gk_ceremonies m)" and ?as = "map_of (gk_attempts m)" and ?c = "c\<lparr>cy_in_flight := True\<rparr>"
  note t = mark_in_flight_tables [OF ok c(1), of a]
  have o: "ceremonies_ok ?cs (gk_next m)" "attempts_ok ?cs ?as" using ok by (simp_all add: tables_ok_def)
  have base: "finite (dom ?cs)" "\<And>k x. ?cs k = Some x \<Longrightarrow> cy_key x = k \<and> of_kind (cy_kind x) k \<and> cy_id x < gk_next m"
    "\<And>k x k' x'. ?cs k = Some x \<Longrightarrow> ?cs k' = Some x' \<Longrightarrow> cy_id x = cy_id x' \<Longrightarrow> k = k'"
    "\<And>k x k' x'. ?cs k = Some x \<Longrightarrow> ?cs k' = Some x' \<Longrightarrow> cy_kind x = CeremonyTrust \<Longrightarrow> cy_kind x' = CeremonyTrust
       \<Longrightarrow> cy_client x = cy_client x' \<Longrightarrow> k = k'"
    "\<And>kind. pool_card ?cs kind \<le> pool_limit kind"
    using o(1) unfolding ceremonies_ok_def by blast+
  have view: "\<exists>y. ?cs k = Some y \<and> cy_id y = cy_id x \<and> cy_key y = cy_key x \<and> cy_kind y = cy_kind x \<and> cy_client y = cy_client x"
    if "(?cs(cy_key c \<mapsto> ?c)) k = Some x" for k x
    using that c(1) by (auto split: if_splits)
  have cs: "ceremonies_ok (?cs(cy_key c \<mapsto> ?c)) (gk_next m)"
    unfolding ceremonies_ok_def
  proof (intro conjI allI impI)
    show "finite (dom (?cs(cy_key c \<mapsto> ?c)))" using base(1) by simp
    show "cy_key x = k" "of_kind (cy_kind x) k" "cy_id x < gk_next m" if "(?cs(cy_key c \<mapsto> ?c)) k = Some x" for k x
      using view [OF that] base(2) [of k] by auto
    show "k = k'" if "(?cs(cy_key c \<mapsto> ?c)) k = Some x \<and> (?cs(cy_key c \<mapsto> ?c)) k' = Some x' \<and> cy_id x = cy_id x'" for k x k' x'
      using view [of k x] view [of k' x'] that base(3) by metis
    show "k = k'" if "(?cs(cy_key c \<mapsto> ?c)) k = Some x \<and> (?cs(cy_key c \<mapsto> ?c)) k' = Some x' \<and> cy_kind x = CeremonyTrust
        \<and> cy_kind x' = CeremonyTrust \<and> cy_client x = cy_client x'" for k x k' x'
      using view [of k x] view [of k' x'] that base(4) by metis
    show "pool_card (?cs(cy_key c \<mapsto> ?c)) kind \<le> pool_limit kind" for kind
      using base(5) c(1) by (simp add: pool_card_insert [OF base(1)])
  qed
  have old: "\<And>k x. ?as k = Some x \<Longrightarrow> at_count x \<le> max_attempts"
    "\<And>k x. ?cs k = Some x \<Longrightarrow> cy_in_flight x \<Longrightarrow> \<exists>a. ?as k = Some a \<and> 0 < at_count a"
    "\<And>k x. ?cs k = Some x \<Longrightarrow> cy_kind x \<noteq> CeremonyTrust \<Longrightarrow> \<exists>a. ?as k = Some a \<and> at_expires a = cy_expires x"
    "\<And>kind. kind \<noteq> CeremonyTrust \<Longrightarrow> pool_card ?as kind \<le> pool_limit kind" "finite (dom ?as)"
    using o(2) unfolding attempts_ok_def by blast+
  have as: "attempts_ok (?cs(cy_key c \<mapsto> ?c)) (?as(cy_key c \<mapsto> a))"
    unfolding attempts_ok_def
  proof (intro conjI allI impI)
    show "finite (dom (?as(cy_key c \<mapsto> a)))" using old(5) by simp
    show "at_count x \<le> max_attempts" if "(?as(cy_key c \<mapsto> a)) k = Some x" for k x
      using that a old(1) by (auto split: if_splits)
    show "\<exists>y. (?as(cy_key c \<mapsto> a)) k = Some y \<and> 0 < at_count y" if "(?cs(cy_key c \<mapsto> ?c)) k = Some x \<and> cy_in_flight x" for k x
      using that a old(2) [of k x] by (auto split: if_splits)
    show "\<exists>y. (?as(cy_key c \<mapsto> a)) k = Some y \<and> at_expires y = cy_expires x"
      if "(?cs(cy_key c \<mapsto> ?c)) k = Some x \<and> cy_kind x \<noteq> CeremonyTrust" for k x
      using that ex old(3) [of k x] by (auto split: if_splits)
    show "pool_card (?as(cy_key c \<mapsto> a)) kind \<le> pool_limit kind" if k: "kind \<noteq> CeremonyTrust" for kind
    proof (cases "of_kind kind (cy_key c)")
      case True
      then have "cy_kind c = kind" using base(2) [OF c(1)] of_kind_unique by blast
      then have "?as (cy_key c) \<noteq> None" using old(3) [OF c(1)] k by auto
      then show ?thesis using old(4) [OF k] by (auto simp: pool_card_insert [OF old(5)])
    next
      case False
      then show ?thesis using old(4) [OF k] by (simp add: pool_card_insert [OF old(5)])
    qed
  qed
  have n: "gk_next (mark_in_flight c a m) = gk_next m" "manager.truncate (mark_in_flight c a m) = manager.truncate m"
    by (simp_all add: mark_in_flight_def manager.defs)
  have "\<forall>k x. cy_in_flight x \<longrightarrow> (?cs(cy_key c \<mapsto> ?c)) k = Some x \<longleftrightarrow> ?cs k = Some x \<or> k = cy_key c \<and> x = ?c"
    using c by auto
  then show ?thesis
    using cs as by (simp add: tables_ok_def n is_current_iff t)
qed

text \<open>What a request that starts a verification does: the ceremony it gets was idle, is being verified now,
  and nobody else's is touched.\<close>
lemma start_verification_ok:
  assumes s: "start_ceremony_verification now kind tok sd m = (r, m')" and ok: "tables_ok m"
  shows "tables_ok m' \<and> manager.truncate m' = manager.truncate m"
    "r = Inl e \<Longrightarrow> undisturbed m m'"
    "r = Inr c \<Longrightarrow> is_current m' c \<and> \<not> is_current m c \<and> cy_in_flight c \<and> now < cy_expires c
       \<and> (\<forall>k x. cy_in_flight x \<longrightarrow> map_of (gk_ceremonies m') k = Some x \<longleftrightarrow>
            map_of (gk_ceremonies m) k = Some x \<or> k = cy_key c \<and> x = c)"
proof -
  let ?m1 = "prune_ceremonies now m"
  note le = prune_table_le(1) [OF ok, of now]
  note ok1 = table_le_ok [OF le ok] and un = table_le_undisturbed [OF le]
  have tr: "manager.truncate ?m1 = manager.truncate m" using le by (simp add: table_le_def)
  show "r = Inl e \<Longrightarrow> undisturbed m m'"
    using s un by (auto simp: start_ceremony_verification_def Let_def split: if_splits option.splits)
  have hit: "tables_ok m' \<and> manager.truncate m' = manager.truncate m \<and> is_current m' c \<and> \<not> is_current m c
      \<and> cy_in_flight c \<and> now < cy_expires c
      \<and> (\<forall>k x. cy_in_flight x \<longrightarrow> map_of (gk_ceremonies m') k = Some x \<longleftrightarrow>
            map_of (gk_ceremonies m) k = Some x \<or> k = cy_key c \<and> x = c)" if r: "r = Inr c" for c
  proof -
    from s r obtain c0 where f: "find_ceremony kind (digest_token tok) sd ?m1 = Some c0"
      and c0: "now < cy_expires c0" "\<not> cy_in_flight c0"
        "\<not> (max_attempts \<le> at_count (attempts_of ?m1 (cy_key c0)) \<and> now < at_expires (attempts_of ?m1 (cy_key c0)))"
      and c: "c = c0\<lparr>cy_in_flight := True\<rparr>"
      and m': "m' = mark_in_flight c0 \<lparr>at_count = Suc (at_count (attempts_of ?m1 (cy_key c0))),
          at_expires = (if at_expires (attempts_of ?m1 (cy_key c0)) = 0 then cy_expires c0
            else at_expires (attempts_of ?m1 (cy_key c0)))\<rparr> ?m1"
      by (auto simp: start_ceremony_verification_def mark_in_flight_def Let_def split: if_splits option.splits)
    note t = find_ceremony_table [OF f ok1]
    let ?a = "attempts_of ?m1 (cy_key c0)"
    have idle: "\<not> in_flight_at ?m1 (cy_key c0)" using t c0(2) by (simp add: in_flight_at_iff)
    have "at_count ?a < max_attempts"
    proof (cases "map_of (gk_attempts ?m1) (cy_key c0)")
      case None
      then show ?thesis by (simp add: attempts_of_def no_attempts_def max_attempts_def)
    next
      case (Some a)
      from prune_table_le(2) [OF ok Some] idle have "now < at_expires a" by blast
      with c0(3) Some show ?thesis by (simp add: attempts_of_def)
    qed
    moreover have "(if at_expires ?a = 0 then cy_expires c0 else at_expires ?a) = cy_expires c0" if "cy_kind c0 \<noteq> CeremonyTrust"
    proof -
      have "attempts_ok (map_of (gk_ceremonies ?m1)) (map_of (gk_attempts ?m1))" using ok1 by (simp add: tables_ok_def)
      with t that obtain a where "map_of (gk_attempts ?m1) (cy_key c0) = Some a" "at_expires a = cy_expires c0"
        unfolding attempts_ok_def by blast
      then show ?thesis by (simp add: attempts_of_def)
    qed
    ultimately have k: "tables_ok m' \<and> (\<forall>k x. cy_in_flight x \<longrightarrow> map_of (gk_ceremonies m') k = Some x \<longleftrightarrow>
         map_of (gk_ceremonies ?m1) k = Some x \<or> k = cy_key c0 \<and> x = c)
      \<and> is_current m' c \<and> manager.truncate m' = manager.truncate ?m1"
      unfolding m' c by (intro mark_in_flight_ok [OF ok1 t c0(2)]) simp_all
    have "\<not> is_current ?m1 c" using t c0(2) by (simp add: is_current_iff c)
    then have "\<not> is_current m c" using undisturbed_current [OF un] by simp
    with k tr c0(1) un show ?thesis by (simp add: undisturbed_def c)
  qed
  show "tables_ok m' \<and> manager.truncate m' = manager.truncate m"
  proof (cases r)
    case (Inl e)
    then have "m' = m \<or> m' = ?m1"
      using s by (auto simp: start_ceremony_verification_def Let_def split: if_splits option.splits)
    then show ?thesis using ok ok1 tr by auto
  next
    case (Inr c)
    from hit [OF this] show ?thesis by simp
  qed
  show "r = Inr c \<Longrightarrow> is_current m' c \<and> \<not> is_current m c \<and> cy_in_flight c \<and> now < cy_expires c
       \<and> (\<forall>k x. cy_in_flight x \<longrightarrow> map_of (gk_ceremonies m') k = Some x \<longleftrightarrow>
            map_of (gk_ceremonies m) k = Some x \<or> k = cy_key c \<and> x = c)"
    using hit by blast
qed

lemma resolve_ceremony_ok:
  assumes r: "resolve_ceremony now c res m = (b, m')" and ok: "tables_ok m" and cur: "is_current m c"
  shows "tables_ok m'" "manager.truncate m' = manager.truncate m"
    "map_of (gk_ceremonies m') = (map_of (gk_ceremonies m))(cy_key c := None)"
proof -
  have cs: "gk_ceremonies m' = AList.delete (cy_key c) (gk_ceremonies m)" "gk_next m' = gk_next m"
      "manager.truncate m' = manager.truncate m"
      "gk_attempts m' = gk_attempts m \<or> gk_attempts m' = AList.delete (cy_key c) (gk_attempts m)"
    using r cur by (auto simp: resolve_ceremony_def Let_def manager.defs split: ceremony_resolution.splits if_splits)
  show "map_of (gk_ceremonies m') = (map_of (gk_ceremonies m))(cy_key c := None)" by (simp add: cs(1) delete_conv')
  show "manager.truncate m' = manager.truncate m" by (rule cs(3))
  let ?C = "map_of (gk_ceremonies m)" and ?A = "map_of (gk_attempts m)"
  have "shrinks ?C ?A (?C(cy_key c := None)) (map_of (gk_attempts m'))"
    using cs(4) by (auto simp: shrinks_def map_le_def delete_conv' split: if_splits)
  from shrinks_ok [OF this] ok show "tables_ok m'"
    using cs by (auto simp: tables_ok_def delete_conv' distinct_delete)
qed

section \<open>The whole system\<close>

text \<open>A request that is finishing a ceremony: verifying it outside the locks, approved by the second check of
  the ceremony, or done with its commit, which succeeded or not.\<close>
datatype phase = Verifying | Approved | Committed bool

record gate_system =
  gs_mgr :: gatekeeper
  gs_requests :: "(ceremony \<times> phase) list"

fun commits_ceremony :: "manager_op \<Rightarrow> bool" where
  "commits_ceremony (CommitAssertion _ _ _ _ _) = True"
| "commits_ceremony (CommitRegistration _ _ _) = True"
| "commits_ceremony _ = False"

inductive gate_step :: "gate_system \<Rightarrow> gate_system \<Rightarrow> bool" where
  operate: "\<not> commits_ceremony op \<Longrightarrow> gate_step \<lparr>gs_mgr = m, gs_requests = rs\<rparr> \<lparr>gs_mgr = run_op env op m, gs_requests = rs\<rparr>"
| begin_assertion_step: "begin_assertion env wa kind tok cur m = (r, m') \<Longrightarrow> kind \<noteq> CeremonyTrust \<Longrightarrow>
    gate_step \<lparr>gs_mgr = m, gs_requests = rs\<rparr> \<lparr>gs_mgr = m', gs_requests = rs\<rparr>"
| begin_trust_step: "begin_trust env wt tok inv_tok label m = (r, m') \<Longrightarrow>
    gate_step \<lparr>gs_mgr = m, gs_requests = rs\<rparr> \<lparr>gs_mgr = m', gs_requests = rs\<rparr>"
| start_step: "start_ceremony_verification now kind tok sd m = (Inr c, m') \<Longrightarrow>
    gate_step \<lparr>gs_mgr = m, gs_requests = rs\<rparr> \<lparr>gs_mgr = m', gs_requests = rs @ [(c, Verifying)]\<rparr>"
| start_refused: "start_ceremony_verification now kind tok sd m = (Inl e, m') \<Longrightarrow>
    gate_step \<lparr>gs_mgr = m, gs_requests = rs\<rparr> \<lparr>gs_mgr = m', gs_requests = rs\<rparr>"
| verification_failed: "resolve_ceremony now c CeremonyVerificationFailed m = (b, m') \<Longrightarrow>
    gate_step \<lparr>gs_mgr = m, gs_requests = xs @ (c, Verifying) # ys\<rparr> \<lparr>gs_mgr = m', gs_requests = xs @ ys\<rparr>"
| not_approved: "\<not> ceremony_can_commit m now c \<Longrightarrow> resolve_ceremony now' c CeremonyTerminal m = (b, m') \<Longrightarrow>
    gate_step \<lparr>gs_mgr = m, gs_requests = xs @ (c, Verifying) # ys\<rparr> \<lparr>gs_mgr = m', gs_requests = xs @ ys\<rparr>"
| approved: "ceremony_can_commit m now c \<Longrightarrow>
    gate_step \<lparr>gs_mgr = m, gs_requests = xs @ (c, Verifying) # ys\<rparr> \<lparr>gs_mgr = m, gs_requests = xs @ (c, Approved) # ys\<rparr>"
| assertion_step: "commit_assertion env cred trust old reauth (cy_expires c) m = (r, m') \<Longrightarrow> cy_kind c \<noteq> CeremonyTrust \<Longrightarrow>
    gate_step \<lparr>gs_mgr = m, gs_requests = xs @ (c, Approved) # ys\<rparr>
      \<lparr>gs_mgr = m', gs_requests = xs @ (c, Committed (\<exists>i. r = Inr i)) # ys\<rparr>"
| registration_step: "commit_registration env c cred old m = (r, m') \<Longrightarrow> cy_kind c = CeremonyTrust \<Longrightarrow>
    gate_step \<lparr>gs_mgr = m, gs_requests = xs @ (c, Approved) # ys\<rparr>
      \<lparr>gs_mgr = m', gs_requests = xs @ (c, Committed (\<exists>i. r = Inr i)) # ys\<rparr>"
| resolved: "resolve_ceremony now c (if done then CeremonySucceeded else CeremonyTerminal) m = (b, m') \<Longrightarrow>
    gate_step \<lparr>gs_mgr = m, gs_requests = xs @ (c, Committed done) # ys\<rparr> \<lparr>gs_mgr = m', gs_requests = xs @ ys\<rparr>"

definition gate_init :: "gate_system \<Rightarrow> bool" where
  "gate_init s \<longleftrightarrow> mgr_inv (gs_mgr s) \<and> fresh_own (mg_state (gs_mgr s)) \<and> gk_ceremonies (gs_mgr s) = []
     \<and> gk_attempts (gs_mgr s) = [] \<and> gs_requests s = []"

inductive gate_reachable :: "gate_system \<Rightarrow> bool" where
  init: "gate_init s \<Longrightarrow> gate_reachable s"
| step: "gate_reachable s \<Longrightarrow> gate_step s s' \<Longrightarrow> gate_reachable s'"

text \<open>The requests and the marks in the table: every running request has its ceremony to itself, marked, and
  every mark belongs to a running request.\<close>
definition requests_ok :: "gatekeeper \<Rightarrow> (ceremony \<times> phase) list \<Rightarrow> bool" where
  "requests_ok m rs \<longleftrightarrow> distinct (map (cy_id \<circ> fst) rs) \<and> (\<forall>r \<in> set rs. is_current m (fst r))
     \<and> (\<forall>k x. map_of (gk_ceremonies m) k = Some x \<and> cy_in_flight x \<longrightarrow> cy_id x \<in> (cy_id \<circ> fst) ` set rs)"

definition gate_inv :: "gate_system \<Rightarrow> bool" where
  "gate_inv s \<longleftrightarrow> mgr_inv (gs_mgr s) \<and> fresh_own (mg_state (gs_mgr s)) \<and> tables_ok (gs_mgr s)
     \<and> requests_ok (gs_mgr s) (gs_requests s)"

lemma requests_ok_undisturbed: "undisturbed m m' \<Longrightarrow> requests_ok m rs \<Longrightarrow> requests_ok m' rs"
  using undisturbed_current [of m m'] unfolding requests_ok_def undisturbed_def by blast

lemma requests_ok_phase: "requests_ok m (xs @ (c, p) # ys) \<Longrightarrow> requests_ok m (xs @ (c, p') # ys)"
  unfolding requests_ok_def by auto

lemma requests_ok_resolve:
  assumes r: "requests_ok m (xs @ (c, p) # ys)" and ok: "tables_ok m"
    and C: "map_of (gk_ceremonies m') = (map_of (gk_ceremonies m))(cy_key c := None)"
  shows "requests_ok m' (xs @ ys)"
  unfolding requests_ok_def
proof (intro conjI ballI allI impI)
  show "distinct (map (cy_id \<circ> fst) (xs @ ys))" using r by (auto simp: requests_ok_def)
  from r obtain x0 where x0: "map_of (gk_ceremonies m) (cy_key c) = Some x0" "cy_id x0 = cy_id c"
    by (auto simp: requests_ok_def is_current_iff)
  show "is_current m' (fst q)" if q: "q \<in> set (xs @ ys)" for q
  proof -
    from r q have "is_current m (fst q)" by (auto simp: requests_ok_def)
    then obtain x where x: "map_of (gk_ceremonies m) (cy_key (fst q)) = Some x" "cy_id x = cy_id (fst q)" "cy_in_flight x"
      by (auto simp: is_current_iff)
    have "cy_id (fst q) \<noteq> cy_id c" using r q by (auto simp: requests_ok_def image_iff)
    then have "cy_key (fst q) \<noteq> cy_key c" using x(1,2) x0 by auto
    then show ?thesis using x by (auto simp: is_current_iff C)
  qed
  show "cy_id x \<in> (cy_id \<circ> fst) ` set (xs @ ys)" if "map_of (gk_ceremonies m') k = Some x \<and> cy_in_flight x" for k x
  proof -
    from that have k: "k \<noteq> cy_key c" "map_of (gk_ceremonies m) k = Some x" "cy_in_flight x" by (auto simp: C split: if_splits)
    have "ceremonies_ok (map_of (gk_ceremonies m)) (gk_next m)" using ok by (simp add: tables_ok_def)
    then have "cy_id x \<noteq> cy_id c" using k(1,2) x0 unfolding ceremonies_ok_def by metis
    moreover have "cy_id x \<in> (cy_id \<circ> fst) ` set (xs @ (c, p) # ys)" using r k unfolding requests_ok_def by blast
    ultimately show ?thesis by auto
  qed
qed

lemma requests_ok_start:
  assumes r: "requests_ok m rs" and c: "is_current m' c" "\<not> is_current m c" and ok: "tables_ok m'"
    and C: "\<forall>k x. cy_in_flight x \<longrightarrow> map_of (gk_ceremonies m') k = Some x \<longleftrightarrow>
            map_of (gk_ceremonies m) k = Some x \<or> k = cy_key c \<and> x = c"
  shows "requests_ok m' (rs @ [(c, p)])"
proof -
  have cur: "is_current m' (fst q)" if "q \<in> set rs" for q
    using r that C unfolding requests_ok_def is_current_iff by blast
  have "cy_id c \<notin> (cy_id \<circ> fst) ` set rs"
  proof
    assume "cy_id c \<in> (cy_id \<circ> fst) ` set rs"
    then obtain q where q: "q \<in> set rs" "cy_id (fst q) = cy_id c" by force
    from cur [OF q(1)] c(1) q(2) ok have "cy_key (fst q) = cy_key c"
      unfolding is_current_iff tables_ok_def ceremonies_ok_def by metis
    moreover have "is_current m (fst q)" using r q(1) by (simp add: requests_ok_def)
    ultimately show False using c(2) q(2) by (simp add: is_current_iff)
  qed
  then show ?thesis using r cur c(1) C by (auto simp: requests_ok_def)
qed

lemma operate_inv:
  assumes "gate_inv \<lparr>gs_mgr = m, gs_requests = rs\<rparr>"
  shows "gate_inv \<lparr>gs_mgr = run_op env op m, gs_requests = rs\<rparr>"
  using assms run_op_inv [of m env op] run_op_fresh [of m env op] more_tables [OF run_op_more [of env op m]]
    requests_ok_undisturbed [of m "run_op env op m" rs]
  by (auto simp: gate_inv_def)

lemma same_manager_inv:
  "gate_inv \<lparr>gs_mgr = m, gs_requests = rs\<rparr> \<Longrightarrow> tables_ok m' \<Longrightarrow> requests_ok m' rs' \<Longrightarrow>
   manager.truncate m' = manager.truncate m \<Longrightarrow> gate_inv \<lparr>gs_mgr = m', gs_requests = rs'\<rparr>"
  using truncate_inv [of m' m] truncate_fields(1) [of m' m] by (simp add: gate_inv_def)

lemma resolve_inv:
  assumes i: "gate_inv \<lparr>gs_mgr = m, gs_requests = xs @ (c, p) # ys\<rparr>" and r: "resolve_ceremony now c res m = (b, m')"
  shows "gate_inv \<lparr>gs_mgr = m', gs_requests = xs @ ys\<rparr>"
proof -
  from i have ok: "tables_ok m" and rq: "requests_ok m (xs @ (c, p) # ys)" and cur: "is_current m c"
    by (auto simp: gate_inv_def requests_ok_def)
  note rc = resolve_ceremony_ok [OF r ok cur]
  show ?thesis
    by (rule same_manager_inv [OF i rc(1) requests_ok_resolve [OF rq ok rc(3)] rc(2)])
qed

lemma gate_step_inv: "gate_step s s' \<Longrightarrow> gate_inv s \<Longrightarrow> gate_inv s'"
proof (induction rule: gate_step.induct)
  case (operate op m rs env)
  then show ?case by (intro operate_inv)
next
  case (begin_assertion_step env wa kind tok cur m r m' rs)
  from begin_assertion_step(3) have "tables_ok m" "requests_ok m rs" by (simp_all add: gate_inv_def)
  then show ?case
    using begin_assertion_ok [OF begin_assertion_step(1) _ begin_assertion_step(2)] requests_ok_undisturbed
      same_manager_inv [OF begin_assertion_step(3)] by blast
next
  case (begin_trust_step env wt tok inv_tok label m r m' rs)
  from begin_trust_step(2) have i: "tables_ok m" "mgr_inv m" "requests_ok m rs" "fresh_own (mg_state m)" by (simp_all add: gate_inv_def)
  from begin_trust_ok [OF begin_trust_step(1) i(1,2)] show ?case
    using requests_ok_undisturbed [of m m' rs] i fresh_own_same [of "mg_state m'" "mg_state m"] by (simp add: gate_inv_def)
next
  case (start_step now kind tok sd m c m' rs)
  from start_step(2) have i: "tables_ok m" "requests_ok m rs" by (simp_all add: gate_inv_def)
  note s = start_verification_ok(1) [OF start_step(1) i(1)] start_verification_ok(3) [OF start_step(1) i(1) refl]
  from s have "requests_ok m' (rs @ [(c, Verifying)])" by (intro requests_ok_start [OF i(2)]) auto
  then show ?case using s by (intro same_manager_inv [OF start_step(2)]) auto
next
  case (start_refused now kind tok sd m e m' rs)
  from start_refused(2) have i: "tables_ok m" "requests_ok m rs" by (simp_all add: gate_inv_def)
  note s = start_verification_ok(1) [OF start_refused(1) i(1)] start_verification_ok(2) [OF start_refused(1) i(1) refl]
  then show ?case using requests_ok_undisturbed [OF s(2) i(2)] by (intro same_manager_inv [OF start_refused(2)]) auto
next
  case (assertion_step env cred trust old reauth c m r m' xs ys)
  have "m' = run_op env (CommitAssertion cred trust old reauth (cy_expires c)) m" using assertion_step(1) by simp
  then have "gate_inv \<lparr>gs_mgr = m', gs_requests = xs @ (c, Approved) # ys\<rparr>"
    using operate_inv [OF assertion_step(3)] by blast
  then show ?case by (auto simp: gate_inv_def intro: requests_ok_phase)
next
  case (registration_step env c cred old m r m' xs ys)
  have "m' = run_op env (CommitRegistration c cred old) m" using registration_step(1) by simp
  then have "gate_inv \<lparr>gs_mgr = m', gs_requests = xs @ (c, Approved) # ys\<rparr>"
    using operate_inv [OF registration_step(3)] by blast
  then show ?case by (auto simp: gate_inv_def intro: requests_ok_phase)
next
  case (approved m now c xs ys)
  then show ?case by (auto simp: gate_inv_def intro: requests_ok_phase)
qed (auto intro: resolve_inv)

lemma gate_init_inv: "gate_init s \<Longrightarrow> gate_inv s"
  by (auto simp: gate_init_def gate_inv_def requests_ok_def tables_ok_def ceremonies_ok_def attempts_ok_def pool_card_def)

lemma gate_reachable_inv: "gate_reachable s \<Longrightarrow> gate_inv s"
  by (induction rule: gate_reachable.induct) (auto intro: gate_init_inv gate_step_inv)

end
