(* ===== verification/AccessClaims.thy ===== *)
theory AccessClaims
  imports AccessSystem
begin

text \<open>
  The properties of the access system as a whole: what holds in every reachable state of \<open>AccessSystem\<close>, and
  what the two commits of a ceremony achieve.
\<close>

section \<open>A concrete system\<close>

definition signed_gate :: gatekeeper where
  "signed_gate = manager.extend signed_manager (gatekeeper.fields [] [] 0)"

lemma signed_gate_fields [simp]:
  "mg_state signed_gate = signed_state" "mg_store signed_gate = mg_store signed_manager"
  "mg_runtimes signed_gate = mg_runtimes signed_manager" "mg_next signed_gate = mg_next signed_manager"
  "mg_cancelled signed_gate = mg_cancelled signed_manager" "mg_authority signed_gate = mg_authority signed_manager"
  "gk_ceremonies signed_gate = []" "gk_attempts signed_gate = []" "gk_next signed_gate = 0"
  using signed_fields(4) by (simp_all add: signed_gate_def manager.defs gatekeeper.defs)

lemma signed_gate_inv: "mgr_inv signed_gate"
proof -
  have "mgr.sound signed_gate" unfolding mgr_sound_iff using signed_state_valid by (simp add: signed_disk_def content_def)
  then show ?thesis using signed_inv by (simp add: mgr_inv_def runtimes_ok_def)
qed

definition signed_system :: gate_system where
  "signed_system = \<lparr>gs_mgr = signed_gate, gs_requests = []\<rparr>"

lemma signed_system_reachable: "gate_reachable signed_system"
  by (rule gate_reachable.init) (simp add: gate_init_def signed_system_def signed_gate_inv signed_fresh)

text \<open>The sign-in a browser with the sample token begins, and its verification.\<close>
definition sample_key :: string where "sample_key = ceremony_key CeremonySignIn (digest_token sample_token)"

definition sample_ceremony :: ceremony where
  "sample_ceremony = \<lparr>cy_id = 0, cy_kind = CeremonySignIn, cy_key = sample_key, cy_client = digest_token sample_token,
     cy_expires = 2000 + reservation_lifetime, cy_session = ''challenge'', cy_invitation = [], cy_label = [], cy_in_flight = False\<rparr>"

definition begun_gate :: gatekeeper where "begun_gate = put_ceremony 2000 sample_ceremony signed_gate"

lemma sample_client: "normalize_ceremony_client sample_token r = Inr (sample_token, digest_token sample_token)"
proof -
  have "sample_token \<noteq> []" using sample_token_length by auto
  then show ?thesis by (simp add: normalize_ceremony_client_def) (simp add: sample_token_def)
qed

lemma signed_gate_pruned: "prune_ceremonies now signed_gate = signed_gate"
  by (simp add: prune_ceremonies_def Let_def)

lemma sample_begin:
  "begin_assertion sample_mgr_env (Some ''challenge'') CeremonySignIn sample_token no_session signed_gate =
     (Inr \<lparr>cb_client = sample_token, cb_expires = 2000 + reservation_lifetime, cb_ttl = time_sub (2000 + reservation_lifetime) 2000\<rparr>,
      begun_gate)"
proof -
  have "make_ceremony_room CeremonySignIn sample_key signed_gate = (True, signed_gate)"
    unfolding make_ceremony_room_def by (subst ceremony_room.simps) (simp add: pool_size_def)
  then show ?thesis
    by (simp add: begin_assertion_def begin_assertion_at_def Let_def sample_client signed_gate_pruned in_flight_at_def
        attempts_of_def no_attempts_def attempts_live_def max_attempts_def begun_gate_def sample_ceremony_def flip: sample_key_def)
qed

lemma begun_tables:
  "gk_ceremonies begun_gate = [(sample_key, sample_ceremony)]"
  "gk_attempts begun_gate = [(sample_key, \<lparr>at_count = 0, at_expires = 2000 + reservation_lifetime\<rparr>)]"
  by (simp_all add: begun_gate_def put_ceremony_def attempts_live_def sample_ceremony_def)

definition verifying_gate :: gatekeeper where
  "verifying_gate = mark_in_flight sample_ceremony \<lparr>at_count = 1, at_expires = 2000 + reservation_lifetime\<rparr> begun_gate"

lemma sample_start:
  "start_ceremony_verification 3000 CeremonySignIn sample_token [] begun_gate =
     (Inr (sample_ceremony\<lparr>cy_in_flight := True\<rparr>), verifying_gate)"
proof -
  have c: "cy_expires sample_ceremony = 2000 + reservation_lifetime" "cy_in_flight sample_ceremony = False"
    "cy_client sample_ceremony = digest_token sample_token" "cy_key sample_ceremony = sample_key"
    by (simp_all add: sample_ceremony_def)
  have r: "3000 < 2000 + reservation_lifetime" "2000 + reservation_lifetime \<noteq> 0" by (simp_all add: access_durations)
  have p: "prune_ceremonies 3000 begun_gate = begun_gate"
    using r by (simp add: prune_ceremonies_def Let_def begun_tables c)
  show ?thesis
    using r by (simp add: start_ceremony_verification_def sample_token_length Let_def p find_ceremony_def begun_tables c
        attempts_of_def max_attempts_def verifying_gate_def mark_in_flight_def flip: sample_key_def)
qed

definition verifying_system :: gate_system where
  "verifying_system = \<lparr>gs_mgr = verifying_gate, gs_requests = [(sample_ceremony\<lparr>cy_in_flight := True\<rparr>, Verifying)]\<rparr>"

lemma verifying_reachable: "gate_reachable verifying_system"
proof -
  have "gate_reachable \<lparr>gs_mgr = begun_gate, gs_requests = []\<rparr>"
    using gate_reachable.step [OF signed_system_reachable [unfolded signed_system_def]
        gate_step.begin_assertion_step [OF sample_begin]] by simp
  from gate_reachable.step [OF this gate_step.start_step [OF sample_start]] show ?thesis
    by (simp add: verifying_system_def)
qed

section \<open>Reachable states\<close>

text \<open>C2.  In every state the system reaches, whatever requests run in between, an active sign-in can be
  revoked when another active one remains, the disk works and the clock is not before its creation: no
  session, invitation or limit makes the validation refuse the new state.\<close>
theorem reachable_revoke_works:
  assumes "gate_reachable s" "disk_ready (me_io env) (sto_disk (mg_store (gs_mgr s)))"
    and "active_trust_locked (gs_mgr s) t" "1 < active_credential_count (mg_state (gs_mgr s))"
    and "\<forall>c \<in> set (credentials (mg_state (gs_mgr s))). c_trust c = t \<longrightarrow> c_created c \<le> me_now env"
  shows "\<exists>rv m'. revoke_local env t (gs_mgr s) = (Inr rv, m') \<and> mgr_inv m' \<and> \<not> active_trust_locked m' t"
proof -
  from gate_reachable_inv [OF assms(1)] have i: "mgr_inv (gs_mgr s)" "fresh_own (mg_state (gs_mgr s))"
    by (simp_all add: gate_inv_def)
  from revoke_works_helper [OF i assms(2-5)] obtain rv m' where r: "revoke_locked env t (gs_mgr s) = (Inr rv, m')" by blast
  have inv: "mgr_inv m'" by (rule revoke_locked_inv [OF r i(1)])
  have "\<not> active_trust_locked m' t"
    by (rule revoke_locked_ok [OF r i(1)])
       (simp add: active_trust_locked_iff [OF mgr_inv_valid [OF inv]] active_trust_revoke [OF valid_trusts [OF mgr_inv_valid [OF i(1)]]])
  with r inv show ?thesis by (simp add: revoke_local_def)
qed

theorem reachable_revoke_works_witness:
  "\<exists>rv m'. revoke_local sample_mgr_env trust_a signed_gate = (Inr rv, m') \<and> \<not> active_trust_locked m' trust_a"
proof -
  have "active_trust_locked signed_gate trust_a" using signed_trust by (simp add: active_trust_locked_def)
  then show ?thesis
    using reachable_revoke_works [OF signed_system_reachable, of sample_mgr_env trust_a] signed_disk_ready signed_count
    by (auto simp: signed_system_def sample_credential_def)
qed

text \<open>C3.  A passkey ceremony is verified by one request at a time: in every reachable state a ceremony is marked
  as being verified exactly when some running request is verifying it, no two requests verify the same
  one, and the record each request holds is still the one in the table, so that it resolves its own
  ceremony and no other.\<close>
theorem verification_exclusive:
  assumes "gate_reachable s"
  shows "(\<forall>k. in_flight_at (gs_mgr s) k \<longleftrightarrow> (\<exists>r \<in> set (gs_requests s). cy_key (fst r) = k))
    \<and> distinct (map (cy_key \<circ> fst) (gs_requests s))
    \<and> (\<forall>r \<in> set (gs_requests s). is_current (gs_mgr s) (fst r))"
proof -
  let ?m = "gs_mgr s" and ?rs = "gs_requests s"
  from gate_reachable_inv [OF assms] have r: "requests_ok ?m ?rs" and t: "tables_ok ?m" by (simp_all add: gate_inv_def)
  have c: "ceremonies_ok (map_of (gk_ceremonies ?m)) (gk_next ?m)" using t by (simp add: tables_ok_def)
  have id_key: "cy_id x = cy_id y \<Longrightarrow> k = k'" if "map_of (gk_ceremonies ?m) k = Some x" "map_of (gk_ceremonies ?m) k' = Some y" for k k' x y
    using c that unfolding ceremonies_ok_def by blast
  have cur: "\<exists>x. map_of (gk_ceremonies ?m) (cy_key (fst q)) = Some x \<and> cy_id x = cy_id (fst q) \<and> cy_in_flight x" if "q \<in> set ?rs" for q
    using r that by (simp add: requests_ok_def is_current_iff)
  have iff: "in_flight_at ?m k \<longleftrightarrow> (\<exists>q \<in> set ?rs. cy_key (fst q) = k)" for k
  proof
    assume "in_flight_at ?m k"
    then obtain x where x: "map_of (gk_ceremonies ?m) k = Some x" "cy_in_flight x" by (auto simp: in_flight_at_iff)
    with r obtain q where q: "q \<in> set ?rs" "cy_id x = cy_id (fst q)" unfolding requests_ok_def by force
    from cur [OF q(1)] q(2) id_key [OF x(1)] have "k = cy_key (fst q)" by auto
    with q(1) show "\<exists>q \<in> set ?rs. cy_key (fst q) = k" by blast
  next
    assume "\<exists>q \<in> set ?rs. cy_key (fst q) = k"
    with cur show "in_flight_at ?m k" by (auto simp: in_flight_at_iff)
  qed
  have "inj_on (cy_key \<circ> fst) (set ?rs)"
  proof (rule inj_onI)
    fix q q' assume q: "q \<in> set ?rs" "q' \<in> set ?rs" "(cy_key \<circ> fst) q = (cy_key \<circ> fst) q'"
    then have "cy_id (fst q) = cy_id (fst q')" using cur [OF q(1)] cur [OF q(2)] by auto
    then have "(cy_id \<circ> fst) q = (cy_id \<circ> fst) q'" by simp
    moreover have "inj_on (cy_id \<circ> fst) (set ?rs)" using r by (simp add: requests_ok_def distinct_map)
    ultimately show "q = q'" using q(1,2) by (simp only: inj_on_eq_iff)
  qed
  then have "distinct (map (cy_key \<circ> fst) ?rs)" using r by (simp add: requests_ok_def distinct_map)
  with iff r show ?thesis by (simp add: requests_ok_def)
qed

theorem verification_exclusive_witness: "in_flight_at verifying_gate sample_key"
  using verification_exclusive [OF verifying_reachable]
  by (simp add: verifying_system_def sample_ceremony_def)



section \<open>States with one more session\<close>

lemma random_token_shape:
  assumes "random_token r n = Inr t"
  shows "\<exists>b. t = b64_encode b \<and> length b = n"
  using assms by (auto simp: random_token_def random_bytes_def split: option.splits sum.splits)

lemma add_session_valid:
  assumes v: "valid_state st" and a: "add_session st t t now replace r = Inr (st', issue, gone)"
    and act: "active_trust (credentials st) t" and now: "now \<noteq> 0"
    and new: "digest_token (is_token issue) \<notin> s_digest ` set (sessions st)"
  shows "valid_state st'"
proof (rule add_session_spec [OF a valid_digests [OF v]], goal_cases)
  case (1 ss s l)
  have so: "sessions_ok (active_trust (credentials st)) (sessions st)" using v by (simp add: valid_state_def)
  have "session_ok (active_trust (credentials st)) s"
    using act now 1(3) parse_lifetime_ok [OF 1(3)] parse_lifetime_string [of l] by (simp add: 1(4) session_ok_def session_expiry_ok_def)
  moreover have "length (trust_sessions (ss @ [s]) t') \<le> max_trust_sessions" for t'
  proof (cases "t' = t")
    case True
    have "s_trust s = t" by (simp add: 1(4))
    with True 1(10) show ?thesis by (simp add: trust_sessions_def)
  next
    case False
    have "length (trust_sessions ss t') \<le> max_trust_sessions"
      using 1(12) [of t'] so by (auto simp: sessions_ok_def intro: order_trans)
    moreover have "s_trust s = t" by (simp add: 1(4))
    ultimately show ?thesis using False by (simp add: trust_sessions_def)
  qed
  moreover have "s_digest s \<notin> s_digest ` set ss" using new 1(6) by (auto simp: 1(4))
  ultimately have "sessions_ok (active_trust (credentials st)) (ss @ [s])"
    using so 1(6,7,11) by (auto simp: sessions_ok_def)
  then show ?thesis using v by (simp add: 1(1) valid_state_def header_ok_def)
qed

text \<open>Both commits end this way.\<close>
lemma add_session_commits:
  assumes v: "valid_state st" and act: "active_trust (credentials st) t" and now: "now \<noteq> 0"
    and r: "random_token r 32 = Inr token" and new: "digest_token token \<notin> s_digest ` set (sessions st)"
    and dr: "disk_ready (me_io env) (sto_disk (mg_store m))"
  shows "\<exists>st' issue gone m1 issue' m'. add_session st t t now replace r = Inr (st', issue, gone) \<and> is_token issue = token
    \<and> commit_locked env st' m = (Inr (), m1) \<and> issue_session issue gone m1 = (issue', m') \<and> is_token issue' = token"
proof -
  from v obtain l where l: "parse_session_lifetime (st_lifetime st) = Inr l" by (auto simp: valid_state_def header_ok_def)
  from add_session_some [OF r l] obtain st' issue gone where a: "add_session st t t now replace r = Inr (st', issue, gone)" by blast
  have tok: "is_token issue = token"
    using r by (rule_tac add_session_spec [OF a valid_digests [OF v]]) auto
  from commit_works [OF add_session_valid [OF v a act now] dr] new tok obtain m1 where
    c: "commit_locked env st' m = (Inr (), m1)" by auto
  obtain issue' m' where i: "issue_session issue gone m1 = (issue', m')" by (meson surj_pair)
  then have "is_token issue' = token" using tok by (auto simp: issue_session_def split: prod.splits)
  with a tok c i show ?thesis by blast
qed

section \<open>A sign-in that verifies gets its session\<close>

lemma active_trust_use:
  "active_trust (update_first (assertion_hit t cred) (used_credential cred now) cs) t' = active_trust cs t'"
proof (induction cs)
  case (Cons c cs)
  then show ?case by (auto simp: active_trust_def assertion_hit_def used_credential_def)
qed simp

lemma use_credential_valid:
  assumes v: "valid_state st" and key: "wa_key cred \<noteq> []" and now: "now \<noteq> 0"
    and created: "\<forall>c \<in> set (credentials st). c_trust c = t \<longrightarrow> c_created c \<le> now"
  shows "valid_state (st\<lparr>credentials := update_first (assertion_hit t cred) (used_credential cred now) (credentials st)\<rparr>)"
proof -
  let ?cs = "update_first (assertion_hit t cred) (used_credential cred now) (credentials st)"
  have co: "credentials_ok (credentials st)" using v by (simp add: valid_state_def)
  have "map c_trust ?cs = map c_trust (credentials st)"
    "map (\<lambda>c. wa_id (c_cred c)) ?cs = map (\<lambda>c. wa_id (c_cred c)) (credentials st)"
    by (rule map_update_first; simp add: used_credential_def assertion_hit_def)+
  moreover have "\<not> bad_credential c" if "c \<in> set ?cs" for c
    using update_first_in_set [OF that] co key now created
    by (fastforce simp: credentials_ok_def bad_credential_def used_credential_def assertion_hit_def)
  ultimately have "credentials_ok ?cs" using co by (simp add: credentials_ok_def)
  moreover have "active_trust ?cs = active_trust (credentials st)" by (rule ext) (rule active_trust_use)
  ultimately show ?thesis using v by (simp add: valid_state_def header_ok_def)
qed

text \<open>C5.  A verified sign-in always gets a session: however many sessions there are, the oldest ones make room, and
  on a working disk the commit succeeds.  The new session is accepted at once, and the browser's old one is
  not accepted any more.\<close>
theorem sign_in_works:
  assumes inv: "mgr_inv m" and dr: "disk_ready (me_io env) (sto_disk (mg_store m))"
    and hit: "list_ex (assertion_hit t cred) (credentials (mg_state m))" and key: "wa_key cred \<noteq> []"
    and now: "0 < me_now env" "me_now env < deadline"
    and created: "\<forall>c \<in> set (credentials (mg_state m)). c_trust c = t \<longrightarrow> c_created c \<le> me_now env"
    and r: "random_token (me_rand1 env) 32 = Inr token"
    and new: "digest_token token \<notin> s_digest ` set (sessions (mg_state m))"
  shows "\<exists>issue m'. commit_assertion env cred t old False deadline m = (Inr issue, m') \<and> is_token issue = token \<and> mgr_inv m'
    \<and> authenticate_token m' (me_now env) token = Some \<lparr>sid_digest = digest_token token, sid_trust = t\<rparr>
    \<and> (old \<noteq> [] \<and> old \<noteq> digest_token token \<longrightarrow> (\<forall>now. active_session_locked m' old now = None))"
proof -
  let ?st = "(mg_state m)\<lparr>credentials := update_first (assertion_hit t cred) (used_credential cred (me_now env)) (credentials (mg_state m))\<rparr>"
  note v = mgr_inv_valid [OF inv]
  have vs: "valid_state ?st" using use_credential_valid [OF v key _ created] now by simp
  have "active_trust (credentials (mg_state m)) t"
    using hit by (auto simp: list_ex_iff active_trust_def assertion_hit_def)
  then have act: "active_trust (credentials ?st) t" by (simp add: active_trust_use)
  have nz: "me_now env \<noteq> 0" using now by simp
  have new': "digest_token token \<notin> s_digest ` set (sessions ?st)" using new by simp
  from add_session_commits [OF vs act nz r new' dr, of old] obtain st' issue0 gone m1 issue m' where
    a: "add_session ?st t t (me_now env) old (me_rand1 env) = Inr (st', issue0, gone)"
    and c: "commit_locked env st' m = (Inr (), m1)" and i: "issue_session issue0 gone m1 = (issue, m')"
    and tok: "is_token issue = token" by blast
  have ca: "commit_assertion env cred t old False deadline m = (Inr issue, m')"
    using hit now a c i unfolding assertion_hit_def [abs_def] used_credential_def [abs_def]
    by (simp add: commit_assertion_def Let_def)
  have inv': "mgr_inv m'" by (rule commit_assertion_inv [OF ca inv])
  have len: "40 \<le> length token" "length token \<le> 128"
    using random_token_shape [OF r] by (auto simp: length_b64_encode)
  show ?thesis
  proof (rule commit_assertion_ok [OF ca inv], goal_cases)
    case (1 ss s gone')
    have s: "s \<in> set (sessions (mg_state m'))" by (simp add: 1(1))
    then have "session_ok (active_trust (credentials (mg_state m'))) s"
      using mgr_inv_valid [OF inv'] by (auto simp: valid_state_def sessions_ok_def)
    then have "session_live s (me_now env)"
      using 1(5) lifetime_duration_pos by (auto simp: session_ok_def session_expiry_ok_def session_live_def split: option.splits if_splits)
    then have "active_session_locked m' (digest_token token) (me_now env) = Some s"
      using s 1(2) tok by (simp add: active_session_locked_iff [OF mgr_inv_valid [OF inv']])
    moreover have "active_session_locked m' old n = None" if "old \<noteq> []" "old \<noteq> digest_token token" for n
    proof (rule ccontr)
      assume "active_session_locked m' old n \<noteq> None"
      then obtain x where "x \<in> set (sessions (mg_state m'))" "s_digest x = old"
        using active_session_locked_iff [OF mgr_inv_valid [OF inv']] by blast
      then show False using 1(2,8) that tok by (auto simp: 1(1))
    qed
    ultimately show ?thesis
      using ca tok inv' len 1(3) by (intro exI [of _ issue] exI [of _ m']) (simp add: authenticate_token_def)
  qed
qed

text \<open>A manager that nobody is signed in to, with given invitations.\<close>
definition idle_manager :: "invitation_record list \<Rightarrow> manager" where
  "idle_manager invs =
     fresh_manager \<lparr>sto_state = signed_state\<lparr>sessions := [], invitations := invs\<rparr>,
       sto_disk = \<lparr>dk_dir = Some new_dir, dk_file = Some (new_file, signed_state\<lparr>sessions := [], invitations := invs\<rparr>), dk_temps = 0\<rparr>\<rparr>
       sample_origin"

lemma idle_fields [simp]:
  "mg_state (idle_manager invs) = signed_state\<lparr>sessions := [], invitations := invs\<rparr>"
  "mg_authority (idle_manager invs) = False"
  by (simp_all add: idle_manager_def fresh_manager_def)

lemma idle_valid:
  assumes "invitations_ok (\<lambda>t. t = trust_a \<or> t = trust_b) invs"
  shows "valid_state (signed_state\<lparr>sessions := [], invitations := invs\<rparr>)"
proof -
  have "sessions_ok a []" for a by (simp add: sessions_ok_def trust_sessions_def)
  then show ?thesis using assms signed_state_valid by (simp add: valid_state_def header_ok_def)
qed

lemma idle_inv:
  assumes "invitations_ok (\<lambda>t. t = trust_a \<or> t = trust_b) invs"
  shows "mgr_inv (idle_manager invs)"
proof -
  have "mgr.sound (idle_manager invs)"
    unfolding mgr_sound_iff using idle_valid [OF assms] by (simp add: idle_manager_def fresh_manager_def content_def)
  then show ?thesis by (simp add: mgr_inv_def) (simp add: idle_manager_def fresh_manager_def runtimes_ok_def)
qed

lemma idle_ready: "disk_ready (me_io sample_mgr_env) (sto_disk (mg_store (idle_manager invs)))"
  by (simp add: disk_ready_def no_faults_def idle_manager_def fresh_manager_def) (simp add: new_file_def)

lemma sample_random: "random_token (me_rand1 sample_mgr_env) 32 = Inr sample_token" "random_token (me_rand2 sample_mgr_env) 32 = Inr sample_token"
  by (simp_all add: random_token_def sample_mgr_env_def sample_entropy_bytes sample_token_def)

lemma no_invitations_ok: "invitations_ok a []"
  by (simp add: invitations_ok_def open_invites_def)

theorem sign_in_works_witness:
  "\<exists>issue m'. commit_assertion sample_mgr_env (c_cred (sample_credential trust_a ''x'')) trust_a [] False 9000 (idle_manager []) = (Inr issue, m')"
proof -
  let ?cred = "c_cred (sample_credential trust_a ''x'')"
  have "list_ex (assertion_hit trust_a ?cred) (credentials (mg_state (idle_manager [])))" "wa_key ?cred \<noteq> []"
    "0 < me_now sample_mgr_env" "me_now sample_mgr_env < 9000"
    "\<forall>c \<in> set (credentials (mg_state (idle_manager []))). c_trust c = trust_a \<longrightarrow> c_created c \<le> me_now sample_mgr_env"
    "digest_token sample_token \<notin> s_digest ` set (sessions (mg_state (idle_manager [])))"
    by (simp_all add: assertion_hit_def sample_credential_def signed_state_def sample_mgr_env_def)
  from sign_in_works [OF idle_inv [OF no_invitations_ok] idle_ready this(1-5) sample_random(1) this(6)]
  show ?thesis by blast
qed

section \<open>An invitation makes one sign-in\<close>

lemma update_first_hit: "find p xs = Some x \<Longrightarrow> f x \<in> set (update_first p f xs)"
  by (induction xs) (auto split: if_splits)

lemma registered_invitations:
  assumes v: "valid_state st" and u: "usable_invitation st (cy_invitation c) (cy_client c) now = Some i"
  shows "map i_digest (invitations (registered now c t cred i st)) = map i_digest (invitations st)"
    "consume now i \<in> set (invitations (registered now c t cred i st))"
    "x \<in> set (invitations (registered now c t cred i st)) \<Longrightarrow> x = consume now i \<or> x \<in> set (invitations st) \<and> i_digest x \<noteq> cy_invitation c"
proof -
  let ?p = "open_at (cy_invitation c) now"
  have inv: "invitations (registered now c t cred i st) = update_first ?p (\<lambda>_. consume now i) (invitations st)"
    by (simp add: registered_def set_invitation_def)
  from u obtain i0 where i0: "find ?p (invitations st) = Some i0" "i_digest i = cy_invitation c"
    by (rule usable_invitation_open) auto
  show m: "map i_digest (invitations (registered now c t cred i st)) = map i_digest (invitations st)"
    unfolding inv by (rule map_update_first) (simp add: open_at_def consume_def i0(2))
  show mem: "consume now i \<in> set (invitations (registered now c t cred i st))"
    unfolding inv by (rule update_first_hit [OF i0(1), of "\<lambda>_. consume now i"])
  have "distinct (map i_digest (invitations st))" using v by (simp add: valid_state_def invitations_ok_def)
  then have d: "distinct (map i_digest (invitations (registered now c t cred i st)))" unfolding m .
  assume x: "x \<in> set (invitations (registered now c t cred i st))"
  show "x = consume now i \<or> x \<in> set (invitations st) \<and> i_digest x \<noteq> cy_invitation c"
  proof (cases "i_digest x = cy_invitation c")
    case True
    with i0(2) have "i_digest x = i_digest (consume now i)" by (simp add: consume_def)
    then have "x = consume now i" using d x mem unfolding distinct_map by (blast dest: inj_onD)
    then show ?thesis ..
  next
    case False
    then show ?thesis using update_first_in_set [OF x [unfolded inv]] i0(2) by (auto simp: consume_def)
  qed
qed

lemma usable_none:
  assumes "\<forall>i \<in> set (invitations st). i_digest i = d \<longrightarrow> i_consumed i \<noteq> None"
  shows "usable_invitation st d client now = None"
proof -
  have "find (open_at d now) (invitations st) = None"
    using assms by (auto simp: find_None_iff open_at_def)
  then show ?thesis by (simp add: usable_invitation_def)
qed

text \<open>C6.  A successful registration uses an open invitation that is reserved to the ceremony's browser and
  whose issuer is still trusted; it adds exactly one active sign-in, at most 32 in all, and leaves the other
  sign-ins active.  The invitation is consumed with it: no later registration with the same invitation
  succeeds on the state it leaves.\<close>
theorem registration_effect:
  assumes "commit_registration env c cred old m = (Inr issue, m')" "mgr_inv m"
  shows "(\<exists>i \<in> set (invitations (mg_state m)). i_digest i = cy_invitation c \<and> i_consumed i = None \<and> me_now env < i_expires i
      \<and> i_rclient i = cy_client c \<and> (\<exists>u. i_runtil i = Some u \<and> me_now env < u)
      \<and> (i_issuer i = [] \<or> active_trust_locked m (i_issuer i)))
    \<and> (\<exists>t. \<not> active_trust_locked m t \<and> (\<forall>t'. active_trust_locked m' t' \<longleftrightarrow> t' = t \<or> active_trust_locked m t'))
    \<and> active_credential_count (mg_state m') = Suc (active_credential_count (mg_state m))
    \<and> active_credential_count (mg_state m') \<le> 32
    \<and> (\<forall>env' c' cred' old'. cy_invitation c' = cy_invitation c \<longrightarrow>
         (\<exists>e. fst (commit_registration env' c' cred' old' m') = Inl e))"
proof (rule commit_registration_ok [OF assms], goal_cases)
  case (1 i t ss s gone)
  note v = mgr_inv_valid [OF assms(2)] and v' = mgr_inv_valid [OF 1(14)]
  let ?act = "filter (\<lambda>x. c_revoked x = None) (credentials (mg_state m))"
  have creds: "credentials (mg_state m') = ?act @ [new_credential (me_now env) t (cy_label c) cred]"
    and invs: "invitations (mg_state m') = invitations (registered (me_now env) c t cred i (mg_state m))"
    by (simp_all add: 1(7) registered_def)
  have "\<exists>i \<in> set (invitations (mg_state m)). i_digest i = cy_invitation c \<and> i_consumed i = None \<and> me_now env < i_expires i
      \<and> i_rclient i = cy_client c \<and> (\<exists>u. i_runtil i = Some u \<and> me_now env < u)
      \<and> (i_issuer i = [] \<or> active_trust_locked m (i_issuer i))"
  proof (rule usable_invitation_open [OF 1(1)], goal_cases)
    case (1 i0)
    have "i = i0" using 1(9) \<open>\<exists>u. i_runtil i = Some u \<and> _ u\<close> by auto
    with 1(1-6) find_SomeD [OF 1(1)] \<open>i_rclient i = _\<close> \<open>\<exists>u. i_runtil i = Some u \<and> _ u\<close> show ?case
      by (auto simp: active_trust_locked_iff [OF v])
  qed
  moreover have tn: "t \<notin> c_trust ` set ?act"
    using valid_trusts [OF v'] by (simp add: creds new_credential_def)
  then have "\<not> active_trust_locked m t"
    by (auto simp: active_trust_locked_iff [OF v] active_trust_def)
  moreover have "active_trust_locked m' t' \<longleftrightarrow> t' = t \<or> active_trust_locked m t'" for t'
    unfolding active_trust_locked_iff [OF v] active_trust_locked_iff [OF v'] creds
    by (auto simp: active_trust_def new_credential_def)
  moreover have "active_credential_count (mg_state m') = Suc (active_credential_count (mg_state m))"
    by (simp add: active_credential_count_def creds new_credential_def)
  moreover have "active_credential_count (mg_state m') \<le> 32"
    using 1(4) by (simp add: active_credential_count_def creds new_credential_def access_limits)
  moreover have "\<exists>e. fst (commit_registration env' c' cred' old' m') = Inl e" if "cy_invitation c' = cy_invitation c" for env' c' cred' old'
  proof -
    have "\<forall>x \<in> set (invitations (mg_state m')). i_digest x = cy_invitation c' \<longrightarrow> i_consumed x \<noteq> None"
    proof (intro ballI impI)
      fix x assume "x \<in> set (invitations (mg_state m'))" "i_digest x = cy_invitation c'"
      with registered_invitations(3) [OF v 1(1), of x t cred] that have "x = consume (me_now env) i" by (simp add: invs)
      then show "i_consumed x \<noteq> None" by (simp add: consume_def)
    qed
    from usable_none [OF this] show ?thesis by (simp add: commit_registration_def Let_def)
  qed
  ultimately show ?thesis by blast
qed

lemma commit_registration_works:
  assumes "usable_invitation (mg_state m) (cy_invitation c) (cy_client c) (me_now env) = Some i"
    "i_rclient i = cy_client c" "i_runtil i = Some u" "me_now env < u"
    "length (filter (\<lambda>x. c_revoked x = None) (credentials (mg_state m))) < max_credentials"
    "\<forall>x \<in> set (credentials (mg_state m)). c_revoked x = None \<longrightarrow> wa_id (c_cred x) \<noteq> wa_id cred"
    "random_token (me_rand1 env) 16 = Inr trust"
    "add_session (registered (me_now env) c trust cred i (mg_state m)) trust trust (me_now env) old (me_rand2 env)
      = Inr (updated, issue, gone)"
    "commit_locked env updated m = (Inr (), m1)" "issue_session issue gone m1 = (issue', m2)"
  shows "commit_registration env c cred old m = (Inr issue', notify_authority (TrustedSignInAdded (cy_label c)) m2)"
  using assms unfolding registered_def new_credential_def consume_def
  by (auto simp: commit_registration_def Let_def delete_func_def list_ex_iff simp del: not_None_eq)

definition reserved_invitation :: invitation_record where
  "reserved_invitation = \<lparr>i_digest = digest_token sample_token, i_issuer = trust_a, i_issued = 1000,
     i_expires = 1000 + invitation_lifetime, i_rclient = digest_token sample_token,
     i_runtil = Some (1000 + reservation_lifetime), i_consumed = None\<rparr>"

definition trust_ceremony :: ceremony where
  "trust_ceremony = \<lparr>cy_id = 0, cy_kind = CeremonyTrust, cy_key = [], cy_client = digest_token sample_token,
     cy_expires = 1000 + reservation_lifetime, cy_session = [], cy_invitation = digest_token sample_token,
     cy_label = ''phone'', cy_in_flight = True\<rparr>"

lemma reserved_ok: "invitations_ok (\<lambda>t. t = trust_a \<or> t = trust_b) [reserved_invitation]"
  by (simp add: invitations_ok_def access_limits open_invites_def invitation_ok_def bad_reservation_def
      bad_consumption_def reserved_invitation_def access_durations)

definition trust_x :: string where "trust_x = b64_encode (replicate 16 (CHR ''x''))"

lemma trust_x_new: "trust_x \<noteq> trust_a" "trust_x \<noteq> trust_b" "valid_opaque_id trust_x" "valid_opaque_id trust_a" "valid_opaque_id trust_b"
  by (simp_all add: trust_x_def trust_a_def trust_b_def b64_encode_inject replicate_eq_replicate valid_opaque_id_encode)

lemma sample_registration:
  "\<exists>issue m'. commit_registration sample_mgr_env trust_ceremony (c_cred (sample_credential trust_a ''z'')) []
     (idle_manager [reserved_invitation]) = (Inr issue, m')"
proof -
  let ?m = "idle_manager [reserved_invitation]" and ?cred = "c_cred (sample_credential trust_a ''z'')"
  let ?cs = "[sample_credential trust_a ''x'', sample_credential trust_b ''y'', new_credential 2000 trust_x ''phone'' ?cred]"
  let ?st = "signed_state\<lparr>credentials := ?cs, sessions := [], invitations := [consume 2000 reserved_invitation]\<rparr>"
  have act: "active_trust ?cs = (\<lambda>t. t = trust_a \<or> t = trust_b \<or> t = trust_x)"
    by (rule ext) (auto simp: active_trust_def sample_credential_def new_credential_def)
  have "credentials_ok ?cs" using trust_x_new
    by (simp add: credentials_ok_def access_limits bad_credential_def sample_credential_def new_credential_def)
  moreover have "invitations_ok (active_trust ?cs) [consume 2000 reserved_invitation]"
    by (simp add: act invitations_ok_def access_limits open_invites_def invitation_ok_def bad_reservation_def
      bad_consumption_def reserved_invitation_def access_durations consume_def)
  moreover have "sessions_ok a []" for a by (simp add: sessions_ok_def trust_sessions_def)
  ultimately have v: "valid_state ?st" using signed_state_valid by (simp add: valid_state_def header_ok_def)
  have o: "open_at (digest_token sample_token) 2000 reserved_invitation"
    by (simp add: open_at_def reserved_invitation_def access_durations)
  have f: "i_rclient reserved_invitation = digest_token sample_token" "i_issuer reserved_invitation = trust_a"
    "i_runtil reserved_invitation = Some (1000 + reservation_lifetime)" "2000 < 1000 + reservation_lifetime"
    "cy_invitation trust_ceremony = digest_token sample_token" "cy_client trust_ceremony = digest_token sample_token"
    "cy_label trust_ceremony = ''phone''"
    by (simp_all add: reserved_invitation_def trust_ceremony_def access_durations)
  have "digest_token sample_token \<noteq> []" using digest_ok_nonempty by auto
  then have u: "usable_invitation (mg_state ?m) (digest_token sample_token) (digest_token sample_token) 2000 = Some reserved_invitation"
    using o f by (simp add: usable_invitation_def)
  have r: "random_token sample_entropy 16 = Inr trust_x"
    by (simp add: random_token_def sample_entropy_bytes trust_x_def)
  have "active_trust (credentials ?st) trust_x" by (simp add: act)
  from add_session_commits [OF v this _ sample_random(2) _ idle_ready, of 2000 "[]" "[reserved_invitation]"]
  obtain st' issue0 gone m1 issue m' where
    "add_session ?st trust_x trust_x 2000 [] (me_rand2 sample_mgr_env) = Inr (st', issue0, gone)"
    "commit_locked sample_mgr_env st' ?m = (Inr (), m1)" "issue_session issue0 gone m1 = (issue, m')"
    by auto
  moreover have "registered (me_now sample_mgr_env) trust_ceremony trust_x ?cred reserved_invitation (mg_state ?m) = ?st"
    using o by (simp add: registered_def set_invitation_def f) (simp add: sample_credential_def)
  ultimately have "commit_registration sample_mgr_env trust_ceremony ?cred [] ?m =
      (Inr issue, notify_authority (TrustedSignInAdded (cy_label trust_ceremony)) m')"
    by (intro commit_registration_works [where i = reserved_invitation and trust = trust_x])
      (use u f r in \<open>simp_all add: access_limits sample_random\<close>, simp_all add: sample_credential_def sample_mgr_env_def)
  then show ?thesis by blast
qed

theorem registration_effect_witness:
  "\<exists>m' :: manager. \<exists>t. \<not> active_trust_locked (idle_manager [reserved_invitation]) t \<and> active_trust_locked m' t"
proof -
  obtain issue m' where r: "commit_registration sample_mgr_env trust_ceremony (c_cred (sample_credential trust_a ''z'')) []
      (idle_manager [reserved_invitation]) = (Inr issue, m')" using sample_registration by blast
  from registration_effect [OF r idle_inv [OF reserved_ok]] show ?thesis by blast
qed

end
