(* ===== verification/Json.thy ===== *)
theory Json
  imports Utf8
begin

text \<open>
  JSON values and the parts of Go's \<open>encoding/json\<close> that decode them into structs, maps and slices.
  A \<open>json.RawMessage\<close> is the value its text denotes; reading the text is the library's.  A decoder is a
  function to an option: \<open>None\<close> is the error \<open>json.Unmarshal\<close> returns.
\<close>

datatype json = JNull | JBool bool | JNum string | JStr string | JArr "json list" | JObj "(string \<times> json) list"

type_synonym fields = "(string \<times> json) list"

section \<open>Matching keys\<close>

text \<open>Field names match keys that are equal after Unicode folding: letters in either case, the long s
  and the Kelvin sign.  The names here are lower-case ASCII.\<close>
definition fold_rune :: "nat \<Rightarrow> nat" where
  "fold_rune r = (if 65 \<le> r \<and> r \<le> 90 then r + 32 else if r = 0x17F then 115 else if r = 0x212A then 107 else r)"

definition fold_key :: "string \<Rightarrow> nat list" where
  "fold_key k = map fold_rune (runes k)"

text \<open>The values a struct field is decoded from, in the order of the text.\<close>
definition entries :: "string \<Rightarrow> fields \<Rightarrow> json list" where
  "entries name fs = map snd (filter (\<lambda>(k, v). fold_key k = fold_key name) fs)"

text \<open>Keys in ASCII compare bit by bit, which evaluates faster than their runes.\<close>
fun lower7 :: "char \<Rightarrow> char" where
  "lower7 (Char b0 b1 b2 b3 b4 b5 b6 b7) =
     Char b0 b1 b2 b3 b4 (b5 \<or> b6 \<and> (b0 \<or> b1 \<or> b2 \<or> b3 \<or> b4) \<and> \<not> (b4 \<and> b3 \<and> (b2 \<or> b1 \<and> b0))) b6 b7"

definition ascii7 :: "string \<Rightarrow> bool" where "ascii7 k = list_all (\<lambda>c. \<not> digit7 c) k"

lemma fold_rune_lower7: "\<not> digit7 c \<Longrightarrow> fold_rune (byte c) = byte (lower7 c)"
  by (cases c rule: lower7.cases) (auto simp: fold_rune_def of_char_def)

lemma fold_key_ascii7:
  assumes "ascii7 k"
  shows "fold_key k = map byte (map lower7 k)"
proof -
  have a: "\<not> digit7 c" if "c \<in> set k" for c using assms that by (simp add: ascii7_def list_all_iff)
  have "byte c < 128" if "c \<in> set k" for c using a [OF that] by (cases c) (auto simp: of_char_def split: if_splits)
  then have "runes k = map of_char k" by (simp add: runes_def rune_chunks_ascii)
  then show ?thesis using a by (simp add: fold_key_def fold_rune_lower7)
qed

lemma entries_code [code]:
  "entries name fs = (if ascii7 name then map snd (filter (\<lambda>(k, v). if ascii7 k then map lower7 k = map lower7 name else fold_key k = fold_key name) fs)
     else map snd (filter (\<lambda>(k, v). fold_key k = fold_key name) fs))"
proof -
  have "map byte xs = map byte ys \<longleftrightarrow> xs = ys" for xs ys :: string by (simp add: inj_map_eq_map inj_of_char)
  then have "fold_key k = fold_key name \<longleftrightarrow> map lower7 k = map lower7 name" if "ascii7 k" "ascii7 name" for k
    using that by (simp only: fold_key_ascii7)
  then have "(\<lambda>(k, v :: json). if ascii7 k then map lower7 k = map lower7 name else fold_key k = fold_key name)
      = (\<lambda>(k, v). fold_key k = fold_key name)" if "ascii7 name" using that by (auto simp: fun_eq_iff)
  then show ?thesis by (simp add: entries_def)
qed

text \<open>A \<open>map[string]json.RawMessage\<close>: keys match exactly and the last one stays.\<close>
definition raw_map :: "fields \<Rightarrow> string \<Rightarrow> json option" where
  "raw_map fs = map_of (rev fs)"

section \<open>Decoding a field\<close>

definition last_or_null :: "json list \<Rightarrow> json" where
  "last_or_null vs = (if vs = [] then JNull else last vs)"

text \<open>The fields of a struct: null leaves every field as it was, anything but an object is an error.\<close>
definition struct_fields :: "json \<Rightarrow> fields option" where
  "struct_fields v = (case v of JObj fs \<Rightarrow> Some fs | JNull \<Rightarrow> Some [] | _ \<Rightarrow> None)"

text \<open>A field of type \<open>any\<close>.\<close>
definition get_any :: "string \<Rightarrow> fields \<Rightarrow> json" where
  "get_any name fs = last_or_null (entries name fs)"

definition is_str :: "json \<Rightarrow> bool" where "is_str v = (case v of JStr _ \<Rightarrow> True | _ \<Rightarrow> False)"
definition is_arr :: "json \<Rightarrow> bool" where "is_arr v = (case v of JArr _ \<Rightarrow> True | _ \<Rightarrow> False)"
definition is_obj :: "json \<Rightarrow> bool" where "is_obj v = (case v of JObj _ \<Rightarrow> True | _ \<Rightarrow> False)"

definition str_of :: "json \<Rightarrow> string option" where
  "str_of v = (case v of JStr s \<Rightarrow> Some s | _ \<Rightarrow> None)"

text \<open>A \<open>*string\<close> field: null sets it to nil.\<close>
definition get_ptr_string :: "string \<Rightarrow> fields \<Rightarrow> string option option" where
  "get_ptr_string name fs =
     (let vs = entries name fs
      in if list_all (\<lambda>v. is_str v \<or> v = JNull) vs then Some (str_of (last_or_null vs)) else None)"

text \<open>A \<open>string\<close> field: null leaves it as it was.\<close>
definition get_string :: "string \<Rightarrow> fields \<Rightarrow> string option" where
  "get_string name fs =
     (let vs = entries name fs
      in if list_all (\<lambda>v. is_str v \<or> v = JNull) vs
         then Some (case str_of (last_or_null (filter is_str vs)) of Some s \<Rightarrow> s | None \<Rightarrow> [])
         else None)"

text \<open>A \<open>[]json.RawMessage\<close> field: null sets it to nil.\<close>
definition get_array :: "string \<Rightarrow> fields \<Rightarrow> json list option option" where
  "get_array name fs =
     (let vs = entries name fs
      in if list_all (\<lambda>v. is_arr v \<or> v = JNull) vs
         then Some (case last_or_null vs of JArr xs \<Rightarrow> Some xs | _ \<Rightarrow> None)
         else None)"

text \<open>A field of a struct type: every object given for it is decoded into the same struct.\<close>
definition get_struct :: "string \<Rightarrow> fields \<Rightarrow> fields option" where
  "get_struct name fs =
     (let vs = entries name fs
      in if list_all (\<lambda>v. is_obj v \<or> v = JNull) vs
         then Some (concat (map (\<lambda>v. case v of JObj gs \<Rightarrow> gs | _ \<Rightarrow> []) vs)) else None)"

text \<open>\<open>json.Unmarshal\<close> into a \<open>bool\<close> and into a \<open>string\<close> variable that holds a value already.\<close>
definition into_bool :: "json \<Rightarrow> bool \<Rightarrow> bool option" where
  "into_bool v b = (case v of JBool c \<Rightarrow> Some c | JNull \<Rightarrow> Some b | _ \<Rightarrow> None)"

definition into_string :: "json \<Rightarrow> string \<Rightarrow> string option" where
  "into_string v s = (case v of JStr t \<Rightarrow> Some t | JNull \<Rightarrow> Some s | _ \<Rightarrow> None)"

section \<open>Sizes, for walks over a value\<close>

lemma size_entry: "v \<in> set (entries name fs) \<Longrightarrow> size v < size (JObj fs)"
proof -
  assume "v \<in> set (entries name fs)"
  then obtain k where "(k, v) \<in> set fs" by (auto simp: entries_def)
  then have "size_prod (\<lambda>_. 0) size (k, v) \<le> size_list (size_prod (\<lambda>_. 0) size) fs"
    by (induction fs) auto
  then show ?thesis by simp
qed

lemma size_last_or_null: "size (last_or_null vs) \<le> Suc (size_list size vs)"
  by (induction vs) (auto simp: last_or_null_def)

lemma get_array_size:
  assumes "get_array name fs = Some (Some xs)" "x \<in> set xs"
  shows "size x < size (JObj fs)"
proof -
  let ?vs = "entries name fs"
  have l: "last_or_null ?vs = JArr xs"
    using assms(1) by (auto simp: get_array_def Let_def split: if_splits json.splits)
  then have "?vs \<noteq> []" by (auto simp: last_or_null_def)
  with l have "JArr xs \<in> set ?vs" by (metis last_in_set last_or_null_def)
  then have "size (JArr xs) < size (JObj fs)" by (rule size_entry)
  moreover have "size x < size (JArr xs)" using assms(2) by (induction xs) auto
  ultimately show ?thesis by simp
qed

end
