(* ===== verification/HerdrTypes.thy ===== *)
theory HerdrTypes
  imports Json
begin

text \<open>
  The data of \<open>internal/herdr/types.go\<close>: what Herdr reports in one read (a \<open>Snapshot\<close>), and the view of
  it that Shepherdr publishes (a \<open>Home\<close>), with the errors of \<open>errors.go\<close> and the checks of the version
  that \<open>client.go\<close> and \<open>core_client.go\<close> make.  A \<open>uint\<close> or \<open>uint64\<close> that is only compared is a \<open>nat\<close>.
\<close>

section \<open>Statuses\<close>

text \<open>A status is the text Herdr sends; these are the known ones.\<close>
type_synonym status = string

definition StatusWorking :: status where "StatusWorking = ''working''"
definition StatusBlocked :: status where "StatusBlocked = ''blocked''"
definition StatusIdle :: status where "StatusIdle = ''idle''"
definition StatusDone :: status where "StatusDone = ''done''"
definition StatusUnknown :: status where "StatusUnknown = ''unknown''"
definition StatusError :: status where "StatusError = ''error''"

lemmas status_defs = StatusWorking_def StatusBlocked_def StatusIdle_def StatusDone_def StatusUnknown_def StatusError_def

definition status_valid :: "status \<Rightarrow> bool" where
  "status_valid s \<longleftrightarrow> s \<in> {StatusWorking, StatusBlocked, StatusIdle, StatusDone, StatusUnknown}"

lemma statuses_distinct: "distinct [StatusWorking, StatusBlocked, StatusError, StatusIdle, StatusDone, StatusUnknown]"
  by (simp add: status_defs)

section \<open>What Herdr reports\<close>

record agent_session =
  as_agent :: string
  as_kind :: string
  as_source :: string
  as_value :: string

record agent_info =
  ai_agent :: "string option"
  ai_session :: "agent_session option"
  ai_status :: status
  ai_display :: "string option"
  ai_name :: "string option"
  ai_pane :: string
  ai_revision :: nat
  ai_seq :: nat
  ai_tab :: string
  ai_terminal :: string
  ai_title :: "string option"
  ai_workspace :: string

record pane_info =
  pi_cwd :: string
  pi_focused :: bool
  pi_label :: "string option"
  pi_id :: string
  pi_tab :: string
  pi_terminal :: string
  pi_title :: string
  pi_stripped :: string
  pi_workspace :: string

record tab_info =
  ti_focused :: bool
  ti_label :: string
  ti_number :: nat
  ti_panes :: nat
  ti_id :: string
  ti_workspace :: string

record worktree_info =
  wt_linked :: bool
  wt_repo :: string
  wt_checkout :: string
  wt_valid :: bool

record workspace_info =
  wi_active :: string
  wi_focused :: bool
  wi_label :: string
  wi_number :: nat
  wi_id :: string
  wi_worktree :: "worktree_info option"

record rectangle =
  rc_height :: int
  rc_width :: int
  rc_x :: int
  rc_y :: int

record layout_pane =
  lp_focused :: bool
  lp_pane :: string
  lp_rect :: rectangle

record layout_info =
  li_focused :: string
  li_panes :: "layout_pane list"
  li_tab :: string
  li_workspace :: string
  li_zoomed :: bool

record snapshot =
  sn_agents :: "agent_info list"
  sn_focused_pane :: string
  sn_focused_tab :: string
  sn_focused_workspace :: string
  sn_layouts :: "layout_info list"
  sn_panes :: "pane_info list"
  sn_protocol :: nat
  sn_tabs :: "tab_info list"
  sn_version :: string
  sn_workspaces :: "workspace_info list"

text \<open>\<open>WorktreeInfo.UnmarshalJSON\<close> on a fresh value: it never fails, an unusable worktree is not valid.\<close>
definition unmarshal_worktree :: "json \<Rightarrow> worktree_info" where
  "unmarshal_worktree v =
     (let w = \<lparr>wt_linked = False, wt_repo = [], wt_checkout = [], wt_valid = False\<rparr>
      in case v of JObj fs \<Rightarrow>
           (case (raw_map fs ''is_linked_worktree'', raw_map fs ''repo_key'') of
              (Some linked, Some repo) \<Rightarrow>
                (case into_bool linked False of None \<Rightarrow> w
                 | Some b \<Rightarrow>
                   (case into_string repo [] of None \<Rightarrow> w\<lparr>wt_linked := b\<rparr>
                    | Some r \<Rightarrow>
                      if r = [] then w\<lparr>wt_linked := b\<rparr>
                      else w\<lparr>wt_linked := b, wt_repo := r, wt_valid := True,
                             wt_checkout := (case raw_map fs ''checkout_path'' of None \<Rightarrow> []
                                            | Some c \<Rightarrow> (case into_string c [] of None \<Rightarrow> [] | Some t \<Rightarrow> t))\<rparr>))
            | _ \<Rightarrow> w)
         | _ \<Rightarrow> w)"

lemma unmarshal_worktree_valid:
  "wt_valid (unmarshal_worktree v) \<Longrightarrow> wt_repo (unmarshal_worktree v) \<noteq> []"
  by (auto simp: unmarshal_worktree_def Let_def split: json.splits option.splits if_splits)

section \<open>What Shepherdr shows\<close>

record agent =
  ag_kind :: string
  ag_name :: string
  ag_status :: status
  ag_pinned :: bool

datatype terminal_action = TerminalActionSplit | TerminalActionRename | TerminalActionClose | TerminalActionPin | TerminalActionUnpin

datatype workspace_action =
    WorkspaceActionCreateWorktree | WorkspaceActionCloseWorkspace | WorkspaceActionCloseGroup
  | WorkspaceActionDeleteCheckout | WorkspaceActionRenameSpace

datatype home_action = HomeActionCreateSpace

record terminal =
  tm_actions :: "terminal_action list"
  tm_agent :: "agent option"
  tm_manual :: "string option"
  tm_pane :: string
  tm_terminal :: string
  tm_title :: string

record tab =
  tb_current :: bool
  tb_id :: string
  tb_label :: string
  tb_number :: nat
  tb_terminals :: "terminal list"

record agent_counts =
  ac_working :: nat
  ac_blocked :: nat
  ac_error :: nat
  ac_idle :: nat
  ac_done :: nat
  ac_unknown :: nat

record workspace =
  ws_counts :: "agent_counts option"
  ws_actions :: "workspace_action list"
  ws_checkout :: string
  ws_group_counts :: "agent_counts option"
  ws_id :: string
  ws_label :: string
  ws_manual :: "string option"
  ws_number :: nat
  ws_tabs :: "tab list"

text \<open>A workspace as \<open>Home\<close> lists it.  The code's type is recursive in \<open>Worktrees\<close>, but only \<open>groupWorktrees\<close>
  sets that field, to workspaces of the list, whose own is empty.\<close>
record home_workspace = workspace +
  hw_worktrees :: "workspace list"

record home =
  hm_actions :: "home_action list"
  hm_app_window :: string
  hm_blocked :: nat
  hm_error :: nat
  hm_working :: nat
  hm_workspaces :: "home_workspace list"

definition ungrouped :: "workspace \<Rightarrow> home_workspace" where
  "ungrouped w = workspace.extend w \<lparr>hw_worktrees = []\<rparr>"

definition empty_home :: home where
  "empty_home = \<lparr>hm_actions = [], hm_app_window = [], hm_blocked = 0, hm_error = 0, hm_working = 0, hm_workspaces = []\<rparr>"

section \<open>Errors\<close>

datatype herdr_error =
    InvalidStatus string
  | Incoherent string
  | ApiError string string
  | VersionTooOld string nat
  | InterfaceMismatch string nat
  | CoreCompatibility string
  | NotRunning
  | OtherError string

section \<open>Versions\<close>

text \<open>The functions of \<open>golang.org/x/mod/semver\<close> the code calls; they are not part of the repository.\<close>
record semver =
  sv_valid :: "string \<Rightarrow> bool"
  sv_prerelease :: "string \<Rightarrow> string"
  sv_canonical :: "string \<Rightarrow> string"
  sv_compare :: "string \<Rightarrow> string \<Rightarrow> int"

definition minimum_supported :: string where "minimum_supported = ''v0.9.0''"
definition maximum_supported :: string where "maximum_supported = ''v0.9.5''"
definition minimum_supported_core :: string where "minimum_supported_core = ''v0.1.15''"
definition maximum_supported_core :: string where "maximum_supported_core = ''v0.1.18''"
definition protocol22 :: nat where "protocol22 = 22"

text \<open>\<open>parseSemanticVersion\<close>: only a version with two dots before its suffix counts.\<close>
definition parse_semantic_version :: "semver \<Rightarrow> string \<Rightarrow> string \<times> bool" where
  "parse_semantic_version sv version =
     (let core = takeWhile (\<lambda>c. c \<noteq> CHR ''+'' \<and> c \<noteq> CHR ''-'') version; parsed = CHR ''v'' # version
      in (parsed, length (filter (\<lambda>c. c = CHR ''.'') core) = 2 \<and> sv_valid sv parsed))"

datatype version_verdict = VersionFine | VersionWarning string

definition check_compatibility :: "semver \<Rightarrow> string \<Rightarrow> nat \<Rightarrow> herdr_error + version_verdict" where
  "check_compatibility sv version proto =
     (let (parsed, ok) = parse_semantic_version sv version
      in if \<not> ok then Inr (VersionWarning ''could not verify'')
         else if sv_compare sv parsed minimum_supported < 0 then Inl (VersionTooOld version proto)
         else if sv_compare sv parsed maximum_supported > 0 then Inr (VersionWarning ''newer than the supported range'')
         else if sv_prerelease sv parsed \<noteq> [] then Inr (VersionWarning ''outside the supported range'')
         else if proto \<noteq> protocol22 then Inl (InterfaceMismatch version proto)
         else Inr VersionFine)"

definition terminal_management_available :: "semver \<Rightarrow> string \<Rightarrow> bool" where
  "terminal_management_available sv version =
     (let (parsed, ok) = parse_semantic_version sv version
      in ok \<and> sv_prerelease sv parsed = []
         \<and> trim_prefix (sv_canonical sv parsed) ''v''
            \<in> {''0.8.0'', ''0.8.2'', ''0.9.0'', ''0.9.1'', ''0.9.2'', ''0.9.3'', ''0.9.4'', ''0.9.5''})"

definition available_terminal_actions :: "semver \<Rightarrow> string \<Rightarrow> terminal_action list" where
  "available_terminal_actions sv version =
     (if terminal_management_available sv version then [TerminalActionSplit, TerminalActionRename] else [])"

definition check_core_version :: "semver \<Rightarrow> string \<Rightarrow> herdr_error + version_verdict" where
  "check_core_version sv version =
     (let (parsed, ok) = parse_semantic_version sv version
      in if \<not> ok then Inr (VersionWarning ''could not verify'')
         else if sv_compare sv parsed minimum_supported_core < 0
           then Inl (CoreCompatibility (''Herdr Core '' @ version @ '' is older than the supported range; Shepherdr supports Herdr Core 0.1.15 through 0.1.18.''))
         else if sv_compare sv parsed maximum_supported_core > 0 \<or> sv_prerelease sv parsed \<noteq> []
           then Inr (VersionWarning ''outside the supported range'')
         else Inr VersionFine)"

record core_hello =
  ch_id :: string
  ch_features :: "string list"
  ch_generation :: nat
  ch_methods :: "string list"
  ch_version :: string

definition core_generation :: nat where "core_generation = 1"

definition core_required_features :: "string list" where
  "core_required_features = [''events'', ''framed'', ''attach'']"

definition core_required_methods :: "string list" where
  "core_required_methods = [''hello'', ''events.subscribe'', ''terminal.list'', ''doc.get'', ''terminal.attach'',
     ''terminal.keys'', ''terminal.kill'', ''terminal.run'']"

definition core_cannot_serve :: "string \<Rightarrow> herdr_error" where
  "core_cannot_serve missing = CoreCompatibility
     (''This Herdr Core can'' @ CHR 0x27 # ''t serve Shepherdr: it doesn'' @ CHR 0x27 # ''t offer '' @ missing @ ''.'')"

definition check_hello :: "semver \<Rightarrow> core_hello \<Rightarrow> herdr_error + version_verdict" where
  "check_hello sv h =
     (if ch_generation h \<noteq> core_generation then Inl (core_cannot_serve ''protocol generation 1'')
      else if ch_id h = [] then Inl (OtherError ''Herdr Core did not report its identity'')
      else case find (\<lambda>f. f \<notin> set (ch_features h)) core_required_features of
        Some f \<Rightarrow> Inl (core_cannot_serve f)
      | None \<Rightarrow>
        (case find (\<lambda>x. x \<notin> set (ch_methods h)) core_required_methods of
           Some x \<Rightarrow> Inl (core_cannot_serve x)
         | None \<Rightarrow> check_core_version sv (ch_version h)))"

end
