(* ===== verification/GoPath.thy ===== *)
theory GoPath
  imports Utf8
begin

text \<open>
  The parts of Go's \<open>path/filepath\<close> package that the code uses, on Unix paths, and \<open>strings.Cut\<close> at a
  separator of several bytes.
\<close>

text \<open>\<open>filepath.IsAbs\<close>.\<close>
definition is_abs :: "string \<Rightarrow> bool" where "is_abs p \<longleftrightarrow> has_prefix p ''/''"

definition join_slash :: "string list \<Rightarrow> string" where
  "join_slash ps = (case ps of [] \<Rightarrow> [] | p # qs \<Rightarrow> p @ concat (map (\<lambda>q. CHR ''/'' # q) qs))"

text \<open>The elements a path is cleaned to, in reverse: dots and empty elements go, \<open>..\<close> takes back the element before
  it, and at the root it goes too.\<close>
fun clean_parts :: "bool \<Rightarrow> string list \<Rightarrow> string list \<Rightarrow> string list" where
  "clean_parts rooted acc [] = acc"
| "clean_parts rooted acc (p # ps) =
     (if p = [] \<or> p = ''.'' then clean_parts rooted acc ps
      else if p = ''..'' then
        (case acc of
           [] \<Rightarrow> clean_parts rooted (if rooted then [] else [''..'']) ps
         | a # as \<Rightarrow> if a = ''..'' then clean_parts rooted (''..'' # acc) ps else clean_parts rooted as ps)
      else clean_parts rooted (p # acc) ps)"

text \<open>\<open>filepath.Clean\<close>.\<close>
definition path_clean :: "string \<Rightarrow> string" where
  "path_clean p =
     (let r = (if is_abs p then ''/'' else []) @ join_slash (rev (clean_parts (is_abs p) [] (split_on (CHR ''/'') p)))
      in if r = [] then ''.'' else r)"

text \<open>\<open>filepath.Base\<close>.\<close>
definition path_base :: "string \<Rightarrow> string" where
  "path_base p =
     (if p = [] then ''.''
      else let q = rev (dropWhile (\<lambda>c. c = CHR ''/'') (rev p))
        in if q = [] then ''/'' else rev (takeWhile (\<lambda>c. c \<noteq> CHR ''/'') (rev q)))"

text \<open>\<open>strings.Cut\<close>: \<open>None\<close> when the separator is not found.\<close>
fun cut_str :: "string \<Rightarrow> string \<Rightarrow> (string \<times> string) option" where
  "cut_str sep [] = (if sep = [] then Some ([], []) else None)"
| "cut_str sep (c # s) =
     (if has_prefix (c # s) sep then Some ([], drop (length sep) (c # s))
      else map_option (\<lambda>(a, b). (c # a, b)) (cut_str sep s))"

lemma cut_str_Some: "cut_str sep s = Some (a, b) \<Longrightarrow> s = a @ sep @ b"
proof (induction s arbitrary: a)
  case (Cons c s)
  then show ?case by (auto simp: has_prefix_iff split: if_splits)
qed (simp split: if_splits)

end
