(* ===== verification/HerdrActions.thy ===== *)
theory HerdrActions
  imports HerdrTypes GoPath "HOL-Library.List_Lexorder" "HOL-Library.Product_Lexorder"
begin

text \<open>
  The first half of \<open>internal/herdr/actions.go\<close>: which actions Home offers for a workspace of the Herdr
  TUI and what each would act on.  The requests that carry them out only talk to the socket.
\<close>

record worktree_source =
  src_workspace :: string
  src_cwd :: string

record action_target =
  tg_workspace :: workspace_info
  tg_scope :: "string list"
  tg_checkout :: string
  tg_source :: worktree_source

definition no_source :: worktree_source where "no_source = \<lparr>src_workspace = [], src_cwd = []\<rparr>"




definition find_workspace :: "snapshot \<Rightarrow> string \<Rightarrow> workspace_info option" where
  "find_workspace sn k = find (\<lambda>w. wi_id w = k) (sn_workspaces sn)"

definition unique_workspace :: "snapshot \<Rightarrow> string \<Rightarrow> bool" where
  "unique_workspace sn k \<longleftrightarrow> length (filter (\<lambda>w. wi_id w = k) (sn_workspaces sn)) = 1"

text \<open>The only match, as \<open>findPane\<close>, \<open>findTab\<close> and \<open>findLayout\<close> return it.\<close>
definition the_only :: "('a \<Rightarrow> bool) \<Rightarrow> 'a list \<Rightarrow> 'a option" where
  "the_only p xs = (case filter p xs of [x] \<Rightarrow> Some x | _ \<Rightarrow> None)"

definition find_pane :: "snapshot \<Rightarrow> string \<Rightarrow> pane_info option" where
  "find_pane sn k = the_only (\<lambda>p. pi_id p = k) (sn_panes sn)"

definition find_tab :: "snapshot \<Rightarrow> string \<Rightarrow> tab_info option" where
  "find_tab sn k = the_only (\<lambda>t. ti_id t = k) (sn_tabs sn)"

definition find_layout :: "snapshot \<Rightarrow> string \<Rightarrow> layout_info option" where
  "find_layout sn k = the_only (\<lambda>l. li_tab l = k) (sn_layouts sn)"

definition ordinary_of :: "string \<Rightarrow> workspace_info \<Rightarrow> bool" where
  "ordinary_of repo w = (case wi_worktree w of None \<Rightarrow> False
     | Some t \<Rightarrow> wt_valid t \<and> \<not> wt_linked t \<and> wt_repo t = repo)"

definition is_top_level_repository :: "snapshot \<Rightarrow> workspace_info \<Rightarrow> bool" where
  "is_top_level_repository sn w =
     (case wi_worktree w of None \<Rightarrow> False
      | Some t \<Rightarrow> wt_valid t \<and> \<not> wt_linked t \<and> length (filter (ordinary_of (wt_repo t)) (sn_workspaces sn)) = 1)"

text \<open>The folder a new worktree of a workspace without a repository starts from: the only terminal's, or
  the focused terminal's of the active tab.\<close>
definition resolve_ordinary_cwd :: "snapshot \<Rightarrow> workspace_info \<Rightarrow> string option" where
  "resolve_ordinary_cwd sn w =
     (case filter (\<lambda>p. pi_workspace p = wi_id w) (sn_panes sn) of
        [] \<Rightarrow> None
      | [p] \<Rightarrow>
          (case find_tab sn (pi_tab p) of None \<Rightarrow> None
           | Some t \<Rightarrow>
             if pi_id p = [] \<or> find_pane sn (pi_id p) = None \<or> ti_workspace t \<noteq> wi_id w \<or> \<not> is_abs (pi_cwd p)
             then None else Some (pi_cwd p))
      | _ \<Rightarrow>
        if wi_active w = [] then None
        else case find_tab sn (wi_active w) of None \<Rightarrow> None
        | Some t \<Rightarrow>
          if ti_workspace t \<noteq> wi_id w then None
          else case find_layout sn (ti_id t) of None \<Rightarrow> None
          | Some l \<Rightarrow>
            if li_workspace l \<noteq> wi_id w \<or> li_focused l = [] then None
            else case find_pane sn (li_focused l) of None \<Rightarrow> None
            | Some p \<Rightarrow>
              if pi_workspace p \<noteq> wi_id w \<or> pi_tab p \<noteq> ti_id t \<or> \<not> is_abs (pi_cwd p) then None
              else Some (pi_cwd p))"

definition same_repo :: "string \<Rightarrow> workspace_info \<Rightarrow> bool" where
  "same_repo repo w = (case wi_worktree w of None \<Rightarrow> False | Some t \<Rightarrow> wt_valid t \<and> wt_repo t = repo)"

definition worktree_of :: "workspace_info \<Rightarrow> worktree_info" where
  "worktree_of w = (case wi_worktree w of Some t \<Rightarrow> t | None \<Rightarrow> \<lparr>wt_linked = False, wt_repo = [], wt_checkout = [], wt_valid = False\<rparr>)"

text \<open>\<open>ResolveWorkspaceAction\<close>: \<open>None\<close> when the workspace is not found, else the target and whether the
  action applies.\<close>
definition resolve_workspace_action :: "snapshot \<Rightarrow> workspace_action \<Rightarrow> string \<Rightarrow> (action_target \<times> bool) option" where
  "resolve_workspace_action sn a k =
     (case find_workspace sn k of None \<Rightarrow> None
      | Some w \<Rightarrow>
        let tg = \<lparr>tg_workspace = w, tg_scope = [k], tg_checkout = [], tg_source = no_source\<rparr>;
            wt = wi_worktree w;
            top = is_top_level_repository sn w
        in if wt \<noteq> None \<and> \<not> wt_valid (worktree_of w) then Some (tg, False)
           else case a of
             WorkspaceActionCreateWorktree \<Rightarrow>
               if \<not> unique_workspace sn k then Some (tg, False)
               else if top then
                 Some (tg\<lparr>tg_checkout := wt_checkout (worktree_of w), tg_source := no_source\<lparr>src_workspace := k\<rparr>\<rparr>, True)
               else if wt = None then
                 (case resolve_ordinary_cwd sn w of None \<Rightarrow> Some (tg, False)
                  | Some cwd \<Rightarrow> Some (tg\<lparr>tg_source := no_source\<lparr>src_cwd := cwd\<rparr>\<rparr>, True))
               else Some (tg, False)
           | WorkspaceActionCloseWorkspace \<Rightarrow>
               Some (tg, \<not> (wt \<noteq> None \<and> wt_valid (worktree_of w) \<and> \<not> wt_linked (worktree_of w)))
           | WorkspaceActionCloseGroup \<Rightarrow>
               if \<not> top then Some (tg, False)
               else Some (tg\<lparr>tg_scope := sort (map wi_id (filter (same_repo (wt_repo (worktree_of w))) (sn_workspaces sn)))\<rparr>, True)
           | WorkspaceActionDeleteCheckout \<Rightarrow>
               if wt = None \<or> \<not> wt_valid (worktree_of w) \<or> \<not> wt_linked (worktree_of w) \<or> wt_checkout (worktree_of w) = []
               then Some (tg, False)
               else Some (tg\<lparr>tg_checkout := wt_checkout (worktree_of w)\<rparr>, True)
           | WorkspaceActionRenameSpace \<Rightarrow> Some (tg, False))"

definition action_applies :: "snapshot \<Rightarrow> string \<Rightarrow> workspace_action \<Rightarrow> bool" where
  "action_applies sn k a = (case resolve_workspace_action sn a k of Some (_, ok) \<Rightarrow> ok | None \<Rightarrow> False)"

definition available_workspace_actions :: "snapshot \<Rightarrow> string \<Rightarrow> workspace_action list" where
  "available_workspace_actions sn k =
     filter (action_applies sn k)
       [WorkspaceActionCreateWorktree, WorkspaceActionCloseWorkspace, WorkspaceActionCloseGroup, WorkspaceActionDeleteCheckout]"

definition resolve_close_action :: "snapshot \<Rightarrow> string \<Rightarrow> workspace_action option" where
  "resolve_close_action sn k = find (action_applies sn k) [WorkspaceActionCloseWorkspace, WorkspaceActionCloseGroup]"

section \<open>What the actions reach\<close>

lemma find_workspace_Some: "find_workspace sn k = Some w \<Longrightarrow> w \<in> set (sn_workspaces sn) \<and> wi_id w = k"
  unfolding find_workspace_def by (rule find_SomeD)

lemma top_level_worktree:
  "is_top_level_repository sn w \<longleftrightarrow>
     (\<exists>t. wi_worktree w = Some t \<and> wt_valid t \<and> \<not> wt_linked t
        \<and> length (filter (ordinary_of (wt_repo t)) (sn_workspaces sn)) = 1)"
  by (simp add: is_top_level_repository_def split: option.splits)

lemma worktree_of_Some [simp]: "wi_worktree w = Some t \<Longrightarrow> worktree_of w = t"
  by (simp add: worktree_of_def)

text \<open>When each action is offered.\<close>
lemma close_workspace_applies:
  "action_applies sn k WorkspaceActionCloseWorkspace \<longleftrightarrow>
     (\<exists>w. find_workspace sn k = Some w \<and> (case wi_worktree w of None \<Rightarrow> True | Some t \<Rightarrow> wt_valid t \<and> wt_linked t))"
  by (auto simp: action_applies_def resolve_workspace_action_def Let_def split: option.splits)

lemma close_group_applies:
  "action_applies sn k WorkspaceActionCloseGroup \<longleftrightarrow>
     (\<exists>w. find_workspace sn k = Some w \<and> is_top_level_repository sn w)"
  by (auto simp: action_applies_def resolve_workspace_action_def Let_def top_level_worktree split: option.splits)

lemma delete_checkout_applies:
  "action_applies sn k WorkspaceActionDeleteCheckout \<longleftrightarrow>
     (\<exists>w t. find_workspace sn k = Some w \<and> wi_worktree w = Some t \<and> wt_valid t \<and> wt_linked t \<and> wt_checkout t \<noteq> [])"
  by (auto simp: action_applies_def resolve_workspace_action_def Let_def split: option.splits)

text \<open>C18.  What a workspace action reaches.  Closing a workspace and deleting a checkout reach that workspace only,
  and are never offered for the main checkout of a repository; closing a group is offered for the only main
  checkout of a repository and reaches exactly the workspaces of that repository, itself among them, each
  once; a workspace is never offered both ways of closing.\<close>
theorem workspace_action_scope:
  "(\<forall>tg. resolve_workspace_action sn a k = Some (tg, True) \<longrightarrow>
      tg_workspace tg \<in> set (sn_workspaces sn) \<and> wi_id (tg_workspace tg) = k
      \<and> (a = WorkspaceActionCloseGroup \<or> tg_scope tg = [k])
      \<and> (a = WorkspaceActionCloseGroup \<longrightarrow> (\<exists>t. wi_worktree (tg_workspace tg) = Some t
          \<and> k \<in> set (tg_scope tg) \<and> mset (tg_scope tg) = image_mset wi_id (mset (filter (same_repo (wt_repo t)) (sn_workspaces sn)))))
      \<and> (a \<in> {WorkspaceActionCloseWorkspace, WorkspaceActionDeleteCheckout} \<longrightarrow>
           (\<forall>t. wi_worktree (tg_workspace tg) = Some t \<longrightarrow> wt_linked t)))
    \<and> \<not> (action_applies sn k WorkspaceActionCloseWorkspace \<and> action_applies sn k WorkspaceActionCloseGroup)"
proof (intro conjI allI impI)
  show "\<not> (action_applies sn k WorkspaceActionCloseWorkspace \<and> action_applies sn k WorkspaceActionCloseGroup)"
    unfolding close_workspace_applies close_group_applies top_level_worktree by auto
next
  fix tg assume r: "resolve_workspace_action sn a k = Some (tg, True)"
  then obtain w where w: "find_workspace sn k = Some w" by (auto simp: resolve_workspace_action_def split: option.splits)
  note f = find_workspace_Some [OF w]
  have tw: "tg_workspace tg = w" using r w
    by (auto simp: resolve_workspace_action_def Let_def split: workspace_action.splits if_splits option.splits)
  with f show "tg_workspace tg \<in> set (sn_workspaces sn)" "wi_id (tg_workspace tg) = k" by auto
  show "a = WorkspaceActionCloseGroup \<or> tg_scope tg = [k]" using r w
    by (auto simp: resolve_workspace_action_def Let_def split: workspace_action.splits if_splits option.splits)
  show "\<exists>t. wi_worktree (tg_workspace tg) = Some t \<and> k \<in> set (tg_scope tg)
      \<and> mset (tg_scope tg) = image_mset wi_id (mset (filter (same_repo (wt_repo t)) (sn_workspaces sn)))"
    if "a = WorkspaceActionCloseGroup"
  proof -
    from r w that obtain t where t: "wi_worktree w = Some t" "wt_valid t"
      and tg: "tg_scope tg = sort (map wi_id (filter (same_repo (wt_repo t)) (sn_workspaces sn)))"
      by (auto simp: resolve_workspace_action_def Let_def top_level_worktree split: if_splits)
    have "same_repo (wt_repo t) w" using t by (simp add: same_repo_def)
    with f t tg tw show ?thesis by auto
  qed
  show "wt_linked t" if "a \<in> {WorkspaceActionCloseWorkspace, WorkspaceActionDeleteCheckout}"
    "wi_worktree (tg_workspace tg) = Some t" for t
    using r w that tw by (auto simp: resolve_workspace_action_def Let_def split: if_splits)
qed

text \<open>A read with a repository's main checkout and a linked worktree, a terminal in each and an agent in the first.\<close>
definition sample_pane :: "string \<Rightarrow> string \<Rightarrow> string \<Rightarrow> pane_info" where
  "sample_pane k t w = \<lparr>pi_cwd = ''/src'', pi_focused = False, pi_label = None, pi_id = k, pi_tab = t, pi_terminal = ''t'' @ k,
     pi_title = [], pi_stripped = [], pi_workspace = w\<rparr>"

definition sample_workspace :: "string \<Rightarrow> bool \<Rightarrow> workspace_info" where
  "sample_workspace k linked = \<lparr>wi_active = [], wi_focused = False, wi_label = k, wi_number = 1, wi_id = k,
     wi_worktree = Some \<lparr>wt_linked = linked, wt_repo = ''repo'', wt_checkout = ''/src'', wt_valid = True\<rparr>\<rparr>"

definition sample_tab :: "string \<Rightarrow> string \<Rightarrow> tab_info" where
  "sample_tab k w = \<lparr>ti_focused = False, ti_label = [], ti_number = 1, ti_panes = 1, ti_id = k, ti_workspace = w\<rparr>"

definition sample_agent :: agent_info where
  "sample_agent = \<lparr>ai_agent = Some ''claude'', ai_session = None, ai_status = ''working'', ai_display = None, ai_name = None,
     ai_pane = ''p1'', ai_revision = 0, ai_seq = 0, ai_tab = ''t1'', ai_terminal = ''tp1'', ai_title = None, ai_workspace = ''w1''\<rparr>"

definition sample_snapshot :: snapshot where
  "sample_snapshot = \<lparr>sn_agents = [sample_agent], sn_focused_pane = [], sn_focused_tab = [], sn_focused_workspace = [], sn_layouts = [],
     sn_panes = [sample_pane ''p1'' ''t1'' ''w1'', sample_pane ''p2'' ''t2'' ''w2''], sn_protocol = 22,
     sn_tabs = [sample_tab ''t1'' ''w1'', sample_tab ''t2'' ''w2''], sn_version = ''0.9.0'',
     sn_workspaces = [sample_workspace ''w1'' False, sample_workspace ''w2'' True]\<rparr>"

lemmas sample_snapshot_defs = sample_snapshot_def sample_workspace_def sample_tab_def sample_pane_def sample_agent_def

lemma sample_close_group:
  "\<exists>tg. resolve_workspace_action sample_snapshot WorkspaceActionCloseGroup ''w1'' = Some (tg, True)"
  by (simp add: resolve_workspace_action_def find_workspace_def Let_def sample_snapshot_defs top_level_worktree ordinary_of_def)

theorem workspace_action_scope_witness:
  "\<exists>tg. resolve_workspace_action sample_snapshot WorkspaceActionCloseGroup ''w1'' = Some (tg, True) \<and> ''w1'' \<in> set (tg_scope tg)"
proof -
  obtain tg where tg: "resolve_workspace_action sample_snapshot WorkspaceActionCloseGroup ''w1'' = Some (tg, True)"
    using sample_close_group by blast
  with workspace_action_scope [of sample_snapshot WorkspaceActionCloseGroup "''w1''"] show ?thesis by blast
qed

end
