(* ===== verification/HerdrProject.thy ===== *)
theory HerdrProject
  imports HerdrActions
begin

text \<open>
  \<open>Project\<close> of \<open>internal/herdr/types.go\<close>: one read of the Herdr TUI becomes the Home that Shepherdr
  publishes, or an error when the read is not coherent.  The maps the code builds are functions with
  option or list values, filled in the order of the code's loops.
\<close>

section \<open>The checks\<close>

fun check_workspaces :: "workspace_info list \<Rightarrow> (string \<rightharpoonup> workspace_info) \<Rightarrow> herdr_error + (string \<rightharpoonup> workspace_info)" where
  "check_workspaces [] m = Inr m"
| "check_workspaces (w # ws) m =
     (if wi_id w = [] then Inl (Incoherent ''workspace has an empty id'')
      else if m (wi_id w) \<noteq> None then Inl (Incoherent ''workspace id is duplicated'')
      else check_workspaces ws (m(wi_id w \<mapsto> w)))"

record tab_tables =
  tt_source :: "string \<rightharpoonup> tab_info"
  tt_by_workspace :: "string \<Rightarrow> tab_info list"

fun check_tabs :: "(string \<rightharpoonup> workspace_info) \<Rightarrow> tab_info list \<Rightarrow> tab_tables \<Rightarrow> herdr_error + tab_tables" where
  "check_tabs wm [] m = Inr m"
| "check_tabs wm (t # ts) m =
     (if ti_id t = [] then Inl (Incoherent ''tab has an empty id'')
      else if tt_source m (ti_id t) \<noteq> None then Inl (Incoherent ''tab id is duplicated'')
      else if wm (ti_workspace t) = None then Inl (Incoherent ''tab references an unknown workspace'')
      else check_tabs wm ts
        \<lparr>tt_source = (tt_source m)(ti_id t \<mapsto> t),
         tt_by_workspace = (tt_by_workspace m)(ti_workspace t := tt_by_workspace m (ti_workspace t) @ [t])\<rparr>)"

fun check_active :: "(string \<rightharpoonup> tab_info) \<Rightarrow> workspace_info list \<Rightarrow> herdr_error + unit" where
  "check_active tm [] = Inr ()"
| "check_active tm (w # ws) =
     (if wi_active w = [] then check_active tm ws
      else case tm (wi_active w) of
        None \<Rightarrow> Inl (Incoherent ''workspace active tab is unknown or mismatched'')
      | Some t \<Rightarrow> if ti_workspace t \<noteq> wi_id w then Inl (Incoherent ''workspace active tab is unknown or mismatched'')
          else check_active tm ws)"

record pane_tables =
  pt_source :: "string \<rightharpoonup> pane_info"
  pt_terminals :: "string list"
  pt_by_tab :: "string \<Rightarrow> pane_info list"

fun check_panes :: "(string \<rightharpoonup> workspace_info) \<Rightarrow> (string \<rightharpoonup> tab_info) \<Rightarrow> pane_info list \<Rightarrow> pane_tables \<Rightarrow> herdr_error + pane_tables" where
  "check_panes wm tm [] m = Inr m"
| "check_panes wm tm (p # ps) m =
     (if pi_id p = [] \<or> pi_terminal p = [] then Inl (Incoherent ''pane has an empty pane or terminal id'')
      else if pt_source m (pi_id p) \<noteq> None then Inl (Incoherent ''pane id is duplicated'')
      else if pi_terminal p \<in> set (pt_terminals m) then Inl (Incoherent ''terminal id is duplicated'')
      else if (case tm (pi_tab p) of None \<Rightarrow> True | Some t \<Rightarrow> ti_workspace t \<noteq> pi_workspace p)
        then Inl (Incoherent ''pane references an unknown or mismatched tab'')
      else if wm (pi_workspace p) = None then Inl (Incoherent ''pane references an unknown workspace'')
      else check_panes wm tm ps
        \<lparr>pt_source = (pt_source m)(pi_id p \<mapsto> p), pt_terminals = pi_terminal p # pt_terminals m,
         pt_by_tab = (pt_by_tab m)(pi_tab p := pt_by_tab m (pi_tab p) @ [p])\<rparr>)"

definition check_focus ::
  "(string \<rightharpoonup> workspace_info) \<Rightarrow> (string \<rightharpoonup> tab_info) \<Rightarrow> (string \<rightharpoonup> pane_info) \<Rightarrow> snapshot \<Rightarrow> herdr_error + unit" where
  "check_focus wm tm pm sn =
     (let fw = sn_focused_workspace sn; ft = sn_focused_tab sn; fp = sn_focused_pane sn
      in if fw \<noteq> [] \<and> wm fw = None then Inl (Incoherent ''focused workspace is unknown'')
         else if ft \<noteq> [] \<and> (case tm ft of None \<Rightarrow> True | Some t \<Rightarrow> fw \<noteq> [] \<and> ti_workspace t \<noteq> fw)
           then Inl (Incoherent ''focused tab is unknown or mismatched'')
         else if fp \<noteq> [] \<and> (case pm fp of None \<Rightarrow> True
              | Some p \<Rightarrow> fw \<noteq> [] \<and> pi_workspace p \<noteq> fw \<or> ft \<noteq> [] \<and> pi_tab p \<noteq> ft)
           then Inl (Incoherent ''focused pane is unknown or mismatched'')
         else Inr ())"

section \<open>Agents\<close>

definition first_non_empty :: "string option list \<Rightarrow> string" where
  "first_non_empty vs = (case find (\<lambda>v. v \<noteq> None \<and> v \<noteq> Some []) vs of Some (Some s) \<Rightarrow> s | _ \<Rightarrow> [])"

definition value_or_empty :: "string option \<Rightarrow> string" where
  "value_or_empty v = (case v of None \<Rightarrow> [] | Some s \<Rightarrow> s)"

definition agent_of :: "agent_info \<Rightarrow> agent" where
  "agent_of a =
     (let name = first_non_empty [ai_name a, ai_title a, ai_display a, ai_agent a];
          kind = (if value_or_empty (ai_display a) = [] then value_or_empty (ai_agent a) else value_or_empty (ai_display a))
      in \<lparr>ag_kind = kind, ag_name = (if name = [] then ''Agent'' else name), ag_status = ai_status a, ag_pinned = False\<rparr>)"

record agent_tables =
  at_by_pane :: "string \<rightharpoonup> agent"
  at_working :: nat
  at_blocked :: nat
  at_error :: nat

fun project_agents :: "(string \<rightharpoonup> pane_info) \<Rightarrow> agent_info list \<Rightarrow> agent_tables \<Rightarrow> herdr_error + agent_tables" where
  "project_agents pm [] m = Inr m"
| "project_agents pm (a # as) m =
     (if \<not> status_valid (ai_status a) then Inl (InvalidStatus (ai_status a))
      else if (case pm (ai_pane a) of None \<Rightarrow> True
          | Some p \<Rightarrow> pi_workspace p \<noteq> ai_workspace a \<or> pi_tab p \<noteq> ai_tab a \<or> pi_terminal p \<noteq> ai_terminal a)
        then Inl (Incoherent ''agent references an unknown or mismatched terminal'')
      else if at_by_pane m (ai_pane a) \<noteq> None then Inl (Incoherent ''pane has duplicate agent decoration'')
      else project_agents pm as
        \<lparr>at_by_pane = (at_by_pane m)(ai_pane a \<mapsto> agent_of a),
         at_working = at_working m + of_bool (ai_status a = StatusWorking),
         at_blocked = at_blocked m + of_bool (ai_status a = StatusBlocked),
         at_error = at_error m + of_bool (ai_status a = StatusError)\<rparr>)"

section \<open>The order of panes\<close>

text \<open>The panes of a layout that fits: each is one of the tab's, has room and comes once.\<close>
fun place_panes :: "(string \<rightharpoonup> pane_info) \<Rightarrow> layout_pane list \<Rightarrow> string list \<Rightarrow> (rectangle \<times> pane_info) list option" where
  "place_panes m [] seen = Some []"
| "place_panes m (l # ls) seen =
     (case m (lp_pane l) of None \<Rightarrow> None
      | Some p \<Rightarrow>
        if rc_width (lp_rect l) \<le> 0 \<or> rc_height (lp_rect l) \<le> 0 \<or> lp_pane l \<in> set seen then None
        else map_option (\<lambda>ps. (lp_rect l, p) # ps) (place_panes m ls (lp_pane l # seen)))"

definition order_panes :: "pane_info list \<Rightarrow> layout_info list \<Rightarrow> string \<Rightarrow> string \<Rightarrow> pane_info list" where
  "order_panes ps ls ws tb =
     (let fallback = sort_key pi_id ps
      in case ls of
        [l] \<Rightarrow>
          if li_workspace l \<noteq> ws \<or> li_tab l \<noteq> tb \<or> li_zoomed l \<or> length (li_panes l) \<noteq> length ps then fallback
          else (case place_panes (map_of (rev (map (\<lambda>p. (pi_id p, p)) ps))) (li_panes l) [] of
                  None \<Rightarrow> fallback
                | Some placed \<Rightarrow> map snd (sort_key (\<lambda>(r, p). (rc_y r, rc_x r, pi_id p)) placed))
      | _ \<Rightarrow> fallback)"

section \<open>Terminals, tabs, workspaces\<close>

definition pane_manual_name :: "pane_info \<Rightarrow> string option" where
  "pane_manual_name p = (if pi_label p = None \<or> pi_label p = Some [] then None else pi_label p)"

definition display_terminal_title :: "pane_info \<Rightarrow> agent option \<Rightarrow> string option \<Rightarrow> string" where
  "display_terminal_title p a manual =
     (case manual of Some n \<Rightarrow> n
      | None \<Rightarrow>
        if (case a of Some g \<Rightarrow> ag_name g \<noteq> ''Agent'' | None \<Rightarrow> False) then ag_name (the a)
        else if pi_stripped p \<noteq> [] then pi_stripped p
        else if pi_title p \<noteq> [] then pi_title p
        else ''Terminal'')"

definition display_workspace_label :: "string \<Rightarrow> string" where
  "display_workspace_label l = (if l = [] then ''Workspace'' else l)"

definition display_tab_label :: "string \<Rightarrow> string" where
  "display_tab_label l = (if l = [] then ''Tab'' else l)"

definition project_terminal :: "semver \<Rightarrow> string \<Rightarrow> (string \<rightharpoonup> agent) \<Rightarrow> pane_info \<Rightarrow> terminal" where
  "project_terminal sv version agents p =
     (let acts = available_terminal_actions sv version;
          manual = pane_manual_name p; a = agents (pi_id p)
      in \<lparr>tm_actions = (if pi_cwd p = [] \<and> acts \<noteq> [] then [TerminalActionRename] else acts), tm_agent = a,
          tm_manual = manual, tm_pane = pi_id p, tm_terminal = pi_terminal p,
          tm_title = display_terminal_title p a manual\<rparr>)"

definition project_tab ::
  "semver \<Rightarrow> snapshot \<Rightarrow> (string \<Rightarrow> pane_info list) \<Rightarrow> (string \<rightharpoonup> agent) \<Rightarrow> workspace_info \<Rightarrow> tab_info \<Rightarrow> tab" where
  "project_tab sv sn by_tab agents w t =
     \<lparr>tb_current = (ti_id t = wi_active w), tb_id = ti_id t, tb_label = display_tab_label (ti_label t),
      tb_number = ti_number t,
      tb_terminals = map (project_terminal sv (sn_version sn) agents)
        (order_panes (by_tab (ti_id t)) (filter (\<lambda>l. li_tab l = ti_id t) (sn_layouts sn)) (wi_id w) (ti_id t))\<rparr>"

definition terminals_of :: "workspace \<Rightarrow> terminal list" where
  "terminals_of w = concat (map tb_terminals (ws_tabs w))"

definition terminal_count :: "workspace \<Rightarrow> nat" where
  "terminal_count w = sum_list (map (\<lambda>t. length (tb_terminals t)) (ws_tabs w))"

definition no_counts :: agent_counts where
  "no_counts = \<lparr>ac_working = 0, ac_blocked = 0, ac_error = 0, ac_idle = 0, ac_done = 0, ac_unknown = 0\<rparr>"

definition count_agent :: "agent_counts \<Rightarrow> terminal \<Rightarrow> agent_counts" where
  "count_agent c t =
     (case tm_agent t of None \<Rightarrow> c
      | Some a \<Rightarrow>
        if ag_status a = StatusWorking then c\<lparr>ac_working := Suc (ac_working c)\<rparr>
        else if ag_status a = StatusBlocked then c\<lparr>ac_blocked := Suc (ac_blocked c)\<rparr>
        else if ag_status a = StatusError then c\<lparr>ac_error := Suc (ac_error c)\<rparr>
        else if ag_status a = StatusIdle then c\<lparr>ac_idle := Suc (ac_idle c)\<rparr>
        else if ag_status a = StatusDone then c\<lparr>ac_done := Suc (ac_done c)\<rparr>
        else if ag_status a = StatusUnknown then c\<lparr>ac_unknown := Suc (ac_unknown c)\<rparr>
        else c)"

definition count_agents :: "workspace list \<Rightarrow> agent_counts" where
  "count_agents ws = foldl count_agent no_counts (concat (map terminals_of ws))"

definition nonzero_counts :: "agent_counts \<Rightarrow> bool" where
  "nonzero_counts c \<longleftrightarrow> ac_working c \<noteq> 0 \<or> ac_blocked c \<noteq> 0 \<or> ac_error c \<noteq> 0 \<or> ac_idle c \<noteq> 0 \<or> ac_done c \<noteq> 0 \<or> ac_unknown c \<noteq> 0"

definition shown_counts :: "agent_counts \<Rightarrow> agent_counts option" where
  "shown_counts c = (if nonzero_counts c then Some c else None)"

text \<open>Every terminal of a workspace can be closed when another one stays or the workspace itself can be closed.\<close>
definition add_close :: "workspace \<Rightarrow> workspace" where
  "add_close w = w\<lparr>ws_tabs := map (\<lambda>t. t\<lparr>tb_terminals :=
     map (\<lambda>x. x\<lparr>tm_actions := tm_actions x @ [TerminalActionClose]\<rparr>) (tb_terminals t)\<rparr>) (ws_tabs w)\<rparr>"

definition project_workspace ::
  "semver \<Rightarrow> snapshot \<Rightarrow> (string \<Rightarrow> tab_info list) \<Rightarrow> (string \<Rightarrow> pane_info list) \<Rightarrow> (string \<rightharpoonup> agent) \<Rightarrow> workspace_info \<Rightarrow> workspace" where
  "project_workspace sv sn by_ws by_tab agents w =
     (let w1 = \<lparr>ws_counts = None, ws_actions = available_workspace_actions sn (wi_id w),
            ws_checkout = (case resolve_workspace_action sn WorkspaceActionCreateWorktree (wi_id w) of
               Some (tg, True) \<Rightarrow> tg_checkout tg | _ \<Rightarrow> []),
            ws_group_counts = None, ws_id = wi_id w, ws_label = display_workspace_label (wi_label w), ws_manual = None,
            ws_number = wi_number w,
            ws_tabs = map (project_tab sv sn by_tab agents w) (sort_key (\<lambda>t. (ti_number t, ti_id t)) (by_ws (wi_id w)))\<rparr>;
          w2 = w1\<lparr>ws_counts := shown_counts (count_agents [w1])\<rparr>
      in if terminal_management_available sv (sn_version sn)
            \<and> (terminal_count w2 > 1 \<or> resolve_close_action sn (wi_id w) \<noteq> None)
         then add_close w2 else w2)"

section \<open>Contextual titles\<close>

definition suffixed :: "string \<Rightarrow> nat \<Rightarrow> string" where
  "suffixed base n = base @ CHR '' '' # itoa n"

lemma suffixed_inject [simp]: "suffixed b m = suffixed b n \<longleftrightarrow> m = n"
  by (simp add: suffixed_def)

text \<open>The inner loop: the first number after the last one used whose candidate is free.  It ends because
  finitely many titles are used.\<close>
function next_suffix :: "string list \<Rightarrow> string \<Rightarrow> nat \<Rightarrow> nat" where
  "next_suffix used base n =
     (if suffixed base (Suc n) \<in> set used then next_suffix used base (Suc n) else Suc n)"
  by pat_completeness auto
termination
proof (relation "measure (\<lambda>(used, base, n). card {m. n < m \<and> suffixed base m \<in> set used})", simp, simp)
  fix used base n
  assume u: "suffixed base (Suc n) \<in> set used"
  have "finite {m. suffixed base m \<in> set used}"
    by (rule finite_subset [OF _ finite_vimageI [of "set used" "suffixed base"]])
       (auto simp: inj_on_def)
  then have "finite {m. n < m \<and> suffixed base m \<in> set used}" by (rule rev_finite_subset) auto
  moreover have "{m. Suc n < m \<and> suffixed base m \<in> set used} \<subset> {m. n < m \<and> suffixed base m \<in> set used}"
    using u by auto
  ultimately show "card {m. Suc n < m \<and> suffixed base m \<in> set used} < card {m. n < m \<and> suffixed base m \<in> set used}"
    by (rule psubset_card_mono)
qed

declare next_suffix.simps [simp del]

lemma next_suffix_free: "suffixed base (next_suffix used base n) \<notin> set used"
  by (induction used base n rule: next_suffix.induct) (subst next_suffix.simps, simp)

text \<open>\<open>counts\<close> are the titles the tab had before the loop.\<close>
fun number_titles :: "(string \<Rightarrow> nat) \<Rightarrow> terminal list \<Rightarrow> string list \<Rightarrow> (string \<Rightarrow> nat) \<Rightarrow> terminal list" where
  "number_titles counts [] used next = []"
| "number_titles counts (t # ts) used next =
     (if tm_manual t = None \<and> counts (tm_title t) > 1 then
        (let n = next_suffix used (tm_title t) (next (tm_title t)); title = suffixed (tm_title t) n
         in t\<lparr>tm_title := title\<rparr> # number_titles counts ts (title # used) (next(tm_title t := n)))
      else t # number_titles counts ts used next)"

definition number_tab :: "tab \<Rightarrow> tab" where
  "number_tab t = t\<lparr>tb_terminals := number_titles (\<lambda>x. count_list (map tm_title (tb_terminals t)) x) (tb_terminals t)
     (map tm_title (tb_terminals t)) (\<lambda>_. 0)\<rparr>"

definition label_lone :: "string \<Rightarrow> tab \<Rightarrow> tab" where
  "label_lone label t = (case tb_terminals t of
     [x] \<Rightarrow> t\<lparr>tb_terminals := [if tm_manual x = None then x\<lparr>tm_title := label\<rparr> else x]\<rparr> | _ \<Rightarrow> t)"

definition assign_titles :: "workspace \<Rightarrow> workspace" where
  "assign_titles w =
     (if terminal_count w = 1 then w\<lparr>ws_tabs := map (label_lone (ws_label w)) (ws_tabs w)\<rparr>
      else if terminal_count w \<le> 1 then w
      else w\<lparr>ws_tabs := map number_tab (ws_tabs w)\<rparr>)"

definition assign_contextual_titles :: "workspace list \<Rightarrow> workspace list" where
  "assign_contextual_titles ws = map assign_titles ws"

section \<open>Groups of worktrees\<close>

definition usable_worktree :: "workspace_info \<Rightarrow> worktree_info option" where
  "usable_worktree w = (case wi_worktree w of Some t \<Rightarrow> if wt_valid t then Some t else None | None \<Rightarrow> None)"

definition repo_members :: "bool \<Rightarrow> string \<Rightarrow> workspace_info list \<Rightarrow> string list" where
  "repo_members linked repo sources =
     map wi_id (filter (\<lambda>w. case usable_worktree w of Some t \<Rightarrow> wt_repo t = repo \<and> wt_linked t = linked | None \<Rightarrow> False) sources)"

definition repo_keys :: "workspace_info list \<Rightarrow> string list" where
  "repo_keys sources = remdups (List.map_filter (\<lambda>w. map_option wt_repo (usable_worktree w)) sources)"

text \<open>The group of a repository: its only main checkout and the linked ones.\<close>
definition repo_group :: "workspace_info list \<Rightarrow> string \<Rightarrow> (string \<times> string list) option" where
  "repo_group sources repo =
     (case repo_members False repo sources of
        [p] \<Rightarrow> if repo_members True repo sources = [] then None else Some (p, repo_members True repo sources)
      | _ \<Rightarrow> None)"

definition repo_groups :: "workspace_info list \<Rightarrow> (string \<times> string list) list" where
  "repo_groups sources = List.map_filter (repo_group sources) (repo_keys sources)"

definition is_child :: "(string \<times> string list) list \<Rightarrow> string \<Rightarrow> bool" where
  "is_child gs k \<longleftrightarrow> list_ex (\<lambda>(p, cs). k \<in> set cs) gs"

definition group_workspace :: "(string \<times> string list) list \<Rightarrow> workspace list \<Rightarrow> workspace \<Rightarrow> home_workspace" where
  "group_workspace gs ws w =
     (case map_of (rev gs) (ws_id w) of
        None \<Rightarrow> ungrouped w
      | Some cs \<Rightarrow>
          let trees = filter (\<lambda>x. ws_id x \<in> set cs) ws
          in workspace.extend (w\<lparr>ws_group_counts := shown_counts (count_agents (w # trees))\<rparr>) \<lparr>hw_worktrees = trees\<rparr>)"

definition group_worktrees :: "workspace list \<Rightarrow> workspace_info list \<Rightarrow> home_workspace list" where
  "group_worktrees ws sources =
     (let gs = repo_groups sources
      in map (group_workspace gs ws) (filter (\<lambda>w. \<not> is_child gs (ws_id w)) ws))"

section \<open>Project\<close>

definition project :: "semver \<Rightarrow> snapshot \<Rightarrow> herdr_error + home" where
  "project sv sn =
     (case check_workspaces (sn_workspaces sn) (\<lambda>_. None) of Inl e \<Rightarrow> Inl e
      | Inr wm \<Rightarrow>
        (case check_tabs wm (sn_tabs sn) \<lparr>tt_source = (\<lambda>_. None), tt_by_workspace = (\<lambda>_. [])\<rparr> of Inl e \<Rightarrow> Inl e
         | Inr tt \<Rightarrow>
           (case check_active (tt_source tt) (sn_workspaces sn) of Inl e \<Rightarrow> Inl e
            | Inr _ \<Rightarrow>
              (case check_panes wm (tt_source tt) (sn_panes sn) \<lparr>pt_source = (\<lambda>_. None), pt_terminals = [], pt_by_tab = (\<lambda>_. [])\<rparr> of
                 Inl e \<Rightarrow> Inl e
               | Inr pt \<Rightarrow>
                 (case check_focus wm (tt_source tt) (pt_source pt) sn of Inl e \<Rightarrow> Inl e
                  | Inr _ \<Rightarrow>
                    (case project_agents (pt_source pt) (sn_agents sn)
                        \<lparr>at_by_pane = (\<lambda>_. None), at_working = 0, at_blocked = 0, at_error = 0\<rparr> of Inl e \<Rightarrow> Inl e
                     | Inr a \<Rightarrow>
                       let ws = map (project_workspace sv sn (tt_by_workspace tt) (pt_by_tab pt) (at_by_pane a)) (sn_workspaces sn)
                       in Inr (empty_home\<lparr>hm_working := at_working a, hm_blocked := at_blocked a, hm_error := at_error a,
                            hm_workspaces := group_worktrees (assign_contextual_titles ws) (sn_workspaces sn)\<rparr>)))))))"

end
