(* ===== verification/CoreProject.thy ===== *)
theory CoreProject
  imports HerdrProject
begin

text \<open>
  Home from herdr-core: \<open>internal/herdr/core_project.go\<close> and \<open>core_labels.go\<close>.  A read has the live terminals and the
  Herdr app's layout document; the projection places every terminal of this machine.  The map of live
  terminals is the list of them, in the order of the read; the code ranges over the map in any order and sorts
  what it collects, so the order of the list is not seen.
\<close>

section \<open>What core reports\<close>

record core_status =
  cs_app :: string
  cs_state :: status

record core_terminal =
  ct_address :: string
  ct_created :: nat
  ct_cwd :: string
  ct_die :: bool
  ct_foreground :: "string option"
  ct_labels :: "string \<rightharpoonup> string"
  ct_name :: "string option"
  ct_parent :: "string option"
  ct_pid :: "nat option"
  ct_status :: "core_status option"
  ct_title :: string
  ct_turn :: nat

datatype app_window = AppWindowUnpaired | AppWindowOpen | AppWindowClosed

record core_read =
  cr_id :: string
  cr_version :: string
  cr_terminals :: "core_terminal list"
  cr_document :: "json option"
  cr_window :: app_window
  cr_opened :: time

definition label_of :: "core_terminal \<Rightarrow> string \<Rightarrow> string" where
  "label_of t k = (case ct_labels t k of Some v \<Rightarrow> v | None \<Rightarrow> [])"

text \<open>\<open>CoreTerminal.Folder\<close>.\<close>
definition core_folder :: "core_terminal \<Rightarrow> string" where
  "core_folder t = (case ct_foreground t of Some f \<Rightarrow> if f \<noteq> [] then f else ct_cwd t | None \<Rightarrow> ct_cwd t)"

section \<open>Seen and pinned agents\<close>

text \<open>\<open>strconv.ParseUint(_, 10, 64)\<close>.\<close>
definition parse_uint64 :: "string \<Rightarrow> nat option" where
  "parse_uint64 s = (if all_digits s \<and> digits_val s < 2 ^ 64 then Some (digits_val s) else None)"

definition core_seen_turn :: "core_terminal \<Rightarrow> nat option" where
  "core_seen_turn t = (case ct_labels t ''herdr.seen'' of None \<Rightarrow> None | Some v \<Rightarrow> parse_uint64 (trim_prefix v ''+''))"

definition core_shown_status :: "core_terminal \<Rightarrow> status" where
  "core_shown_status t =
     (case ct_status t of None \<Rightarrow> []
      | Some s \<Rightarrow>
        (case core_seen_turn t of None \<Rightarrow> cs_state s
         | Some seen \<Rightarrow>
           if cs_state s \<noteq> StatusDone \<and> cs_state s \<noteq> StatusIdle then cs_state s
           else if ct_turn t > seen then StatusDone else StatusIdle))"

definition core_seen_needs_raise :: "core_terminal \<Rightarrow> bool" where
  "core_seen_needs_raise t = (case core_seen_turn t of None \<Rightarrow> True | Some seen \<Rightarrow> seen < ct_turn t)"

definition core_pinned :: "core_terminal \<Rightarrow> bool" where
  "core_pinned t \<longleftrightarrow> label_of t ''herdr.pinned'' \<noteq> []"

section \<open>The app's document\<close>

record app_tab =
  apt_id :: string
  apt_name :: string
  apt_terminals :: "string list"
  apt_blocks :: "string \<rightharpoonup> string"

record app_space =
  aps_id :: string
  aps_name :: string
  aps_folder :: string
  aps_machine :: bool
  aps_waiting :: bool
  aps_tabs :: "app_tab list"

definition other_terminals_id :: string where "other_terminals_id = ''other''"
definition other_terminals_label :: string where "other_terminals_label = ''Other terminals''"

definition unreadable_layout :: herdr_error where
  "unreadable_layout = CoreCompatibility (''The Herdr app'' @ CHR 0x27 # ''s layout could not be read.'')"

definition string_or_empty :: "json \<Rightarrow> string" where
  "string_or_empty v = (case v of JStr s \<Rightarrow> s | _ \<Rightarrow> [])"

text \<open>The node struct of \<open>layoutTerminals\<close>: its type, children, terminal and id.\<close>
definition decode_node :: "json \<Rightarrow> (string \<times> json list \<times> json \<times> json) option" where
  "decode_node v =
     (case struct_fields v of None \<Rightarrow> None
      | Some fs \<Rightarrow>
        (case (get_string ''type'' fs, get_array ''children'' fs, get_struct ''content'' fs) of
           (Some ty, Some ch, Some cf) \<Rightarrow> Some (ty, (case ch of Some xs \<Rightarrow> xs | None \<Rightarrow> []), get_any ''terminal'' cf, get_any ''id'' fs)
         | _ \<Rightarrow> None))"

lemma decode_node_children:
  assumes d: "decode_node v = Some (ty, ch, tm, i)" and c: "c \<in> set ch"
  shows "size c < size v"
proof -
  from d obtain fs ch' where f: "struct_fields v = Some fs" "get_array ''children'' fs = Some ch'"
    "ch = (case ch' of Some xs \<Rightarrow> xs | None \<Rightarrow> [])"
    by (auto simp: decode_node_def split: option.splits)
  then obtain xs where xs: "get_array ''children'' fs = Some (Some xs)" "c \<in> set xs" using c by (auto split: option.splits)
  then have "fs \<noteq> []" by (auto simp: get_array_def entries_def last_or_null_def)
  with f(1) have "v = JObj fs" by (auto simp: struct_fields_def split: json.splits)
  with get_array_size [OF xs] show ?thesis by simp
qed

definition add_block :: "json \<Rightarrow> json \<Rightarrow> app_tab \<Rightarrow> app_tab" where
  "add_block terminal i tab =
     (case terminal of
        JStr a \<Rightarrow> tab\<lparr>apt_terminals := apt_terminals tab @ [a],
                    apt_blocks := (if string_or_empty i \<noteq> [] then (apt_blocks tab)(a \<mapsto> string_or_empty i) else apt_blocks tab)\<rparr>
      | _ \<Rightarrow> tab)"

text \<open>The split tree, depth first.\<close>
function layout_terminals :: "json \<Rightarrow> app_tab \<Rightarrow> app_tab" where
  "layout_terminals v tab =
     (case decode_node v of None \<Rightarrow> tab
      | Some (ty, ch, terminal, i) \<Rightarrow>
        if ty \<in> {''row'', ''column'', ''stack''} then fold layout_terminals ch tab
        else if ty = ''block'' then add_block terminal i tab
        else tab)"
  by pat_completeness auto
termination by (relation "measure (size \<circ> fst)") (auto dest: decode_node_children)

declare layout_terminals.simps [simp del]

definition parse_tab :: "json \<Rightarrow> app_tab option" where
  "parse_tab v =
     (case struct_fields v of None \<Rightarrow> None
      | Some fs \<Rightarrow>
        (case get_ptr_string ''id'' fs of
           Some (Some i) \<Rightarrow> Some (layout_terminals (get_any ''root'' fs)
              \<lparr>apt_id = i, apt_name = string_or_empty (get_any ''name'' fs), apt_terminals = [], apt_blocks = (\<lambda>_. None)\<rparr>)
         | _ \<Rightarrow> None))"

definition parse_space :: "json \<Rightarrow> app_space option" where
  "parse_space v =
     (case struct_fields v of None \<Rightarrow> None
      | Some fs \<Rightarrow>
        (case (get_ptr_string ''id'' fs, get_array ''tabs'' fs) of
           (Some (Some i), Some (Some ts)) \<Rightarrow>
             map_option (\<lambda>tabs. \<lparr>aps_id = i, aps_name = string_or_empty (get_any ''name'' fs),
                aps_folder = string_or_empty (get_any ''folder'' fs), aps_machine = (get_any ''machine'' fs \<noteq> JNull),
                aps_waiting = False, aps_tabs = tabs\<rparr>) (those (map parse_tab ts))
         | _ \<Rightarrow> None))"

text \<open>\<open>None\<close> stands for a document that is missing or blank.\<close>
definition parse_app_document :: "json option \<Rightarrow> herdr_error + app_space list" where
  "parse_app_document raw =
     (case raw of None \<Rightarrow> Inr [] | Some JNull \<Rightarrow> Inr []
      | Some v \<Rightarrow>
        (case struct_fields v of None \<Rightarrow> Inl unreadable_layout
         | Some fs \<Rightarrow>
           (case get_array ''spaces'' fs of
              Some (Some ss) \<Rightarrow>
                (case those (map parse_space ss) of Some spaces \<Rightarrow> Inr spaces | None \<Rightarrow> Inl unreadable_layout)
            | _ \<Rightarrow> Inl unreadable_layout)))"

section \<open>The live terminals and the checks\<close>

definition core_status_valid :: "status \<Rightarrow> bool" where
  "core_status_valid s \<longleftrightarrow> s \<in> {StatusWorking, StatusBlocked, StatusIdle, StatusDone, StatusError}"

text \<open>Only this machine's terminals: other machines' addresses carry a slash.\<close>
definition local_terminal :: "core_terminal \<Rightarrow> bool" where
  "local_terminal t \<longleftrightarrow> ct_address t \<noteq> [] \<and> CHR ''/'' \<notin> set (ct_address t)"

fun collect_live :: "core_terminal list \<Rightarrow> core_terminal list \<Rightarrow> herdr_error + core_terminal list" where
  "collect_live [] live = Inr (rev live)"
| "collect_live (t # ts) live =
     (if \<not> local_terminal t then collect_live ts live
      else if ct_address t \<in> ct_address ` set live then Inl (Incoherent ''terminal address is duplicated'')
      else if (case ct_status t of Some s \<Rightarrow> \<not> core_status_valid (cs_state s) | None \<Rightarrow> False)
        then Inl (InvalidStatus (case ct_status t of Some s \<Rightarrow> cs_state s | None \<Rightarrow> []))
      else collect_live ts (t # live))"

definition live_at :: "core_terminal list \<Rightarrow> string \<Rightarrow> core_terminal option" where
  "live_at live a = find (\<lambda>t. ct_address t = a) live"

fun place_terminals :: "string list \<Rightarrow> string list \<Rightarrow> herdr_error + string list" where
  "place_terminals [] placed = Inr placed"
| "place_terminals (a # as) placed =
     (if a \<in> set placed then Inl (Incoherent ''terminal is placed twice'') else place_terminals as (a # placed))"

fun check_app_tabs :: "app_tab list \<Rightarrow> string list \<Rightarrow> string list \<Rightarrow> herdr_error + string list" where
  "check_app_tabs [] ids placed = Inr placed"
| "check_app_tabs (t # ts) ids placed =
     (if apt_id t \<in> set ids then Inl (Incoherent ''tab id is duplicated'')
      else case place_terminals (apt_terminals t) placed of Inl e \<Rightarrow> Inl e
      | Inr placed' \<Rightarrow> check_app_tabs ts (apt_id t # ids) placed')"

fun check_spaces :: "app_space list \<Rightarrow> string list \<Rightarrow> string list \<Rightarrow> herdr_error + string list" where
  "check_spaces [] ids placed = Inr placed"
| "check_spaces (s # ss) ids placed =
     (if aps_id s \<in> set ids \<or> aps_id s = other_terminals_id then Inl (Incoherent ''space id is duplicated'')
      else case check_app_tabs (aps_tabs s) [] placed of Inl e \<Rightarrow> Inl e
      | Inr placed' \<Rightarrow> check_spaces ss (aps_id s # ids) placed')"

section \<open>Terminals that wait for their space\<close>

definition sort_by_creation :: "core_terminal list \<Rightarrow> core_terminal list" where
  "sort_by_creation ts = sort_key (\<lambda>t. (ct_created t, ct_address t)) ts"

text \<open>\<open>Time.UnixMilli\<close> as a \<open>uint64\<close>; Go's zero time is 62135596800 seconds before 1970.\<close>
definition unix_milli :: "time \<Rightarrow> nat" where
  "unix_milli t = nat ((t - 62135596800 * second) div 1000000 mod 2 ^ 64)"

record waiting_state =
  wp_spaces :: "app_space list"
  wp_tab_space :: "string \<rightharpoonup> string"
  wp_placed :: "string list"

definition tab_spaces :: "app_space list \<Rightarrow> string \<rightharpoonup> string" where
  "tab_spaces ss = foldl (\<lambda>m s. foldl (\<lambda>m t. m(apt_id t \<mapsto> aps_id s)) m (aps_tabs s)) (\<lambda>_. None) ss"

definition empty_tab :: "string \<Rightarrow> app_tab" where
  "empty_tab i = \<lparr>apt_id = i, apt_name = [], apt_terminals = [], apt_blocks = (\<lambda>_. None)\<rparr>"

definition append_to_tab :: "string \<Rightarrow> string \<Rightarrow> app_tab list \<Rightarrow> app_tab list" where
  "append_to_tab tid a ts =
     (let ts' = (if tid \<in> apt_id ` set ts then ts else ts @ [empty_tab tid])
      in update_first (\<lambda>t. apt_id t = tid) (\<lambda>t. t\<lparr>apt_terminals := apt_terminals t @ [a]\<rparr>) ts')"

text \<open>The body of the loop over waiting terminals.\<close>
definition place_one :: "nat \<Rightarrow> core_terminal \<Rightarrow> waiting_state \<Rightarrow> waiting_state" where
  "place_one before t w =
     (let sid = label_of t ''herdr.space''; tid = label_of t ''herdr.tab''; known = sid \<in> aps_id ` set (wp_spaces w)
      in if (case wp_tab_space w tid of Some ow \<Rightarrow> ow \<noteq> sid | None \<Rightarrow> False) then w
         else if \<not> known \<and> before \<noteq> 0 \<and> ct_created t \<ge> before then w
         else
           let spaces = (if known then wp_spaces w
                 else wp_spaces w @ [\<lparr>aps_id = sid, aps_name = [], aps_folder = ct_cwd t, aps_machine = False, aps_waiting = True, aps_tabs = []\<rparr>]);
               tabbed = (\<exists>s \<in> set spaces. aps_id s = sid \<and> tid \<in> apt_id ` set (aps_tabs s))
           in \<lparr>wp_spaces = update_first (\<lambda>s. aps_id s = sid) (\<lambda>s. s\<lparr>aps_tabs := append_to_tab tid (ct_address t) (aps_tabs s)\<rparr>) spaces,
               wp_tab_space = (if tabbed then wp_tab_space w else (wp_tab_space w)(tid \<mapsto> sid)),
               wp_placed = ct_address t # wp_placed w\<rparr>)"

definition waits :: "string list \<Rightarrow> core_terminal \<Rightarrow> bool" where
  "waits placed t \<longleftrightarrow> ct_address t \<notin> set placed \<and> label_of t ''herdr.space'' \<noteq> [] \<and> label_of t ''herdr.tab'' \<noteq> []
     \<and> label_of t ''herdr.space'' \<noteq> other_terminals_id"

definition place_waiting :: "app_space list \<Rightarrow> core_terminal list \<Rightarrow> string list \<Rightarrow> nat \<Rightarrow> waiting_state" where
  "place_waiting spaces live placed before =
     fold (place_one before) (sort_by_creation (filter (waits placed) live))
       \<lparr>wp_spaces = spaces, wp_tab_space = tab_spaces spaces, wp_placed = placed\<rparr>"

section \<open>Workers\<close>

text \<open>\<open>placedAncestor\<close>: the empty string when there is none.  Every further step visits another live address.\<close>
function placed_ancestor :: "core_terminal list \<Rightarrow> string list \<Rightarrow> string list \<Rightarrow> core_terminal \<Rightarrow> string" where
  "placed_ancestor live placed seen t =
     (case ct_parent t of None \<Rightarrow> []
      | Some p \<Rightarrow>
        if p \<in> set seen then []
        else if p \<in> set placed then (if live_at live p \<noteq> None then p else [])
        else (case live_at live p of None \<Rightarrow> [] | Some t' \<Rightarrow> placed_ancestor live placed (p # seen) t'))"
  by pat_completeness auto
termination
proof (relation "measure (\<lambda>(live, placed, seen, t). card (ct_address ` set live - set seen))", simp)
  fix live :: "core_terminal list" and placed seen :: "string list" and t :: core_terminal and p t'
  assume "p \<notin> set seen" "live_at live p = Some t'"
  moreover from this(2) have "t' \<in> set live" "ct_address t' = p" unfolding live_at_def by (auto dest: find_SomeD)
  ultimately have "ct_address ` set live - set (p # seen) \<subset> ct_address ` set live - set seen" by auto
  then show "((live, placed, p # seen, t'), live, placed, seen, t) \<in> measure (\<lambda>(live, placed, seen, t). card (ct_address ` set live - set seen))"
    by (simp add: psubset_card_mono)
qed

declare placed_ancestor.simps [simp del]

definition ancestor_of :: "core_terminal list \<Rightarrow> string list \<Rightarrow> core_terminal \<Rightarrow> string" where
  "ancestor_of live placed t = placed_ancestor live placed [ct_address t] t"

definition unplaced :: "core_terminal list \<Rightarrow> string list \<Rightarrow> core_terminal list" where
  "unplaced live placed = filter (\<lambda>t. ct_address t \<notin> set placed) live"

definition followers :: "core_terminal list \<Rightarrow> string list \<Rightarrow> string \<Rightarrow> core_terminal list" where
  "followers live placed a =
     sort_by_creation (filter (\<lambda>t. ancestor_of live placed t \<noteq> [] \<and> ancestor_of live placed t = a) (unplaced live placed))"

definition others :: "core_terminal list \<Rightarrow> string list \<Rightarrow> core_terminal list" where
  "others live placed = sort_by_creation (filter (\<lambda>t. ancestor_of live placed t = []) (unplaced live placed))"

section \<open>What is shown\<close>

definition core_terminal_view :: "string \<Rightarrow> core_terminal \<Rightarrow> terminal" where
  "core_terminal_view core t =
     (let ag = map_option (\<lambda>s. \<lparr>ag_kind = cs_app s, ag_name = cs_app s, ag_status = core_shown_status t, ag_pinned = core_pinned t\<rparr>) (ct_status t);
          title = (if (case ag of Some g \<Rightarrow> ag_name g \<noteq> [] | None \<Rightarrow> False) then ag_name (the ag)
             else if (case ct_name t of Some n \<Rightarrow> n \<noteq> [] | None \<Rightarrow> False) then the (ct_name t)
             else if ct_title t \<noteq> [] then ct_title t else ''Terminal'')
      in \<lparr>tm_actions = (if ag = None then [TerminalActionClose]
            else [if core_pinned t then TerminalActionUnpin else TerminalActionPin, TerminalActionClose]),
          tm_agent = ag, tm_manual = None, tm_pane = ct_address t, tm_terminal = core @ CHR '':'' # ct_address t, tm_title = title\<rparr>)"

text \<open>The terminal with whether the app shows it in a pane; there New terminal is offered before the last action.\<close>
definition shown_terminal :: "core_read \<Rightarrow> core_terminal \<times> bool \<Rightarrow> terminal" where
  "shown_terminal r e =
     (let t = core_terminal_view (cr_id r) (fst e)
      in if snd e \<and> cr_window r \<noteq> AppWindowUnpaired
         then t\<lparr>tm_actions := butlast (tm_actions t) @ [TerminalActionSplit, last (tm_actions t)]\<rparr> else t)"

definition tab_entries :: "core_terminal list \<Rightarrow> string list \<Rightarrow> app_tab \<Rightarrow> (core_terminal \<times> bool) list" where
  "tab_entries live placed tab =
     concat (map (\<lambda>a. case live_at live a of None \<Rightarrow> []
        | Some t \<Rightarrow> (t, apt_blocks tab a \<noteq> None) # map (\<lambda>f. (f, False)) (followers live placed a)) (apt_terminals tab))"

definition core_pane :: "string \<Rightarrow> string \<Rightarrow> string \<Rightarrow> core_terminal \<Rightarrow> pane_info" where
  "core_pane core ws tb t =
     \<lparr>pi_cwd = ct_cwd t, pi_focused = False, pi_label = None, pi_id = ct_address t, pi_tab = tb,
      pi_terminal = core @ CHR '':'' # ct_address t, pi_title = ct_title t, pi_stripped = ct_title t, pi_workspace = ws\<rparr>"

definition core_agent :: "string \<Rightarrow> string \<Rightarrow> string \<Rightarrow> core_terminal \<Rightarrow> agent_info list" where
  "core_agent core ws tb t =
     (case ct_status t of None \<Rightarrow> []
      | Some s \<Rightarrow> [\<lparr>ai_agent = None, ai_session = None, ai_status = cs_state s, ai_display = None, ai_name = None, ai_pane = ct_address t,
           ai_revision = 0, ai_seq = 0, ai_tab = tb, ai_terminal = core @ CHR '':'' # ct_address t, ai_title = None, ai_workspace = ws\<rparr>])"

definition folder_label :: "string \<Rightarrow> string \<Rightarrow> string" where
  "folder_label folder home =
     (if folder = [] then ''Space''
      else if home \<noteq> [] \<and> path_clean folder = path_clean home then ''~''
      else path_base (path_clean folder))"

definition space_label :: "app_space \<Rightarrow> core_terminal list \<Rightarrow> string \<Rightarrow> string" where
  "space_label s live home =
     (if aps_name s \<noteq> [] then aps_name s
      else case List.map_filter (live_at live) (concat (map apt_terminals (aps_tabs s))) of
        [] \<Rightarrow> folder_label (aps_folder s) home
      | t # _ \<Rightarrow>
        let wh = label_of t ''where''; name = (case cut_str '' / '' wh of Some (a, b) \<Rightarrow> a | None \<Rightarrow> wh)
        in if wh \<noteq> [] \<and> name \<noteq> [] then name else folder_label (aps_folder s) home)"

text \<open>What one tab adds: the tab, the panes and the agents of the snapshot.\<close>
definition view_tab :: "core_read \<Rightarrow> nat \<Rightarrow> string \<Rightarrow> string \<Rightarrow> (core_terminal \<times> bool) list \<Rightarrow> tab" where
  "view_tab r n i label es =
     \<lparr>tb_current = False, tb_id = i, tb_label = (if label = [] then itoa n else label), tb_number = n,
      tb_terminals = map (shown_terminal r) es\<rparr>"

definition numbered :: "'a list \<Rightarrow> (nat \<times> 'a) list" where
  "numbered xs = zip [1..<Suc (length xs)] xs"

text \<open>The tabs of a space that have a live terminal, with their numbers.\<close>
definition live_tabs :: "core_terminal list \<Rightarrow> string list \<Rightarrow> app_space \<Rightarrow> (nat \<times> app_tab) list" where
  "live_tabs live placed s = filter (\<lambda>(n, t). tab_entries live placed t \<noteq> []) (numbered (aps_tabs s))"

definition view_space ::
  "core_read \<Rightarrow> core_terminal list \<Rightarrow> string list \<Rightarrow> string \<Rightarrow> (string \<Rightarrow> string) option \<Rightarrow> nat \<Rightarrow> app_space \<Rightarrow> workspace" where
  "view_space r live placed home repos n s =
     \<lparr>ws_counts = None,
      ws_actions = (if cr_window r = AppWindowOpen \<and> \<not> aps_waiting s
         then [WorkspaceActionRenameSpace, WorkspaceActionCloseWorkspace] else [WorkspaceActionCloseWorkspace]),
      ws_checkout = (case repos of Some f \<Rightarrow> if aps_machine s then [] else f (aps_folder s) | None \<Rightarrow> []),
      ws_group_counts = None, ws_id = aps_id s, ws_label = space_label s live home,
      ws_manual = (if aps_name s \<noteq> [] then Some (aps_name s) else None), ws_number = n,
      ws_tabs = map (\<lambda>(k, t). view_tab r k (apt_id t) (apt_name t) (tab_entries live placed t)) (live_tabs live placed s)\<rparr>"

definition view_others :: "core_read \<Rightarrow> core_terminal list \<Rightarrow> nat \<Rightarrow> workspace" where
  "view_others r ts n =
     (let w = \<lparr>ws_counts = None, ws_actions = [], ws_checkout = [], ws_group_counts = None, ws_id = other_terminals_id,
            ws_label = other_terminals_label, ws_manual = None, ws_number = n,
            ws_tabs = [\<lparr>tb_current = False, tb_id = other_terminals_id, tb_label = other_terminals_label, tb_number = 1,
               tb_terminals = map (\<lambda>t. shown_terminal r (t, False)) ts\<rparr>]\<rparr>
      in if length ts > 1 then assign_titles w else w)"

definition with_counts :: "workspace \<Rightarrow> workspace" where
  "with_counts w = w\<lparr>ws_counts := shown_counts (count_agents [w])\<rparr>"

section \<open>ProjectCore\<close>

definition core_workspaces ::
  "core_read \<Rightarrow> core_terminal list \<Rightarrow> string list \<Rightarrow> string \<Rightarrow> (string \<Rightarrow> string) option \<Rightarrow> app_space list \<Rightarrow> workspace list" where
  "core_workspaces r live placed home repos spaces =
     assign_contextual_titles
       (filter (\<lambda>w. ws_tabs w \<noteq> []) (map (\<lambda>(n, s). view_space r live placed home repos n s) (numbered spaces)))
     @ (if others live placed = [] then [] else [view_others r (others live placed) (Suc (length spaces))])"

definition core_snapshot :: "core_read \<Rightarrow> core_terminal list \<Rightarrow> string list \<Rightarrow> string \<Rightarrow> app_space list \<Rightarrow> snapshot" where
  "core_snapshot r live placed home spaces =
     (let os = others live placed;
          entries = concat (map (\<lambda>s. concat (map (\<lambda>(n, t). map (\<lambda>e. (aps_id s, apt_id t, fst e)) (tab_entries live placed t))
             (live_tabs live placed s))) spaces) @ map (\<lambda>t. (other_terminals_id, other_terminals_id, t)) os
      in \<lparr>sn_agents = concat (map (\<lambda>(w, b, t). core_agent (cr_id r) w b t) entries),
          sn_focused_pane = [], sn_focused_tab = [], sn_focused_workspace = [], sn_layouts = [],
          sn_panes = map (\<lambda>(w, b, t). core_pane (cr_id r) w b t) entries, sn_protocol = 0,
          sn_tabs = concat (map (\<lambda>s. map (\<lambda>(n, t). \<lparr>ti_focused = False, ti_label = apt_name t, ti_number = n,
               ti_panes = length (tab_entries live placed t), ti_id = apt_id t, ti_workspace = aps_id s\<rparr>) (live_tabs live placed s)) spaces)
             @ (if os = [] then [] else [\<lparr>ti_focused = False, ti_label = [], ti_number = 1, ti_panes = length os,
                  ti_id = other_terminals_id, ti_workspace = other_terminals_id\<rparr>]),
          sn_version = cr_version r,
          sn_workspaces = List.map_filter (\<lambda>(n, s). if aps_machine s then None
             else Some \<lparr>wi_active = [], wi_focused = False, wi_label = space_label s live home, wi_number = n, wi_id = aps_id s, wi_worktree = None\<rparr>)
             (numbered spaces)\<rparr>)"

definition project_core ::
  "core_read \<Rightarrow> string \<Rightarrow> (string \<Rightarrow> string) option \<Rightarrow> herdr_error + snapshot \<times> home" where
  "project_core r home repos =
     (case parse_app_document (cr_document r) of Inl e \<Rightarrow> Inl e
      | Inr spaces0 \<Rightarrow>
        (case collect_live (cr_terminals r) [] of Inl e \<Rightarrow> Inl e
         | Inr live \<Rightarrow>
           (case check_spaces spaces0 [] [] of Inl e \<Rightarrow> Inl e
            | Inr placed0 \<Rightarrow>
              let before = (if cr_window r = AppWindowOpen \<and> cr_opened r \<noteq> 0 then unix_milli (cr_opened r) else 0);
                  w = place_waiting spaces0 live placed0 before;
                  spaces = wp_spaces w; placed = wp_placed w;
                  ws = map with_counts (core_workspaces r live placed home repos spaces)
              in Inr (core_snapshot r live placed home spaces,
                   \<lparr>hm_actions = (if cr_window r = AppWindowUnpaired then [] else [HomeActionCreateSpace]),
                    hm_app_window = (if cr_window r = AppWindowClosed then ''closed'' else []),
                    hm_blocked = sum_list (map (\<lambda>w. ac_blocked (count_agents [w])) ws),
                    hm_error = sum_list (map (\<lambda>w. ac_error (count_agents [w])) ws),
                    hm_working = sum_list (map (\<lambda>w. ac_working (count_agents [w])) ws),
                    hm_workspaces = map ungrouped ws\<rparr>))))"

section \<open>What a kill ends, and the app's panes\<close>

text \<open>\<open>CoreEndsWith\<close>: one pass of the loop, which adds the workers whose parent ends.\<close>
fun end_pass :: "core_terminal list \<Rightarrow> string list \<Rightarrow> bool \<Rightarrow> string list \<times> bool" where
  "end_pass [] ending grown = (ending, grown)"
| "end_pass (t # ts) ending grown =
     (if ct_address t \<in> set ending \<or> \<not> ct_die t \<or> ct_parent t = None then end_pass ts ending grown
      else if the (ct_parent t) \<in> set ending then end_pass ts (ct_address t # ending) True
      else end_pass ts ending grown)"

lemma end_pass_mono:
  "end_pass ts ending g = (ending', g') \<Longrightarrow> set ending \<subseteq> set ending' \<and> set ending' \<subseteq> set ending \<union> ct_address ` set ts
     \<and> (g' \<longrightarrow> g \<or> set ending \<subset> set ending') \<and> (g \<longrightarrow> g')"
proof (induction ts ending g rule: end_pass.induct)
  case (2 t ts ending g)
  let ?skip = "ct_address t \<in> set ending \<or> \<not> ct_die t \<or> ct_parent t = None" and ?hit = "the (ct_parent t) \<in> set ending"
  consider (skip) ?skip | (hit) "\<not> ?skip" ?hit | (miss) "\<not> ?skip" "\<not> ?hit" by argo
  then show ?case
  proof cases
    case skip
    then have "end_pass ts ending g = (ending', g')" using "2.prems" by simp
    from "2.IH"(1) [OF skip this] show ?thesis by auto
  next
    case hit
    then have e: "end_pass ts (ct_address t # ending) True = (ending', g')" using "2.prems" by auto
    from "2.IH"(2) [OF hit e] hit(1) show ?thesis by auto
  next
    case miss
    then have "end_pass ts ending g = (ending', g')" using "2.prems" by auto
    from "2.IH"(3) [OF miss this] show ?thesis by auto
  qed
qed simp

text \<open>The passes: as long as one grew, another follows; each adds an address of a terminal.\<close>
function end_loop :: "core_terminal list \<Rightarrow> string list \<Rightarrow> string list" where
  "end_loop ts ending =
     (case end_pass ts ending False of (ending', grown) \<Rightarrow> if grown then end_loop ts ending' else ending')"
  by pat_completeness auto
termination
proof (relation "measure (\<lambda>(ts, ending). card (ct_address ` set ts - set ending))", simp, clarsimp)
  fix ts ending ending'
  assume x: "(ending', True) = end_pass ts ending False"
  from end_pass_mono [OF x [symmetric]] have
    m: "set ending \<subset> set ending'" "set ending' \<subseteq> set ending \<union> ct_address ` set ts" by auto
  then have "ct_address ` set ts - set ending' \<subset> ct_address ` set ts - set ending" by auto
  then show "card (ct_address ` set ts - set ending') < card (ct_address ` set ts - set ending)"
    by (simp add: psubset_card_mono)
qed

declare end_loop.simps [simp del]

definition core_ends_with :: "core_terminal list \<Rightarrow> string \<Rightarrow> string list" where
  "core_ends_with ts a = (if a \<in> ct_address ` set ts then end_loop ts [a] else [])"

definition core_pane_block :: "core_read \<Rightarrow> string \<Rightarrow> string \<Rightarrow> string \<Rightarrow> string option" where
  "core_pane_block r space tab a =
     (case parse_app_document (cr_document r) of Inl _ \<Rightarrow> None
      | Inr spaces \<Rightarrow>
        (case concat (map (\<lambda>s. filter (\<lambda>t. aps_id s = space \<and> apt_id t = tab) (aps_tabs s)) spaces) of
           [] \<Rightarrow> None | t # _ \<Rightarrow> apt_blocks t a))"

end
