(* ===== verification/HerdrProjectFacts.thy ===== *)
theory HerdrProjectFacts
  imports HerdrProject
begin

text \<open>
  What \<open>Project\<close> guarantees: which reads it accepts, that every workspace and terminal is shown exactly
  once, in its place, that titles in a tab are told apart, and that the counts add up.
\<close>

section \<open>The accepted reads\<close>

lemma check_workspaces_iff:
  "check_workspaces ws m = Inr m' \<longleftrightarrow> (\<forall>w \<in> set ws. wi_id w \<noteq> [] \<and> m (wi_id w) = None) \<and> distinct (map wi_id ws)
     \<and> m' = m ++ index_by wi_id ws"
proof (induction ws arbitrary: m)
  case (Cons w ws)
  show ?case
  proof (cases "wi_id w \<in> wi_id ` set ws")
    case True
    then show ?thesis by (auto simp: Cons.IH)
  next
    case False
    then show ?thesis unfolding check_workspaces.simps inr_if Cons.IH add_index_Cons [OF False] ball_conj_distrib fresh_ball [OF False] by auto
  qed
qed auto

lemma check_tabs_iff:
  "check_tabs wm ts m = Inr m' \<longleftrightarrow>
     (\<forall>t \<in> set ts. ti_id t \<noteq> [] \<and> tt_source m (ti_id t) = None \<and> wm (ti_workspace t) \<noteq> None) \<and> distinct (map ti_id ts)
     \<and> m' = \<lparr>tt_source = tt_source m ++ index_by ti_id ts,
            tt_by_workspace = (\<lambda>k. tt_by_workspace m k @ filter (\<lambda>t. ti_workspace t = k) ts)\<rparr>"
proof (induction ts arbitrary: m)
  case (Cons t ts)
  have f: "(\<lambda>k. ((tt_by_workspace m)(ti_workspace t := tt_by_workspace m (ti_workspace t) @ [t])) k @ filter (\<lambda>t. ti_workspace t = k) ts)
      = (\<lambda>k. tt_by_workspace m k @ filter (\<lambda>t. ti_workspace t = k) (t # ts))" by (auto simp: fun_eq_iff)
  show ?case
  proof (cases "ti_id t \<in> ti_id ` set ts")
    case True
    then show ?thesis by (auto simp: Cons.IH)
  next
    case False
    then show ?thesis
      unfolding check_tabs.simps inr_if Cons.IH tab_tables.simps f add_index_Cons [OF False] ball_conj_distrib fresh_ball [OF False] by auto
  qed
qed auto

lemma check_active_iff:
  "check_active tm ws = Inr () \<longleftrightarrow>
     (\<forall>w \<in> set ws. wi_active w \<noteq> [] \<longrightarrow> (\<exists>t. tm (wi_active w) = Some t \<and> ti_workspace t = wi_id w))"
  by (induction ws) (auto split: option.splits)

lemma check_focus_iff:
  "check_focus wm tm pm sn = Inr () \<longleftrightarrow>
     (sn_focused_workspace sn \<noteq> [] \<longrightarrow> wm (sn_focused_workspace sn) \<noteq> None)
     \<and> (sn_focused_tab sn \<noteq> [] \<longrightarrow> (\<exists>t. tm (sn_focused_tab sn) = Some t
          \<and> (sn_focused_workspace sn \<noteq> [] \<longrightarrow> ti_workspace t = sn_focused_workspace sn)))
     \<and> (sn_focused_pane sn \<noteq> [] \<longrightarrow> (\<exists>p. pm (sn_focused_pane sn) = Some p
          \<and> (sn_focused_workspace sn \<noteq> [] \<longrightarrow> pi_workspace p = sn_focused_workspace sn)
          \<and> (sn_focused_tab sn \<noteq> [] \<longrightarrow> pi_tab p = sn_focused_tab sn)))"
  by (auto simp: check_focus_def Let_def split: option.splits)

lemma check_panes_iff:
  "check_panes wm tm ps m = Inr m' \<longleftrightarrow>
     (\<forall>p \<in> set ps. pi_id p \<noteq> [] \<and> pi_terminal p \<noteq> [] \<and> pt_source m (pi_id p) = None \<and> pi_terminal p \<notin> set (pt_terminals m)
        \<and> (\<exists>t. tm (pi_tab p) = Some t \<and> ti_workspace t = pi_workspace p) \<and> wm (pi_workspace p) \<noteq> None)
     \<and> distinct (map pi_id ps) \<and> distinct (map pi_terminal ps)
     \<and> m' = \<lparr>pt_source = pt_source m ++ index_by pi_id ps, pt_terminals = rev (map pi_terminal ps) @ pt_terminals m,
            pt_by_tab = (\<lambda>k. pt_by_tab m k @ filter (\<lambda>p. pi_tab p = k) ps)\<rparr>"
proof (induction ps arbitrary: m)
  case (Cons p ps)
  have f: "(\<lambda>k. ((pt_by_tab m)(pi_tab p := pt_by_tab m (pi_tab p) @ [p])) k @ filter (\<lambda>p. pi_tab p = k) ps)
      = (\<lambda>k. pt_by_tab m k @ filter (\<lambda>p. pi_tab p = k) (p # ps))" by (auto simp: fun_eq_iff)
  show ?case
  proof (cases "pi_id p \<in> pi_id ` set ps")
    case True
    then show ?thesis by (auto simp: Cons.IH)
  next
    case False
    have "(case tm (pi_tab p) of None \<Rightarrow> True | Some t \<Rightarrow> ti_workspace t \<noteq> pi_workspace p) \<longleftrightarrow>
        \<not> (\<exists>t. tm (pi_tab p) = Some t \<and> ti_workspace t = pi_workspace p)" by (simp split: option.split)
    then show ?thesis using False
      unfolding check_panes.simps inr_if Cons.IH pane_tables.simps f add_index_Cons [OF False] ball_conj_distrib fresh_ball [OF False]
      by (auto, (metis imageI)+)
  qed
qed auto

definition count_status :: "status \<Rightarrow> agent_info list \<Rightarrow> nat" where
  "count_status s as = length (filter (\<lambda>a. ai_status a = s) as)"

lemma project_agents_iff:
  "project_agents pm as m = Inr m' \<longleftrightarrow>
     (\<forall>a \<in> set as. status_valid (ai_status a) \<and> at_by_pane m (ai_pane a) = None
        \<and> (\<exists>p. pm (ai_pane a) = Some p \<and> pi_workspace p = ai_workspace a \<and> pi_tab p = ai_tab a \<and> pi_terminal p = ai_terminal a))
     \<and> distinct (map ai_pane as)
     \<and> m' = \<lparr>at_by_pane = at_by_pane m ++ (map_option agent_of \<circ> index_by ai_pane as),
            at_working = at_working m + count_status StatusWorking as,
            at_blocked = at_blocked m + count_status StatusBlocked as,
            at_error = at_error m + count_status StatusError as\<rparr>"
proof (induction as arbitrary: m)
  case (Cons a as)
  have "m2 ++ (map_option agent_of \<circ> index_by ai_pane (a # as)) =
      m2(ai_pane a \<mapsto> agent_of a) ++ (map_option agent_of \<circ> index_by ai_pane as)" if "ai_pane a \<notin> ai_pane ` set as" for m2
    using that by (auto simp: fun_eq_iff index_by_Cons map_add_def index_by_None [THEN iffD2] split: option.splits)
  note f = this
  show ?case
  proof (cases "ai_pane a \<in> ai_pane ` set as")
    case True
    then show ?thesis by (auto simp: Cons.IH)
  next
    case False
    have "(case pm (ai_pane a) of None \<Rightarrow> True
          | Some p \<Rightarrow> pi_workspace p \<noteq> ai_workspace a \<or> pi_tab p \<noteq> ai_tab a \<or> pi_terminal p \<noteq> ai_terminal a) \<longleftrightarrow>
        \<not> (\<exists>p. pm (ai_pane a) = Some p \<and> pi_workspace p = ai_workspace a \<and> pi_tab p = ai_tab a \<and> pi_terminal p = ai_terminal a)"
      by (simp split: option.split)
    then show ?thesis using False
      unfolding project_agents.simps inr_if Cons.IH agent_tables.simps f [OF False] ball_conj_distrib fresh_ball [OF False]
      by (auto simp: count_status_def)
  qed
qed (auto simp: count_status_def fun_eq_iff map_add_def)

text \<open>A coherent read: identifiers are not empty and not repeated, every reference leads to what it names, and
  every agent decorates the terminal it says it does.\<close>
definition coherent :: "snapshot \<Rightarrow> bool" where
  "coherent sn \<longleftrightarrow>
     (\<forall>w \<in> set (sn_workspaces sn). wi_id w \<noteq> []) \<and> distinct (map wi_id (sn_workspaces sn))
     \<and> (\<forall>t \<in> set (sn_tabs sn). ti_id t \<noteq> [] \<and> ti_workspace t \<in> wi_id ` set (sn_workspaces sn)) \<and> distinct (map ti_id (sn_tabs sn))
     \<and> (\<forall>w \<in> set (sn_workspaces sn). wi_active w \<noteq> [] \<longrightarrow>
          (\<exists>t \<in> set (sn_tabs sn). ti_id t = wi_active w \<and> ti_workspace t = wi_id w))
     \<and> (\<forall>p \<in> set (sn_panes sn). pi_id p \<noteq> [] \<and> pi_terminal p \<noteq> []
          \<and> (\<exists>t \<in> set (sn_tabs sn). ti_id t = pi_tab p \<and> ti_workspace t = pi_workspace p))
     \<and> distinct (map pi_id (sn_panes sn)) \<and> distinct (map pi_terminal (sn_panes sn))
     \<and> (sn_focused_workspace sn \<noteq> [] \<longrightarrow> sn_focused_workspace sn \<in> wi_id ` set (sn_workspaces sn))
     \<and> (sn_focused_tab sn \<noteq> [] \<longrightarrow> (\<exists>t \<in> set (sn_tabs sn). ti_id t = sn_focused_tab sn
          \<and> (sn_focused_workspace sn \<noteq> [] \<longrightarrow> ti_workspace t = sn_focused_workspace sn)))
     \<and> (sn_focused_pane sn \<noteq> [] \<longrightarrow> (\<exists>p \<in> set (sn_panes sn). pi_id p = sn_focused_pane sn
          \<and> (sn_focused_workspace sn \<noteq> [] \<longrightarrow> pi_workspace p = sn_focused_workspace sn)
          \<and> (sn_focused_tab sn \<noteq> [] \<longrightarrow> pi_tab p = sn_focused_tab sn)))
     \<and> (\<forall>a \<in> set (sn_agents sn). status_valid (ai_status a)
          \<and> (\<exists>p \<in> set (sn_panes sn). pi_id p = ai_pane a \<and> pi_workspace p = ai_workspace a \<and> pi_tab p = ai_tab a \<and> pi_terminal p = ai_terminal a))
     \<and> distinct (map ai_pane (sn_agents sn))"

text \<open>The workspaces of a coherent read, before titles and groups.\<close>
definition projected :: "semver \<Rightarrow> snapshot \<Rightarrow> workspace list" where
  "projected sv sn = map (project_workspace sv sn (\<lambda>k. filter (\<lambda>t. ti_workspace t = k) (sn_tabs sn))
     (\<lambda>k. filter (\<lambda>p. pi_tab p = k) (sn_panes sn)) (map_option agent_of \<circ> index_by ai_pane (sn_agents sn))) (sn_workspaces sn)"

lemma project_iff:
  "project sv sn = Inr h \<longleftrightarrow> coherent sn \<and>
     h = empty_home\<lparr>hm_working := count_status StatusWorking (sn_agents sn), hm_blocked := count_status StatusBlocked (sn_agents sn),
       hm_error := count_status StatusError (sn_agents sn),
       hm_workspaces := group_worktrees (assign_contextual_titles (projected sv sn)) (sn_workspaces sn)\<rparr>"
  (is "_ \<longleftrightarrow> coherent sn \<and> h = ?h")
proof -
  let ?ws = "sn_workspaces sn" and ?ts = "sn_tabs sn" and ?ps = "sn_panes sn" and ?as = "sn_agents sn"
  let ?wm = "index_by wi_id ?ws" and ?tm = "index_by ti_id ?ts" and ?pm = "index_by pi_id ?ps"
  let ?cw = "(\<forall>w \<in> set ?ws. wi_id w \<noteq> []) \<and> distinct (map wi_id ?ws)"
  let ?ct = "(\<forall>t \<in> set ?ts. ti_id t \<noteq> [] \<and> ?wm (ti_workspace t) \<noteq> None) \<and> distinct (map ti_id ?ts)"
  let ?cp = "(\<forall>p \<in> set ?ps. pi_id p \<noteq> [] \<and> pi_terminal p \<noteq> []
        \<and> (\<exists>t. ?tm (pi_tab p) = Some t \<and> ti_workspace t = pi_workspace p) \<and> ?wm (pi_workspace p) \<noteq> None)
     \<and> distinct (map pi_id ?ps) \<and> distinct (map pi_terminal ?ps)"
  let ?ca = "(\<forall>a \<in> set ?as. status_valid (ai_status a)
        \<and> (\<exists>p. ?pm (ai_pane a) = Some p \<and> pi_workspace p = ai_workspace a \<and> pi_tab p = ai_tab a \<and> pi_terminal p = ai_terminal a))
     \<and> distinct (map ai_pane ?as)"
  have eq: "project sv sn = Inr h \<longleftrightarrow>
      ?cw \<and> ?ct \<and> check_active ?tm ?ws = Inr () \<and> ?cp \<and> check_focus ?wm ?tm ?pm sn = Inr () \<and> ?ca \<and> h = ?h"
    unfolding project_def projected_def
    unfolding case_sum_inr check_workspaces_iff check_tabs_iff check_panes_iff project_agents_iff Let_def by auto
  have "?cw \<and> ?ct \<and> check_active ?tm ?ws = Inr () \<and> ?cp \<and> check_focus ?wm ?tm ?pm sn = Inr () \<and> ?ca \<longleftrightarrow> coherent sn"
  proof (cases "distinct (map wi_id ?ws) \<and> distinct (map ti_id ?ts) \<and> distinct (map pi_id ?ps)")
    case True
    then have w: "?wm k \<noteq> None \<longleftrightarrow> k \<in> wi_id ` set ?ws"
      and t: "(\<exists>t. ?tm k = Some t \<and> P t) \<longleftrightarrow> (\<exists>t \<in> set ?ts. ti_id t = k \<and> P t)"
      and p: "(\<exists>p. ?pm k = Some p \<and> Q p) \<longleftrightarrow> (\<exists>p \<in> set ?ps. pi_id p = k \<and> Q p)" for k P Q
      by (auto simp: index_by_Some index_by_None)
    let ?tabs = "\<forall>t \<in> set ?ts. ti_id t \<noteq> [] \<and> ti_workspace t \<in> wi_id ` set ?ws"
    have ps: "pi_workspace p \<in> wi_id ` set ?ws" if ?tabs "\<exists>t \<in> set ?ts. ti_id t = pi_tab p \<and> ti_workspace t = pi_workspace p" for p
      using that by force
    have ps: "?tabs \<Longrightarrow> (\<forall>p \<in> set ?ps. pi_id p \<noteq> [] \<and> pi_terminal p \<noteq> []
          \<and> (\<exists>t \<in> set ?ts. ti_id t = pi_tab p \<and> ti_workspace t = pi_workspace p) \<and> pi_workspace p \<in> wi_id ` set ?ws) \<longleftrightarrow>
        (\<forall>p \<in> set ?ps. pi_id p \<noteq> [] \<and> pi_terminal p \<noteq> []
          \<and> (\<exists>t \<in> set ?ts. ti_id t = pi_tab p \<and> ti_workspace t = pi_workspace p))"
      using ps by blast
    show ?thesis
    proof (cases ?tabs)
      case ta: True
      show ?thesis unfolding coherent_def check_active_iff check_focus_iff t p w ps [OF ta] conj_assoc by (simp only: conj_ac)
    next
      case False
      then show ?thesis unfolding coherent_def w by blast
    qed
  next
    case False
    then show ?thesis by (auto simp: coherent_def)
  qed
  with eq show ?thesis by blast
qed

section \<open>Everything is shown\<close>

lemma concat_concat_map: "concat (map (\<lambda>w. concat (map f (g w))) ws) = concat (map f (concat (map g ws)))"
  by (induction ws) auto

lemma mset_concat_image: "mset (concat (map (\<lambda>w. map g (f w)) ws)) = image_mset g (mset (concat (map f ws)))"
  by (induction ws) auto

lemma mset_concat_map: "(\<And>x. x \<in> set xs \<Longrightarrow> mset (f x) = mset (g x)) \<Longrightarrow> mset (concat (map f xs)) = mset (concat (map g xs))"
  by (induction xs) auto

lemma mset_partition:
  assumes "distinct (map g ks)"
  shows "mset (concat (map (\<lambda>k. filter (\<lambda>x. f x = g k) xs) ks)) = mset (filter (\<lambda>x. f x \<in> g ` set ks) xs)"
  using assms
proof (induction ks)
  case (Cons k ks)
  have "mset (filter (\<lambda>x. f x \<in> g ` set (k # ks)) xs) =
      mset (filter (\<lambda>x. f x = g k) xs) + mset (filter (\<lambda>x. f x \<in> g ` set ks) xs)" for xs
    using Cons.prems by (induction xs) (auto simp: image_iff)
  with Cons show ?case by simp
qed simp

lemma place_panes_shape:
  "place_panes m ls seen = Some placed \<Longrightarrow>
     map (Some \<circ> snd) placed = map (m \<circ> lp_pane) ls \<and> distinct (map lp_pane ls) \<and> (\<forall>l \<in> set ls. lp_pane l \<notin> set seen)"
proof (induction m ls seen arbitrary: placed rule: place_panes.induct)
  case (2 m l ls seen)
  from "2.prems" obtain p rest where p: "m (lp_pane l) = Some p" "place_panes m ls (lp_pane l # seen) = Some rest"
    "placed = (lp_rect l, p) # rest" "lp_pane l \<notin> set seen"
    and c: "\<not> (rc_width (lp_rect l) \<le> 0 \<or> rc_height (lp_rect l) \<le> 0 \<or> lp_pane l \<in> set seen)"
    by (auto split: option.splits if_splits)
  from "2.IH" [OF p(1) c p(2)] p show ?case by auto
qed simp

lemma index_by_rev: "distinct (map key xs) \<Longrightarrow> map_of (rev (map (\<lambda>x. (key x, x)) xs)) = index_by key xs"
proof (rule ext, rule option_eqI)
  fix k x assume d: "distinct (map key xs)"
  have r: "map_of (rev (map (\<lambda>x. (key x, x)) xs)) = index_by key (rev xs)" by (simp add: index_by_def rev_map)
  show "map_of (rev (map (\<lambda>x. (key x, x)) xs)) k = Some x \<longleftrightarrow> index_by key xs k = Some x"
    unfolding r using d by (simp add: index_by_Some rev_map [symmetric])
qed

lemma mset_order_panes:
  assumes d: "distinct (map pi_id ps)"
  shows "mset (order_panes ps ls ws tb) = mset ps"
proof -
  have "mset (map snd placed) = mset ps"
    if p: "place_panes (index_by pi_id ps) (li_panes l) [] = Some placed" and len: "length (li_panes l) = length ps" for l placed
  proof -
    note sh = place_panes_shape [OF p]
    have m: "map (Some \<circ> snd) placed = map (index_by pi_id ps \<circ> lp_pane) (li_panes l)" using sh by simp
    have lens: "length placed = length (li_panes l)" using m map_eq_imp_length_eq by blast
    have at: "index_by pi_id ps (lp_pane (li_panes l ! i)) = Some (snd (placed ! i))" if "i < length placed" for i
      using arg_cong [OF m, of "\<lambda>x. x ! i"] that lens by simp
    have ids: "map (pi_id \<circ> snd) placed = map lp_pane (li_panes l)"
      by (rule nth_equalityI) (use lens at index_by_mem in fastforce)+
    then have dist: "distinct (map snd placed)" using sh by (metis distinct_map map_map)
    have "set (map snd placed) \<subseteq> set ps"
    proof
      fix x assume "x \<in> set (map snd placed)"
      then obtain i where "i < length placed" "x = snd (placed ! i)" by (auto simp: in_set_conv_nth)
      then show "x \<in> set ps" using index_by_mem [OF at] by blast
    qed
    moreover have "card (set (map snd placed)) = card (set ps)"
      using distinct_card [OF dist] d distinct_card [of ps] lens len by (simp add: distinct_map)
    ultimately have "set (map snd placed) = set ps" by (simp add: card_subset_eq)
    moreover have "distinct ps" using d by (simp add: distinct_map)
    ultimately show ?thesis using set_eq_iff_mset_eq_distinct [OF dist] by blast
  qed
  note placed = this
  show ?thesis unfolding order_panes_def Let_def index_by_rev [OF d]
    by (auto split: list.split option.split dest: placed)
qed

section \<open>Titles\<close>

lemma number_titles_zip:
  assumes "tm_title ` set ts \<subseteq> set used"
  shows "length (number_titles c ts used next) = length ts
    \<and> (\<forall>(t, r) \<in> set (zip ts (number_titles c ts used next)).
         r = t \<and> (tm_manual t \<noteq> None \<or> c (tm_title t) \<le> 1)
         \<or> r = t\<lparr>tm_title := tm_title r\<rparr> \<and> tm_manual t = None \<and> tm_title r \<notin> set used)
    \<and> distinct (filter (\<lambda>x. x \<notin> set used) (map tm_title (number_titles c ts used next)))"
  using assms
proof (induction ts arbitrary: used "next")
  case (Cons t ts)
  show ?case
  proof (cases "tm_manual t = None \<and> c (tm_title t) > 1")
    case True
    define n where "n = next_suffix used (tm_title t) (next (tm_title t))"
    define title where "title = suffixed (tm_title t) n"
    have f: "title \<notin> set used" unfolding title_def n_def by (rule next_suffix_free)
    have e: "number_titles c (t # ts) used next =
        t\<lparr>tm_title := title\<rparr> # number_titles c ts (title # used) (next(tm_title t := n))"
      using True by (simp add: Let_def title_def n_def)
    let ?rs = "number_titles c ts (title # used) (next(tm_title t := n))"
    have sub: "tm_title ` set ts \<subseteq> set (title # used)" using Cons.prems by auto
    have ih: "length ?rs = length ts"
      "\<forall>(t, r) \<in> set (zip ts ?rs). r = t \<and> (tm_manual t \<noteq> None \<or> c (tm_title t) \<le> 1)
         \<or> r = t\<lparr>tm_title := tm_title r\<rparr> \<and> tm_manual t = None \<and> tm_title r \<notin> set (title # used)"
      "distinct (filter (\<lambda>x. x \<notin> set (title # used)) (map tm_title ?rs))"
      using Cons.IH [OF sub, of "next(tm_title t := n)"] by blast+
    have fresh: "title \<notin> set (map tm_title ?rs)"
    proof
      assume "title \<in> set (map tm_title ?rs)"
      then obtain r where "r \<in> set ?rs" "tm_title r = title" by auto
      then obtain i where i: "i < length ts" "tm_title (?rs ! i) = title" by (metis ih(1) in_set_conv_nth)
      have "(ts ! i, ?rs ! i) \<in> set (zip ts ?rs)" using i(1) ih(1) by (force simp: set_zip)
      then have "?rs ! i = ts ! i \<or> tm_title (?rs ! i) \<noteq> title" using ih(2) by auto
      with i have "tm_title (ts ! i) = title" by auto
      then have "title \<in> set used" using Cons.prems nth_mem [OF i(1)] by auto
      with f show False ..
    qed
    then have "filter (\<lambda>x. x \<notin> set (title # used)) (map tm_title ?rs) = filter (\<lambda>x. x \<notin> set used) (map tm_title ?rs)"
      by (intro filter_cong) auto
    with ih(3) have "distinct (filter (\<lambda>x. x \<notin> set used) (map tm_title ?rs))" by simp
    then have "distinct (filter (\<lambda>x. x \<notin> set used) (map tm_title (t\<lparr>tm_title := title\<rparr> # ?rs)))" using f fresh by simp
    moreover have "\<forall>(t, r) \<in> set (zip (t # ts) (t\<lparr>tm_title := title\<rparr> # ?rs)).
         r = t \<and> (tm_manual t \<noteq> None \<or> c (tm_title t) \<le> 1)
         \<or> r = t\<lparr>tm_title := tm_title r\<rparr> \<and> tm_manual t = None \<and> tm_title r \<notin> set used"
      using ih(2) f True by fastforce
    ultimately show ?thesis unfolding e using ih(1) by simp
  next
    case False
    have e: "number_titles c (t # ts) used next = t # number_titles c ts used next"
      using False by auto
    show ?thesis unfolding e using Cons.IH [of used "next"] Cons.prems False by (auto simp: not_less)
  qed
qed simp

lemma count_two:
  assumes "i < length xs" "j < length xs" "i \<noteq> j" "xs ! i = xs ! j"
  shows "2 \<le> count_list xs (xs ! i)"
proof -
  have "{i, j} \<subseteq> {k. k < length xs \<and> xs ! k = xs ! i}" using assms by auto
  then have "card {i, j} \<le> card {k. k < length xs \<and> xs ! k = xs ! i}" by (intro card_mono) auto
  then show ?thesis using assms(3) by (simp add: count_list_eq_length_filter length_filter_conv_card conj_commute eq_commute)
qed

lemma count_list_filter: "p y \<Longrightarrow> count_list (filter p xs) y = count_list xs y"
  by (induction xs) auto

lemma count_list_distinct: "distinct xs \<Longrightarrow> count_list xs y \<le> 1"
  by (induction xs) (auto simp: count_list_0_iff)

lemma distinct_filter_nth:
  assumes "distinct (filter p xs)" "i < length xs" "j < length xs" "i \<noteq> j" "p (xs ! i)"
  shows "xs ! i \<noteq> xs ! j"
  using count_two [OF assms(2-4)] count_list_filter [of p "xs ! i" xs, OF assms(5)] count_list_distinct [OF assms(1), of "xs ! i"]
  by auto

lemma number_tab_titles:
  assumes "i < length (tb_terminals (number_tab t))" "j < length (tb_terminals (number_tab t))"
    "i \<noteq> j" "tm_title (tb_terminals (number_tab t) ! i) = tm_title (tb_terminals (number_tab t) ! j)"
  shows "tm_manual (tb_terminals (number_tab t) ! i) \<noteq> None"
proof
  let ?ts = "tb_terminals t" and ?used = "map tm_title (tb_terminals t)"
  define c where "c = (\<lambda>x. count_list ?used x)"
  define rs where "rs = number_titles c ?ts ?used (\<lambda>_. 0)"
  have rs: "tb_terminals (number_tab t) = rs" by (simp add: number_tab_def rs_def c_def)
  have z: "length rs = length ?ts"
    "\<forall>(t, r) \<in> set (zip ?ts rs). r = t \<and> (tm_manual t \<noteq> None \<or> c (tm_title t) \<le> 1)
         \<or> r = t\<lparr>tm_title := tm_title r\<rparr> \<and> tm_manual t = None \<and> tm_title r \<notin> set ?used"
    "distinct (filter (\<lambda>x. x \<notin> set ?used) (map tm_title rs))"
    unfolding rs_def using number_titles_zip [of ?ts ?used c "\<lambda>_. 0"] by auto
  assume none: "tm_manual (tb_terminals (number_tab t) ! i) = None"
  have i: "i < length rs" and j: "j < length rs" and ij: "i \<noteq> j" and same: "tm_title (rs ! i) = tm_title (rs ! j)" and n: "tm_manual (rs ! i) = None"
    using assms none by (simp_all add: rs)
  have zi: "(?ts ! k, rs ! k) \<in> set (zip ?ts rs)" if "k < length rs" for k using that z(1) by (force simp: set_zip)
  show False
  proof (cases "tm_title (rs ! i) \<in> set ?used")
    case True
    then have ri: "rs ! i = ?ts ! i" "c (tm_title (?ts ! i)) \<le> 1" using z(2) zi [OF i] n by auto
    have rj: "rs ! j = ?ts ! j" using z(2) zi [OF j] True same by auto
    have "?used ! i = ?used ! j" using i j z(1) same ri rj by simp
    then have "2 \<le> count_list ?used (?used ! i)" using i j z(1) ij by (intro count_two [of i _ j]) auto
    then show False using ri(2) i z(1) by (simp add: c_def)
  next
    case False
    then have "distinct (filter (\<lambda>x. x \<notin> set ?used) (map tm_title rs))" using z(3) by simp
    then show False using False same i j ij distinct_filter_nth [of "\<lambda>x. x \<notin> set ?used" "map tm_title rs" i j] by simp
  qed
qed

section \<open>Grouping keeps every workspace\<close>

definition usable_in :: "workspace_info list \<Rightarrow> string \<Rightarrow> string \<Rightarrow> bool \<Rightarrow> bool" where
  "usable_in sources k repo linked \<longleftrightarrow> (\<exists>w \<in> set sources. wi_id w = k \<and> (\<exists>t. usable_worktree w = Some t \<and> wt_repo t = repo \<and> wt_linked t = linked))"

lemma repo_members_iff: "k \<in> set (repo_members linked repo sources) \<longleftrightarrow> usable_in sources k repo linked"
  by (auto simp: repo_members_def usable_in_def split: option.splits)

lemma usable_in_unique:
  assumes "distinct (map wi_id sources)" "usable_in sources k r l" "usable_in sources k r' l'"
  shows "r = r'" "l = l'"
  using assms by (auto simp: usable_in_def distinct_map inj_on_def)

lemma repo_groups_mem:
  assumes "(p, cs) \<in> set (repo_groups sources)"
  obtains r where "repo_group sources r = Some (p, cs)" "usable_in sources p r False" "\<And>c. c \<in> set cs \<longleftrightarrow> usable_in sources c r True"
proof -
  from assms obtain r where r: "repo_group sources r = Some (p, cs)" by (auto simp: repo_groups_def List.map_filter_def)
  then have "repo_members False r sources = [p]" "cs = repo_members True r sources"
    by (auto simp: repo_group_def split: list.splits if_splits)
  then show thesis by (intro that [OF r]) (auto simp: repo_members_iff [symmetric])
qed

lemma repo_groups_unique:
  assumes d: "distinct (map wi_id sources)" and g: "(p, cs) \<in> set (repo_groups sources)" "(p', cs') \<in> set (repo_groups sources)"
  shows "p = p' \<Longrightarrow> cs = cs'" "k \<in> set cs \<Longrightarrow> k \<in> set cs' \<Longrightarrow> p = p' \<and> cs = cs'" "p \<notin> set cs'"
proof -
  from repo_groups_mem [OF g(1)] obtain r where
    r: "repo_group sources r = Some (p, cs)" "usable_in sources p r False" "\<And>c. c \<in> set cs \<longleftrightarrow> usable_in sources c r True" by blast
  from repo_groups_mem [OF g(2)] obtain r' where
    r': "repo_group sources r' = Some (p', cs')" "usable_in sources p' r' False" "\<And>c. c \<in> set cs' \<longleftrightarrow> usable_in sources c r' True" by blast
  show "cs = cs'" if "p = p'" using usable_in_unique(1) [OF d r(2), of r' False] r' r(1) that by auto
  show "p = p' \<and> cs = cs'" if "k \<in> set cs" "k \<in> set cs'"
    using usable_in_unique(1) [OF d, of k r True r' True] that r r' by auto
  show "p \<notin> set cs'" using usable_in_unique(2) [OF d r(2)] r'(3) by blast
qed

definition owner :: "(string \<times> string list) list \<Rightarrow> string \<Rightarrow> string" where
  "owner gs k = (case find (\<lambda>(p, cs). k \<in> set cs) gs of Some (p, cs) \<Rightarrow> p | None \<Rightarrow> k)"

lemma owner_iff:
  assumes d: "distinct (map wi_id sources)" and w: "\<not> is_child (repo_groups sources) k"
  shows "owner (repo_groups sources) x = k \<longleftrightarrow>
    (x = k \<or> (\<exists>cs. map_of (rev (repo_groups sources)) k = Some cs \<and> x \<in> set cs))"
proof -
  let ?gs = "repo_groups sources"
  have m: "map_of (rev ?gs) k = Some cs \<longleftrightarrow> (k, cs) \<in> set ?gs" for cs
  proof
    assume "map_of (rev ?gs) k = Some cs"
    then show "(k, cs) \<in> set ?gs" using map_of_SomeD by fastforce
  next
    assume a: "(k, cs) \<in> set ?gs"
    then have "k \<in> fst ` set (rev ?gs)" by force
    then have "map_of (rev ?gs) k \<noteq> None" unfolding map_of_eq_None_iff by simp
    then obtain cs' where c: "map_of (rev ?gs) k = Some cs'" by blast
    then have "(k, cs') \<in> set ?gs" using map_of_SomeD by fastforce
    with repo_groups_unique(1) [OF d a this] c show "map_of (rev ?gs) k = Some cs" by simp
  qed
  show ?thesis
  proof (cases "find (\<lambda>(p, cs). x \<in> set cs) ?gs")
    case None
    then have "x \<notin> set cs" if "(p, cs) \<in> set ?gs" for p cs using that by (auto simp: find_None_iff)
    then show ?thesis unfolding m using None by (auto simp: owner_def)
  next
    case (Some g)
    obtain p cs where g: "g = (p, cs)" by (cases g)
    from find_SomeD [OF Some] g have pc: "(p, cs) \<in> set ?gs" "x \<in> set cs" by auto
    have "x \<noteq> k" using w pc by (auto simp: is_child_def list_ex_iff)
    moreover have "p = k" if "(k, cs') \<in> set ?gs" "x \<in> set cs'" for cs'
      using repo_groups_unique(2) [OF d pc(1) that(1) pc(2) that(2)] by simp
    ultimately show ?thesis unfolding m using Some g pc by (auto simp: owner_def)
  qed
qed

lemma owner_not_child:
  assumes d: "distinct (map wi_id sources)"
  shows "\<not> is_child (repo_groups sources) (owner (repo_groups sources) x)"
proof (cases "find (\<lambda>(p, cs). x \<in> set cs) (repo_groups sources)")
  case None
  then have "owner (repo_groups sources) x = x" by (simp add: owner_def)
  with None show ?thesis by (auto simp: is_child_def list_ex_iff find_None_iff)
next
  case (Some g)
  obtain p cs where g: "g = (p, cs)" by (cases g)
  from find_SomeD [OF Some] g have pc: "(p, cs) \<in> set (repo_groups sources)" by auto
  have "p \<notin> set cs'" if "(p', cs') \<in> set (repo_groups sources)" for p' cs' using repo_groups_unique(3) [OF d pc that] .
  then show ?thesis using Some g by (auto simp: owner_def is_child_def list_ex_iff)
qed

lemma owner_known:
  assumes "x \<in> wi_id ` set sources"
  shows "owner (repo_groups sources) x \<in> wi_id ` set sources"
proof (cases "find (\<lambda>(p, cs). x \<in> set cs) (repo_groups sources)")
  case None
  then show ?thesis using assms by (simp add: owner_def)
next
  case (Some g)
  obtain p cs where g: "g = (p, cs)" by (cases g)
  from find_SomeD [OF Some] g have "(p, cs) \<in> set (repo_groups sources)" by auto
  from repo_groups_mem [OF this] obtain r where "usable_in sources p r False" by blast
  then show ?thesis using Some g by (auto simp: owner_def usable_in_def)
qed

text \<open>The workspaces a Home shows, those inside groups included.\<close>
definition shown_workspaces :: "home \<Rightarrow> workspace list" where
  "shown_workspaces h = concat (map (\<lambda>w. workspace.truncate w # hw_worktrees w) (hm_workspaces h))"

definition trees_of :: "(string \<times> string list) list \<Rightarrow> workspace list \<Rightarrow> workspace \<Rightarrow> workspace list" where
  "trees_of gs ws w = (case map_of (rev gs) (ws_id w) of None \<Rightarrow> [] | Some cs \<Rightarrow> filter (\<lambda>x. ws_id x \<in> set cs) ws)"

lemma group_workspace_parts:
  "workspace.truncate (group_workspace gs ws w) =
     (if map_of (rev gs) (ws_id w) = None then w else w\<lparr>ws_group_counts := shown_counts (count_agents (w # trees_of gs ws w))\<rparr>)"
  "hw_worktrees (group_workspace gs ws w) = trees_of gs ws w"
  by (simp_all add: group_workspace_def trees_of_def ungrouped_def workspace.defs Let_def split: option.splits)

lemma group_worktrees_mset:
  assumes d: "distinct (map wi_id sources)" and ids: "map ws_id ws = map wi_id sources"
  shows "mset (concat (map (\<lambda>w. w # trees_of (repo_groups sources) ws w) (filter (\<lambda>w. \<not> is_child (repo_groups sources) (ws_id w)) ws))) = mset ws"
proof -
  let ?gs = "repo_groups sources"
  have dw: "distinct (map ws_id ws)" using d unfolding ids .
  then have dw: "distinct (map ws_id ws)" "distinct ws" by (simp_all add: distinct_map)
  have known: "owner ?gs (ws_id x) \<in> ws_id ` {w \<in> set ws. \<not> is_child ?gs (ws_id w)}" if "x \<in> set ws" for x
  proof -
    have s: "ws_id ` set ws = wi_id ` set sources" using ids by (metis list.set_map)
    have "owner ?gs (ws_id x) \<in> ws_id ` set ws" unfolding s
      by (rule owner_known) (use that s in auto)
    then obtain y where y: "y \<in> set ws" "owner ?gs (ws_id x) = ws_id y" by auto
    with owner_not_child [OF d, of "ws_id x"] show ?thesis by simp
  qed
  have "mset (w # trees_of ?gs ws w) = mset (filter (\<lambda>x. owner ?gs (ws_id x) = ws_id w) ws)"
    if w: "w \<in> set (filter (\<lambda>w. \<not> is_child ?gs (ws_id w)) ws)" for w
  proof -
    have nc: "\<not> is_child ?gs (ws_id w)" "w \<in> set ws" using w by auto
    have ts: "set (trees_of ?gs ws w) = {x \<in> set ws. \<exists>cs. map_of (rev ?gs) (ws_id w) = Some cs \<and> ws_id x \<in> set cs}"
      by (cases "map_of (rev ?gs) (ws_id w)") (auto simp: trees_of_def)
    have "w \<notin> set (trees_of ?gs ws w)"
      using nc(1) unfolding ts is_child_def list_ex_iff by (fastforce dest: map_of_SomeD)
    then have "distinct (w # trees_of ?gs ws w)" using dw by (auto simp: trees_of_def split: option.splits)
    moreover have "set (w # trees_of ?gs ws w) = set (filter (\<lambda>x. owner ?gs (ws_id x) = ws_id w) ws)"
    proof -
      have "x = w" if "x \<in> set ws" "ws_id x = ws_id w" for x using dw(1) that nc(2) by (auto simp: distinct_map inj_on_def)
      then show ?thesis unfolding set_filter owner_iff [OF d nc(1)] using nc(2) ts by auto
    qed
    ultimately show ?thesis using set_eq_iff_mset_eq_distinct dw(2) distinct_filter by blast
  qed
  then have "mset (concat (map (\<lambda>w. w # trees_of ?gs ws w) (filter (\<lambda>w. \<not> is_child ?gs (ws_id w)) ws))) =
      mset (concat (map (\<lambda>w. filter (\<lambda>x. owner ?gs (ws_id x) = ws_id w) ws) (filter (\<lambda>w. \<not> is_child ?gs (ws_id w)) ws)))"
    by (rule mset_concat_map)
  also have "\<dots> = mset (filter (\<lambda>x. owner ?gs (ws_id x) \<in> ws_id ` set (filter (\<lambda>w. \<not> is_child ?gs (ws_id w)) ws)) ws)"
    by (rule mset_partition) (use dw in \<open>simp add: distinct_map_filter\<close>)
  also have "filter (\<lambda>x. owner ?gs (ws_id x) \<in> ws_id ` set (filter (\<lambda>w. \<not> is_child ?gs (ws_id w)) ws)) ws = ws"
    using known by (auto simp: filter_id_conv)
  finally show ?thesis .
qed

section \<open>What a Home holds\<close>

text \<open>What titles, close actions and counts leave alone: the places of a workspace's terminals.\<close>
definition terminal_place :: "terminal \<Rightarrow> string \<times> string \<times> agent option \<times> string option" where
  "terminal_place x = (tm_pane x, tm_terminal x, tm_agent x, tm_manual x)"

definition places :: "workspace \<Rightarrow> string \<times> (string \<times> (string \<times> string \<times> agent option \<times> string option) list) list" where
  "places w = (ws_id w, map (\<lambda>t. (tb_id t, map terminal_place (tb_terminals t))) (ws_tabs w))"

lemma places_simps [simp]:
  "places (w\<lparr>ws_group_counts := c\<rparr>) = places w" "places (w\<lparr>ws_counts := c\<rparr>) = places w"
  by (simp_all add: places_def)

lemma places_add_close [simp]: "places (add_close w) = places w"
  by (simp add: places_def add_close_def terminal_place_def comp_def)

lemma places_close_if: "places (if b then add_close w else w) = places w"
  by simp

lemma number_titles_places: "map terminal_place (number_titles c ts used next) = map terminal_place ts"
  by (induction ts arbitrary: used "next") (auto simp: Let_def terminal_place_def)

lemma label_lone_places [simp]: "tb_id (label_lone l t) = tb_id t" "map terminal_place (tb_terminals (label_lone l t)) = map terminal_place (tb_terminals t)"
  by (auto simp: label_lone_def terminal_place_def split: list.splits)

lemma number_tab_places [simp]: "tb_id (number_tab t) = tb_id t" "map terminal_place (tb_terminals (number_tab t)) = map terminal_place (tb_terminals t)"
  by (simp_all add: number_tab_def number_titles_places)

lemma places_assign_titles [simp]: "places (assign_titles w) = places w"
  by (simp add: assign_titles_def places_def comp_def)

definition pane_place :: "agent_info list \<Rightarrow> pane_info \<Rightarrow> string \<times> string \<times> agent option \<times> string option" where
  "pane_place as p = (pi_id p, pi_terminal p, map_option agent_of (index_by ai_pane as (pi_id p)), pane_manual_name p)"

lemma places_project_workspace:
  "places (project_workspace sv sn by_ws by_tab (map_option agent_of \<circ> index_by ai_pane as) w) =
     (wi_id w, map (\<lambda>t. (ti_id t, map (pane_place as)
        (order_panes (by_tab (ti_id t)) (filter (\<lambda>l. li_tab l = ti_id t) (sn_layouts sn)) (wi_id w) (ti_id t))))
        (sort_key (\<lambda>t. (ti_number t, ti_id t)) (by_ws (wi_id w))))"
  unfolding project_workspace_def Let_def places_close_if
  by (simp add: places_def project_tab_def project_terminal_def terminal_place_def pane_place_def comp_def Let_def)

lemma shown_of_grouped:
  assumes d: "distinct (map wi_id sources)" and ids: "map ws_id ws = map wi_id sources"
    and h: "hm_workspaces h = group_worktrees ws sources"
  shows "mset (map places (shown_workspaces h)) = mset (map places ws)"
    and "\<forall>w \<in> set (shown_workspaces h). \<exists>w0 \<in> set ws. w = w0 \<or> (\<exists>c. w = w0\<lparr>ws_group_counts := c\<rparr>)"
proof -
  let ?gs = "repo_groups sources"
  let ?top = "filter (\<lambda>w. \<not> is_child ?gs (ws_id w)) ws"
  have s: "shown_workspaces h = concat (map (\<lambda>w. workspace.truncate (group_workspace ?gs ws w) # trees_of ?gs ws w) ?top)"
    unfolding shown_workspaces_def h group_worktrees_def Let_def by (simp add: comp_def group_workspace_parts)
  have p: "places (workspace.truncate (group_workspace ?gs ws w)) = places w" for w by (simp add: group_workspace_parts)
  have "map places (shown_workspaces h) = map places (concat (map (\<lambda>w. w # trees_of ?gs ws w) ?top))"
    unfolding s map_concat map_map comp_def list.map p ..
  then have "mset (map places (shown_workspaces h)) = image_mset places (mset (concat (map (\<lambda>w. w # trees_of ?gs ws w) ?top)))"
    by (metis mset_map)
  then show "mset (map places (shown_workspaces h)) = mset (map places ws)"
    unfolding group_worktrees_mset [OF d ids] by simp
  show "\<forall>w \<in> set (shown_workspaces h). \<exists>w0 \<in> set ws. w = w0 \<or> (\<exists>c. w = w0\<lparr>ws_group_counts := c\<rparr>)"
    unfolding s by (auto simp: group_workspace_parts trees_of_def split: option.splits)
qed

lemma projected_ids: "map ws_id (assign_contextual_titles (projected sv sn)) = map wi_id (sn_workspaces sn)"
proof -
  have "ws_id (assign_titles w) = ws_id w" for w by (simp add: assign_titles_def)
  then show ?thesis
    by (simp add: assign_contextual_titles_def projected_def project_workspace_def Let_def comp_def add_close_def)
qed

definition expected_places :: "snapshot \<Rightarrow> workspace_info \<Rightarrow> string \<times> (string \<times> (string \<times> string \<times> agent option \<times> string option) list) list" where
  "expected_places sn w = (wi_id w, map (\<lambda>t. (ti_id t, map (pane_place (sn_agents sn))
        (order_panes (filter (\<lambda>p. pi_tab p = ti_id t) (sn_panes sn)) (filter (\<lambda>l. li_tab l = ti_id t) (sn_layouts sn)) (wi_id w) (ti_id t))))
        (sort_key (\<lambda>t. (ti_number t, ti_id t)) (filter (\<lambda>t. ti_workspace t = wi_id w) (sn_tabs sn))))"

lemma map_places_projected:
  "map places (assign_contextual_titles (projected sv sn)) = map (expected_places sn) (sn_workspaces sn)"
  by (simp add: expected_places_def assign_contextual_titles_def projected_def places_project_workspace)

lemma mset_tab_panes:
  assumes "coherent sn"
  shows "mset (order_panes (filter (\<lambda>p. pi_tab p = k) (sn_panes sn)) ls ws tb) = mset (filter (\<lambda>p. pi_tab p = k) (sn_panes sn))"
  by (rule mset_order_panes) (use assms in \<open>simp add: coherent_def distinct_map_filter\<close>)

lemma coherent_pane_tab: "coherent sn \<Longrightarrow> p \<in> set (sn_panes sn) \<Longrightarrow> pi_tab p \<in> ti_id ` set (sn_tabs sn)"
  unfolding coherent_def by (elim conjE) (metis imageI)

text \<open>All places of a Home together are those of the panes of the read.\<close>
lemma shown_places:
  assumes p: "project sv sn = Inr h"
  shows "mset (concat (map (\<lambda>w. concat (map snd (snd (places w)))) (shown_workspaces h))) = mset (map (pane_place (sn_agents sn)) (sn_panes sn))"
proof -
  let ?ws = "sn_workspaces sn" and ?ts = "sn_tabs sn" and ?ps = "sn_panes sn" and ?pl = "pane_place (sn_agents sn)"
  from p have c: "coherent sn" and h: "hm_workspaces h = group_worktrees (assign_contextual_titles (projected sv sn)) ?ws"
    by (auto simp: project_iff)
  have d: "distinct (map wi_id ?ws)" "distinct (map ti_id ?ts)" using c by (simp_all add: coherent_def)
  have sum: "mset (concat (map f xs)) = \<Sum>\<^sub># (image_mset (\<lambda>x. mset (f x)) (mset xs))" for f :: "'x \<Rightarrow> 'y list" and xs
    by (induction xs) auto
  let ?P = "\<lambda>s. concat (map snd (snd s))"
  have "mset (concat (map (\<lambda>w. ?P (places w)) (shown_workspaces h))) = mset (concat (map ?P (map places (shown_workspaces h))))"
    by (simp add: comp_def)
  also have "\<dots> = mset (concat (map ?P (map places (assign_contextual_titles (projected sv sn)))))"
    unfolding sum shown_of_grouped(1) [OF d(1) projected_ids h] ..
  also have "\<dots> = mset (concat (map (\<lambda>w. map ?pl (concat (map (\<lambda>t. filter (\<lambda>p. pi_tab p = ti_id t) ?ps) (filter (\<lambda>t. ti_workspace t = wi_id w) ?ts)))) ?ws))"
    unfolding map_places_projected map_map comp_def expected_places_def
  proof (rule mset_concat_map)
    fix w
    let ?tabs = "filter (\<lambda>t. ti_workspace t = wi_id w) ?ts"
    let ?o = "\<lambda>t. order_panes (filter (\<lambda>p. pi_tab p = ti_id t) ?ps) (filter (\<lambda>l. li_tab l = ti_id t) (sn_layouts sn)) (wi_id w) (ti_id t)"
    have "mset (concat (map (\<lambda>t. map ?pl (?o t)) (sort_key (\<lambda>t. (ti_number t, ti_id t)) ?tabs))) =
        mset (concat (map (\<lambda>t. map ?pl (?o t)) ?tabs))" unfolding sum by simp
    also have "\<dots> = mset (concat (map (\<lambda>t. map ?pl (filter (\<lambda>p. pi_tab p = ti_id t) ?ps)) ?tabs))"
      by (rule mset_concat_map) (simp add: mset_tab_panes [OF c])
    finally show "mset (?P (wi_id w, map (\<lambda>t. (ti_id t, map ?pl (?o t))) (sort_key (\<lambda>t. (ti_number t, ti_id t)) ?tabs))) =
        mset (map ?pl (concat (map (\<lambda>t. filter (\<lambda>p. pi_tab p = ti_id t) ?ps) ?tabs)))"
      by (simp add: comp_def map_concat)
  qed
  also have "\<dots> = image_mset ?pl (mset (concat (map (\<lambda>w. concat (map (\<lambda>t. filter (\<lambda>p. pi_tab p = ti_id t) ?ps) (filter (\<lambda>t. ti_workspace t = wi_id w) ?ts))) ?ws)))"
    by (rule mset_concat_image)
  also have "concat (map (\<lambda>w. concat (map (\<lambda>t. filter (\<lambda>p. pi_tab p = ti_id t) ?ps) (filter (\<lambda>t. ti_workspace t = wi_id w) ?ts))) ?ws) =
      concat (map (\<lambda>t. filter (\<lambda>p. pi_tab p = ti_id t) ?ps) (concat (map (\<lambda>w. filter (\<lambda>t. ti_workspace t = wi_id w) ?ts) ?ws)))"
    by (rule concat_concat_map)
  also have "mset \<dots> = mset (concat (map (\<lambda>t. filter (\<lambda>p. pi_tab p = ti_id t) ?ps) ?ts))"
  proof -
    have "mset (concat (map (\<lambda>w. filter (\<lambda>t. ti_workspace t = wi_id w) ?ts) ?ws)) = mset (filter (\<lambda>t. ti_workspace t \<in> wi_id ` set ?ws) ?ts)"
      by (rule mset_partition [OF d(1)])
    also have "filter (\<lambda>t. ti_workspace t \<in> wi_id ` set ?ws) ?ts = ?ts" using c by (auto simp: coherent_def filter_id_conv)
    finally show ?thesis unfolding sum by simp
  qed
  also have "\<dots> = mset (filter (\<lambda>p. pi_tab p \<in> ti_id ` set ?ts) ?ps)" by (rule mset_partition [OF d(2)])
  also have "filter (\<lambda>p. pi_tab p \<in> ti_id ` set ?ts) ?ps = ?ps" using coherent_pane_tab [OF c] by (simp add: filter_id_conv)
  finally show ?thesis by simp
qed

section \<open>The properties\<close>

lemma shown_workspace_origin:
  assumes p: "project sv sn = Inr h" and w: "w \<in> set (shown_workspaces h)"
  obtains w1 where "w1 \<in> set (projected sv sn)" "w = assign_titles w1 \<or> (\<exists>c. w = (assign_titles w1)\<lparr>ws_group_counts := c\<rparr>)"
proof -
  from p have c: "coherent sn" and h: "hm_workspaces h = group_worktrees (assign_contextual_titles (projected sv sn)) (sn_workspaces sn)"
    by (auto simp: project_iff)
  have d: "distinct (map wi_id (sn_workspaces sn))" using c by (simp add: coherent_def)
  from shown_of_grouped(2) [OF d projected_ids h] w obtain w0 where
    "w0 \<in> set (assign_contextual_titles (projected sv sn))" "w = w0 \<or> (\<exists>c. w = w0\<lparr>ws_group_counts := c\<rparr>)" by blast
  then show thesis unfolding assign_contextual_titles_def set_map using that by blast
qed

text \<open>C16.  Which reads of the Herdr TUI become a Home: exactly the coherent ones, whose identifiers are present and not
  repeated, whose references lead to what they name, and whose agents have a known status and decorate the
  terminal they say they do.\<close>
theorem project_accepts: "(\<exists>h. project sv sn = Inr h) \<longleftrightarrow> coherent sn"
  by (simp add: project_iff)

text \<open>C15.  A Home shows every workspace, tab and terminal of the read exactly once and in its place: grouping worktrees
  moves workspaces and loses none, a workspace shows its own tabs, a tab shows its own terminals with their
  terminal ids, and a terminal shows the agent that decorates it.\<close>
theorem project_shows_everything:
  assumes "project sv sn = Inr h"
  shows "mset (map ws_id (shown_workspaces h)) = mset (map wi_id (sn_workspaces sn))
    \<and> (\<forall>w \<in> set (shown_workspaces h).
         mset (map tb_id (ws_tabs w)) = mset (map ti_id (filter (\<lambda>t. ti_workspace t = ws_id w) (sn_tabs sn)))
         \<and> (\<forall>t \<in> set (ws_tabs w). mset (map (\<lambda>x. (tm_pane x, tm_terminal x)) (tb_terminals t)) =
              mset (map (\<lambda>p. (pi_id p, pi_terminal p)) (filter (\<lambda>p. pi_tab p = tb_id t) (sn_panes sn)))))
    \<and> mset (map tm_pane (concat (map terminals_of (shown_workspaces h)))) = mset (map pi_id (sn_panes sn))
    \<and> (\<forall>w \<in> set (shown_workspaces h). \<forall>x \<in> set (terminals_of w). \<forall>a \<in> set (sn_agents sn).
         ai_pane a = tm_pane x \<longrightarrow> tm_agent x = Some (agent_of a))"
proof -
  let ?pl = "pane_place (sn_agents sn)"
  from assms have c: "coherent sn" and h: "hm_workspaces h = group_worktrees (assign_contextual_titles (projected sv sn)) (sn_workspaces sn)"
    by (auto simp: project_iff)
  have d: "distinct (map wi_id (sn_workspaces sn))" and da: "distinct (map ai_pane (sn_agents sn))" using c by (simp_all add: coherent_def)
  note g = shown_of_grouped(1) [OF d projected_ids h]
  have "mset (map fst (map places (shown_workspaces h))) = mset (map fst (map places (assign_contextual_titles (projected sv sn))))"
    using arg_cong [OF g, of "image_mset fst"] by (simp only: mset_map)
  then have ids: "mset (map ws_id (shown_workspaces h)) = mset (map wi_id (sn_workspaces sn))"
    by (simp add: map_places_projected comp_def expected_places_def) (simp add: places_def comp_def)
  have place: "\<exists>wi \<in> set (sn_workspaces sn). places w = expected_places sn wi"
    if "w \<in> set (shown_workspaces h)" for w
  proof -
    have "places w \<in> set_mset (mset (map places (shown_workspaces h)))" using that by simp
    then have "places w \<in> set (map places (assign_contextual_titles (projected sv sn)))" unfolding g by (simp only: set_mset_mset)
    then show ?thesis unfolding map_places_projected by auto
  qed
  have tabs: "mset (map tb_id (ws_tabs w)) = mset (map ti_id (filter (\<lambda>t. ti_workspace t = ws_id w) (sn_tabs sn)))"
    and panes: "\<forall>t \<in> set (ws_tabs w). mset (map terminal_place (tb_terminals t)) =
              image_mset ?pl (mset (filter (\<lambda>p. pi_tab p = tb_id t) (sn_panes sn)))"
    if w: "w \<in> set (shown_workspaces h)" for w
  proof -
    from place [OF w] obtain wi where pl: "places w = expected_places sn wi" by blast
    have i: "ws_id w = wi_id wi" using pl by (simp add: places_def expected_places_def)
    have m: "map (\<lambda>t. (tb_id t, map terminal_place (tb_terminals t))) (ws_tabs w) = map (\<lambda>t. (ti_id t, map ?pl
        (order_panes (filter (\<lambda>p. pi_tab p = ti_id t) (sn_panes sn)) (filter (\<lambda>l. li_tab l = ti_id t) (sn_layouts sn)) (wi_id wi) (ti_id t))))
        (sort_key (\<lambda>t. (ti_number t, ti_id t)) (filter (\<lambda>t. ti_workspace t = wi_id wi) (sn_tabs sn)))"
      using pl by (simp add: places_def expected_places_def)
    from arg_cong [OF m, of "map fst"] have "map tb_id (ws_tabs w) = map ti_id (sort_key (\<lambda>t. (ti_number t, ti_id t)) (filter (\<lambda>t. ti_workspace t = wi_id wi) (sn_tabs sn)))"
      by (simp add: comp_def)
    then show "mset (map tb_id (ws_tabs w)) = mset (map ti_id (filter (\<lambda>t. ti_workspace t = ws_id w) (sn_tabs sn)))" by (simp add: i)
    show "\<forall>t \<in> set (ws_tabs w). mset (map terminal_place (tb_terminals t)) =
              image_mset ?pl (mset (filter (\<lambda>p. pi_tab p = tb_id t) (sn_panes sn)))"
    proof
      fix t assume "t \<in> set (ws_tabs w)"
      then have "(tb_id t, map terminal_place (tb_terminals t)) \<in> set (map (\<lambda>t. (tb_id t, map terminal_place (tb_terminals t))) (ws_tabs w))" by force
      then show "mset (map terminal_place (tb_terminals t)) = image_mset ?pl (mset (filter (\<lambda>p. pi_tab p = tb_id t) (sn_panes sn)))"
        unfolding m by (auto simp: mset_tab_panes [OF c] dest!: arg_cong [of "map terminal_place _" _ mset])
    qed
  qed
  have ids2: "mset (map (\<lambda>x. (tm_pane x, tm_terminal x)) (tb_terminals t)) =
              mset (map (\<lambda>p. (pi_id p, pi_terminal p)) (filter (\<lambda>p. pi_tab p = tb_id t) (sn_panes sn)))"
    if "w \<in> set (shown_workspaces h)" "t \<in> set (ws_tabs w)" for w t
    using arg_cong [OF panes [OF that(1), rule_format, OF that(2)], of "image_mset (\<lambda>(a, b, c). (a, b))"]
    by (simp add: terminal_place_def pane_place_def comp_def multiset.map_comp)
  have "concat (map snd (snd (places w))) = map terminal_place (terminals_of w)" for w
    by (simp add: places_def terminals_of_def map_concat comp_def)
  then have "map terminal_place (concat (map terminals_of (shown_workspaces h))) = concat (map (\<lambda>w. concat (map snd (snd (places w)))) (shown_workspaces h))"
    by (simp add: map_concat comp_def)
  with shown_places [OF assms] have all: "mset (map terminal_place (concat (map terminals_of (shown_workspaces h)))) = mset (map ?pl (sn_panes sn))" by simp
  from arg_cong [OF this, of "image_mset fst"] have total: "mset (map tm_pane (concat (map terminals_of (shown_workspaces h)))) = mset (map pi_id (sn_panes sn))"
    by (simp add: multiset.map_comp comp_def terminal_place_def pane_place_def)
  have "tm_agent x = Some (agent_of a)" if "w \<in> set (shown_workspaces h)" "x \<in> set (terminals_of w)" "a \<in> set (sn_agents sn)" "ai_pane a = tm_pane x" for w x a
  proof -
    have "terminal_place x \<in> set (map terminal_place (concat (map terminals_of (shown_workspaces h))))" using that by auto
    then have "terminal_place x \<in> set (map ?pl (sn_panes sn))" using mset_eq_setD [OF all] by simp
    then obtain p where "terminal_place x = ?pl p" by auto
    moreover have "index_by ai_pane (sn_agents sn) (tm_pane x) = Some a" using that by (simp add: index_by_Some [OF da])
    ultimately show ?thesis by (simp add: terminal_place_def pane_place_def)
  qed
  with ids tabs ids2 total show ?thesis by blast
qed

lemma terminal_count_titles [simp]: "terminal_count (assign_titles w) = terminal_count w" "ws_label (assign_titles w) = ws_label w"
proof -
  have "length (tb_terminals (number_tab t)) = length (tb_terminals t)" "length (tb_terminals (label_lone l t)) = length (tb_terminals t)" for t l
    by (metis length_map number_tab_places(2)) (metis length_map label_lone_places(2))
  then show "terminal_count (assign_titles w) = terminal_count w" "ws_label (assign_titles w) = ws_label w"
    by (simp_all add: assign_titles_def terminal_count_def comp_def)
qed

definition close_tab :: "tab \<Rightarrow> tab" where
  "close_tab t = t\<lparr>tb_terminals := map (\<lambda>x. x\<lparr>tm_actions := tm_actions x @ [TerminalActionClose]\<rparr>) (tb_terminals t)\<rparr>"

lemma projected_manual:
  assumes "w \<in> set (projected sv sn)" "t \<in> set (ws_tabs w)" "x \<in> set (tb_terminals t)" "tm_manual x = Some n"
  shows "tm_title x = n"
proof -
  have tabs: "ws_tabs (project_workspace sv sn bw bt ags wi) = map (project_tab sv sn bt ags wi) ts
      \<or> ws_tabs (project_workspace sv sn bw bt ags wi) = map (close_tab \<circ> project_tab sv sn bt ags wi) ts"
    if "ts = sort_key (\<lambda>t. (ti_number t, ti_id t)) (bw (wi_id wi))" for bw bt ags wi ts
    unfolding that project_workspace_def Let_def by (simp add: add_close_def close_tab_def comp_def)
  from assms(1) obtain bw bt ags wi where "w = project_workspace sv sn bw bt ags wi" unfolding projected_def by auto
  with tabs [OF refl, of bw bt ags wi] assms(2)
  have "\<exists>ti. t = project_tab sv sn bt ags wi ti \<or> t = close_tab (project_tab sv sn bt ags wi ti)" by auto
  then obtain ti where "t = project_tab sv sn bt ags wi ti \<or> t = close_tab (project_tab sv sn bt ags wi ti)" ..
  with assms(3,4) show ?thesis
    by (auto simp: project_tab_def close_tab_def project_terminal_def display_terminal_title_def Let_def)
qed

lemma lone_tab:
  assumes "terminal_count w = 1" "t \<in> set (ws_tabs w)" "x \<in> set (tb_terminals t)"
  shows "tb_terminals t = [x]"
proof -
  have "length (tb_terminals t) \<le> terminal_count w" unfolding terminal_count_def
    by (rule member_le_sum_list) (use assms in auto)
  with assms show ?thesis by (cases "tb_terminals t") auto
qed

text \<open>C17.  Titles tell the terminals of a tab apart: two of them share a title only when the person gave both names.
  A workspace's only terminal is called by the name the person gave it, else by the workspace's.\<close>
theorem project_titles:
  assumes "project sv sn = Inr h" "w \<in> set (shown_workspaces h)" "t \<in> set (ws_tabs w)"
  shows "(terminal_count w > 1 \<longrightarrow> (\<forall>i j. i < length (tb_terminals t) \<and> j < length (tb_terminals t) \<and> i \<noteq> j
            \<and> tm_title (tb_terminals t ! i) = tm_title (tb_terminals t ! j)
            \<longrightarrow> tm_manual (tb_terminals t ! i) \<noteq> None \<and> tm_manual (tb_terminals t ! j) \<noteq> None))
    \<and> (terminal_count w = 1 \<longrightarrow> (\<forall>x \<in> set (tb_terminals t). tm_title x = (case tm_manual x of Some n \<Rightarrow> n | None \<Rightarrow> ws_label w)))"
proof -
  from shown_workspace_origin [OF assms(1,2)] obtain w1 where
    w1: "w1 \<in> set (projected sv sn)" "w = assign_titles w1 \<or> (\<exists>c. w = (assign_titles w1)\<lparr>ws_group_counts := c\<rparr>)" .
  then have w: "ws_tabs w = ws_tabs (assign_titles w1)" "ws_label w = ws_label w1" "terminal_count w = terminal_count w1"
    using terminal_count_titles [of w1] by (auto simp: terminal_count_def)
  have "tm_manual (tb_terminals t ! i) \<noteq> None"
    if "terminal_count w > 1" "i < length (tb_terminals t)" "j < length (tb_terminals t)" "i \<noteq> j"
      "tm_title (tb_terminals t ! i) = tm_title (tb_terminals t ! j)" for i j
  proof -
    from assms(3) that(1) obtain t0 where "t = number_tab t0" by (auto simp: w assign_titles_def)
    with number_tab_titles [of i t0 j] that(2-5) show ?thesis by simp
  qed
  note many = this
  have "tm_title x = (case tm_manual x of Some n \<Rightarrow> n | None \<Rightarrow> ws_label w)"
    if one: "terminal_count w = 1" and x: "x \<in> set (tb_terminals t)" for x
  proof -
    from assms(3) one obtain t0 where t0: "t0 \<in> set (ws_tabs w1)" "t = label_lone (ws_label w1) t0"
      by (auto simp: w assign_titles_def)
    then obtain y where y: "y \<in> set (tb_terminals t0)" using x by (auto simp: label_lone_def split: list.splits)
    have "tb_terminals t0 = [y]" by (rule lone_tab [OF _ t0(1) y]) (use one w in simp)
    with t0 x have "x = (if tm_manual y = None then y\<lparr>tm_title := ws_label w1\<rparr> else y)" by (simp add: label_lone_def)
    then show ?thesis using projected_manual [OF w1(1) t0(1) y] by (auto simp: w split: option.splits)
  qed
  with many show ?thesis by metis
qed

section \<open>Counts\<close>

definition agents_with :: "status \<Rightarrow> terminal list \<Rightarrow> nat" where
  "agents_with s ts = length (filter (\<lambda>x. map_option ag_status (tm_agent x) = Some s) ts)"

definition exact_counts :: "terminal list \<Rightarrow> agent_counts" where
  "exact_counts ts = \<lparr>ac_working = agents_with StatusWorking ts, ac_blocked = agents_with StatusBlocked ts,
     ac_error = agents_with StatusError ts, ac_idle = agents_with StatusIdle ts, ac_done = agents_with StatusDone ts,
     ac_unknown = agents_with StatusUnknown ts\<rparr>"

lemma count_agents_exact: "count_agents ws = exact_counts (concat (map terminals_of ws))"
proof -
  have "foldl count_agent c ts = \<lparr>ac_working = ac_working c + agents_with StatusWorking ts, ac_blocked = ac_blocked c + agents_with StatusBlocked ts,
     ac_error = ac_error c + agents_with StatusError ts, ac_idle = ac_idle c + agents_with StatusIdle ts, ac_done = ac_done c + agents_with StatusDone ts,
     ac_unknown = ac_unknown c + agents_with StatusUnknown ts\<rparr>" for c ts
  proof (induction ts arbitrary: c)
    case (Cons t ts)
    show ?case
    proof (cases "tm_agent t")
      case None
      then show ?thesis using Cons [of c] by (simp add: count_agent_def agents_with_def)
    next
      case (Some a)
      then show ?thesis using statuses_distinct by (simp add: Cons) (auto simp: count_agent_def agents_with_def)
    qed
  qed (simp add: agents_with_def)
  then show ?thesis by (simp add: count_agents_def exact_counts_def no_counts_def)
qed

lemma agents_with_place: "agents_with s ts = length (filter (\<lambda>(a, b, g, m). map_option ag_status g = Some s) (map terminal_place ts))"
  by (induction ts) (auto simp: agents_with_def terminal_place_def)

lemma exact_counts_places:
  assumes "places w = places w'"
  shows "exact_counts (terminals_of w) = exact_counts (terminals_of w')"
proof -
  have "map terminal_place (terminals_of w) = concat (map snd (snd (places w)))" for w
    by (simp add: places_def terminals_of_def map_concat comp_def)
  with assms show ?thesis by (simp add: exact_counts_def agents_with_place)
qed

lemma length_filter_mset: "mset xs = mset ys \<Longrightarrow> length (filter p xs) = length (filter p ys)"
  by (metis mset_filter size_mset)

lemma decorated_panes:
  assumes "distinct (map pi_id ps)" "distinct (map ai_pane as)" "\<forall>a \<in> set as. \<exists>p \<in> set ps. pi_id p = ai_pane a"
  shows "length (filter (\<lambda>p. map_option ai_status (index_by ai_pane as (pi_id p)) = Some s) ps) = count_status s as"
proof -
  let ?ps = "filter (\<lambda>p. map_option ai_status (index_by ai_pane as (pi_id p)) = Some s) ps" and ?as = "filter (\<lambda>a. ai_status a = s) as"
  have "pi_id ` set ?ps = ai_pane ` set ?as"
  proof (intro equalityI subsetI)
    fix k assume "k \<in> pi_id ` set ?ps"
    then show "k \<in> ai_pane ` set ?as" by (force simp: index_by_Some [OF assms(2)])
  next
    fix k assume "k \<in> ai_pane ` set ?as"
    then obtain a where a: "a \<in> set as" "ai_status a = s" "k = ai_pane a" by auto
    with assms(3) obtain p where "p \<in> set ps" "pi_id p = ai_pane a" by blast
    with a show "k \<in> pi_id ` set ?ps" using index_by_Some [OF assms(2), of "ai_pane a" a] by (intro image_eqI [of _ _ p]) auto
  qed
  moreover have "distinct (map pi_id ?ps)" "distinct (map ai_pane ?as)" using assms(1,2) by (simp_all add: distinct_map_filter)
  ultimately have "length (map pi_id ?ps) = length (map ai_pane ?as)" by (metis distinct_card list.set_map)
  then show ?thesis by (simp add: count_status_def)
qed

lemma ws_counts_add_close: "ws_counts (add_close w) = ws_counts w"
  by (simp add: add_close_def)

lemma projected_counts: "w \<in> set (projected sv sn) \<Longrightarrow> ws_counts w = shown_counts (count_agents [w])"
proof -
  assume "w \<in> set (projected sv sn)"
  then obtain bw bt ags wi where w: "w = project_workspace sv sn bw bt ags wi" unfolding projected_def by auto
  obtain w1 w2 where "w2 = w1\<lparr>ws_counts := shown_counts (count_agents [w1])\<rparr>" "w = (if terminal_management_available sv (sn_version sn)
            \<and> (terminal_count w2 > 1 \<or> resolve_close_action sn (wi_id wi) \<noteq> None) then add_close w2 else w2)"
    unfolding w project_workspace_def Let_def by blast
  then have "ws_counts w = shown_counts (count_agents [w1])" "places w = places w1" by (auto simp: ws_counts_add_close)
  then show ?thesis using exact_counts_places [of w w1] by (simp add: count_agents_exact)
qed

text \<open>The counts of a Home are exact.  Its totals are the numbers of shown terminals whose agent is working or
  blocked (an agent in error is never accepted), a workspace's counts are those of its own terminals, and the
  counts of a group are those of its workspaces together; counts that are all zero are left out.\<close>
theorem project_counts:
  assumes "project sv sn = Inr h"
  shows "hm_working h = agents_with StatusWorking (concat (map terminals_of (shown_workspaces h)))
    \<and> hm_blocked h = agents_with StatusBlocked (concat (map terminals_of (shown_workspaces h)))
    \<and> hm_error h = 0
    \<and> (\<forall>w \<in> set (shown_workspaces h). ws_counts w = shown_counts (exact_counts (terminals_of w)))
    \<and> (\<forall>g \<in> set (hm_workspaces h). hw_worktrees g \<noteq> [] \<longrightarrow>
         ws_group_counts g = shown_counts (exact_counts (concat (map terminals_of (workspace.truncate g # hw_worktrees g)))))"
proof -
  let ?pl = "pane_place (sn_agents sn)" and ?all = "concat (map terminals_of (shown_workspaces h))"
  from assms have c: "coherent sn" and h: "hm_workspaces h = group_worktrees (assign_contextual_titles (projected sv sn)) (sn_workspaces sn)"
    and tot: "hm_working h = count_status StatusWorking (sn_agents sn)" "hm_blocked h = count_status StatusBlocked (sn_agents sn)"
      "hm_error h = count_status StatusError (sn_agents sn)" by (auto simp: project_iff)
  have d: "distinct (map pi_id (sn_panes sn))" "distinct (map ai_pane (sn_agents sn))"
    "\<forall>a \<in> set (sn_agents sn). \<exists>p \<in> set (sn_panes sn). pi_id p = ai_pane a" "\<forall>a \<in> set (sn_agents sn). status_valid (ai_status a)"
    using c unfolding coherent_def by blast+
  have "concat (map snd (snd (places w))) = map terminal_place (terminals_of w)" for w
    by (simp add: places_def terminals_of_def map_concat comp_def)
  then have "map terminal_place ?all = concat (map (\<lambda>w. concat (map snd (snd (places w)))) (shown_workspaces h))"
    by (simp add: map_concat comp_def)
  then have all: "mset (map terminal_place ?all) = mset (map ?pl (sn_panes sn))" using shown_places [OF assms] by (simp only:)
  have "agents_with s ?all = count_status s (sn_agents sn)" for s
  proof -
    have "ag_status (agent_of a) = ai_status a" for a by (simp add: agent_of_def Let_def)
    then have "agents_with s ?all = length (filter (\<lambda>p. map_option ai_status (index_by ai_pane (sn_agents sn) (pi_id p)) = Some s) (sn_panes sn))"
      unfolding agents_with_place length_filter_mset [OF all] by (simp add: filter_map comp_def pane_place_def option.map_comp del: map_option_eq_Some)
    then show ?thesis using decorated_panes [OF d(1-3)] by simp
  qed
  moreover have "count_status StatusError (sn_agents sn) = 0"
    using d(4) by (auto simp: count_status_def filter_empty_conv status_valid_def status_defs)
  moreover have "ws_counts w = shown_counts (exact_counts (terminals_of w))" if w: "w \<in> set (shown_workspaces h)" for w
  proof -
    from shown_workspace_origin [OF assms w] obtain w1 where
      w1: "w1 \<in> set (projected sv sn)" "w = assign_titles w1 \<or> (\<exists>c. w = (assign_titles w1)\<lparr>ws_group_counts := c\<rparr>)" .
    have "ws_counts (assign_titles w1) = ws_counts w1" by (simp add: assign_titles_def)
    then have "ws_counts w = ws_counts w1" "places w = places w1" using w1(2) by auto
    with projected_counts [OF w1(1)] exact_counts_places [of w w1] show ?thesis by (simp add: count_agents_exact)
  qed
  moreover have "ws_group_counts g = shown_counts (exact_counts (concat (map terminals_of (workspace.truncate g # hw_worktrees g))))"
    if g: "g \<in> set (hm_workspaces h)" "hw_worktrees g \<noteq> []" for g
  proof -
    let ?gs = "repo_groups (sn_workspaces sn)" and ?ws = "assign_contextual_titles (projected sv sn)"
    from g(1) obtain w where w: "g = group_workspace ?gs ?ws w" by (auto simp: h group_worktrees_def Let_def)
    from g(2) obtain cs where cs: "map_of (rev ?gs) (ws_id w) = Some cs" unfolding w group_workspace_parts by (auto simp: trees_of_def split: option.splits)
    have t: "terminals_of (w\<lparr>ws_group_counts := x\<rparr>) = terminals_of w" for x by (simp add: terminals_of_def)
    have "ws_group_counts g = ws_group_counts (workspace.truncate g)" by (simp add: workspace.defs)
    then show ?thesis unfolding w group_workspace_parts using cs by (simp add: count_agents_exact t)
  qed
  ultimately show ?thesis using tot by simp
qed

section \<open>A concrete read\<close>

definition sample_semver :: semver where
  "sample_semver = \<lparr>sv_valid = (\<lambda>_. True), sv_prerelease = (\<lambda>_. []), sv_canonical = (\<lambda>v. v), sv_compare = (\<lambda>a b. if a = b then 0 else 1)\<rparr>"

lemma sample_project: "\<exists>h. project sample_semver sample_snapshot = Inr h"
  unfolding project_iff by (simp add: coherent_def sample_snapshot_defs status_valid_def status_defs)

theorem project_shows_everything_witness:
  "\<exists>h. project sample_semver sample_snapshot = Inr h \<and> mset (map ws_id (shown_workspaces h)) = {#''w1'', ''w2''#}"
proof -
  obtain h where h: "project sample_semver sample_snapshot = Inr h" using sample_project by blast
  from project_shows_everything [OF h] h show ?thesis by (intro exI [of _ h]) (simp add: sample_snapshot_defs)
qed

theorem project_titles_witness:
  "\<exists>h w t x. project sample_semver sample_snapshot = Inr h \<and> w \<in> set (shown_workspaces h) \<and> terminal_count w = 1
     \<and> t \<in> set (ws_tabs w) \<and> x \<in> set (tb_terminals t) \<and> tm_title x = (case tm_manual x of Some n \<Rightarrow> n | None \<Rightarrow> ws_label w)"
proof -
  obtain h where h: "project sample_semver sample_snapshot = Inr h" using sample_project by blast
  note all = project_shows_everything [OF h]
  have "mset (map ws_id (shown_workspaces h)) = mset (map wi_id (sn_workspaces sample_snapshot))" using all by (rule conjunct1)
  then have "set (map ws_id (shown_workspaces h)) = set (map wi_id (sn_workspaces sample_snapshot))" by (rule mset_eq_setD)
  moreover have "''w1'' \<in> set (map wi_id (sn_workspaces sample_snapshot))" by (simp add: sample_snapshot_defs)
  ultimately have "''w1'' \<in> ws_id ` set (shown_workspaces h)" by simp
  then obtain w where w: "w \<in> set (shown_workspaces h)" "ws_id w = ''w1''" by force
  have "mset (map tb_id (ws_tabs w)) = mset (map ti_id (filter (\<lambda>t. ti_workspace t = ws_id w) (sn_tabs sample_snapshot)))"
    using all w(1) by blast
  then have tabs: "mset (map tb_id (ws_tabs w)) = {#''t1''#}" using w(2) by (simp add: sample_snapshot_defs)
  then obtain t where t: "ws_tabs w = [t]" "tb_id t = ''t1''" by (cases "ws_tabs w") auto
  have "mset (map (\<lambda>x. (tm_pane x, tm_terminal x)) (tb_terminals t)) =
      mset (map (\<lambda>p. (pi_id p, pi_terminal p)) (filter (\<lambda>p. pi_tab p = tb_id t) (sn_panes sample_snapshot)))"
    using all w(1) t(1) by auto
  then have "mset (map (\<lambda>x. (tm_pane x, tm_terminal x)) (tb_terminals t)) = {#(''p1'', ''tp1'')#}"
    using t(2) by (simp add: sample_snapshot_defs)
  then obtain x where x: "tb_terminals t = [x]" by (cases "tb_terminals t") auto
  have "terminal_count w = 1" by (simp add: terminal_count_def t x)
  with project_titles [OF h w(1), of t] h w t x show ?thesis
    by (intro exI [of _ h] exI [of _ w] exI [of _ t] exI [of _ x]) simp
qed

theorem project_counts_witness: "\<exists>h. project sample_semver sample_snapshot = Inr h \<and> hm_error h = 0"
proof -
  obtain h where h: "project sample_semver sample_snapshot = Inr h" using sample_project by blast
  from project_counts [OF h] h show ?thesis by blast
qed

end
