(* ===== verification/CoreProjectFacts.thy ===== *)
theory CoreProjectFacts
  imports CoreProject HerdrProjectFacts
begin

text \<open>
  What the projection of herdr-core guarantees: every live terminal of this machine is shown once, whatever
  the app's document says; the order core lists terminals in does not matter; a kill ends exactly the
  workers that die with their parents.
\<close>

section \<open>The checks\<close>

definition addresses_of :: "app_space \<Rightarrow> string list" where
  "addresses_of s = concat (map apt_terminals (aps_tabs s))"

definition all_addresses :: "app_space list \<Rightarrow> string list" where
  "all_addresses ss = concat (map addresses_of ss)"

lemma place_terminals_ok:
  "place_terminals as placed = Inr p \<Longrightarrow> distinct as \<and> set as \<inter> set placed = {} \<and> set p = set as \<union> set placed"
  by (induction as placed arbitrary: p rule: place_terminals.induct) (auto split: if_splits)

lemma check_app_tabs_ok:
  "check_app_tabs ts ids placed = Inr p \<Longrightarrow> distinct (map apt_id ts) \<and> apt_id ` set ts \<inter> set ids = {}
     \<and> distinct (concat (map apt_terminals ts)) \<and> set (concat (map apt_terminals ts)) \<inter> set placed = {}
     \<and> set p = set (concat (map apt_terminals ts)) \<union> set placed"
proof (induction ts ids placed arbitrary: p rule: check_app_tabs.induct)
  case (2 t ts ids placed)
  then obtain p' where p': "apt_id t \<notin> set ids" "place_terminals (apt_terminals t) placed = Inr p'" "check_app_tabs ts (apt_id t # ids) p' = Inr p"
    by (auto split: if_splits sum.splits)
  from 2(1) [OF p'] place_terminals_ok [OF p'(2)] p'(1) show ?case by auto
qed simp

lemma check_spaces_ok:
  "check_spaces ss ids placed = Inr p \<Longrightarrow> distinct (map aps_id ss) \<and> aps_id ` set ss \<inter> set ids = {} \<and> other_terminals_id \<notin> aps_id ` set ss
     \<and> (\<forall>s \<in> set ss. distinct (map apt_id (aps_tabs s)))
     \<and> distinct (all_addresses ss) \<and> set (all_addresses ss) \<inter> set placed = {} \<and> set p = set (all_addresses ss) \<union> set placed"
proof (induction ss ids placed arbitrary: p rule: check_spaces.induct)
  case (2 s ss ids placed)
  then obtain p' where p': "\<not> (aps_id s \<in> set ids \<or> aps_id s = other_terminals_id)" "check_app_tabs (aps_tabs s) [] placed = Inr p'"
    "check_spaces ss (aps_id s # ids) p' = Inr p" by (auto split: if_splits sum.splits)
  have i: "distinct (map aps_id ss)" "aps_id ` set ss \<inter> set (aps_id s # ids) = {}" "other_terminals_id \<notin> aps_id ` set ss"
    "\<forall>s \<in> set ss. distinct (map apt_id (aps_tabs s))" "distinct (all_addresses ss)" "set (all_addresses ss) \<inter> set p' = {}"
    "set p = set (all_addresses ss) \<union> set p'" using 2(1) [OF p'] by blast+
  have c: "distinct (map apt_id (aps_tabs s))" "distinct (addresses_of s)" "set (addresses_of s) \<inter> set placed = {}"
    "set p' = set (addresses_of s) \<union> set placed" using check_app_tabs_ok [OF p'(2)] unfolding addresses_of_def by blast+
  have "all_addresses (s # ss) = addresses_of s @ all_addresses ss" by (simp add: all_addresses_def)
  with i(5,6,7) c(2,3,4) have "distinct (all_addresses (s # ss))" "set (all_addresses (s # ss)) \<inter> set placed = {}"
    "set p = set (all_addresses (s # ss)) \<union> set placed" by auto
  with i(1-4) c(1) p'(1) show ?case by auto
qed (simp add: all_addresses_def)

lemma collect_live_ok:
  "collect_live ts live = Inr l \<Longrightarrow> distinct (map ct_address live) \<Longrightarrow>
     l = rev live @ filter local_terminal ts \<and> distinct (map ct_address l)"
proof (induction ts live arbitrary: l rule: collect_live.induct)
  case (2 t ts live)
  show ?case
  proof (cases "local_terminal t")
    case True
    have new: "ct_address t \<notin> ct_address ` set live" and r: "collect_live ts (t # live) = Inr l"
      using 2(3) True by (auto split: if_splits)
    have valid: "\<not> (case ct_status t of Some s \<Rightarrow> \<not> core_status_valid (cs_state s) | None \<Rightarrow> False)"
      using 2(3) True by (auto split: if_splits)
    have "collect_live ts (t # live) = Inr l \<Longrightarrow> distinct (map ct_address (t # live)) \<Longrightarrow>
        l = rev (t # live) @ filter local_terminal ts \<and> distinct (map ct_address l)"
      using 2(2) [OF _ new valid] True by blast
    moreover have "distinct (map ct_address (t # live))" using new 2(4) by simp
    ultimately have e: "l = rev (t # live) @ filter local_terminal ts" "distinct (map ct_address l)" using r by blast+
    from e(1) True have "l = rev live @ filter local_terminal (t # ts)" by simp
    with e(2) show ?thesis by blast
  next
    case False
    then have "collect_live ts live = Inr l" using 2(3) by simp
    from 2(1) [OF False this 2(4)] False show ?thesis by (metis filter.simps(2))
  qed
qed (simp add: rev_map [symmetric])

section \<open>Placing waiting terminals\<close>

definition spaces_ok :: "waiting_state \<Rightarrow> bool" where
  "spaces_ok w \<longleftrightarrow> distinct (map aps_id (wp_spaces w)) \<and> other_terminals_id \<notin> aps_id ` set (wp_spaces w)
     \<and> (\<forall>s \<in> set (wp_spaces w). distinct (map apt_id (aps_tabs s)))
     \<and> distinct (all_addresses (wp_spaces w)) \<and> set (all_addresses (wp_spaces w)) = set (wp_placed w)"

lemma mset_update_first:
  assumes "\<exists>x \<in> set xs. p x" "\<And>x. x \<in> set xs \<Longrightarrow> p x \<Longrightarrow> mset (g (f x)) = add_mset a (mset (g x))"
  shows "mset (concat (map g (update_first p f xs))) = add_mset a (mset (concat (map g xs)))"
  using assms by (induction xs) auto

lemma append_to_tab_addresses:
  "mset (concat (map apt_terminals (append_to_tab tid a ts))) = add_mset a (mset (concat (map apt_terminals ts)))"
proof -
  let ?ts = "if tid \<in> apt_id ` set ts then ts else ts @ [empty_tab tid]"
  have "\<exists>t \<in> set ?ts. apt_id t = tid" by (auto simp: empty_tab_def)
  then have "mset (concat (map apt_terminals (append_to_tab tid a ts))) = add_mset a (mset (concat (map apt_terminals ?ts)))"
    unfolding append_to_tab_def Let_def by (rule mset_update_first) simp
  then show ?thesis by (simp add: empty_tab_def)
qed

lemma append_to_tab_ids: "distinct (map apt_id ts) \<Longrightarrow> distinct (map apt_id (append_to_tab tid a ts))"
  unfolding append_to_tab_def Let_def by (subst map_update_first) (auto simp: empty_tab_def)

definition leaves_out :: "nat \<Rightarrow> core_terminal \<Rightarrow> waiting_state \<Rightarrow> bool" where
  "leaves_out before t w \<longleftrightarrow> (case wp_tab_space w (label_of t ''herdr.tab'') of Some ow \<Rightarrow> ow \<noteq> label_of t ''herdr.space'' | None \<Rightarrow> False)
     \<or> label_of t ''herdr.space'' \<notin> aps_id ` set (wp_spaces w) \<and> before \<noteq> 0 \<and> ct_created t \<ge> before"

definition with_space :: "core_terminal \<Rightarrow> app_space list \<Rightarrow> app_space list" where
  "with_space t ss = (if label_of t ''herdr.space'' \<in> aps_id ` set ss then ss
     else ss @ [\<lparr>aps_id = label_of t ''herdr.space'', aps_name = [], aps_folder = ct_cwd t, aps_machine = False, aps_waiting = True, aps_tabs = []\<rparr>])"

lemma place_one_spaces:
  "place_one before t w = w \<and> leaves_out before t w \<or>
   wp_spaces (place_one before t w) = update_first (\<lambda>s. aps_id s = label_of t ''herdr.space'')
      (\<lambda>s. s\<lparr>aps_tabs := append_to_tab (label_of t ''herdr.tab'') (ct_address t) (aps_tabs s)\<rparr>) (with_space t (wp_spaces w))
   \<and> wp_placed (place_one before t w) = ct_address t # wp_placed w \<and> \<not> leaves_out before t w"
  unfolding place_one_def Let_def leaves_out_def with_space_def by (auto split: option.splits)

lemma place_one_ok:
  assumes ok: "spaces_ok w" and new: "ct_address t \<notin> set (wp_placed w)" and lab: "label_of t ''herdr.space'' \<noteq> other_terminals_id"
  shows "spaces_ok (place_one before t w)"
proof (cases "leaves_out before t w")
  case True
  then show ?thesis using place_one_spaces [of before t w] ok by auto
next
  case False
  let ?sid = "label_of t ''herdr.space''" and ?ss = "with_space t (wp_spaces w)"
  let ?f = "\<lambda>s. s\<lparr>aps_tabs := append_to_tab (label_of t ''herdr.tab'') (ct_address t) (aps_tabs s)\<rparr>"
  let ?us = "update_first (\<lambda>s. aps_id s = ?sid) ?f ?ss"
  have p: "wp_spaces (place_one before t w) = ?us" "wp_placed (place_one before t w) = ct_address t # wp_placed w"
    using place_one_spaces [of before t w] False by auto
  have ids: "map aps_id ?us = map aps_id ?ss" by (rule map_update_first) simp
  have ss: "distinct (map aps_id ?ss)" "other_terminals_id \<notin> aps_id ` set ?ss" "all_addresses ?ss = all_addresses (wp_spaces w)"
    "\<forall>s \<in> set ?ss. distinct (map apt_id (aps_tabs s))" "\<exists>s \<in> set ?ss. aps_id s = ?sid"
    using ok lab by (auto simp: spaces_ok_def with_space_def all_addresses_def addresses_of_def)
  have "mset (all_addresses ?us) = add_mset (ct_address t) (mset (all_addresses ?ss))"
    unfolding all_addresses_def by (rule mset_update_first [OF ss(5)]) (simp add: addresses_of_def append_to_tab_addresses)
  then have a: "mset (all_addresses ?us) = mset (ct_address t # all_addresses (wp_spaces w))" by (simp add: ss(3))
  have "distinct (ct_address t # all_addresses (wp_spaces w))" using ok new by (simp add: spaces_ok_def)
  then have "distinct (all_addresses ?us)" "set (all_addresses ?us) = insert (ct_address t) (set (wp_placed w))"
    using mset_eq_imp_distinct_iff [OF a] mset_eq_setD [OF a] ok by (auto simp: spaces_ok_def)
  moreover have "\<forall>s \<in> set ?us. distinct (map apt_id (aps_tabs s))"
    using ss(4) update_first_in_set by (fastforce simp: append_to_tab_ids)
  moreover have "other_terminals_id \<notin> aps_id ` set ?us" using ss(2) ids by (metis list.set_map)
  ultimately show ?thesis using ss(1) by (simp add: spaces_ok_def p ids)
qed

lemma place_one_placed: "set (wp_placed (place_one before t w)) \<subseteq> insert (ct_address t) (set (wp_placed w))"
  using place_one_spaces [of before t w] by auto

lemma fold_place_ok:
  assumes "spaces_ok w" "distinct (map ct_address ts)" "\<forall>t \<in> set ts. ct_address t \<notin> set (wp_placed w) \<and> label_of t ''herdr.space'' \<noteq> other_terminals_id"
  shows "spaces_ok (fold (place_one before) ts w)"
  using assms
proof (induction ts arbitrary: w)
  case (Cons t ts)
  have "spaces_ok (place_one before t w)" using Cons.prems by (intro place_one_ok) auto
  moreover have "\<forall>u \<in> set ts. ct_address u \<notin> set (wp_placed (place_one before t w)) \<and> label_of u ''herdr.space'' \<noteq> other_terminals_id"
  proof
    fix u assume u: "u \<in> set ts"
    with Cons.prems(2) have "ct_address u \<noteq> ct_address t" by (metis distinct.simps(2) image_eqI list.set_map list.simps(9))
    then have "ct_address u \<notin> insert (ct_address t) (set (wp_placed w))" using Cons.prems(3) u by simp
    with place_one_placed [of before t w] Cons.prems(3) u
    show "ct_address u \<notin> set (wp_placed (place_one before t w)) \<and> label_of u ''herdr.space'' \<noteq> other_terminals_id" by auto
  qed
  ultimately show ?case using Cons by simp
qed simp

lemma place_waiting_ok:
  assumes "check_spaces ss [] [] = Inr placed" "distinct (map ct_address live)"
  shows "spaces_ok (place_waiting ss live placed before)"
  unfolding place_waiting_def
proof (rule fold_place_ok)
  show "spaces_ok \<lparr>wp_spaces = ss, wp_tab_space = tab_spaces ss, wp_placed = placed\<rparr>"
    using check_spaces_ok [OF assms(1)] by (simp add: spaces_ok_def)
  have "distinct (map ct_address (filter (waits placed) live))" using assms(2) by (rule distinct_map_filter)
  then show "distinct (map ct_address (sort_by_creation (filter (waits placed) live)))"
    by (simp add: sort_by_creation_def distinct_map)
  show "\<forall>t \<in> set (sort_by_creation (filter (waits placed) live)). ct_address t \<notin> set (wp_placed \<lparr>wp_spaces = ss, wp_tab_space = tab_spaces ss, wp_placed = placed\<rparr>)
      \<and> label_of t ''herdr.space'' \<noteq> other_terminals_id"
    by (simp add: sort_by_creation_def waits_def)
qed

section \<open>Every live terminal is shown once\<close>

lemma live_at_Some: "live_at live a = Some t \<Longrightarrow> t \<in> set live \<and> ct_address t = a"
  unfolding live_at_def by (auto dest: find_SomeD)

lemma live_at_None: "live_at live a = None \<longleftrightarrow> a \<notin> ct_address ` set live"
  by (auto simp: live_at_def find_None_iff)

lemma placed_ancestor_range:
  "placed_ancestor live placed seen t = [] \<or> placed_ancestor live placed seen t \<in> set placed \<and> live_at live (placed_ancestor live placed seen t) \<noteq> None"
proof (induction live placed seen t rule: placed_ancestor.induct)
  case (1 live placed seen t)
  show ?case
  proof (cases "ct_parent t")
    case None
    then show ?thesis by (subst placed_ancestor.simps) simp
  next
    case p: (Some p)
    show ?thesis
    proof (cases "p \<in> set seen \<or> p \<in> set placed \<or> live_at live p = None")
      case True
      then show ?thesis using p by (auto simp: placed_ancestor.simps [of live placed seen t])
    next
      case False
      then obtain t' where t': "live_at live p = Some t'" by auto
      have "placed_ancestor live placed seen t = placed_ancestor live placed (p # seen) t'"
        using False t' p by (subst placed_ancestor.simps) simp
      with 1 [OF p _ _ t'] False show ?thesis by simp
    qed
  qed
qed

lemma mset_sort_by_creation [simp]: "mset (sort_by_creation ts) = mset ts" "set (sort_by_creation ts) = set ts"
  by (simp_all add: sort_by_creation_def)

lemma set_map_filter_iff: "y \<in> set (List.map_filter f xs) \<longleftrightarrow> (\<exists>x \<in> set xs. f x = Some y)"
  by (induction xs) (auto simp: List.map_filter_simps split: option.splits)

lemma mset_concat_option:
  "mset (concat (map (\<lambda>a. case f a of None \<Rightarrow> [] | Some t \<Rightarrow> t # g a) as)) =
     mset (List.map_filter f as) + mset (concat (map g (filter (\<lambda>a. f a \<noteq> None) as)))"
  by (induction as) (auto simp: List.map_filter_simps split: option.splits)

text \<open>The terminals of the app's tabs with their workers, and the others, are all live terminals.\<close>
lemma entries_cover:
  assumes live: "distinct (map ct_address live)" "\<forall>t \<in> set live. ct_address t \<noteq> []" and d: "distinct as" and p: "set as = set placed"
  shows "mset (concat (map (\<lambda>a. case live_at live a of None \<Rightarrow> [] | Some t \<Rightarrow> t # followers live placed a) as) @ others live placed) = mset live"
proof -
  let ?anc = "ancestor_of live placed" and ?up = "unplaced live placed"
  let ?las = "filter (\<lambda>a. live_at live a \<noteq> None) as"
  have dl: "distinct live" using live(1) by (simp add: distinct_map)
  have las: "set ?las = {a. a \<in> set placed \<and> a \<in> ct_address ` set live}" using p by (auto simp: live_at_None)
  have nonempty: "a \<noteq> []" if a: "a \<in> set ?las" for a
  proof -
    from a las have "a \<in> ct_address ` set live" by blast
    with live(2) show ?thesis by auto
  qed
  have fol: "mset (followers live placed a) = mset (filter (\<lambda>t. ?anc t = id a) ?up)" if a: "a \<in> set ?las" for a
  proof -
    have "filter (\<lambda>t. ?anc t \<noteq> [] \<and> ?anc t = a) ?up = filter (\<lambda>t. ?anc t = id a) ?up"
      using nonempty [OF a] by (intro filter_cong) auto
    then show ?thesis by (simp only: followers_def mset_sort_by_creation)
  qed
  have anc: "?anc t = [] \<or> ?anc t \<in> set ?las" for t
    using placed_ancestor_range [of live placed "[ct_address t]" t] las live_at_None [of live] by (auto simp: ancestor_of_def)
  have "mset (concat (map (followers live placed) ?las)) = mset (concat (map (\<lambda>a. filter (\<lambda>t. ?anc t = id a) ?up) ?las))"
    by (rule mset_concat_map) (rule fol)
  also have "\<dots> = mset (filter (\<lambda>t. ?anc t \<in> id ` set ?las) ?up)" by (rule mset_partition) (use d in simp)
  also have "filter (\<lambda>t. ?anc t \<in> id ` set ?las) ?up = filter (\<lambda>t. ?anc t \<noteq> []) ?up"
  proof (rule filter_cong [OF refl])
    fix t
    show "?anc t \<in> id ` set ?las \<longleftrightarrow> ?anc t \<noteq> []" using anc [of t] nonempty [of "?anc t"] by (simp only: image_id id_apply) blast
  qed
  finally have f: "mset (concat (map (followers live placed) ?las)) = mset (filter (\<lambda>t. ?anc t \<noteq> []) ?up)" .
  have "distinct (List.map_filter (live_at live) as)"
  proof -
    have "map ct_address (List.map_filter (live_at live) as) = ?las"
      by (induction as) (auto simp: List.map_filter_simps dest: live_at_Some split: option.splits)
    then show ?thesis using d by (metis distinct_filter distinct_map)
  qed
  moreover have "set (List.map_filter (live_at live) as) = set (filter (\<lambda>t. ct_address t \<in> set placed) live)"
  proof (intro set_eqI iffI)
    fix t assume "t \<in> set (List.map_filter (live_at live) as)"
    then obtain a where "a \<in> set as" "live_at live a = Some t" by (auto simp: set_map_filter_iff)
    with live_at_Some [of live a t] p show "t \<in> set (filter (\<lambda>t. ct_address t \<in> set placed) live)" by simp
  next
    fix t assume "t \<in> set (filter (\<lambda>t. ct_address t \<in> set placed) live)"
    then have t: "t \<in> set live" "ct_address t \<in> set as" using p by auto
    have "live_at live (ct_address t) = Some t" unfolding live_at_def by (rule find_cong_key [OF live(1) t(1) refl])
    with t(2) show "t \<in> set (List.map_filter (live_at live) as)" by (auto simp: set_map_filter_iff)
  qed
  ultimately have m: "mset (List.map_filter (live_at live) as) = mset (filter (\<lambda>t. ct_address t \<in> set placed) live)"
    using set_eq_iff_mset_eq_distinct dl distinct_filter by blast
  have "mset (concat (map (\<lambda>a. case live_at live a of None \<Rightarrow> [] | Some t \<Rightarrow> t # followers live placed a) as) @ others live placed)
      = mset (filter (\<lambda>t. ct_address t \<in> set placed) live) + (mset (filter (\<lambda>t. ?anc t \<noteq> []) ?up) + mset (filter (\<lambda>t. ?anc t = []) ?up))"
    by (simp only: mset_append mset_concat_option m f others_def mset_sort_by_creation add.assoc)
  also have "mset (filter (\<lambda>t. ?anc t \<noteq> []) ?up) + mset (filter (\<lambda>t. ?anc t = []) ?up) = mset ?up"
    using multiset_partition [of "mset ?up" "\<lambda>t. ?anc t \<noteq> []"] by simp
  also have "mset (filter (\<lambda>t. ct_address t \<in> set placed) live) + mset ?up = mset live"
    using multiset_partition [of "mset live" "\<lambda>t. ct_address t \<in> set placed"] by (simp add: unplaced_def)
  finally show ?thesis .
qed

text \<open>The terminals of one tab and of all tabs of the spaces.\<close>

definition with_followers :: "core_terminal list \<Rightarrow> string list \<Rightarrow> string \<Rightarrow> core_terminal list" where
  "with_followers live placed a = (case live_at live a of None \<Rightarrow> [] | Some t \<Rightarrow> t # followers live placed a)"

lemma tab_entries_terminals: "map fst (tab_entries live placed tab) = concat (map (with_followers live placed) (apt_terminals tab))"
  by (auto simp: tab_entries_def with_followers_def map_concat comp_def intro!: arg_cong [where f = concat] split: option.splits)

lemma concat_filter_nonempty: "concat (map f (filter (\<lambda>x. f x \<noteq> []) xs)) = concat (map f xs)"
  by (induction xs) auto

lemma map_snd_numbered [simp]: "map snd (numbered xs) = xs" "length (numbered xs) = length xs"
  by (simp_all add: numbered_def del: upt_Suc)

lemma concat_numbered: "concat (map (\<lambda>(n, x). f x) (numbered xs)) = concat (map f xs)"
proof -
  have "map (\<lambda>(n, x). f x) (numbered xs) = map f (map snd (numbered xs))" by (simp only: map_map comp_def split_def)
  then show ?thesis by simp
qed

lemma live_tabs_entries:
  "concat (map (\<lambda>(n, t). map fst (tab_entries live placed t)) (live_tabs live placed s)) = concat (map (with_followers live placed) (addresses_of s))"
proof -
  have "concat (map (\<lambda>(n, t). map fst (tab_entries live placed t)) (live_tabs live placed s))
      = concat (map (\<lambda>(n, t). map fst (tab_entries live placed t)) (numbered (aps_tabs s)))"
    using concat_filter_nonempty [of "\<lambda>(n, t). map fst (tab_entries live placed t)" "numbered (aps_tabs s)"]
    by (simp add: live_tabs_def split_def)
  also have "\<dots> = concat (map (\<lambda>t. map fst (tab_entries live placed t)) (aps_tabs s))" by (rule concat_numbered)
  also have "\<dots> = concat (map (with_followers live placed) (addresses_of s))"
    by (simp add: tab_entries_terminals addresses_of_def map_concat comp_def concat_concat_map)
  finally show ?thesis .
qed

section \<open>The projection\<close>

text \<open>What a shown terminal says of the live terminal: its address, its id, its agent; core gives no manual name.\<close>
definition core_place :: "string \<Rightarrow> core_terminal \<Rightarrow> string \<times> string \<times> agent option \<times> string option" where
  "core_place core t = terminal_place (core_terminal_view core t)"

lemma terminal_place_shown [simp]: "terminal_place (shown_terminal r e) = core_place (cr_id r) (fst e)"
  by (simp add: shown_terminal_def core_place_def terminal_place_def Let_def)

lemma terminal_places_places: "map terminal_place (terminals_of w) = concat (map snd (snd (places w)))"
  by (simp add: places_def terminals_of_def map_concat comp_def)

lemma places_with_counts [simp]: "places (with_counts w) = places w"
  by (simp add: with_counts_def)

lemma view_space_terminals:
  "map terminal_place (terminals_of (view_space r live placed home repos n s)) = map (core_place (cr_id r)) (concat (map (with_followers live placed) (addresses_of s)))"
proof -
  have "map terminal_place (terminals_of (view_space r live placed home repos n s))
      = map (core_place (cr_id r)) (concat (map (\<lambda>(n, t). map fst (tab_entries live placed t)) (live_tabs live placed s)))"
    by (simp add: view_space_def view_tab_def terminals_of_def map_concat comp_def split_def)
  then show ?thesis by (simp only: live_tabs_entries)
qed

lemma view_others_terminals: "map terminal_place (terminals_of (view_others r ts n)) = map (core_place (cr_id r)) ts"
  unfolding view_others_def Let_def terminal_places_places if_distrib [of places] places_assign_titles if_cancel
  by (simp add: places_def comp_def)

lemma core_workspaces_terminals:
  "map terminal_place (concat (map terminals_of (map with_counts (core_workspaces r live placed home repos spaces))))
     = map (core_place (cr_id r)) (concat (map (with_followers live placed) (all_addresses spaces)) @ others live placed)"
proof -
  let ?P = "\<lambda>w. concat (map snd (snd (places w)))"
  let ?vs = "map (\<lambda>(n, s). view_space r live placed home repos n s) (numbered spaces)"
  have c: "map terminal_place (concat (map terminals_of (map with_counts ws))) = concat (map ?P ws)" for ws
    by (simp add: map_concat comp_def terminal_places_places)
  have t: "concat (map ?P (assign_contextual_titles ws)) = concat (map ?P ws)" for ws
    by (simp add: assign_contextual_titles_def comp_def)
  have f: "concat (map ?P (filter (\<lambda>w. ws_tabs w \<noteq> []) ws)) = concat (map ?P ws)" for ws
    by (induction ws) (auto simp: places_def)
  have "concat (map ?P ?vs) = concat (map (\<lambda>(n, s). map (core_place (cr_id r)) (concat (map (with_followers live placed) (addresses_of s)))) (numbered spaces))"
    by (simp add: terminal_places_places [symmetric] view_space_terminals comp_def split_def)
  also have "\<dots> = concat (map (\<lambda>s. map (core_place (cr_id r)) (concat (map (with_followers live placed) (addresses_of s)))) spaces)"
    by (rule concat_numbered)
  also have "\<dots> = map (core_place (cr_id r)) (concat (map (with_followers live placed) (all_addresses spaces)))"
    by (induction spaces) (simp_all add: all_addresses_def)
  finally have v: "concat (map ?P ?vs) = map (core_place (cr_id r)) (concat (map (with_followers live placed) (all_addresses spaces)))" .
  have o: "concat (map ?P (if others live placed = [] then [] else [view_others r (others live placed) n])) = map (core_place (cr_id r)) (others live placed)" for n
    by (simp add: terminal_places_places [symmetric] view_others_terminals)
  show ?thesis unfolding c core_workspaces_def map_append concat_append t f v o ..
qed

text \<open>What a successful projection worked on.\<close>
lemma project_core_ok:
  assumes "project_core r home repos = Inr (sn, h)"
  obtains ss live placed0 w where "parse_app_document (cr_document r) = Inr ss" "collect_live (cr_terminals r) [] = Inr live"
    "check_spaces ss [] [] = Inr placed0"
    "w = place_waiting ss live placed0 (if cr_window r = AppWindowOpen \<and> cr_opened r \<noteq> 0 then unix_milli (cr_opened r) else 0)"
    "sn = core_snapshot r live (wp_placed w) home (wp_spaces w)"
    "shown_workspaces h = map with_counts (core_workspaces r live (wp_placed w) home repos (wp_spaces w))"
proof -
  from assms obtain ss live placed0 where p: "parse_app_document (cr_document r) = Inr ss" "collect_live (cr_terminals r) [] = Inr live"
    "check_spaces ss [] [] = Inr placed0" unfolding project_core_def by (auto split: sum.splits)
  let ?w = "place_waiting ss live placed0 (if cr_window r = AppWindowOpen \<and> cr_opened r \<noteq> 0 then unix_milli (cr_opened r) else 0)"
  have "sn = core_snapshot r live (wp_placed ?w) home (wp_spaces ?w)"
    "hm_workspaces h = map ungrouped (map with_counts (core_workspaces r live (wp_placed ?w) home repos (wp_spaces ?w)))"
    using assms unfolding project_core_def Let_def p sum.case by auto
  moreover have "shown_workspaces h = ws" if "hm_workspaces h = map ungrouped ws" for ws
    using that by (simp add: shown_workspaces_def ungrouped_def comp_def workspace.defs map_idI)
  ultimately show thesis using that [OF p refl] by blast
qed

text \<open>What a projection rests on: the live terminals, and the addresses the app's spaces have, once each.\<close>
lemma project_core_live:
  assumes "parse_app_document (cr_document r) = Inr ss" "collect_live (cr_terminals r) [] = Inr live" "check_spaces ss [] [] = Inr placed0"
    "w = place_waiting ss live placed0 before"
  shows "live = filter local_terminal (cr_terminals r)" "distinct (map ct_address live)" "spaces_ok w"
    "mset (concat (map (with_followers live (wp_placed w)) (all_addresses (wp_spaces w))) @ others live (wp_placed w)) = mset live"
proof -
  show l: "live = filter local_terminal (cr_terminals r)" and d: "distinct (map ct_address live)"
    using collect_live_ok [OF assms(2)] by (metis append_Nil distinct.simps(1) list.simps(8) rev.simps(1))+
  show s: "spaces_ok w" unfolding assms(4) by (rule place_waiting_ok [OF assms(3) d])
  have ne: "\<forall>t \<in> set live. ct_address t \<noteq> []" by (simp add: l local_terminal_def)
  from s have "distinct (all_addresses (wp_spaces w))" "set (all_addresses (wp_spaces w)) = set (wp_placed w)"
    by (simp_all add: spaces_ok_def)
  from entries_cover [OF d ne this]
  show "mset (concat (map (with_followers live (wp_placed w)) (all_addresses (wp_spaces w))) @ others live (wp_placed w)) = mset live"
    unfolding with_followers_def [abs_def] .
qed

lemma core_snapshot_panes:
  "map pi_id (sn_panes (core_snapshot r live placed home spaces)) = map ct_address (concat (map (with_followers live placed) (all_addresses spaces)) @ others live placed)"
proof -
  let ?e = "\<lambda>s. concat (map (\<lambda>(n, t). map (\<lambda>e. (aps_id s, apt_id t, fst e)) (tab_entries live placed t)) (live_tabs live placed s))"
  have "map (\<lambda>(w, b, t). t) (?e s) = concat (map (\<lambda>(n, t). map fst (tab_entries live placed t)) (live_tabs live placed s))" for s
    by (simp add: map_concat comp_def split_def)
  then have e: "map (\<lambda>(w, b, t). t) (concat (map ?e spaces)) = concat (map (with_followers live placed) (all_addresses spaces))"
    unfolding live_tabs_entries by (induction spaces) (simp_all add: all_addresses_def)
  have "map pi_id (map (\<lambda>(w, b, t). core_pane (cr_id r) w b t) xs) = map ct_address (map (\<lambda>(w, b, t). t) xs)" for xs
    by (simp add: core_pane_def comp_def split_def)
  then have "map pi_id (sn_panes (core_snapshot r live placed home spaces))
      = map ct_address (map (\<lambda>(w, b, t). t) (concat (map ?e spaces) @ map (\<lambda>t. (other_terminals_id, other_terminals_id, t)) (others live placed)))"
    unfolding core_snapshot_def Let_def snapshot.simps by blast
  also have "\<dots> = map ct_address (concat (map (with_followers live placed) (all_addresses spaces)) @ others live placed)"
    unfolding map_append e by (simp add: comp_def)
  finally show ?thesis .
qed

text \<open>C12.  When the projection of herdr-core succeeds, every live terminal of this machine is shown exactly once, whatever the app's
  document says of it: the terminals of all shown spaces and tabs, with their address, identity and agent, are those of the read,
  and so are the panes of the snapshot.  A document that the app damaged, a worker whose parent is elsewhere, a cycle of parents or a
  space that is gone never hides a terminal and never shows one twice.\<close>
theorem core_shows_everything:
  assumes "project_core r home repos = Inr (sn, h)"
  shows "mset (map terminal_place (concat (map terminals_of (shown_workspaces h)))) = mset (map (core_place (cr_id r)) (filter local_terminal (cr_terminals r)))
    \<and> mset (map pi_id (sn_panes sn)) = mset (map ct_address (filter local_terminal (cr_terminals r)))
    \<and> distinct (map pi_id (sn_panes sn))"
proof (intro conjI)
  obtain ss live placed0 w where p: "parse_app_document (cr_document r) = Inr ss" "collect_live (cr_terminals r) [] = Inr live"
    "check_spaces ss [] [] = Inr placed0"
    and w: "w = place_waiting ss live placed0 (if cr_window r = AppWindowOpen \<and> cr_opened r \<noteq> 0 then unix_milli (cr_opened r) else 0)"
    and sn: "sn = core_snapshot r live (wp_placed w) home (wp_spaces w)"
    and h: "shown_workspaces h = map with_counts (core_workspaces r live (wp_placed w) home repos (wp_spaces w))"
    using project_core_ok [OF assms] by metis
  note l = project_core_live [OF p w]
  show "mset (map terminal_place (concat (map terminals_of (shown_workspaces h)))) = mset (map (core_place (cr_id r)) (filter local_terminal (cr_terminals r)))"
    unfolding h core_workspaces_terminals mset_map l(4) l(1) [symmetric] ..
  show e: "mset (map pi_id (sn_panes sn)) = mset (map ct_address (filter local_terminal (cr_terminals r)))"
    unfolding sn core_snapshot_panes mset_map l(4) l(1) [symmetric] ..
  show "distinct (map pi_id (sn_panes sn))"
    using l(2) unfolding mset_eq_imp_distinct_iff [OF e] l(1) .
qed

section \<open>A read to look at\<close>

definition sample_core_terminal :: "string \<Rightarrow> nat \<Rightarrow> string option \<Rightarrow> core_terminal" where
  "sample_core_terminal a n parent = \<lparr>ct_address = a, ct_created = n, ct_cwd = ''/home/ada/code'', ct_die = (parent \<noteq> None), ct_foreground = None,
     ct_labels = (\<lambda>k. if k = ''herdr.space'' \<and> n = 7 then Some ''gone'' else if k = ''herdr.tab'' \<and> n = 7 then Some ''t9'' else None),
     ct_name = None, ct_parent = parent, ct_pid = None, ct_status = (if n = 3 then Some \<lparr>cs_app = ''claude'', cs_state = StatusWorking\<rparr> else None),
     ct_title = [], ct_turn = 0\<rparr>"

text \<open>A tab with \<open>A\<close>, its worker \<open>B\<close> and that one's worker \<open>C\<close>, a terminal that waits for its space and one nobody placed.\<close>
definition sample_core_read :: core_read where
  "sample_core_read = \<lparr>cr_id = ''core'', cr_version = ''0.1.16'',
     cr_terminals = [sample_core_terminal ''A'' 2 None, sample_core_terminal ''B'' 3 (Some ''A''), sample_core_terminal ''C'' 4 (Some ''B''),
       sample_core_terminal ''D'' 7 None, sample_core_terminal ''far/E'' 8 None, sample_core_terminal ''F'' 9 None],
     cr_document = Some (JObj [(''spaces'', JArr [JObj [(''id'', JStr ''s1''), (''tabs'', JArr [JObj [(''id'', JStr ''t1''),
       (''root'', JObj [(''type'', JStr ''block''), (''id'', JStr ''b1''), (''content'', JObj [(''terminal'', JStr ''A'')])])]])]])]),
     cr_window = AppWindowOpen, cr_opened = 0\<rparr>"

lemma sample_core_projected:
  "case project_core sample_core_read ''/home/ada'' None of Inl e \<Rightarrow> False
   | Inr (sn, h) \<Rightarrow> map (\<lambda>p. (pi_workspace p, pi_tab p, pi_id p)) (sn_panes sn) =
       [(''s1'', ''t1'', ''A''), (''s1'', ''t1'', ''B''), (''s1'', ''t1'', ''C''), (''gone'', ''t9'', ''D''), (''other'', ''other'', ''F'')]
     \<and> map ws_label (shown_workspaces h) = [''Space'', ''code'', ''Other terminals'']"
  by code_simp

theorem core_shows_everything_witness:
  "\<exists>sn h. project_core sample_core_read ''/home/ada'' None = Inr (sn, h)
     \<and> mset (map terminal_place (concat (map terminals_of (shown_workspaces h))))
        = mset (map (core_place ''core'') (filter local_terminal (cr_terminals sample_core_read)))
     \<and> length (filter local_terminal (cr_terminals sample_core_read)) = 5"
proof -
  obtain sn h where p: "project_core sample_core_read ''/home/ada'' None = Inr (sn, h)"
    using sample_core_projected by (auto split: sum.splits)
  have "cr_id sample_core_read = ''core''" "length (filter local_terminal (cr_terminals sample_core_read)) = 5" by code_simp+
  with core_shows_everything [OF p] p show ?thesis by auto
qed

section \<open>The order of the terminals\<close>

lemma live_at_mset:
  assumes "mset live = mset live'" "distinct (map ct_address live)"
  shows "live_at live = live_at live'"
proof
  fix a
  have d: "distinct (map ct_address live')" using assms by (metis mset_eq_imp_distinct_iff mset_map)
  have m: "live_at l a = Some t \<longleftrightarrow> t \<in> set l \<and> ct_address t = a" if "distinct (map ct_address l)" for l t
    using live_at_Some [of l a t] find_cong_key [OF that] by (auto simp: live_at_def)
  show "live_at live a = live_at live' a"
    by (rule option_eqI) (simp add: m [OF assms(2)] m [OF d] mset_eq_setD [OF assms(1)])
qed

lemma sort_by_creation_mset:
  assumes "mset ts = mset ts'" "distinct (map ct_address ts)"
  shows "sort_by_creation ts = sort_by_creation ts'"
proof -
  have "inj_on (\<lambda>t. (ct_created t, ct_address t)) (set ts)" using assms(2) by (auto simp: distinct_map inj_on_def)
  then show ?thesis unfolding sort_by_creation_def
    using sort_key_inj_key_eq [of ts "sort_key (\<lambda>t. (ct_created t, ct_address t)) ts'" "\<lambda>t. (ct_created t, ct_address t)"] assms(1) by simp
qed

lemma placed_ancestor_live_at:
  "live_at live = live_at live' \<Longrightarrow> placed_ancestor live placed seen t = placed_ancestor live' placed seen t"
proof (induction live placed seen t rule: placed_ancestor.induct)
  case (1 live placed seen t)
  show ?case
    unfolding placed_ancestor.simps [of live placed seen t] placed_ancestor.simps [of live' placed seen t] 1(2)
    using 1 by (auto split: option.splits)
qed

lemma sorted_filter_mset:
  assumes "mset live = mset live'" "distinct (map ct_address live)" "\<And>t. P t = Q t"
  shows "sort_by_creation (filter P live) = sort_by_creation (filter Q live')"
proof (rule sort_by_creation_mset)
  show "mset (filter P live) = mset (filter Q live')" using assms(1,3) by simp
  show "distinct (map ct_address (filter P live))" using assms(2) by (rule distinct_map_filter)
qed

lemma ancestor_of_live_at: "live_at live = live_at live' \<Longrightarrow> ancestor_of live placed = ancestor_of live' placed"
  by (intro ext) (unfold ancestor_of_def, rule placed_ancestor_live_at)

text \<open>All that the projection takes from the live terminals is the same for any order of them.\<close>
lemma live_parts_mset:
  assumes m: "mset live = mset live'" and d: "distinct (map ct_address live)"
  shows "followers live = followers live'" "others live = others live'" "tab_entries live = tab_entries live'"
    "live_tabs live = live_tabs live'" "space_label s live = space_label s live'" "place_waiting ss live = place_waiting ss live'"
proof -
  note l = live_at_mset [OF m d]
  note a = ancestor_of_live_at [OF l]
  have s: "sort_by_creation (filter P (unplaced live placed)) = sort_by_creation (filter P (unplaced live' placed))" for P placed
    unfolding unplaced_def filter_filter by (rule sorted_filter_mset [OF m d refl])
  show f: "followers live = followers live'"
    by (intro ext) (simp only: followers_def a s)
  show "others live = others live'"
    by (intro ext) (simp only: others_def a s)
  show t: "tab_entries live = tab_entries live'"
    by (intro ext) (simp only: tab_entries_def l f)
  show "live_tabs live = live_tabs live'"
    by (intro ext) (simp only: live_tabs_def t)
  show "space_label s live = space_label s live'"
    by (intro ext) (simp only: space_label_def l)
  have "sort_by_creation (filter (waits placed) live) = sort_by_creation (filter (waits placed) live')" for placed
    by (rule sorted_filter_mset [OF m d refl])
  then show "place_waiting ss live = place_waiting ss live'"
    by (intro ext) (simp only: place_waiting_def)
qed

lemma project_core_parts_mset:
  assumes m: "mset live = mset live'" and d: "distinct (map ct_address live)"
  shows "core_snapshot r live = core_snapshot r live'" "core_workspaces r live = core_workspaces r live'"
proof -
  note p = live_parts_mset [OF m d]
  show "core_snapshot r live = core_snapshot r live'"
    by (intro ext) (simp only: core_snapshot_def p)
  have v: "view_space r live = view_space r live'" by (intro ext) (simp only: view_space_def p)
  show "core_workspaces r live = core_workspaces r live'"
    by (intro ext) (simp only: core_workspaces_def p v)
qed

lemma collect_live_mset:
  assumes "collect_live ts [] = Inr live" "mset ts = mset ts'"
  shows "collect_live ts' [] = Inr (filter local_terminal ts')"
proof -
  have all: "\<forall>t \<in> set ts. local_terminal t \<longrightarrow> (case ct_status t of Some s \<Rightarrow> core_status_valid (cs_state s) | None \<Rightarrow> True)"
    if "collect_live ts acc = Inr l" for ts acc l using that
    by (induction ts acc rule: collect_live.induct) (auto split: if_splits option.splits)
  have again: "collect_live us acc = Inr (rev acc @ filter local_terminal us)"
    if "\<forall>t \<in> set us. local_terminal t \<longrightarrow> (case ct_status t of Some s \<Rightarrow> core_status_valid (cs_state s) | None \<Rightarrow> True)"
      "distinct (map ct_address (rev acc @ filter local_terminal us))" for us acc
    using that by (induction us acc rule: collect_live.induct) (auto split: option.splits)
  have l: "live = filter local_terminal ts" "distinct (map ct_address live)"
    using collect_live_ok [OF assms(1)] by (metis append_Nil distinct.simps(1) list.simps(8) rev.simps(1))+
  have "mset (map ct_address (filter local_terminal ts)) = mset (map ct_address (filter local_terminal ts'))" using assms(2) by simp
  with l have "distinct (map ct_address (filter local_terminal ts'))" by (metis mset_eq_imp_distinct_iff)
  with again [of ts' "[]"] all [OF assms(1)] mset_eq_setD [OF assms(2)] show ?thesis by simp
qed

text \<open>C13.  The order in which core lists its terminals does not matter: a read that can be shown gives the same snapshot and the same
  Home for every order of the same terminals.\<close>
theorem core_order_independent:
  assumes "project_core r home repos = Inr p" and m: "mset ts = mset (cr_terminals r)"
  shows "project_core (r\<lparr>cr_terminals := ts\<rparr>) home repos = Inr p"
proof -
  obtain sn h where "p = (sn, h)" by (cases p)
  with assms(1) obtain ss live placed0 where q: "parse_app_document (cr_document r) = Inr ss" "collect_live (cr_terminals r) [] = Inr live"
    "check_spaces ss [] [] = Inr placed0" using project_core_ok by metis
  have l: "live = filter local_terminal (cr_terminals r)" "distinct (map ct_address live)"
    using collect_live_ok [OF q(2)] by (metis append_Nil distinct.simps(1) list.simps(8) rev.simps(1))+
  have n: "collect_live ts [] = Inr (filter local_terminal ts)" using collect_live_mset [OF q(2)] m by simp
  have e: "mset live = mset (filter local_terminal ts)" by (simp add: l m)
  have u: "cr_document (r\<lparr>cr_terminals := ts\<rparr>) = cr_document r" "cr_terminals (r\<lparr>cr_terminals := ts\<rparr>) = ts"
    "cr_window (r\<lparr>cr_terminals := ts\<rparr>) = cr_window r" "cr_opened (r\<lparr>cr_terminals := ts\<rparr>) = cr_opened r" by simp_all
  have v: "core_snapshot (r\<lparr>cr_terminals := ts\<rparr>) = core_snapshot r" "core_workspaces (r\<lparr>cr_terminals := ts\<rparr>) = core_workspaces r"
    by (simp_all add: fun_eq_iff core_snapshot_def core_workspaces_def view_space_def view_others_def view_tab_def shown_terminal_def [abs_def])
  show ?thesis
    using assms(1) unfolding project_core_def v u q n sum.case Let_def
      live_parts_mset [OF e l(2)] project_core_parts_mset [OF e l(2)] .
qed

theorem core_order_independent_witness:
  "\<exists>p. project_core sample_core_read ''/home/ada'' None = Inr p
     \<and> project_core (sample_core_read\<lparr>cr_terminals := rev (cr_terminals sample_core_read)\<rparr>) ''/home/ada'' None = Inr p"
proof -
  obtain p where p: "project_core sample_core_read ''/home/ada'' None = Inr p"
    using sample_core_projected by (auto split: sum.splits)
  have "mset (rev (cr_terminals sample_core_read)) = mset (cr_terminals sample_core_read)" by simp
  from core_order_independent [OF p this] p show ?thesis by blast
qed

section \<open>What a kill ends\<close>

text \<open>A worker dies with the terminal its parent link names.\<close>
definition dies_with :: "core_terminal list \<Rightarrow> (string \<times> string) set" where
  "dies_with ts = {(p, a). \<exists>t \<in> set ts. ct_die t \<and> ct_parent t = Some p \<and> ct_address t = a}"

lemma end_pass_sound:
  assumes "end_pass ts ending g = (ending', g')" "set ts \<subseteq> set us" "set ending \<subseteq> (dies_with us)\<^sup>* `` A"
  shows "set ending' \<subseteq> (dies_with us)\<^sup>* `` A"
  using assms
proof (induction ts ending g rule: end_pass.induct)
  case (2 t ts ending g)
  show ?case
  proof (cases "ct_address t \<in> set ending \<or> \<not> ct_die t \<or> ct_parent t = None")
    case True
    with 2 show ?thesis by simp
  next
    case skip: False
    then obtain p where p: "ct_parent t = Some p" "ct_die t" by auto
    show ?thesis
    proof (cases "p \<in> set ending")
      case True
      have "(p, ct_address t) \<in> dies_with us" using p "2.prems"(2) by (auto simp: dies_with_def)
      then have "set (ct_address t # ending) \<subseteq> (dies_with us)\<^sup>* `` A" using "2.prems"(3) True by (auto intro: rtrancl_into_rtrancl)
      with 2 skip True p show ?thesis by simp
    next
      case False
      with 2 skip p show ?thesis by simp
    qed
  qed
qed simp

lemma end_pass_grown: "end_pass ts ending True = (ending', g') \<Longrightarrow> g'"
  using end_pass_mono by blast

lemma end_pass_closed:
  "end_pass ts ending False = (ending', False) \<Longrightarrow>
     ending' = ending \<and> (\<forall>t \<in> set ts. ct_die t \<longrightarrow> (\<forall>p. ct_parent t = Some p \<longrightarrow> p \<in> set ending \<longrightarrow> ct_address t \<in> set ending))"
proof (induction ts)
  case (Cons t ts)
  then show ?case using end_pass_grown [of ts "ct_address t # ending"] by (auto split: if_splits)
qed simp

lemma end_loop_sets:
  "set ending \<subseteq> set (end_loop ts ending) \<and> (set ending \<subseteq> (dies_with ts)\<^sup>* `` A \<longrightarrow> set (end_loop ts ending) \<subseteq> (dies_with ts)\<^sup>* `` A)
     \<and> dies_with ts `` set (end_loop ts ending) \<subseteq> set (end_loop ts ending)"
proof (induction ts ending rule: end_loop.induct)
  case (1 ts ending)
  obtain e g where e: "end_pass ts ending False = (e, g)" by fastforce
  note m = end_pass_mono [OF e] and s = end_pass_sound [OF e order_refl]
  show ?case
  proof (cases g)
    case True
    with e have "end_loop ts ending = end_loop ts e" by (subst end_loop.simps) simp
    with 1 [OF e [symmetric] True] m s show ?thesis by auto
  next
    case False
    with e have l: "end_loop ts ending = e" by (subst end_loop.simps) simp
    from end_pass_closed e False have "e = ending"
      "\<forall>t \<in> set ts. ct_die t \<longrightarrow> (\<forall>p. ct_parent t = Some p \<longrightarrow> p \<in> set ending \<longrightarrow> ct_address t \<in> set ending)" by auto
    then show ?thesis unfolding l by (auto simp: dies_with_def)
  qed
qed

text \<open>C14.  What ends with a terminal that is closed: the terminal and exactly the workers that reach it over parent links of workers that
  die with their parents, however the links are arranged; nothing when the terminal is not live.\<close>
theorem core_ends_with_iff:
  "b \<in> set (core_ends_with ts a) \<longleftrightarrow> a \<in> ct_address ` set ts \<and> (a, b) \<in> (dies_with ts)\<^sup>*"
proof (cases "a \<in> ct_address ` set ts")
  case True
  note s = end_loop_sets [of "[a]" ts "{a}"]
  have "b \<in> set (end_loop ts [a])" if "(a, b) \<in> (dies_with ts)\<^sup>*"
    using that by (induction rule: rtrancl_induct) (use s in auto)
  with s True show ?thesis by (auto simp: core_ends_with_def)
qed (simp add: core_ends_with_def)

end
