(* ===== verification/CoreAttach.thy ===== *)
theory CoreAttach
  imports CoreProject "HOL-Library.Word"
begin

text \<open>
  Streams of herdr-core: \<open>internal/herdr/core_attach.go\<close>, the limits of \<open>reply.go\<close> and the terminal that
  \<open>core_labels.go\<close> follows.  A connection is the bytes it will deliver; frames are cut from them.  Go's
  \<open>uint32\<close> and \<open>uint16\<close> are words.  Reading JSON text is a parameter, what is decoded from it is not.
\<close>

section \<open>Little-endian numbers (\<open>encoding/binary\<close>)\<close>

definition le32 :: "32 word \<Rightarrow> string" where
  "le32 w = map (\<lambda>i. chr (unat (drop_bit (8 * i) w) mod 256)) [0, 1, 2, 3]"

definition le16 :: "16 word \<Rightarrow> string" where
  "le16 w = map (\<lambda>i. chr (unat (drop_bit (8 * i) w) mod 256)) [0, 1]"

definition of_le :: "string \<Rightarrow> nat" where
  "of_le s = foldr (\<lambda>c n. byte c + 256 * n) s 0"

definition get32 :: "string \<Rightarrow> 32 word" where
  "get32 s = of_nat (of_le s)"

section \<open>Frames\<close>

type_synonym channel = "32 word"

definition frame_data :: nat where "frame_data = 0"
definition frame_credit :: nat where "frame_credit = 1"
definition frame_close :: nat where "frame_close = 2"
definition frame_resize :: nat where "frame_resize = 3"
definition frame_header_bytes :: nat where "frame_header_bytes = 9"
definition frame_max_payload :: nat where "frame_max_payload = 16 * 1024 * 1024"
definition core_max_paint_bytes :: nat where "core_max_paint_bytes = 16 * 1024 * 1024"

record core_frame =
  fr_channel :: channel
  fr_kind :: char
  fr_payload :: string

datatype read_error = ShortRead | FrameTooLong

text \<open>\<open>readCoreFrame\<close> on the bytes that will arrive: \<open>io.ReadFull\<close> fails when they end too early.\<close>
definition read_frame :: "string \<Rightarrow> (read_error + core_frame) \<times> string" where
  "read_frame s =
     (if length s < frame_header_bytes then (Inl ShortRead, [])
      else let header = take frame_header_bytes s; rest = drop frame_header_bytes s;
               len = unat (get32 (take 4 (drop 5 header)))
        in if len > frame_max_payload then (Inl FrameTooLong, rest)
           else if length rest < len then (Inl ShortRead, [])
           else (Inr \<lparr>fr_channel = get32 (take 4 header), fr_kind = header ! 4, fr_payload = take len rest\<rparr>, drop len rest))"

definition encode_frame :: "channel \<Rightarrow> char \<Rightarrow> string \<Rightarrow> string" where
  "encode_frame ch kind payload = le32 ch @ kind # le32 (of_nat (length payload)) @ payload"

text \<open>All frames of a connection, and the error that ends it.\<close>
function read_frames :: "string \<Rightarrow> core_frame list \<times> read_error" where
  "read_frames s =
     (case read_frame s of (Inl e, _) \<Rightarrow> ([], e)
      | (Inr f, rest) \<Rightarrow> (case read_frames rest of (fs, e) \<Rightarrow> (f # fs, e)))"
  by auto
termination
  by (relation "measure length") (auto simp: read_frame_def frame_header_bytes_def Let_def split: if_splits)

declare read_frames.simps [simp del]

section \<open>What is written\<close>

definition credit_frame :: "channel \<Rightarrow> nat \<Rightarrow> string" where
  "credit_frame ch n = encode_frame ch (chr frame_credit) (le32 (of_nat n))"

definition resize_frame :: "channel \<Rightarrow> int \<Rightarrow> int \<Rightarrow> string" where
  "resize_frame ch cols rows = encode_frame ch (chr frame_resize) (le16 (of_int cols) @ le16 (of_int rows))"

definition data_frame :: "channel \<Rightarrow> string \<Rightarrow> string" where
  "data_frame ch d = encode_frame ch (chr frame_data) d"

definition close_frame :: "channel \<Rightarrow> string" where
  "close_frame ch = encode_frame ch (chr frame_close) []"

section \<open>The first paint\<close>

definition paint_end_markers :: "string list" where
  "paint_end_markers = [CHR 0x1B # ''[?9001h'', CHR 0x1B # ''[?9001l'']"

text \<open>\<open>bytes.Index\<close>.\<close>
fun bytes_index :: "string \<Rightarrow> string \<Rightarrow> nat option" where
  "bytes_index [] m = (if m = [] then Some 0 else None)"
| "bytes_index (c # s) m = (if has_prefix (c # s) m then Some 0 else map_option Suc (bytes_index s m))"

text \<open>\<open>CorePaintEnd\<close>, with \<open>None\<close> for -1.\<close>
definition core_paint_end :: "string \<Rightarrow> nat option" where
  "core_paint_end stream =
     foldl (\<lambda>best m. case bytes_index stream m of None \<Rightarrow> best
        | Some at \<Rightarrow> (case best of None \<Rightarrow> Some (at + length m)
            | Some e \<Rightarrow> if at + length m < e then Some (at + length m) else best)) None paint_end_markers"

datatype paint_result = PaintDone | PaintMore | PaintTooLong

text \<open>\<open>firstPaint.add\<close>: only bytes that could hold a new marker are searched.\<close>
definition paint_add :: "string \<Rightarrow> string \<Rightarrow> string \<times> paint_result" where
  "paint_add paint d =
     (let search_from = (length paint + 1) - length (hd paint_end_markers); all = paint @ d
      in case core_paint_end (drop search_from all) of
           Some e \<Rightarrow> (take (search_from + e) all, PaintDone)
         | None \<Rightarrow> if length all > core_max_paint_bytes then (all, PaintTooLong) else (all, PaintMore))"

text \<open>\<open>ReadFirstPaint\<close> on what the stream brings: the paint is complete, or why there is none.\<close>
fun collect_paint :: "string list \<Rightarrow> string \<Rightarrow> string \<times> paint_result" where
  "collect_paint [] paint = (paint, PaintMore)"
| "collect_paint (d # ds) paint =
     (case paint_add paint d of (p, PaintMore) \<Rightarrow> collect_paint ds p | r \<Rightarrow> r)"

section \<open>Responses\<close>

record core_response =
  rs_id :: string
  rs_error :: "(string \<times> string) option"
  rs_result :: "json option"

text \<open>The texts of JSON this reads: a response, and any other value.  A call is written as its id, method and parameters.\<close>
record attach_lib =
  al_response :: "string \<Rightarrow> core_response option"
  al_json :: "string \<Rightarrow> json option"
  al_call :: "nat \<Rightarrow> string \<Rightarrow> string"

text \<open>Numbers are decoded from their text.  Every value that is given for a field is decoded, into what the field holds by then: a null sets
  a pointer to nil and leaves a number as it was.\<close>
definition uint_of :: "nat \<Rightarrow> json \<Rightarrow> nat option" where
  "uint_of limit v = (case v of JNum t \<Rightarrow> (case parse_uint64 t of Some n \<Rightarrow> if n < limit then Some n else None | None \<Rightarrow> None) | _ \<Rightarrow> None)"

definition ptr_uint :: "nat \<Rightarrow> string \<Rightarrow> fields \<Rightarrow> nat option option" where
  "ptr_uint limit name fs =
     (let vs = entries name fs
      in if list_all (\<lambda>v. v = JNull \<or> uint_of limit v \<noteq> None) vs then Some (uint_of limit (last_or_null vs)) else None)"

definition ptr_u32 :: "string \<Rightarrow> fields \<Rightarrow> channel option option" where
  "ptr_u32 name fs = map_option (map_option of_nat) (ptr_uint (2 ^ 32) name fs)"

definition int_of :: "json \<Rightarrow> int option" where
  "int_of v = (case v of JNum t \<Rightarrow> parse_int64 t | _ \<Rightarrow> None)"

definition get_int :: "string \<Rightarrow> fields \<Rightarrow> int option" where
  "get_int name fs =
     (let vs = filter (\<lambda>v. v \<noteq> JNull) (entries name fs)
      in if list_all (\<lambda>v. int_of v \<noteq> None) vs then Some (if vs = [] then 0 else the (int_of (last vs))) else None)"

datatype attach_error =
    AttachRead read_error
  | AttachDecode
  | AttachApi string string
  | AttachHello herdr_error
  | AttachUnexpected

section \<open>Opening\<close>

text \<open>\<open>setupCall\<close>: frames that are not of channel 0 are kept, responses to another call are skipped.\<close>
function await_reply :: "attach_lib \<Rightarrow> nat \<Rightarrow> core_frame list \<Rightarrow> string \<Rightarrow> (attach_error + json option) \<times> core_frame list \<times> string" where
  "await_reply lib i early s =
     (case read_frame s of
        (Inl e, rest) \<Rightarrow> (Inl (AttachRead e), early, rest)
      | (Inr f, rest) \<Rightarrow>
        if fr_channel f \<noteq> 0 \<or> byte (fr_kind f) \<noteq> frame_data then await_reply lib i (early @ [f]) rest
        else (case al_response lib (fr_payload f) of
            None \<Rightarrow> (Inl AttachDecode, early, rest)
          | Some r \<Rightarrow>
            if rs_id r \<noteq> itoa i then await_reply lib i early rest
            else (case rs_error r of Some (kind, message) \<Rightarrow> (Inl (AttachApi kind message), early, rest)
                | None \<Rightarrow> (Inr (rs_result r), early, rest))))"
  by pat_completeness auto
termination
  by (relation "measure (\<lambda>(lib, i, early, s). length s)")
     (auto simp: read_frame_def frame_header_bytes_def Let_def split: if_splits)

declare await_reply.simps [simp del]

record opening_state =
  su_early :: "core_frame list"
  su_rest :: string
  su_written :: string
  su_next :: nat

definition setup_call :: "attach_lib \<Rightarrow> string \<Rightarrow> opening_state \<Rightarrow> (attach_error + fields) \<times> opening_state" where
  "setup_call lib method u =
     (let i = Suc (su_next u);
          w = su_written u @ encode_frame 0 (chr frame_data) (al_call lib i method)
      in case await_reply lib i (su_early u) (su_rest u) of
           (r, early, rest) \<Rightarrow>
             ((case r of Inl e \<Rightarrow> Inl e
               | Inr None \<Rightarrow> Inl AttachDecode
               | Inr (Some v) \<Rightarrow> (case struct_fields v of None \<Rightarrow> Inl AttachDecode | Some fs \<Rightarrow> Inr fs)),
              \<lparr>su_early = early, su_rest = rest, su_written = w, su_next = i\<rparr>))"

text \<open>What the first line must say, before the connection is framed.\<close>
definition hello_reply :: "semver \<Rightarrow> attach_lib \<Rightarrow> (json \<Rightarrow> core_hello option) \<Rightarrow> string \<Rightarrow> attach_error + string" where
  "hello_reply sv lib decode s =
     (case cut_at (chr 10) s of None \<Rightarrow> Inl (AttachRead ShortRead)
      | Some (line, rest) \<Rightarrow>
        (case al_response lib (line @ [chr 10]) of None \<Rightarrow> Inl AttachDecode
         | Some r \<Rightarrow>
           (case rs_error r of Some (kind, message) \<Rightarrow> Inl (AttachApi kind message)
            | None \<Rightarrow>
              (case Option.bind (rs_result r) decode of None \<Rightarrow> Inl AttachDecode
               | Some h \<Rightarrow> (case check_hello sv h of Inl e \<Rightarrow> Inl (AttachHello e) | Inr _ \<Rightarrow> Inr rest)))))"

definition subscribe_events :: "attach_lib \<Rightarrow> bool \<Rightarrow> opening_state \<Rightarrow> (attach_error + channel) \<times> opening_state" where
  "subscribe_events lib follow u =
     (if \<not> follow then (Inr 0, u)
      else (case setup_call lib ''events.subscribe'' u of
          (Inl e, u1) \<Rightarrow> (Inl e, u1)
        | (Inr fs, u1) \<Rightarrow>
          ((case ptr_u32 ''channel'' fs of None \<Rightarrow> Inl AttachDecode | Some None \<Rightarrow> Inl AttachUnexpected | Some (Some c) \<Rightarrow> Inr c), u1)))"

text \<open>The answer to \<open>terminal.attach\<close>: its channel and the size of the terminal.\<close>
definition attach_answer :: "bool \<Rightarrow> channel \<Rightarrow> fields \<Rightarrow> attach_error + channel \<times> int \<times> int" where
  "attach_answer follow events fs =
     (case (ptr_u32 ''channel'' fs, get_struct ''terminal'' fs) of
        (Some c, Some ts) \<Rightarrow>
          (case (get_int ''cols'' ts, get_int ''rows'' ts) of
             (Some cols, Some rows) \<Rightarrow>
               (case c of None \<Rightarrow> Inl AttachUnexpected
                | Some ch \<Rightarrow> if ch = 0 \<or> ch = events \<and> follow then Inl AttachUnexpected else Inr (ch, cols, rows))
           | _ \<Rightarrow> Inl AttachDecode)
      | _ \<Rightarrow> Inl AttachDecode)"

section \<open>The stream of an attachment\<close>

text \<open>What \<open>Run\<close> gives its caller.\<close>
datatype stream_event = StreamData string | StreamSize int int | StreamClosed string

text \<open>What ends it.\<close>
datatype stream_end = EndHandled stream_event | EndRead read_error | EndEvents | EndClosed | EndWrite

text \<open>\<open>at_replies\<close> are the calls that wait, \<open>at_answers\<close> what they were sent and \<open>at_failed\<close> says that the stream ended.  The connection
  takes \<open>at_writes\<close> more writes, or any number.\<close>
record attachment =
  at_channel :: channel
  at_events :: channel
  at_next :: nat
  at_replies :: "nat set"
  at_answers :: "(nat \<times> core_response) list"
  at_failed :: bool
  at_written :: string
  at_writes :: "nat option"
  at_lines :: string
  at_size :: "int \<times> int"

text \<open>\<open>Attach\<close>: the attachment, the frames kept for \<open>Run\<close> and the bytes that are still to come.\<close>
definition attach :: "semver \<Rightarrow> attach_lib \<Rightarrow> (json \<Rightarrow> core_hello option) \<Rightarrow> bool \<Rightarrow> string \<Rightarrow> attach_error + attachment \<times> core_frame list \<times> string" where
  "attach sv lib decode follow s =
     (case hello_reply sv lib decode s of Inl e \<Rightarrow> Inl e
      | Inr rest \<Rightarrow>
        (case subscribe_events lib follow \<lparr>su_early = [], su_rest = rest, su_written = [], su_next = 0\<rparr> of
           (Inl e, _) \<Rightarrow> Inl e
         | (Inr events, u) \<Rightarrow>
           (case setup_call lib ''terminal.attach'' u of
              (Inl e, _) \<Rightarrow> Inl e
            | (Inr fs, u1) \<Rightarrow>
              (case attach_answer follow events fs of Inl e \<Rightarrow> Inl e
               | Inr (ch, cols, rows) \<Rightarrow>
                 Inr (\<lparr>at_channel = ch, at_events = events, at_next = su_next u1, at_replies = {}, at_answers = [], at_failed = False,
                       at_written = su_written u1, at_writes = None, at_lines = [], at_size = (cols, rows)\<rparr>, su_early u1, su_rest u1)))))"

text \<open>\<open>writeFrame\<close>.\<close>
definition write_bytes :: "string \<Rightarrow> attachment \<Rightarrow> bool \<times> attachment" where
  "write_bytes d a =
     (case at_writes a of None \<Rightarrow> (True, a\<lparr>at_written := at_written a @ d\<rparr>)
      | Some 0 \<Rightarrow> (False, a)
      | Some (Suc n) \<Rightarrow> (True, a\<lparr>at_written := at_written a @ d, at_writes := Some n\<rparr>))"

text \<open>The id of a response: null leaves the number that is decoded into at zero.\<close>
definition reply_id :: "core_response \<Rightarrow> nat option" where
  "reply_id r = (if rs_id r = ''null'' then Some 0 else parse_uint64 (rs_id r))"

text \<open>\<open>deliverReply\<close>: the call that waits for this id gets the response; any other is dropped.\<close>
definition deliver_reply :: "attach_lib \<Rightarrow> string \<Rightarrow> attachment \<Rightarrow> attachment" where
  "deliver_reply lib payload a =
     (case al_response lib payload of None \<Rightarrow> a
      | Some r \<Rightarrow>
        (case reply_id r of None \<Rightarrow> a
         | Some i \<Rightarrow> if i \<in> at_replies a then a\<lparr>at_replies := at_replies a - {i}, at_answers := at_answers a @ [(i, r)]\<rparr> else a))"

text \<open>The complete lines of a text and what is left.\<close>
function cut_lines :: "string \<Rightarrow> string list \<times> string" where
  "cut_lines s = (case cut_at (chr 10) s of None \<Rightarrow> ([], s)
     | Some (line, rest) \<Rightarrow> (case cut_lines rest of (ls, r) \<Rightarrow> (line # ls, r)))"
  by auto
termination
  by (relation "measure length") (auto dest!: cut_at_Some)

declare cut_lines.simps [simp del]

text \<open>\<open>coreSizeEvent\<close>.\<close>
definition core_size_event :: "attach_lib \<Rightarrow> string \<Rightarrow> (int \<times> int) option" where
  "core_size_event lib line =
     (case Option.bind (al_json lib line) struct_fields of None \<Rightarrow> None
      | Some fs \<Rightarrow>
        (case (get_string ''method'' fs, get_struct ''params'' fs) of
           (Some method, Some ps) \<Rightarrow>
             (case (get_string ''type'' ps, get_struct ''data'' ps) of
                (Some kind, Some ds) \<Rightarrow>
                  (case (get_int ''cols'' ds, get_int ''rows'' ds) of
                     (Some cols, Some rows) \<Rightarrow> if method \<noteq> ''event'' \<or> kind \<noteq> ''size'' then None else Some (cols, rows)
                   | _ \<Rightarrow> None)
              | _ \<Rightarrow> None)
         | _ \<Rightarrow> None))"

definition size_events :: "attach_lib \<Rightarrow> string list \<Rightarrow> stream_event list" where
  "size_events lib ls = map (\<lambda>(c, r). StreamSize c r) (List.map_filter (core_size_event lib) ls)"

definition closed_reason :: "attach_lib \<Rightarrow> string \<Rightarrow> string" where
  "closed_reason lib payload =
     (let reason = (case Option.bind (al_json lib payload) struct_fields of None \<Rightarrow> []
          | Some fs \<Rightarrow> (case get_string ''reason'' fs of None \<Rightarrow> [] | Some r \<Rightarrow> r))
      in if reason = [] then ''closed'' else reason)"

text \<open>One frame of \<open>run\<close>: the attachment after it, the events it makes, and whether the stream ends with it.\<close>
definition frame_step :: "attach_lib \<Rightarrow> core_frame \<Rightarrow> attachment \<Rightarrow> attachment \<times> stream_event list \<times> stream_end option" where
  "frame_step lib f a =
     (if fr_channel f = 0 \<and> byte (fr_kind f) = frame_data then (deliver_reply lib (fr_payload f) a, [], None)
      else if fr_channel f = at_channel a \<and> byte (fr_kind f) = frame_data then (a, [StreamData (fr_payload f)], None)
      else if fr_channel f = at_channel a \<and> byte (fr_kind f) = frame_close then
        (a, [StreamClosed (closed_reason lib (fr_payload f))], Some EndClosed)
      else if at_events a \<noteq> 0 \<and> fr_channel f = at_events a \<and> byte (fr_kind f) = frame_data then
        (case write_bytes (credit_frame (at_events a) (length (fr_payload f))) a of
           (False, a1) \<Rightarrow> (a1, [], Some EndWrite)
         | (True, a1) \<Rightarrow>
           (case cut_lines (at_lines a @ fr_payload f) of (ls, rest) \<Rightarrow> (a1\<lparr>at_lines := rest\<rparr>, size_events lib ls, None)))
      else if at_events a \<noteq> 0 \<and> fr_channel f = at_events a \<and> byte (fr_kind f) = frame_close then (a, [], Some EndEvents)
      else (a, [], None))"

text \<open>The handler is given each event in turn and says whether it failed.  The result is its state and the event it failed on.\<close>
fun handle_all :: "('h \<Rightarrow> stream_event \<Rightarrow> 'h \<times> bool) \<Rightarrow> stream_event list \<Rightarrow> 'h \<Rightarrow> 'h \<times> stream_event option" where
  "handle_all handle [] h = (h, None)"
| "handle_all handle (e # es) h =
     (case handle h e of (h', failed) \<Rightarrow> if failed then (h', Some e) else handle_all handle es h')"

text \<open>\<open>run\<close> on the frames kept from the setup and those that will arrive; \<open>e\<close> ends the connection.\<close>
fun run_stream :: "attach_lib \<Rightarrow> ('h \<Rightarrow> stream_event \<Rightarrow> 'h \<times> bool) \<Rightarrow> core_frame list \<Rightarrow> read_error \<Rightarrow> attachment \<Rightarrow> 'h \<Rightarrow> attachment \<times> 'h \<times> stream_end" where
  "run_stream lib handle [] e a h = (a, h, EndRead e)"
| "run_stream lib handle (f # fs) e a h =
     (case frame_step lib f a of (a', evs, fin) \<Rightarrow>
        (case handle_all handle evs h of
           (h', Some ev) \<Rightarrow> (a', h', EndHandled ev)
         | (h', None) \<Rightarrow> (case fin of Some x \<Rightarrow> (a', h', x) | None \<Rightarrow> run_stream lib handle fs e a' h')))"

text \<open>\<open>Run\<close>: when it ends, no call waits any more and none can start.\<close>
definition run_attachment :: "attach_lib \<Rightarrow> ('h \<Rightarrow> stream_event \<Rightarrow> 'h \<times> bool) \<Rightarrow> core_frame list \<Rightarrow> string \<Rightarrow> attachment \<Rightarrow> 'h \<Rightarrow> attachment \<times> 'h \<times> stream_end" where
  "run_attachment lib handle early s a h =
     (case read_frames s of (fs, e) \<Rightarrow>
        (case run_stream lib handle (early @ fs) e a h of
           (a', h', x) \<Rightarrow> (a'\<lparr>at_failed := True, at_replies := {}\<rparr>, h', x)))"

section \<open>Keys\<close>

datatype key_start = KeyFailed | KeyUnconfirmed | KeyWaits nat

text \<open>\<open>Keys\<close> up to the request, and when it stops waiting.\<close>
definition start_keys :: "attach_lib \<Rightarrow> attachment \<Rightarrow> key_start \<times> attachment" where
  "start_keys lib a =
     (if at_failed a then (KeyFailed, a)
      else let i = Suc (at_next a)
        in (case write_bytes (encode_frame 0 (chr frame_data) (al_call lib i ''terminal.keys''))
                   (a\<lparr>at_next := i, at_replies := insert i (at_replies a)\<rparr>) of
              (True, a1) \<Rightarrow> (KeyWaits i, a1)
            | (False, a1) \<Rightarrow> (KeyUnconfirmed, a1\<lparr>at_replies := at_replies a1 - {i}\<rparr>)))"

definition forget_keys :: "nat \<Rightarrow> attachment \<Rightarrow> attachment" where
  "forget_keys i a = a\<lparr>at_replies := at_replies a - {i}\<rparr>"

section \<open>Reader's text\<close>

text \<open>An operating system command: ESC ], anything but BEL and ESC, and BEL or ESC backslash.\<close>
definition osc_body :: "char \<Rightarrow> bool" where
  "osc_body c \<longleftrightarrow> c \<noteq> chr 7 \<and> c \<noteq> chr 27"

definition match_osc :: "string \<Rightarrow> string option" where
  "match_osc s =
     (if \<not> has_prefix s [chr 27, CHR '']''] then None
      else let r = dropWhile osc_body (drop 2 s)
        in if has_prefix r [chr 7] then Some (drop 1 r)
           else if has_prefix r [chr 27, CHR 0x5C] then Some (drop 2 r)
           else None)"

lemma match_osc_shorter: "match_osc s = Some r \<Longrightarrow> length r < length s"
  using length_dropWhile_le [of osc_body "drop 2 s"]
  by (auto simp: match_osc_def Let_def has_prefix_iff split: if_splits)

function strip_osc :: "string \<Rightarrow> string" where
  "strip_osc s = (case match_osc s of Some r \<Rightarrow> strip_osc r
     | None \<Rightarrow> (case s of [] \<Rightarrow> [] | c # s' \<Rightarrow> c # strip_osc s'))"
  by auto
termination
  by (relation "measure length") (auto dest: match_osc_shorter)

declare strip_osc.simps [simp del]

definition clear_screen :: string where
  "clear_screen = [chr 27, CHR ''['', CHR ''H'', chr 27, CHR ''['', CHR ''2'', CHR ''J'']"

text \<open>Line breaks and a clear, which leave one line break.\<close>
definition match_clear :: "string \<Rightarrow> (string \<times> string) option" where
  "match_clear s =
     (let nl = takeWhile (\<lambda>c. c = chr 10) s; r = dropWhile (\<lambda>c. c = chr 10) s
      in if has_prefix r clear_screen then Some (take 1 nl, drop (length clear_screen) r) else None)"

lemma match_clear_shorter: "match_clear s = Some (n, r) \<Longrightarrow> length r < length s"
  using length_dropWhile_le [of "\<lambda>c. c = chr 10" s]
  by (auto simp: match_clear_def clear_screen_def Let_def has_prefix_iff split: if_splits)

function strip_clear :: "string \<Rightarrow> string" where
  "strip_clear s = (case match_clear s of Some (n, r) \<Rightarrow> n @ strip_clear r
     | None \<Rightarrow> (case s of [] \<Rightarrow> [] | c # s' \<Rightarrow> c # strip_clear s'))"
  by auto
termination
  by (relation "measure length") (auto dest: match_clear_shorter)

declare strip_clear.simps [simp del]

text \<open>ESC, one of four characters and any character but a line break.\<close>
definition match_charset :: "string \<Rightarrow> string option" where
  "match_charset s =
     (case s of e # c # d # r \<Rightarrow>
        if e = chr 27 \<and> c \<in> {CHR ''('', CHR '')'', CHR ''*'', CHR ''+''} \<and> d \<noteq> chr 10
        then Some (drop (length (fst (snd (hd (rune_chunks (d # r)))))) (d # r)) else None
      | _ \<Rightarrow> None)"

lemma match_charset_shorter: "match_charset s = Some r \<Longrightarrow> length r < length s"
  by (auto simp: match_charset_def split: list.splits if_splits)

function strip_charset :: "string \<Rightarrow> string" where
  "strip_charset s = (case match_charset s of Some r \<Rightarrow> strip_charset r
     | None \<Rightarrow> (case s of [] \<Rightarrow> [] | c # s' \<Rightarrow> c # strip_charset s'))"
  by auto
termination
  by (relation "measure length") (auto dest: match_charset_shorter)

declare strip_charset.simps [simp del]

definition core_reader_ansi :: "string \<Rightarrow> string" where
  "core_reader_ansi paint = strip_charset (strip_clear (strip_osc paint))"

section \<open>Limits of replies\<close>

definition default_reply_limit :: nat where "default_reply_limit = 64 * 1024 * 1024"

definition format_bytes :: "nat \<Rightarrow> string" where
  "format_bytes n =
     (if n mod 1073741824 = 0 then itoa (n div 1073741824) @ '' GiB''
      else if n mod 1048576 = 0 then itoa (n div 1048576) @ '' MiB''
      else if n mod 1024 = 0 then itoa (n div 1024) @ '' KiB''
      else itoa n @ '' bytes'')"

text \<open>\<open>replyBound.Read\<close> with a buffer of \<open>n\<close> bytes over a reader that gives \<open>count\<close> of them; \<open>None\<close> is a reply that is too large.\<close>
definition bound_read :: "int \<Rightarrow> int \<Rightarrow> (int \<Rightarrow> int) \<Rightarrow> (int \<times> int) option" where
  "bound_read left n got = (if left \<le> 0 then None else let k = got (min n left) in Some (k, left - k))"

record bounded_output =
  bo_data :: string
  bo_large :: bool

definition output_write :: "nat \<Rightarrow> string \<Rightarrow> bounded_output \<Rightarrow> bounded_output" where
  "output_write limit d b =
     (if bo_large b \<or> length (bo_data b) + length d > limit then \<lparr>bo_data = [], bo_large = True\<rparr>
      else \<lparr>bo_data = bo_data b @ d, bo_large = False\<rparr>)"

section \<open>Following one terminal\<close>

text \<open>A notification of the event connection.\<close>
record follow_message =
  fm_method :: string
  fm_terminal :: string
  fm_type :: string
  fm_data :: "json option"

datatype follow_error = FollowDecode | FollowMissed | FollowUnreadable | TerminalGone

text \<open>What was given after the last null.\<close>
definition since_null :: "json list \<Rightarrow> json list" where
  "since_null vs = rev (takeWhile (\<lambda>v. v \<noteq> JNull) (rev vs))"

definition all_fields :: "json list \<Rightarrow> fields" where
  "all_fields vs = concat (map (\<lambda>v. case v of JObj gs \<Rightarrow> gs | _ \<Rightarrow> []) vs)"

definition decode_status :: "json \<Rightarrow> core_status option option" where
  "decode_status v =
     (case struct_fields v of None \<Rightarrow> None
      | Some fs \<Rightarrow>
        let vs = entries ''status'' fs; ss = since_null vs
        in if \<not> list_all (\<lambda>x. is_obj x \<or> x = JNull) vs \<or> get_string ''app'' (all_fields vs) = None \<or> get_string ''state'' (all_fields vs) = None then None
           else if ss = [] then Some None
           else (case (get_string ''app'' (all_fields ss), get_string ''state'' (all_fields ss)) of
                   (Some app, Some state) \<Rightarrow> Some (Some \<lparr>cs_app = app, cs_state = state\<rparr>) | _ \<Rightarrow> None))"

definition decode_turn :: "json \<Rightarrow> nat option" where
  "decode_turn v = Option.bind (Option.bind (struct_fields v) (ptr_uint (2 ^ 64) ''turn'')) id"

definition decode_labels :: "json \<Rightarrow> (string \<rightharpoonup> string) option" where
  "decode_labels v =
     (case struct_fields v of None \<Rightarrow> None
      | Some fs \<Rightarrow>
        let vs = entries ''labels'' fs; ss = since_null vs
        in if \<not> list_all (\<lambda>x. is_obj x \<or> x = JNull) vs \<or> \<not> list_all (\<lambda>(k, x). is_str x \<or> x = JNull) (all_fields vs) \<or> ss = [] then None
           else Some (map_of (rev (map (\<lambda>(k, x). (k, case x of JStr t \<Rightarrow> t | _ \<Rightarrow> [])) (all_fields ss)))))"

text \<open>\<open>Next\<close> on the notification that was read, or on \<open>None\<close> when none could be.\<close>
definition follow_next :: "follow_message option \<Rightarrow> core_terminal \<Rightarrow> core_terminal \<times> (follow_error + bool)" where
  "follow_next message t =
     (case message of None \<Rightarrow> (t, Inl FollowDecode)
      | Some m \<Rightarrow>
        if fm_method m = ''missed'' then (t, Inl FollowMissed)
        else if fm_method m \<noteq> ''event'' \<or> fm_terminal m \<noteq> ct_address t then (t, Inr False)
        else if fm_type m = ''status'' then
          (case Option.bind (fm_data m) decode_status of None \<Rightarrow> (t, Inl FollowDecode) | Some s \<Rightarrow> (t\<lparr>ct_status := s\<rparr>, Inr False))
        else if fm_type m = ''turn'' then
          (case Option.bind (fm_data m) decode_turn of None \<Rightarrow> (t, Inl FollowUnreadable) | Some n \<Rightarrow> (t\<lparr>ct_turn := n\<rparr>, Inr True))
        else if fm_type m = ''labels'' then
          (case Option.bind (fm_data m) decode_labels of None \<Rightarrow> (t, Inl FollowUnreadable) | Some ls \<Rightarrow> (t\<lparr>ct_labels := ls\<rparr>, Inr False))
        else if fm_type m = ''finished'' \<or> fm_type m = ''removed'' then (t, Inl TerminalGone)
        else (t, Inr False))"

text \<open>\<open>coreEventChangesHome\<close> and \<open>CoreSubscription.Next\<close>.\<close>
definition core_event_changes_home :: "string \<Rightarrow> bool" where
  "core_event_changes_home kind \<longleftrightarrow> kind \<notin> {''size'', ''foreground'', ''keep''}"

definition subscription_next :: "follow_message option \<Rightarrow> bool option" where
  "subscription_next message =
     (case message of None \<Rightarrow> None
      | Some m \<Rightarrow> if fm_method m = ''heartbeat'' then Some False
        else if fm_method m = ''event'' then Some (core_event_changes_home (fm_type m)) else Some True)"

end
