(* ===== verification/CoreAttachFacts.thy ===== *)
theory CoreAttachFacts
  imports CoreAttach
begin

text \<open>
  What the streams of herdr-core keep: frames are read back as they were written, the first paint is found however the
  stream is cut, and lines of events are put together from any frames.
\<close>

section \<open>Numbers\<close>

lemma unat_drop_bit: "unat (drop_bit k w) = unat w div 2 ^ k" for w :: "'a::len word"
  by (metis unat_drop_bit_eq drop_bit_eq_div)

lemma of_le_le32: "of_le (le32 w) = unat w"
proof -
  let ?n = "unat w"
  have "?n < 2 ^ 32" using unsigned_less [of w] by simp
  then have m: "?n div 16777216 mod 256 = ?n div 16777216" by simp
  have "?n div 65536 = ?n div 256 div 256" "?n div 16777216 = ?n div 256 div 256 div 256" by (simp_all flip: div_mult2_eq)
  then have "?n mod 256 + 256 * (?n div 256 mod 256 + 256 * (?n div 65536 mod 256 + 256 * (?n div 16777216))) = ?n"
    by (simp only: mod_mult_div_eq)
  then show ?thesis using m by (simp add: of_le_def le32_def unat_drop_bit)
qed

lemma le_digits:
  fixes a b c d :: nat
  assumes "a < 256" "b < 256" "c < 256" "d < 256"
  shows "(a + 256 * (b + 256 * (c + 256 * d))) mod 256 = a" "(a + 256 * (b + 256 * (c + 256 * d))) div 256 mod 256 = b"
    "(a + 256 * (b + 256 * (c + 256 * d))) div 65536 mod 256 = c" "(a + 256 * (b + 256 * (c + 256 * d))) div 16777216 mod 256 = d"
    "a + 256 * (b + 256 * (c + 256 * d)) < 2 ^ 32"
proof -
  have m: "(x + 256 * y) mod 256 = x" "(x + 256 * y) div 256 = y" if "x < 256" for x y :: nat using that by simp_all
  let ?n = "a + 256 * (b + 256 * (c + 256 * d))"
  have "?n div 65536 = ?n div 256 div 256" "?n div 16777216 = ?n div 256 div 256 div 256" by (simp_all flip: div_mult2_eq)
  then show "?n mod 256 = a" "?n div 256 mod 256 = b" "?n div 65536 mod 256 = c" "?n div 16777216 mod 256 = d"
    using assms by (simp_all only: m) simp
  show "?n < 2 ^ 32" using assms by simp
qed

lemma le32_get32:
  assumes "length s = 4"
  shows "le32 (get32 s) = s"
proof -
  obtain a b c d where s: "s = [a, b, c, d]" using assms by (auto simp: length_Suc_conv numeral_eq_Suc)
  note l = le_digits [OF byte_less byte_less byte_less byte_less, of a b c d]
  let ?n = "byte a + 256 * (byte b + 256 * (byte c + 256 * byte d))"
  have "of_le s = ?n" by (simp add: of_le_def s)
  then have u: "unat (get32 s) = ?n" using l(5) by (simp only: get32_def unat_of_nat) simp
  show ?thesis unfolding le32_def unat_drop_bit u by (simp only: list.map power_0 power_one_right) (simp add: l(1-4) [simplified] s)
qed

lemma length_le32 [simp]: "length (le32 w) = 4"
  by (simp add: le32_def)

lemma get32_le32 [simp]: "get32 (le32 w) = w"
  by (simp add: get32_def of_le_le32)

section \<open>Frames\<close>

lemma read_encode_frame:
  assumes "length payload \<le> frame_max_payload"
  shows "read_frame (encode_frame ch kind payload @ rest) = (Inr \<lparr>fr_channel = ch, fr_kind = kind, fr_payload = payload\<rparr>, rest)"
proof -
  let ?l = "le32 (of_nat (length payload)) :: string" and ?h = "le32 ch @ [kind] @ le32 (of_nat (length payload))"
  have u: "unat (of_nat (length payload) :: 32 word) = length payload"
    using assms by (simp add: unat_of_nat frame_max_payload_def)
  have e: "encode_frame ch kind payload @ rest = ?h @ payload @ rest" by (simp add: encode_frame_def)
  have h: "length ?h = frame_header_bytes" "take 4 (drop 5 ?h) = ?l" "take 4 ?h = le32 ch" "?h ! 4 = kind"
    by (simp_all add: frame_header_bytes_def nth_append)
  have "take frame_header_bytes (?h @ payload @ rest) = ?h" "drop frame_header_bytes (?h @ payload @ rest) = payload @ rest"
    using h(1) by (metis append_eq_conv_conj)+
  then show ?thesis unfolding e read_frame_def Let_def using h u assms by simp
qed

lemma read_frames_app:
  assumes "\<forall>f \<in> set fs. length (fr_payload f) \<le> frame_max_payload"
  shows "read_frames (concat (map (\<lambda>f. encode_frame (fr_channel f) (fr_kind f) (fr_payload f)) fs) @ rest)
    = (fs @ fst (read_frames rest), snd (read_frames rest))"
  using assms
proof (induction fs)
  case (Cons f fs)
  then show ?case by (subst read_frames.simps) (simp add: read_encode_frame)
qed simp

lemma read_frames_Nil: "read_frames [] = ([], ShortRead)"
  by (subst read_frames.simps) (simp add: read_frame_def frame_header_bytes_def)

text \<open>What is read is what was written: every frame is the encoding of the bytes it was read from.\<close>
lemma read_frame_inverse:
  assumes "read_frame s = (Inr f, rest)"
  shows "length (fr_payload f) \<le> frame_max_payload \<and> s = encode_frame (fr_channel f) (fr_kind f) (fr_payload f) @ rest"
proof -
  let ?h = "take 9 s" and ?r = "drop 9 s"
  let ?n = "unat (get32 (take 4 (drop 5 ?h)))"
  have c: "9 \<le> length s" "?n \<le> frame_max_payload" "?n \<le> length ?r"
    and f: "f = \<lparr>fr_channel = get32 (take 4 ?h), fr_kind = ?h ! 4, fr_payload = take ?n ?r\<rparr>" and r: "rest = drop ?n ?r"
    using assms by (auto simp: read_frame_def frame_header_bytes_def Let_def split: if_splits)
  have l: "length (fr_payload f) = ?n" using c(3) f by simp
  have "le32 (of_nat ?n) = take 4 (drop 5 ?h)" using c(1) by (simp add: le32_get32)
  moreover have "le32 (get32 (take 4 ?h)) = take 4 ?h" using c(1) by (simp add: le32_get32)
  moreover have "?h = take 4 ?h @ ?h ! 4 # take 4 (drop 5 ?h)"
  proof -
    have "?h = take 4 ?h @ ?h ! 4 # drop (Suc 4) ?h" by (rule id_take_nth_drop) (use c(1) in simp)
    moreover have "take 4 (drop 5 ?h) = drop (Suc 4) ?h" by simp
    ultimately show ?thesis by metis
  qed
  ultimately have "encode_frame (fr_channel f) (fr_kind f) (fr_payload f) = ?h @ take ?n ?r"
    using l by (simp only: encode_frame_def f core_frame.select_convs append_Cons append.assoc) (metis append.assoc append_Cons)
  then have "s = encode_frame (fr_channel f) (fr_kind f) (fr_payload f) @ rest" by (simp only: r append.assoc append_take_drop_id)
  moreover have "length (fr_payload f) \<le> frame_max_payload" using c(2) l by (simp only:)
  ultimately show ?thesis by blast
qed

text \<open>C30.  Frames are read back as they were written, in their order, however many follow each other; what ends the connection is the same
  as for the bytes after them; and nothing is read as a frame that is not the encoding of one within the limit.\<close>
theorem frames_roundtrip:
  assumes "\<forall>f \<in> set fs. length (fr_payload f) \<le> frame_max_payload"
  shows "read_frames (concat (map (\<lambda>f. encode_frame (fr_channel f) (fr_kind f) (fr_payload f)) fs) @ rest)
      = (fs @ fst (read_frames rest), snd (read_frames rest))
    \<and> read_frames (concat (map (\<lambda>f. encode_frame (fr_channel f) (fr_kind f) (fr_payload f)) fs)) = (fs, ShortRead)
    \<and> (read_frame s = (Inr f, s') \<longrightarrow>
         length (fr_payload f) \<le> frame_max_payload \<and> s = encode_frame (fr_channel f) (fr_kind f) (fr_payload f) @ s')"
  using read_frames_app [OF assms, of rest] read_frames_app [OF assms, of "[]"] read_frame_inverse [of s f s']
  by (simp add: read_frames_Nil)

lemma frames_roundtrip_witness:
  "read_frames (data_frame 7 ''ls'' @ credit_frame 7 2) =
     ([\<lparr>fr_channel = 7, fr_kind = chr 0, fr_payload = ''ls''\<rparr>, \<lparr>fr_channel = 7, fr_kind = chr 1, fr_payload = le32 2\<rparr>], ShortRead)"
  using frames_roundtrip [of "[\<lparr>fr_channel = 7, fr_kind = chr 0, fr_payload = ''ls''\<rparr>, \<lparr>fr_channel = 7, fr_kind = chr 1, fr_payload = le32 2\<rparr>]"]
  by (simp add: data_frame_def credit_frame_def frame_data_def frame_credit_def frame_max_payload_def)

section \<open>The first paint\<close>

text \<open>A marker ends at byte \<open>e\<close> of the stream.\<close>
definition marker_ends :: "string \<Rightarrow> nat \<Rightarrow> bool" where
  "marker_ends s e \<longleftrightarrow> 8 \<le> e \<and> e \<le> length s \<and> take 8 (drop (e - 8) s) \<in> set paint_end_markers"

lemma bytes_index_least:
  "bytes_index s m = Some i \<longleftrightarrow> i \<le> length s \<and> has_prefix (drop i s) m \<and> (\<forall>j < i. \<not> has_prefix (drop j s) m)"
proof (induction s arbitrary: i)
  case Nil
  then show ?case by (cases m) auto
next
  case (Cons c s)
  show ?case
  proof (cases "has_prefix (c # s) m")
    case True
    then show ?thesis by (cases i) auto
  next
    case False
    then show ?thesis using Cons.IH by (cases i) (auto simp: less_Suc_eq_0_disj)
  qed
qed

lemma bytes_index_none: "m \<noteq> [] \<Longrightarrow> bytes_index s m = None \<longleftrightarrow> (\<forall>j. \<not> has_prefix (drop j s) m)"
proof (induction s)
  case Nil
  then show ?case by (cases m) auto
next
  case (Cons c s)
  have "(\<forall>j. \<not> has_prefix (drop j (c # s)) m) \<longleftrightarrow> \<not> has_prefix (c # s) m \<and> (\<forall>j. \<not> has_prefix (drop j s) m)"
    by (metis drop0 drop_Suc_Cons not0_implies_Suc)
  then show ?case using Cons by simp
qed

definition marker_at :: "string \<Rightarrow> nat \<Rightarrow> bool" where
  "marker_at s i \<longleftrightarrow> (\<exists>m \<in> set paint_end_markers. has_prefix (drop i s) m)"

lemma length_markers: "m \<in> set paint_end_markers \<Longrightarrow> length m = 8"
  by (auto simp: paint_end_markers_def)

lemma has_prefix_take: "has_prefix s m \<longleftrightarrow> length m \<le> length s \<and> take (length m) s = m"
  unfolding has_prefix_iff by (metis append_take_drop_id append_eq_conv_conj le_add1 length_append)

lemma marker_ends_at: "marker_ends s e \<longleftrightarrow> 8 \<le> e \<and> marker_at s (e - 8)"
  by (auto simp: marker_ends_def marker_at_def has_prefix_take length_markers)

lemma core_paint_end_some:
  "core_paint_end s = Some e \<longleftrightarrow> marker_ends s e \<and> (\<forall>e' < e. \<not> marker_ends s e')"
proof -
  obtain m1 m2 where m: "paint_end_markers = [m1, m2]" "length m1 = 8" "length m2 = 8" by (simp add: paint_end_markers_def)
  have ne: "m1 \<noteq> []" "m2 \<noteq> []" using m by auto
  have at: "marker_at s i \<longleftrightarrow> has_prefix (drop i s) m1 \<or> has_prefix (drop i s) m2" for i by (simp add: marker_at_def m)
  have least: "(marker_ends s e \<and> (\<forall>e' < e. \<not> marker_ends s e')) \<longleftrightarrow> (\<exists>i. e = i + 8 \<and> marker_at s i \<and> (\<forall>j < i. \<not> marker_at s j))"
    (is "?l \<longleftrightarrow> ?r")
  proof
    assume l: ?l
    then have "e = (e - 8) + 8" "marker_at s (e - 8)" by (auto simp: marker_ends_at)
    moreover have "\<not> marker_at s j" if "j < e - 8" for j using l that by (auto simp: marker_ends_at dest: spec [of _ "j + 8"])
    ultimately show ?r by blast
  next
    assume ?r
    then obtain i where "e = i + 8" "marker_at s i" "\<forall>j < i. \<not> marker_at s j" by blast
    then show ?l by (auto simp: marker_ends_at)
  qed
  have uniq: "(\<exists>i. e = i + 8 \<and> marker_at s i \<and> (\<forall>j < i. \<not> marker_at s j)) \<longleftrightarrow> e = j + 8" if "marker_at s j" "\<forall>i < j. \<not> marker_at s i" for j
    using that by (metis linorder_neqE_nat)
  have bound: "has_prefix (drop i s) k \<Longrightarrow> k \<noteq> [] \<Longrightarrow> i \<le> length s" for i k by (cases "i \<le> length s"; cases k) auto
  show ?thesis
  proof (cases "bytes_index s m1"; cases "bytes_index s m2")
    assume n: "bytes_index s m1 = None" "bytes_index s m2 = None"
    then have "core_paint_end s = None" by (simp add: core_paint_end_def m)
    moreover have "\<not> marker_at s i" for i using n bytes_index_none ne unfolding at by blast
    ultimately show ?thesis unfolding least by simp
  next
    fix j assume n: "bytes_index s m1 = None" "bytes_index s m2 = Some j"
    then have "\<not> has_prefix (drop i s) m1" for i using bytes_index_none ne by blast
    moreover have "has_prefix (drop j s) m2" "\<forall>i < j. \<not> has_prefix (drop i s) m2" using n(2) by (simp_all add: bytes_index_least)
    ultimately have "marker_at s j" "\<forall>i < j. \<not> marker_at s i" by (simp_all add: at)
    moreover have "core_paint_end s = Some (j + 8)" by (simp add: core_paint_end_def m n)
    ultimately show ?thesis unfolding least using uniq [of j] by auto
  next
    fix j assume n: "bytes_index s m1 = Some j" "bytes_index s m2 = None"
    then have "\<not> has_prefix (drop i s) m2" for i using bytes_index_none ne by blast
    moreover have "has_prefix (drop j s) m1" "\<forall>i < j. \<not> has_prefix (drop i s) m1" using n(1) by (simp_all add: bytes_index_least)
    ultimately have "marker_at s j" "\<forall>i < j. \<not> marker_at s i" by (simp_all add: at)
    moreover have "core_paint_end s = Some (j + 8)" by (simp add: core_paint_end_def m n)
    ultimately show ?thesis unfolding least using uniq [of j] by auto
  next
    fix j k assume n: "bytes_index s m1 = Some j" "bytes_index s m2 = Some k"
    have p: "has_prefix (drop j s) m1" "\<forall>i < j. \<not> has_prefix (drop i s) m1" "has_prefix (drop k s) m2" "\<forall>i < k. \<not> has_prefix (drop i s) m2"
      using n by (simp_all add: bytes_index_least)
    have "core_paint_end s = Some (min j k + 8)" by (simp add: core_paint_end_def m n min_def)
    moreover have "marker_at s (min j k)" "\<forall>i < min j k. \<not> marker_at s i" using p by (auto simp: at min_def)
    ultimately show ?thesis unfolding least using uniq [of "min j k"] by auto
  qed
qed

lemma core_paint_end_none: "core_paint_end s = None \<longleftrightarrow> (\<forall>e. \<not> marker_ends s e)"
proof
  assume n: "core_paint_end s = None"
  show "\<forall>e. \<not> marker_ends s e"
  proof (rule ccontr)
    assume "\<not> (\<forall>e. \<not> marker_ends s e)"
    then obtain e where "marker_ends s e" by blast
    then have "marker_ends s (LEAST e. marker_ends s e)" by (rule LeastI)
    moreover have "\<forall>e' < (LEAST e. marker_ends s e). \<not> marker_ends s e'" using not_less_Least by blast
    ultimately have "core_paint_end s = Some (LEAST e. marker_ends s e)" unfolding core_paint_end_some by blast
    with n show False by simp
  qed
next
  assume "\<forall>e. \<not> marker_ends s e"
  then show "core_paint_end s = None" using core_paint_end_some [of s] by (cases "core_paint_end s") auto
qed

text \<open>Only the last seven bytes of what was searched can start a marker with what follows.\<close>
lemma marker_ends_drop:
  assumes "\<forall>e. \<not> marker_ends paint e" "k = length paint - 7"
  shows "marker_ends (paint @ d) e \<longleftrightarrow> k \<le> e \<and> marker_ends (drop k (paint @ d)) (e - k)"
proof -
  have old: "marker_ends paint e" if "marker_ends (paint @ d) e" "e \<le> length paint" for e
  proof -
    have "8 \<le> e" using that(1) by (simp add: marker_ends_def)
    then have eq: "take 8 (drop (e - 8) (paint @ d)) = take 8 (drop (e - 8) paint)" using that(2) by (simp add: le_add_diff_inverse)
    then show ?thesis using that(1,2) unfolding marker_ends_def eq by blast
  qed
  show ?thesis
  proof (cases "k + 8 \<le> e")
    case True
    then have "drop (e - 8) (paint @ d) = drop (e - k - 8) (drop k (paint @ d))"
      by (simp only: drop_drop) (rule arg_cong [of _ _ "\<lambda>n. drop n _"], simp)
    moreover have "e \<le> length (paint @ d) \<longleftrightarrow> e - k \<le> length (drop k (paint @ d))"
      using True assms(2) by (simp only: length_drop length_append) linarith
    moreover have "8 \<le> e" "k \<le> e" "8 \<le> e - k" using True by simp_all
    ultimately show ?thesis unfolding marker_ends_def by metis
  next
    case False
    have "\<not> marker_ends (paint @ d) e" using False old [of e] assms by (cases "e \<le> length paint") (auto simp: marker_ends_def)
    moreover have "\<not> (k \<le> e \<and> 8 \<le> e - k)" using False by linarith
    ultimately show ?thesis unfolding marker_ends_def by blast
  qed
qed

lemma paint_search:
  assumes "\<forall>e. \<not> marker_ends paint e" "k = length paint - 7"
  shows "core_paint_end (paint @ d) = map_option (\<lambda>e. k + e) (core_paint_end (drop k (paint @ d)))"
proof (cases "core_paint_end (drop k (paint @ d))")
  case None
  have "\<not> marker_ends (drop k (paint @ d)) e" for e using None [unfolded core_paint_end_none] by blast
  then have "core_paint_end (paint @ d) = None" unfolding core_paint_end_none marker_ends_drop [OF assms] by blast
  then show ?thesis using None by simp
next
  case (Some e)
  then have "core_paint_end (paint @ d) = Some (k + e)"
    unfolding core_paint_end_some marker_ends_drop [OF assms] by (simp del: drop_append)
  then show ?thesis using Some by simp
qed

lemma paint_end_append: "core_paint_end s = Some e \<Longrightarrow> core_paint_end (s @ t) = Some e"
proof -
  assume e: "core_paint_end s = Some e"
  have "marker_ends (s @ t) x \<longleftrightarrow> marker_ends s x" if "x \<le> e" for x
  proof (cases "8 \<le> x")
    case True
    have "e \<le> length s" using e by (simp add: core_paint_end_some marker_ends_def)
    then have eq: "take 8 (drop (x - 8) (s @ t)) = take 8 (drop (x - 8) s)" and "x \<le> length s" using True that by (simp_all add: le_add_diff_inverse)
    then show ?thesis unfolding marker_ends_def eq by simp
  qed (simp add: marker_ends_def)
  then show ?thesis using e unfolding core_paint_end_some by simp
qed

lemma paint_add_spec:
  assumes "core_paint_end paint = None"
  shows "paint_add paint d =
    (case core_paint_end (paint @ d) of Some e \<Rightarrow> (take e (paint @ d), PaintDone)
     | None \<Rightarrow> (paint @ d, if length (paint @ d) > core_max_paint_bytes then PaintTooLong else PaintMore))"
proof -
  have k: "length paint + 1 - length (hd paint_end_markers) = length paint - 7" by (simp add: paint_end_markers_def)
  have "core_paint_end (paint @ d) = map_option (\<lambda>e. (length paint - 7) + e) (core_paint_end (drop (length paint - 7) (paint @ d)))"
    using paint_search [OF _ refl, of paint d] assms core_paint_end_none by blast
  then show ?thesis
    unfolding paint_add_def Let_def k by (cases "core_paint_end (drop (length paint - 7) (paint @ d))") (simp_all del: drop_append)
qed

lemma collect_paint_spec:
  assumes "core_paint_end paint = None"
  shows "length (paint @ concat ds) \<le> core_max_paint_bytes \<Longrightarrow>
      collect_paint ds paint = (case core_paint_end (paint @ concat ds) of None \<Rightarrow> (paint @ concat ds, PaintMore)
        | Some e \<Rightarrow> (take e (paint @ concat ds), PaintDone))"
    and "collect_paint ds paint = (p, PaintDone) \<Longrightarrow> \<exists>e. core_paint_end (paint @ concat ds) = Some e \<and> p = take e (paint @ concat ds)"
  using assms
proof (induction ds arbitrary: paint)
  case (Cons d ds)
  {
    case 1
    show ?case
    proof (cases "core_paint_end (paint @ d)")
      case None
      then show ?thesis using Cons.IH(1) [OF _ None] 1 by (simp add: paint_add_spec split: option.split)
    next
      case (Some e)
      have "e \<le> length (paint @ d)" using Some by (simp add: core_paint_end_some marker_ends_def)
      moreover have "core_paint_end (paint @ d @ concat ds) = Some e" using paint_end_append [OF Some, of "concat ds"] by simp
      ultimately show ?thesis using Some 1 by (simp add: paint_add_spec)
    qed
  next
    case 2
    show ?case
    proof (cases "core_paint_end (paint @ d)")
      case None
      then show ?thesis using Cons.IH(2) [OF _ None] 2 by (simp add: paint_add_spec split: if_splits)
    next
      case (Some e)
      have "e \<le> length (paint @ d)" using Some by (simp add: core_paint_end_some marker_ends_def)
      moreover have "core_paint_end (paint @ d @ concat ds) = Some e" using paint_end_append [OF Some, of "concat ds"] by simp
      ultimately show ?thesis using Some 2 by (simp add: paint_add_spec)
    qed
  }
qed simp_all

text \<open>C29.  The first paint is found however the stream is cut into frames: searching only the bytes that could complete a marker finds
  exactly what searching the whole stream would, and the paint ends with the earliest marker of the stream.\<close>
theorem first_paint_chunks:
  "(length (concat ds) \<le> core_max_paint_bytes \<longrightarrow>
      collect_paint ds [] = (case core_paint_end (concat ds) of None \<Rightarrow> (concat ds, PaintMore) | Some e \<Rightarrow> (take e (concat ds), PaintDone)))
    \<and> (collect_paint ds [] = (p, PaintDone) \<longrightarrow> (\<exists>e. core_paint_end (concat ds) = Some e \<and> p = take e (concat ds)))
    \<and> (core_paint_end (concat ds) = Some e \<longleftrightarrow> marker_ends (concat ds) e \<and> (\<forall>e' < e. \<not> marker_ends (concat ds) e'))"
proof -
  have e: "core_paint_end [] = None" by (simp add: core_paint_end_none marker_ends_def)
  show ?thesis
    using collect_paint_spec(1) [OF e, of ds, unfolded append_Nil] collect_paint_spec(2) [OF e, of ds p, unfolded append_Nil]
      core_paint_end_some [of "concat ds" e] by blast
qed

lemma first_paint_chunks_witness:
  "collect_paint [''ab'' @ CHR 0x1B # ''[?9'', ''001lcd''] [] = (''ab'' @ CHR 0x1B # ''[?9001l'', PaintDone)"
proof -
  have "core_paint_end (''ab'' @ CHR 0x1B # ''[?9001lcd'') = Some 10" by (simp add: core_paint_end_def paint_end_markers_def)
  then show ?thesis
    using first_paint_chunks [of "[''ab'' @ CHR 0x1B # ''[?9'', ''001lcd'']", THEN conjunct1] by (simp add: core_max_paint_bytes_def)
qed

section \<open>Lines of events\<close>

lemma cut_lines_append:
  "cut_lines (a @ b) = (case cut_lines a of (l1, r1) \<Rightarrow> (case cut_lines (r1 @ b) of (l2, r2) \<Rightarrow> (l1 @ l2, r2)))"
proof (induction a rule: cut_lines.induct)
  case (1 a)
  show ?case
  proof (cases "cut_at (chr 10) a")
    case None
    then show ?thesis by (simp add: cut_lines.simps [of a] split: prod.split)
  next
    case (Some p)
    obtain line rest where p: "p = (line, rest)" by force
    have "a @ b = line @ chr 10 # (rest @ b)" "chr 10 \<notin> set line" using cut_at_Some [OF Some [unfolded p]] by simp_all
    then have "cut_at (chr 10) (a @ b) = Some (line, rest @ b)" by (simp add: cut_at_append)
    then show ?thesis using 1 [OF Some p [symmetric]] Some p
      by (simp add: cut_lines.simps [of "a @ b"] cut_lines.simps [of a] split: prod.splits)
  qed
qed

definition record_events :: "stream_event list \<Rightarrow> stream_event \<Rightarrow> stream_event list \<times> bool" where
  "record_events h e = (h @ [e], False)"

lemma handle_all_record: "handle_all record_events es h = (h @ es, None)"
  by (induction es arbitrary: h) (simp_all add: record_events_def)

definition payloads :: "channel \<Rightarrow> core_frame list \<Rightarrow> string list" where
  "payloads ch fs = map fr_payload (filter (\<lambda>f. fr_channel f = ch \<and> byte (fr_kind f) = frame_data) fs)"

definition is_data :: "stream_event \<Rightarrow> bool" where "is_data e = (case e of StreamData _ \<Rightarrow> True | _ \<Rightarrow> False)"

lemma size_events_append: "size_events lib (a @ b) = size_events lib a @ size_events lib b"
  by (simp add: size_events_def List.map_filter_def)

lemma size_events_not_data: "filter is_data (size_events lib ls) = []" "filter (\<lambda>e. \<not> is_data e) (size_events lib ls) = size_events lib ls"
  by (auto simp: size_events_def is_data_def filter_empty_conv filter_id_conv)

lemma cut_lines_rest: "chr 10 \<notin> set (snd (cut_lines s))"
proof (induction s rule: cut_lines.induct)
  case (1 s)
  show ?case
  proof (cases "cut_at (chr 10) s")
    case None
    then show ?thesis using cut_at_None [of "chr 10" s] by (simp add: cut_lines.simps [of s])
  next
    case (Some p)
    obtain line rest where p: "p = (line, rest)" by force
    show ?thesis using 1 [OF Some p [symmetric]] by (cases "cut_lines rest") (simp add: cut_lines.simps [of s] Some p)
  qed
qed

lemma cut_lines_none: "chr 10 \<notin> set s \<Longrightarrow> cut_lines s = ([], s)"
  by (simp add: cut_lines.simps [of s] cut_at_None [THEN iffD2])

lemma deliver_reply_keeps [simp]:
  "at_writes (deliver_reply lib p a) = at_writes a" "at_channel (deliver_reply lib p a) = at_channel a"
  "at_events (deliver_reply lib p a) = at_events a" "at_lines (deliver_reply lib p a) = at_lines a"
  "at_written (deliver_reply lib p a) = at_written a" "at_failed (deliver_reply lib p a) = at_failed a"
  "at_next (deliver_reply lib p a) = at_next a"
  by (simp_all add: deliver_reply_def split: option.split)

text \<open>What a frame does that is not a close: the attachment, the data and the sizes.\<close>
lemma frame_step_open:
  assumes "at_writes a = None" "at_channel a \<noteq> 0" "at_events a \<noteq> at_channel a" "chr 10 \<notin> set (at_lines a)"
    and "byte (fr_kind f) = frame_close \<longrightarrow> fr_channel f \<notin> {at_channel a, at_events a}"
    and "frame_step lib f a = (a', evs, fin)"
  shows "fin = None \<and> at_writes a' = None \<and> at_channel a' = at_channel a \<and> at_events a' = at_events a \<and> chr 10 \<notin> set (at_lines a')
    \<and> filter is_data evs = map StreamData (payloads (at_channel a) [f])
    \<and> (at_events a \<noteq> 0 \<longrightarrow> filter (\<lambda>x. \<not> is_data x) evs = size_events lib (fst (cut_lines (at_lines a @ concat (payloads (at_events a) [f]))))
        \<and> at_lines a' = snd (cut_lines (at_lines a @ concat (payloads (at_events a) [f])))
        \<and> at_written a' = at_written a @ concat (map (\<lambda>d. credit_frame (at_events a) (length d)) (payloads (at_events a) [f])))"
proof -
  have n: "cut_lines (at_lines a) = ([], at_lines a)" by (rule cut_lines_none [OF assms(4)])
  consider (reply) "fr_channel f = 0" "byte (fr_kind f) = frame_data"
    | (data) "fr_channel f = at_channel a" "byte (fr_kind f) = frame_data"
    | (lines) "at_events a \<noteq> 0" "fr_channel f = at_events a" "byte (fr_kind f) = frame_data"
    | (rest) "\<not> (byte (fr_kind f) = frame_data \<and> (fr_channel f = 0 \<or> fr_channel f = at_channel a \<or> at_events a \<noteq> 0 \<and> fr_channel f = at_events a))"
    by blast
  then show ?thesis
  proof cases
    case reply
    then have "frame_step lib f a = (deliver_reply lib (fr_payload f) a, [], None)" by (simp add: frame_step_def)
    moreover have "payloads (at_channel a) [f] = []" "at_events a \<noteq> 0 \<longrightarrow> payloads (at_events a) [f] = []" using reply assms(2) by (auto simp: payloads_def)
    ultimately show ?thesis using assms(1,4,6) n by (auto simp: size_events_def List.map_filter_def)
  next
    case data
    then have "frame_step lib f a = (a, [StreamData (fr_payload f)], None)" using assms(2) by (simp add: frame_step_def)
    moreover have "payloads (at_channel a) [f] = [fr_payload f]" "payloads (at_events a) [f] = []" using data assms(3) by (auto simp: payloads_def)
    ultimately show ?thesis using assms(1,4,6) n by (auto simp: size_events_def List.map_filter_def is_data_def)
  next
    case rest
    then have "frame_step lib f a = (a, [], None)" using assms(5) unfolding frame_step_def by (simp split del: if_split) argo
    moreover have "payloads (at_channel a) [f] = []" "at_events a \<noteq> 0 \<longrightarrow> payloads (at_events a) [f] = []" using rest by (auto simp: payloads_def)
    ultimately show ?thesis using assms(1,4,6) n by (auto simp: size_events_def List.map_filter_def)
  next
    case lines
    have c: "fr_channel f \<noteq> 0" "fr_channel f \<noteq> at_channel a" using lines assms(3) by auto
    obtain ls r where l: "cut_lines (at_lines a @ fr_payload f) = (ls, r)" by force
    have "frame_step lib f a = (a\<lparr>at_written := at_written a @ credit_frame (at_events a) (length (fr_payload f)), at_lines := r\<rparr>, size_events lib ls, None)"
      using lines c assms(1) l by (simp add: frame_step_def write_bytes_def)
    moreover have "payloads (at_channel a) [f] = []" "payloads (at_events a) [f] = [fr_payload f]" using lines c by (auto simp: payloads_def)
    moreover have "chr 10 \<notin> set r" using cut_lines_rest [of "at_lines a @ fr_payload f"] l by simp
    ultimately show ?thesis using assms(1,6) l by (auto simp: size_events_not_data)
  qed
qed

lemma payloads_Cons: "payloads ch (f # fs) = payloads ch [f] @ payloads ch fs"
  by (simp add: payloads_def)

lemma run_stream_record:
  assumes "at_writes a = None" "at_channel a \<noteq> 0" "at_events a \<noteq> at_channel a" "chr 10 \<notin> set (at_lines a)"
    and "\<forall>f \<in> set fs. byte (fr_kind f) = frame_close \<longrightarrow> fr_channel f \<notin> {at_channel a, at_events a}"
  shows "\<exists>a' h'. run_stream lib record_events fs e a h = (a', h', EndRead e)
    \<and> filter is_data h' = filter is_data h @ map StreamData (payloads (at_channel a) fs)
    \<and> (at_events a \<noteq> 0 \<longrightarrow> filter (\<lambda>x. \<not> is_data x) h' = filter (\<lambda>x. \<not> is_data x) h
          @ size_events lib (fst (cut_lines (at_lines a @ concat (payloads (at_events a) fs))))
        \<and> at_written a' = at_written a @ concat (map (\<lambda>d. credit_frame (at_events a) (length d)) (payloads (at_events a) fs)))"
  using assms
proof (induction fs arbitrary: a h)
  case Nil
  then show ?case by (simp add: payloads_def cut_lines_none size_events_def List.map_filter_def)
next
  case (Cons f fs)
  obtain a1 evs fin where st: "frame_step lib f a = (a1, evs, fin)" by (metis prod_cases3)
  have s: "fin = None" "at_writes a1 = None" "at_channel a1 = at_channel a" "at_events a1 = at_events a" "chr 10 \<notin> set (at_lines a1)"
    "filter is_data evs = map StreamData (payloads (at_channel a) [f])"
    "at_events a \<noteq> 0 \<Longrightarrow> filter (\<lambda>x. \<not> is_data x) evs = size_events lib (fst (cut_lines (at_lines a @ concat (payloads (at_events a) [f]))))"
    "at_events a \<noteq> 0 \<Longrightarrow> at_lines a1 = snd (cut_lines (at_lines a @ concat (payloads (at_events a) [f])))"
    "at_events a \<noteq> 0 \<Longrightarrow> at_written a1 = at_written a @ concat (map (\<lambda>d. credit_frame (at_events a) (length d)) (payloads (at_events a) [f]))"
    using frame_step_open [OF Cons.prems(1-4) _ st] Cons.prems(5) by auto
  obtain a' h' where ih: "run_stream lib record_events fs e a1 (h @ evs) = (a', h', EndRead e)"
    "filter is_data h' = filter is_data (h @ evs) @ map StreamData (payloads (at_channel a1) fs)"
    "at_events a1 \<noteq> 0 \<Longrightarrow> filter (\<lambda>x. \<not> is_data x) h' = filter (\<lambda>x. \<not> is_data x) (h @ evs)
          @ size_events lib (fst (cut_lines (at_lines a1 @ concat (payloads (at_events a1) fs))))"
    "at_events a1 \<noteq> 0 \<Longrightarrow> at_written a' = at_written a1 @ concat (map (\<lambda>d. credit_frame (at_events a1) (length d)) (payloads (at_events a1) fs))"
    using Cons.IH [of a1 "h @ evs"] Cons.prems s by auto
  have r: "run_stream lib record_events (f # fs) e a h = (a', h', EndRead e)" using st s(1) ih(1) by (simp add: handle_all_record)
  have l: "size_events lib (fst (cut_lines (at_lines a @ concat (payloads (at_events a) (f # fs)))))
      = size_events lib (fst (cut_lines (at_lines a @ concat (payloads (at_events a) [f]))))
        @ size_events lib (fst (cut_lines (at_lines a1 @ concat (payloads (at_events a) fs))))" if "at_events a \<noteq> 0"
    using cut_lines_append [of "at_lines a @ concat (payloads (at_events a) [f])" "concat (payloads (at_events a) fs)"] s(8) [OF that]
    by (simp add: payloads_Cons [of _ f fs] size_events_append split: prod.splits)
  show ?case
    using r ih(2-) s l by (intro exI [of _ a'] exI [of _ h']) (simp add: payloads_Cons [of _ f fs])
qed

lemma attach_ok:
  assumes "attach sv lib decode follow s = Inr (a, early, rest)"
  shows "at_writes a = None \<and> at_channel a \<noteq> 0 \<and> at_events a \<noteq> at_channel a \<and> at_lines a = [] \<and> at_replies a = {} \<and> at_answers a = [] \<and> \<not> at_failed a"
proof -
  obtain rest0 events u fs u1 cols rows where c: "hello_reply sv lib decode s = Inr rest0"
    "subscribe_events lib follow \<lparr>su_early = [], su_rest = rest0, su_written = [], su_next = 0\<rparr> = (Inr events, u)"
    "attach_answer follow events fs = Inr (at_channel a, cols, rows)" "at_events a = events"
    and o: "at_writes a = None" "at_lines a = []" "at_replies a = {}" "at_answers a = []" "\<not> at_failed a"
    using assms by (auto simp: attach_def split: sum.splits prod.splits)
  have "\<not> follow \<Longrightarrow> events = 0" using c(2) by (auto simp: subscribe_events_def)
  then have "at_channel a \<noteq> 0" "events \<noteq> at_channel a"
    using c(3) by (auto simp: attach_answer_def split: option.splits if_splits)
  then show ?thesis using o c(4) by simp
qed

text \<open>C27.  What a viewer of a terminal gets: from the bytes after the setup, and the frames that came during it, the handler is given
  exactly the data of the terminal's channel, in order, and the sizes of exactly the complete lines of the event channel, however core
  cut them into frames and mixed the channels; every byte of the events is credited; the stream ends with the connection.\<close>
theorem attach_stream:
  assumes "attach sv lib decode follow s = Inr (a, early, rest)" "read_frames rest = (fs, e)"
    and "\<forall>f \<in> set (early @ fs). byte (fr_kind f) = frame_close \<longrightarrow> fr_channel f \<notin> {at_channel a, at_events a}"
  shows "\<exists>a' h'. run_attachment lib record_events early rest a [] = (a', h', EndRead e)
    \<and> filter is_data h' = map StreamData (payloads (at_channel a) (early @ fs))
    \<and> (at_events a \<noteq> 0 \<longrightarrow> filter (\<lambda>x. \<not> is_data x) h' = size_events lib (fst (cut_lines (concat (payloads (at_events a) (early @ fs)))))
        \<and> at_written a' = at_written a @ concat (map (\<lambda>d. credit_frame (at_events a) (length d)) (payloads (at_events a) (early @ fs))))
    \<and> at_replies a' = {}"
proof -
  note a = attach_ok [OF assms(1)]
  obtain a' h' where r: "run_stream lib record_events (early @ fs) e a [] = (a', h', EndRead e)"
    "filter is_data h' = map StreamData (payloads (at_channel a) (early @ fs))"
    "at_events a \<noteq> 0 \<longrightarrow> filter (\<lambda>x. \<not> is_data x) h' = size_events lib (fst (cut_lines (concat (payloads (at_events a) (early @ fs)))))
        \<and> at_written a' = at_written a @ concat (map (\<lambda>d. credit_frame (at_events a) (length d)) (payloads (at_events a) (early @ fs)))"
    using run_stream_record [of a "early @ fs" lib e "[]"] a assms(3) by auto
  then show ?thesis
    by (intro exI [of _ "a'\<lparr>at_failed := True, at_replies := {}\<rparr>"] exI [of _ h']) (simp add: run_attachment_def assms(2))
qed

lemma control_chars: "chr 27 = CHR 0x1B" "chr 10 = CHR 0x0A" "chr 7 = CHR 0x07"
  by code_simp+

definition sample_response :: core_response where
  "sample_response = \<lparr>rs_id = ''1'', rs_error = None,
     rs_result = Some (JObj [(''channel'', JNum ''7''), (''terminal'', JObj [(''cols'', JNum ''80''), (''rows'', JNum ''24'')])])\<rparr>"

definition sample_attach_lib :: attach_lib where
  "sample_attach_lib = \<lparr>al_response = (\<lambda>_. Some sample_response), al_json = (\<lambda>_. None), al_call = (\<lambda>_ m. m)\<rparr>"

definition sample_semver :: semver where
  "sample_semver = \<lparr>sv_valid = (\<lambda>_. True), sv_prerelease = (\<lambda>_. []), sv_canonical = (\<lambda>v. v), sv_compare = (\<lambda>_ _. 0)\<rparr>"

definition sample_hello :: core_hello where
  "sample_hello = \<lparr>ch_id = ''core'', ch_features = core_required_features, ch_generation = 1, ch_methods = core_required_methods, ch_version = ''0.1.16''\<rparr>"

definition sample_stream :: string where
  "sample_stream = ''hello'' @ chr 10 # data_frame 7 ''early'' @ data_frame 0 ''attached'' @ data_frame 7 ''ls''"

definition data_of :: "string \<Rightarrow> core_frame" where
  "data_of d = \<lparr>fr_channel = 7, fr_kind = chr 0, fr_payload = d\<rparr>"

lemma sample_attach:
  "\<exists>a. attach sample_semver sample_attach_lib (\<lambda>_. Some sample_hello) False sample_stream = Inr (a, [data_of ''early''], data_frame 7 ''ls'')
     \<and> at_channel a = 7 \<and> at_events a = 0"
proof -
  let ?ts = "[(''cols'', JNum ''80''), (''rows'', JNum ''24'')]"
  let ?fs = "[(''channel'', JNum ''7''), (''terminal'', JObj ?ts)]"
  have "check_hello sample_semver sample_hello = Inr VersionFine" by code_simp
  moreover have "chr 10 \<notin> set ''hello''" by (simp add: control_chars)
  then have "cut_at (chr 10) sample_stream = Some (''hello'', data_frame 7 ''early'' @ data_frame 0 ''attached'' @ data_frame 7 ''ls'')"
    unfolding sample_stream_def by (rule cut_at_append)
  ultimately have h: "hello_reply sample_semver sample_attach_lib (\<lambda>_. Some sample_hello) sample_stream
      = Inr (data_frame 7 ''early'' @ data_frame 0 ''attached'' @ data_frame 7 ''ls'')"
    by (simp add: hello_reply_def sample_attach_lib_def sample_response_def)
  have f: "read_frame (data_frame ch d @ r) = (Inr \<lparr>fr_channel = ch, fr_kind = chr 0, fr_payload = d\<rparr>, r)" if "length d \<le> 16" for ch d r
    using that unfolding data_frame_def by (simp add: read_encode_frame frame_max_payload_def frame_data_def)
  have "itoa 1 = ''1''" by code_simp
  then have "await_reply sample_attach_lib 1 [] (data_frame 7 ''early'' @ data_frame 0 ''attached'' @ data_frame 7 ''ls'')
      = (Inr (rs_result sample_response), [data_of ''early''], data_frame 7 ''ls'')"
    by (simp add: await_reply.simps f sample_attach_lib_def sample_response_def data_of_def frame_data_def)
  moreover have "attach_answer False 0 ?fs = Inr (7, 80, 24)"
  proof -
    have "entries ''channel'' ?fs = [JNum ''7'']" "get_struct ''terminal'' ?fs = Some ?ts" by code_simp+
    moreover have "entries ''cols'' ?ts = [JNum ''80'']" "entries ''rows'' ?ts = [JNum ''24'']" by code_simp+
    moreover have "parse_uint64 ''7'' = Some 7" "parse_int64 ''80'' = Some 80" "parse_int64 ''24'' = Some 24"
      by (simp_all add: parse_uint64_def parse_int64_def all_digits_def is_digit_def digits_val_def digit_val_def)
    ultimately show ?thesis by (simp add: attach_answer_def ptr_u32_def ptr_uint_def uint_of_def get_int_def int_of_def last_or_null_def)
  qed
  ultimately show ?thesis
    by (simp add: attach_def h subscribe_events_def setup_call_def Let_def sample_response_def struct_fields_def)
qed

lemma attach_stream_witness:
  "\<exists>a a' h. attach sample_semver sample_attach_lib (\<lambda>_. Some sample_hello) False sample_stream = Inr (a, [data_of ''early''], data_frame 7 ''ls'')
     \<and> run_attachment sample_attach_lib record_events [data_of ''early''] (data_frame 7 ''ls'') a [] = (a', h, EndRead ShortRead)
     \<and> filter is_data h = [StreamData ''early'', StreamData ''ls'']"
proof -
  obtain a where a: "attach sample_semver sample_attach_lib (\<lambda>_. Some sample_hello) False sample_stream = Inr (a, [data_of ''early''], data_frame 7 ''ls'')"
    "at_channel a = 7" "at_events a = 0" using sample_attach by blast
  have r: "read_frames (data_frame 7 ''ls'') = ([data_of ''ls''], ShortRead)"
    using read_frames_app [of "[data_of ''ls'']" "[]"] by (simp add: read_frames_Nil data_of_def data_frame_def frame_data_def frame_max_payload_def)
  show ?thesis using attach_stream [OF a(1) r] a by (auto simp: data_of_def payloads_def frame_data_def frame_close_def)
qed

section \<open>Keys\<close>

text \<open>What happens to the calls of an attachment: a key is pressed, one is waited for no longer, a frame arrives, or the stream ends.\<close>
datatype key_event = Press | Forget nat | Arrive core_frame | StreamEnds

fun key_step :: "attach_lib \<Rightarrow> key_event \<Rightarrow> attachment \<Rightarrow> attachment" where
  "key_step lib Press a = snd (start_keys lib a)"
| "key_step lib (Forget i) a = forget_keys i a"
| "key_step lib (Arrive f) a = fst (frame_step lib f a)"
| "key_step lib StreamEnds a = a\<lparr>at_failed := True, at_replies := {}\<rparr>"

definition keys_inv :: "attachment \<Rightarrow> bool" where
  "keys_inv a \<longleftrightarrow> distinct (map fst (at_answers a)) \<and> fst ` set (at_answers a) \<inter> at_replies a = {}
     \<and> (\<forall>i \<in> fst ` set (at_answers a) \<union> at_replies a. i \<le> at_next a) \<and> (\<forall>(i, r) \<in> set (at_answers a). reply_id r = Some i)
     \<and> (at_failed a \<longrightarrow> at_replies a = {})"

lemma write_bytes_keeps:
  "at_replies (snd (write_bytes d a)) = at_replies a" "at_answers (snd (write_bytes d a)) = at_answers a" "at_next (snd (write_bytes d a)) = at_next a"
  "at_failed (snd (write_bytes d a)) = at_failed a"
  by (simp_all add: write_bytes_def split: option.split nat.split)

lemma deliver_reply_keys: "keys_inv a \<Longrightarrow> keys_inv (deliver_reply lib p a)"
  by (fastforce simp: keys_inv_def deliver_reply_def split: option.split)

lemma frame_step_keys:
  assumes "keys_inv a"
  shows "keys_inv (fst (frame_step lib f a))"
proof -
  obtain ok a1 where w: "write_bytes (credit_frame (at_events a) (length (fr_payload f))) a = (ok, a1)" by (meson surj_pair)
  have "keys_inv a1" "keys_inv (a1\<lparr>at_lines := r\<rparr>)" for r using assms write_bytes_keeps [of "credit_frame (at_events a) (length (fr_payload f))" a] w
    by (simp_all add: keys_inv_def)
  then show ?thesis using assms deliver_reply_keys [OF assms] w by (simp add: frame_step_def split: prod.split bool.split)
qed

lemma start_keys_inv:
  assumes "keys_inv a"
  shows "keys_inv (snd (start_keys lib a))"
proof -
  let ?a = "a\<lparr>at_next := Suc (at_next a), at_replies := insert (Suc (at_next a)) (at_replies a)\<rparr>"
  let ?d = "encode_frame 0 (chr frame_data) (al_call lib (Suc (at_next a)) ''terminal.keys'')"
  obtain ok a1 where w: "write_bytes ?d ?a = (ok, a1)" by (meson surj_pair)
  have "(Suc (at_next a), r) \<notin> set (at_answers a)" for r
  proof
    assume "(Suc (at_next a), r) \<in> set (at_answers a)"
    then have "Suc (at_next a) \<in> fst ` set (at_answers a)" by force
    then have "Suc (at_next a) \<le> at_next a" using assms unfolding keys_inv_def by blast
    then show False by simp
  qed
  then have fresh: "Suc (at_next a) \<notin> fst ` set (at_answers a)" by force
  have a1: "at_replies a1 = insert (Suc (at_next a)) (at_replies a)" "at_answers a1 = at_answers a" "at_next a1 = Suc (at_next a)" "at_failed a1 = at_failed a"
    using write_bytes_keeps [of ?d ?a] w by simp_all
  define ids where "ids = fst ` set (at_answers a)"
  note inv = assms [unfolded keys_inv_def, folded ids_def] and fresh' = fresh [folded ids_def]
  have "\<forall>i \<in> ids \<union> insert (Suc (at_next a)) (at_replies a). i \<le> Suc (at_next a)" using inv le_SucI by blast
  then have "keys_inv a1" "keys_inv (a1\<lparr>at_replies := at_replies a1 - {Suc (at_next a)}\<rparr>)" if "\<not> at_failed a"
    unfolding keys_inv_def using inv fresh' that by (auto simp: a1 ids_def [symmetric])
  then show ?thesis using assms w by (auto simp: start_keys_def Let_def split: bool.split)
qed

lemma key_step_inv: "keys_inv a \<Longrightarrow> keys_inv (key_step lib e a)"
proof (induction lib e a rule: key_step.induct)
  case (2 lib i a)
  then show ?case by (auto simp: keys_inv_def forget_keys_def)
next
  case (4 lib a)
  then show ?case by (simp add: keys_inv_def)
qed (simp_all add: start_keys_inv frame_step_keys)

lemma key_steps_inv: "keys_inv a \<Longrightarrow> keys_inv (fold (key_step lib) evs a)"
  by (induction evs arbitrary: a) (simp_all add: key_step_inv)

text \<open>C28.  A pressed key is confirmed by its own answer only: whatever keys are pressed, given up on and answered on an attachment, in whatever
  order and until the stream ends, a call gets at most one response, which carries its id; a new call never has the id of one that
  was answered or still waits; and no call waits once the stream has ended, after which none can start.\<close>
theorem keys_answered_once:
  assumes "attach sv lib decode follow s = Inr (a0, early, rest)" "a = fold (key_step lib) evs a0"
  shows "distinct (map fst (at_answers a)) \<and> (\<forall>x \<in> set (at_answers a). reply_id (snd x) = Some (fst x) \<and> fst x \<notin> at_replies a)
    \<and> (start_keys lib a = (KeyWaits i, a') \<longrightarrow> i \<notin> at_replies a \<and> i \<notin> fst ` set (at_answers a) \<and> i \<in> at_replies a')
    \<and> (at_failed a \<longrightarrow> at_replies a = {} \<and> start_keys lib a = (KeyFailed, a))"
proof -
  have "keys_inv a0" using attach_ok [OF assms(1)] by (simp add: keys_inv_def)
  then have inv: "keys_inv a" unfolding assms(2) by (rule key_steps_inv)
  have i: "i = Suc (at_next a) \<and> i \<in> at_replies a'" if "start_keys lib a = (KeyWaits i, a')"
  proof -
    let ?a = "a\<lparr>at_next := Suc (at_next a), at_replies := insert (Suc (at_next a)) (at_replies a)\<rparr>"
    let ?d = "encode_frame 0 (chr frame_data) (al_call lib (Suc (at_next a)) ''terminal.keys'')"
    obtain ok a1 where w: "write_bytes ?d ?a = (ok, a1)" by (meson surj_pair)
    show ?thesis using that write_bytes_keeps(1) [of ?d ?a] w by (auto simp: start_keys_def Let_def split: if_splits bool.splits)
  qed
  have n: "Suc (at_next a) \<notin> at_replies a" "Suc (at_next a) \<notin> fst ` set (at_answers a)"
    using inv unfolding keys_inv_def by (metis Suc_n_not_le_n UnI1 UnI2)+
  moreover have "i \<notin> at_replies a \<and> i \<notin> fst ` set (at_answers a) \<and> i \<in> at_replies a'" if "start_keys lib a = (KeyWaits i, a')"
    using i [OF that] n by metis
  moreover have "reply_id (snd x) = Some (fst x) \<and> fst x \<notin> at_replies a" if "x \<in> set (at_answers a)" for x
    using inv that unfolding keys_inv_def by (cases x) force
  moreover have "distinct (map fst (at_answers a))" "at_failed a \<longrightarrow> at_replies a = {}" using inv by (simp_all add: keys_inv_def)
  moreover have "at_failed a \<longrightarrow> start_keys lib a = (KeyFailed, a)" by (simp add: start_keys_def)
  ultimately show ?thesis by blast
qed

lemma keys_answered_once_witness:
  "\<exists>a0. attach sample_semver sample_attach_lib (\<lambda>_. Some sample_hello) False sample_stream = Inr (a0, [data_of ''early''], data_frame 7 ''ls'')
     \<and> distinct (map fst (at_answers (fold (key_step sample_attach_lib) [Press, Arrive \<lparr>fr_channel = 0, fr_kind = chr 0, fr_payload = ''ok''\<rparr>, StreamEnds] a0)))"
proof -
  obtain a0 where "attach sample_semver sample_attach_lib (\<lambda>_. Some sample_hello) False sample_stream = Inr (a0, [data_of ''early''], data_frame 7 ''ls'')"
    using sample_attach by blast
  then show ?thesis using keys_answered_once [OF _ refl] by blast
qed

section \<open>Reader's text\<close>

lemma strip_osc_plain: "chr 27 \<notin> set p \<Longrightarrow> strip_osc (p @ s) = p @ strip_osc s"
  by (induction p) (auto simp: strip_osc.simps [of "_ # _"] match_osc_def)

lemma strip_osc_clear: "strip_osc (clear_screen @ s) = clear_screen @ strip_osc s"
proof -
  have n: "chr 27 \<noteq> CHR ''H''" "chr 27 \<noteq> CHR ''J''" "chr 27 \<noteq> CHR ''2''" "chr 27 \<noteq> CHR ''[''" by (simp_all add: control_chars)
  have e: "strip_osc (chr 27 # CHR ''['' # r) = chr 27 # CHR ''['' # strip_osc r" for r
    using n by (simp add: strip_osc.simps [of "_ # _"] match_osc_def)
  have "strip_osc (CHR ''H'' # r) = CHR ''H'' # strip_osc r" "strip_osc (CHR ''2'' # CHR ''J'' # r) = CHR ''2'' # CHR ''J'' # strip_osc r" for r
    using n strip_osc_plain [of "''H''" r] strip_osc_plain [of "''2J''" r] by simp_all
  then show ?thesis by (simp add: clear_screen_def e)
qed

lemma strip_osc_title: "list_all osc_body t \<Longrightarrow> strip_osc (chr 27 # CHR '']'' # t @ chr 7 # s) = strip_osc s"
proof -
  assume t: "list_all osc_body t"
  have "dropWhile osc_body (t @ chr 7 # s) = chr 7 # s" using t by (subst dropWhile_append2) (auto simp: list_all_iff osc_body_def)
  then show ?thesis by (subst strip_osc.simps) (simp add: match_osc_def)
qed

lemma strip_clear_at:
  assumes "set n \<subseteq> {chr 10}"
  shows "strip_clear (n @ clear_screen @ s) = take 1 n @ strip_clear s"
proof -
  have c: "clear_screen @ s = chr 27 # tl clear_screen @ s" by (simp add: clear_screen_def)
  have "chr 27 \<noteq> chr 10" by (simp add: control_chars)
  then have "takeWhile (\<lambda>c. c = chr 10) (clear_screen @ s) = []" "dropWhile (\<lambda>c. c = chr 10) (clear_screen @ s) = clear_screen @ s"
    by (simp_all add: c)
  moreover have "x = chr 10" if "x \<in> set n" for x using assms that by blast
  ultimately have "takeWhile (\<lambda>c. c = chr 10) (n @ clear_screen @ s) = n" "dropWhile (\<lambda>c. c = chr 10) (n @ clear_screen @ s) = clear_screen @ s"
    by (simp_all add: takeWhile_append2 dropWhile_append2)
  then show ?thesis by (subst strip_clear.simps) (simp add: match_clear_def)
qed

lemma match_clear_plain:
  assumes "chr 27 \<notin> set p" "\<exists>x \<in> set p. x \<noteq> chr 10"
  shows "match_clear (p @ s) = None"
proof -
  let ?d = "dropWhile (\<lambda>c. c = chr 10) p"
  have d: "dropWhile (\<lambda>c. c = chr 10) (p @ s) = ?d @ s" using assms(2) by (auto intro: dropWhile_append1)
  have "?d \<noteq> []" using assms(2) by (simp add: dropWhile_eq_Nil_conv)
  then obtain e r where e: "?d = e # r" by (cases ?d) auto
  then have "e \<in> set p" by (metis list.set_intros(1) set_dropWhileD)
  then have "e \<noteq> chr 27" using assms(1) by blast
  then show ?thesis using d e by (simp add: match_clear_def clear_screen_def)
qed

lemma strip_clear_plain:
  assumes "chr 27 \<notin> set p" "p \<noteq> [] \<longrightarrow> last p \<noteq> chr 10"
  shows "strip_clear (p @ s) = p @ strip_clear s"
  using assms
proof (induction p)
  case (Cons c p)
  have "\<exists>x \<in> set (c # p). x \<noteq> chr 10" using Cons.prems(2) last_in_set by blast
  then have "match_clear ((c # p) @ s) = None" by (rule match_clear_plain [OF Cons.prems(1)])
  moreover have "strip_clear (p @ s) = p @ strip_clear s" using Cons.prems by (intro Cons.IH) (auto split: if_splits)
  ultimately show ?case by (simp add: strip_clear.simps [of "_ # _"])
qed simp

lemma strip_clear_none: "chr 27 \<notin> set p \<Longrightarrow> strip_clear p = p"
proof (induction p)
  case Nil
  then show ?case by (simp add: strip_clear.simps [of "[]"] match_clear_def clear_screen_def)
next
  case (Cons c p)
  have "dropWhile (\<lambda>c. c = chr 10) (c # p) \<noteq> chr 27 # r" for r
    using Cons.prems by (metis list.set_intros(1) set_dropWhileD)
  then have "match_clear (c # p) = None"
    by (cases "dropWhile (\<lambda>c. c = chr 10) (c # p)") (auto simp: match_clear_def clear_screen_def Let_def)
  then show ?case using Cons by (simp add: strip_clear.simps [of "_ # _"])
qed

lemma strip_charset_plain: "chr 27 \<notin> set p \<Longrightarrow> strip_charset (p @ s) = p @ strip_charset s"
proof (induction p)
  case (Cons c p)
  then have "match_charset (c # p @ s) = None" by (auto simp: match_charset_def split: list.splits)
  then show ?case using Cons by (simp add: strip_charset.simps [of "_ # _"])
qed simp

text \<open>The documented layout of a paint: a title, a clear, history, line breaks that push it into scrollback, a clear and the screen.\<close>
lemma core_reader_layout:
  assumes "list_all osc_body title" "chr 27 \<notin> set history" "history \<noteq> [] \<longrightarrow> last history \<noteq> chr 10" "chr 27 \<notin> set screen"
  shows "core_reader_ansi (chr 27 # CHR '']'' # title @ chr 7 # clear_screen @ history @ replicate (Suc k) (chr 10) @ clear_screen @ screen)
    = history @ chr 10 # screen"
proof -
  let ?n = "replicate (Suc k) (chr 10)"
  have n: "chr 27 \<notin> set ?n" "chr 27 \<notin> {chr 10}" by (simp_all add: control_chars)
  have nl: "set ?n \<subseteq> {chr 10}" by auto
  have nil: "strip_osc [] = []" "strip_clear [] = []" "strip_charset [] = []"
    by (simp_all add: strip_osc.simps [of "[]"] match_osc_def strip_clear.simps [of "[]"] match_clear_def clear_screen_def
        strip_charset.simps [of "[]"] match_charset_def)
  have o: "strip_osc (chr 27 # CHR '']'' # title @ chr 7 # clear_screen @ history @ ?n @ clear_screen @ screen)
      = clear_screen @ history @ ?n @ clear_screen @ screen"
    using strip_osc_plain [OF assms(4), of "[]"] nil
    by (simp only: strip_osc_title [OF assms(1)] strip_osc_clear strip_osc_plain [OF assms(2)] strip_osc_plain [OF n(1)]) simp
  have "strip_clear (clear_screen @ history @ ?n @ clear_screen @ screen) = history @ chr 10 # strip_clear screen"
    using strip_clear_at [of "[]" "history @ ?n @ clear_screen @ screen"] strip_clear_at [of ?n screen, OF nl] strip_clear_plain [OF assms(2,3), of "?n @ clear_screen @ screen"]
    by simp
  moreover have "strip_clear screen = screen" by (rule strip_clear_none [OF assms(4)])
  moreover have "strip_charset (history @ chr 10 # screen) = history @ chr 10 # screen"
    using strip_charset_plain [of "history @ chr 10 # screen" "[]"] assms(2,4) n nil by simp
  ultimately show ?thesis unfolding core_reader_ansi_def o by simp
qed

end
