(* ===== verification/NotifyTypes.thy ===== *)
theory NotifyTypes
  imports HerdrTypes Json Encoding
begin

text \<open>
  Notices: \<open>internal/notifications/types.go\<close> and the payload of \<open>sender.go\<close>.  A read is compared with the one
  before it; each change gives an event, with the names a notice may show.
\<close>

section \<open>Settings\<close>

record event_settings =
  es_working :: bool
  es_blocked :: bool
  es_error :: bool
  es_idle :: bool
  es_done :: bool
  es_unknown :: bool
  es_opened :: bool
  es_closed :: bool
  es_added :: bool
  es_removed :: bool
  es_shared :: bool

definition default_event_settings :: event_settings where
  "default_event_settings = \<lparr>es_working = False, es_blocked = True, es_error = True, es_idle = False, es_done = True, es_unknown = False,
     es_opened = False, es_closed = False, es_added = True, es_removed = True, es_shared = False\<rparr>"

text \<open>A \<open>bool\<close> and a \<open>*bool\<close> field of a decoded struct.\<close>
definition bool_of :: "json \<Rightarrow> bool option" where
  "bool_of v = (case v of JBool b \<Rightarrow> Some b | _ \<Rightarrow> None)"

definition bool_or_null :: "json \<Rightarrow> bool" where
  "bool_or_null v = (v = JNull \<or> bool_of v \<noteq> None)"

definition get_bool :: "string \<Rightarrow> fields \<Rightarrow> bool option" where
  "get_bool name fs =
     (let vs = entries name fs
      in if list_all bool_or_null vs
         then Some (bool_of (last_or_null (filter (\<lambda>v. bool_of v \<noteq> None) vs)) = Some True) else None)"

definition get_ptr_bool :: "string \<Rightarrow> fields \<Rightarrow> bool option option" where
  "get_ptr_bool name fs =
     (let vs = entries name fs
      in if list_all bool_or_null vs then Some (bool_of (last_or_null vs)) else None)"

definition settings_fields :: "string list" where
  "settings_fields = [''working'', ''blocked'', ''error'', ''idle'', ''done'', ''unknown'', ''workspace_opened'', ''workspace_closed'',
     ''trusted_sign_in_added'', ''trusted_sign_in_removed'', ''file_shared'']"

text \<open>\<open>DisallowUnknownFields\<close>.\<close>
definition known_fields :: "string list \<Rightarrow> fields \<Rightarrow> bool" where
  "known_fields names fs = list_all (\<lambda>(k, v). list_ex (\<lambda>n. fold_key k = fold_key n) names) fs"

definition or_on :: "bool option \<Rightarrow> bool" where
  "or_on b = (case b of Some v \<Rightarrow> v | None \<Rightarrow> True)"

definition decode_settings :: "fields \<Rightarrow> event_settings option" where
  "decode_settings fs =
     (case those (map (\<lambda>n. get_bool n fs) [''working'', ''blocked'', ''idle'', ''done'', ''unknown'', ''workspace_opened'', ''workspace_closed'', ''file_shared'']) of
        Some [w, b, i, d, u, op, cl, sh] \<Rightarrow>
          (case those (map (\<lambda>n. get_ptr_bool n fs) [''error'', ''trusted_sign_in_added'', ''trusted_sign_in_removed'']) of
             Some [er, ad, re] \<Rightarrow>
               Some \<lparr>es_working = w, es_blocked = b, es_error = or_on er, es_idle = i, es_done = d, es_unknown = u,
                  es_opened = op, es_closed = cl, es_added = or_on ad, es_removed = or_on re, es_shared = sh\<rparr>
           | _ \<Rightarrow> None)
      | _ \<Rightarrow> None)"

definition unmarshal_settings :: "json \<Rightarrow> event_settings option" where
  "unmarshal_settings v =
     (case struct_fields v of None \<Rightarrow> None
      | Some fs \<Rightarrow> if known_fields settings_fields fs then decode_settings fs else None)"

text \<open>How the settings are saved.\<close>
definition marshal_settings :: "event_settings \<Rightarrow> json" where
  "marshal_settings s = JObj (zip settings_fields (map JBool [es_working s, es_blocked s, es_error s, es_idle s, es_done s, es_unknown s,
     es_opened s, es_closed s, es_added s, es_removed s, es_shared s]))"

section \<open>Events\<close>

datatype event_kind = EventStatus | EventWorkspaceOpened | EventWorkspaceClosed | EventTrustedSignInAdded | EventTrustedSignInRemoved | EventFileShared

definition kind_text :: "event_kind \<Rightarrow> string" where
  "kind_text k = (case k of EventStatus \<Rightarrow> ''status'' | EventWorkspaceOpened \<Rightarrow> ''workspace_opened'' | EventWorkspaceClosed \<Rightarrow> ''workspace_closed''
     | EventTrustedSignInAdded \<Rightarrow> ''trusted_sign_in_added'' | EventTrustedSignInRemoved \<Rightarrow> ''trusted_sign_in_removed'' | EventFileShared \<Rightarrow> ''file_shared'')"

definition backend_tui :: string where "backend_tui = ''tui''"
definition backend_core :: string where "backend_core = ''core''"

record event =
  ev_kind :: event_kind
  ev_herdr :: string
  ev_status :: status
  ev_workspace :: string
  ev_given :: string
  ev_others :: bool
  ev_pane :: string
  ev_terminal :: string
  ev_destination :: string
  ev_trust :: string

definition plain_event :: "event_kind \<Rightarrow> string \<Rightarrow> event" where
  "plain_event k dest = \<lparr>ev_kind = k, ev_herdr = [], ev_status = [], ev_workspace = [], ev_given = [], ev_others = False,
     ev_pane = [], ev_terminal = [], ev_destination = dest, ev_trust = []\<rparr>"

text \<open>\<open>Event.selected\<close>.\<close>
definition selected :: "event_settings \<Rightarrow> event \<Rightarrow> bool" where
  "selected s e =
     (case ev_kind e of
        EventWorkspaceOpened \<Rightarrow> es_opened s
      | EventWorkspaceClosed \<Rightarrow> es_closed s
      | EventTrustedSignInAdded \<Rightarrow> es_added s
      | EventTrustedSignInRemoved \<Rightarrow> es_removed s
      | EventFileShared \<Rightarrow> es_shared s
      | EventStatus \<Rightarrow>
        if ev_status e = StatusWorking then es_working s
        else if ev_status e = StatusBlocked then es_blocked s
        else if ev_status e = StatusError then es_error s
        else if ev_status e = StatusIdle then es_idle s
        else if ev_status e = StatusDone then es_done s
        else if ev_status e = StatusUnknown then es_unknown s
        else False)"

section \<open>Names in notices\<close>

text \<open>What \<open>strings.Map\<close> makes of one rune: a space, nothing or itself.\<close>
definition clean_rune :: "nat \<Rightarrow> nat option" where
  "clean_rune r =
     (if is_space r then Some 32
      else if is_control r \<or> is_format r \<or> r = rune_error then None
      else Some r)"

definition clean_notification_text :: "string \<Rightarrow> string" where
  "clean_notification_text text = join_space (Utf8.fields (encode_runes (List.map_filter clean_rune (runes text))))"

definition notification_workspace_name :: "string \<Rightarrow> string" where
  "notification_workspace_name label =
     (let name = clean_notification_text label in if rune_count name > 160 then [] else name)"

definition single_workspace_name :: "workspace_info list \<Rightarrow> string" where
  "single_workspace_name ws = (case ws of [w] \<Rightarrow> notification_workspace_name (wi_label w) | _ \<Rightarrow> [])"

text \<open>The pane and the tab are missing when the read has none with that id.\<close>
definition given_name :: "string \<Rightarrow> pane_info option \<Rightarrow> tab_info option \<Rightarrow> string" where
  "given_name backend pane tab =
     (let label = (case tab of Some t \<Rightarrow> ti_label t | None \<Rightarrow> []);
          own = (case pane of Some p \<Rightarrow> pi_label p | None \<Rightarrow> None)
      in if backend = backend_core then label
         else case own of
           Some l \<Rightarrow> if trim_space l \<noteq> [] then l
             else (let t = trim_space label in if list_all is_digit t then [] else t)
         | None \<Rightarrow> (let t = trim_space label in if list_all is_digit t then [] else t))"

definition max_given_name_runes :: nat where "max_given_name_runes = 60"

definition notification_given_name :: "string \<Rightarrow> string" where
  "notification_given_name name =
     (let cleaned = clean_notification_text name
      in if rune_count cleaned > max_given_name_runes
         then trim_space (encode_runes (take (max_given_name_runes - 1) (runes cleaned))) @ encode_rune 0x2026
         else cleaned)"

definition notification_trust_label :: "string \<Rightarrow> string" where
  "notification_trust_label label =
     (let l = clean_notification_text label in if l = [] \<or> rune_count l > 160 then [] else l)"

definition terminal_key :: "string \<Rightarrow> string \<Rightarrow> string" where
  "terminal_key pane terminal = itoa (length pane) @ CHR '':'' # pane @ itoa (length terminal) @ CHR '':'' # terminal"

section \<open>Destinations\<close>

text \<open>\<open>url.QueryEscape\<close>.\<close>
definition upper_hex :: "nat \<Rightarrow> char" where
  "upper_hex v = (if v < 10 then chr (48 + v) else chr (55 + v))"

definition query_plain :: "char \<Rightarrow> bool" where
  "query_plain c \<longleftrightarrow> is_lower c \<or> is_upper c \<or> is_digit c \<or> c \<in> {CHR ''-'', CHR ''_'', CHR ''.'', CHR ''~''}"

definition query_escape_char :: "char \<Rightarrow> string" where
  "query_escape_char c =
     (if query_plain c then [c] else if c = CHR '' '' then ''+''
      else [CHR ''%'', upper_hex (byte c div 16), upper_hex (byte c mod 16)])"

definition query_escape :: "string \<Rightarrow> string" where
  "query_escape s = concat (map query_escape_char s)"

definition terminal_destination :: "string \<Rightarrow> string \<Rightarrow> string \<Rightarrow> string" where
  "terminal_destination pane terminal backend =
     ''/#terminal='' @ query_escape pane @ ''&terminal_id='' @ query_escape terminal @ ''&herdr='' @ query_escape backend"

section \<open>Comparing reads\<close>

record evaluator =
  sv_herdr :: string
  sv_previous :: "snapshot option"

definition last_by :: "('a \<Rightarrow> string) \<Rightarrow> 'a list \<Rightarrow> string \<rightharpoonup> 'a" where
  "last_by key xs = index_by key (rev xs)"

definition agent_key :: "agent_info \<Rightarrow> string" where
  "agent_key a = terminal_key (ai_pane a) (ai_terminal a)"

definition status_event :: "string \<Rightarrow> snapshot \<Rightarrow> agent_info \<Rightarrow> event" where
  "status_event backend sn a =
     \<lparr>ev_kind = EventStatus, ev_herdr = [], ev_status = ai_status a,
      ev_workspace = notification_workspace_name (case last_by wi_id (sn_workspaces sn) (ai_workspace a) of Some w \<Rightarrow> wi_label w | None \<Rightarrow> []),
      ev_given = notification_given_name (given_name backend (last_by pi_id (sn_panes sn) (ai_pane a)) (last_by ti_id (sn_tabs sn) (ai_tab a))),
      ev_others = (backend = backend_core \<and> ai_workspace a = ''other''),
      ev_pane = ai_pane a, ev_terminal = ai_terminal a,
      ev_destination = terminal_destination (ai_pane a) (ai_terminal a) backend, ev_trust = []\<rparr>"

definition agent_changed :: "snapshot \<Rightarrow> agent_info \<Rightarrow> bool" where
  "agent_changed previous a =
     (case last_by agent_key (sn_agents previous) (agent_key a) of None \<Rightarrow> False | Some prior \<Rightarrow> ai_status prior \<noteq> ai_status a)"

definition workspaces_not_in :: "workspace_info list \<Rightarrow> workspace_info list \<Rightarrow> workspace_info list" where
  "workspaces_not_in ws others = filter (\<lambda>w. wi_id w \<notin> wi_id ` set others) ws"

definition workspace_event :: "event_kind \<Rightarrow> workspace_info list \<Rightarrow> event list" where
  "workspace_event k ws = (if ws = [] then [] else [(plain_event k ''/'')\<lparr>ev_workspace := single_workspace_name ws\<rparr>])"

definition compare_reads :: "string \<Rightarrow> snapshot \<Rightarrow> snapshot \<Rightarrow> event list" where
  "compare_reads backend previous sn =
     map (status_event backend sn) (filter (agent_changed previous) (sn_agents sn))
     @ workspace_event EventWorkspaceOpened (workspaces_not_in (sn_workspaces sn) (sn_workspaces previous))
     @ workspace_event EventWorkspaceClosed (workspaces_not_in (sn_workspaces previous) (sn_workspaces sn))"

text \<open>\<open>snapshotEvaluator.Observe\<close>.\<close>
definition observe :: "snapshot \<Rightarrow> bool \<Rightarrow> evaluator \<Rightarrow> event list \<times> evaluator" where
  "observe sn baseline e =
     ((if baseline then [] else case sv_previous e of None \<Rightarrow> [] | Some previous \<Rightarrow> compare_reads (sv_herdr e) previous sn),
      e\<lparr>sv_previous := Some sn\<rparr>)"

text \<open>\<open>herdrObserver.ObserveSnapshot\<close>: the events it gives to the queue.\<close>
definition observe_snapshot :: "snapshot \<Rightarrow> bool \<Rightarrow> evaluator \<Rightarrow> event list \<times> evaluator" where
  "observe_snapshot sn baseline e =
     (case observe sn baseline e of (evs, e') \<Rightarrow> (map (\<lambda>ev. ev\<lparr>ev_herdr := sv_herdr e\<rparr>) evs, e'))"

section \<open>Shared files\<close>

text \<open>The body of the loop over panes: a later match overwrites what an earlier one found.\<close>
definition locate_shared :: "string \<Rightarrow> snapshot \<Rightarrow> pane_info \<Rightarrow> event \<Rightarrow> event" where
  "locate_shared backend sn p e =
     (let e1 = (case filter (\<lambda>w. wi_id w = pi_workspace p) (sn_workspaces sn) of [] \<Rightarrow> e
            | ws \<Rightarrow> e\<lparr>ev_workspace := notification_workspace_name (wi_label (last ws))\<rparr>);
          e2 = (case filter (\<lambda>t. ti_id t = pi_tab p) (sn_tabs sn) of [] \<Rightarrow> e1
            | ts \<Rightarrow> e1\<lparr>ev_given := notification_given_name (given_name backend (Some p) (Some (last ts)))\<rparr>)
      in e2\<lparr>ev_others := (backend = backend_core \<and> pi_workspace p = ''other'')\<rparr>)"

definition file_shared_event :: "string \<Rightarrow> snapshot \<Rightarrow> string \<Rightarrow> string \<Rightarrow> string \<Rightarrow> event" where
  "file_shared_event backend sn pane terminal source =
     (if backend = [] \<or> source = [] then plain_event EventFileShared ''/#shared''
      else fold (locate_shared backend sn) (filter (\<lambda>p. pi_id p = pane \<and> pi_terminal p = terminal) (sn_panes sn))
        ((plain_event EventFileShared (''/#shared&herdr='' @ query_escape backend @ ''&source='' @ query_escape source))
          \<lparr>ev_herdr := backend, ev_pane := pane, ev_terminal := terminal\<rparr>))"

section \<open>What is sent\<close>

record payload =
  py_destination :: string
  py_herdr :: string
  py_kind :: string
  py_name :: string
  py_trust :: string
  py_workspace :: string
  py_others :: bool
  py_pane :: string
  py_status :: string
  py_terminal :: string

definition event_payload :: "event \<Rightarrow> payload" where
  "event_payload e =
     (let named = ev_kind e \<in> {EventFileShared, EventStatus}; st = ev_kind e = EventStatus
      in \<lparr>py_destination = ev_destination e, py_herdr = ev_herdr e, py_kind = kind_text (ev_kind e),
          py_name = (if named then ev_given e else []), py_trust = ev_trust e, py_workspace = ev_workspace e,
          py_others = (named \<and> ev_others e), py_pane = (if st then ev_pane e else []),
          py_status = (if st then ev_status e else []), py_terminal = (if st then ev_terminal e else [])\<rparr>)"

datatype send_outcome = SendFailed | SendAccepted | SendGone

text \<open>What \<open>Send\<close> makes of the answer; \<open>None\<close> is a request the push library could not complete.\<close>
definition outcome_of :: "nat option \<Rightarrow> send_outcome" where
  "outcome_of status =
     (case status of None \<Rightarrow> SendFailed
      | Some n \<Rightarrow> if n = 404 \<or> n = 410 then SendGone else if 200 \<le> n \<and> n < 300 then SendAccepted else SendFailed)"

definition max_payload_bytes :: nat where "max_payload_bytes = 2 * 1024"

text \<open>\<open>Send\<close>: \<open>encode\<close> is \<open>json.Marshal\<close> on the payload and \<open>push\<close> the third-party push library.\<close>
definition send_notice :: "(payload \<Rightarrow> string option) \<Rightarrow> (string \<Rightarrow> nat option) \<Rightarrow> event \<Rightarrow> send_outcome" where
  "send_notice encode push e =
     (case encode (event_payload e) of None \<Rightarrow> SendFailed
      | Some text \<Rightarrow> if length text > max_payload_bytes then SendFailed else outcome_of (push text))"

definition library_contact :: "string \<Rightarrow> string" where
  "library_contact contact = trim_prefix contact ''mailto:''"

end
