(* ===== verification/NotifyEndpoint.thy ===== *)
theory NotifyEndpoint
  imports GoNet Encoding
begin

text \<open>
  Where notices may be sent: \<open>internal/notifications/endpoint.go\<close>.  Addresses are words: 32 bits for IPv4 and
  128 bits for IPv6.  What a name resolves to and the connections of the system are the environment's.
\<close>

type_synonym u8 = "8 word"
type_synonym ip4 = "32 word"
type_synonym ip6 = "128 word"

section \<open>Addresses (\<open>net/netip\<close>)\<close>

datatype addr = A4 ip4 | A6 ip6

text \<open>\<open>net.IP\<close> is a slice of bytes; \<open>netip.AddrFromSlice\<close> takes those of 4 and of 16 bytes.\<close>
definition addr_from_slice :: "u8 list \<Rightarrow> addr option" where
  "addr_from_slice bs =
     (if length bs = 4 then Some (A4 (word_rcat bs)) else if length bs = 16 then Some (A6 (word_rcat bs)) else None)"

definition unmap :: "addr \<Rightarrow> addr" where
  "unmap a = (case a of A6 w \<Rightarrow> if drop_bit 32 w = 0xFFFF then A4 (ucast w) else a | A4 _ \<Rightarrow> a)"

text \<open>A prefix is an address and a number of leading bits; it contains only addresses of its family.\<close>
definition prefix_contains :: "addr \<times> nat \<Rightarrow> addr \<Rightarrow> bool" where
  "prefix_contains p a =
     (case (fst p, a) of
        (A4 v, A4 w) \<Rightarrow> drop_bit (32 - snd p) w = drop_bit (32 - snd p) v
      | (A6 v, A6 w) \<Rightarrow> drop_bit (128 - snd p) w = drop_bit (128 - snd p) v
      | _ \<Rightarrow> False)"

definition is_global_unicast :: "addr \<Rightarrow> bool" where
  "is_global_unicast a =
     (case a of
        A4 w \<Rightarrow> w \<noteq> 0 \<and> w \<noteq> 0xFFFFFFFF \<and> drop_bit 24 w \<noteq> 127 \<and> drop_bit 28 w \<noteq> 0xE \<and> drop_bit 16 w \<noteq> 0xA9FE
      | A6 w \<Rightarrow> w \<noteq> 0 \<and> w \<noteq> 1 \<and> drop_bit 120 w \<noteq> 0xFF \<and> drop_bit 118 w \<noteq> 0x3FA)"

section \<open>The policy\<close>

definition ip4_of :: "nat \<Rightarrow> nat \<Rightarrow> nat \<Rightarrow> nat \<Rightarrow> ip4" where
  "ip4_of a b c d = of_nat (((a * 256 + b) * 256 + c) * 256 + d)"

definition ip6_of :: "nat list \<Rightarrow> ip6" where
  "ip6_of gs = of_nat (foldl (\<lambda>n g. n * 65536 + g) 0 gs)"

definition nonpublic_prefixes :: "(addr \<times> nat) list" where
  "nonpublic_prefixes =
    [(A4 (ip4_of 0 0 0 0), 8), (A4 (ip4_of 10 0 0 0), 8), (A4 (ip4_of 100 64 0 0), 10), (A4 (ip4_of 127 0 0 0), 8),
     (A4 (ip4_of 169 254 0 0), 16), (A4 (ip4_of 172 16 0 0), 12), (A4 (ip4_of 192 0 0 0), 24), (A4 (ip4_of 192 0 2 0), 24),
     (A4 (ip4_of 192 88 99 0), 24), (A4 (ip4_of 192 168 0 0), 16), (A4 (ip4_of 198 18 0 0), 15), (A4 (ip4_of 198 51 100 0), 24),
     (A4 (ip4_of 203 0 113 0), 24), (A4 (ip4_of 224 0 0 0), 4), (A4 (ip4_of 240 0 0 0), 4),
     (A6 (ip6_of [0, 0, 0, 0, 0, 0, 0, 0]), 96), (A6 (ip6_of [0x64, 0xFF9B, 1, 0, 0, 0, 0, 0]), 48),
     (A6 (ip6_of [0x100, 0, 0, 0, 0, 0, 0, 0]), 64), (A6 (ip6_of [0x100, 0, 0, 1, 0, 0, 0, 0]), 64),
     (A6 (ip6_of [0x2001, 0, 0, 0, 0, 0, 0, 0]), 23), (A6 (ip6_of [0x2001, 0xDB8, 0, 0, 0, 0, 0, 0]), 32),
     (A6 (ip6_of [0x2002, 0, 0, 0, 0, 0, 0, 0]), 16), (A6 (ip6_of [0x3FFF, 0, 0, 0, 0, 0, 0, 0]), 20),
     (A6 (ip6_of [0x5F00, 0, 0, 0, 0, 0, 0, 0]), 16), (A6 (ip6_of [0xFC00, 0, 0, 0, 0, 0, 0, 0]), 7),
     (A6 (ip6_of [0xFEC0, 0, 0, 0, 0, 0, 0, 0]), 10), (A6 (ip6_of [0xFE80, 0, 0, 0, 0, 0, 0, 0]), 10),
     (A6 (ip6_of [0xFF00, 0, 0, 0, 0, 0, 0, 0]), 8)]"

definition allocated_unicast :: "addr \<times> nat" where
  "allocated_unicast = (A6 (ip6_of [0x2000, 0, 0, 0, 0, 0, 0, 0]), 3)"

definition nat64_prefix :: "addr \<times> nat" where
  "nat64_prefix = (A6 (ip6_of [0x64, 0xFF9B, 0, 0, 0, 0, 0, 0]), 96)"

definition embedded_ip4 :: "addr \<Rightarrow> addr" where
  "embedded_ip4 a =
     (if prefix_contains nat64_prefix a then (case a of A6 w \<Rightarrow> A4 (ucast w) | A4 _ \<Rightarrow> a) else a)"

definition is6 :: "addr \<Rightarrow> bool" where "is6 a = (case a of A6 _ \<Rightarrow> True | A4 _ \<Rightarrow> False)"

text \<open>The policy on an address, and \<open>publiclyRoutableIP\<close>.\<close>
definition routable :: "addr \<Rightarrow> bool" where
  "routable a \<longleftrightarrow> \<not> list_ex (\<lambda>p. prefix_contains p a) nonpublic_prefixes \<and> is_global_unicast a
     \<and> (is6 a \<longrightarrow> prefix_contains allocated_unicast a)"

definition publicly_routable :: "u8 list \<Rightarrow> bool" where
  "publicly_routable ip = (case addr_from_slice ip of None \<Rightarrow> False | Some a \<Rightarrow> routable (embedded_ip4 (unmap a)))"

section \<open>\<open>net.ParseIP\<close>\<close>

definition hex_nat :: "string \<Rightarrow> nat" where
  "hex_nat s = foldl (\<lambda>n c. n * 16 + (case hex_val c of Some v \<Rightarrow> v | None \<Rightarrow> 0)) 0 s"

text \<open>The loop of \<open>parseIPv6\<close>: the groups read so far and where the ellipsis was.  A group has one to four hexadecimal digits; an
  embedded IPv4 address ends the text.\<close>
function parse_groups :: "string \<Rightarrow> nat list \<Rightarrow> nat option \<Rightarrow> (nat list \<times> nat option \<times> string) option" where
  "parse_groups s gs ell =
     (if length gs \<ge> 8 then Some (gs, ell, s)
      else let digits = takeWhile (\<lambda>c. hex_val c \<noteq> None) s; r = dropWhile (\<lambda>c. hex_val c \<noteq> None) s
        in if digits = [] \<or> length digits > 4 then None
           else (case r of
             [] \<Rightarrow> Some (gs @ [hex_nat digits], ell, [])
           | c # r1 \<Rightarrow>
             if c = CHR ''.'' then
               (if ell = None \<and> length gs \<noteq> 6 \<or> length gs > 6 then None
                else (case parse_ipv4 s of None \<Rightarrow> None
                  | Some (a, b, c', d) \<Rightarrow> Some (gs @ [a * 256 + b, c' * 256 + d], ell, [])))
             else if c \<noteq> CHR '':'' \<or> r1 = [] then None
             else if hd r1 = CHR '':'' then
               (if ell \<noteq> None then None
                else if tl r1 = [] then Some (gs @ [hex_nat digits], Some (Suc (length gs)), [])
                else parse_groups (tl r1) (gs @ [hex_nat digits]) (Some (Suc (length gs))))
             else parse_groups r1 (gs @ [hex_nat digits]) ell))"
  by pat_completeness auto
termination
  by (relation "measure (\<lambda>(s, gs, ell). 8 - length gs)") auto

declare parse_groups.simps [simp del]

definition expand_groups :: "nat list \<times> nat option \<times> string \<Rightarrow> nat list option" where
  "expand_groups p =
     (case p of (gs, ell, rest) \<Rightarrow>
        if rest \<noteq> [] then None
        else if length gs < 8 then
          (case ell of None \<Rightarrow> None
           | Some k \<Rightarrow> Some (take k gs @ replicate (8 - length gs) 0 @ drop k gs))
        else if ell \<noteq> None then None else Some gs)"

definition parse_ipv6 :: "string \<Rightarrow> ip6 option" where
  "parse_ipv6 s =
     (if CHR ''%'' \<in> set s then None
      else if has_prefix s ''::'' then
        (if drop 2 s = [] then Some 0
         else map_option ip6_of (Option.bind (parse_groups (drop 2 s) [] (Some 0)) expand_groups))
      else map_option ip6_of (Option.bind (parse_groups s [] None) expand_groups))"

definition ip_bytes :: "ip6 \<Rightarrow> u8 list" where
  "ip_bytes w = map (\<lambda>i. ucast (drop_bit (8 * (15 - i)) w)) [0..<16]"

text \<open>The form of an address is decided by its first dot, colon or percent sign; an IPv4 address is given in its mapped form.\<close>
definition parse_ip :: "string \<Rightarrow> u8 list option" where
  "parse_ip s =
     (case find (\<lambda>c. c \<in> {CHR ''.'', CHR '':'', CHR ''%''}) s of
        None \<Rightarrow> None
      | Some c \<Rightarrow>
        if c = CHR ''.'' then
          map_option (\<lambda>(a, b, c, d). replicate 10 0 @ [0xFF, 0xFF, of_nat a, of_nat b, of_nat c, of_nat d]) (parse_ipv4 s)
        else if c = CHR '':'' then map_option ip_bytes (parse_ipv6 s) else None)"

section \<open>Endpoints\<close>

datatype endpoint_error = BadEndpoint | EndpointNotHTTPS | EndpointQuery | NotPublic | ResolveFailed | NoAddresses | BadDestination | DialFailed

definition max_endpoint_length :: nat where "max_endpoint_length = 2048"

definition https_url :: "string \<Rightarrow> url option" where
  "https_url s =
     (case url_parse s of None \<Rightarrow> None
      | Some u \<Rightarrow> if scheme u \<noteq> ''https'' \<or> host u = [] \<or> hostname u = [] \<or> user u \<noteq> None \<or> fragment u \<noteq> [] then None else Some u)"

definition validate_endpoint_url :: "string \<Rightarrow> endpoint_error + url" where
  "validate_endpoint_url e =
     (if e = [] \<or> length e > max_endpoint_length \<or> trim_space e \<noteq> e then Inl BadEndpoint
      else case https_url e of None \<Rightarrow> Inl EndpointNotHTTPS
      | Some u \<Rightarrow> if raw_query u \<noteq> [] \<and> length (raw_query u) > 1024 then Inl EndpointQuery else Inr u)"

text \<open>What the resolver answers for a name.\<close>
type_synonym resolver = "string \<Rightarrow> u8 list list option"

definition safe_addresses :: "resolver \<Rightarrow> string \<Rightarrow> endpoint_error + u8 list list" where
  "safe_addresses resolve name =
     (case parse_ip name of
        Some ip \<Rightarrow> if publicly_routable ip then Inr [ip] else Inl NotPublic
      | None \<Rightarrow>
        (case resolve name of None \<Rightarrow> Inl ResolveFailed
         | Some as \<Rightarrow> if as = [] then Inl NoAddresses
           else if \<not> list_all publicly_routable as then Inl NotPublic
           else Inr as))"

definition validate_endpoint :: "resolver \<Rightarrow> string \<Rightarrow> endpoint_error + unit" where
  "validate_endpoint resolve e =
     (case validate_endpoint_url e of Inl x \<Rightarrow> Inl x
      | Inr u \<Rightarrow> (case safe_addresses resolve (hostname u) of Inl x \<Rightarrow> Inl x | Inr _ \<Rightarrow> Inr ()))"

text \<open>\<open>safeDialer.DialContext\<close>: the host is resolved here, and only the addresses of this answer are dialled, in their order.  The
  result lists the addresses that were dialled.\<close>
fun dial_all :: "(u8 list \<Rightarrow> 'c option) \<Rightarrow> u8 list list \<Rightarrow> u8 list list \<times> 'c option" where
  "dial_all dial [] = ([], None)"
| "dial_all dial (a # as) =
     (case dial a of Some c \<Rightarrow> ([a], Some c)
      | None \<Rightarrow> (case dial_all dial as of (tried, r) \<Rightarrow> (a # tried, r)))"

definition safe_dial :: "resolver \<Rightarrow> (u8 list \<Rightarrow> 'c option) \<Rightarrow> (string \<times> string) option \<Rightarrow> u8 list list \<times> (endpoint_error + 'c)" where
  "safe_dial resolve dial address =
     (case address of None \<Rightarrow> ([], Inl BadDestination)
      | Some (hst, prt) \<Rightarrow>
        (case safe_addresses resolve hst of Inl e \<Rightarrow> ([], Inl e)
         | Inr as \<Rightarrow> (case dial_all dial as of (tried, Some c) \<Rightarrow> (tried, Inr c) | (tried, None) \<Rightarrow> (tried, Inl DialFailed))))"

end
