(* ===== verification/P256.thy ===== *)
theory P256
  imports GoStrings
begin

text \<open>
  The curve P-256 of Go's \<open>crypto/elliptic\<close>, as far as the code uses it: the points of the curve, multiples of
  the base point, and the uncompressed form of a point.  \<open>None\<close> is the point at infinity.
\<close>

definition p256_p :: int where "p256_p = 2 ^ 256 - 2 ^ 224 + 2 ^ 192 + 2 ^ 96 - 1"
definition p256_n :: nat where "p256_n = 0xFFFFFFFF00000000FFFFFFFFFFFFFFFFBCE6FAADA7179E84F3B9CAC2FC632551"
definition p256_b :: int where "p256_b = 0x5AC635D8AA3A93E7B3EBBD55769886BC651D06B0CC53B0F63BCE3C3E27D2604B"

type_synonym point = "(int \<times> int) option"

definition p256_g :: "int \<times> int" where
  "p256_g = (0x6B17D1F2E12C4247F8BCE6E563A440F277037D812DEB33A0F4A13945D898C296,
             0x4FE342E2FE1A7F9B8EE7EB4A7C0F9E162BCE33576B315ECECBB6406837BF51F5)"

definition on_curve :: "int \<times> int \<Rightarrow> bool" where
  "on_curve q \<longleftrightarrow> (case q of (x, y) \<Rightarrow> 0 \<le> x \<and> x < p256_p \<and> 0 \<le> y \<and> y < p256_p
     \<and> (y * y) mod p256_p = (x * x * x - 3 * x + p256_b) mod p256_p)"

section \<open>Multiples of a point\<close>

function pow_mod :: "int \<Rightarrow> nat \<Rightarrow> int" where
  "pow_mod a k =
     (if k = 0 then 1
      else let h = pow_mod (a * a mod p256_p) (k div 2) in if k mod 2 = 1 then a * h mod p256_p else h)"
  by pat_completeness auto
termination by (relation "measure snd") auto

declare pow_mod.simps [simp del]

text \<open>The inverse in the field, by Fermat's theorem.\<close>
definition inv_mod :: "int \<Rightarrow> int" where "inv_mod a = pow_mod (a mod p256_p) (nat (p256_p - 2))"

definition add_slope :: "int \<Rightarrow> int \<times> int \<Rightarrow> int \<times> int \<Rightarrow> int \<times> int" where
  "add_slope l p q = (case (p, q) of ((x1, y1), (x2, y2)) \<Rightarrow>
     let x3 = (l * l - x1 - x2) mod p256_p in (x3, (l * (x1 - x3) - y1) mod p256_p))"

definition point_double :: "point \<Rightarrow> point" where
  "point_double p =
     (case p of None \<Rightarrow> None
      | Some (x, y) \<Rightarrow> if y = 0 then None
        else Some (add_slope ((3 * x * x - 3) * inv_mod (2 * y) mod p256_p) (x, y) (x, y)))"

definition point_add :: "point \<Rightarrow> point \<Rightarrow> point" where
  "point_add p q =
     (case (p, q) of (None, _) \<Rightarrow> q | (_, None) \<Rightarrow> p
      | (Some (x1, y1), Some (x2, y2)) \<Rightarrow>
        if x1 = x2 then (if y1 = y2 then point_double p else None)
        else Some (add_slope ((y2 - y1) * inv_mod (x2 - x1) mod p256_p) (x1, y1) (x2, y2)))"

function point_mult :: "nat \<Rightarrow> point \<Rightarrow> point" where
  "point_mult k p =
     (if k = 0 then None
      else let h = point_mult (k div 2) (point_double p) in if k mod 2 = 1 then point_add p h else h)"
  by pat_completeness auto
termination by (relation "measure fst") auto

declare point_mult.simps [simp del]

text \<open>\<open>ScalarBaseMult\<close> of the big-endian scalar.\<close>
definition base_mult :: "nat \<Rightarrow> point" where "base_mult k = point_mult k (Some p256_g)"

section \<open>Bytes\<close>

definition be_nat :: "string \<Rightarrow> nat" where "be_nat s = foldl (\<lambda>n c. n * 256 + byte c) 0 s"

definition be_bytes :: "nat \<Rightarrow> nat \<Rightarrow> string" where
  "be_bytes len n = map (\<lambda>i. chr (n div 256 ^ (len - 1 - i) mod 256)) [0..<len]"

text \<open>\<open>elliptic.Marshal\<close> and \<open>elliptic.Unmarshal\<close>.\<close>
definition marshal_point :: "int \<times> int \<Rightarrow> string" where
  "marshal_point q = chr 4 # be_bytes 32 (nat (fst q)) @ be_bytes 32 (nat (snd q))"

definition unmarshal_point :: "string \<Rightarrow> (int \<times> int) option" where
  "unmarshal_point s =
     (if length s \<noteq> 65 \<or> hd s \<noteq> chr 4 then None
      else let q = (int (be_nat (take 32 (tl s))), int (be_nat (drop 32 (tl s))))
        in if on_curve q then Some q else None)"

lemma base_mult_one: "base_mult 1 = Some p256_g"
  unfolding base_mult_def by (subst point_mult.simps, subst point_mult.simps) (simp add: point_add_def p256_g_def)

lemma p256_g_on_curve: "on_curve p256_g"
proof -
  have "fst p256_g = X \<Longrightarrow> snd p256_g = Y \<Longrightarrow> Y * Y - (X * X * X - 3 * X + p256_b) = p256_p * (-981570988164258562257936101525215858910690391106138407341175333813841188485201771743408849884010754226965632845910189239885256093057339116530079505515608)" for X Y
    by (simp add: p256_g_def p256_p_def p256_b_def)
  then have "p256_p dvd snd p256_g * snd p256_g - (fst p256_g * fst p256_g * fst p256_g - 3 * fst p256_g + p256_b)" by (simp add: dvdI)
  then show ?thesis by (simp add: on_curve_def mod_eq_dvd_iff split_def) (simp add: p256_g_def p256_p_def)
qed

section \<open>The round trip of a point\<close>

lemma be_nat_snoc: "be_nat (s @ [c]) = be_nat s * 256 + byte c"
  by (simp add: be_nat_def)

lemma be_bytes_Suc: "be_bytes (Suc len) n = be_bytes len (n div 256) @ [chr (n mod 256)]"
proof -
  have "map (\<lambda>i. chr (n div 256 ^ (len - i) mod 256)) [0..<len] = map (\<lambda>i. chr (n div 256 div 256 ^ (len - 1 - i) mod 256)) [0..<len]"
  proof (rule map_cong [OF refl])
    fix i assume "i \<in> set [0..<len]"
    then have "len - i = Suc (len - 1 - i)" by auto
    then have "n div 256 ^ (len - i) = n div (256 * 256 ^ (len - 1 - i))" by simp
    then show "chr (n div 256 ^ (len - i) mod 256) = chr (n div 256 div 256 ^ (len - 1 - i) mod 256)" by (simp only: div_mult2_eq)
  qed
  then show ?thesis by (simp add: be_bytes_def)
qed

lemma be_nat_bytes: "n < 256 ^ len \<Longrightarrow> be_nat (be_bytes len n) = n"
proof (induction len arbitrary: n)
  case 0
  then show ?case by (simp add: be_nat_def be_bytes_def)
next
  case (Suc len)
  then have "n div 256 < 256 ^ len" by (simp add: div_less_iff_less_mult mult.commute)
  then show ?case by (simp add: be_bytes_Suc be_nat_snoc Suc.IH)
qed

lemma length_be_bytes [simp]: "length (be_bytes len n) = len"
  by (simp add: be_bytes_def)

lemma unmarshal_marshal:
  assumes "on_curve q"
  shows "unmarshal_point (marshal_point q) = Some q"
proof -
  obtain x y where q: "q = (x, y)" by (cases q)
  have p: "p256_p < 256 ^ 32" by (simp add: p256_p_def)
  from assms q have b: "0 \<le> x" "x < 256 ^ 32" "0 \<le> y" "y < 256 ^ 32" using p by (auto simp: on_curve_def)
  then have "nat x < 256 ^ 32" "nat y < 256 ^ 32" by (simp_all add: nat_less_iff)
  then have "int (be_nat (be_bytes 32 (nat x))) = x" "int (be_nat (be_bytes 32 (nat y))) = y" using b by (simp_all add: be_nat_bytes)
  then show ?thesis using assms q by (simp add: unmarshal_point_def marshal_point_def Let_def)
qed

end
