(* ===== verification/NotifyStore.thy ===== *)
theory NotifyStore
  imports Complex_Main NotifyTypes NotifyEndpoint P256 StateFile
begin

text \<open>
  The notification state: \<open>internal/notifications/store.go\<close>.  One private file holds the keys and the subscriptions;
  every change writes the file first and then the memory.  Go's \<open>net/mail\<close> parser and the text \<open>url.URL\<close> gives
  back are parameters.
\<close>

section \<open>The state\<close>

text \<open>A \<open>float64\<close>: the finite ones are rationals.\<close>
datatype float64 = Finite rat | PosInf | NegInf | NaN

record subscription =
  sb_endpoint :: string
  sb_expiration :: "float64 option"
  sb_auth :: string
  sb_p256dh :: string
  sb_events :: event_settings
  sb_trust :: string

record notify_state =
  ns_version :: int
  ns_contact :: string
  ns_private :: string
  ns_public :: string
  ns_subscriptions :: "subscription list"

definition state_version :: int where "state_version = 3"
definition legacy_state_version :: int where "legacy_state_version = 1"
definition owned_state_version :: int where "owned_state_version = 2"
definition max_subscriptions :: nat where "max_subscriptions = 256"

datatype sub_error = SubEndpoint endpoint_error | SubExpiration | SubAuth | SubKey | SubCurve

datatype notify_error =
    NotConfigured | LimitReached | OwnerRequired | OtherOwner | NotifyIo io_error | BadContact | BadMailContact | BadVersion
  | StateContact | StatePrivateKey | StatePublicKey | KeysDoNotMatch | TooManySubscriptions | DuplicateSubscription
  | BadSubscription sub_error | BadOwner | KeyGeneration | NotifyDecode

text \<open>The parts of the library left as parameters: the address \<open>mail.ParseAddress\<close> finds and the text of a parsed URL.\<close>
record notify_lib =
  nl_mail :: "string \<Rightarrow> string option"
  nl_url_text :: "url \<Rightarrow> string"

section \<open>Checks\<close>

definition validate_contact :: "notify_lib \<Rightarrow> string \<Rightarrow> notify_error + string" where
  "validate_contact lib v =
     (if v = [] \<or> length v > 2048 \<or> trim_space v \<noteq> v then Inl BadContact
      else if has_prefix v ''mailto:'' then
        (let a = trim_prefix v ''mailto:''
         in if a = [] \<or> (\<exists>c \<in> set a. c \<in> {CHR ''?'', CHR ''#''}) then Inl BadMailContact
            else if nl_mail lib a \<noteq> Some a \<or> CHR ''@'' \<notin> set a then Inl BadMailContact
            else Inr v)
      else (case https_url v of None \<Rightarrow> Inl BadContact | Some u \<Rightarrow> Inr (nl_url_text lib u)))"

text \<open>\<open>base64.URLEncoding\<close>: a full last group, padded with one or two equals signs.\<close>
definition b64_decode_padded :: "string \<Rightarrow> string option" where
  "b64_decode_padded s =
     (let t = filter (\<lambda>c. c \<noteq> chr 10 \<and> c \<noteq> chr 13) s
      in if length t mod 4 \<noteq> 0 then None
         else if has_suffix t ''=='' then b64_decode (take (length t - 2) t)
         else if has_suffix t ''='' then b64_decode (butlast t)
         else b64_decode t)"

definition decode_url_base64 :: "string \<Rightarrow> string option" where
  "decode_url_base64 v =
     (if v = [] \<or> length v > 256 then None
      else case b64_decode v of Some bs \<Rightarrow> Some bs | None \<Rightarrow> b64_decode_padded v)"

definition bad_expiration :: "float64 \<Rightarrow> bool" where
  "bad_expiration f = (case f of Finite q \<Rightarrow> q < 0 | _ \<Rightarrow> True)"

definition validate_subscription_shape :: "subscription \<Rightarrow> sub_error + unit" where
  "validate_subscription_shape s =
     (case validate_endpoint_url (sb_endpoint s) of Inl e \<Rightarrow> Inl (SubEndpoint e)
      | Inr _ \<Rightarrow>
        if (case sb_expiration s of Some f \<Rightarrow> bad_expiration f | None \<Rightarrow> False) then Inl SubExpiration
        else if (case decode_url_base64 (sb_auth s) of Some bs \<Rightarrow> length bs \<noteq> 16 | None \<Rightarrow> True) then Inl SubAuth
        else (case decode_url_base64 (sb_p256dh s) of None \<Rightarrow> Inl SubKey
          | Some bs \<Rightarrow>
            if length bs \<noteq> 65 \<or> hd bs \<noteq> chr 4 then Inl SubKey
            else if unmarshal_point bs = None then Inl SubCurve
            else Inr ()))"

definition owner_ok :: "int \<Rightarrow> string \<Rightarrow> bool" where
  "owner_ok version t \<longleftrightarrow> \<not> (version \<ge> owned_state_version \<and> t \<noteq> []) \<or> (case b64_decode t of Some bs \<Rightarrow> length bs = 16 | None \<Rightarrow> False)"

fun check_subscriptions :: "int \<Rightarrow> subscription list \<Rightarrow> string list \<Rightarrow> notify_error + unit" where
  "check_subscriptions version [] seen = Inr ()"
| "check_subscriptions version (s # ss) seen =
     (if sb_endpoint s \<in> set seen then Inl DuplicateSubscription
      else case validate_subscription_shape s of Inl e \<Rightarrow> Inl (BadSubscription e)
      | Inr _ \<Rightarrow> if \<not> owner_ok version (sb_trust s) then Inl BadOwner
        else check_subscriptions version ss (sb_endpoint s # seen))"

definition validate_notify_state :: "notify_lib \<Rightarrow> notify_state \<Rightarrow> notify_error + unit" where
  "validate_notify_state lib st =
     (if ns_version st \<noteq> state_version \<and> ns_version st \<noteq> owned_state_version \<and> ns_version st \<noteq> legacy_state_version then Inl BadVersion
      else if validate_contact lib (ns_contact st) \<noteq> Inr (ns_contact st) then Inl StateContact
      else case b64_decode (ns_private st) of None \<Rightarrow> Inl StatePrivateKey
      | Some priv \<Rightarrow>
        if length priv \<noteq> 32 then Inl StatePrivateKey
        else if be_nat priv = 0 \<or> be_nat priv \<ge> p256_n then Inl StatePrivateKey
        else (case b64_decode (ns_public st) of None \<Rightarrow> Inl StatePublicKey
          | Some pub \<Rightarrow>
            if length pub \<noteq> 65 \<or> hd pub \<noteq> chr 4 then Inl StatePublicKey
            else if Some pub \<noteq> map_option marshal_point (base_mult (be_nat priv)) then Inl KeysDoNotMatch
            else if length (ns_subscriptions st) > max_subscriptions then Inl TooManySubscriptions
            else check_subscriptions (ns_version st) (ns_subscriptions st) []))"

section \<open>The store\<close>

record notify_store =
  no_state :: "notify_state option"
  no_err :: "notify_error option"
  no_disk :: "notify_state disk"

definition save_state :: "faults \<Rightarrow> notify_state \<Rightarrow> notify_store \<Rightarrow> (notify_error + unit) \<times> notify_store" where
  "save_state io st s =
     (case notify_write_state io st (no_disk s) of
        (Inl e, d) \<Rightarrow> (Inl (NotifyIo e), s\<lparr>no_disk := d\<rparr>)
      | (Inr _, d) \<Rightarrow> (Inr (), s\<lparr>no_state := Some st, no_disk := d\<rparr>))"

text \<open>\<open>readState\<close>.\<close>
definition read_notify_state :: "notify_lib \<Rightarrow> faults \<Rightarrow> notify_state disk \<Rightarrow> notify_error + notify_state" where
  "read_notify_state lib io d =
     (case fst (ensure_private_directory io False d) of Inl e \<Rightarrow> Inl (NotifyIo e)
      | Inr _ \<Rightarrow>
        (case open_private_regular io d of Inl e \<Rightarrow> Inl (NotifyIo e)
         | Inr st \<Rightarrow>
           if io ReadFile then Inl (NotifyIo (IoFailed ReadFile))
           else if io TooLarge then Inl (NotifyIo (IoFailed TooLarge))
           else if io Marshal then Inl NotifyDecode
           else (case validate_notify_state lib st of Inl e \<Rightarrow> Inl e | Inr _ \<Rightarrow> Inr st)))"

definition failed_store :: "notify_error \<Rightarrow> notify_state disk \<Rightarrow> notify_store" where
  "failed_store e d = \<lparr>no_state = None, no_err = Some e, no_disk = d\<rparr>"

text \<open>The faults of the read and of the three writes of an opening, and the keys the library makes.\<close>
record open_notify_env =
  on_read :: faults
  on_create :: faults
  on_upgrade :: faults
  on_contact :: faults
  on_keys :: "(string \<times> string) option"

definition upgrade_subscription :: "subscription \<Rightarrow> subscription" where
  "upgrade_subscription s = s\<lparr>sb_events := (sb_events s)\<lparr>es_added := True, es_removed := True\<rparr>\<rparr>"

definition initial_notify_state :: "string \<Rightarrow> string \<times> string \<Rightarrow> notify_state" where
  "initial_notify_state contact keys = \<lparr>ns_version = state_version, ns_contact = contact, ns_private = fst keys, ns_public = snd keys, ns_subscriptions = []\<rparr>"

text \<open>The first part of \<open>OpenStore\<close>: the state read or made, if there is one, and the disk.\<close>
definition load_state :: "notify_lib \<Rightarrow> open_notify_env \<Rightarrow> string \<Rightarrow> notify_state disk \<Rightarrow> (notify_error + notify_state option) \<times> notify_state disk" where
  "load_state lib env contact d =
     (case read_notify_state lib (on_read env) d of
        Inr st \<Rightarrow> (Inr (Some st), d)
      | Inl e \<Rightarrow>
        if e \<noteq> NotifyIo NotExist then (Inl e, d)
        else if contact = [] then (Inr None, d)
        else (case on_keys env of None \<Rightarrow> (Inl KeyGeneration, d)
          | Some keys \<Rightarrow>
            (case notify_write_state (on_create env) (initial_notify_state contact keys) d of
               (Inl x, d1) \<Rightarrow> (Inl (NotifyIo x), d1)
             | (Inr _, d1) \<Rightarrow> (Inr (Some (initial_notify_state contact keys)), d1))))"

text \<open>The state of an older version is brought up to date.\<close>
definition upgrade_state :: "notify_lib \<Rightarrow> faults \<Rightarrow> notify_state \<Rightarrow> notify_state disk \<Rightarrow> (notify_error + notify_state) \<times> notify_state disk" where
  "upgrade_state lib io st d =
     (if ns_version st = state_version then (Inr st, d)
      else let up = st\<lparr>ns_version := state_version, ns_subscriptions := map upgrade_subscription (ns_subscriptions st)\<rparr>
        in case validate_notify_state lib up of Inl e \<Rightarrow> (Inl e, d)
        | Inr _ \<Rightarrow> (case notify_write_state io up d of (Inl x, d1) \<Rightarrow> (Inl (NotifyIo x), d1) | (Inr _, d1) \<Rightarrow> (Inr up, d1)))"

definition change_contact :: "faults \<Rightarrow> string \<Rightarrow> notify_state \<Rightarrow> notify_state disk \<Rightarrow> (notify_error + notify_state) \<times> notify_state disk" where
  "change_contact io contact st d =
     (if contact = [] \<or> ns_contact st = contact then (Inr st, d)
      else (case notify_write_state io (st\<lparr>ns_contact := contact\<rparr>) d of
          (Inl x, d1) \<Rightarrow> (Inl (NotifyIo x), d1) | (Inr _, d1) \<Rightarrow> (Inr (st\<lparr>ns_contact := contact\<rparr>), d1)))"

text \<open>\<open>OpenStore\<close>.\<close>
definition open_notify_store :: "notify_lib \<Rightarrow> open_notify_env \<Rightarrow> string \<Rightarrow> notify_state disk \<Rightarrow> notify_store" where
  "open_notify_store lib env supplied d =
     (case (if supplied = [] then Inr [] else validate_contact lib supplied) of
        Inl e \<Rightarrow> failed_store e d
      | Inr contact \<Rightarrow>
        (case load_state lib env contact d of
           (Inl e, d1) \<Rightarrow> failed_store e d1
         | (Inr None, d1) \<Rightarrow> \<lparr>no_state = None, no_err = None, no_disk = d1\<rparr>
         | (Inr (Some st), d1) \<Rightarrow>
           (case upgrade_state lib (on_upgrade env) st d1 of
              (Inl e, d2) \<Rightarrow> failed_store e d2
            | (Inr st1, d2) \<Rightarrow>
              (case change_contact (on_contact env) contact st1 d2 of
                 (Inl e, d3) \<Rightarrow> failed_store e d3
               | (Inr st2, d3) \<Rightarrow> \<lparr>no_state = Some st2, no_err = None, no_disk = d3\<rparr>))))"

section \<open>Reading the store\<close>

text \<open>\<open>Config\<close>: the contact and the public key of a configured store.\<close>
definition store_config :: "notify_store \<Rightarrow> notify_error + (string \<times> string) option" where
  "store_config s =
     (case no_err s of Some e \<Rightarrow> Inl e
      | None \<Rightarrow> Inr (map_option (\<lambda>st. (ns_contact st, ns_public st)) (no_state s)))"

definition delivery_state :: "notify_store \<Rightarrow> notify_state option" where
  "delivery_state s = (if no_err s \<noteq> None then None else no_state s)"

definition lookup_where :: "(subscription \<Rightarrow> bool) \<Rightarrow> notify_store \<Rightarrow> notify_error + event_settings \<times> bool" where
  "lookup_where p s =
     (case no_err s of Some e \<Rightarrow> Inl e
      | None \<Rightarrow>
        (case no_state s of None \<Rightarrow> Inr (default_event_settings, False)
         | Some st \<Rightarrow>
           (case find p (ns_subscriptions st) of
              Some sub \<Rightarrow> Inr (sb_events sub, True) | None \<Rightarrow> Inr (default_event_settings, False))))"

definition lookup :: "string \<Rightarrow> notify_store \<Rightarrow> notify_error + event_settings \<times> bool" where
  "lookup endpoint = lookup_where (\<lambda>sub. sb_endpoint sub = endpoint)"

definition lookup_owned :: "string \<Rightarrow> string \<Rightarrow> notify_store \<Rightarrow> notify_error + event_settings \<times> bool" where
  "lookup_owned endpoint trust = lookup_where (\<lambda>sub. sb_endpoint sub = endpoint \<and> sb_trust sub = trust)"

section \<open>Changing the store\<close>

definition with_subscriptions :: "subscription list \<Rightarrow> notify_state \<Rightarrow> notify_state" where
  "with_subscriptions subs st = st\<lparr>ns_subscriptions := subs\<rparr>"

text \<open>A subscription replaces the one of its endpoint or is added at the end; \<open>None\<close> when there are too many.\<close>
definition put_subscription :: "subscription \<Rightarrow> subscription list \<Rightarrow> subscription list option" where
  "put_subscription sub subs =
     (if sb_endpoint sub \<in> sb_endpoint ` set subs
      then Some (update_first (\<lambda>x. sb_endpoint x = sb_endpoint sub) (\<lambda>_. sub) subs)
      else if length subs \<ge> max_subscriptions then None else Some (subs @ [sub]))"

definition upsert :: "faults \<Rightarrow> subscription \<Rightarrow> notify_store \<Rightarrow> (notify_error + unit) \<times> notify_store" where
  "upsert io sub s =
     (case no_err s of Some e \<Rightarrow> (Inl e, s)
      | None \<Rightarrow>
        (case no_state s of None \<Rightarrow> (Inl NotConfigured, s)
         | Some st \<Rightarrow>
           (case put_subscription sub (ns_subscriptions st) of None \<Rightarrow> (Inl LimitReached, s)
            | Some subs \<Rightarrow> save_state io (with_subscriptions subs st) s)))"

definition upsert_owned :: "faults \<Rightarrow> subscription \<Rightarrow> string \<Rightarrow> notify_store \<Rightarrow> (notify_error + unit) \<times> notify_store" where
  "upsert_owned io sub0 trust s =
     (if trust = [] then (Inl OwnerRequired, s)
      else let sub = sub0\<lparr>sb_trust := trust\<rparr>
        in case no_err s of Some e \<Rightarrow> (Inl e, s)
        | None \<Rightarrow>
          (case no_state s of None \<Rightarrow> (Inl NotConfigured, s)
           | Some st \<Rightarrow>
             (case find (\<lambda>x. sb_endpoint x = sb_endpoint sub) (ns_subscriptions st) of
                Some old \<Rightarrow>
                  if sb_trust old \<noteq> trust then (Inl OtherOwner, s)
                  else save_state io (with_subscriptions (update_first (\<lambda>x. sb_endpoint x = sb_endpoint sub) (\<lambda>_. sub) (ns_subscriptions st)) st) s
              | None \<Rightarrow>
                if length (ns_subscriptions st) \<ge> max_subscriptions then (Inl LimitReached, s)
                else save_state io (with_subscriptions (ns_subscriptions st @ [sub]) st) s)))"

definition enable_protected :: "faults \<Rightarrow> string set \<Rightarrow> notify_store \<Rightarrow> (notify_error + unit) \<times> notify_store" where
  "enable_protected io active s =
     (case no_err s of Some e \<Rightarrow> (Inl e, s)
      | None \<Rightarrow>
        (case no_state s of None \<Rightarrow> (Inr (), s)
         | Some st \<Rightarrow>
           save_state io (with_subscriptions (filter (\<lambda>x. sb_trust x \<in> active \<and> sb_trust x \<noteq> []) (ns_subscriptions st)) (st\<lparr>ns_version := state_version\<rparr>)) s))"

text \<open>\<open>RemoveOwned\<close> and \<open>Remove\<close>: the first subscription that matches.\<close>
definition remove_where :: "faults \<Rightarrow> (subscription \<Rightarrow> bool) \<Rightarrow> notify_store \<Rightarrow> (notify_error + bool) \<times> notify_store" where
  "remove_where io p s =
     (case no_err s of Some e \<Rightarrow> (Inl e, s)
      | None \<Rightarrow>
        (case no_state s of None \<Rightarrow> (Inr False, s)
         | Some st \<Rightarrow>
           if \<not> (\<exists>x \<in> set (ns_subscriptions st). p x) then (Inr False, s)
           else (case save_state io (with_subscriptions (delete_first p (ns_subscriptions st)) st) s of
               (Inl e, s1) \<Rightarrow> (Inl e, s1) | (Inr _, s1) \<Rightarrow> (Inr True, s1))))"

definition remove_owned :: "faults \<Rightarrow> string \<Rightarrow> string \<Rightarrow> notify_store \<Rightarrow> (notify_error + bool) \<times> notify_store" where
  "remove_owned io endpoint trust = remove_where io (\<lambda>x. sb_endpoint x = endpoint \<and> sb_trust x = trust)"

definition remove_endpoint :: "faults \<Rightarrow> string \<Rightarrow> notify_store \<Rightarrow> (notify_error + bool) \<times> notify_store" where
  "remove_endpoint io endpoint = remove_where io (\<lambda>x. sb_endpoint x = endpoint)"

definition remove_trust_subscriptions :: "faults \<Rightarrow> string \<Rightarrow> notify_store \<Rightarrow> (notify_error + unit) \<times> notify_store" where
  "remove_trust_subscriptions io trust s =
     (case no_err s of Some e \<Rightarrow> (Inl e, s)
      | None \<Rightarrow>
        (case no_state s of None \<Rightarrow> (Inr (), s)
         | Some st \<Rightarrow>
           (let kept = filter (\<lambda>x. sb_trust x \<noteq> trust) (ns_subscriptions st)
            in if length kept = length (ns_subscriptions st) then (Inr (), s)
               else save_state io (with_subscriptions kept st) s)))"

definition reset_protected :: "faults \<Rightarrow> notify_store \<Rightarrow> (notify_error + unit) \<times> notify_store" where
  "reset_protected io s =
     (case no_err s of Some e \<Rightarrow> (Inl e, s)
      | None \<Rightarrow>
        (case no_state s of None \<Rightarrow> (Inr (), s)
         | Some st \<Rightarrow>
           if ns_subscriptions st = [] then (Inr (), s)
           else save_state io (with_subscriptions [] (st\<lparr>ns_version := state_version\<rparr>)) s))"

section \<open>Reset\<close>

text \<open>A name the directory holds, with what \<open>entry.Info\<close> says of it, when it says anything.\<close>
type_synonym dir_entry = "string \<times> finfo option"

definition recognized_temporary :: "dir_entry \<Rightarrow> bool" where
  "recognized_temporary e =
     (has_prefix (fst e) ''.notifications-''
      \<and> (let suffix = trim_prefix (fst e) ''.notifications-''
         in suffix \<noteq> [] \<and> length suffix \<le> 10 \<and> list_all is_digit suffix)
      \<and> (case snd e of Some i \<Rightarrow> f_regular i \<and> f_perm i mod 64 = 0 | None \<Rightarrow> False))"

text \<open>\<open>Reset\<close>: the names that could not be removed or listed, and what is left of the directory (\<open>None\<close>: there is none).  The state file is
  the entry with the name \<open>file\<close>.\<close>
definition reset_names :: "(string \<Rightarrow> bool) \<Rightarrow> bool \<Rightarrow> string \<Rightarrow> dir_entry list option \<Rightarrow> string list \<times> dir_entry list option" where
  "reset_names stuck unlistable file dir =
     (case dir of None \<Rightarrow> ([], None)
      | Some es \<Rightarrow>
        (let es1 = (if stuck file then es else filter (\<lambda>e. fst e \<noteq> file) es);
             errs = (if stuck file \<and> file \<in> fst ` set es then [file] else [])
         in if unlistable then (errs @ [''.''], Some es1)
            else (errs @ map fst (filter (\<lambda>e. recognized_temporary e \<and> stuck (fst e)) es1),
                  Some (filter (\<lambda>e. \<not> (recognized_temporary e \<and> \<not> stuck (fst e))) es1))))"

end
