(* ===== verification/NotifyStoreFacts.thy ===== *)
theory NotifyStoreFacts
  imports NotifyStore
begin

text \<open>
  The notification store keeps one valid state, the same in memory and in the file, whatever fails; and no
  sign-in can see, replace or remove the subscriptions of another.
\<close>

section \<open>Valid states\<close>

definition sub_ok :: "int \<Rightarrow> subscription \<Rightarrow> bool" where
  "sub_ok version s \<longleftrightarrow> validate_subscription_shape s = Inr () \<and> owner_ok version (sb_trust s)"

definition subs_ok :: "int \<Rightarrow> subscription list \<Rightarrow> bool" where
  "subs_ok version subs \<longleftrightarrow> distinct (map sb_endpoint subs) \<and> (\<forall>s \<in> set subs. sub_ok version s)"

definition keys_ok :: "notify_lib \<Rightarrow> notify_state \<Rightarrow> bool" where
  "keys_ok lib st \<longleftrightarrow> ns_version st \<in> {state_version, owned_state_version, legacy_state_version}
     \<and> validate_contact lib (ns_contact st) = Inr (ns_contact st)
     \<and> (\<exists>priv pub q. b64_decode (ns_private st) = Some priv \<and> length priv = 32 \<and> 0 < be_nat priv \<and> be_nat priv < p256_n
          \<and> b64_decode (ns_public st) = Some pub \<and> base_mult (be_nat priv) = Some q \<and> pub = marshal_point q)"

lemma check_subscriptions_iff:
  "check_subscriptions version subs seen = Inr () \<longleftrightarrow> subs_ok version subs \<and> set seen \<inter> sb_endpoint ` set subs = {}"
proof (induction version subs seen rule: check_subscriptions.induct)
  case (2 version s ss seen)
  show ?case
  proof (cases "sb_endpoint s \<notin> set seen \<and> sub_ok version s")
    case True
    then have "validate_subscription_shape s = Inr ()" "owner_ok version (sb_trust s)" "sb_endpoint s \<notin> set seen" by (simp_all add: sub_ok_def)
    with 2 show ?thesis by (auto simp: subs_ok_def sub_ok_def)
  next
    case False
    then show ?thesis by (auto simp: subs_ok_def sub_ok_def split: sum.splits)
  qed
qed (simp add: subs_ok_def)

lemma length_marshal_point: "length (marshal_point q) = 65" "hd (marshal_point q) = chr 4"
  by (simp_all add: marshal_point_def)

text \<open>What \<open>validateState\<close> accepts.\<close>
lemma validate_notify_iff:
  "validate_notify_state lib st = Inr () \<longleftrightarrow>
     keys_ok lib st \<and> length (ns_subscriptions st) \<le> max_subscriptions \<and> subs_ok (ns_version st) (ns_subscriptions st)"
proof -
  have e: "Some pub = map_option marshal_point m \<longleftrightarrow> (\<exists>q. m = Some q \<and> pub = marshal_point q)" for pub m by (cases m) auto
  show ?thesis
  proof (cases "b64_decode (ns_private st)")
    case None
    then show ?thesis by (simp add: validate_notify_state_def keys_ok_def)
  next
    case priv: (Some priv)
    show ?thesis
    proof (cases "b64_decode (ns_public st)")
      case None
      then show ?thesis by (simp add: validate_notify_state_def keys_ok_def priv)
    next
      case (Some pub)
      then show ?thesis
        using length_marshal_point by (simp add: validate_notify_state_def keys_ok_def priv e check_subscriptions_iff not_le not_less) blast
    qed
  qed
qed

lemma keys_ok_with [simp]: "keys_ok lib (with_subscriptions subs st) = keys_ok lib st"
  by (simp add: keys_ok_def with_subscriptions_def)

lemma with_subscriptions_simps [simp]:
  "ns_subscriptions (with_subscriptions subs st) = subs" "ns_version (with_subscriptions subs st) = ns_version st"
  by (simp_all add: with_subscriptions_def)

section \<open>The operations\<close>

definition store_inv :: "notify_lib \<Rightarrow> notify_store \<Rightarrow> bool" where
  "store_inv lib s \<longleftrightarrow> (case no_state s of None \<Rightarrow> True
     | Some st \<Rightarrow> no_err s = None \<and> ns_version st = state_version \<and> validate_notify_state lib st = Inr () \<and> content (no_disk s) = Some st)"

datatype notify_op = OpUpsert subscription | OpUpsertOwned subscription string | OpEnable "string set" | OpRemoveOwned string string
  | OpRemove string | OpRemoveTrust string | OpReset

text \<open>What the callers check before they save: the shape, and an owner of 16 bytes.\<close>
fun op_ok :: "notify_op \<Rightarrow> bool" where
  "op_ok (OpUpsert s) = (validate_subscription_shape s = Inr () \<and> sb_trust s = [])"
| "op_ok (OpUpsertOwned s t) = (validate_subscription_shape s = Inr () \<and> owner_ok state_version t)"
| "op_ok _ = True"

fun run_notify_op :: "faults \<Rightarrow> notify_op \<Rightarrow> notify_store \<Rightarrow> notify_store" where
  "run_notify_op io (OpUpsert sub) s = snd (upsert io sub s)"
| "run_notify_op io (OpUpsertOwned sub t) s = snd (upsert_owned io sub t s)"
| "run_notify_op io (OpEnable ids) s = snd (enable_protected io ids s)"
| "run_notify_op io (OpRemoveOwned e t) s = snd (remove_owned io e t s)"
| "run_notify_op io (OpRemove e) s = snd (remove_endpoint io e s)"
| "run_notify_op io (OpRemoveTrust t) s = snd (remove_trust_subscriptions io t s)"
| "run_notify_op io OpReset s = snd (reset_protected io s)"

lemma save_cases:
  assumes "save_state io st s = (r, s')"
  obtains (ok) d where "r = Inr ()" "s' = s\<lparr>no_state := Some st, no_disk := d\<rparr>" "content d = Some st"
  | (error) e d where "r = Inl (NotifyIo e)" "s' = s\<lparr>no_disk := d\<rparr>" "content d = content (no_disk s)"
proof -
  obtain q d where w: "notify_write_state io st (no_disk s) = (q, d)" by (meson surj_pair)
  show thesis
  proof (cases q)
    case (Inl e)
    with w notify_write_cases [OF w] assms error [of e d] show thesis by (auto simp: save_state_def content_def)
  next
    case (Inr u)
    with w notify_write_cases [OF w] assms ok [of d] show thesis by (auto simp: save_state_def content_def)
  qed
qed

lemma save_inv:
  assumes "store_inv lib s" "no_state s = Some st0" "validate_notify_state lib st = Inr ()" "ns_version st = state_version"
  shows "store_inv lib (snd (save_state io st s))"
proof -
  obtain r s' where c: "save_state io st s = (r, s')" by (meson surj_pair)
  from c show ?thesis
    by (cases rule: save_cases) (use assms c in \<open>auto simp: store_inv_def\<close>)
qed

text \<open>The commit of the store is the contract the operations rest on.\<close>
definition commit_valid :: "faults \<Rightarrow> notify_state \<Rightarrow> notify_store \<Rightarrow> (notify_error + unit) \<times> notify_store" where
  "commit_valid io st s = save_state io st s"

interpretation notify_commit: committed_store commit_valid "\<lambda>s. the (no_state s)" "\<lambda>s. content (no_disk s)" "\<lambda>_. True"
proof
  fix env s u e and m m' :: notify_store
  show "commit_valid env s m = (Inr u, m') \<Longrightarrow> True \<and> the (no_state m') = s \<and> content (no_disk m') = Some s"
    unfolding commit_valid_def by (erule save_cases) auto
  show "commit_valid env s m = (Inl e, m') \<Longrightarrow>
      the (no_state m') = the (no_state m) \<and> (content (no_disk m') = content (no_disk m) \<or> True \<and> content (no_disk m') = Some s)"
    unfolding commit_valid_def by (erule save_cases) auto
qed

lemma subs_ok_filter: "subs_ok v subs \<Longrightarrow> subs_ok v (filter p subs)"
  by (auto simp: subs_ok_def distinct_map_filter)

lemma subs_ok_delete: "subs_ok v subs \<Longrightarrow> subs_ok v (delete_first p subs)"
  using delete_first_subset [of p subs] by (auto simp: subs_ok_def distinct_map_delete_first)

lemma subs_ok_append: "subs_ok v subs \<Longrightarrow> sub_ok v s \<Longrightarrow> sb_endpoint s \<notin> sb_endpoint ` set subs \<Longrightarrow> subs_ok v (subs @ [s])"
  by (auto simp: subs_ok_def)

lemma subs_ok_update:
  assumes "subs_ok v subs" "sub_ok v s" "sb_endpoint s = e"
  shows "subs_ok v (update_first (\<lambda>x. sb_endpoint x = e) (\<lambda>_. s) subs)"
proof -
  have "map sb_endpoint (update_first (\<lambda>x. sb_endpoint x = e) (\<lambda>_. s) subs) = map sb_endpoint subs"
    using assms(3) by (induction subs) auto
  moreover have "\<forall>x \<in> set (update_first (\<lambda>x. sb_endpoint x = e) (\<lambda>_. s) subs). sub_ok v x"
    using set_update_first [of "\<lambda>x. sb_endpoint x = e" "\<lambda>_. s" subs] assms(1,2) by (auto simp: subs_ok_def)
  ultimately show ?thesis using assms(1) by (simp add: subs_ok_def)
qed

lemma shape_trust: "validate_subscription_shape (x\<lparr>sb_trust := t\<rparr>) = validate_subscription_shape x"
proof -
  have "sb_endpoint (x\<lparr>sb_trust := t\<rparr>) = sb_endpoint x" "sb_expiration (x\<lparr>sb_trust := t\<rparr>) = sb_expiration x"
    "sb_auth (x\<lparr>sb_trust := t\<rparr>) = sb_auth x" "sb_p256dh (x\<lparr>sb_trust := t\<rparr>) = sb_p256dh x" by simp_all
  then show ?thesis by (simp only: validate_subscription_shape_def)
qed

lemma save_subs_inv:
  assumes i: "store_inv lib s" "no_state s = Some st" and v: "subs_ok state_version subs" and l: "length subs \<le> max_subscriptions"
    and st: "st' = st \<or> st' = st\<lparr>ns_version := state_version\<rparr>"
  shows "store_inv lib (snd (save_state io (with_subscriptions subs st') s))"
proof -
  have "ns_version st = state_version" "keys_ok lib st" using i by (simp_all add: store_inv_def validate_notify_iff)
  then have "ns_version st' = state_version" "keys_ok lib st'" using st by (auto simp: keys_ok_def)
  then show ?thesis using v l by (intro save_inv [OF i]) (simp_all add: validate_notify_iff)
qed

lemma inv_subs:
  assumes "store_inv lib s" "no_state s = Some st"
  shows "no_err s = None" "subs_ok state_version (ns_subscriptions st)" "length (ns_subscriptions st) \<le> max_subscriptions"
  using assms by (auto simp: store_inv_def validate_notify_iff)

lemma remove_where_inv:
  assumes "store_inv lib s"
  shows "store_inv lib (snd (remove_where io p s))"
proof (cases "no_state s")
  case (Some st)
  note i = inv_subs [OF assms Some]
  have "store_inv lib (snd (save_state io (with_subscriptions (delete_first p (ns_subscriptions st)) st) s))"
    using i length_delete_first_le [of p "ns_subscriptions st"] by (intro save_subs_inv [OF assms Some] subs_ok_delete) auto
  then show ?thesis using assms Some i(1) by (auto simp: remove_where_def split: prod.splits sum.splits)
qed (use assms in \<open>auto simp: remove_where_def split: option.splits\<close>)

lemma run_notify_op_inv:
  assumes inv: "store_inv lib s" and ok: "op_ok op"
  shows "store_inv lib (run_notify_op io op s)"
proof (cases "no_state s")
  case None
  then show ?thesis using inv
    by (cases op) (auto simp: upsert_def upsert_owned_def enable_protected_def remove_owned_def remove_endpoint_def remove_where_def
        remove_trust_subscriptions_def reset_protected_def Let_def split: option.splits)
next
  case (Some st)
  note i = inv_subs [OF inv Some] and save = save_subs_inv [OF inv Some]
  have trusts: "sub_ok v (x\<lparr>sb_trust := t\<rparr>) \<longleftrightarrow> validate_subscription_shape x = Inr () \<and> owner_ok v t" for v x t
    by (simp add: sub_ok_def shape_trust)
  show ?thesis
  proof (cases op)
    case (OpUpsert sub)
    then have sub: "sub_ok state_version sub" using ok by (simp add: sub_ok_def owner_ok_def)
    show ?thesis
      using Some i inv sub unfolding OpUpsert
      by (auto simp: upsert_def put_subscription_def intro!: save subs_ok_update subs_ok_append)
  next
    case (OpUpsertOwned sub t)
    then have sub: "sub_ok state_version (sub\<lparr>sb_trust := t\<rparr>)" using ok by (simp add: trusts)
    show ?thesis
      using Some i inv sub unfolding OpUpsertOwned
      by (auto simp: upsert_owned_def Let_def find_None_iff intro!: save subs_ok_update subs_ok_append split: option.split)
  next
    case (OpEnable ids)
    then show ?thesis using Some i inv
      by (auto simp: enable_protected_def intro!: save subs_ok_filter order_trans [OF length_filter_le])
  next
    case (OpRemoveTrust t)
    then show ?thesis using Some i inv
      by (auto simp: remove_trust_subscriptions_def Let_def intro!: save subs_ok_filter order_trans [OF length_filter_le])
  next
    case OpReset
    then show ?thesis using Some i inv by (auto simp: reset_protected_def subs_ok_def intro!: save)
  qed (auto simp: remove_owned_def remove_endpoint_def intro!: remove_where_inv inv)
qed

section \<open>Every store that can be reached\<close>

fun run_notify_ops :: "(faults \<times> notify_op) list \<Rightarrow> notify_store \<Rightarrow> notify_store" where
  "run_notify_ops [] s = s"
| "run_notify_ops (c # cs) s = run_notify_ops cs (run_notify_op (fst c) (snd c) s)"

lemma run_notify_ops_inv: "store_inv lib s \<Longrightarrow> \<forall>c \<in> set cs. op_ok (snd c) \<Longrightarrow> store_inv lib (run_notify_ops cs s)"
  by (induction cs arbitrary: s) (simp_all add: run_notify_op_inv)

lemma failed_store_inv: "store_inv lib (failed_store e d)"
  by (simp add: store_inv_def failed_store_def)

lemma write_content_ok: "notify_write_state io st d = (Inr u, d') \<Longrightarrow> content d' = Some st"
  using notify_write_cases [of io st d "Inr u" d'] by (simp add: content_def)

lemma write_content_error: "notify_write_state io st d = (Inl e, d') \<Longrightarrow> content d' = content d"
  using notify_write_cases [of io st d "Inl e" d'] by (simp add: content_def)

lemma read_notify_ok: "read_notify_state lib io d = Inr st \<Longrightarrow> validate_notify_state lib st = Inr () \<and> content d = Some st"
  by (auto simp: read_notify_state_def open_private_regular_def content_def split: sum.splits if_splits option.splits)

text \<open>The keys the library makes fit each other, with the contact that was checked.\<close>
definition keys_fit :: "notify_lib \<Rightarrow> open_notify_env \<Rightarrow> string \<Rightarrow> bool" where
  "keys_fit lib env contact \<longleftrightarrow> (\<forall>k. on_keys env = Some k \<longrightarrow> keys_ok lib (initial_notify_state contact k))"

text \<open>A contact that was accepted is accepted again in the form it is kept in.\<close>
definition contact_fits :: "notify_lib \<Rightarrow> string \<Rightarrow> bool" where
  "contact_fits lib supplied \<longleftrightarrow> (\<forall>c. validate_contact lib supplied = Inr c \<longrightarrow> validate_contact lib c = Inr c)"

lemma upgraded:
  assumes "validate_notify_state lib st = Inr ()" "content d = Some st" "upgrade_state lib io st d = (Inr st1, d1)"
  shows "ns_version st1 = state_version \<and> validate_notify_state lib st1 = Inr () \<and> content d1 = Some st1"
proof (cases "ns_version st = state_version")
  case True
  with assms show ?thesis by (simp add: upgrade_state_def)
next
  case False
  let ?up = "st\<lparr>ns_version := state_version, ns_subscriptions := map upgrade_subscription (ns_subscriptions st)\<rparr>"
  from False assms(3) have "validate_notify_state lib ?up = Inr ()" "notify_write_state io ?up d = (Inr (), d1)" "st1 = ?up"
    by (auto simp: upgrade_state_def Let_def split: sum.splits prod.splits)
  then show ?thesis by (auto dest: write_content_ok)
qed

lemma changed_contact:
  assumes "ns_version st = state_version" "validate_notify_state lib st = Inr ()" "content d = Some st"
    "change_contact io contact st d = (Inr st1, d1)" "contact = [] \<or> validate_contact lib contact = Inr contact"
  shows "ns_version st1 = state_version \<and> validate_notify_state lib st1 = Inr () \<and> content d1 = Some st1"
proof (cases "contact = [] \<or> ns_contact st = contact")
  case True
  with assms show ?thesis by (auto simp: change_contact_def)
next
  case False
  with assms(4) have w: "st1 = st\<lparr>ns_contact := contact\<rparr>" "notify_write_state io st1 d = (Inr (), d1)"
    by (auto simp: change_contact_def split: sum.splits prod.splits)
  have "validate_notify_state lib st1 = Inr ()" using assms(2,5) False unfolding w(1) by (auto simp: validate_notify_iff keys_ok_def)
  with w assms(1) show ?thesis by (auto dest: write_content_ok)
qed

lemma open_notify_store_inv:
  assumes k: "\<And>c. validate_contact lib supplied = Inr c \<Longrightarrow> keys_fit lib env c" and f: "contact_fits lib supplied"
  shows "store_inv lib (open_notify_store lib env supplied d)"
proof (cases "if supplied = [] then Inr [] else validate_contact lib supplied")
  case (Inl e)
  then show ?thesis by (simp add: open_notify_store_def failed_store_inv)
next
  case (Inr contact)
  have c: "contact = [] \<or> validate_contact lib supplied = Inr contact \<and> validate_contact lib contact = Inr contact"
    using Inr f by (auto simp: contact_fits_def split: if_splits)
  obtain q d1 where l: "load_state lib env contact d = (q, d1)" by (meson surj_pair)
  have loaded: "validate_notify_state lib st = Inr () \<and> content d1 = Some st" if o: "q = Inr (Some st)" for st
  proof (cases "read_notify_state lib (on_read env) d")
    case (Inr st')
    then show ?thesis using l o read_notify_ok [OF Inr] by (auto simp: load_state_def)
  next
    case (Inl e)
    then obtain keys where "contact \<noteq> []" "on_keys env = Some keys" "st = initial_notify_state contact keys"
      "notify_write_state (on_create env) st d = (Inr (), d1)"
      using l o by (auto simp: load_state_def split: if_splits option.splits prod.splits sum.splits)
    moreover from this c have "keys_ok lib st" using k [of contact] by (simp add: keys_fit_def)
    ultimately show ?thesis
      by (auto simp: validate_notify_iff initial_notify_state_def subs_ok_def dest: write_content_ok)
  qed
  show ?thesis
  proof (cases q)
    case (Inl e)
    then show ?thesis by (simp add: open_notify_store_def Inr l failed_store_inv)
  next
    case q: (Inr found)
    show ?thesis
    proof (cases found)
      case None
      then show ?thesis by (simp add: open_notify_store_def Inr l q store_inv_def)
    next
      case (Some st)
      have ld: "validate_notify_state lib st = Inr ()" "content d1 = Some st" using loaded [of st] q Some by simp_all
      obtain q1 d2 where u: "upgrade_state lib (on_upgrade env) st d1 = (q1, d2)" by (meson surj_pair)
      show ?thesis
      proof (cases q1)
        case (Inl e)
        then show ?thesis by (simp add: open_notify_store_def Inr l q Some u failed_store_inv)
      next
        case q1: (Inr st1)
        have up: "ns_version st1 = state_version" "validate_notify_state lib st1 = Inr ()" "content d2 = Some st1"
          using upgraded [OF ld] u q1 by blast+
        obtain q2 d3 where ch: "change_contact (on_contact env) contact st1 d2 = (q2, d3)" by (meson surj_pair)
        show ?thesis
        proof (cases q2)
          case (Inl e)
          then show ?thesis by (simp add: open_notify_store_def Inr l q Some u q1 ch failed_store_inv)
        next
          case q2: (Inr st2)
          have "ns_version st2 = state_version" "validate_notify_state lib st2 = Inr ()" "content d3 = Some st2"
            using changed_contact [OF up, of "on_contact env" contact st2 d3] ch q2 c by auto
          then show ?thesis by (simp add: open_notify_store_def Inr l q Some u q1 ch q2 store_inv_def)
        qed
      qed
    qed
  qed
qed


section \<open>Owners\<close>

text \<open>What a sign-in \<open>t\<close> can do, and the revocation of \<open>t\<close>.\<close>
fun acts_for :: "string \<Rightarrow> notify_op \<Rightarrow> bool" where
  "acts_for t (OpUpsertOwned s t') = (t' = t)"
| "acts_for t (OpRemoveOwned e t') = (t' = t)"
| "acts_for t (OpRemoveTrust t') = (t' = t)"
| "acts_for t _ = False"

definition owned_by :: "string \<Rightarrow> notify_store \<Rightarrow> subscription list" where
  "owned_by t s = (case no_state s of None \<Rightarrow> [] | Some st \<Rightarrow> filter (\<lambda>x. sb_trust x = t) (ns_subscriptions st))"

lemma owned_by_save:
  assumes "no_state s = Some st" "filter (\<lambda>x. sb_trust x = t) subs = filter (\<lambda>x. sb_trust x = t) (ns_subscriptions st)"
  shows "owned_by t (snd (save_state io (with_subscriptions subs st) s)) = owned_by t s"
proof -
  obtain r s' where c: "save_state io (with_subscriptions subs st) s = (r, s')" by (meson surj_pair)
  from c show ?thesis by (cases rule: save_cases) (use assms c in \<open>auto simp: owned_by_def\<close>)
qed

lemma filter_update_other:
  "find p xs = Some y \<Longrightarrow> \<not> q y \<Longrightarrow> \<not> q z \<Longrightarrow> filter q (update_first p (\<lambda>_. z) xs) = filter q xs"
  by (induction xs) (auto split: if_splits)

lemma filter_delete_other: "(\<And>x. p x \<Longrightarrow> \<not> q x) \<Longrightarrow> filter q (delete_first p xs) = filter q xs"
  by (induction xs) auto

lemma owners_isolated_lemma:
  assumes "acts_for t op" "t' \<noteq> t"
  shows "owned_by t' (run_notify_op io op s) = owned_by t' s"
proof (cases "no_state s")
  case None
  with assms(1) show ?thesis
    by (cases op) (auto simp: upsert_owned_def remove_owned_def remove_where_def remove_trust_subscriptions_def Let_def split: option.splits)
next
  case (Some st)
  note save = owned_by_save [OF Some]
  show ?thesis
  proof (cases op)
    case (OpUpsertOwned sub u)
    then have u: "u = t" using assms(1) by simp
    show ?thesis
      using Some assms(2) unfolding OpUpsertOwned u
      by (auto simp: upsert_owned_def Let_def intro!: save filter_update_other split: option.splits)
  next
    case (OpRemoveOwned e u)
    then have u: "u = t" using assms(1) by simp
    have "filter (\<lambda>x. sb_trust x = t') (delete_first (\<lambda>x. sb_endpoint x = e \<and> sb_trust x = t) (ns_subscriptions st)) = filter (\<lambda>x. sb_trust x = t') (ns_subscriptions st)"
      using assms(2) by (intro filter_delete_other) auto
    note own = save [OF this]
    obtain r s' where c: "save_state io (with_subscriptions (delete_first (\<lambda>x. sb_endpoint x = e \<and> sb_trust x = t) (ns_subscriptions st)) st) s = (r, s')"
      by (meson surj_pair)
    with own [of io] have "owned_by t' s' = owned_by t' s" by simp
    then show ?thesis
      using Some c unfolding OpRemoveOwned u
      by (cases r) (auto simp: remove_owned_def remove_where_def split: option.splits)
  next
    case (OpRemoveTrust u)
    then have u: "u = t" using assms(1) by simp
    have "filter (\<lambda>x. sb_trust x = t') (filter (\<lambda>x. sb_trust x \<noteq> t) (ns_subscriptions st)) = filter (\<lambda>x. sb_trust x = t') (ns_subscriptions st)"
      using assms(2) by (auto simp: filter_filter intro: filter_cong)
    from save [OF this] show ?thesis
      using Some unfolding OpRemoveTrust u
      by (auto simp: remove_trust_subscriptions_def Let_def split: option.splits)
  qed (use assms(1) in auto)
qed

text \<open>C19.  What the requests of one sign-in and its revocation do never touches the subscriptions of another: those of every other owner stay
  exactly as they were, in the same order, whatever fails; an endpoint of another owner cannot be taken over.\<close>
theorem owners_isolated:
  assumes "acts_for t op" "t' \<noteq> t"
  shows "owned_by t' (run_notify_op io op s) = owned_by t' s"
  by (rule owners_isolated_lemma [OF assms])

lemma update_first_unique:
  "distinct (map f xs) \<Longrightarrow> \<forall>x \<in> set (update_first (\<lambda>x. f x = k) (\<lambda>_. z) xs). f x = k \<longrightarrow> x = z"
proof (induction xs)
  case (Cons y ys)
  have "f x \<noteq> f y" if "x \<in> set ys" for x using Cons.prems that by (metis distinct.simps(2) image_eqI list.set_map list.simps(9))
  with Cons show ?case by auto
qed simp

lemma find_conj_unique:
  assumes "find p xs = Some y" "q y" "\<forall>x \<in> set xs. p x \<longrightarrow> x = y"
  shows "find (\<lambda>x. p x \<and> q x) xs = Some y"
proof -
  have "\<forall>x \<in> set xs. p x \<longrightarrow> q x" using assms(2,3) by blast
  then have "find (\<lambda>x. p x \<and> q x) xs = find p xs" by (induction xs) auto
  with assms(1) show ?thesis by simp
qed

text \<open>C22.  A subscription that was saved for a sign-in is found again by it with its settings, in memory and in the file, and by no other; once
  the sign-in is revoked none of its subscriptions is left, and the others are.\<close>
theorem owned_lifecycle:
  assumes "store_inv lib s" "upsert_owned io sub t s = (Inr (), s1)" "remove_trust_subscriptions io' t s1 = (Inr (), s2)"
  shows "lookup_owned (sb_endpoint sub) t s1 = Inr (sb_events sub, True)
    \<and> (t' \<noteq> t \<longrightarrow> lookup_owned (sb_endpoint sub) t' s1 = Inr (default_event_settings, False))
    \<and> content (no_disk s1) = no_state s1
    \<and> owned_by t s2 = [] \<and> (t' \<noteq> t \<longrightarrow> owned_by t' s2 = owned_by t' s)"
proof -
  let ?sub = "sub\<lparr>sb_trust := t\<rparr>" and ?p = "\<lambda>x. sb_endpoint x = sb_endpoint sub"
  from assms(2) obtain st where t: "t \<noteq> []" and st: "no_err s = None" "no_state s = Some st"
    by (auto simp: upsert_owned_def Let_def split: option.splits if_splits)
  have dist: "distinct (map sb_endpoint (ns_subscriptions st))" using inv_subs [OF assms(1) st(2)] by (simp add: subs_ok_def)
  obtain subs where subs: "save_state io (with_subscriptions subs st) s = (Inr (), s1)"
    "find ?p subs = Some ?sub" "\<forall>x \<in> set subs. ?p x \<longrightarrow> x = ?sub"
  proof (cases "find ?p (ns_subscriptions st)")
    case (Some old)
    have "save_state io (with_subscriptions (update_first ?p (\<lambda>_. ?sub) (ns_subscriptions st)) st) s = (Inr (), s1)"
      using assms(2) t st Some by (auto simp: upsert_owned_def Let_def split: if_splits)
    moreover have "find ?p (update_first ?p (\<lambda>_. ?sub) (ns_subscriptions st)) = Some ?sub"
      using find_update_first_hit [OF Some] by simp
    moreover have "\<forall>x \<in> set (update_first ?p (\<lambda>_. ?sub) (ns_subscriptions st)). ?p x \<longrightarrow> x = ?sub"
      using dist by (rule update_first_unique)
    ultimately show thesis by (rule that)
  next
    case None
    have "save_state io (with_subscriptions (ns_subscriptions st @ [?sub]) st) s = (Inr (), s1)"
      using assms(2) t st None by (auto simp: upsert_owned_def Let_def split: if_splits)
    moreover have "find ?p (ns_subscriptions st @ [?sub]) = Some ?sub" using None by (simp add: find_append_None)
    moreover have "\<forall>x \<in> set (ns_subscriptions st @ [?sub]). ?p x \<longrightarrow> x = ?sub" using None by (auto simp: find_None_iff)
    ultimately show thesis by (rule that)
  qed
  from subs(1) obtain d where s1: "s1 = s\<lparr>no_state := Some (with_subscriptions subs st), no_disk := d\<rparr>" "content d = Some (with_subscriptions subs st)"
    by (cases rule: save_cases) auto
  have n1: "no_state s1 = Some (with_subscriptions subs st)" "no_err s1 = None" using s1 st by simp_all
  have own: "find (\<lambda>x. ?p x \<and> sb_trust x = t) subs = Some ?sub"
    by (rule find_conj_unique [OF subs(2) _ subs(3)]) simp
  have other: "find (\<lambda>x. ?p x \<and> sb_trust x = t') subs = None" if "t' \<noteq> t"
    using subs(3) that by (auto simp: find_None_iff)
  have l: "lookup_owned (sb_endpoint sub) t s1 = Inr (sb_events sub, True)"
    "t' \<noteq> t \<longrightarrow> lookup_owned (sb_endpoint sub) t' s1 = Inr (default_event_settings, False)"
    using own other by (simp_all add: lookup_owned_def lookup_where_def n1)
  have gone: "owned_by t s2 = []"
  proof (cases "length (filter (\<lambda>x. sb_trust x \<noteq> t) subs) = length subs")
    case True
    then have "filter (\<lambda>x. sb_trust x = t) subs = []" by (metis filter_empty_conv length_filter_less less_irrefl)
    with True assms(3) n1 show ?thesis by (auto simp: remove_trust_subscriptions_def owned_by_def)
  next
    case False
    have "save_state io' (with_subscriptions (filter (\<lambda>x. sb_trust x \<noteq> t) subs) (with_subscriptions subs st)) s1 = (Inr (), s2)"
      using False assms(3) n1 by (simp add: remove_trust_subscriptions_def Let_def)
    then show ?thesis by (cases rule: save_cases) (auto simp: owned_by_def filter_empty_conv)
  qed
  have keep: "owned_by t' s2 = owned_by t' s" if "t' \<noteq> t"
    using owners_isolated_lemma [of t "OpUpsertOwned sub t" t' io s] owners_isolated_lemma [of t "OpRemoveTrust t" t' io' s1] that assms(2,3) by simp
  show ?thesis using l gone keep s1 by simp
qed

section \<open>A store to look at\<close>

definition sample_lib :: notify_lib where "sample_lib = \<lparr>nl_mail = Some, nl_url_text = host\<rparr>"
definition sample_point :: string where "sample_point = b64_encode (marshal_point p256_g)"
definition sample_keys :: "string \<times> string" where "sample_keys = (b64_encode (be_bytes 32 1), sample_point)"
definition no_faults :: faults where "no_faults = (\<lambda>_. False)"
definition sample_open_env :: open_notify_env where
  "sample_open_env = \<lparr>on_read = no_faults, on_create = no_faults, on_upgrade = no_faults, on_contact = no_faults, on_keys = Some sample_keys\<rparr>"
definition empty_disk :: "notify_state disk" where "empty_disk = \<lparr>dk_dir = None, dk_file = None, dk_temps = 0\<rparr>"
definition sample_contact :: string where "sample_contact = ''mailto:a@b''"
definition sample_store :: notify_store where "sample_store = open_notify_store sample_lib sample_open_env sample_contact empty_disk"
definition sample_owner :: string where "sample_owner = b64_encode (replicate 16 (CHR ''o''))"
definition sample_sub :: subscription where
  "sample_sub = \<lparr>sb_endpoint = ''https://push'', sb_expiration = None, sb_auth = b64_encode (replicate 16 (CHR ''k'')), sb_p256dh = sample_point,
     sb_events = default_event_settings, sb_trust = []\<rparr>"

lemma sample_contact_ok: "validate_contact sample_lib sample_contact = Inr sample_contact"
proof -
  have "trim_space sample_contact = sample_contact"
    unfolding sample_contact_def by (rule trim_space_ascii_id) (auto simp: is_space_def)
  then show ?thesis by (simp add: validate_contact_def sample_lib_def sample_contact_def trim_prefix_def)
qed

lemma sample_keys_ok: "keys_ok sample_lib (initial_notify_state sample_contact sample_keys)"
proof -
  have "b64_decode (b64_encode s) = Some s" for s by simp
  moreover have "be_nat (be_bytes 32 1) = 1" by (rule be_nat_bytes) simp
  ultimately show ?thesis
    by (simp add: keys_ok_def initial_notify_state_def sample_contact_ok sample_keys_def sample_point_def base_mult_one [simplified] p256_n_def)
      (metis surj_pair)
qed

lemma sample_read_missing: "read_notify_state sample_lib no_faults empty_disk = Inl (NotifyIo NotExist)"
  by (simp add: read_notify_state_def ensure_private_directory_def empty_disk_def no_faults_def)

lemma sample_write: "\<exists>d'. notify_write_state no_faults st empty_disk = (Inr (), d') \<and> dk_dir d' = Some new_dir \<and> dk_file d' = Some (new_file, st)"
  by (simp add: notify_write_state_def ensure_private_directory_def empty_disk_def no_faults_def open_private_regular_def replace_via_temp_def first_fault_def Let_def)

lemma write_again:
  "dk_dir d = Some new_dir \<Longrightarrow> dk_file d = Some (new_file, st0) \<Longrightarrow> \<exists>d'. notify_write_state no_faults st d = (Inr (), d') \<and> dk_dir d' = Some new_dir \<and> dk_file d' = Some (new_file, st)"
  by (simp add: notify_write_state_def ensure_private_directory_def no_faults_def open_private_regular_def replace_via_temp_def first_fault_def Let_def)
    (simp add: new_file_def)

lemma sample_store_open:
  "no_state sample_store = Some (initial_notify_state sample_contact sample_keys) \<and> no_err sample_store = None
   \<and> dk_dir (no_disk sample_store) = Some new_dir \<and> dk_file (no_disk sample_store) = Some (new_file, initial_notify_state sample_contact sample_keys)"
proof -
  obtain d where d: "notify_write_state no_faults (initial_notify_state sample_contact sample_keys) empty_disk = (Inr (), d)"
    "dk_dir d = Some new_dir" "dk_file d = Some (new_file, initial_notify_state sample_contact sample_keys)" using sample_write by blast
  have ne: "sample_contact \<noteq> []" by (simp add: sample_contact_def)
  have l: "load_state sample_lib sample_open_env sample_contact empty_disk = (Inr (Some (initial_notify_state sample_contact sample_keys)), d)"
    by (simp add: load_state_def sample_open_env_def sample_read_missing ne d)
  have v: "ns_version (initial_notify_state sample_contact sample_keys) = state_version" "ns_contact (initial_notify_state sample_contact sample_keys) = sample_contact"
    by (simp_all add: initial_notify_state_def)
  show ?thesis
    by (simp add: sample_store_def open_notify_store_def sample_contact_ok ne l upgrade_state_def change_contact_def v d)
qed

lemma sample_fits: "keys_fit sample_lib sample_open_env sample_contact" "contact_fits sample_lib sample_contact"
  using sample_keys_ok by (simp_all add: keys_fit_def sample_open_env_def contact_fits_def sample_contact_ok)

lemma sample_store_inv: "store_inv sample_lib sample_store"
  unfolding sample_store_def by (rule open_notify_store_inv) (use sample_fits sample_contact_ok in auto)

lemma sample_shape: "validate_subscription_shape sample_sub = Inr ()" "owner_ok state_version sample_owner" "sample_owner \<noteq> []"
proof -
  have h: "parse_host ''push'' = Some ''push''" by (simp add: parse_host_def host_char_def is_lower_def is_upper_def is_digit_def last_index_def valid_optional_port_def)
  have "url_parse (''https://'' @ ''push'') = Some (empty_url\<lparr>scheme := ''https'', host := ''push''\<rparr>)"
    by (rule url_parse_https_plain [OF _ h]) (auto simp: plain_host_char_def is_lower_def)
  then have u: "https_url ''https://push'' = Some (empty_url\<lparr>scheme := ''https'', host := ''push''\<rparr>)"
    by (simp add: https_url_def hostname_def split_host_port_def last_index_def empty_url_def)
  have "trim_space ''https://push'' = ''https://push''" by (rule trim_space_ascii_id) (auto simp: is_space_def)
  then have e: "validate_endpoint_url ''https://push'' = Inr (empty_url\<lparr>scheme := ''https'', host := ''push''\<rparr>)"
    by (simp add: validate_endpoint_url_def max_endpoint_length_def u empty_url_def)
  have ne: "s \<noteq> [] \<Longrightarrow> b64_encode s \<noteq> []" for s using length_b64_encode [of s] by (cases s) auto
  have d: "decode_url_base64 (b64_encode s) = Some s" if "s \<noteq> []" "length s \<le> 65" for s
    using ne [OF that(1)] that(2) length_b64_encode [of s] by (simp add: decode_url_base64_def)
  have m: "marshal_point p256_g \<noteq> []" "length (marshal_point p256_g) \<le> 65" using length_marshal_point by (simp_all add: marshal_point_def)
  have k: "decode_url_base64 (b64_encode (replicate 16 (CHR ''k''))) = Some (replicate 16 (CHR ''k''))" by (rule d) simp_all
  show "validate_subscription_shape sample_sub = Inr ()"
    by (simp add: validate_subscription_shape_def sample_sub_def e k sample_point_def d [OF m] length_marshal_point unmarshal_marshal [OF p256_g_on_curve])
  show "owner_ok state_version sample_owner" by (simp add: owner_ok_def sample_owner_def)
  show "sample_owner \<noteq> []" unfolding sample_owner_def by (rule ne) simp
qed

lemma save_works:
  assumes "dk_dir (no_disk s) = Some new_dir" "dk_file (no_disk s) = Some (new_file, st0)"
  shows "\<exists>d. save_state no_faults st s = (Inr (), s\<lparr>no_state := Some st, no_disk := d\<rparr>) \<and> dk_dir d = Some new_dir \<and> dk_file d = Some (new_file, st)"
  using write_again [OF assms, of st] by (auto simp: save_state_def)

lemma sample_upsert:
  "\<exists>s1 s2. upsert_owned no_faults sample_sub sample_owner sample_store = (Inr (), s1) \<and> no_state s1 \<noteq> None
     \<and> remove_trust_subscriptions no_faults sample_owner s1 = (Inr (), s2)"
proof -
  let ?st = "initial_notify_state sample_contact sample_keys" and ?sub = "sample_sub\<lparr>sb_trust := sample_owner\<rparr>"
  have s: "no_state sample_store = Some ?st" "no_err sample_store = None" "dk_dir (no_disk sample_store) = Some new_dir"
    "dk_file (no_disk sample_store) = Some (new_file, ?st)" using sample_store_open by simp_all
  obtain d where d: "save_state no_faults (with_subscriptions [?sub] ?st) sample_store
      = (Inr (), sample_store\<lparr>no_state := Some (with_subscriptions [?sub] ?st), no_disk := d\<rparr>)"
    "dk_dir d = Some new_dir" "dk_file d = Some (new_file, with_subscriptions [?sub] ?st)" using save_works [OF s(3,4)] by blast
  let ?s1 = "sample_store\<lparr>no_state := Some (with_subscriptions [?sub] ?st), no_disk := d\<rparr>"
  have "ns_subscriptions ?st = []" by (simp add: initial_notify_state_def)
  then have u: "upsert_owned no_faults sample_sub sample_owner sample_store = (Inr (), ?s1)"
    using sample_shape(3) s(1,2) d(1) by (simp add: upsert_owned_def Let_def max_subscriptions_def)
  have n: "no_disk ?s1 = d" by simp
  obtain d2 where "save_state no_faults (with_subscriptions [] (with_subscriptions [?sub] ?st)) ?s1
      = (Inr (), ?s1\<lparr>no_state := Some (with_subscriptions [] (with_subscriptions [?sub] ?st)), no_disk := d2\<rparr>)"
    using save_works [of ?s1 "with_subscriptions [?sub] ?st" "with_subscriptions [] (with_subscriptions [?sub] ?st)"] d(2,3) n by auto
  then have "\<exists>s2. remove_trust_subscriptions no_faults sample_owner ?s1 = (Inr (), s2)"
    using s(2) by (simp add: remove_trust_subscriptions_def)
  with u show ?thesis by fastforce
qed


theorem owners_isolated_witness:
  "owned_by ''other'' (run_notify_op no_faults (OpUpsertOwned sample_sub sample_owner) sample_store) = owned_by ''other'' sample_store"
proof -
  have "length sample_owner \<noteq> length ''other''" by (simp add: sample_owner_def length_b64_encode)
  then have "''other'' \<noteq> sample_owner" by metis
  moreover have "acts_for sample_owner (OpUpsertOwned sample_sub sample_owner)" by simp
  ultimately show ?thesis by (intro owners_isolated [of sample_owner])
qed

theorem owned_lifecycle_witness:
  "\<exists>s1. upsert_owned no_faults sample_sub sample_owner sample_store = (Inr (), s1)
     \<and> lookup_owned ''https://push'' sample_owner s1 = Inr (default_event_settings, True)"
proof -
  obtain s1 s2 where s: "upsert_owned no_faults sample_sub sample_owner sample_store = (Inr (), s1)"
    "remove_trust_subscriptions no_faults sample_owner s1 = (Inr (), s2)" using sample_upsert by blast
  have "sb_endpoint sample_sub = ''https://push''" "sb_events sample_sub = default_event_settings" by (simp_all add: sample_sub_def)
  with owned_lifecycle [OF sample_store_inv s] s(1) show ?thesis by auto
qed

end
