(* ===== verification/NotifyEndpointFacts.thy ===== *)
theory NotifyEndpointFacts
  imports NotifyEndpoint
begin

text \<open>
  The address policy of notices against the rules as the registries write them, over the bytes of an address,
  and what a dialler ever connects to.
\<close>

section \<open>Bytes and numbers\<close>

definition nat_of_bytes :: "nat list \<Rightarrow> nat" where
  "nat_of_bytes bs = foldl (\<lambda>n b. n * 256 + b) 0 bs"

lemma nat_of_bytes_snoc: "nat_of_bytes (bs @ [b]) = nat_of_bytes bs * 256 + b"
  by (simp add: nat_of_bytes_def)

lemma nat_of_bytes_bound: "\<forall>b \<in> set bs. b < 256 \<Longrightarrow> nat_of_bytes bs < 256 ^ length bs"
proof (induction bs rule: rev_induct)
  case (snoc b bs)
  then have "nat_of_bytes bs < 256 ^ length bs" "b < 256" by auto
  then have "Suc (nat_of_bytes bs) * 256 \<le> 256 ^ length bs * 256" by simp
  with \<open>b < 256\<close> show ?case by (simp add: nat_of_bytes_snoc)
qed (simp add: nat_of_bytes_def)

lemma nat_of_bytes_append: "nat_of_bytes (xs @ ys) = nat_of_bytes xs * 256 ^ length ys + nat_of_bytes ys"
proof (induction ys rule: rev_induct)
  case (snoc y ys)
  have "nat_of_bytes (xs @ ys @ [y]) = nat_of_bytes (xs @ ys) * 256 + y" using nat_of_bytes_snoc [of "xs @ ys"] by simp
  then show ?case by (simp add: snoc nat_of_bytes_snoc algebra_simps)
qed (simp add: nat_of_bytes_def)

lemma digit_inject: "x < k \<Longrightarrow> y < k \<Longrightarrow> m * k + x = n * k + y \<longleftrightarrow> m = n \<and> x = (y :: nat)"
proof
  assume b: "x < k" "y < k" and e: "m * k + x = n * k + y"
  have "(m * k + x) div k = m" "(n * k + y) div k = n" using b by simp_all
  with e have "m = n" by simp
  with e show "m = n \<and> x = y" by simp
qed simp

lemma nat_of_bytes_inject:
  "length xs = length ys \<Longrightarrow> \<forall>b \<in> set xs. b < 256 \<Longrightarrow> \<forall>b \<in> set ys. b < 256 \<Longrightarrow> nat_of_bytes xs = nat_of_bytes ys \<longleftrightarrow> xs = ys"
proof (induction xs arbitrary: ys rule: rev_induct)
  case (snoc x xs)
  then obtain y zs where y: "ys = zs @ [y]" by (cases ys rule: rev_cases) auto
  have "nat_of_bytes xs * 256 + x = nat_of_bytes zs * 256 + y \<longleftrightarrow> nat_of_bytes xs = nat_of_bytes zs \<and> x = y"
    using snoc.prems y by (intro digit_inject) simp_all
  then show ?case using snoc y by (simp add: nat_of_bytes_snoc)
qed simp

lemma byte_word_less: "unat (b :: u8) < 256"
  using unsigned_less [of b, where 'a = nat] by simp

lemma word_rcat_unat:
  assumes "8 * length bs \<le> LENGTH('a::len)"
  shows "unat (word_rcat (bs :: u8 list) :: 'a word) = nat_of_bytes (map unat bs)"
proof -
  have h: "horner_sum uint (2 ^ 8) (rev bs) = int (nat_of_bytes (map unat bs))" for bs :: "u8 list"
    by (induction bs rule: rev_induct) (simp_all add: nat_of_bytes_snoc nat_of_bytes_def)
  have "nat_of_bytes (map unat bs) < 256 ^ length bs"
    using nat_of_bytes_bound [of "map unat bs"] byte_word_less by auto
  also have "(256 :: nat) ^ length bs = 2 ^ (8 * length bs)" by (simp add: power_mult)
  also have "\<dots> \<le> 2 ^ LENGTH('a)" using assms by (simp add: power_increasing)
  finally have "nat_of_bytes (map unat bs) < 2 ^ LENGTH('a)" .
  then show ?thesis unfolding word_rcat_def comp_def h by (simp add: unat_of_nat take_bit_nat_eq_self h [simplified])
qed

lemma unat_drop: "unat (drop_bit k (w :: 'a::len word)) = unat w div 2 ^ k"
  by (subst unat_drop_bit_eq) (simp add: drop_bit_eq_div)

lemma drop_bit_unat: "drop_bit k (w :: 'a::len word) = drop_bit k v \<longleftrightarrow> unat w div 2 ^ k = unat v div 2 ^ k"
  by (simp only: word_unat_eq_iff unat_drop)

section \<open>The rules over bytes\<close>

text \<open>IPv4, by its four bytes.\<close>
definition public4 :: "nat list \<Rightarrow> bool" where
  "public4 bs =
     (case bs of [a, b, c, d] \<Rightarrow>
        \<not> (a = 0 \<or> a = 10 \<or> a = 127 \<or> a \<ge> 224 \<or> (a = 100 \<and> 64 \<le> b \<and> b < 128) \<or> (a = 169 \<and> b = 254) \<or> (a = 172 \<and> 16 \<le> b \<and> b < 32)
           \<or> (a = 192 \<and> b = 168) \<or> (a = 192 \<and> b = 0 \<and> c \<in> {0, 2}) \<or> (a = 192 \<and> b = 88 \<and> c = 99)
           \<or> (a = 198 \<and> b \<in> {18, 19}) \<or> (a = 198 \<and> b = 51 \<and> c = 100) \<or> (a = 203 \<and> b = 0 \<and> c = 113))
      | _ \<Rightarrow> False)"

text \<open>IPv6, by its first two groups of 16 bits: allocated global unicast without the special blocks in it.\<close>
definition public6 :: "nat \<Rightarrow> nat \<Rightarrow> bool" where
  "public6 g h \<longleftrightarrow> 0x2000 \<le> g \<and> g < 0x4000 \<and> \<not> (g = 0x2001 \<and> (h < 0x200 \<or> h = 0xDB8)) \<and> g \<noteq> 0x2002 \<and> \<not> (g = 0x3FFF \<and> h < 0x1000)"

definition mapped_head :: "nat list" where "mapped_head = [0, 0, 0, 0, 0, 0, 0, 0, 0, 0, 0xFF, 0xFF]"
definition nat64_head :: "nat list" where "nat64_head = [0, 0x64, 0xFF, 0x9B, 0, 0, 0, 0, 0, 0, 0, 0]"

definition policy :: "nat list \<Rightarrow> bool" where
  "policy bs =
     (if length bs = 4 then public4 bs
      else if length bs = 16 then
        (if take 12 bs \<in> {mapped_head, nat64_head} then public4 (drop 12 bs)
         else public6 (bs ! 0 * 256 + bs ! 1) (bs ! 2 * 256 + bs ! 3))
      else False)"

lemma prefix4: "prefix_contains (A4 v, l) (A4 w) \<longleftrightarrow> unat w div 2 ^ (32 - l) = unat v div 2 ^ (32 - l)"
  by (simp add: prefix_contains_def drop_bit_unat)

lemma prefix6: "prefix_contains (A6 v, l) (A6 w) \<longleftrightarrow> unat w div 2 ^ (128 - l) = unat v div 2 ^ (128 - l)"
  by (simp add: prefix_contains_def drop_bit_unat)

lemma prefix_other: "\<not> prefix_contains (A4 v, l) (A6 w)" "\<not> prefix_contains (A6 v', l) (A4 w')"
  by (simp_all add: prefix_contains_def)

lemma unicast4: "is_global_unicast (A4 w) \<longleftrightarrow> unat w \<noteq> 0 \<and> unat w \<noteq> 0xFFFFFFFF \<and> unat w div 2 ^ 24 \<noteq> 127 \<and> unat w div 2 ^ 28 \<noteq> 14 \<and> unat w div 2 ^ 16 \<noteq> 0xA9FE"
  by (simp add: is_global_unicast_def word_unat_eq_iff unat_drop)

lemma unicast6: "is_global_unicast (A6 w) \<longleftrightarrow> unat w \<noteq> 0 \<and> unat w \<noteq> 1 \<and> unat w div 2 ^ 120 \<noteq> 0xFF \<and> unat w div 2 ^ 118 \<noteq> 0x3FA"
  by (simp add: is_global_unicast_def word_unat_eq_iff unat_drop)

lemma unat_ip4_of: "((a * 256 + b) * 256 + c) * 256 + d < 2 ^ 32 \<Longrightarrow> unat (ip4_of a b c d) = ((a * 256 + b) * 256 + c) * 256 + d"
  unfolding ip4_of_def by (subst unat_of_nat) (simp add: take_bit_nat_eq_self)

lemma unat_ip6_of: "foldl (\<lambda>n g. n * 65536 + g) 0 gs < 2 ^ 128 \<Longrightarrow> unat (ip6_of gs) = foldl (\<lambda>n g. n * 65536 + g) 0 gs"
  unfolding ip6_of_def by (subst unat_of_nat) (simp add: take_bit_nat_eq_self)

lemma routable4:
  assumes "a < 256" "b < 256" "c < 256" "d < 256" "unat w = nat_of_bytes [a, b, c, d]"
  shows "routable (A4 w) \<longleftrightarrow> public4 [a, b, c, d]"
proof -
  have w: "unat w = ((a * 256 + b) * 256 + c) * 256 + d" using assms(5) by (simp add: nat_of_bytes_def)
  have p: "list_ex (\<lambda>p. prefix_contains p (A4 w)) nonpublic_prefixes \<longleftrightarrow>
      (let n = unat w in n div 2 ^ 24 = 0 \<or> n div 2 ^ 24 = 10 \<or> n div 2 ^ 22 = 401 \<or> n div 2 ^ 24 = 127 \<or> n div 2 ^ 16 = 43518 \<or> n div 2 ^ 20 = 2753
         \<or> n div 2 ^ 8 = 12582912 \<or> n div 2 ^ 8 = 12582914 \<or> n div 2 ^ 8 = 12605539 \<or> n div 2 ^ 16 = 49320 \<or> n div 2 ^ 17 = 25353
         \<or> n div 2 ^ 8 = 12989284 \<or> n div 2 ^ 8 = 13303921 \<or> n div 2 ^ 28 = 14 \<or> n div 2 ^ 28 = 15)"
    by (simp add: nonpublic_prefixes_def prefix4 prefix_other unat_ip4_of Let_def)
  have d: "n div 2 ^ 8 = (a * 256 + b) * 256 + c" "n div 2 ^ 16 = a * 256 + b" "n div 2 ^ 17 = a * 128 + b div 2" "n div 2 ^ 20 = a * 16 + b div 16"
    "n div 2 ^ 22 = a * 4 + b div 64" "n div 2 ^ 24 = a" "n div 2 ^ 28 = a div 16" if "n = unat w" for n
  proof -
    have s: "n div 256 = (a * 256 + b) * 256 + c" using assms(4) that w by simp
    have t: "n div 256 div 256 = a * 256 + b" unfolding s using assms(3) by simp
    show "n div 2 ^ 8 = (a * 256 + b) * 256 + c" using s by simp
    show u: "n div 2 ^ 16 = a * 256 + b" using t by (simp add: div_mult2_eq [symmetric])
    have v: "n div (2 ^ 16 * m) = (a * 256 + b) div m" for m unfolding div_mult2_eq u ..
    show "n div 2 ^ 17 = a * 128 + b div 2" using v [of 2] by (simp; presburger?)
    show "n div 2 ^ 20 = a * 16 + b div 16" using v [of 16] by (simp; presburger?)
    show "n div 2 ^ 22 = a * 4 + b div 64" using v [of 64] by (simp; presburger?)
    show "n div 2 ^ 24 = a" using v [of 256] assms(2) by simp
    show "n div 2 ^ 28 = a div 16" using v [of 4096] assms(2) by (simp; presburger?)
  qed
  have b: "b div 2 < 128" "b div 16 < 16" "b div 64 < 4" using assms(2) by linarith+
  have e: "a * 256 + b = 43518 \<longleftrightarrow> a = 169 \<and> b = 254" "a * 256 + b = 49320 \<longleftrightarrow> a = 192 \<and> b = 168"
    "a * 128 + b div 2 = 25353 \<longleftrightarrow> a = 198 \<and> b div 2 = 9" "a * 16 + b div 16 = 2753 \<longleftrightarrow> a = 172 \<and> b div 16 = 1"
    "a * 4 + b div 64 = 401 \<longleftrightarrow> a = 100 \<and> b div 64 = 1"
    using digit_inject [OF assms(2), of 254 a 169] digit_inject [OF assms(2), of 168 a 192] digit_inject [OF b(1), of 9 a 198]
      digit_inject [OF b(2), of 1 a 172] digit_inject [OF b(3), of 1 a 100] by simp_all
  have r: "b div 2 = 9 \<longleftrightarrow> b = 18 \<or> b = 19" "b div 16 = 1 \<longleftrightarrow> 16 \<le> b \<and> b < 32" "b div 64 = 1 \<longleftrightarrow> 64 \<le> b \<and> b < 128" by linarith+
  have q: "a div 16 = 14 \<or> a div 16 = 15 \<longleftrightarrow> 224 \<le> a" using assms(1) by linarith
  have f: "(a * 256 + b) * 256 + c = (k * 256 + l) * 256 + m \<longleftrightarrow> a = k \<and> b = l \<and> c = m" if "l < 256" "m < 256" for k l m
    unfolding digit_inject [OF assms(3) that(2), of "a * 256 + b" "k * 256 + l"] digit_inject [OF assms(2) that(1), of a k] by blast
  have g: "(a * 256 + b) * 256 + c = 12582912 \<longleftrightarrow> a = 192 \<and> b = 0 \<and> c = 0" "(a * 256 + b) * 256 + c = 12582914 \<longleftrightarrow> a = 192 \<and> b = 0 \<and> c = 2"
    "(a * 256 + b) * 256 + c = 12605539 \<longleftrightarrow> a = 192 \<and> b = 88 \<and> c = 99" "(a * 256 + b) * 256 + c = 12989284 \<longleftrightarrow> a = 198 \<and> b = 51 \<and> c = 100"
    "(a * 256 + b) * 256 + c = 13303921 \<longleftrightarrow> a = 203 \<and> b = 0 \<and> c = 113"
    using f [of 0 0 192] f [of 0 2 192] f [of 88 99 192] f [of 51 100 198] f [of 0 113 203] by simp_all
  have z: "unat w = 0 \<Longrightarrow> a = 0" "unat w = 0xFFFFFFFF \<Longrightarrow> 224 \<le> a" using w assms(1-4) by simp_all
  have h: "a div 16 = 14 \<Longrightarrow> 224 \<le> a" by linarith
  show ?thesis
    unfolding routable_def p unicast4 is6_def addr.case Let_def d [OF refl] g public4_def list.case
    unfolding e r insert_iff empty_iff using q z h by argo
qed

text \<open>For IPv6 the allocated block decides most of the list; the rest depends on the first 32 bits.\<close>
lemma routable6:
  assumes "unat w div 2 ^ 96 = g * 65536 + h" "g < 65536" "h < 65536"
  shows "routable (A6 w) \<longleftrightarrow> public6 g h"
proof -
  let ?n = "unat w" and ?t = "unat w div 2 ^ 96"
  have k: "?n div 2 ^ 96 div m = ?n div (2 ^ 96 * m)" for m by (simp only: div_mult2_eq)
  have d: "?n div 2 ^ 105 = ?t div 512" "?n div 2 ^ 108 = ?t div 4096" "?n div 2 ^ 112 = ?t div 65536" "?n div 2 ^ 125 = ?t div 536870912"
    unfolding k by simp_all
  have t: "?t div 65536 = g" "?t div 512 = g * 128 + h div 512" "?t div 4096 = g * 16 + h div 4096" "?t div 536870912 = g div 8192"
    unfolding assms(1) using assms(2,3) by (simp; linarith?)+
  have b: "h div 512 < 128" "h div 4096 < 16" using assms(3) by linarith+
  show ?thesis
  proof (cases "g div 8192 = 1")
    case False
    then have "\<not> prefix_contains allocated_unicast (A6 w)" using d(4) t(4) by (simp add: allocated_unicast_def prefix6 unat_ip6_of)
    moreover have "\<not> (0x2000 \<le> g \<and> g < 0x4000)" using False by linarith
    ultimately show ?thesis by (auto simp: routable_def is6_def public6_def)
  next
    case True
    then have g: "8192 \<le> g" "g < 16384" by linarith+
    have al: "prefix_contains allocated_unicast (A6 w)" using True d(4) t(4) by (simp add: allocated_unicast_def prefix6 unat_ip6_of)
    have n: "?n div 2 ^ 125 = 1" using True d(4) t(4) by simp
    have p: "list_ex (\<lambda>p. prefix_contains p (A6 w)) nonpublic_prefixes \<longleftrightarrow>
        ?n div 2 ^ 32 = 0 \<or> ?n div 2 ^ 80 = 0x64FF9B0001 \<or> ?n div 2 ^ 64 = 0x100000000000000 \<or> ?n div 2 ^ 64 = 0x100000000000001
        \<or> ?n div 2 ^ 105 = 1048704 \<or> ?n div 2 ^ 96 = 0x20010DB8 \<or> ?n div 2 ^ 112 = 0x2002 \<or> ?n div 2 ^ 108 = 0x3FFF0
        \<or> ?n div 2 ^ 112 = 0x5F00 \<or> ?n div 2 ^ 121 = 0x7E \<or> ?n div 2 ^ 118 = 0x3FB \<or> ?n div 2 ^ 118 = 0x3FA \<or> ?n div 2 ^ 120 = 0xFF"
      by (simp add: nonpublic_prefixes_def prefix6 prefix_other unat_ip6_of)
    have far: "?n div 2 ^ 32 \<noteq> 0" "?n div 2 ^ 80 \<noteq> 0x64FF9B0001" "?n div 2 ^ 64 \<noteq> 0x100000000000000" "?n div 2 ^ 64 \<noteq> 0x100000000000001"
      "?n div 2 ^ 121 \<noteq> 0x7E" "?n div 2 ^ 118 \<noteq> 0x3FB" "?n div 2 ^ 118 \<noteq> 0x3FA" "?n div 2 ^ 120 \<noteq> 0xFF" "?n \<noteq> 0" "?n \<noteq> 1"
      using n by (simp; linarith)+
    have e: "?n div 2 ^ 105 = 1048704 \<longleftrightarrow> g = 0x2001 \<and> h div 512 = 0"
      "?n div 2 ^ 112 = c \<longleftrightarrow> g = c" "?n div 2 ^ 108 = 0x3FFF0 \<longleftrightarrow> g = 0x3FFF \<and> h div 4096 = 0"
      "g * 65536 + h = 0x20010DB8 \<longleftrightarrow> g = 0x2001 \<and> h = 0xDB8" for c
      unfolding d t
      using digit_inject [OF b(1), of 0 g 8193] digit_inject [OF assms(3), of 3512 g 8193] digit_inject [OF b(2), of 0 g 16383] by simp_all
    have e2: "?n div 2 ^ 96 = 0x20010DB8 \<longleftrightarrow> g = 0x2001 \<and> h = 0xDB8" unfolding assms(1) by (rule e(4))
    have q: "h div 512 = 0 \<longleftrightarrow> h < 512" "h div 4096 = 0 \<longleftrightarrow> h < 4096" by linarith+
    have "g \<noteq> 0x5F00" using g by simp
    then show ?thesis
      unfolding routable_def p unicast6 e(1-3) e2 q public6_def is6_def addr.case using far al g by argo
  qed
qed

lemma heads: "length mapped_head = 12" "\<forall>b \<in> set mapped_head. b < 256" "length nat64_head = 12" "\<forall>b \<in> set nat64_head. b < 256"
  "nat_of_bytes mapped_head = 65535" "nat_of_bytes nat64_head = 122099644659926101980610560"
  by (simp_all add: mapped_head_def nat64_head_def nat_of_bytes_def)

lemma take_four: "4 \<le> length xs \<Longrightarrow> take 4 xs = [xs ! 0, xs ! 1, xs ! 2, xs ! 3]"
  by (auto simp: numeral_eq_Suc Suc_le_length_iff)

text \<open>C24.  The address policy of notices is the one of the registries, in every form an address can take: four bytes, sixteen bytes of a mapped
  or NAT64 translated IPv4 address (judged by the IPv4 address inside), and any other sixteen bytes, which must be allocated global unicast
  outside the special blocks.\<close>
theorem endpoint_policy: "publicly_routable ip \<longleftrightarrow> policy (map unat ip)"
proof -
  let ?bs = "map unat ip"
  have small: "\<forall>b \<in> set ?bs. b < 256" using byte_word_less by auto
  have four: "routable (A4 (word_rcat xs)) \<longleftrightarrow> public4 (map unat xs)" if l: "length xs = 4" for xs :: "u8 list"
  proof -
    obtain a b c d where xs: "xs = [a, b, c, d]" using l by (auto simp: length_Suc_conv eval_nat_numeral)
    have "unat (word_rcat xs :: ip4) = nat_of_bytes (map unat xs)" by (rule word_rcat_unat) (simp add: l)
    then show ?thesis using routable4 [of "unat a" "unat b" "unat c" "unat d" "word_rcat xs"] byte_word_less by (simp add: xs)
  qed
  consider "length ip = 4" | "length ip = 16" | "length ip \<noteq> 4" "length ip \<noteq> 16" by blast
  then show ?thesis
  proof cases
    case 1
    then show ?thesis
      by (simp add: publicly_routable_def addr_from_slice_def unmap_def embedded_ip4_def nat64_prefix_def prefix_other four policy_def)
  next
    case 2
    let ?w = "word_rcat ip :: ip6"
    let ?hd = "take 12 ip" and ?tl = "drop 12 ip"
    have w: "unat ?w = nat_of_bytes ?bs" by (rule word_rcat_unat) (simp add: 2)
    have sp: "?bs = map unat ?hd @ map unat ?tl" by (metis append_take_drop_id map_append)
    have tl: "length ?tl = 4" "nat_of_bytes (map unat ?tl) < 2 ^ 32"
      using 2 nat_of_bytes_bound [of "map unat ?tl"] byte_word_less by auto
    have n: "unat ?w = nat_of_bytes (map unat ?hd) * 2 ^ 32 + nat_of_bytes (map unat ?tl)"
      unfolding w sp nat_of_bytes_append using tl(1) by simp
    have hi: "unat ?w div 2 ^ 32 = nat_of_bytes (map unat ?hd)" unfolding n using tl(2) by simp
    have head: "nat_of_bytes (map unat ?hd) = nat_of_bytes hs \<longleftrightarrow> take 12 ?bs = hs" if "length hs = 12" "\<forall>b \<in> set hs. b < 256" for hs
      using nat_of_bytes_inject [of "map unat ?hd" hs] that 2 byte_word_less by (auto simp: take_map)
    have low: "ucast ?w = (word_rcat ?tl :: ip4)"
    proof (rule word_unat_eq_iff [THEN iffD2])
      have "unat (ucast ?w :: ip4) = unat ?w mod 2 ^ 32" by (simp add: unsigned_ucast_eq take_bit_eq_mod)
      also have "\<dots> = nat_of_bytes (map unat ?tl)" unfolding n using tl(2) by simp
      also have "\<dots> = unat (word_rcat ?tl :: ip4)" by (rule word_rcat_unat [symmetric]) (use tl(1) in simp)
      finally show "unat (ucast ?w :: ip4) = unat (word_rcat ?tl :: ip4)" .
    qed
    have m: "drop_bit 32 ?w = 0xFFFF \<longleftrightarrow> take 12 ?bs = mapped_head"
    proof -
      have "drop_bit 32 ?w = 0xFFFF \<longleftrightarrow> unat ?w div 2 ^ 32 = 65535" by (simp add: word_unat_eq_iff unat_drop)
      then show ?thesis using head [OF heads(1,2)] by (simp only: hi heads(5))
    qed
    have x: "prefix_contains nat64_prefix (A6 ?w) \<longleftrightarrow> take 12 ?bs = nat64_head"
    proof -
      have "prefix_contains nat64_prefix (A6 ?w) \<longleftrightarrow> unat ?w div 2 ^ 32 = 122099644659926101980610560"
        by (simp add: nat64_prefix_def prefix6 unat_ip6_of)
      then show ?thesis using head [OF heads(3,4)] by (simp only: hi heads(6))
    qed
    have e: "publicly_routable ip \<longleftrightarrow> (if take 12 ?bs \<in> {mapped_head, nat64_head} then routable (A4 (word_rcat ?tl)) else routable (A6 ?w))"
      using 2 m x by (auto simp: publicly_routable_def addr_from_slice_def unmap_def embedded_ip4_def low prefix_other nat64_prefix_def)
    let ?g = "?bs ! 0 * 256 + ?bs ! 1" and ?h = "?bs ! 2 * 256 + ?bs ! 3"
    have i: "?bs ! 0 < 256" "?bs ! 1 < 256" "?bs ! 2 < 256" "?bs ! 3 < 256" using byte_word_less 2 by simp_all
    have gh: "?g < 65536" "?h < 65536" using i by linarith+
    have f: "take 4 ?bs = [?bs ! 0, ?bs ! 1, ?bs ! 2, ?bs ! 3]" by (rule take_four) (simp add: 2)
    have "\<forall>b \<in> set (drop 4 ?bs). b < 256" using small by (meson in_set_dropD)
    then have r: "nat_of_bytes (drop 4 ?bs) < 2 ^ 96" using nat_of_bytes_bound [of "drop 4 ?bs"] 2 by simp
    have "unat ?w = nat_of_bytes (take 4 ?bs @ drop 4 ?bs)" unfolding append_take_drop_id by (rule w)
    also have "\<dots> = nat_of_bytes (take 4 ?bs) * 2 ^ 96 + nat_of_bytes (drop 4 ?bs)" unfolding nat_of_bytes_append by (simp add: 2)
    finally have "unat ?w div 2 ^ 96 = nat_of_bytes (take 4 ?bs)" using r by simp
    also have "\<dots> = ?g * 65536 + ?h" unfolding f nat_of_bytes_def by simp
    finally have six: "routable (A6 ?w) \<longleftrightarrow> public6 ?g ?h" using gh by (rule routable6)
    have "routable (A4 (word_rcat ?tl)) \<longleftrightarrow> public4 (drop 12 ?bs)" using four [OF tl(1)] by (simp only: drop_map)
    then show ?thesis unfolding e six policy_def using 2 by simp
  qed (simp_all add: publicly_routable_def addr_from_slice_def policy_def)
qed

section \<open>What is dialled\<close>

lemma dial_all_tried: "dial_all dial as = (tried, r) \<Longrightarrow> set tried \<subseteq> set as"
  by (induction as arbitrary: tried) (auto split: option.splits prod.splits)

lemma dial_all_some: "dial_all dial as = (tried, Some c) \<Longrightarrow> tried \<noteq> [] \<and> dial (last tried) = Some c"
  by (induction as arbitrary: tried) (auto split: option.splits prod.splits)

lemma safe_addresses_public: "safe_addresses resolve h = Inr as \<Longrightarrow> as \<noteq> [] \<and> (\<forall>a \<in> set as. publicly_routable a)"
  by (auto simp: safe_addresses_def list_all_iff split: option.splits if_splits)

text \<open>C23.  A push request connects only to publicly routable addresses of the very answer that was checked: whatever a name resolves to
  at another time, no other address is dialled, and the connection it gets is to one of them.\<close>
theorem safe_dial_public:
  assumes "safe_dial resolve dial address = (tried, r)"
  shows "(\<forall>a \<in> set tried. policy (map unat a))
    \<and> (\<forall>c. r = Inr c \<longrightarrow> tried \<noteq> [] \<and> dial (last tried) = Some c)
    \<and> (tried \<noteq> [] \<longrightarrow> (\<exists>h p as. address = Some (h, p) \<and> safe_addresses resolve h = Inr as \<and> set tried \<subseteq> set as
         \<and> (parse_ip h = None \<longrightarrow> resolve h = Some as)))"
proof (cases address)
  case None
  then show ?thesis using assms by (auto simp: safe_dial_def)
next
  case (Some hp)
  obtain h p where hp: "hp = (h, p)" by (cases hp)
  show ?thesis
  proof (cases "safe_addresses resolve h")
    case (Inl e)
    then show ?thesis using assms by (auto simp: safe_dial_def Some hp)
  next
    case (Inr as)
    obtain t c where d: "dial_all dial as = (t, c)" by (meson surj_pair)
    have t: "tried = t" "\<And>x. r = Inr x \<Longrightarrow> c = Some x"
      using assms by (auto simp: safe_dial_def Some hp Inr d split: option.splits)
    have sub: "set t \<subseteq> set as" by (rule dial_all_tried [OF d])
    have "parse_ip h = None \<longrightarrow> resolve h = Some as" using Inr by (auto simp: safe_addresses_def split: option.splits if_splits)
    moreover have "\<forall>a \<in> set t. policy (map unat a)" using safe_addresses_public [OF Inr] sub by (auto simp: endpoint_policy)
    moreover have "\<forall>x. r = Inr x \<longrightarrow> t \<noteq> [] \<and> dial (last t) = Some x" using t(2) dial_all_some d by metis
    ultimately show ?thesis using Inr sub by (auto simp: Some hp t(1))
  qed
qed

text \<open>A name that resolves to a push service and then to a machine of the network.\<close>
definition rebinding :: "u8 list list \<Rightarrow> resolver" where "rebinding as = (\<lambda>h. Some as)"

theorem safe_dial_public_witness:
  "safe_dial (rebinding [[93, 184, 216, 34]]) Some (Some (''push'', ''443'')) = ([[93, 184, 216, 34]], Inr [93, 184, 216, 34])
   \<and> policy [93, 184, 216, 34] \<and> fst (safe_dial (rebinding [[93, 184, 216, 34], [10, 0, 0, 1]]) Some (Some (''push'', ''443''))) = []"
proof -
  have n: "parse_ip ''push'' = None" by (simp add: parse_ip_def)
  have a: "publicly_routable [93, 184, 216, 34]" "\<not> publicly_routable [10, 0, 0, 1]" by (simp_all add: endpoint_policy policy_def public4_def)
  have s: "safe_dial (rebinding [[93, 184, 216, 34]]) Some (Some (''push'', ''443'')) = ([[93, 184, 216, 34]], Inr [93, 184, 216, 34])"
    by (simp add: safe_dial_def safe_addresses_def n rebinding_def a)
  have "fst (safe_dial (rebinding [[93, 184, 216, 34], [10, 0, 0, 1]]) Some (Some (''push'', ''443''))) = []"
    by (simp add: safe_dial_def safe_addresses_def n rebinding_def a)
  with s safe_dial_public [OF s] show ?thesis by simp
qed

end
