(* ===== verification/RuneText.thy ===== *)
theory RuneText
  imports Utf8
begin

text \<open>
  Texts as the list of their characters: what \<open>strings.TrimSpace\<close> and cutting at a byte do to them.
\<close>

definition rune_chunk :: "nat \<Rightarrow> nat \<times> string \<times> bool" where "rune_chunk r = (r, encode_rune r, True)"

lemma rune_chunk_parts: "chunk_bytes (map rune_chunk rs) = encode_runes rs" "chunk_space (rune_chunk r) \<longleftrightarrow> is_space r"
  by (simp_all add: rune_chunk_def encode_runes_def comp_def)

lemma chunk_space_comp: "chunk_space \<circ> rune_chunk = is_space" "(\<lambda>x. \<not> chunk_space x) \<circ> rune_chunk = (\<lambda>r. \<not> is_space r)"
  by (simp_all add: fun_eq_iff rune_chunk_def)

lemma chunks_encode: "list_all scalar_value rs \<Longrightarrow> rune_chunks (encode_runes rs) = map rune_chunk rs"
  by (simp add: rune_chunks_encode_runes rune_chunk_def [abs_def])

lemma encode_runes_append: "encode_runes (xs @ ys) = encode_runes xs @ encode_runes ys" "encode_runes [] = []"
  by (simp_all add: encode_runes_def)

section \<open>Trimming\<close>

definition trim_runes :: "nat list \<Rightarrow> nat list" where
  "trim_runes rs = rev (dropWhile is_space (rev (dropWhile is_space rs)))"

lemma trim_space_encode_eq:
  assumes "list_all scalar_value rs"
  shows "trim_space (encode_runes rs) = encode_runes (trim_runes rs)"
proof -
  have "trim_space (encode_runes rs) = chunk_bytes (map rune_chunk (trim_runes rs))"
    unfolding trim_space_def trim_runes_def chunks_encode [OF assms] dropWhile_map chunk_space_comp rev_map ..
  then show ?thesis by (simp only: rune_chunk_parts)
qed

lemma set_trim_runes: "set (trim_runes rs) \<subseteq> set rs"
  by (auto simp: trim_runes_def dest!: set_dropWhileD)

lemma length_trim_runes: "length (trim_runes rs) \<le> length rs"
  using length_dropWhile_le [of is_space "rev (dropWhile is_space rs)"] length_dropWhile_le [of is_space rs] by (simp add: trim_runes_def)

definition trimmed :: "nat list \<Rightarrow> bool" where
  "trimmed rs \<longleftrightarrow> rs = [] \<or> \<not> is_space (hd rs) \<and> \<not> is_space (last rs)"

lemma dropWhile_hd: "rs \<noteq> [] \<Longrightarrow> \<not> P (hd rs) \<Longrightarrow> dropWhile P rs = rs"
  by (cases rs) simp_all

lemma trim_runes_id: "trimmed rs \<Longrightarrow> trim_runes rs = rs"
  by (cases "rs = []") (simp_all add: trimmed_def trim_runes_def dropWhile_hd hd_rev)

lemma trimmed_trim: "trimmed (trim_runes rs)"
proof -
  let ?d = "dropWhile is_space rs" and ?e = "dropWhile is_space (rev (dropWhile is_space rs))"
  show ?thesis
  proof (cases "?e = []")
    case False
    then have l: "\<not> is_space (hd ?e)" using hd_dropWhile by blast
    have ne: "?d \<noteq> []" using False by (metis dropWhile.simps(1) rev.simps(1))
    then have h: "\<not> is_space (hd ?d)" using hd_dropWhile by blast
    obtain ys where "rev ?d = ys @ ?e" by (metis takeWhile_dropWhile_id)
    then have "?d = rev ?e @ rev ys" by (metis rev_append rev_rev_ident)
    then have "hd (rev ?e) = hd ?d" using False by (metis hd_append2 rev_is_Nil_conv)
    then show ?thesis using l h False by (simp only: trimmed_def trim_runes_def last_rev) simp
  qed (simp add: trimmed_def trim_runes_def)
qed

section \<open>Cutting between characters\<close>

text \<open>\<open>utf8.RuneStart\<close>, and going back to the start of a character.\<close>
definition rune_start :: "char \<Rightarrow> bool" where "rune_start c \<longleftrightarrow> \<not> is_cont (byte c)"

fun cut_back :: "string \<Rightarrow> nat \<Rightarrow> nat" where
  "cut_back s 0 = 0"
| "cut_back s (Suc n) = (if rune_start (s ! Suc n) then Suc n else cut_back s n)"

lemma scalar_rune: "scalar_value r \<Longrightarrow> encode_rune r = (if r < 0x80 then [chr r]
    else if r < 0x800 then [chr (0xC0 + r div 64), chr (0x80 + r mod 64)]
    else if r < 0x10000 then [chr (0xE0 + r div 4096), chr (0x80 + r div 64 mod 64), chr (0x80 + r mod 64)]
    else [chr (0xF0 + r div 262144), chr (0x80 + r div 4096 mod 64), chr (0x80 + r div 64 mod 64), chr (0x80 + r mod 64)])"
  by (auto simp: encode_rune_def scalar_value_def Let_def)

lemma encode_rune_ascii: "r < 128 \<Longrightarrow> encode_rune r = [chr r]"
  by (simp add: encode_rune_def)

lemma encode_rune_high:
  assumes "scalar_value r" "\<not> r < 128" "c \<in> set (encode_rune r)"
  shows "128 \<le> byte c"
proof -
  have m: "x mod 64 < 64" for x :: nat by simp
  have "r div 64 < 32" if "r < 0x800" using that by (simp add: less_mult_imp_div_less)
  moreover have "r div 4096 < 16" if "r < 0x10000" using that by (simp add: less_mult_imp_div_less)
  moreover have "r div 262144 < 5" using assms(1) by (simp add: scalar_value_def less_mult_imp_div_less)
  moreover have b: "128 \<le> byte (chr (n + x))" if "128 \<le> n" "n + x < 256" for n x using that by simp
  ultimately show ?thesis using assms(2,3) m [of r] m [of "r div 64"] m [of "r div 4096"]
    by (simp only: scalar_rune [OF assms(1)] if_False split: if_splits) (auto intro!: b simp del: byte_chr)
qed

lemma is_cont_low: "x < 64 \<Longrightarrow> is_cont (byte (chr (128 + x)))"
  by (simp add: is_cont_def)

lemma encode_rune_shape:
  assumes "scalar_value r"
  shows "\<exists>c cs. encode_rune r = c # cs \<and> rune_start c \<and> (\<forall>d \<in> set cs. \<not> rune_start d)"
proof -
  have m: "x mod 64 < 64" for x :: nat by simp
  note cont = is_cont_low [OF m, of r] is_cont_low [OF m, of "r div 64"] is_cont_low [OF m, of "r div 4096"]
  consider "r < 0x80" | "\<not> r < 0x80" "r < 0x800" | "\<not> r < 0x800" "r < 0x10000" | "\<not> r < 0x10000" by blast
  then show ?thesis
  proof cases
    case 1
    then show ?thesis by (simp add: scalar_rune [OF assms] rune_start_def is_cont_def)
  next
    case 2
    then have "r div 64 < 32" by (simp add: less_mult_imp_div_less)
    then have "rune_start (chr (0xC0 + r div 64))" by (simp add: rune_start_def is_cont_def)
    then show ?thesis using 2 cont(1) by (simp add: scalar_rune [OF assms] rune_start_def)
  next
    case 3
    then have "r div 4096 < 16" by (simp add: less_mult_imp_div_less)
    then have "rune_start (chr (0xE0 + r div 4096))" by (simp add: rune_start_def is_cont_def)
    then show ?thesis using 3 cont(1,2) by (simp add: scalar_rune [OF assms] rune_start_def)
  next
    case 4
    have "r div 262144 < 5" using assms by (simp add: scalar_value_def less_mult_imp_div_less)
    then have "rune_start (chr (0xF0 + r div 262144))" by (simp add: rune_start_def is_cont_def)
    then show ?thesis using 4 cont by (simp add: scalar_rune [OF assms] rune_start_def)
  qed
qed

lemma encode_rune_start:
  assumes "scalar_value r"
  shows "rune_start (encode_rune r ! 0)" and "0 < i \<Longrightarrow> i < length (encode_rune r) \<Longrightarrow> \<not> rune_start (encode_rune r ! i)"
  using encode_rune_shape [OF assms] by (auto simp: nth_Cons')

lemma encode_runes_Cons: "encode_runes (r # rs) = encode_rune r @ encode_runes rs"
  by (simp add: encode_runes_def)

lemma cut_back_inside:
  assumes "scalar_value r" "n < length (encode_rune r)"
  shows "cut_back (encode_rune r @ t) n = 0"
  using assms(2)
proof (induction n)
  case (Suc n)
  then show ?case using encode_rune_start(2) [OF assms(1), of "Suc n"] by (simp add: nth_append)
qed simp

lemma cut_back_after:
  assumes "scalar_value r" "t \<noteq> []" "rune_start (hd t)"
  shows "cut_back (encode_rune r @ t) (length (encode_rune r) + m) = length (encode_rune r) + cut_back t m"
proof (induction m)
  case 0
  obtain k where k: "length (encode_rune r) = Suc k" by (cases "encode_rune r") auto
  have "(encode_rune r @ t) ! length (encode_rune r) = hd t" using assms(2) by (simp add: nth_append hd_conv_nth)
  then show ?case using assms(3) k by simp
next
  case (Suc m)
  have "(encode_rune r @ t) ! Suc (length (encode_rune r) + m) = t ! Suc m" by (simp add: nth_append)
  then show ?case using Suc by simp
qed

lemma encode_runes_start: "list_all scalar_value rs \<Longrightarrow> rs \<noteq> [] \<Longrightarrow> rune_start (hd (encode_runes rs))"
  by (cases rs) (auto simp: encode_runes_Cons hd_append hd_conv_nth encode_rune_start(1))

lemma encode_runes_Nil [simp]: "encode_runes rs = [] \<longleftrightarrow> rs = []"
  by (cases rs) (simp_all add: encode_runes_def)

text \<open>Cutting at the start of a character leaves whole characters.\<close>
lemma take_cut_back:
  assumes "list_all scalar_value rs" "n < length (encode_runes rs)"
  shows "\<exists>k. take (cut_back (encode_runes rs) n) (encode_runes rs) = encode_runes (take k rs)"
  using assms
proof (induction rs arbitrary: n)
  case (Cons r rs)
  let ?e = "encode_rune r" and ?t = "encode_runes rs"
  have s: "scalar_value r" "list_all scalar_value rs" using Cons.prems(1) by simp_all
  show ?case
  proof (cases "n < length ?e")
    case True
    then show ?thesis using cut_back_inside [OF s(1) True] by (intro exI [of _ 0]) (simp add: encode_runes_Cons encode_runes_def)
  next
    case False
    then obtain m where m: "n = length ?e + m" using le_Suc_ex not_less by blast
    then have lt: "m < length ?t" using Cons.prems(2) by (simp add: encode_runes_Cons)
    then have "rs \<noteq> []" by (auto simp: encode_runes_append(2))
    then have c: "cut_back (?e @ ?t) n = length ?e + cut_back ?t m"
      unfolding m using cut_back_after [OF s(1)] encode_runes_start [OF s(2)] by simp
    obtain k where "take (cut_back ?t m) ?t = encode_runes (take k rs)" using Cons.IH [OF s(2) lt] by blast
    then show ?thesis by (intro exI [of _ "Suc k"]) (simp add: encode_runes_Cons c)
  qed
qed (simp add: encode_runes_append(2))

lemma cut_back_le: "cut_back s n \<le> n"
  by (induction n) auto

text \<open>The last dot of a text is the last dot among its characters.\<close>
lemma ascii_in_encode: "list_all scalar_value rs \<Longrightarrow> byte c < 128 \<Longrightarrow> c \<in> set (encode_runes rs) \<longleftrightarrow> byte c \<in> set rs"
proof (induction rs)
  case (Cons r rs)
  have "c \<in> set (encode_rune r) \<longleftrightarrow> r = byte c"
  proof (cases "r < 128")
    case True
    then show ?thesis by (auto simp: encode_rune_ascii)
  next
    case False
    then show ?thesis using encode_rune_high [of r c] Cons.prems by auto
  qed
  then show ?case using Cons by (auto simp: encode_runes_Cons)
qed (simp add: encode_runes_def)

end
