(* ===== verification/NotifyFacts.thy ===== *)
theory NotifyFacts
  imports NotifyTypes RuneText
begin

text \<open>
  What notices guarantee: saved settings are read back; a notice shows only visible text in names of bounded
  length; its destination names exactly one terminal; and comparing reads reports exactly the changes.
\<close>

section \<open>Settings\<close>

text \<open>Notification settings are read back as they were saved.\<close>
theorem settings_roundtrip: "unmarshal_settings (marshal_settings s) = Some s"
  by (simp add: unmarshal_settings_def marshal_settings_def struct_fields_def settings_fields_def known_fields_def decode_settings_def
      get_bool_def get_ptr_bool_def entries_code ascii7_def bool_or_null_def bool_of_def last_or_null_def or_on_def Let_def)

section \<open>Text\<close>

function words :: "nat list \<Rightarrow> nat list list" where
  "words rs =
     (let ys = dropWhile is_space rs
      in if ys = [] then [] else takeWhile (\<lambda>r. \<not> is_space r) ys # words (dropWhile (\<lambda>r. \<not> is_space r) ys))"
  by pat_completeness auto
termination
proof (relation "measure length", simp)
  fix rs ys
  assume ys: "ys = dropWhile is_space rs" and ne: "ys \<noteq> []"
  have "\<not> is_space (hd ys)" using ne hd_dropWhile [of is_space rs] by (simp add: ys)
  then have "length (dropWhile (\<lambda>r. \<not> is_space r) ys) < length ys"
    using ne length_dropWhile_le [of "\<lambda>r. \<not> is_space r" "tl ys"] by (cases ys) auto
  also have "\<dots> \<le> length rs" by (simp add: ys length_dropWhile_le)
  finally show "(dropWhile (\<lambda>r. \<not> is_space r) ys, rs) \<in> measure length" by simp
qed

declare words.simps [simp del]

lemma words_Nil [simp]: "words [] = []"
  by (simp add: words.simps)

lemma words_space: "is_space r \<Longrightarrow> words (r # rs) = words rs"
  by (simp add: words.simps [of "r # rs"] words.simps [of rs])

lemma words_word:
  assumes "w \<noteq> []" "list_all (\<lambda>r. \<not> is_space r) w" "rs = [] \<or> is_space (hd rs)"
  shows "words (w @ rs) = w # words rs"
proof -
  have d: "dropWhile is_space (w @ rs) = w @ rs" using assms(1,2) by (cases w) auto
  have t: "takeWhile (\<lambda>r. \<not> is_space r) (w @ rs) = w" "dropWhile (\<lambda>r. \<not> is_space r) (w @ rs) = rs"
    using assms(2,3) by (auto simp: list_all_iff takeWhile_append dropWhile_append takeWhile_eq_Nil_iff) (cases rs; auto)+
  show ?thesis using assms(1) by (subst words.simps) (simp add: d t)
qed

lemma words_mem: "w \<in> set (words rs) \<Longrightarrow> w \<noteq> [] \<and> list_all (\<lambda>r. \<not> is_space r) w \<and> set w \<subseteq> set rs"
proof (induction rs arbitrary: w rule: words.induct)
  case (1 rs)
  let ?ys = "dropWhile is_space rs"
  show ?case
  proof (cases "?ys = []")
    case False
    have "\<not> is_space (hd ?ys)" using False hd_dropWhile [of is_space rs] by simp
    then have ne: "takeWhile (\<lambda>r. \<not> is_space r) ?ys \<noteq> []" using False by (cases ?ys) auto
    have sub: "set (takeWhile (\<lambda>r. \<not> is_space r) ?ys) \<subseteq> set rs" "set (dropWhile (\<lambda>r. \<not> is_space r) ?ys) \<subseteq> set rs"
      by (auto dest: set_takeWhileD set_dropWhileD)
    have all: "list_all (\<lambda>r. \<not> is_space r) (takeWhile (\<lambda>r. \<not> is_space r) ?ys)" by (auto simp: list_all_iff dest: set_takeWhileD)
    from 1(2) False consider "w = takeWhile (\<lambda>r. \<not> is_space r) ?ys" | "w \<in> set (words (dropWhile (\<lambda>r. \<not> is_space r) ?ys))"
      using words.simps [of rs] by (auto simp: Let_def split: if_splits)
    then show ?thesis
    proof cases
      case 1
      then show ?thesis using ne sub all by simp
    next
      case 2
      from "1.IH" [OF refl False 2] sub show ?thesis by blast
    qed
  qed (use 1(2) in \<open>simp add: words.simps\<close>)
qed

fun join_words :: "nat list list \<Rightarrow> nat list" where
  "join_words [] = []"
| "join_words [w] = w"
| "join_words (w # ws) = w @ 32 # join_words ws"

lemma is_space_32 [simp]: "is_space 32" by (simp add: is_space_def)

lemma words_join:
  "\<forall>w \<in> set ws. w \<noteq> [] \<and> list_all (\<lambda>r. \<not> is_space r) w \<Longrightarrow> words (join_words ws) = ws"
  by (induction ws rule: join_words.induct) (simp_all add: words_word [where rs = "[]", simplified] words_word words_space)

lemma join_words_mem: "r \<in> set (join_words ws) \<Longrightarrow> r = 32 \<or> (\<exists>w \<in> set ws. r \<in> set w)"
  by (induction ws rule: join_words.induct) auto

lemma fields_of_chunks: "fields_of (map rune_chunk rs) = map encode_runes (words rs)"
proof (induction rs rule: words.induct)
  case (1 rs)
  let ?ys = "dropWhile is_space rs"
  have d: "dropWhile chunk_space (map rune_chunk rs) = map rune_chunk ?ys"
    unfolding dropWhile_map chunk_space_comp ..
  have t: "takeWhile (\<lambda>x. \<not> chunk_space x) (map rune_chunk ?ys) = map rune_chunk (takeWhile (\<lambda>r. \<not> is_space r) ?ys)"
    "dropWhile (\<lambda>x. \<not> chunk_space x) (map rune_chunk ?ys) = map rune_chunk (dropWhile (\<lambda>r. \<not> is_space r) ?ys)"
    unfolding dropWhile_map takeWhile_map chunk_space_comp by (rule refl)+
  show ?case
    unfolding fields_of.simps [of "map rune_chunk rs"] words.simps [of rs] Let_def d t rune_chunk_parts(1)
    using 1 [OF refl] by simp
qed

lemma fields_encode_runes: "list_all scalar_value rs \<Longrightarrow> Utf8.fields (encode_runes rs) = map encode_runes (words rs)"
  by (simp add: Utf8.fields_def chunks_encode fields_of_chunks)

lemma encode_space: "encode_runes (32 # rs) = CHR '' '' # encode_runes rs"
proof -
  have "char_of (32 :: nat) = CHR '' ''" by code_simp
  then show ?thesis by (simp add: encode_runes_def encode_rune_def chr_def)
qed

lemma join_space_encode: "join_space (map encode_runes ws) = encode_runes (join_words ws)"
  by (induction ws rule: join_words.induct) (auto simp: join_space_def encode_runes_append encode_space)

section \<open>Clean text\<close>

text \<open>What may be shown of untrusted text.\<close>
definition visible_rune :: "nat \<Rightarrow> bool" where
  "visible_rune r \<longleftrightarrow> r = 32 \<or> (\<not> is_space r \<and> \<not> is_control r \<and> \<not> is_format r \<and> r \<noteq> rune_error)"

definition clean_runes :: "string \<Rightarrow> nat list" where
  "clean_runes t = join_words (words (List.map_filter clean_rune (runes t)))"

lemma set_map_filter_eq: "y \<in> set (List.map_filter f xs) \<longleftrightarrow> (\<exists>x \<in> set xs. f x = Some y)"
  by (induction xs) (auto simp: List.map_filter_simps split: option.splits)

lemma clean_rune_visible: "clean_rune r = Some r' \<Longrightarrow> visible_rune r'"
  by (auto simp: clean_rune_def visible_rune_def split: if_splits)

lemma clean_rune_scalar: "clean_rune r = Some r' \<Longrightarrow> scalar_value r \<Longrightarrow> scalar_value r'"
  by (auto simp: clean_rune_def scalar_byte split: if_splits)

lemma clean_rune_id: "visible_rune r \<Longrightarrow> clean_rune r = Some r"
  by (auto simp: clean_rune_def visible_rune_def rune_error_def)

lemma mapped_runes: "list_all scalar_value (List.map_filter clean_rune (runes t))" "list_all visible_rune (List.map_filter clean_rune (runes t))"
  using runes_scalar [of t] clean_rune_visible clean_rune_scalar by (fastforce simp: list_all_iff set_map_filter_eq)+

lemma clean_runes_mem: "r \<in> set (clean_runes t) \<Longrightarrow> visible_rune r \<and> scalar_value r"
  using mapped_runes [of t] words_mem unfolding clean_runes_def
  by (auto simp: list_all_iff scalar_byte visible_rune_def dest!: join_words_mem) blast+

lemma clean_text_eq: "clean_notification_text t = encode_runes (clean_runes t)"
  unfolding clean_notification_text_def clean_runes_def fields_encode_runes [OF mapped_runes(1)] join_space_encode ..

lemma clean_text_runes [simp]: "runes (clean_notification_text t) = clean_runes t"
  using clean_runes_mem [of _ t] by (simp add: clean_text_eq runes_encode_runes list_all_iff)

lemma map_filter_id: "\<forall>x \<in> set xs. f x = Some x \<Longrightarrow> List.map_filter f xs = xs"
  by (induction xs) (auto simp: List.map_filter_simps)

lemma clean_runes_again: "clean_runes (clean_notification_text t) = clean_runes t"
proof -
  have "List.map_filter clean_rune (clean_runes t) = clean_runes t"
    using clean_runes_mem [of _ t] by (intro map_filter_id) (auto intro: clean_rune_id)
  then show ?thesis
    unfolding clean_runes_def [of "clean_notification_text t"] clean_text_runes
    using words_join words_mem by (simp add: clean_runes_def)
qed

lemma trim_space_encode:
  assumes "list_all scalar_value rs"
  shows "\<exists>us. trim_space (encode_runes rs) = encode_runes us \<and> set us \<subseteq> set rs \<and> length us \<le> length rs"
  using trim_space_encode_eq [OF assms] set_trim_runes [of rs] length_trim_runes [of rs] by blast

lemma length_runes: "rune_count s = length (runes s)"
  by (simp add: rune_count_def runes_def)

lemma ellipsis_shown: "visible_rune 0x2026" "scalar_value 0x2026"
  by (simp_all add: visible_rune_def is_space_def is_control_def is_format_def cf_ranges_def rune_error_def scalar_value_def)

text \<open>C26.  What a notice shows of a name it does not control: the text is clean of control, format and invalid characters and of runs
  of spaces (cleaning it again changes nothing), a given name has at most 60 characters, a workspace name and the label of a sign-in
  at most 160, and a clean name that fits is shown as it is.\<close>
theorem notice_names_safe:
  "clean_notification_text (clean_notification_text t) = clean_notification_text t
   \<and> (\<forall>name \<in> {clean_notification_text t, notification_given_name t, notification_workspace_name t, notification_trust_label t}.
        (\<forall>r \<in> set (runes name). visible_rune r) \<and> valid_utf8 name)
   \<and> rune_count (notification_given_name t) \<le> 60 \<and> rune_count (notification_workspace_name t) \<le> 160
   \<and> rune_count (notification_trust_label t) \<le> 160
   \<and> (rune_count (clean_notification_text t) > 60 \<or> notification_given_name t = clean_notification_text t)"
proof -
  let ?c = "clean_notification_text t"
  have good: "(\<forall>r \<in> set (runes (encode_runes rs)). visible_rune r) \<and> valid_utf8 (encode_runes rs)"
    if "\<forall>r \<in> set rs. visible_rune r \<and> scalar_value r" for rs
  proof -
    have s: "list_all scalar_value rs" using that by (simp add: list_all_iff)
    show ?thesis using that by (simp add: runes_encode_runes [OF s] valid_utf8_encode_runes [OF s])
  qed
  have c: "(\<forall>r \<in> set (runes ?c). visible_rune r) \<and> valid_utf8 ?c"
    using good [of "clean_runes t"] clean_runes_mem [of _ t] by (simp add: clean_text_eq)
  have e: "(\<forall>r \<in> set (runes []). visible_rune r) \<and> valid_utf8 []" using good [of "[]"] by (simp add: encode_runes_append)
  have g: "(\<forall>r \<in> set (runes (notification_given_name t)). visible_rune r) \<and> valid_utf8 (notification_given_name t)
      \<and> rune_count (notification_given_name t) \<le> 60"
  proof (cases "rune_count ?c > max_given_name_runes")
    case True
    let ?h = "take 59 (clean_runes t)"
    have h: "\<forall>r \<in> set ?h. visible_rune r \<and> scalar_value r" using clean_runes_mem [of _ t] by (auto dest: in_set_takeD)
    then have "list_all scalar_value ?h" by (simp add: list_all_iff)
    from trim_space_encode [OF this] obtain us where
      us: "trim_space (encode_runes ?h) = encode_runes us" "set us \<subseteq> set ?h" "length us \<le> length ?h" by blast
    have n: "notification_given_name t = encode_runes (us @ [0x2026])"
      using True us(1) by (simp add: notification_given_name_def max_given_name_runes_def encode_runes_append) (simp add: encode_runes_def)
    have v: "\<forall>r \<in> set (us @ [0x2026]). visible_rune r \<and> scalar_value r"
      using h us(2) ellipsis_shown by auto
    then have "list_all scalar_value (us @ [0x2026])" by (simp add: list_all_iff)
    then have "rune_count (notification_given_name t) \<le> 60" using us(3) by (simp add: n length_runes runes_encode_runes)
    with good [OF v] show ?thesis by (simp add: n)
  next
    case False
    then have "notification_given_name t = ?c" "rune_count ?c \<le> 60" by (simp_all add: notification_given_name_def max_given_name_runes_def Let_def)
    with c show ?thesis by simp
  qed
  have z: "rune_count [] = 0" by (simp add: rune_count_def)
  have w: "notification_workspace_name t = (if rune_count ?c > 160 then [] else ?c)"
    "notification_trust_label t = (if ?c = [] \<or> rune_count ?c > 160 then [] else ?c)"
    by (simp_all add: notification_workspace_name_def notification_trust_label_def Let_def)
  have i: "clean_notification_text ?c = ?c" by (metis clean_text_eq clean_runes_again)
  have f: "rune_count ?c > 60 \<or> notification_given_name t = ?c"
    by (simp add: notification_given_name_def max_given_name_runes_def Let_def)
  show ?thesis using c e g z i f by (simp add: w)
qed

lemma encode_chr_values: "chr 97 = CHR ''a''" "chr 98 = CHR ''b''" "chr 32 = CHR '' ''"
  by code_simp+

lemma sample_clean: "clean_runes ''a  b'' = [97, 32, 98]"
proof -
  have "''a  b'' = encode_runes [97, 32, 32, 98]" by (simp add: encode_runes_def encode_rune_def encode_chr_values)
  then have "runes ''a  b'' = [97, 32, 32, 98]" by (simp only: runes_encode_runes) (simp add: runes_encode_runes scalar_value_def)
  then show ?thesis
    by (simp add: clean_runes_def List.map_filter_simps clean_rune_def is_space_def is_control_def is_format_def cf_ranges_def rune_error_def
        words.simps [of "[97, 32, 32, 98]"] words.simps [of "[32, 32, 98]"] Let_def)
qed

theorem notice_names_safe_witness:
  "notification_given_name ''a  b'' = ''a b'' \<and> list_all visible_rune (runes (notification_given_name ''a  b''))"
proof -
  have "encode_runes [97, 32, 98] = ''a b''" by (simp add: encode_runes_def encode_rune_def encode_chr_values)
  then have c: "clean_notification_text ''a  b'' = ''a b''" by (simp add: clean_text_eq sample_clean)
  have "\<not> rune_count (clean_notification_text ''a  b'') > 60" by (simp add: length_runes sample_clean)
  with notice_names_safe [of "''a  b''"] c show ?thesis by (auto simp: list_all_iff)
qed

section \<open>Destinations\<close>

text \<open>Reading an escaped value back, as \<open>url.QueryUnescape\<close> and the browser do.\<close>
fun query_unescape :: "string \<Rightarrow> string option" where
  "query_unescape [] = Some []"
| "query_unescape (c # s) =
     (if c = CHR ''%'' then
        (case s of h # l # r \<Rightarrow>
           (case (hex_val h, hex_val l, query_unescape r) of
              (Some a, Some b, Some t) \<Rightarrow> Some (chr (a * 16 + b) # t) | _ \<Rightarrow> None)
         | _ \<Rightarrow> None)
      else map_option (Cons (if c = CHR ''+'' then CHR '' '' else c)) (query_unescape s))"

lemma upper_hex_val: "v < 16 \<Longrightarrow> hex_val (upper_hex v) = Some v"
  by (auto simp: hex_val_def upper_hex_def is_digit_def)

lemma query_plain_char: "query_plain c \<Longrightarrow> c \<noteq> CHR ''%'' \<and> c \<noteq> CHR ''+''"
  by (auto simp: query_plain_def is_lower_def is_upper_def is_digit_def)

lemma query_unescape_char: "query_unescape (query_escape_char c @ s) = map_option (Cons c) (query_unescape s)"
proof -
  have "byte c div 16 < 16" using byte_less [of c] by linarith
  then show ?thesis
    by (auto simp: query_escape_char_def query_plain_char upper_hex_val chr_byte split: option.split)
qed

lemma query_roundtrip: "query_unescape (query_escape s) = Some s"
  by (induction s) (auto simp: query_escape_def query_unescape_char)

lemma query_escape_inject [simp]: "query_escape s = query_escape t \<longleftrightarrow> s = t"
  by (metis query_roundtrip option.inject)

lemma upper_hex_not_amp: "v < 16 \<Longrightarrow> upper_hex v \<noteq> CHR ''&''"
proof -
  assume "v < 16"
  then have "hex_val (upper_hex v) \<noteq> None" by (simp add: upper_hex_val)
  moreover have "hex_val (CHR ''&'') = None" by (simp add: hex_val_def is_digit_def)
  ultimately show ?thesis by metis
qed

lemma query_escape_no_amp: "CHR ''&'' \<notin> set (query_escape s)"
proof -
  have "CHR ''&'' \<notin> set (query_escape_char c)" for c
  proof -
    have "byte c div 16 < 16" "byte c mod 16 < 16" using byte_less [of c] by linarith+
    from upper_hex_not_amp [OF this(1)] upper_hex_not_amp [OF this(2)]
    have "upper_hex (byte c div 16) \<noteq> CHR ''&''" "upper_hex (byte c mod 16) \<noteq> CHR ''&''" .
    moreover have "\<not> query_plain (CHR ''&'')" by (simp add: query_plain_def is_lower_def is_upper_def is_digit_def)
    ultimately show ?thesis by (auto simp: query_escape_char_def)
  qed
  then show ?thesis by (auto simp: query_escape_def)
qed

lemma append_sep_inject: "c \<notin> set a \<Longrightarrow> c \<notin> set b \<Longrightarrow> a @ c # x = b @ c # y \<longleftrightarrow> a = b \<and> x = y"
proof (induction a arbitrary: b)
  case Nil
  then show ?case by (cases b) auto
next
  case (Cons d a)
  then show ?case by (cases b) auto
qed

lemma terminal_destination_inject:
  "terminal_destination p t b = terminal_destination p' t' b' \<longleftrightarrow> p = p' \<and> t = t' \<and> b = b'"
  by (simp add: terminal_destination_def append_sep_inject [OF query_escape_no_amp query_escape_no_amp])

lemma terminal_key_inject: "terminal_key p t = terminal_key p' t' \<longleftrightarrow> p = p' \<and> t = t'"
proof
  assume e: "terminal_key p t = terminal_key p' t'"
  have colon: "CHR '':'' \<notin> set (itoa n)" for n
    using all_digits_itoa [of n] by (auto simp: all_digits_def list_all_iff is_digit_def)
  from e have "length p = length p'" "p @ itoa (length t) @ CHR '':'' # t = p' @ itoa (length t') @ CHR '':'' # t'"
    by (simp_all add: terminal_key_def append_sep_inject [OF colon colon])
  then have "p = p'" "itoa (length t) @ CHR '':'' # t = itoa (length t') @ CHR '':'' # t'" by auto
  then show "p = p' \<and> t = t'" by (simp add: append_sep_inject [OF colon colon])
qed simp

section \<open>Comparing reads\<close>

lemma last_by_Some: "distinct (map key xs) \<Longrightarrow> last_by key xs k = Some x \<longleftrightarrow> x \<in> set xs \<and> key x = k"
  unfolding last_by_def by (subst index_by_Some) (auto simp: rev_map [symmetric])

text \<open>C25.  What comparing a read with the one before it reports.  A status notice names exactly one terminal: it is there exactly when the
  agent of that terminal was in both reads and its status changed, with the new status and a destination that belongs to this terminal
  alone; a first read and a baseline report nothing; and one notice each tells of workspaces that opened or closed.\<close>
theorem observe_reports_changes:
  assumes "distinct (map agent_key (sn_agents previous))" "sv_previous ev = Some previous"
  shows "((\<exists>e \<in> set (fst (observe_snapshot sn False ev)). ev_kind e = EventStatus \<and> ev_pane e = p \<and> ev_terminal e = t \<and> ev_status e = s)
            \<longleftrightarrow> (\<exists>a \<in> set (sn_agents sn). \<exists>a' \<in> set (sn_agents previous). ai_pane a = p \<and> ai_terminal a = t \<and> ai_status a = s
                 \<and> ai_pane a' = p \<and> ai_terminal a' = t \<and> ai_status a' \<noteq> s))
    \<and> (\<forall>e \<in> set (fst (observe_snapshot sn False ev)). ev_herdr e = sv_herdr ev
         \<and> (ev_kind e = EventStatus \<longrightarrow> (ev_destination e = terminal_destination p t (sv_herdr ev) \<longleftrightarrow> ev_pane e = p \<and> ev_terminal e = t)))
    \<and> ((\<exists>e \<in> set (fst (observe_snapshot sn False ev)). ev_kind e = EventWorkspaceOpened)
         \<longleftrightarrow> \<not> wi_id ` set (sn_workspaces sn) \<subseteq> wi_id ` set (sn_workspaces previous))
    \<and> ((\<exists>e \<in> set (fst (observe_snapshot sn False ev)). ev_kind e = EventWorkspaceClosed)
         \<longleftrightarrow> \<not> wi_id ` set (sn_workspaces previous) \<subseteq> wi_id ` set (sn_workspaces sn))
    \<and> fst (observe_snapshot sn True ev) = [] \<and> fst (observe_snapshot sn b (ev\<lparr>sv_previous := None\<rparr>)) = []
    \<and> sv_previous (snd (observe_snapshot sn b ev)) = Some sn"
proof -
  let ?es = "fst (observe_snapshot sn False ev)"
  have es: "?es = map (\<lambda>e. e\<lparr>ev_herdr := sv_herdr ev\<rparr>) (compare_reads (sv_herdr ev) previous sn)"
    using assms(2) by (simp add: observe_snapshot_def observe_def)
  have changed: "agent_changed previous a \<longleftrightarrow>
      (\<exists>a' \<in> set (sn_agents previous). ai_pane a' = ai_pane a \<and> ai_terminal a' = ai_terminal a \<and> ai_status a' \<noteq> ai_status a)" for a
  proof -
    have "agent_changed previous a \<longleftrightarrow> (\<exists>a'. last_by agent_key (sn_agents previous) (agent_key a) = Some a' \<and> ai_status a' \<noteq> ai_status a)"
      by (auto simp: agent_changed_def split: option.splits)
    then show ?thesis unfolding last_by_Some [OF assms(1)] by (auto simp: agent_key_def terminal_key_inject)
  qed
  have kinds: "ev_kind (status_event h x a) = EventStatus" "ev_pane (status_event h x a) = ai_pane a" "ev_terminal (status_event h x a) = ai_terminal a"
    "ev_status (status_event h x a) = ai_status a" "ev_destination (status_event h x a) = terminal_destination (ai_pane a) (ai_terminal a) h" for h x a
    by (simp_all add: status_event_def)
  have wk: "e \<in> set (workspace_event k ws) \<Longrightarrow> ev_kind e = k" for e k ws by (auto simp: workspace_event_def plain_event_def split: if_splits)
  have we: "(\<exists>e \<in> set (workspace_event k ws). ev_kind e = k') \<longleftrightarrow> k = k' \<and> ws \<noteq> []" for k k' ws
    by (auto simp: workspace_event_def plain_event_def)
  have wn: "workspaces_not_in xs ys \<noteq> [] \<longleftrightarrow> \<not> wi_id ` set xs \<subseteq> wi_id ` set ys" for xs ys
    by (auto simp: workspaces_not_in_def filter_empty_conv)
  have 1: "(\<exists>e \<in> set ?es. ev_kind e = EventStatus \<and> ev_pane e = p \<and> ev_terminal e = t \<and> ev_status e = s)
      \<longleftrightarrow> (\<exists>a \<in> set (sn_agents sn). agent_changed previous a \<and> ai_pane a = p \<and> ai_terminal a = t \<and> ai_status a = s)"
    unfolding es compare_reads_def set_map set_append image_Un bex_Un bex_simps by (auto simp: kinds dest: wk)
  have 2: "\<forall>e \<in> set ?es. ev_herdr e = sv_herdr ev
         \<and> (ev_kind e = EventStatus \<longrightarrow> (ev_destination e = terminal_destination p t (sv_herdr ev) \<longleftrightarrow> ev_pane e = p \<and> ev_terminal e = t))"
    unfolding es compare_reads_def by (auto simp: kinds terminal_destination_inject dest: wk)
  have 3: "(\<exists>e \<in> set ?es. ev_kind e = k) \<longleftrightarrow> workspaces_not_in xs ys \<noteq> []"
    if "(k, xs, ys) \<in> {(EventWorkspaceOpened, sn_workspaces sn, sn_workspaces previous), (EventWorkspaceClosed, sn_workspaces previous, sn_workspaces sn)}" for k xs ys
    using that unfolding es compare_reads_def set_map set_append image_Un bex_Un bex_simps by (auto simp: kinds we)
  have a: "(\<exists>e \<in> set ?es. ev_kind e = EventStatus \<and> ev_pane e = p \<and> ev_terminal e = t \<and> ev_status e = s)
            \<longleftrightarrow> (\<exists>a \<in> set (sn_agents sn). \<exists>a' \<in> set (sn_agents previous). ai_pane a = p \<and> ai_terminal a = t \<and> ai_status a = s
                 \<and> ai_pane a' = p \<and> ai_terminal a' = t \<and> ai_status a' \<noteq> s)"
    unfolding 1 changed by (intro bex_cong refl) auto
  have w: "(\<exists>e \<in> set ?es. ev_kind e = EventWorkspaceOpened) \<longleftrightarrow> \<not> wi_id ` set (sn_workspaces sn) \<subseteq> wi_id ` set (sn_workspaces previous)"
    "(\<exists>e \<in> set ?es. ev_kind e = EventWorkspaceClosed) \<longleftrightarrow> \<not> wi_id ` set (sn_workspaces previous) \<subseteq> wi_id ` set (sn_workspaces sn)"
    by (subst 3; simp add: wn)+
  have q: "fst (observe_snapshot sn True ev) = []" "fst (observe_snapshot sn b (ev\<lparr>sv_previous := None\<rparr>)) = []"
    "sv_previous (snd (observe_snapshot sn b ev)) = Some sn" by (simp_all add: observe_snapshot_def observe_def)
  show ?thesis by (intro conjI a 2 w q)
qed

definition sample_agent :: "status \<Rightarrow> agent_info" where
  "sample_agent s = \<lparr>ai_agent = None, ai_session = None, ai_status = s, ai_display = None, ai_name = None, ai_pane = ''p1'', ai_revision = 0,
     ai_seq = 0, ai_tab = ''t1'', ai_terminal = ''term'', ai_title = None, ai_workspace = ''w1''\<rparr>"

definition sample_read :: "status \<Rightarrow> snapshot" where
  "sample_read s = \<lparr>sn_agents = [sample_agent s], sn_focused_pane = [], sn_focused_tab = [], sn_focused_workspace = [], sn_layouts = [], sn_panes = [],
     sn_protocol = 0, sn_tabs = [], sn_version = [], sn_workspaces = []\<rparr>"

theorem observe_reports_changes_witness:
  "\<exists>e \<in> set (fst (observe_snapshot (sample_read StatusDone) False \<lparr>sv_herdr = backend_tui, sv_previous = Some (sample_read StatusWorking)\<rparr>)).
     ev_kind e = EventStatus \<and> ev_pane e = ''p1'' \<and> ev_terminal e = ''term'' \<and> ev_status e = StatusDone"
proof -
  let ?ev = "\<lparr>sv_herdr = backend_tui, sv_previous = Some (sample_read StatusWorking)\<rparr>"
  have d: "distinct (map agent_key (sn_agents (sample_read StatusWorking)))" by (simp add: sample_read_def)
  have p: "sv_previous ?ev = Some (sample_read StatusWorking)" by simp
  have "StatusWorking \<noteq> StatusDone" by (simp add: StatusWorking_def StatusDone_def)
  then show ?thesis
    using observe_reports_changes [OF d p, of "sample_read StatusDone" "''p1''" "''term''" StatusDone]
    by (simp add: sample_read_def sample_agent_def)
qed

end
