(* ===== verification/NotifyManager.thy ===== *)
theory NotifyManager
  imports NotifyStoreFacts NotifyEndpointFacts NotifyFacts
begin

text \<open>
  The notification manager: \<open>internal/notifications/manager.go\<close>.  Events wait in a queue of 32; two workers take
  them, read the subscriptions and send to one after the other, while requests change the store.  Each step
  of a worker is one step of the machine; what the trust authority and the push service answer is the
  environment's.
\<close>

section \<open>The state\<close>

text \<open>A worker that took an event, and one that sends it to the subscriptions it read.\<close>
datatype worker = Took event | Sending event "subscription list"

text \<open>A push that was made: the event, the subscription, whether its owner was checked and what came of it.\<close>
record push_entry =
  pe_event :: event
  pe_sub :: subscription
  pe_checked :: bool
  pe_outcome :: send_outcome

record nmanager =
  nm_store :: notify_store
  nm_protected :: bool
  nm_queue :: "event list"
  nm_workers :: "worker list"
  nm_pending :: nat
  nm_pushed :: "push_entry list"

definition delivery_workers :: nat where "delivery_workers = 2"
definition delivery_queue :: nat where "delivery_queue = 32"

definition new_notify_manager :: "notify_store \<Rightarrow> nmanager" where
  "new_notify_manager s = \<lparr>nm_store = s, nm_protected = False, nm_queue = [], nm_workers = [], nm_pending = 0, nm_pushed = []\<rparr>"

section \<open>Requests\<close>

record browser_subscription =
  bs_endpoint :: string
  bs_expiration :: "float64 option"
  bs_auth :: string
  bs_p256dh :: string

datatype request_error = ReqStore notify_error | ReqNotConfigured | ReqShape sub_error | ReqEndpoint endpoint_error

definition browser_sub :: "browser_subscription \<Rightarrow> event_settings \<Rightarrow> subscription" where
  "browser_sub b ev = \<lparr>sb_endpoint = bs_endpoint b, sb_expiration = bs_expiration b, sb_auth = bs_auth b, sb_p256dh = bs_p256dh b, sb_events = ev, sb_trust = []\<rparr>"

text \<open>\<open>Prepare\<close>: what is checked before a subscription is saved.\<close>
definition prepare :: "resolver \<Rightarrow> browser_subscription \<Rightarrow> event_settings \<Rightarrow> nmanager \<Rightarrow> request_error + subscription" where
  "prepare resolve b ev m =
     (case store_config (nm_store m) of
        Inl e \<Rightarrow> Inl (ReqStore e)
      | Inr None \<Rightarrow> Inl ReqNotConfigured
      | Inr (Some _) \<Rightarrow>
        (case validate_subscription_shape (browser_sub b ev) of Inl e \<Rightarrow> Inl (ReqShape e)
         | Inr _ \<Rightarrow>
           (case validate_endpoint resolve (bs_endpoint b) of Inl e \<Rightarrow> Inl (ReqEndpoint e)
            | Inr _ \<Rightarrow> Inr (browser_sub b ev))))"

definition on_store :: "(notify_store \<Rightarrow> (notify_error + 'a) \<times> notify_store) \<Rightarrow> nmanager \<Rightarrow> (request_error + 'a) \<times> nmanager" where
  "on_store f m =
     (case f (nm_store m) of (Inl e, s) \<Rightarrow> (Inl (ReqStore e), m\<lparr>nm_store := s\<rparr>) | (Inr a, s) \<Rightarrow> (Inr a, m\<lparr>nm_store := s\<rparr>))"

text \<open>\<open>Save\<close>: the checks of \<open>Prepare\<close> and the change at once.\<close>
definition save_subscription :: "faults \<Rightarrow> resolver \<Rightarrow> browser_subscription \<Rightarrow> event_settings \<Rightarrow> nmanager \<Rightarrow> (request_error + unit) \<times> nmanager" where
  "save_subscription io resolve b ev m =
     (case prepare resolve b ev m of Inl e \<Rightarrow> (Inl e, m) | Inr sub \<Rightarrow> on_store (upsert io sub) m)"

definition commit_owned :: "faults \<Rightarrow> subscription \<Rightarrow> string \<Rightarrow> nmanager \<Rightarrow> (request_error + unit) \<times> nmanager" where
  "commit_owned io sub trust m = on_store (upsert_owned io sub trust) m"

definition checked_endpoint :: "string \<Rightarrow> (nmanager \<Rightarrow> (request_error + 'a) \<times> nmanager) \<Rightarrow> nmanager \<Rightarrow> (request_error + 'a) \<times> nmanager" where
  "checked_endpoint endpoint f m =
     (case validate_endpoint_url endpoint of Inl e \<Rightarrow> (Inl (ReqEndpoint e), m) | Inr _ \<Rightarrow> f m)"

definition manager_lookup :: "string \<Rightarrow> nmanager \<Rightarrow> (request_error + event_settings \<times> bool) \<times> nmanager" where
  "manager_lookup endpoint = checked_endpoint endpoint (on_store (\<lambda>s. (lookup endpoint s, s)))"

definition manager_lookup_owned :: "string \<Rightarrow> string \<Rightarrow> nmanager \<Rightarrow> (request_error + event_settings \<times> bool) \<times> nmanager" where
  "manager_lookup_owned endpoint trust = checked_endpoint endpoint (on_store (\<lambda>s. (lookup_owned endpoint trust s, s)))"

definition manager_remove_owned :: "faults \<Rightarrow> string \<Rightarrow> string \<Rightarrow> nmanager \<Rightarrow> (request_error + bool) \<times> nmanager" where
  "manager_remove_owned io endpoint trust = checked_endpoint endpoint (on_store (remove_owned io endpoint trust))"

definition manager_remove :: "faults \<Rightarrow> string \<Rightarrow> nmanager \<Rightarrow> (request_error + bool) \<times> nmanager" where
  "manager_remove io endpoint = checked_endpoint endpoint (on_store (remove_endpoint io endpoint))"

text \<open>\<open>EnableProtected\<close>: the authority stays set when the store cannot be written.\<close>
definition manager_enable_protected :: "faults \<Rightarrow> string set \<Rightarrow> nmanager \<Rightarrow> (request_error + unit) \<times> nmanager" where
  "manager_enable_protected io active m = on_store (enable_protected io active) (m\<lparr>nm_protected := True\<rparr>)"

definition manager_reset_protected :: "faults \<Rightarrow> nmanager \<Rightarrow> (request_error + unit) \<times> nmanager" where
  "manager_reset_protected io m = on_store (reset_protected io) m"

section \<open>Events\<close>

text \<open>\<open>enqueue\<close>: an event that finds the queue full is dropped.\<close>
definition enqueue :: "event \<Rightarrow> nmanager \<Rightarrow> nmanager" where
  "enqueue e m =
     (if length (nm_queue m) < delivery_queue then m\<lparr>nm_queue := nm_queue m @ [e], nm_pending := Suc (nm_pending m)\<rparr> else m)"

definition trusted_sign_in_added :: "string \<Rightarrow> nmanager \<Rightarrow> nmanager" where
  "trusted_sign_in_added label m = enqueue ((plain_event EventTrustedSignInAdded ''/'')\<lparr>ev_trust := notification_trust_label label\<rparr>) m"

definition manager_file_shared :: "string \<Rightarrow> snapshot \<Rightarrow> string \<Rightarrow> string \<Rightarrow> string \<Rightarrow> nmanager \<Rightarrow> nmanager" where
  "manager_file_shared backend sn pane terminal source m = enqueue (file_shared_event backend sn pane terminal source) m"

definition manager_remove_trust :: "faults \<Rightarrow> string \<Rightarrow> string \<Rightarrow> nmanager \<Rightarrow> (request_error + unit) \<times> nmanager" where
  "manager_remove_trust io trust label m =
     (case on_store (remove_trust_subscriptions io trust) m of
        (Inl e, m1) \<Rightarrow> (Inl e, m1)
      | (Inr _, m1) \<Rightarrow> (Inr (), enqueue ((plain_event EventTrustedSignInRemoved ''/'')\<lparr>ev_trust := notification_trust_label label\<rparr>) m1))"

definition observe_read :: "snapshot \<Rightarrow> bool \<Rightarrow> evaluator \<Rightarrow> nmanager \<Rightarrow> evaluator \<times> nmanager" where
  "observe_read sn baseline ev m = (case observe_snapshot sn baseline ev of (es, ev') \<Rightarrow> (ev', fold enqueue es m))"

section \<open>Delivery\<close>

text \<open>A worker that waits takes the first event.\<close>
definition take_event :: "nmanager \<Rightarrow> nmanager" where
  "take_event m = (case nm_queue m of [] \<Rightarrow> m
     | e # q \<Rightarrow> if length (nm_workers m) < delivery_workers then m\<lparr>nm_queue := q, nm_workers := nm_workers m @ [Took e]\<rparr> else m)"

definition drop_nth :: "nat \<Rightarrow> 'a list \<Rightarrow> 'a list" where "drop_nth i xs = take i xs @ drop (Suc i) xs"

definition worker_done :: "nat \<Rightarrow> nmanager \<Rightarrow> nmanager" where
  "worker_done i m = m\<lparr>nm_workers := drop_nth i (nm_workers m), nm_pending := nm_pending m - 1\<rparr>"

text \<open>Whether the event may be sent to the subscription: it was asked for, and with an authority its owner is still trusted.\<close>
definition may_push :: "(string \<Rightarrow> bool) \<Rightarrow> nmanager \<Rightarrow> event \<Rightarrow> subscription \<Rightarrow> bool" where
  "may_push active m e sub \<longleftrightarrow> selected (sb_events sub) e \<and> (nm_protected m \<longrightarrow> sb_trust sub \<noteq> [] \<and> active (sb_trust sub))"

text \<open>One subscription of \<open>deliverEvent\<close>.\<close>
definition push_one :: "faults \<Rightarrow> (string \<Rightarrow> bool) \<Rightarrow> send_outcome \<Rightarrow> event \<Rightarrow> subscription \<Rightarrow> nmanager \<Rightarrow> nmanager" where
  "push_one io active outcome e sub m =
     (if \<not> may_push active m e sub then m
      else let m1 = m\<lparr>nm_pushed := nm_pushed m @ [\<lparr>pe_event = e, pe_sub = sub, pe_checked = nm_protected m, pe_outcome = outcome\<rparr>]\<rparr>
        in if outcome = SendGone then m1\<lparr>nm_store := snd (remove_endpoint io (sb_endpoint sub) (nm_store m1))\<rparr> else m1)"

text \<open>What worker \<open>i\<close> does next.\<close>
definition worker_step :: "faults \<Rightarrow> (string \<Rightarrow> bool) \<Rightarrow> send_outcome \<Rightarrow> nat \<Rightarrow> nmanager \<Rightarrow> nmanager" where
  "worker_step io active outcome i m =
     (if i \<ge> length (nm_workers m) then m
      else case nm_workers m ! i of
        Took e \<Rightarrow> (case delivery_state (nm_store m) of None \<Rightarrow> worker_done i m
            | Some st \<Rightarrow> m\<lparr>nm_workers := (nm_workers m)[i := Sending e (ns_subscriptions st)]\<rparr>)
      | Sending e [] \<Rightarrow> worker_done i m
      | Sending e (sub # subs) \<Rightarrow> push_one io active outcome e sub (m\<lparr>nm_workers := (nm_workers m)[i := Sending e subs]\<rparr>))"

section \<open>Steps\<close>

inductive nm_step :: "nmanager \<Rightarrow> nmanager \<Rightarrow> bool" where
  save: "nm_step m (snd (save_subscription io resolve b ev m))"
| commit: "prepare resolve b ev m0 = Inr sub \<Longrightarrow> owner_ok state_version trust \<Longrightarrow> nm_step m (snd (commit_owned io sub trust m))"
| remove_owned: "nm_step m (snd (manager_remove_owned io endpoint trust m))"
| remove: "nm_step m (snd (manager_remove io endpoint m))"
| enable: "nm_step m (snd (manager_enable_protected io active m))"
| reset: "nm_step m (snd (manager_reset_protected io m))"
| remove_trust: "nm_step m (snd (manager_remove_trust io trust label m))"
| added: "nm_step m (trusted_sign_in_added label m)"
| shared: "nm_step m (manager_file_shared backend sn pane terminal source m)"
| observed: "nm_step m (snd (observe_read sn baseline ev m))"
| take_one: "nm_step m (take_event m)"
| work: "nm_step m (worker_step io active outcome i m)"

inductive nm_reachable :: "notify_store \<Rightarrow> nmanager \<Rightarrow> bool" for s where
  start: "nm_reachable s (new_notify_manager s)"
| go: "nm_reachable s m \<Longrightarrow> nm_step m m' \<Longrightarrow> nm_reachable s m'"

section \<open>What every reachable manager keeps\<close>

definition push_ok :: "push_entry \<Rightarrow> bool" where
  "push_ok p \<longleftrightarrow> selected (sb_events (pe_sub p)) (pe_event p) \<and> (pe_checked p \<longrightarrow> sb_trust (pe_sub p) \<noteq> [])"

definition nm_inv :: "notify_lib \<Rightarrow> nmanager \<Rightarrow> bool" where
  "nm_inv lib m \<longleftrightarrow> length (nm_queue m) \<le> delivery_queue \<and> length (nm_workers m) \<le> delivery_workers
     \<and> nm_pending m = length (nm_queue m) + length (nm_workers m) \<and> list_all push_ok (nm_pushed m) \<and> store_inv lib (nm_store m)"

lemma on_store_simps [simp]:
  "nm_queue (snd (on_store f m)) = nm_queue m" "nm_workers (snd (on_store f m)) = nm_workers m" "nm_pending (snd (on_store f m)) = nm_pending m"
  "nm_pushed (snd (on_store f m)) = nm_pushed m" "nm_protected (snd (on_store f m)) = nm_protected m"
  "nm_store (snd (on_store f m)) = snd (f (nm_store m))"
  by (auto simp: on_store_def split: prod.splits sum.splits)

lemma nm_inv_store: "nm_inv lib m \<Longrightarrow> store_inv lib (snd (f (nm_store m))) \<Longrightarrow> nm_inv lib (snd (on_store f m))"
  by (simp add: nm_inv_def)

lemma nm_inv_checked:
  "nm_inv lib m \<Longrightarrow> nm_inv lib (snd (f m)) \<Longrightarrow> nm_inv lib (snd (checked_endpoint endpoint f m))"
  by (auto simp: checked_endpoint_def split: sum.split)

lemma enqueue_inv: "nm_inv lib m \<Longrightarrow> nm_inv lib (enqueue e m)"
  by (simp add: enqueue_def nm_inv_def)

lemma enqueues_inv: "nm_inv lib m \<Longrightarrow> nm_inv lib (fold enqueue es m)"
  by (induction es arbitrary: m) (simp_all add: enqueue_inv)

lemma prepare_ok: "prepare resolve b ev m = Inr sub \<Longrightarrow> op_ok (OpUpsert sub) \<and> validate_endpoint resolve (sb_endpoint sub) = Inr () \<and> sb_events sub = ev"
  by (auto simp: prepare_def browser_sub_def split: sum.splits option.splits)

lemma length_drop_nth: "i < length xs \<Longrightarrow> length (drop_nth i xs) = length xs - 1"
  by (simp add: drop_nth_def)

lemma worker_done_inv: "nm_inv lib m \<Longrightarrow> i < length (nm_workers m) \<Longrightarrow> nm_inv lib (worker_done i m)"
  by (auto simp: nm_inv_def worker_done_def length_drop_nth)

lemma push_one_inv:
  assumes "nm_inv lib m"
  shows "nm_inv lib (push_one io active outcome e sub m)"
proof -
  have "store_inv lib (snd (remove_endpoint io x (nm_store m)))" for x
    using assms run_notify_op_inv [of lib "nm_store m" "OpRemove x" io] by (simp add: nm_inv_def)
  then show ?thesis using assms by (auto simp: push_one_def Let_def nm_inv_def may_push_def push_ok_def)
qed

lemma worker_step_inv:
  assumes "nm_inv lib m"
  shows "nm_inv lib (worker_step io active outcome i m)"
proof (cases "i < length (nm_workers m)")
  case True
  have up: "nm_inv lib (m\<lparr>nm_workers := (nm_workers m)[i := w]\<rparr>)" for w using assms by (simp add: nm_inv_def)
  show ?thesis
    using True worker_done_inv [OF assms True] up
    by (auto simp: worker_step_def split: worker.split option.split list.split intro: push_one_inv)
qed (use assms in \<open>simp add: worker_step_def\<close>)

lemma on_store_op_inv:
  assumes "nm_inv lib m" "op_ok x" "snd (f (nm_store m)) = run_notify_op io x (nm_store m)"
  shows "nm_inv lib (snd (on_store f m))"
  using assms run_notify_op_inv [of lib "nm_store m" x io] by (intro nm_inv_store) (simp_all add: nm_inv_def)

lemma remove_trust_inv:
  assumes "nm_inv lib m"
  shows "nm_inv lib (snd (manager_remove_trust io trust label m))"
proof -
  obtain r m1 where c: "on_store (remove_trust_subscriptions io trust) m = (r, m1)" by (meson surj_pair)
  have "nm_inv lib m1" using on_store_op_inv [OF assms, of "OpRemoveTrust trust" "remove_trust_subscriptions io trust" io] c by simp
  then show ?thesis by (simp add: manager_remove_trust_def c enqueue_inv split: sum.split)
qed

lemma nm_step_inv:
  assumes "nm_step m m'" "nm_inv lib m"
  shows "nm_inv lib m'"
  using assms
proof (cases rule: nm_step.cases)
  note inv = assms(2)
  {
    case (save io resolve b ev)
    show ?thesis
    proof (cases "prepare resolve b ev m")
      case (Inr sub)
      have "nm_inv lib (snd (on_store (upsert io sub) m))"
        using prepare_ok [OF Inr] by (intro on_store_op_inv [OF inv, of "OpUpsert sub" _ io]) simp_all
      then show ?thesis by (simp add: save save_subscription_def Inr)
    qed (use inv in \<open>simp add: save save_subscription_def\<close>)
  next
    case (commit resolve b ev m0 sub trust io)
    have "nm_inv lib (snd (on_store (upsert_owned io sub trust) m))"
      using prepare_ok [OF commit(2)] commit(3) by (intro on_store_op_inv [OF inv, of "OpUpsertOwned sub trust" _ io]) simp_all
    then show ?thesis by (simp add: commit commit_owned_def)
  next
    case (remove_owned io endpoint trust)
    then show ?thesis unfolding manager_remove_owned_def
      by (auto intro!: nm_inv_checked [OF inv] on_store_op_inv [OF inv, of "OpRemoveOwned endpoint trust" _ io])
  next
    case (remove io endpoint)
    then show ?thesis unfolding manager_remove_def
      by (auto intro!: nm_inv_checked [OF inv] on_store_op_inv [OF inv, of "OpRemove endpoint" _ io])
  next
    case (enable io active)
    have "nm_inv lib (m\<lparr>nm_protected := True\<rparr>)" using inv by (simp add: nm_inv_def)
    then show ?thesis unfolding enable manager_enable_protected_def
      by (rule on_store_op_inv [of _ _ "OpEnable active" _ io]) simp_all
  next
    case (reset io)
    then show ?thesis unfolding manager_reset_protected_def
      by (auto intro!: on_store_op_inv [OF inv, of OpReset _ io])
  next
    case (remove_trust io trust label)
    then show ?thesis using remove_trust_inv [OF inv] by simp
  next
    case (added label)
    then show ?thesis using enqueue_inv [OF inv] by (simp add: trusted_sign_in_added_def)
  next
    case (shared backend sn pane terminal source)
    then show ?thesis using enqueue_inv [OF inv] by (simp add: manager_file_shared_def)
  next
    case (observed sn baseline ev)
    then show ?thesis using enqueues_inv [OF inv] by (simp add: observe_read_def split: prod.split)
  next
    case take_one
    then show ?thesis using inv by (auto simp: take_event_def nm_inv_def split: list.splits)
  next
    case (work io active outcome i)
    then show ?thesis using worker_step_inv [OF inv] by simp
  }
qed

text \<open>C20.  Every manager that is reached from a valid store, whatever the requests, the workers, the push services, the trust
  authority and the file system do, and in every order: at most 32 events wait and at most two are being delivered, the count
  \<open>WaitPending\<close> waits on is exactly the events that wait or are being delivered, a push was only ever made for an event
  the subscription selected, with an authority only for a subscription that has an owner, and the store is still valid
  and is what its file holds.\<close>
theorem notify_delivery_sound:
  assumes "nm_reachable s m" "store_inv lib s"
  shows "length (nm_queue m) \<le> 32 \<and> length (nm_workers m) \<le> 2 \<and> nm_pending m = length (nm_queue m) + length (nm_workers m)
    \<and> (\<forall>p \<in> set (nm_pushed m). selected (sb_events (pe_sub p)) (pe_event p) \<and> (pe_checked p \<longrightarrow> sb_trust (pe_sub p) \<noteq> []))
    \<and> store_inv lib (nm_store m)"
proof -
  have start: "nm_inv lib (new_notify_manager s)" using assms(2) by (simp add: nm_inv_def new_notify_manager_def)
  have "nm_inv lib m" using assms(1)
    by induction (use start nm_step_inv in blast)+
  then show ?thesis by (auto simp: nm_inv_def delivery_queue_def delivery_workers_def list_all_iff push_ok_def)
qed

definition sample_manager :: nmanager where
  "sample_manager = worker_step no_faults (\<lambda>_. True) SendAccepted 0 (take_event (trusted_sign_in_added ''Phone'' (new_notify_manager sample_store)))"

lemma notify_delivery_sound_witness:
  "nm_reachable sample_store sample_manager \<and> length (nm_queue sample_manager) \<le> 32 \<and> length (nm_workers sample_manager) \<le> 2
    \<and> store_inv sample_lib (nm_store sample_manager)"
proof -
  have r: "nm_reachable sample_store sample_manager" unfolding sample_manager_def
    by (rule nm_reachable.go [OF nm_reachable.go [OF nm_reachable.go [OF nm_reachable.start nm_step.added] nm_step.take_one] nm_step.work])
  show ?thesis using r notify_delivery_sound [OF r sample_store_inv] by blast
qed

end
