(* ===== verification/UploadNames.thy ===== *)
theory UploadNames
  imports RuneText Encoding GoPath
begin

text \<open>
  Names, sizes and identities of uploaded files: \<open>internal/uploads/limit.go\<close> and the parts of \<open>files.go\<close> and
  \<open>manager.go\<close> that work on text alone.  An \<open>int64\<close> is an \<open>int\<close>; where it could overflow the bound is written out.
\<close>

section \<open>Limits\<close>

definition max_int64 :: int where "max_int64 = 2 ^ 63 - 1"

record limit =
  lm_bytes :: int
  lm_unlimited :: bool

definition size_suffixes :: "(string \<times> int) list" where
  "size_suffixes = [(''KiB'', 2 ^ 10), (''MiB'', 2 ^ 20), (''GiB'', 2 ^ 30)]"

text \<open>\<open>ParseSize\<close>.  The code goes through its suffixes in no fixed order; no text ends with two of them.\<close>
definition parse_size :: "string \<Rightarrow> int option" where
  "parse_size v =
     (let (number, mult) = (case find (\<lambda>(s, m). has_suffix v s) size_suffixes of
            Some (s, m) \<Rightarrow> (trim_suffix v s, m) | None \<Rightarrow> (v, 1))
      in case parse_int64 number of None \<Rightarrow> None
         | Some n \<Rightarrow> if n < 1 \<or> n > max_int64 div mult then None else Some (n * mult))"

definition parse_limit :: "string \<Rightarrow> limit option" where
  "parse_limit v =
     (if v = ''none'' then Some \<lparr>lm_bytes = 0, lm_unlimited = True\<rparr>
      else map_option (\<lambda>n. \<lparr>lm_bytes = n, lm_unlimited = False\<rparr>) (parse_size v))"

definition allows :: "limit \<Rightarrow> int \<Rightarrow> bool" where
  "allows l n \<longleftrightarrow> lm_unlimited l \<or> n \<le> lm_bytes l"

section \<open>Characters of a path\<close>

definition unsafe_path_rune :: "nat \<Rightarrow> bool" where
  "unsafe_path_rune r =
     (if is_control r \<or> r = 0x2028 \<or> r = 0x2029 then True
      else if r = 0x200C \<or> r = 0x200D then False
      else is_format r)"

definition shell_characters :: string where
  "shell_characters = ''$`;|&<>()'' @ [CHR 0x27, CHR 0x22, CHR ''!'']"

definition shell_character :: "nat \<Rightarrow> bool" where
  "shell_character r \<longleftrightarrow> r \<in> byte ` set shell_characters"

definition contains_str :: "string \<Rightarrow> string \<Rightarrow> bool" where
  "contains_str s sub \<longleftrightarrow> cut_str sub s \<noteq> None"

datatype path_error = PathNotUtf8 | PathUnsafe | PathPaste

definition validate_path_text :: "string \<Rightarrow> path_error + unit" where
  "validate_path_text v =
     (if \<not> valid_utf8 v then Inl PathNotUtf8
      else if list_ex unsafe_path_rune (runes v) then Inl PathUnsafe
      else if contains_str v (chr 27 # ''[200~'') \<or> contains_str v (chr 27 # ''[201~'') then Inl PathPaste
      else Inr ())"

definition valid_identity :: "string \<Rightarrow> bool" where
  "valid_identity v \<longleftrightarrow> v \<noteq> [] \<and> length v \<le> 512 \<and> valid_utf8 v \<and> list_all (\<lambda>r. \<not> unsafe_path_rune r) (runes v)"

section \<open>Names of files\<close>

definition marker_name :: string where "marker_name = ''.shepherdr-upload''"

definition slashed :: "string \<Rightarrow> string" where
  "slashed s = map (\<lambda>c. if c = CHR 0x5C then CHR ''/'' else c) s"

definition after_last_slash :: "string \<Rightarrow> string" where
  "after_last_slash s = rev (takeWhile (\<lambda>c. c \<noteq> CHR ''/'') (rev s))"

definition base_rune :: "nat \<Rightarrow> bool" where
  "base_rune r \<longleftrightarrow> r \<noteq> 47 \<and> r \<noteq> 92 \<and> \<not> unsafe_path_rune r \<and> \<not> shell_character r"

definition reserved_names :: "string list" where
  "reserved_names = [[], ''.'', ''..'', marker_name]"

definition safe_basename :: "string \<Rightarrow> string" where
  "safe_basename name =
     (let t = trim_space (encode_runes (filter base_rune (runes (after_last_slash (slashed name)))))
      in if t \<in> set reserved_names then ''file'' else t)"

definition split_extension :: "string \<Rightarrow> string \<times> string" where
  "split_extension name =
     (case last_index (CHR ''.'') name of None \<Rightarrow> (name, [])
      | Some i \<Rightarrow> if i = 0 \<or> i = length name - 1 then (name, []) else (take i name, drop i name))"

text \<open>The names \<open>reserveFile\<close> tries, and the first of them that is free.\<close>
definition candidate :: "string \<Rightarrow> nat \<Rightarrow> string" where
  "candidate name k =
     (if k = 0 then name
      else fst (split_extension name) @ '' ('' @ itoa k @ '')'' @ snd (split_extension name))"

lemma split_extension_append: "fst (split_extension name) @ snd (split_extension name) = name"
  by (auto simp: split_extension_def split: option.split)

lemma candidate_inject: "candidate name j = candidate name k \<longleftrightarrow> j = k"
proof -
  have z: "candidate name 0 = name" by (simp add: candidate_def)
  have o: "candidate name k \<noteq> name" if "k \<noteq> 0" for k
  proof
    assume "candidate name k = name"
    then have "length (candidate name k) = length (fst (split_extension name) @ snd (split_extension name))"
      by (simp add: split_extension_append)
    then show False using that by (simp add: candidate_def)
  qed
  have "candidate name j = candidate name k \<Longrightarrow> j \<noteq> 0 \<Longrightarrow> k \<noteq> 0 \<Longrightarrow> j = k" by (simp add: candidate_def)
  then show ?thesis using o z by metis
qed

function reserve_from :: "string set \<Rightarrow> string \<Rightarrow> nat \<Rightarrow> string" where
  "reserve_from taken name k =
     (if finite taken \<and> candidate name k \<in> taken then reserve_from taken name (Suc k) else candidate name k)"
  by auto
termination
proof (relation "measure (\<lambda>(taken, name, k). card {j. k \<le> j \<and> candidate name j \<in> taken})", goal_cases)
  case (2 taken name k)
  let ?A = "\<lambda>k. {j. k \<le> j \<and> candidate name j \<in> taken}"
  have "inj (candidate name)" by (simp add: inj_def candidate_inject)
  then have "finite (candidate name -` taken)" using 2 by (blast intro: finite_vimageI)
  then have "finite (?A k)" by (rule rev_finite_subset) auto
  moreover have "?A (Suc k) \<subset> ?A k" using 2 by (auto simp: Suc_le_eq)
  ultimately show ?case by (simp add: psubset_card_mono)
qed simp

declare reserve_from.simps [simp del]

definition reserve_name :: "string set \<Rightarrow> string \<Rightarrow> string" where
  "reserve_name taken name = reserve_from taken name 0"

section \<open>Names of folders\<close>

text \<open>One character of \<open>safeLabel\<close>.  The tables of \<open>unicode.IsLetter\<close> and \<open>unicode.IsDigit\<close> are parameters.\<close>
definition label_step :: "(nat \<Rightarrow> bool) \<Rightarrow> (nat \<Rightarrow> bool) \<Rightarrow> nat \<Rightarrow> string \<Rightarrow> string" where
  "label_step letter digit r b =
     (if length b \<ge> 32 then b
      else if letter r \<or> digit r then (if length b + length (encode_rune r) \<le> 32 then b @ encode_rune r else b)
      else if r = byte (CHR ''-'') \<or> r = byte (CHR ''_'') then b @ encode_rune r
      else if is_space r \<and> b \<noteq> [] then b @ ''-''
      else b)"

definition label_cut :: "char \<Rightarrow> bool" where "label_cut c \<longleftrightarrow> c = CHR ''-'' \<or> c = CHR ''_''"

definition safe_label :: "(nat \<Rightarrow> bool) \<Rightarrow> (nat \<Rightarrow> bool) \<Rightarrow> string \<Rightarrow> string" where
  "safe_label letter digit label =
     (let b = fold (label_step letter digit) (runes label) [];
          v = rev (dropWhile label_cut (rev (dropWhile label_cut b)))
      in if v = [] then ''workspace'' else v)"

section \<open>Associations\<close>

record association =
  as_directory :: string
  as_ownership :: string
  as_workspace :: string

definition hex_ownership :: "string \<Rightarrow> bool" where
  "hex_ownership v \<longleftrightarrow> (case hex_decode v of None \<Rightarrow> False | Some d \<Rightarrow> length d = 16 \<and> hex_encode d = v)"

definition valid_association :: "association \<Rightarrow> bool" where
  "valid_association a \<longleftrightarrow>
     valid_identity (as_workspace a) \<and> length (as_ownership a) = 32 \<and> hex_ownership (as_ownership a)
     \<and> is_abs (as_directory a) \<and> path_clean (as_directory a) = as_directory a
     \<and> has_suffix (path_base (as_directory a)) (CHR ''-'' # as_ownership a)"

end
