(* ===== verification/UploadNamesFacts.thy ===== *)
theory UploadNamesFacts
  imports UploadNames
begin

text \<open>
  What is known of the names of uploaded and shared files: they are safe whatever they were made of, making them
  safe again changes nothing, and a free name is always found.
\<close>

section \<open>Safe names\<close>

text \<open>A name as files are stored under: characters that are safe in a path and a shell, no space at its ends, and none of the names
  that mean something else.\<close>
definition safe_name_runes :: "nat list \<Rightarrow> bool" where
  "safe_name_runes rs \<longleftrightarrow> list_all scalar_value rs \<and> list_all base_rune rs \<and> trimmed rs \<and> encode_runes rs \<notin> set reserved_names"

lemma base_rune_ascii:
  assumes "list_all scalar_value rs" "list_all base_rune rs"
  shows "CHR ''/'' \<notin> set (encode_runes rs)" "CHR 0x5C \<notin> set (encode_runes rs)"
  using ascii_in_encode [OF assms(1), of "CHR ''/''"] ascii_in_encode [OF assms(1), of "CHR 0x5C"] assms(2)
  by (auto simp: list_all_iff base_rune_def)

lemma safe_basename_clean:
  assumes s: "list_all scalar_value rs" "list_all base_rune rs" "trimmed rs"
  shows "safe_basename (encode_runes rs) = (if encode_runes rs \<in> set reserved_names then ''file'' else encode_runes rs)"
proof -
  have c: "CHR ''/'' \<notin> set (encode_runes rs)" "CHR 0x5C \<notin> set (encode_runes rs)" using base_rune_ascii s by blast+
  have sl: "slashed (encode_runes rs) = encode_runes rs" unfolding slashed_def using c(2) by (auto intro: map_idI)
  have al: "after_last_slash (encode_runes rs) = encode_runes rs"
  proof -
    have "takeWhile (\<lambda>c. c \<noteq> CHR ''/'') (rev (encode_runes rs)) = rev (encode_runes rs)"
      using c(1) by (auto simp: takeWhile_eq_all_conv)
    then show ?thesis by (simp only: after_last_slash_def rev_rev_ident)
  qed
  have fi: "filter base_rune rs = rs" using s by (simp add: list_all_iff filter_id_conv)
  have ru: "runes (encode_runes rs) = rs" using s by (simp add: runes_encode_runes)
  have tr: "trim_space (encode_runes rs) = encode_runes rs" using s by (simp add: trim_space_encode_eq trim_runes_id)
  show ?thesis unfolding safe_basename_def Let_def sl al ru fi tr ..
qed

lemma safe_basename_id: "safe_name_runes rs \<Longrightarrow> safe_basename (encode_runes rs) = encode_runes rs"
  by (simp add: safe_name_runes_def safe_basename_clean)

lemma file_name_safe: "safe_name_runes [102, 105, 108, 101] \<and> encode_runes [102, 105, 108, 101] = ''file''"
proof -
  have "chr 102 = CHR ''f''" "chr 105 = CHR ''i''" "chr 108 = CHR ''l''" "chr 101 = CHR ''e''" by code_simp+
  then have "encode_runes [102, 105, 108, 101] = ''file''" by (simp add: encode_runes_def encode_rune_ascii)
  moreover have "list_all base_rune [102, 105, 108, 101]"
    by (simp add: base_rune_def unsafe_path_rune_def is_control_def is_format_def cf_ranges_def shell_character_def shell_characters_def)
  ultimately show ?thesis
    by (simp add: safe_name_runes_def scalar_value_def trimmed_def is_space_def reserved_names_def marker_name_def)
qed

lemma safe_basename_runes: "\<exists>rs. safe_basename name = encode_runes rs \<and> safe_name_runes rs"
proof -
  let ?bs = "filter base_rune (runes (after_last_slash (slashed name)))"
  have s: "list_all scalar_value ?bs" using runes_scalar by (auto simp: list_all_iff)
  have t: "trim_space (encode_runes ?bs) = encode_runes (trim_runes ?bs)" by (rule trim_space_encode_eq [OF s])
  show ?thesis
  proof (cases "encode_runes (trim_runes ?bs) \<in> set reserved_names")
    case True
    then have "safe_basename name = ''file''" by (simp add: safe_basename_def t)
    then show ?thesis using file_name_safe by metis
  next
    case False
    then have "safe_basename name = encode_runes (trim_runes ?bs)" by (simp add: safe_basename_def t)
    moreover have "list_all scalar_value (trim_runes ?bs)" "list_all base_rune (trim_runes ?bs)"
      using s set_trim_runes [of ?bs] by (auto simp: list_all_iff)
    ultimately show ?thesis using False trimmed_trim by (auto simp: safe_name_runes_def)
  qed
qed

lemma safe_basename_again: "safe_basename (safe_basename name) = safe_basename name"
  using safe_basename_runes [of name] safe_basename_id by metis

section \<open>Free names\<close>

lemma reserve_from_spec:
  assumes "finite taken"
  shows "\<exists>j \<ge> k. reserve_from taken name k = candidate name j \<and> candidate name j \<notin> taken \<and> (\<forall>i. k \<le> i \<and> i < j \<longrightarrow> candidate name i \<in> taken)"
  using assms
proof (induction taken name k rule: reserve_from.induct)
  case (1 taken name k)
  show ?case
  proof (cases "candidate name k \<in> taken")
    case True
    then obtain j where "j \<ge> Suc k" "reserve_from taken name (Suc k) = candidate name j" "candidate name j \<notin> taken"
      "\<forall>i. Suc k \<le> i \<and> i < j \<longrightarrow> candidate name i \<in> taken" using 1 by blast
    moreover have "reserve_from taken name k = reserve_from taken name (Suc k)" using True 1(2) reserve_from.simps [of taken name k] by simp
    moreover have "\<forall>i. k \<le> i \<and> i < j \<longrightarrow> candidate name i \<in> taken" using calculation(4) True by (metis Suc_leI le_neq_implies_less)
    ultimately show ?thesis by (metis Suc_leD)
  next
    case False
    then show ?thesis using reserve_from.simps [of taken name k] by (intro exI [of _ k]) auto
  qed
qed

text \<open>C35.  A file is always stored under a free name of its own: whatever names a folder holds, the search ends with the first of the names
  \<open>name.ext\<close>, \<open>name (1).ext\<close>, \<open>name (2).ext\<close> and so on that is free.\<close>
theorem reserve_name_free:
  assumes "finite taken"
  shows "\<exists>j. reserve_name taken name = candidate name j \<and> candidate name j \<notin> taken \<and> (\<forall>i < j. candidate name i \<in> taken)"
  using reserve_from_spec [OF assms, of 0 name] by (auto simp: reserve_name_def)

lemma reserve_name_free_witness: "reserve_name {''a.txt''} ''a.txt'' = ''a (1).txt''"
proof -
  obtain j where j: "reserve_name {''a.txt''} ''a.txt'' = candidate ''a.txt'' j" "candidate ''a.txt'' j \<notin> {''a.txt''}"
    "\<forall>i < j. candidate ''a.txt'' i \<in> {''a.txt''}" using reserve_name_free [of "{''a.txt''}" "''a.txt''"] by auto
  have c: "candidate ''a.txt'' 0 = ''a.txt''" "candidate ''a.txt'' 1 = ''a (1).txt''" by code_simp+
  have "j \<noteq> 0" using j(2) c(1) by (metis singletonI)
  moreover have "\<not> 1 < j" using j(3) c(2) by force
  ultimately have "j = 1" by linarith
  then show ?thesis using j(1) c(2) by simp
qed

section \<open>Sizes\<close>

lemma parse_size_bounds:
  assumes "parse_size v = Some n"
  shows "1 \<le> n \<and> n \<le> max_int64"
proof -
  obtain number mult where p: "(case find (\<lambda>(s, m). has_suffix v s) size_suffixes of
      Some (s, m) \<Rightarrow> (trim_suffix v s, m) | None \<Rightarrow> (v, 1)) = (number, mult)" by force
  have m: "mult \<in> {1, 2 ^ 10, 2 ^ 20, 2 ^ 30 :: int}" using p by (auto simp: size_suffixes_def split: if_splits)
  have e: "(case parse_int64 number of None \<Rightarrow> None
      | Some k \<Rightarrow> if k < 1 \<or> k > max_int64 div mult then None else Some (k * mult)) = Some n"
    using assms by (simp only: parse_size_def p Let_def prod.case)
  obtain k where pk: "parse_int64 number = Some k" 
  proof (cases "parse_int64 number")
    case None
    then show ?thesis using e by (simp only: option.case option.distinct)
  qed
  have ek: "(if k < 1 \<or> k > max_int64 div mult then None else Some (k * mult)) = Some n" using e by (simp only: pk option.case)
  have c: "\<not> (k < 1 \<or> k > max_int64 div mult)"
  proof
    assume "k < 1 \<or> k > max_int64 div mult"
    then show False using ek by (simp only: if_True option.distinct)
  qed
  have "Some (k * mult) = Some n" using ek c by (simp only: if_False)
  then have k: "1 \<le> k" "k \<le> max_int64 div mult" "n = k * mult" using c by (simp_all only: option.inject not_less de_Morgan_disj)
  have "k * mult \<le> (max_int64 div mult) * mult" using m k(2) by (intro mult_right_mono) auto
  also have "\<dots> \<le> max_int64" using m by (auto simp: max_int64_def)
  finally show ?thesis using m k(1,3) by auto
qed

section \<open>Labels\<close>

lemma label_step_length: "length b \<le> 32 \<Longrightarrow> length (label_step letter digit r b) \<le> 32"
proof -
  have "encode_rune (byte (CHR ''-'')) = ''-''" "encode_rune (byte (CHR ''_'')) = ''_''"
    using encode_rune_ascii [of "byte (CHR ''-'')"] encode_rune_ascii [of "byte (CHR ''_'')"] by (simp_all only: chr_byte) simp_all
  then show "length b \<le> 32 \<Longrightarrow> length (label_step letter digit r b) \<le> 32"
    unfolding label_step_def by (simp only: split: if_split) auto
qed

lemma safe_label_length: "safe_label letter digit l \<noteq> [] \<and> length (safe_label letter digit l) \<le> 32"
proof -
  have f: "length (fold (label_step letter digit) rs b) \<le> 32" if "length b \<le> 32" for rs b
    using that by (induction rs arbitrary: b) (simp_all add: label_step_length)
  let ?b = "fold (label_step letter digit) (runes l) []"
  have "length (rev (dropWhile label_cut (rev (dropWhile label_cut ?b)))) \<le> length ?b"
    using length_dropWhile_le [of label_cut "rev (dropWhile label_cut ?b)"] length_dropWhile_le [of label_cut ?b] by simp
  then show ?thesis using f [of "[]" "runes l"] by (simp add: safe_label_def Let_def)
qed

end
