(* ===== verification/ShareTypes.thy ===== *)
theory ShareTypes
  imports UploadNamesFacts
begin

text \<open>
  Shared files as \<open>internal/shares/types.go\<close> has them, and the names, IDs and views of \<open>store.go\<close>.  The tables of
  \<open>unicode.ToLower\<close> and \<open>unicode.ToUpper\<close> are parameters.
\<close>

section \<open>Shared files\<close>

record share_source =
  sr_herdr :: string
  sr_pane :: string
  sr_terminal :: string
  sr_pid :: int
  sr_start :: nat
  sr_place :: string
  sr_tab :: string
  sr_agent :: string

record share_record =
  rd_id :: string
  rd_name :: string
  rd_size :: int
  rd_shared_at :: int
  rd_seen :: bool
  rd_source :: "share_source option"

definition itoa_int :: "int \<Rightarrow> string" where
  "itoa_int i = (if i < 0 then CHR ''-'' # itoa (nat (- i)) else itoa (nat i))"

definition source_key :: "share_source \<Rightarrow> string" where
  "source_key s = sr_herdr s @ ''|'' @ sr_pane s @ ''|'' @ sr_terminal s @ ''|'' @ itoa_int (sr_pid s) @ ''|'' @ itoa (sr_start s)"

definition source_handle :: "share_source \<Rightarrow> string" where
  "source_handle s = hex_encode (take 12 (sha256 (source_key s)))"

section \<open>Types of files\<close>

datatype share_kind = KindImage | KindVideo | KindText | KindPDF | KindOther

definition file_types :: "(string \<times> string \<times> share_kind) list" where
  "file_types =
    [(''png'', ''image/png'', KindImage), (''jpg'', ''image/jpeg'', KindImage), (''jpeg'', ''image/jpeg'', KindImage),
     (''gif'', ''image/gif'', KindImage), (''webp'', ''image/webp'', KindImage), (''avif'', ''image/avif'', KindImage),
     (''svg'', ''image/svg+xml'', KindImage), (''mp4'', ''video/mp4'', KindVideo), (''m4v'', ''video/mp4'', KindVideo),
     (''webm'', ''video/webm'', KindVideo), (''mov'', ''video/quicktime'', KindVideo), (''pdf'', ''application/pdf'', KindPDF)]"

definition text_extensions :: "string list" where
  "text_extensions = [''txt'', ''md'', ''markdown'', ''log'', ''json'', ''jsonl'', ''csv'', ''tsv'', ''yaml'', ''yml'', ''toml'',
     ''ini'', ''diff'', ''patch'']"

text \<open>\<open>path.Ext\<close> and \<open>filepath.Ext\<close>: from the last dot of the last part.\<close>
definition path_ext :: "string \<Rightarrow> string" where
  "path_ext name =
     (let part = after_last_slash name in case last_index (CHR ''.'') part of None \<Rightarrow> [] | Some i \<Rightarrow> drop i part)"

definition share_extension :: "(nat \<Rightarrow> nat) \<Rightarrow> string \<Rightarrow> string" where
  "share_extension lower name = encode_runes (map lower (runes (trim_prefix (path_ext name) ''.'')))"

definition type_of :: "(nat \<Rightarrow> nat) \<Rightarrow> string \<Rightarrow> string \<times> share_kind" where
  "type_of lower name =
     (let ext = share_extension lower name in
      case map_of file_types ext of Some known \<Rightarrow> known
      | None \<Rightarrow> if ext \<in> set text_extensions then (''text/plain; charset=utf-8'', KindText)
                else (''application/octet-stream'', KindOther))"

definition tag_rune :: "nat \<Rightarrow> bool" where
  "tag_rune r \<longleftrightarrow> 65 \<le> r \<and> r \<le> 90 \<or> 48 \<le> r \<and> r \<le> 57"

definition tag :: "(nat \<Rightarrow> nat) \<Rightarrow> (nat \<Rightarrow> nat) \<Rightarrow> string \<Rightarrow> string" where
  "tag lower upper name =
     (let ext = encode_runes (map upper (runes (share_extension lower name))) in
      if ext = ''JPEG'' then ''JPG''
      else if ext = [] \<or> length ext > 4 \<or> list_ex (\<lambda>r. \<not> tag_rune r) (runes ext) then ''FILE''
      else ext)"

section \<open>Names and IDs\<close>

definition max_name_bytes :: nat where "max_name_bytes = 200"

definition safe_share_name :: "string \<Rightarrow> string" where
  "safe_share_name name =
     (let n = safe_basename name in
      if length n \<le> max_name_bytes then n
      else let e = (if length (path_ext n) > 16 \<or> CHR '' '' \<in> set (path_ext n) then [] else path_ext n);
               stem = take (length n - length e) n
           in trim_space (take (cut_back stem (max_name_bytes - length e)) stem) @ e)"

definition valid_share_id :: "string \<Rightarrow> bool" where
  "valid_share_id v \<longleftrightarrow> length v = 32 \<and> (case hex_decode v of None \<Rightarrow> False | Some d \<Rightarrow> hex_encode d = v)"

text \<open>\<open>newID\<close>: 16 random bytes in hex.\<close>
definition new_share_id :: "string \<Rightarrow> string" where
  "new_share_id random = hex_encode random"

section \<open>Views\<close>

record share_view =
  vw_all :: bool
  vw_handle :: string
  vw_herdr :: string
  vw_pane :: string
  vw_terminal :: string

definition view_matches :: "share_view \<Rightarrow> share_record \<Rightarrow> (share_source \<Rightarrow> bool) \<Rightarrow> bool" where
  "view_matches v r current =
     (if vw_all v then True
      else case rd_source r of None \<Rightarrow> False
      | Some s \<Rightarrow>
        if vw_handle v \<noteq> [] \<and> source_handle s = vw_handle v then True
        else vw_pane v \<noteq> [] \<and> sr_herdr s = vw_herdr v \<and> sr_pane s = vw_pane v \<and> sr_terminal s = vw_terminal v \<and> current s)"

section \<open>What is served\<close>

lemma type_of_known:
  "type_of lower name \<in> snd ` set file_types \<union> {(''text/plain; charset=utf-8'', KindText), (''application/octet-stream'', KindOther)}"
  by (force simp: type_of_def Let_def dest: map_of_SomeD split: option.split)

lemma tag_short: "tag lower upper name \<noteq> [] \<and> length (tag lower upper name) \<le> 4"
  by (auto simp: tag_def Let_def)

section \<open>Names stay safe\<close>

text \<open>Cutting a text at an ASCII character leaves whole characters on both sides.\<close>
lemma encode_split:
  assumes "list_all scalar_value rs" "encode_runes rs = a @ c # b" "byte c < 128"
  shows "\<exists>ys zs. rs = ys @ byte c # zs \<and> a = encode_runes ys \<and> b = encode_runes zs"
  using assms
proof (induction rs arbitrary: a)
  case (Cons r rs)
  have s: "scalar_value r" "list_all scalar_value rs" using Cons.prems(1) by simp_all
  have e: "encode_rune r @ encode_runes rs = a @ c # b" using Cons.prems(2) by (simp add: encode_runes_Cons)
  have inner: ?case if h: "a = encode_rune r @ us" "encode_runes rs = us @ c # b" for us
  proof -
    obtain ys zs where "rs = ys @ byte c # zs" "us = encode_runes ys" "b = encode_runes zs"
      using Cons.IH [OF s(2) h(2) Cons.prems(3)] by blast
    then show ?thesis by (intro exI [of _ "r # ys"] exI [of _ zs]) (simp add: encode_runes_Cons h(1))
  qed
  from e consider (right) us where "a = encode_rune r @ us" "encode_runes rs = us @ c # b"
    | (left) us where "encode_rune r = a @ us" "us @ encode_runes rs = c # b" unfolding append_eq_append_conv2 by blast
  then show ?case
  proof cases
    case right
    then show ?thesis by (rule inner)
  next
    case left
    show ?thesis
    proof (cases us)
      case Nil
      then show ?thesis using left inner [of "[]"] by simp
    next
      case (Cons d ds)
      then have "c \<in> set (encode_rune r)" using left by auto
      then have low: "r < 128" using encode_rune_high [OF s(1)] \<open>byte c < 128\<close> by force
      then have "a = []" "us = [chr r]" using left(1) Cons by (auto simp: encode_rune_ascii Cons_eq_append_conv)
      then show ?thesis using left(2) low by (intro exI [of _ "[]"] exI [of _ rs]) (auto simp: encode_runes_append(2))
    qed
  qed
qed (simp add: encode_runes_append(2))

lemma path_ext_split:
  assumes "list_all scalar_value rs" "CHR ''/'' \<notin> set (encode_runes rs)"
  shows "\<exists>ys zs. rs = ys @ zs \<and> path_ext (encode_runes rs) = encode_runes zs"
proof -
  have "takeWhile (\<lambda>c. c \<noteq> CHR ''/'') (rev (encode_runes rs)) = rev (encode_runes rs)" using assms(2) by (auto simp: takeWhile_eq_all_conv)
  then have p: "after_last_slash (encode_runes rs) = encode_runes rs" by (simp only: after_last_slash_def rev_rev_ident)
  show ?thesis
  proof (cases "last_index (CHR ''.'') (encode_runes rs)")
    case None
    then show ?thesis by (intro exI [of _ rs] exI [of _ "[]"]) (simp add: path_ext_def p encode_runes_append(2))
  next
    case (Some i)
    note l = last_index_Some [OF Some]
    obtain ys zs where yz: "rs = ys @ byte (CHR ''.'') # zs" "drop (Suc i) (encode_runes rs) = encode_runes zs"
      using encode_split [OF assms(1), of "take i (encode_runes rs)" "CHR ''.''" "drop (Suc i) (encode_runes rs)"] l by auto
    have "drop i (encode_runes rs) = CHR ''.'' # drop (Suc i) (encode_runes rs)" using l by (metis Cons_nth_drop_Suc)
    also have "\<dots> = encode_runes (byte (CHR ''.'') # zs)"
    proof -
      have "encode_rune (byte (CHR ''.'')) = [CHR ''.'']" using encode_rune_ascii [of "byte (CHR ''.'')"] by (simp_all only: chr_byte) simp_all
      then show ?thesis by (simp only: yz(2) encode_runes_Cons append.simps)
    qed
    finally have "path_ext (encode_runes rs) = encode_runes (byte (CHR ''.'') # zs)" by (simp only: path_ext_def p Let_def Some option.case)
    then show ?thesis using yz(1) by blast
  qed
qed


lemma encode_runes_drop_length: "length (encode_runes (dropWhile P rs)) \<le> length (encode_runes rs)"
  by (induction rs) (simp_all add: encode_runes_Cons)

lemma encode_runes_rev_length: "length (encode_runes (rev rs)) = length (encode_runes rs)"
  by (induction rs) (simp_all add: encode_runes_Cons encode_runes_append)

lemma encode_trim_length: "length (encode_runes (trim_runes rs)) \<le> length (encode_runes rs)"
  using encode_runes_drop_length [of is_space "rev (dropWhile is_space rs)"] encode_runes_drop_length [of is_space rs]
  by (simp add: trim_runes_def encode_runes_rev_length)

lemma encode_rune_length: "scalar_value r \<Longrightarrow> 1 \<le> length (encode_rune r) \<and> length (encode_rune r) \<le> 4"
  by (simp add: scalar_rune)

lemma cut_back_pos:
  assumes "list_all scalar_value rs" "n < length (encode_runes rs)" "4 \<le> n"
  shows "0 < cut_back (encode_runes rs) n"
proof (cases rs)
  case (Cons r us)
  have s: "scalar_value r" "list_all scalar_value us" using assms(1) Cons by simp_all
  obtain m where m: "n = length (encode_rune r) + m" using encode_rune_length [OF s(1)] assms(3) by (metis le_Suc_ex order_trans)
  then have "us \<noteq> []" using assms(2) Cons by (auto simp: encode_runes_Cons encode_runes_append(2))
  then show ?thesis using cut_back_after [OF s(1), of "encode_runes us" m] encode_runes_start [OF s(2)] encode_rune_length [OF s(1)]
    by (simp add: Cons encode_runes_Cons m)
qed (use assms(2) in \<open>simp add: encode_runes_append(2)\<close>)

lemma trim_runes_ne: "rs \<noteq> [] \<Longrightarrow> \<not> is_space (hd rs) \<Longrightarrow> trim_runes rs \<noteq> []"
  by (cases rs) (auto simp: trim_runes_def dropWhile_append)

lemma trim_runes_hd:
  assumes "rs \<noteq> []" "\<not> is_space (hd rs)"
  shows "hd (trim_runes rs) = hd rs"
proof -
  have "trim_runes rs = rev (dropWhile is_space (rev rs))" using assms by (simp add: trim_runes_def dropWhile_hd)
  moreover obtain us where "rev rs = us @ dropWhile is_space (rev rs)" by (metis takeWhile_dropWhile_id)
  then have "rs = rev (dropWhile is_space (rev rs)) @ rev us" by (metis rev_append rev_rev_ident)
  ultimately show ?thesis using trim_runes_ne [OF assms] by (metis hd_append2)
qed

text \<open>The names shared files are stored under: safe like those of uploads, and at most 200 bytes; only a cut can leave one of the
  names that mean something else.\<close>
lemma safe_share_name_runes:
  "\<exists>rs. safe_share_name name = encode_runes rs \<and> list_all scalar_value rs \<and> list_all base_rune rs \<and> trimmed rs \<and> rs \<noteq> []
     \<and> length (encode_runes rs) \<le> max_name_bytes"
proof -
  obtain rs where n: "safe_basename name = encode_runes rs" and safe: "safe_name_runes rs" using safe_basename_runes by blast
  note s = safe [unfolded safe_name_runes_def]
  have rne: "rs \<noteq> []" using s by (auto simp: reserved_names_def encode_runes_append(2))
  show ?thesis
  proof (cases "length (encode_runes rs) \<le> max_name_bytes")
    case True
    then show ?thesis using s rne by (intro exI [of _ rs]) (simp add: safe_share_name_def n)
  next
    case False
    let ?n = "encode_runes rs"
    let ?e = "if length (path_ext ?n) > 16 \<or> CHR '' '' \<in> set (path_ext ?n) then [] else path_ext ?n"
    obtain ys zs where yz: "rs = ys @ zs" "?e = encode_runes zs"
    proof (cases "length (path_ext ?n) > 16 \<or> CHR '' '' \<in> set (path_ext ?n)")
      case False
      then show ?thesis using path_ext_split [of rs] base_rune_ascii(1) [of rs] s that by (metis (no_types, lifting))
    next
      case True
      then show ?thesis using that [of rs "[]"] by (simp add: encode_runes_append(2))
    qed
    have el: "length ?e \<le> 16" by simp
    have st: "take (length ?n - length (encode_runes zs)) ?n = encode_runes ys" by (simp add: yz(1) encode_runes_append)
    have ys: "list_all scalar_value ys" "list_all scalar_value zs" "list_all base_rune ys" "list_all base_rune zs" using s yz(1) by simp_all
    define lim where "lim = max_name_bytes - length (encode_runes zs)"
    have lim: "184 \<le> lim" "lim + length (encode_runes zs) = 200" using el yz(2) by (simp_all add: lim_def max_name_bytes_def)
    have ll: "lim < length (encode_runes ys)" using False lim yz(1) by (simp add: encode_runes_append max_name_bytes_def)
    obtain k where k: "take (cut_back (encode_runes ys) lim) (encode_runes ys) = encode_runes (take k ys)" using take_cut_back [OF ys(1) ll] by blast
    have ky: "list_all scalar_value (take k ys)" "list_all base_rune (take k ys)" using ys by (auto simp: list_all_iff dest: in_set_takeD)
    have "safe_share_name name = (let e = ?e; stem = take (length ?n - length e) ?n
        in trim_space (take (cut_back stem (max_name_bytes - length e)) stem) @ e)"
      using False by (simp only: safe_share_name_def n Let_def if_False)
    also have "\<dots> = trim_space (take (cut_back (encode_runes ys) lim) (encode_runes ys)) @ encode_runes zs"
      by (simp only: yz(2) Let_def st lim_def)
    finally have r: "safe_share_name name = encode_runes (trim_runes (take k ys) @ zs)"
      by (simp only: k trim_space_encode_eq [OF ky(1)] encode_runes_append)
    have kl: "length (encode_runes (take k ys)) \<le> lim" using k cut_back_le [of "encode_runes ys" lim] by (metis length_take min.bounded_iff min.cobounded2 order_trans)
    have tne: "take k ys \<noteq> []"
    proof
      assume "take k ys = []"
      then have "length (take (cut_back (encode_runes ys) lim) (encode_runes ys)) = 0" using k by (simp add: encode_runes_append(2))
      then show False using cut_back_pos [OF ys(1) ll] lim ll by auto
    qed
    have h: "\<not> is_space (hd (take k ys))" using s rne yz(1) tne by (auto simp: trimmed_def)
    have tr: "trimmed (trim_runes (take k ys) @ zs)"
      using s rne yz(1) trimmed_trim [of "take k ys"] trim_runes_ne [OF tne h] trim_runes_hd [OF tne h] h
      by (cases "zs = []") (auto simp: trimmed_def)
    have "length (encode_runes (trim_runes (take k ys) @ zs)) \<le> max_name_bytes"
      using encode_trim_length [of "take k ys"] kl lim by (simp add: encode_runes_append max_name_bytes_def)
    moreover have "list_all scalar_value (trim_runes (take k ys) @ zs) \<and> list_all base_rune (trim_runes (take k ys) @ zs)"
      using ky ys set_trim_runes [of "take k ys"] by (auto simp: list_all_iff)
    moreover have "trim_runes (take k ys) @ zs \<noteq> []" using trim_runes_ne [OF tne h] by simp
    ultimately show ?thesis using r tr by blast
  qed
qed

text \<open>A stored name is its own safe name, so the index that holds it is accepted again, unless the cut left one of the names
  that mean something else.\<close>
lemma safe_share_name_again:
  "safe_share_name (safe_share_name name) = (if safe_share_name name \<in> set reserved_names then ''file'' else safe_share_name name)"
proof -
  obtain rs where r: "safe_share_name name = encode_runes rs" "list_all scalar_value rs" "list_all base_rune rs" "trimmed rs" "rs \<noteq> []"
    "length (encode_runes rs) \<le> max_name_bytes" using safe_share_name_runes by blast
  show ?thesis
  proof (cases "encode_runes rs \<in> set reserved_names")
    case False
    then show ?thesis using r by (simp add: safe_share_name_def safe_basename_clean)
  next
    case True
    then show ?thesis using r by (simp add: safe_share_name_def safe_basename_clean max_name_bytes_def)
  qed
qed

end
