(* ===== verification/ShareStore.thy ===== *)
theory ShareStore
  imports ShareTypes StateFile "HOL-Library.AList"
begin

text \<open>
  The store of shared files, \<open>internal/shares/store.go\<close>.

  The folder on disk is a \<open>share_disk\<close>: the index beside its temporary copies (the disk of \<open>StateFile\<close>, whose directory is
  the folder itself), the entries of the folder, and the files being received.  Which call fails is chosen by the
  environment.  A process that ends in the middle of an operation leaves the same folder as one whose later calls
  all fail, so stopping between operations covers it.

  Sizes are sums of the sizes of files on one disk and stay far below \<open>2 ^ 63\<close>, so they are integers here.
\<close>

section \<open>The folder\<close>

record share_folder =
  fo_info :: finfo
  fo_files :: "(string \<times> finfo \<times> string) list"

record share_index =
  ix_files :: "share_record list"
  ix_version :: int

record share_disk =
  sd_index :: "share_index disk"
  sd_folders :: "(string \<times> share_folder) list"
  sd_incoming :: "(string \<times> string) list option"
  sd_locked :: bool

datatype share_call =
    OpenRoot | OpenLock | StatLock | Flock | ClearIncoming | MkIncoming | ReadFolder
  | UnlinkIn string | RmdirOf string | OpenShared string
  | CreateIncoming | SyncIncoming | CloseIncoming | RemoveIncoming | MkShared | RenameShared

record share_env =
  se_io :: faults
  se_fs :: "share_call \<Rightarrow> bool"

datatype share_error =
    NotAbsolute | ShareIo io_error | ShareFs share_call | FolderChanged | ShareInUse
  | IndexUnreadable | IndexVersion | IndexEntry
  | SizeInvalid | ShareTooLarge | ShareFull int int
  | ShareCancelled | ShareWrite | ShareRead | ShareUnexpectedEOF

definition no_faults :: share_env where "no_faults = \<lparr>se_io = (\<lambda>_. False), se_fs = (\<lambda>_. False)\<rparr>"

text \<open>\<open>RemoveAll\<close> of one entry.  It can fail before the file in the folder is gone, or after.\<close>
definition remove_all :: "(share_call \<Rightarrow> bool) \<Rightarrow> string \<Rightarrow> (string \<times> share_folder) list \<Rightarrow> bool \<times> (string \<times> share_folder) list" where
  "remove_all fs i folders =
     (case map_of folders i of None \<Rightarrow> (True, folders)
      | Some f \<Rightarrow>
        if fs (UnlinkIn i) then (False, folders)
        else if fs (RmdirOf i) then (False, AList.update i (f\<lparr>fo_files := []\<rparr>) folders)
        else (True, AList.delete i folders))"

text \<open>\<open>OpenPrivateRegularAt\<close> of a shared file.\<close>
definition open_shared :: "(share_call \<Rightarrow> bool) \<Rightarrow> (string \<times> share_folder) list \<Rightarrow> share_record \<Rightarrow> string option" where
  "open_shared fs folders r =
     (case map_of folders (rd_id r) of None \<Rightarrow> None
      | Some f \<Rightarrow> (case map_of (fo_files f) (rd_name r) of None \<Rightarrow> None
        | Some (i, bytes) \<Rightarrow>
          if fs (OpenShared (rd_id r)) \<or> f_symlink i \<or> \<not> private_file_info i then None else Some bytes))"

definition present :: "(share_call \<Rightarrow> bool) \<Rightarrow> (string \<times> share_folder) list \<Rightarrow> share_record \<Rightarrow> bool" where
  "present fs folders r =
     (case map_of folders (rd_id r) of None \<Rightarrow> False
      | Some f \<Rightarrow>
        private_dir_info (fo_info f)
        \<and> (case open_shared fs folders r of None \<Rightarrow> False | Some bytes \<Rightarrow> int (length bytes) = rd_size r))"

section \<open>The index\<close>

definition max_index_bytes :: nat where "max_index_bytes = 16 * 2 ^ 20"

fun valid_entries :: "string list \<Rightarrow> share_record list \<Rightarrow> bool" where
  "valid_entries seen [] \<longleftrightarrow> True"
| "valid_entries seen (r # rs) =
     (if \<not> valid_share_id (rd_id r) \<or> rd_id r \<in> set seen \<or> rd_name r \<noteq> safe_share_name (rd_name r) \<or> rd_size r < 0 then False
      else valid_entries (rd_id r # seen) rs)"

text \<open>\<open>readIndex\<close>.  \<open>jsize\<close> is the length of the JSON text of an index; a file that is not the JSON of an index is one that
  can't be read.\<close>
definition read_index :: "(share_index \<Rightarrow> nat) \<Rightarrow> faults \<Rightarrow> share_index disk \<Rightarrow> share_error + share_record list" where
  "read_index jsize io d =
     (case open_private_regular io d of
        Inl NotExist \<Rightarrow> Inr []
      | Inl e \<Rightarrow> Inl (ShareIo e)
      | Inr ix \<Rightarrow>
        if io ReadFile \<or> jsize ix > max_index_bytes then Inl IndexUnreadable
        else if ix_version ix \<noteq> 1 then Inl IndexVersion
        else if \<not> valid_entries [] (ix_files ix) then Inl IndexEntry
        else Inr (ix_files ix))"

definition index_of :: "share_record list \<Rightarrow> share_index" where
  "index_of rs = \<lparr>ix_files = rs, ix_version = 1\<rparr>"

section \<open>The store\<close>

record share_store =
  ss_disk :: share_disk
  ss_limit :: limit
  ss_total :: limit
  ss_records :: "share_record list"
  ss_kept :: int
  ss_reserved :: int
  ss_views :: "(nat \<times> share_view) list"
  ss_current :: "share_source \<Rightarrow> bool"
  ss_subscribers :: "(nat \<times> bool) list"

definition set_folders :: "(string \<times> share_folder) list \<Rightarrow> share_disk \<Rightarrow> share_disk" where
  "set_folders fs d = d\<lparr>sd_folders := fs\<rparr>"

text \<open>\<open>writeIndex\<close> of the records in memory.\<close>
definition write_index :: "faults \<Rightarrow> share_store \<Rightarrow> (io_error + unit) \<times> share_store" where
  "write_index io s =
     (let (r, ixd) = shares_write_index io (index_of (ss_records s)) (sd_index (ss_disk s))
      in (r, s\<lparr>ss_disk := (ss_disk s)\<lparr>sd_index := ixd\<rparr>\<rparr>))"

fun keep_present :: "(share_call \<Rightarrow> bool) \<Rightarrow> share_record list \<Rightarrow> (string \<times> share_folder) list
    \<Rightarrow> share_record list \<times> (string \<times> share_folder) list" where
  "keep_present fs [] folders = ([], folders)"
| "keep_present fs (r # rs) folders =
     (if present fs folders r then (let (k, f) = keep_present fs rs folders in (r # k, f))
      else keep_present fs rs (snd (remove_all fs (rd_id r) folders)))"

fun clear_unlisted :: "(share_call \<Rightarrow> bool) \<Rightarrow> string set \<Rightarrow> string list \<Rightarrow> (string \<times> share_folder) list
    \<Rightarrow> bool \<times> (string \<times> share_folder) list" where
  "clear_unlisted fs known [] folders = (True, folders)"
| "clear_unlisted fs known (n # ns) folders =
     (if valid_share_id n \<and> n \<notin> known then
        (case remove_all fs n folders of (False, f) \<Rightarrow> (False, f) | (True, f) \<Rightarrow> clear_unlisted fs known ns f)
      else clear_unlisted fs known ns folders)"

definition new_share_store :: "share_disk \<Rightarrow> limit \<Rightarrow> limit \<Rightarrow> share_record list \<Rightarrow> share_store" where
  "new_share_store d limit tot records =
     \<lparr>ss_disk = d, ss_limit = limit, ss_total = tot, ss_records = records, ss_kept = sum_list (map rd_size records),
      ss_reserved = 0, ss_views = [], ss_current = (\<lambda>_. False), ss_subscribers = []\<rparr>"

text \<open>\<open>load\<close>, after the folder is locked: read the index; clear what an interrupted share left and what has no file; write the index
  when it changed.\<close>
definition finish_load :: "faults \<Rightarrow> limit \<Rightarrow> limit \<Rightarrow> share_record list \<Rightarrow> share_record list \<Rightarrow> share_disk
    \<Rightarrow> (share_error + share_store) \<times> share_disk" where
  "finish_load io limit tot records kept d =
     (let s = new_share_store d limit tot kept in
      if length kept \<noteq> length records then
        (case write_index io s of
           (Inl e, s1) \<Rightarrow> (Inl (ShareIo e), ss_disk s1)
         | (Inr _, s1) \<Rightarrow> (Inr s1, ss_disk s1))
      else (Inr s, ss_disk s))"

definition settle_load :: "share_env \<Rightarrow> limit \<Rightarrow> limit \<Rightarrow> share_record list \<Rightarrow> share_disk \<Rightarrow> (share_error + share_store) \<times> share_disk" where
  "settle_load env limit tot records d =
     (let fs = se_fs env; (kept, folders) = keep_present fs records (sd_folders d); d1 = set_folders folders d in
      if fs ReadFolder then (Inl (ShareFs ReadFolder), d1)
      else if dk_temps (sd_index d1) > 0 \<and> se_io env RemoveTemp then (Inl (ShareIo (IoFailed RemoveTemp)), d1)
      else
        let d2 = d1\<lparr>sd_index := (sd_index d1)\<lparr>dk_temps := 0\<rparr>\<rparr> in
        case clear_unlisted fs (rd_id ` set kept) (map fst folders) folders of
          (False, f) \<Rightarrow> (Inl (ShareFs ReadFolder), set_folders f d2)
        | (True, f) \<Rightarrow> finish_load (se_io env) limit tot records kept (set_folders f d2))"

definition load_share :: "(share_index \<Rightarrow> nat) \<Rightarrow> share_env \<Rightarrow> limit \<Rightarrow> limit \<Rightarrow> share_disk \<Rightarrow> (share_error + share_store) \<times> share_disk" where
  "load_share jsize env limit tot d =
     (case read_index jsize (se_io env) (sd_index d) of Inl e \<Rightarrow> (Inl e, d)
      | Inr records \<Rightarrow>
        if se_fs env ClearIncoming then (Inl (ShareFs ClearIncoming), d)
        else if se_fs env MkIncoming then (Inl (ShareFs MkIncoming), d\<lparr>sd_incoming := None\<rparr>)
        else settle_load env limit tot records (d\<lparr>sd_incoming := Some []\<rparr>))"

definition unlock_share :: "share_disk \<Rightarrow> share_disk" where "unlock_share d = d\<lparr>sd_locked := False\<rparr>"

text \<open>\<open>Open\<close>, and \<open>Close\<close> as what it leaves.\<close>
definition open_share_store :: "(share_index \<Rightarrow> nat) \<Rightarrow> share_env \<Rightarrow> string \<Rightarrow> limit \<Rightarrow> limit \<Rightarrow> share_disk
    \<Rightarrow> (share_error + share_store) \<times> share_disk" where
  "open_share_store jsize env dir limit tot d =
     (if \<not> is_abs dir then (Inl NotAbsolute, d)
      else case ensure_private_directory (se_io env) True (sd_index d) of
        (Inl e, ixd) \<Rightarrow> (Inl (ShareIo e), d\<lparr>sd_index := ixd\<rparr>)
      | (Inr _, ixd) \<Rightarrow>
        let d1 = d\<lparr>sd_index := ixd\<rparr> in
        if se_fs env OpenRoot then (Inl (ShareFs OpenRoot), d1)
        else if se_fs env OpenLock then (Inl (ShareFs OpenLock), d1)
        else if se_fs env StatLock then (Inl FolderChanged, d1)
        else if sd_locked d1 then (Inl ShareInUse, d1)
        else if se_fs env Flock then (Inl (ShareFs Flock), d1)
        else (case load_share jsize env limit tot (d1\<lparr>sd_locked := True\<rparr>) of
               (Inl e, d2) \<Rightarrow> (Inl e, unlock_share d2)
             | (Inr s, d2) \<Rightarrow> (Inr s, d2)))"

definition notify_shares :: "share_store \<Rightarrow> share_store" where
  "notify_shares s = s\<lparr>ss_subscribers := map (\<lambda>(n, _). (n, True)) (ss_subscribers s)\<rparr>"

definition subscribe_shares :: "nat \<Rightarrow> share_store \<Rightarrow> share_store" where
  "subscribe_shares n s = s\<lparr>ss_subscribers := AList.update n False (ss_subscribers s)\<rparr>"

definition unsubscribe_shares :: "nat \<Rightarrow> share_store \<Rightarrow> share_store" where
  "unsubscribe_shares n s = s\<lparr>ss_subscribers := AList.delete n (ss_subscribers s)\<rparr>"

definition set_current :: "(share_source \<Rightarrow> bool) \<Rightarrow> share_store \<Rightarrow> share_store" where
  "set_current c s = s\<lparr>ss_current := c\<rparr>"

definition mark_seen :: "(share_record \<Rightarrow> bool) \<Rightarrow> share_record \<Rightarrow> share_record" where
  "mark_seen hit r = (if hit r then r\<lparr>rd_seen := True\<rparr> else r)"

text \<open>\<open>SetView\<close>.  An index that can't be written is logged, and the files stay seen in memory.\<close>
definition set_view :: "share_env \<Rightarrow> nat \<Rightarrow> share_view option \<Rightarrow> share_store \<Rightarrow> share_store" where
  "set_view env owner view s =
     (case view of None \<Rightarrow> s\<lparr>ss_views := AList.delete owner (ss_views s)\<rparr>
      | Some v \<Rightarrow>
        let s1 = s\<lparr>ss_views := AList.update owner v (ss_views s)\<rparr>;
            hit = (\<lambda>r. \<not> rd_seen r \<and> view_matches v r (ss_current s))
        in if \<not> list_ex hit (ss_records s) then s1
           else notify_shares (snd (write_index (se_io env)
             (s1\<lparr>ss_records := map (mark_seen hit) (ss_records s)\<rparr>))))"

text \<open>\<open>Store.Open\<close>: a file's copy for reading.\<close>
definition open_share :: "(share_call \<Rightarrow> bool) \<Rightarrow> string \<Rightarrow> share_store \<Rightarrow> (string \<times> share_record) option" where
  "open_share fs i s =
     (case find (\<lambda>r. rd_id r = i) (ss_records s) of None \<Rightarrow> None
      | Some r \<Rightarrow> map_option (\<lambda>b. (b, r)) (open_shared fs (sd_folders (ss_disk s)) r))"

record delete_result =
  de_deleted :: "string list"
  de_gone :: "string list"
  de_failed :: "string list"
  de_saved :: bool

fun delete_each :: "(share_call \<Rightarrow> bool) \<Rightarrow> string list \<Rightarrow> share_store \<Rightarrow> delete_result \<Rightarrow> delete_result \<times> share_store" where
  "delete_each fs [] s res = (res, s)"
| "delete_each fs (i # is) s res =
     (case find (\<lambda>r. rd_id r = i) (ss_records s) of
        None \<Rightarrow> delete_each fs is s (res\<lparr>de_gone := de_gone res @ [i]\<rparr>)
      | Some r \<Rightarrow>
        (case remove_all fs i (sd_folders (ss_disk s)) of
           (False, f) \<Rightarrow> delete_each fs is (s\<lparr>ss_disk := set_folders f (ss_disk s)\<rparr>) (res\<lparr>de_failed := de_failed res @ [i]\<rparr>)
         | (True, f) \<Rightarrow>
           delete_each fs is
             (s\<lparr>ss_disk := set_folders f (ss_disk s), ss_kept := ss_kept s - rd_size r,
                ss_records := delete_first (\<lambda>r. rd_id r = i) (ss_records s)\<rparr>)
             (res\<lparr>de_deleted := de_deleted res @ [i]\<rparr>)))"

text \<open>\<open>Delete\<close>.\<close>
definition delete_shares :: "share_env \<Rightarrow> string list \<Rightarrow> share_store \<Rightarrow> delete_result \<times> share_store" where
  "delete_shares env ids s =
     (let (res, s1) = delete_each (se_fs env) ids s \<lparr>de_deleted = [], de_gone = [], de_failed = [], de_saved = True\<rparr>
      in if de_deleted res = [] then (res, s1)
         else (case write_index (se_io env) s1 of
                 (Inl _, s2) \<Rightarrow> (res\<lparr>de_saved := False\<rparr>, notify_shares s2)
               | (Inr _, s2) \<Rightarrow> (res, notify_shares s2)))"

section \<open>Files being received\<close>

record incoming_share =
  in_id :: string
  in_name :: string
  in_size :: int
  in_open :: bool
  in_done :: bool

definition incoming_files :: "share_store \<Rightarrow> (string \<times> string) list" where
  "incoming_files s = (case sd_incoming (ss_disk s) of None \<Rightarrow> [] | Some l \<Rightarrow> l)"

definition set_incoming :: "(string \<times> string) list \<Rightarrow> share_store \<Rightarrow> share_store" where
  "set_incoming l s = s\<lparr>ss_disk := (ss_disk s)\<lparr>sd_incoming := Some l\<rparr>\<rparr>"

text \<open>\<open>release\<close>.\<close>
definition release_share :: "incoming_share \<Rightarrow> share_store \<Rightarrow> incoming_share \<times> share_store" where
  "release_share inc s =
     (if in_done inc then (inc, s) else (inc\<lparr>in_done := True\<rparr>, s\<lparr>ss_reserved := ss_reserved s - in_size inc\<rparr>))"

text \<open>\<open>Begin\<close>; \<open>random\<close> is what \<open>rand.Read\<close> gives.  The reservation is made and, when the file can't be created, given back.\<close>
definition begin_share :: "share_env \<Rightarrow> string \<Rightarrow> string \<Rightarrow> int \<Rightarrow> share_store \<Rightarrow> (share_error + incoming_share) \<times> share_store" where
  "begin_share env random name sz s =
     (if sz < 0 then (Inl SizeInvalid, s)
      else if \<not> allows (ss_limit s) sz then (Inl ShareTooLarge, s)
      else if \<not> lm_unlimited (ss_total s) \<and> (sz > lm_bytes (ss_total s) \<or> ss_kept s + ss_reserved s > lm_bytes (ss_total s) - sz)
        then (Inl (ShareFull (ss_kept s) (lm_bytes (ss_total s))), s)
      else
        let s1 = s\<lparr>ss_reserved := ss_reserved s + sz\<rparr>;
            inc = \<lparr>in_id = new_share_id random, in_name = safe_share_name name, in_size = sz, in_open = False, in_done = False\<rparr>
        in if se_fs env CreateIncoming \<or> sd_incoming (ss_disk s1) = None \<or> in_id inc \<in> fst ` set (incoming_files s1)
           then (Inl (ShareFs CreateIncoming), snd (release_share inc s1))
           else (Inr (inc\<lparr>in_open := True\<rparr>), set_incoming ((in_id inc, []) # incoming_files s1) s1))"

text \<open>One turn of the loop of \<open>Copy\<close>: the context has ended, or \<open>Read\<close> returned these bytes and this error, and \<open>Write\<close> failed
  or not.  A reader returns at most as many bytes as it is asked for, 64 KiB or what remains.\<close>
datatype read_status = ReadOk | ReadEOF | ReadFailed

datatype copy_event = Cancelled | GotBytes string read_status bool

datatype copy_result = Copying int | Copied | CopyError share_error

fun copy_loop :: "copy_event list \<Rightarrow> int \<Rightarrow> string \<Rightarrow> copy_result \<times> string" where
  "copy_loop [] remaining got = (if remaining > 0 then Copying remaining else Copied, got)"
| "copy_loop (e # es) remaining got =
     (if remaining \<le> 0 then (Copied, got)
      else case e of
        Cancelled \<Rightarrow> (CopyError ShareCancelled, got)
      | GotBytes bs status wfail \<Rightarrow>
        if bs \<noteq> [] \<and> wfail then (CopyError ShareWrite, got)
        else
          let rest = remaining - int (length bs); got' = got @ bs in
          if rest > 0 \<and> status = ReadEOF then (CopyError ShareUnexpectedEOF, got')
          else if status = ReadFailed then (CopyError ShareRead, got')
          else copy_loop es rest got')"

text \<open>What a reader may do: it is never asked for more than what remains.\<close>
fun reads_fit :: "copy_event list \<Rightarrow> int \<Rightarrow> bool" where
  "reads_fit [] remaining \<longleftrightarrow> True"
| "reads_fit (Cancelled # es) remaining \<longleftrightarrow> True"
| "reads_fit (GotBytes bs _ _ # es) remaining \<longleftrightarrow>
     remaining \<le> 0 \<or> int (length bs) \<le> min 65536 remaining \<and> reads_fit es (remaining - int (length bs))"

definition copy_share :: "copy_event list \<Rightarrow> incoming_share \<Rightarrow> share_store \<Rightarrow> copy_result \<times> share_store" where
  "copy_share es inc s =
     (let (r, got) = copy_loop es (in_size inc) []
      in (r, set_incoming (AList.update (in_id inc) got (incoming_files s)) s))"

text \<open>\<open>Abort\<close>.\<close>
definition abort_share :: "share_env \<Rightarrow> incoming_share \<Rightarrow> share_store \<Rightarrow> incoming_share \<times> share_store" where
  "abort_share env inc s =
     (if in_done inc then (inc, s)
      else
        let s1 = (if se_fs env RemoveIncoming then s else set_incoming (AList.delete (in_id inc) (incoming_files s)) s)
        in release_share (inc\<lparr>in_open := False\<rparr>) s1)"

definition new_folder :: "string \<Rightarrow> string \<Rightarrow> share_folder" where
  "new_folder name bytes = \<lparr>fo_info = new_dir, fo_files = [(name, new_file, bytes)]\<rparr>"

definition empty_folder :: share_folder where
  "empty_folder = \<lparr>fo_info = new_dir, fo_files = []\<rparr>"

text \<open>The second part of \<open>Commit\<close>, under the lock: list the file.\<close>
definition list_share :: "share_env \<Rightarrow> incoming_share \<Rightarrow> share_record \<Rightarrow> share_store \<Rightarrow> (share_error + share_record) \<times> share_store" where
  "list_share env inc record0 s =
     (let r = record0\<lparr>rd_seen := list_ex (\<lambda>(_, v). view_matches v record0 (\<lambda>_. True)) (ss_views s)\<rparr>;
          s1 = s\<lparr>ss_reserved := ss_reserved s - in_size inc, ss_records := ss_records s @ [r], ss_kept := ss_kept s + rd_size r\<rparr>
      in case write_index (se_io env) s1 of
           (Inr _, s2) \<Rightarrow> (Inr r, notify_shares s2)
         | (Inl e, s2) \<Rightarrow>
           (Inl (ShareIo e),
            s2\<lparr>ss_records := butlast (ss_records s2), ss_kept := ss_kept s2 - rd_size r,
               ss_disk := set_folders (snd (remove_all (se_fs env) (in_id inc) (sd_folders (ss_disk s2)))) (ss_disk s2)\<rparr>))"

text \<open>\<open>Commit\<close> at the time \<open>t\<close>.  A name that is \<open>.\<close> or \<open>..\<close> names a folder, which \<open>Rename\<close> refuses.\<close>
definition commit_share :: "share_env \<Rightarrow> int \<Rightarrow> share_source option \<Rightarrow> incoming_share \<Rightarrow> share_store
    \<Rightarrow> (share_error + share_record) \<times> incoming_share \<times> share_store" where
  "commit_share env t source inc s =
     (let fs = se_fs env in
      if fs SyncIncoming then (Inl (ShareFs SyncIncoming), abort_share env inc s)
      else if fs CloseIncoming then (Inl (ShareFs CloseIncoming), abort_share env inc s)
      else
        let inc1 = inc\<lparr>in_open := False\<rparr>; folders = sd_folders (ss_disk s) in
        if fs MkShared \<or> map_of folders (in_id inc) \<noteq> None then (Inl (ShareFs MkShared), abort_share env inc1 s)
        else case (if fs RenameShared \<or> in_name inc \<in> {''.'', ''..''} then None else map_of (incoming_files s) (in_id inc)) of
          None \<Rightarrow>
            let s1 = s\<lparr>ss_disk := set_folders (snd (remove_all fs (in_id inc) ((in_id inc, empty_folder) # folders))) (ss_disk s)\<rparr>
            in (Inl (ShareFs RenameShared), abort_share env inc1 s1)
        | Some bytes \<Rightarrow>
            let s1 = set_incoming (AList.delete (in_id inc) (incoming_files s))
                  (s\<lparr>ss_disk := set_folders ((in_id inc, new_folder (in_name inc) bytes) # folders) (ss_disk s)\<rparr>);
                record0 = \<lparr>rd_id = in_id inc, rd_name = in_name inc, rd_size = in_size inc, rd_shared_at = t, rd_seen = False,
                           rd_source = source\<rparr>;
                (r, s2) = list_share env inc record0 s1
            in (r, inc1\<lparr>in_done := True\<rparr>, s2))"

end
