(* ===== verification/ShareFacts.thy ===== *)
theory ShareFacts
  imports ShareStore
begin

text \<open>
  What the store of shared files keeps true: its accounting, what its operations do to the files it shows, and what
  a new start finds.
\<close>

section \<open>Runs of the store\<close>

text \<open>The store is down, leaving its folder on disk, or up, with the files being received; the flag says that \<open>Copy\<close> has
  returned without an error.  A process may end at any time.\<close>
datatype share_system = ShareDown share_disk | ShareUp share_store "(incoming_share \<times> bool) list"

inductive share_step :: "(share_index \<Rightarrow> nat) \<Rightarrow> share_system \<Rightarrow> share_system \<Rightarrow> bool" for jsize where
  start_ok: "open_share_store jsize env dir limit tot d = (Inr s, d') \<Longrightarrow> share_step jsize (ShareDown d) (ShareUp s [])"
| start_error: "open_share_store jsize env dir limit tot d = (Inl e, d') \<Longrightarrow> share_step jsize (ShareDown d) (ShareDown d')"
| stop: "share_step jsize (ShareUp s l) (ShareDown (unlock_share (ss_disk s)))"
| current: "share_step jsize (ShareUp s l) (ShareUp (set_current c s) l)"
| subscribe: "share_step jsize (ShareUp s l) (ShareUp (subscribe_shares n s) l)"
| unsubscribe: "share_step jsize (ShareUp s l) (ShareUp (unsubscribe_shares n s) l)"
| view: "share_step jsize (ShareUp s l) (ShareUp (set_view env owner v s) l)"
| delete: "delete_shares env ids s = (res, s') \<Longrightarrow> share_step jsize (ShareUp s l) (ShareUp s' l)"
| begin_ok: "begin_share env random name sz s = (Inr inc, s') \<Longrightarrow> length random = 16 \<Longrightarrow>
    share_step jsize (ShareUp s l) (ShareUp s' ((inc, False) # l))"
| begin_error: "begin_share env random name sz s = (Inl e, s') \<Longrightarrow> share_step jsize (ShareUp s l) (ShareUp s' l)"
| copy: "copy_share es inc s = (r, s') \<Longrightarrow> \<not> in_done inc \<Longrightarrow> reads_fit es (in_size inc) \<Longrightarrow>
    share_step jsize (ShareUp s (xs @ (inc, False) # ys)) (ShareUp s' (xs @ (inc, r = Copied) # ys))"
| commit: "commit_share env t source inc s = (r, inc', s') \<Longrightarrow> \<not> in_done inc \<Longrightarrow>
    share_step jsize (ShareUp s (xs @ (inc, True) # ys)) (ShareUp s' (xs @ (inc', True) # ys))"
| abort: "abort_share env inc s = (inc', s') \<Longrightarrow>
    share_step jsize (ShareUp s (xs @ (inc, c) # ys)) (ShareUp s' (xs @ (inc', c) # ys))"

definition fresh_share_disk :: "finfo option \<Rightarrow> share_disk" where
  "fresh_share_disk dir =
     \<lparr>sd_index = \<lparr>dk_dir = dir, dk_file = None, dk_temps = 0\<rparr>, sd_folders = [], sd_incoming = None, sd_locked = False\<rparr>"

inductive share_reach :: "(share_index \<Rightarrow> nat) \<Rightarrow> share_system \<Rightarrow> bool" for jsize where
  fresh: "share_reach jsize (ShareDown (fresh_share_disk dir))"
| step: "share_reach jsize x \<Longrightarrow> share_step jsize x y \<Longrightarrow> share_reach jsize y"

section \<open>The invariant\<close>

definition record_ok :: "share_record \<Rightarrow> bool" where
  "record_ok r \<longleftrightarrow> valid_share_id (rd_id r) \<and> (\<exists>n. rd_name r = safe_share_name n) \<and> rd_name r \<notin> {''.'', ''..''} \<and> 0 \<le> rd_size r"

definition records_ok :: "share_record list \<Rightarrow> bool" where
  "records_ok rs \<longleftrightarrow> distinct (map rd_id rs) \<and> list_all record_ok rs"

definition index_ok :: "share_index disk \<Rightarrow> bool" where
  "index_ok d \<longleftrightarrow> (case dk_file d of None \<Rightarrow> True | Some (i, ix) \<Rightarrow> i = new_file \<and> ix_version ix = 1 \<and> records_ok (ix_files ix))"

definition index_records :: "share_index disk \<Rightarrow> share_record list" where
  "index_records d = (case dk_file d of None \<Rightarrow> [] | Some (i, ix) \<Rightarrow> ix_files ix)"

text \<open>A listed file has its folder; its file is there whole, or gone when a removal stopped half way.\<close>
definition backed :: "(string \<times> share_folder) list \<Rightarrow> share_record \<Rightarrow> bool" where
  "backed F r \<longleftrightarrow>
     (\<exists>f. map_of F (rd_id r) = Some f \<and> private_dir_info (fo_info f)
        \<and> (fo_files f = [] \<or> (\<exists>i b. map_of (fo_files f) (rd_name r) = Some (i, b) \<and> private_file_info i \<and> \<not> f_symlink i
             \<and> int (length b) = rd_size r)))"

definition unseen :: "share_record \<Rightarrow> share_record" where "unseen r = r\<lparr>rd_seen := False\<rparr>"

lemma unseen_simps [simp]:
  "rd_id (unseen r) = rd_id r" "rd_name (unseen r) = rd_name r" "rd_size (unseen r) = rd_size r"
  "unseen (r\<lparr>rd_seen := b\<rparr>) = unseen r" "rd_source (unseen r) = rd_source r"
  by (simp_all add: unseen_def)

definition core_ok :: "share_store \<Rightarrow> bool" where
  "core_ok s \<longleftrightarrow>
     index_ok (sd_index (ss_disk s)) \<and> pred_option private_dir_info (dk_dir (sd_index (ss_disk s))) \<and> dk_dir (sd_index (ss_disk s)) \<noteq> None
     \<and> records_ok (ss_records s) \<and> list_all (backed (sd_folders (ss_disk s))) (ss_records s)
     \<and> ss_kept s = sum_list (map rd_size (ss_records s))
     \<and> (lm_unlimited (ss_total s) \<or> ss_reserved s = 0 \<or> ss_kept s + ss_reserved s \<le> lm_bytes (ss_total s))"

text \<open>Every file listed in memory is in the index.\<close>
definition covered :: "share_record list \<Rightarrow> share_index disk \<Rightarrow> bool" where
  "covered rs d \<longleftrightarrow> unseen ` set rs \<subseteq> unseen ` set (index_records d)"

definition store_ok :: "share_store \<Rightarrow> bool" where
  "store_ok s \<longleftrightarrow> core_ok s \<and> covered (ss_records s) (sd_index (ss_disk s))"

definition live_shares :: "(incoming_share \<times> bool) list \<Rightarrow> (incoming_share \<times> bool) list" where
  "live_shares l = filter (\<lambda>(inc, _). \<not> in_done inc) l"

definition incoming_ok :: "(string \<times> string) list \<Rightarrow> incoming_share \<times> bool \<Rightarrow> bool" where
  "incoming_ok files x \<longleftrightarrow>
     (case x of (inc, copied) \<Rightarrow>
        valid_share_id (in_id inc) \<and> (\<exists>n. in_name inc = safe_share_name n) \<and> 0 \<le> in_size inc
        \<and> (\<exists>b. map_of files (in_id inc) = Some b \<and> (copied \<longrightarrow> int (length b) = in_size inc)))"

definition live_ok :: "share_store \<Rightarrow> (incoming_share \<times> bool) list \<Rightarrow> bool" where
  "live_ok s l \<longleftrightarrow>
     distinct (map (in_id \<circ> fst) (live_shares l)) \<and> list_all (incoming_ok (incoming_files s)) (live_shares l)
     \<and> ss_reserved s = sum_list (map (in_size \<circ> fst) (live_shares l))"

fun share_ok :: "share_system \<Rightarrow> bool" where
  "share_ok (ShareDown d) \<longleftrightarrow> index_ok (sd_index d) \<and> \<not> sd_locked d"
| "share_ok (ShareUp s l) \<longleftrightarrow> store_ok s \<and> live_ok s l"

lemma live_shares_simps [simp]:
  "live_shares [] = []" "live_shares (x # l) = (if in_done (fst x) then live_shares l else x # live_shares l)"
  "live_shares (xs @ ys) = live_shares xs @ live_shares ys"
  by (auto simp: live_shares_def)

section \<open>Writing the index\<close>

lemma write_index_cases:
  assumes "write_index io s = (r, s')"
  shows "\<exists>ixd. s' = s\<lparr>ss_disk := (ss_disk s)\<lparr>sd_index := ixd\<rparr>\<rparr> \<and> dk_dir ixd = dk_dir (sd_index (ss_disk s))
    \<and> (dk_file ixd = Some (new_file, index_of (ss_records s)) \<or> (\<exists>e. r = Inl e) \<and> dk_file ixd = dk_file (sd_index (ss_disk s)))"
proof -
  obtain ixd where w: "shares_write_index io (index_of (ss_records s)) (sd_index (ss_disk s)) = (r, ixd)"
    and s': "s' = s\<lparr>ss_disk := (ss_disk s)\<lparr>sd_index := ixd\<rparr>\<rparr>"
    using assms by (auto simp: write_index_def split: prod.splits)
  have "dk_dir ixd = dk_dir (sd_index (ss_disk s))"
    using w unfolding shares_write_index_def by (auto split: if_splits prod.splits sum.splits dest!: replace_via_temp_cases)
  then show ?thesis using shares_write_cases [OF w] s' by (cases r) auto
qed

lemma index_records_of: "dk_file d = Some (new_file, index_of rs) \<Longrightarrow> index_records d = rs"
  by (simp add: index_records_def index_of_def)

lemma index_ok_of: "dk_file d = Some (new_file, index_of rs) \<Longrightarrow> index_ok d = records_ok rs"
  by (simp add: index_ok_def index_of_def)

lemma index_file_cong: "dk_file d' = dk_file d \<Longrightarrow> index_ok d' = index_ok d \<and> index_records d' = index_records d"
  by (simp add: index_ok_def index_records_def)

text \<open>Writing the index keeps the store sound, whatever fails.\<close>
lemma write_index_ok:
  assumes "write_index io s = (r, s')" "core_ok s"
  shows "core_ok s' \<and> (case r of Inr _ \<Rightarrow> covered (ss_records s) (sd_index (ss_disk s'))
    | Inl _ \<Rightarrow> index_records (sd_index (ss_disk s')) \<in> {ss_records s, index_records (sd_index (ss_disk s))})"
proof -
  obtain ixd where s': "s' = s\<lparr>ss_disk := (ss_disk s)\<lparr>sd_index := ixd\<rparr>\<rparr>" and d: "dk_dir ixd = dk_dir (sd_index (ss_disk s))"
    and f: "dk_file ixd = Some (new_file, index_of (ss_records s)) \<or> (\<exists>e. r = Inl e) \<and> dk_file ixd = dk_file (sd_index (ss_disk s))"
    using write_index_cases [OF assms(1)] by blast
  from f show ?thesis
  proof
    assume "dk_file ixd = Some (new_file, index_of (ss_records s))"
    note index_records_of [OF this] index_ok_of [OF this]
    then show ?thesis using assms(2) d unfolding core_ok_def by (cases r) (auto simp: s' covered_def)
  next
    assume "(\<exists>e. r = Inl e) \<and> dk_file ixd = dk_file (sd_index (ss_disk s))"
    moreover from this have "index_ok ixd = index_ok (sd_index (ss_disk s))" "index_records ixd = index_records (sd_index (ss_disk s))"
      using index_file_cong [of ixd] by blast+
    ultimately show ?thesis using assms(2) d unfolding core_ok_def by (auto simp: s')
  qed
qed

lemma write_index_store_ok:
  assumes "write_index io s = (r, s')" "store_ok s"
  shows "store_ok s'"
proof -
  have "ss_records s' = ss_records s" using write_index_cases [OF assms(1)] by auto
  then show ?thesis using write_index_ok [OF assms(1)] assms(2) by (cases r) (auto simp: store_ok_def covered_def)
qed

lemma write_index_keeps:
  assumes "write_index io s = (r, s')"
  shows "sd_folders (ss_disk s') = sd_folders (ss_disk s)" "incoming_files s' = incoming_files s" "ss_records s' = ss_records s"
    "ss_kept s' = ss_kept s" "ss_reserved s' = ss_reserved s" "ss_total s' = ss_total s" "ss_views s' = ss_views s"
    "sd_incoming (ss_disk s') = sd_incoming (ss_disk s)"
  using write_index_cases [OF assms] by (auto simp: incoming_files_def)


section \<open>Every operation keeps the invariant\<close>

lemma notify_ok [simp]: "store_ok (notify_shares s) = store_ok s" "live_ok (notify_shares s) l = live_ok s l"
  by (simp_all add: notify_shares_def store_ok_def core_ok_def live_ok_def incoming_files_def)

lemma store_ok_fields [simp]:
  "store_ok (s\<lparr>ss_views := v\<rparr>) = store_ok s" "store_ok (s\<lparr>ss_current := c\<rparr>) = store_ok s" "store_ok (s\<lparr>ss_subscribers := u\<rparr>) = store_ok s"
  by (simp_all add: store_ok_def core_ok_def)

lemma live_cong: "incoming_files s' = incoming_files s \<Longrightarrow> ss_reserved s' = ss_reserved s \<Longrightarrow> live_ok s' l = live_ok s l"
  by (simp add: live_ok_def)

lemma mark_seen_simps [simp]:
  "rd_id (mark_seen h r) = rd_id r" "rd_name (mark_seen h r) = rd_name r" "rd_size (mark_seen h r) = rd_size r"
  "unseen (mark_seen h r) = unseen r"
  by (simp_all add: mark_seen_def)

lemma mark_seen_comp:
  "rd_id \<circ> mark_seen h = rd_id" "rd_size \<circ> mark_seen h = rd_size" "unseen \<circ> mark_seen h = unseen"
  "record_ok \<circ> mark_seen h = record_ok" "backed F \<circ> mark_seen h = backed F"
  by (simp_all add: fun_eq_iff record_ok_def backed_def)

lemma marked_ok:
  "records_ok (map (mark_seen h) rs) = records_ok rs" "list_all (backed F) (map (mark_seen h) rs) = list_all (backed F) rs"
  "unseen ` set (map (mark_seen h) rs) = unseen ` set rs" "sum_list (map rd_size (map (mark_seen h) rs)) = sum_list (map rd_size rs)"
  by (simp_all only: records_ok_def map_map list.pred_map set_map image_comp mark_seen_comp)

lemma set_view_ok:
  assumes "store_ok s" "live_ok s l"
  shows "store_ok (set_view env owner v s) \<and> live_ok (set_view env owner v s) l"
proof (cases v)
  case None
  let ?s1 = "s\<lparr>ss_views := AList.delete owner (ss_views s)\<rparr>"
  have "store_ok ?s1" "live_ok ?s1 l" using assms live_cong [of ?s1 s l] by (simp_all add: incoming_files_def)
  then show ?thesis using None by (simp add: set_view_def)
next
  case (Some w)
  let ?h = "\<lambda>r. \<not> rd_seen r \<and> view_matches w r (ss_current s)"
  let ?s1 = "s\<lparr>ss_views := AList.update owner w (ss_views s)\<rparr>"
  let ?s2 = "?s1\<lparr>ss_records := map (mark_seen ?h) (ss_records s)\<rparr>"
  obtain r s3 where w: "write_index (se_io env) ?s2 = (r, s3)" by (meson surj_pair)
  have "store_ok ?s2 = store_ok s" unfolding store_ok_def core_ok_def covered_def by (simp del: map_map set_map list.map_comp list.pred_map add: marked_ok)
  then have "store_ok ?s2" using assms(1) by blast
  then have 3: "store_ok s3" "live_ok s3 l"
    using write_index_store_ok [OF w] live_cong [OF write_index_keeps(2,5) [OF w]] live_cong [of ?s2 s l] assms(2)
    by (simp_all add: incoming_files_def)
  have 1: "store_ok ?s1" "live_ok ?s1 l" using assms live_cong [of ?s1 s l] by (simp_all add: incoming_files_def)
  have "set_view env owner v s = (if list_ex ?h (ss_records s) then notify_shares s3 else ?s1)"
    by (simp add: set_view_def Some Let_def w)
  then show ?thesis using 1 3 by simp
qed

lemma remove_all_other: "remove_all fs i F = (b, F') \<Longrightarrow> j \<noteq> i \<Longrightarrow> map_of F' j = map_of F j"
  by (auto simp: remove_all_def delete_conv' update_conv' split: option.splits if_splits)

lemma remove_all_gone: "remove_all fs i F = (True, F') \<Longrightarrow> map_of F' i = None"
  by (auto simp: remove_all_def delete_conv' split: option.splits if_splits)

lemma remove_all_same:
  "remove_all fs i F = (False, F') \<Longrightarrow> \<exists>f. map_of F i = Some f
    \<and> map_of F' i = Some (if fs (UnlinkIn i) then f else f\<lparr>fo_files := []\<rparr>)"
  by (auto simp: remove_all_def update_conv' split: option.splits if_splits)

lemma backed_cong: "map_of F' (rd_id r) = map_of F (rd_id r) \<Longrightarrow> backed F' r = backed F r"
  by (simp add: backed_def)

lemma backed_remove_failed: "remove_all fs i F = (False, F') \<Longrightarrow> backed F r \<Longrightarrow> backed F' r"
  using remove_all_same [of fs i F F'] remove_all_other [of fs i F False F' "rd_id r"] by (cases "rd_id r = i") (auto simp: backed_def)

lemma delete_first_ids:
  assumes "distinct (map rd_id rs)"
  shows "set (delete_first (\<lambda>r. rd_id r = i) rs) = {r \<in> set rs. rd_id r \<noteq> i}"
  using delete_first_key [OF assms, of i] by simp

lemma delete_first_sum:
  "find (\<lambda>r. rd_id r = i) rs = Some r \<Longrightarrow>
   sum_list (map rd_size (delete_first (\<lambda>r. rd_id r = i) rs)) = sum_list (map rd_size rs) - rd_size r"
  by (induction rs) (auto split: if_splits)

lemma find_in: "find P rs = Some r \<Longrightarrow> r \<in> set rs \<and> P r"
  by (induction rs) (auto split: if_splits)

text \<open>One deletion.\<close>
lemma delete_one_ok:
  assumes "core_ok s" "find (\<lambda>r. rd_id r = i) (ss_records s) = Some r" "remove_all fs i (sd_folders (ss_disk s)) = (True, F)"
  shows "core_ok (s\<lparr>ss_disk := set_folders F (ss_disk s), ss_kept := ss_kept s - rd_size r,
    ss_records := delete_first (\<lambda>r. rd_id r = i) (ss_records s)\<rparr>)"
proof -
  note c = assms(1) [unfolded core_ok_def records_ok_def]
  have r: "r \<in> set (ss_records s)" "rd_id r = i" using find_in [OF assms(2)] by auto
  have ids: "set (delete_first (\<lambda>r. rd_id r = i) (ss_records s)) = {r \<in> set (ss_records s). rd_id r \<noteq> i}"
    using c by (intro delete_first_ids) blast
  have "distinct (map rd_id (delete_first (\<lambda>r. rd_id r = i) (ss_records s)))" using c by (intro distinct_map_delete_first) blast
  moreover have "list_all record_ok (delete_first (\<lambda>r. rd_id r = i) (ss_records s))" using c ids by (simp add: list_all_iff)
  moreover have "list_all (backed F) (delete_first (\<lambda>r. rd_id r = i) (ss_records s))"
    using c ids backed_cong remove_all_other [OF assms(3)] unfolding list_all_iff by blast
  moreover have "0 \<le> rd_size r" using c r(1) by (simp add: list_all_iff record_ok_def)
  ultimately show ?thesis using c delete_first_sum [OF assms(2)] unfolding core_ok_def records_ok_def set_folders_def by auto
qed

lemma delete_each_ok:
  assumes "delete_each fs is s res = (res', s')" "core_ok s" "covered (ss_records s) (sd_index (ss_disk s))" "live_ok s l"
  shows "core_ok s' \<and> covered (ss_records s') (sd_index (ss_disk s')) \<and> live_ok s' l"
  using assms
proof (induction "is" arbitrary: s res)
  case (Cons i "is")
  show ?case
  proof (cases "find (\<lambda>r. rd_id r = i) (ss_records s)")
    case None
    then show ?thesis using Cons.IH Cons.prems by auto
  next
    case (Some r)
    obtain b F where rm: "remove_all fs i (sd_folders (ss_disk s)) = (b, F)" by (meson surj_pair)
    show ?thesis
    proof (cases b)
      case True
      let ?s = "s\<lparr>ss_disk := set_folders F (ss_disk s), ss_kept := ss_kept s - rd_size r,
        ss_records := delete_first (\<lambda>r. rd_id r = i) (ss_records s)\<rparr>"
      have "core_ok ?s" using delete_one_ok [OF Cons.prems(2) Some] rm True by simp
      moreover have "covered (ss_records ?s) (sd_index (ss_disk ?s))"
        using Cons.prems(3) delete_first_subset [of "\<lambda>r. rd_id r = i" "ss_records s"] by (auto simp: covered_def set_folders_def)
      moreover have "live_ok ?s l" using Cons.prems(4) by (simp add: live_ok_def incoming_files_def set_folders_def)
      ultimately show ?thesis using Cons.IH [of ?s] Cons.prems(1) Some rm True by auto
    next
      case False
      let ?s = "s\<lparr>ss_disk := set_folders F (ss_disk s)\<rparr>"
      have "core_ok ?s" using Cons.prems(2) backed_remove_failed [of fs i "sd_folders (ss_disk s)" F] rm False
        by (auto simp: core_ok_def set_folders_def list_all_iff)
      moreover have "live_ok ?s l" using Cons.prems(4) by (simp add: live_ok_def incoming_files_def set_folders_def)
      moreover have "covered (ss_records ?s) (sd_index (ss_disk ?s))" using Cons.prems(3) by (simp add: set_folders_def)
      ultimately show ?thesis using Cons.IH [of ?s] Cons.prems(1) Some rm False by auto
    qed
  qed
qed simp

lemma delete_ok:
  assumes "delete_shares env ids s = (res, s')" "store_ok s" "live_ok s l"
  shows "store_ok s' \<and> live_ok s' l"
proof -
  let ?r = "\<lparr>de_deleted = [], de_gone = [], de_failed = [], de_saved = True\<rparr>"
  obtain res1 s1 where d: "delete_each (se_fs env) ids s ?r = (res1, s1)" by (meson surj_pair)
  have 1: "store_ok s1" "live_ok s1 l" using delete_each_ok [OF d] assms(2,3) by (simp_all add: store_ok_def)
  obtain r s2 where w: "write_index (se_io env) s1 = (r, s2)" by (meson surj_pair)
  have 2: "store_ok s2" "live_ok s2 l" using write_index_store_ok [OF w 1(1)] live_cong [OF write_index_keeps(2,5) [OF w]] 1(2) by simp_all
  have "s' = (if de_deleted res1 = [] then s1 else notify_shares s2)"
    using assms(1) by (simp add: delete_shares_def d w split: if_splits sum.splits)
  then show ?thesis using 1 2 by simp
qed


lemma begin_error_same:
  assumes "begin_share env random name sz s = (Inl e, s')"
  shows "s' = s"
  using assms by (auto simp: begin_share_def release_share_def Let_def split: if_splits)

lemma begin_ok_parts:
  assumes "begin_share env random name sz s = (Inr inc, s')"
  shows "s' = set_incoming ((new_share_id random, []) # incoming_files s) (s\<lparr>ss_reserved := ss_reserved s + sz\<rparr>)
    \<and> inc = \<lparr>in_id = new_share_id random, in_name = safe_share_name name, in_size = sz, in_open = True, in_done = False\<rparr>
    \<and> new_share_id random \<notin> fst ` set (incoming_files s) \<and> 0 \<le> sz
    \<and> (lm_unlimited (ss_total s) \<or> ss_kept s + (ss_reserved s + sz) \<le> lm_bytes (ss_total s))"
  using assms by (auto simp: begin_share_def release_share_def Let_def incoming_files_def split: if_splits)

lemma valid_new_id: "length random = 16 \<Longrightarrow> valid_share_id (new_share_id random)"
  by (simp add: valid_share_id_def new_share_id_def)

lemma incoming_set [simp]: "incoming_files (set_incoming f s) = f"
  by (simp add: set_incoming_def incoming_files_def)

lemma core_set_incoming [simp]: "core_ok (set_incoming f s) = core_ok s" "store_ok (set_incoming f s) = store_ok s"
  by (simp_all add: set_incoming_def core_ok_def store_ok_def)

lemma set_incoming_fields [simp]:
  "ss_reserved (set_incoming f s) = ss_reserved s" "ss_records (set_incoming f s) = ss_records s" "ss_kept (set_incoming f s) = ss_kept s"
  "ss_total (set_incoming f s) = ss_total s" "sd_folders (ss_disk (set_incoming f s)) = sd_folders (ss_disk s)"
  "sd_index (ss_disk (set_incoming f s)) = sd_index (ss_disk s)"
  by (simp_all add: set_incoming_def)

lemma incoming_ok_cong: "map_of F' (in_id (fst x)) = map_of F (in_id (fst x)) \<Longrightarrow> incoming_ok F' x = incoming_ok F x"
  by (cases x) (simp add: incoming_ok_def)

lemma incoming_ok_listed: "incoming_ok F x \<Longrightarrow> in_id (fst x) \<in> fst ` set F"
  by (cases x) (force simp: incoming_ok_def dest: map_of_SomeD)

lemma begin_ok_ok:
  assumes "begin_share env random name sz s = (Inr inc, s')" "length random = 16" "store_ok s" "live_ok s l"
  shows "store_ok s' \<and> live_ok s' ((inc, False) # l)"
proof -
  note b = begin_ok_parts [OF assms(1)]
  let ?i = "new_share_id random" and ?F = "incoming_files s"
  have "store_ok (s\<lparr>ss_reserved := ss_reserved s + sz\<rparr>)" using b assms(3) by (auto simp: store_ok_def core_ok_def)
  then have 1: "store_ok s'" using b by simp
  have other: "in_id (fst x) \<noteq> ?i" if "x \<in> set (live_shares l)" for x
  proof -
    have "incoming_ok ?F x" using that assms(4) by (simp add: live_ok_def list_all_iff)
    then show ?thesis using incoming_ok_listed b by metis
  qed
  then have "list_all (incoming_ok ((?i, []) # ?F)) (live_shares l)"
    using assms(4) incoming_ok_cong [of "(?i, []) # ?F" _ ?F] by (simp add: live_ok_def list_all_iff)
  moreover have "incoming_ok ((?i, []) # ?F) (inc, False)" using b valid_new_id [OF assms(2)] by (auto simp: incoming_ok_def)
  moreover have "?i \<notin> (in_id \<circ> fst) ` set (live_shares l)" using other by force
  moreover have "incoming_files s' = (?i, []) # ?F" "ss_reserved s' = ss_reserved s + sz" "in_id inc = ?i" "in_size inc = sz" "\<not> in_done inc"
    using b by simp_all
  ultimately show ?thesis using 1 assms(4) by (simp add: live_ok_def)
qed

text \<open>What happens to one file being received leaves the others alone.\<close>
lemma live_ok_middle:
  "live_ok s (xs @ x # ys) \<longleftrightarrow>
     (\<not> in_done (fst x) \<longrightarrow> incoming_ok (incoming_files s) x \<and> in_id (fst x) \<notin> (in_id \<circ> fst) ` set (live_shares (xs @ ys)))
     \<and> distinct (map (in_id \<circ> fst) (live_shares (xs @ ys))) \<and> list_all (incoming_ok (incoming_files s)) (live_shares (xs @ ys))
     \<and> ss_reserved s = (if in_done (fst x) then 0 else in_size (fst x)) + sum_list (map (in_size \<circ> fst) (live_shares (xs @ ys)))"
  by (auto simp: live_ok_def)

lemma incoming_ok_others:
  assumes "list_all (incoming_ok F) L" "i \<notin> (in_id \<circ> fst) ` set L" "\<And>j. j \<noteq> i \<Longrightarrow> map_of F' j = map_of F j"
  shows "list_all (incoming_ok F') L"
  unfolding list_all_iff
proof
  fix x assume x: "x \<in> set L"
  then have "in_id (fst x) \<noteq> i" using assms(2) by force
  then show "incoming_ok F' x" using incoming_ok_cong [of F' x F] assms(1,3) x by (simp add: list_all_iff)
qed

lemma copy_loop_step:
  assumes "copy_loop (GotBytes bs status wfail # es) n got = (Copied, got')" "0 < n"
  shows "copy_loop es (n - int (length bs)) (got @ bs) = (Copied, got')"
  using assms unfolding copy_loop.simps Let_def by (simp split: if_splits)

lemma copy_loop_length:
  "copy_loop es n got = (Copied, got') \<Longrightarrow> reads_fit es n \<Longrightarrow> 0 \<le> n \<Longrightarrow> int (length got') = int (length got) + n"
proof (induction es arbitrary: n got)
  case (Cons e es)
  show ?case
  proof (cases "n \<le> 0")
    case False
    then obtain bs status wfail where e: "e = GotBytes bs status wfail" using Cons.prems(1) by (cases e) auto
    have "copy_loop es (n - int (length bs)) (got @ bs) = (Copied, got')" using copy_loop_step Cons.prems(1) False e by simp
    moreover have "reads_fit es (n - int (length bs))" "0 \<le> n - int (length bs)" using Cons.prems(2) False e by auto
    ultimately show ?thesis using Cons.IH [of "n - int (length bs)" "got @ bs"] by simp
  qed (use Cons.prems in auto)
qed (auto split: if_splits)

lemma copy_ok:
  assumes "copy_share es inc s = (r, s')" "reads_fit es (in_size inc)" "\<not> in_done inc" "store_ok s" "live_ok s (xs @ (inc, False) # ys)"
  shows "store_ok s' \<and> live_ok s' (xs @ (inc, r = Copied) # ys)"
proof -
  obtain got where c: "copy_loop es (in_size inc) [] = (r, got)"
    and s': "s' = set_incoming (AList.update (in_id inc) got (incoming_files s)) s"
    using assms(1) by (auto simp: copy_share_def split: prod.splits)
  let ?F = "AList.update (in_id inc) got (incoming_files s)"
  note m = assms(5) [unfolded live_ok_middle]
  have i: "incoming_ok (incoming_files s) (inc, False)" using m assms(3) by simp
  have "r = Copied \<longrightarrow> int (length got) = in_size inc" using copy_loop_length [of es "in_size inc" "[]" got] c assms(2) i by (auto simp: incoming_ok_def)
  then have "incoming_ok ?F (inc, r = Copied)" using i by (simp add: incoming_ok_def update_conv')
  moreover have "list_all (incoming_ok ?F) (live_shares (xs @ ys))"
  proof (rule incoming_ok_others [of "incoming_files s" _ "in_id inc"])
    show "list_all (incoming_ok (incoming_files s)) (live_shares (xs @ ys))" using m by blast
    show "in_id inc \<notin> (in_id \<circ> fst) ` set (live_shares (xs @ ys))" using m assms(3) by (simp only: fst_conv not_False_eq_True simp_thms)
  qed (simp add: update_conv')
  moreover have "incoming_files s' = ?F" "ss_reserved s' = ss_reserved s" "store_ok s' = store_ok s" by (simp_all add: s')
  ultimately show ?thesis unfolding live_ok_middle using m assms(3,4) by (simp only: fst_conv simp_thms if_False)
qed

text \<open>A reservation that is given back.\<close>
lemma release_ok:
  assumes "live_ok s (xs @ (inc, c) # ys)" "\<not> in_done inc"
    "\<And>j. j \<noteq> in_id inc \<Longrightarrow> map_of (incoming_files s') j = map_of (incoming_files s) j" "ss_reserved s' = ss_reserved s - in_size inc" "in_done inc'"
  shows "live_ok s' (xs @ (inc', c') # ys)"
  using assms(1) incoming_ok_others [of "incoming_files s" "live_shares (xs @ ys)" "in_id inc" "incoming_files s'"] assms(2-)
  unfolding live_ok_middle by auto

lemma reserved_release:
  assumes "core_ok s" "live_ok s (xs @ (inc, c) # ys)" "\<not> in_done inc"
  shows "0 \<le> in_size inc \<and> in_size inc \<le> ss_reserved s"
proof -
  note m = assms(2) [unfolded live_ok_middle]
  have "0 \<le> sum_list (map (in_size \<circ> fst) (live_shares (xs @ ys)))"
    using m by (intro sum_list_nonneg) (auto simp: list_all_iff incoming_ok_def)
  then show ?thesis using m assms(3) by (auto simp: incoming_ok_def)
qed

lemma abort_ok:
  assumes "abort_share env inc s = (inc', s')" "store_ok s" "live_ok s (xs @ (inc, c) # ys)"
  shows "store_ok s' \<and> live_ok s' (xs @ (inc', c) # ys)"
proof (cases "in_done inc")
  case True
  then show ?thesis using assms by (simp add: abort_share_def)
next
  case False
  let ?s1 = "if se_fs env RemoveIncoming then s else set_incoming (AList.delete (in_id inc) (incoming_files s)) s"
  have s': "s' = ?s1\<lparr>ss_reserved := ss_reserved s - in_size inc\<rparr>" and inc': "in_done inc'"
    using assms(1) False by (auto simp: abort_share_def release_share_def Let_def split: if_splits)
  have r: "0 \<le> in_size inc" "in_size inc \<le> ss_reserved s" using reserved_release [of s] assms(2,3) False unfolding store_ok_def by blast+
  have "store_ok ?s1" using assms(2) by simp
  then have "store_ok s'" using r unfolding s' store_ok_def core_ok_def by (auto split: if_splits)
  moreover have "live_ok s' (xs @ (inc', c) # ys)"
  proof (rule release_ok [OF assms(3) False _ _ inc'])
    show "map_of (incoming_files s') j = map_of (incoming_files s) j" if "j \<noteq> in_id inc" for j
      using that by (simp add: s' incoming_files_def set_incoming_def delete_conv')
  qed (simp add: s')
  ultimately show ?thesis by blast
qed


definition received_record :: "int \<Rightarrow> share_source option \<Rightarrow> incoming_share \<Rightarrow> share_record" where
  "received_record t source inc =
     \<lparr>rd_id = in_id inc, rd_name = in_name inc, rd_size = in_size inc, rd_shared_at = t, rd_seen = False, rd_source = source\<rparr>"

definition moved :: "incoming_share \<Rightarrow> string \<Rightarrow> share_store \<Rightarrow> share_store" where
  "moved inc bytes s = set_incoming (AList.delete (in_id inc) (incoming_files s))
     (s\<lparr>ss_disk := set_folders ((in_id inc, new_folder (in_name inc) bytes) # sd_folders (ss_disk s)) (ss_disk s)\<rparr>)"

definition dropped :: "share_env \<Rightarrow> incoming_share \<Rightarrow> share_store \<Rightarrow> share_store" where
  "dropped env inc s = s\<lparr>ss_disk := set_folders
     (snd (remove_all (se_fs env) (in_id inc) ((in_id inc, empty_folder) # sd_folders (ss_disk s)))) (ss_disk s)\<rparr>"

text \<open>\<open>Commit\<close> gives the share up before its file is listed, or moves the file into a new folder and lists it.\<close>
lemma commit_cases:
  assumes "commit_share env t source inc s = (r, inc', s')"
  shows "(\<exists>e inc1 s1. r = Inl e \<and> abort_share env inc1 s1 = (inc', s') \<and> inc1 \<in> {inc, inc\<lparr>in_open := False\<rparr>}
       \<and> (s1 = s \<or> s1 = dropped env inc s \<and> map_of (sd_folders (ss_disk s)) (in_id inc) = None))
   \<or> (\<exists>bytes. map_of (incoming_files s) (in_id inc) = Some bytes \<and> in_name inc \<notin> {''.'', ''..''}
       \<and> map_of (sd_folders (ss_disk s)) (in_id inc) = None
       \<and> list_share env (inc\<lparr>in_open := False\<rparr>) (received_record t source inc) (moved inc bytes s) = (r, s')
       \<and> inc' = inc\<lparr>in_open := False, in_done := True\<rparr>)"
proof -
  have l: "list_share env inc r0 s1 = list_share env (inc\<lparr>in_open := False\<rparr>) r0 s1" for r0 s1
    by (cases inc) (simp only: list_share_def incoming_share.simps)
  show ?thesis
    using assms unfolding commit_share_def Let_def received_record_def [symmetric] moved_def [symmetric] dropped_def [symmetric] l
    by (auto split: if_splits option.splits prod.splits)
qed

lemma live_ok_open: "live_ok s (xs @ (inc\<lparr>in_open := b\<rparr>, c) # ys) = live_ok s (xs @ (inc, c) # ys)"
  unfolding live_ok_middle by (simp add: incoming_ok_def)

lemma backed_listed: "backed F r \<Longrightarrow> map_of F (rd_id r) \<noteq> None"
  by (auto simp: backed_def)

lemma folders_change_ok:
  assumes "store_ok s" "\<And>j. j \<noteq> i \<Longrightarrow> map_of F j = map_of (sd_folders (ss_disk s)) j" "map_of (sd_folders (ss_disk s)) i = None"
  shows "store_ok (s\<lparr>ss_disk := set_folders F (ss_disk s)\<rparr>)"
proof -
  have "list_all (backed F) (ss_records s)"
    unfolding list_all_iff
  proof
    fix r assume "r \<in> set (ss_records s)"
    then have b: "backed (sd_folders (ss_disk s)) r" using assms(1) by (simp add: store_ok_def core_ok_def list_all_iff)
    then have "rd_id r \<noteq> i" using backed_listed assms(3) by metis
    then show "backed F r" using b backed_cong assms(2) by blast
  qed
  then show ?thesis using assms(1) unfolding store_ok_def core_ok_def set_folders_def by auto
qed

lemma dropped_ok:
  assumes "store_ok s" "map_of (sd_folders (ss_disk s)) (in_id inc) = None"
  shows "store_ok (dropped env inc s)"
  unfolding dropped_def
proof (rule folders_change_ok [OF assms(1) _ assms(2)])
  fix j assume j: "j \<noteq> in_id inc"
  obtain b F where rm: "remove_all (se_fs env) (in_id inc) ((in_id inc, empty_folder) # sd_folders (ss_disk s)) = (b, F)" by (meson surj_pair)
  show "map_of (snd (remove_all (se_fs env) (in_id inc) ((in_id inc, empty_folder) # sd_folders (ss_disk s)))) j
      = map_of (sd_folders (ss_disk s)) j"
    using remove_all_other [OF rm j] j by (simp add: rm)
qed

lemma dropped_fields: "incoming_files (dropped env inc s) = incoming_files s" "ss_reserved (dropped env inc s) = ss_reserved s"
  by (simp_all add: dropped_def incoming_files_def set_folders_def)

lemma moved_fields:
  "incoming_files (moved inc b s) = AList.delete (in_id inc) (incoming_files s)" "ss_reserved (moved inc b s) = ss_reserved s"
  "ss_records (moved inc b s) = ss_records s" "ss_kept (moved inc b s) = ss_kept s" "ss_total (moved inc b s) = ss_total s"
  "sd_folders (ss_disk (moved inc b s)) = (in_id inc, new_folder (in_name inc) b) # sd_folders (ss_disk s)"
  "sd_index (ss_disk (moved inc b s)) = sd_index (ss_disk s)"
  by (simp_all add: moved_def set_folders_def)

lemma moved_ok: "store_ok s \<Longrightarrow> map_of (sd_folders (ss_disk s)) (in_id inc) = None \<Longrightarrow> store_ok (moved inc b s)"
  using folders_change_ok [of s "in_id inc" "(in_id inc, new_folder (in_name inc) b) # sd_folders (ss_disk s)"] by (simp add: moved_def)

lemma records_ok_append: "records_ok (rs @ [r]) \<longleftrightarrow> records_ok rs \<and> rd_id r \<notin> rd_id ` set rs \<and> record_ok r"
  by (auto simp: records_ok_def)

lemma list_share_fields:
  assumes "list_share env inc record0 s = (r, s')"
  shows "incoming_files s' = incoming_files s" "ss_reserved s' = ss_reserved s - in_size inc"
proof -
  let ?r = "record0\<lparr>rd_seen := list_ex (\<lambda>(_, v). view_matches v record0 (\<lambda>_. True)) (ss_views s)\<rparr>"
  let ?s1 = "s\<lparr>ss_reserved := ss_reserved s - in_size inc, ss_records := ss_records s @ [?r], ss_kept := ss_kept s + rd_size ?r\<rparr>"
  obtain w s2 where w: "write_index (se_io env) ?s1 = (w, s2)" by (meson surj_pair)
  have "incoming_files s2 = incoming_files s" "ss_reserved s2 = ss_reserved s - in_size inc"
    using write_index_keeps(2,5) [OF w] by (simp_all add: incoming_files_def)
  then show "incoming_files s' = incoming_files s" "ss_reserved s' = ss_reserved s - in_size inc"
    using assms unfolding list_share_def Let_def w by (auto simp: notify_shares_def incoming_files_def set_folders_def split: sum.splits)
qed

text \<open>Listing a file keeps the store sound, whatever fails.\<close>
lemma list_share_ok:
  assumes "list_share env inc record0 s = (r, s')" "store_ok s" "0 \<le> in_size inc" "in_size inc \<le> ss_reserved s"
    "rd_size record0 = in_size inc" "rd_id record0 = in_id inc" "record_ok record0" "backed (sd_folders (ss_disk s)) record0"
    "rd_id record0 \<notin> rd_id ` set (ss_records s)"
  shows "store_ok s'"
proof -
  let ?r = "record0\<lparr>rd_seen := list_ex (\<lambda>(_, v). view_matches v record0 (\<lambda>_. True)) (ss_views s)\<rparr>"
  let ?s1 = "s\<lparr>ss_reserved := ss_reserved s - in_size inc, ss_records := ss_records s @ [?r], ss_kept := ss_kept s + rd_size ?r\<rparr>"
  note c = assms(2) [unfolded store_ok_def core_ok_def]
  obtain w s2 where w: "write_index (se_io env) ?s1 = (w, s2)" by (meson surj_pair)
  have r: "record_ok ?r" "backed (sd_folders (ss_disk s)) ?r" using assms(7,8) by (simp_all add: record_ok_def backed_def)
  have "records_ok (ss_records s @ [?r])" using c r(1) assms(9) by (simp add: records_ok_append)
  moreover have "list_all (backed (sd_folders (ss_disk s))) (ss_records s @ [?r])" using c r(2) by simp
  moreover have "lm_unlimited (ss_total s) \<or> ss_reserved s - in_size inc = 0
      \<or> ss_kept s + rd_size ?r + (ss_reserved s - in_size inc) \<le> lm_bytes (ss_total s)" using c assms(3-5) by auto
  ultimately have 1: "core_ok ?s1" using c unfolding core_ok_def by auto
  note 2 = write_index_ok [OF w 1]
  note k = write_index_keeps [OF w]
  show ?thesis
  proof (cases w)
    case (Inr u)
    then have "s' = notify_shares s2" using assms(1) unfolding list_share_def Let_def w Inr by simp
    moreover have "store_ok s2" using 2 Inr k(3) by (simp add: store_ok_def)
    ultimately show ?thesis by simp
  next
    case (Inl e)
    let ?F = "snd (remove_all (se_fs env) (in_id inc) (sd_folders (ss_disk s2)))"
    have s': "s' = s2\<lparr>ss_records := butlast (ss_records s2), ss_kept := ss_kept s2 - rd_size ?r,
        ss_disk := set_folders ?F (ss_disk s2)\<rparr>" using assms(1) unfolding list_share_def Let_def w Inl by simp
    have other: "map_of ?F j = map_of (sd_folders (ss_disk s)) j" if "j \<noteq> in_id inc" for j
      using remove_all_other [of "se_fs env" "in_id inc" "sd_folders (ss_disk s2)" _ ?F j] that k(1) by (simp add: prod_eq_iff)
    have "list_all (backed ?F) (ss_records s)"
      unfolding list_all_iff
    proof
      fix q assume q: "q \<in> set (ss_records s)"
      then have "rd_id q \<noteq> in_id inc" using assms(6,9) by (metis image_eqI)
      then have "backed ?F q = backed (sd_folders (ss_disk s)) q" by (intro backed_cong other)
      moreover have "backed (sd_folders (ss_disk s)) q" using c q unfolding list_all_iff by blast
      ultimately show "backed ?F q" by blast
    qed
    moreover have "ss_records s' = ss_records s" "ss_kept s' = ss_kept s" "ss_reserved s' = ss_reserved s - in_size inc"
      "ss_total s' = ss_total s" "sd_folders (ss_disk s') = ?F" "sd_index (ss_disk s') = sd_index (ss_disk s2)"
      using k(3-6) by (simp_all add: s' set_folders_def)
    moreover have "index_ok (sd_index (ss_disk s2))" "dk_dir (sd_index (ss_disk s2)) \<noteq> None"
      "pred_option private_dir_info (dk_dir (sd_index (ss_disk s2)))" using 2 unfolding core_ok_def by blast+
    moreover have "lm_unlimited (ss_total s) \<or> ss_reserved s - in_size inc = 0
      \<or> ss_kept s + (ss_reserved s - in_size inc) \<le> lm_bytes (ss_total s)" using c assms(3,4) by auto
    moreover have "covered (ss_records s) (sd_index (ss_disk s2))" using 2 Inl c by (auto simp: covered_def)
    ultimately show ?thesis using c by (simp only: store_ok_def core_ok_def) blast
  qed
qed

lemma commit_ok:
  assumes "commit_share env t source inc s = (r, inc', s')" "\<not> in_done inc" "store_ok s" "live_ok s (xs @ (inc, True) # ys)"
  shows "store_ok s' \<and> live_ok s' (xs @ (inc', True) # ys)"
  using commit_cases [OF assms(1)]
proof (rule disjE)
  assume "\<exists>e inc1 s1. r = Inl e \<and> abort_share env inc1 s1 = (inc', s') \<and> inc1 \<in> {inc, inc\<lparr>in_open := False\<rparr>}
       \<and> (s1 = s \<or> s1 = dropped env inc s \<and> map_of (sd_folders (ss_disk s)) (in_id inc) = None)"
  then obtain inc1 s1 where a: "abort_share env inc1 s1 = (inc', s')" and i: "inc1 \<in> {inc, inc\<lparr>in_open := False\<rparr>}"
    and s1: "s1 = s \<or> s1 = dropped env inc s \<and> map_of (sd_folders (ss_disk s)) (in_id inc) = None" by blast
  have "store_ok s1" using s1 assms(3) dropped_ok by blast
  moreover have "live_ok s1 (xs @ (inc, True) # ys)" using s1 assms(4) live_cong [OF dropped_fields] by blast
  then have "live_ok s1 (xs @ (inc1, True) # ys)" using i live_ok_open by blast
  ultimately show ?thesis using abort_ok [OF a] by blast
next
  assume "\<exists>bytes. map_of (incoming_files s) (in_id inc) = Some bytes \<and> in_name inc \<notin> {''.'', ''..''}
       \<and> map_of (sd_folders (ss_disk s)) (in_id inc) = None
       \<and> list_share env (inc\<lparr>in_open := False\<rparr>) (received_record t source inc) (moved inc bytes s) = (r, s')
       \<and> inc' = inc\<lparr>in_open := False, in_done := True\<rparr>"
  then obtain bytes where b: "map_of (incoming_files s) (in_id inc) = Some bytes" "in_name inc \<notin> {''.'', ''..''}"
    "map_of (sd_folders (ss_disk s)) (in_id inc) = None"
    "list_share env (inc\<lparr>in_open := False\<rparr>) (received_record t source inc) (moved inc bytes s) = (r, s')"
    "inc' = inc\<lparr>in_open := False, in_done := True\<rparr>" by blast
  have i: "incoming_ok (incoming_files s) (inc, True)" using assms(2,4) unfolding live_ok_middle by simp
  then have i': "valid_share_id (in_id inc)" "\<exists>n. in_name inc = safe_share_name n" "0 \<le> in_size inc" "int (length bytes) = in_size inc"
    using b(1) by (simp_all add: incoming_ok_def)
  have rs: "0 \<le> in_size inc" "in_size inc \<le> ss_reserved s" using reserved_release [OF _ assms(4,2)] assms(3) unfolding store_ok_def by blast+
  have "in_id inc \<notin> rd_id ` set (ss_records s)"
    using assms(3) b(3) backed_listed unfolding store_ok_def core_ok_def list_all_iff by (metis imageE)
  moreover have "record_ok (received_record t source inc)" using i' b(2) by (simp add: record_ok_def received_record_def)
  moreover have "backed (sd_folders (ss_disk (moved inc bytes s))) (received_record t source inc)"
    using i'(4) by (simp add: backed_def received_record_def moved_fields new_folder_def new_file_def) (simp add: private_file_info_def)
  ultimately have "store_ok s'"
    using list_share_ok [OF b(4) moved_ok [OF assms(3) b(3)]] rs by (simp add: moved_fields) (simp add: received_record_def)
  moreover have "live_ok s' (xs @ (inc', True) # ys)"
  proof (rule release_ok [OF assms(4,2)])
    show "map_of (incoming_files s') j = map_of (incoming_files s) j" if "j \<noteq> in_id inc" for j
      using that list_share_fields(1) [OF b(4)] by (simp add: moved_fields delete_conv')
    show "ss_reserved s' = ss_reserved s - in_size inc" using list_share_fields(2) [OF b(4)] by (simp add: moved_fields)
  qed (simp add: b(5))
  ultimately show ?thesis by blast
qed


section \<open>Starting\<close>

lemma read_index_records:
  assumes "read_index jsize io d = Inr rs"
  shows "rs = index_records d"
  using assms by (auto simp: read_index_def open_private_regular_def index_records_def split: option.splits if_splits prod.splits io_error.splits)

lemma present_cong: "map_of F' (rd_id r) = map_of F (rd_id r) \<Longrightarrow> present fs F' r = present fs F r"
  by (simp only: present_def open_shared_def)

lemma present_backed: "present fs F r \<Longrightarrow> backed F r"
  by (auto simp: present_def open_shared_def backed_def split: option.splits if_splits)

lemma keep_present_spec:
  assumes "keep_present fs rs F = (k, F')" "distinct (map rd_id rs)"
  shows "k = filter (present fs F) rs \<and> (\<forall>j. (\<forall>r \<in> set rs. rd_id r = j \<longrightarrow> present fs F r) \<longrightarrow> map_of F' j = map_of F j)"
  using assms
proof (induction rs arbitrary: F k)
  case (Cons r rs)
  show ?case
  proof (cases "present fs F r")
    case True
    then obtain k1 where "keep_present fs rs F = (k1, F')" "k = r # k1" using Cons.prems(1) by (auto split: prod.splits)
    then show ?thesis using Cons.IH [of F k1] Cons.prems(2) True by simp
  next
    case False
    obtain b F1 where rm: "remove_all fs (rd_id r) F = (b, F1)" by (meson surj_pair)
    have k: "keep_present fs rs F1 = (k, F')" using Cons.prems(1) False by (simp add: rm)
    have other: "map_of F1 j = map_of F j" if "j \<noteq> rd_id r" for j using remove_all_other [OF rm that] .
    have same: "present fs F1 q = present fs F q" if "q \<in> set rs" for q
      using that Cons.prems(2) by (intro present_cong other) (metis distinct.simps(2) image_eqI list.set_map list.simps(9))
    note ih = Cons.IH [OF k]
    have "k = filter (present fs F) (r # rs)" using ih Cons.prems(2) same False by (auto intro: filter_cong)
    moreover have "map_of F' j = map_of F j" if "\<forall>q \<in> set (r # rs). rd_id q = j \<longrightarrow> present fs F q" for j
    proof -
      have "j \<noteq> rd_id r" using that False by auto
      moreover have "\<forall>q \<in> set rs. rd_id q = j \<longrightarrow> present fs F1 q" using that same by simp
      ultimately show ?thesis using ih Cons.prems(2) other by simp
    qed
    ultimately show ?thesis by blast
  qed
qed simp

lemma clear_unlisted_spec:
  assumes "clear_unlisted fs known ns F = (True, F')"
  shows "(\<forall>j. map_of F' j \<in> {None, map_of F j}) \<and> (\<forall>j \<in> known. map_of F' j = map_of F j)
    \<and> (\<forall>j \<in> set ns. valid_share_id j \<and> j \<notin> known \<longrightarrow> map_of F' j = None)"
  using assms
proof (induction ns arbitrary: F)
  case (Cons n ns)
  show ?case
  proof (cases "valid_share_id n \<and> n \<notin> known")
    case True
    then obtain F1 where rm: "remove_all fs n F = (True, F1)" and c: "clear_unlisted fs known ns F1 = (True, F')"
      using Cons.prems by (auto split: prod.splits bool.splits)
    have 1: "map_of F1 j = (if j = n then None else map_of F j)" for j
      using remove_all_other [OF rm, of j] remove_all_gone [OF rm] by auto
    note ih = Cons.IH [OF c]
    have "\<forall>j. map_of F' j \<in> {None, map_of F j}" using ih 1 by (metis insertCI insertE)
    then show ?thesis using ih 1 True by auto
  next
    case False
    then have "clear_unlisted fs known ns F = (True, F')" using Cons.prems by (simp split: if_splits)
    from Cons.IH [OF this] show ?thesis using False by auto
  qed
qed simp

lemma load_ok_parts:
  assumes "load_share jsize env limit tot d = (Inr s, d')" "records_ok (index_records (sd_index d))"
  shows "\<exists>F F'. keep_present (se_fs env) (index_records (sd_index d)) (sd_folders d) = (ss_records s, F)
    \<and> clear_unlisted (se_fs env) (rd_id ` set (ss_records s)) (map fst F) F = (True, F')
    \<and> ss_records s = filter (present (se_fs env) (sd_folders d)) (index_records (sd_index d))
    \<and> ss_kept s = sum_list (map rd_size (ss_records s)) \<and> ss_reserved s = 0 \<and> d' = ss_disk s
    \<and> sd_folders (ss_disk s) = F' \<and> sd_incoming (ss_disk s) = Some []
    \<and> dk_dir (sd_index (ss_disk s)) = dk_dir (sd_index d)
    \<and> (dk_file (sd_index (ss_disk s)) = dk_file (sd_index d) \<and> ss_records s = index_records (sd_index d)
       \<or> dk_file (sd_index (ss_disk s)) = Some (new_file, index_of (ss_records s)))"
proof -
  let ?fs = "se_fs env" and ?io = "se_io env" and ?rs = "index_records (sd_index d)" and ?d = "d\<lparr>sd_incoming := Some []\<rparr>"
  have "settle_load env limit tot ?rs ?d = (Inr s, d')"
    using assms(1) read_index_records unfolding load_share_def by (cases "read_index jsize ?io (sd_index d)") (auto split: if_splits)
  moreover obtain k F where kp: "keep_present ?fs ?rs (sd_folders d) = (k, F)" by (meson surj_pair)
  let ?d2 = "(set_folders F ?d)\<lparr>sd_index := (sd_index d)\<lparr>dk_temps := 0\<rparr>\<rparr>"
  obtain b F' where cu: "clear_unlisted ?fs (rd_id ` set k) (map fst F) F = (b, F')" by (meson surj_pair)
  ultimately have b: b and fin: "finish_load ?io limit tot ?rs k (set_folders F' ?d2) = (Inr s, d')"
    unfolding settle_load_def Let_def by (cases b; simp add: kp cu set_folders_def split: if_splits)+
  let ?s = "new_share_store (set_folders F' ?d2) limit tot k"
  have k: "k = filter (present ?fs (sd_folders d)) ?rs" using keep_present_spec [OF kp] assms(2) by (simp add: records_ok_def)
  have new: "ss_records ?s = k" "ss_disk ?s = set_folders F' ?d2" by (simp_all add: new_share_store_def)
  show ?thesis
  proof (cases "length k = length ?rs")
    case True
    then have s: "s = ?s" "d' = ss_disk s" using fin by (auto simp: finish_load_def Let_def)
    have "k = ?rs" using True k by (metis filter_id_conv length_filter_less less_irrefl)
    then show ?thesis using kp cu b k s by (auto simp: new_share_store_def set_folders_def)
  next
    case False
    then obtain u where w: "write_index ?io ?s = (Inr u, s)" and d': "d' = ss_disk s"
      using fin by (auto simp: finish_load_def Let_def split: prod.splits sum.splits)
    obtain ixd where s': "s = ?s\<lparr>ss_disk := (ss_disk ?s)\<lparr>sd_index := ixd\<rparr>\<rparr>" "dk_dir ixd = dk_dir (sd_index (ss_disk ?s))"
      "dk_file ixd = Some (new_file, index_of (ss_records ?s))" using write_index_cases [OF w] by auto
    then show ?thesis using kp cu b k d' by (auto simp: new_share_store_def set_folders_def)
  qed
qed

lemma records_ok_filter: "records_ok rs \<Longrightarrow> records_ok (filter P rs)"
  by (auto simp: records_ok_def list_all_iff distinct_map_filter)

lemma load_ok:
  assumes "load_share jsize env limit tot d = (Inr s, d')" "index_ok (sd_index d)" "pred_option private_dir_info (dk_dir (sd_index d))"
    "dk_dir (sd_index d) \<noteq> None"
  shows "store_ok s \<and> live_ok s [] \<and> d' = ss_disk s"
proof -
  let ?fs = "se_fs env" and ?rs = "index_records (sd_index d)"
  have ok: "records_ok ?rs" using assms(2) by (auto simp: index_ok_def index_records_def records_ok_def split: option.splits)
  obtain F F' where p: "keep_present ?fs ?rs (sd_folders d) = (ss_records s, F)"
    "clear_unlisted ?fs (rd_id ` set (ss_records s)) (map fst F) F = (True, F')"
    "ss_records s = filter (present ?fs (sd_folders d)) ?rs" "d' = ss_disk s"
    "ss_kept s = sum_list (map rd_size (ss_records s))" "ss_reserved s = 0"
    "sd_folders (ss_disk s) = F'" "sd_incoming (ss_disk s) = Some []" "dk_dir (sd_index (ss_disk s)) = dk_dir (sd_index d)"
    "dk_file (sd_index (ss_disk s)) = dk_file (sd_index d) \<and> ss_records s = ?rs
       \<or> dk_file (sd_index (ss_disk s)) = Some (new_file, index_of (ss_records s))"
    using load_ok_parts [OF assms(1) ok] by blast
  have rk: "records_ok (ss_records s)" unfolding p(3) by (rule records_ok_filter [OF ok])
  have bk: "backed F' r" if r: "r \<in> set (ss_records s)" for r
  proof -
    have r': "r \<in> set ?rs" and pr: "present ?fs (sd_folders d) r" using r unfolding p(3) by simp_all
    have "\<forall>q \<in> set ?rs. rd_id q = rd_id r \<longrightarrow> present ?fs (sd_folders d) q"
    proof (intro ballI impI)
      fix q assume q: "q \<in> set ?rs" "rd_id q = rd_id r"
      have "q = r" using q r' ok by (auto simp: records_ok_def distinct_map inj_on_def)
      then show "present ?fs (sd_folders d) q" using pr by simp
    qed
    then have "map_of F (rd_id r) = map_of (sd_folders d) (rd_id r)" using keep_present_spec [OF p(1)] ok by (simp add: records_ok_def)
    moreover have "map_of F' (rd_id r) = map_of F (rd_id r)" using clear_unlisted_spec [OF p(2)] r by blast
    ultimately show ?thesis using present_backed [OF pr] backed_cong [of F' r "sd_folders d"] by simp
  qed
  have ix: "index_ok (sd_index (ss_disk s)) \<and> covered (ss_records s) (sd_index (ss_disk s))"
    using p(10)
  proof
    assume "dk_file (sd_index (ss_disk s)) = dk_file (sd_index d) \<and> ss_records s = ?rs"
    then show ?thesis using index_file_cong [of "sd_index (ss_disk s)" "sd_index d"] assms(2) by (simp add: covered_def)
  next
    assume "dk_file (sd_index (ss_disk s)) = Some (new_file, index_of (ss_records s))"
    then show ?thesis using rk by (simp add: index_ok_of index_records_of covered_def)
  qed
  have "store_ok s" unfolding store_ok_def core_ok_def using ix rk bk p(5-9) assms(3,4) by (auto simp: list_all_iff)
  then show ?thesis using p(4,6) by (simp add: live_ok_def)
qed

lemma index_temps [simp]: "index_ok (d\<lparr>dk_temps := n\<rparr>) = index_ok d"
  by (simp add: index_ok_def)

lemma finish_error_ok:
  assumes "finish_load io limit tot records k d = (Inl e, d')" "index_ok (sd_index d)" "records_ok k"
  shows "index_ok (sd_index d')"
proof -
  let ?s = "new_share_store d limit tot k"
  obtain w s1 where w: "write_index io ?s = (w, s1)" by (meson surj_pair)
  have d': "d' = ss_disk s1" using assms(1) w by (auto simp: finish_load_def Let_def split: if_splits sum.splits)
  have "dk_file (sd_index (ss_disk s1)) = Some (new_file, index_of k) \<or> dk_file (sd_index (ss_disk s1)) = dk_file (sd_index d)"
    using write_index_cases [OF w] by (auto simp: new_share_store_def)
  then show ?thesis using d' index_ok_of index_file_cong assms(2,3) by metis
qed

lemma load_error_ok:
  assumes "load_share jsize env limit tot d = (Inl e, d')" "index_ok (sd_index d)"
  shows "index_ok (sd_index d')"
proof (cases "read_index jsize (se_io env) (sd_index d)")
  case (Inl e')
  then show ?thesis using assms by (simp add: load_share_def)
next
  case (Inr records)
  let ?fs = "se_fs env" and ?d = "d\<lparr>sd_incoming := Some []\<rparr>"
  have rok: "records_ok records"
    using assms(2) read_index_records [OF Inr] by (auto simp: index_ok_def index_records_def records_ok_def split: option.splits)
  obtain k F where kp: "keep_present ?fs records (sd_folders d) = (k, F)" by (meson surj_pair)
  let ?d2 = "(set_folders F ?d)\<lparr>sd_index := (sd_index d)\<lparr>dk_temps := 0\<rparr>\<rparr>"
  obtain b F' where cu: "clear_unlisted ?fs (rd_id ` set k) (map fst F) F = (b, F')" by (meson surj_pair)
  have "records_ok k" using keep_present_spec [OF kp] rok records_ok_filter by (auto simp: records_ok_def)
  moreover have "index_ok (sd_index (set_folders F' ?d2))" using assms(2) by (simp add: set_folders_def)
  moreover have "sd_index d' \<in> {sd_index d, (sd_index d)\<lparr>dk_temps := 0\<rparr>} \<or> finish_load (se_io env) limit tot records k (set_folders F' ?d2) = (Inl e, d')"
    using assms(1) unfolding load_share_def settle_load_def Let_def Inr sum.case
    by (cases b; simp add: kp cu set_folders_def split: if_splits) auto
  ultimately show ?thesis using assms(2) finish_error_ok by auto
qed

end
