(* ===== verification/ShareClaims.thy ===== *)
theory ShareClaims
  imports ShareFacts
begin

text \<open>
  What holds of the store of shared files in every run: the invariant of its state, the abstract map of files it
  implements, and what a new start finds.
\<close>

section \<open>Every run\<close>

lemma open_ok:
  assumes "open_share_store jsize env dir limit tot d = (Inr s, d')" "index_ok (sd_index d)"
  shows "store_ok s \<and> live_ok s []"
proof -
  obtain ixd u where e: "ensure_private_directory (se_io env) True (sd_index d) = (Inr u, ixd)"
    and l: "load_share jsize env limit tot (d\<lparr>sd_index := ixd, sd_locked := True\<rparr>) = (Inr s, d')"
    using assms(1) by (auto simp: open_share_store_def Let_def split: if_splits prod.splits sum.splits)
  have f: "dk_file ixd = dk_file (sd_index d)" using ensure_private_directory_file [OF e] by simp
  have "pred_option private_dir_info (dk_dir ixd) \<and> dk_dir ixd \<noteq> None"
    using e by (auto simp: ensure_private_directory_def Let_def split: if_splits option.splits)
  then show ?thesis using load_ok [OF l] index_file_cong [OF f] assms(2) by simp
qed

lemma open_error_ok:
  assumes "open_share_store jsize env dir limit tot d = (Inl e, d')" "index_ok (sd_index d)" "\<not> sd_locked d"
  shows "index_ok (sd_index d') \<and> \<not> sd_locked d'"
proof -
  obtain r ixd where e: "ensure_private_directory (se_io env) True (sd_index d) = (r, ixd)" by (meson surj_pair)
  have f: "index_ok ixd" using ensure_private_directory_file [OF e] index_file_cong [of ixd "sd_index d"] assms(2) by simp
  obtain r2 d2 where l: "load_share jsize env limit tot (d\<lparr>sd_index := ixd, sd_locked := True\<rparr>) = (r2, d2)" by (meson surj_pair)
  have "d' = d \<or> d' = d\<lparr>sd_index := ixd\<rparr> \<or> (\<exists>e2. r2 = Inl e2) \<and> d' = unlock_share d2"
    using assms(1) unfolding open_share_store_def Let_def e by (auto simp: l split: if_splits sum.splits)
  then show ?thesis using assms(2,3) f load_error_ok [of jsize env limit tot "d\<lparr>sd_index := ixd, sd_locked := True\<rparr>" _ d2] l
    by (auto simp: unlock_share_def)
qed

lemma share_step_ok: "share_step jsize x y \<Longrightarrow> share_ok x \<Longrightarrow> share_ok y"
proof (induction rule: share_step.induct)
  case (start_ok env dir limit tot d s d')
  then show ?case using open_ok by simp
next
  case (start_error env dir limit tot d e d')
  then show ?case using open_error_ok by simp
next
  case (stop s l)
  then show ?case by (simp add: unlock_share_def store_ok_def core_ok_def)
next
  case (current s l c)
  then show ?case using live_cong [of "set_current c s" s l] by (simp add: set_current_def incoming_files_def)
next
  case (subscribe s l n)
  then show ?case using live_cong [of "subscribe_shares n s" s l] by (simp add: subscribe_shares_def incoming_files_def)
next
  case (unsubscribe s l n)
  then show ?case using live_cong [of "unsubscribe_shares n s" s l] by (simp add: unsubscribe_shares_def incoming_files_def)
next
  case (view s l env owner v)
  then show ?case using set_view_ok unfolding share_ok.simps by blast
next
  case (delete env ids s res s' l)
  then show ?case using delete_ok unfolding share_ok.simps by blast
next
  case (begin_ok env random name sz s inc s' l)
  then show ?case using begin_ok_ok unfolding share_ok.simps by blast
next
  case (begin_error env random name sz s e s' l)
  then have "s' = s" by (intro begin_error_same)
  then show ?case using begin_error(2) by simp
next
  case (copy es inc s r s' xs ys)
  then show ?case using copy_ok unfolding share_ok.simps by blast
next
  case (commit env t source inc s r inc' s' xs ys)
  then show ?case using commit_ok unfolding share_ok.simps by blast
next
  case (abort env inc s inc' s' xs c ys)
  then show ?case using abort_ok unfolding share_ok.simps by blast
qed

lemma share_reach_ok: "share_reach jsize x \<Longrightarrow> share_ok x"
proof (induction rule: share_reach.induct)
  case (fresh dir)
  then show ?case by (simp add: fresh_share_disk_def index_ok_def)
next
  case (step x y)
  then show ?case using share_step_ok by blast
qed

section \<open>A run\<close>

text \<open>A start on a new folder, and a file of three bytes that is shared.\<close>
definition shared_sample_limit :: limit where "shared_sample_limit = \<lparr>lm_bytes = 10, lm_unlimited = False\<rparr>"

definition shared_sample_id :: string where "shared_sample_id = new_share_id (replicate 16 (chr 0))"

definition shared_sample_disk :: share_disk where
  "shared_sample_disk = \<lparr>sd_index = \<lparr>dk_dir = Some new_dir, dk_file = None, dk_temps = 0\<rparr>, sd_folders = [], sd_incoming = Some [], sd_locked = True\<rparr>"

definition shared_sample_start :: share_store where "shared_sample_start = new_share_store shared_sample_disk shared_sample_limit shared_sample_limit []"

definition shared_sample_incoming :: incoming_share where
  "shared_sample_incoming = \<lparr>in_id = shared_sample_id, in_name = ''file'', in_size = 3, in_open = True, in_done = False\<rparr>"

definition shared_sample_record :: share_record where
  "shared_sample_record = \<lparr>rd_id = shared_sample_id, rd_name = ''file'', rd_size = 3, rd_shared_at = 7, rd_seen = False, rd_source = None\<rparr>"

definition shared_sample_shared :: share_store where
  "shared_sample_shared = shared_sample_start\<lparr>ss_records := [shared_sample_record], ss_kept := 3,
     ss_disk := shared_sample_disk\<lparr>sd_index := \<lparr>dk_dir = Some new_dir, dk_file = Some (new_file, index_of [shared_sample_record]), dk_temps = 0\<rparr>,
       sd_folders := [(shared_sample_id, new_folder ''file'' ''abc'')]\<rparr>\<rparr>"

lemma shared_sample_name: "safe_share_name ''file'' = ''file''"
proof -
  have "safe_basename ''file'' = ''file''" using file_name_safe safe_basename_id by metis
  then show ?thesis by (simp add: safe_share_name_def max_name_bytes_def)
qed

lemma shared_sample_open: "open_share_store jsize no_faults ''/s'' shared_sample_limit shared_sample_limit (fresh_share_disk None) = (Inr shared_sample_start, shared_sample_disk)"
  by (simp add: open_share_store_def is_abs_def ensure_private_directory_def no_faults_def fresh_share_disk_def load_share_def read_index_def
      open_private_regular_def settle_load_def finish_load_def set_folders_def shared_sample_start_def shared_sample_disk_def new_share_store_def
      index_of_def Let_def)

lemma shared_sample_begin:
  "begin_share no_faults (replicate 16 (chr 0)) ''file'' 3 shared_sample_start
    = (Inr shared_sample_incoming, set_incoming [(shared_sample_id, [])] (shared_sample_start\<lparr>ss_reserved := 3\<rparr>))"
  unfolding begin_share_def Let_def shared_sample_id_def [symmetric]
  by (simp add: shared_sample_name no_faults_def shared_sample_start_def new_share_store_def shared_sample_disk_def shared_sample_limit_def allows_def
      incoming_files_def shared_sample_incoming_def)

lemma shared_sample_copy:
  "copy_share [GotBytes ''abc'' ReadOk False] shared_sample_incoming (set_incoming [(shared_sample_id, [])] (shared_sample_start\<lparr>ss_reserved := 3\<rparr>))
    = (Copied, set_incoming [(shared_sample_id, ''abc'')] (shared_sample_start\<lparr>ss_reserved := 3\<rparr>))"
  by (simp add: copy_share_def shared_sample_incoming_def set_incoming_def incoming_files_def)

lemma shared_sample_commit:
  "commit_share no_faults 7 None shared_sample_incoming (set_incoming [(shared_sample_id, ''abc'')] (shared_sample_start\<lparr>ss_reserved := 3\<rparr>))
    = (Inr shared_sample_record, shared_sample_incoming\<lparr>in_open := False, in_done := True\<rparr>, shared_sample_shared)"
  by (simp add: commit_share_def no_faults_def shared_sample_incoming_def shared_sample_start_def new_share_store_def shared_sample_disk_def set_incoming_def
      incoming_files_def list_share_def write_index_def shares_write_index_def replace_via_temp_def first_fault_def notify_shares_def
      set_folders_def shared_sample_record_def shared_sample_shared_def Let_def)

definition shared_sample_copied :: share_store where
  "shared_sample_copied = set_incoming [(shared_sample_id, ''abc'')] (shared_sample_start\<lparr>ss_reserved := 3\<rparr>)"

lemma shared_sample_reach_copied: "share_reach jsize (ShareUp shared_sample_copied [(shared_sample_incoming, True)])"
proof -
  have 1: "share_reach jsize (ShareUp shared_sample_start [])" using shared_sample_open by (metis share_reach.fresh share_reach.step start_ok)
  have 2: "share_reach jsize (ShareUp (set_incoming [(shared_sample_id, [])] (shared_sample_start\<lparr>ss_reserved := 3\<rparr>)) [(shared_sample_incoming, False)])"
    using share_reach.step [OF 1] begin_ok [OF shared_sample_begin] by simp
  have "reads_fit [GotBytes ''abc'' ReadOk False] (in_size shared_sample_incoming)" "\<not> in_done shared_sample_incoming" by (simp_all add: shared_sample_incoming_def)
  then show ?thesis
    unfolding shared_sample_copied_def using share_reach.step [OF 2] share_step.copy [OF shared_sample_copy, where xs = "[]" and ys = "[]"] by simp
qed

lemma shared_sample_reach: "share_reach jsize (ShareUp shared_sample_shared [(shared_sample_incoming\<lparr>in_open := False, in_done := True\<rparr>, True)])"
proof -
  note 3 = shared_sample_reach_copied [of jsize, unfolded shared_sample_copied_def]
  show ?thesis using share_reach.step [OF 3] share_step.commit [OF shared_sample_commit, where xs = "[]" and ys = "[]"] by (simp add: shared_sample_incoming_def)
qed

section \<open>Accounting\<close>

text \<open>C32.  Shared files are accounted for in every run, whatever calls fail and wherever the process stops: each listed file has its
  own well formed ID and a safe name, the sum that is kept and the sum that is reserved are those of the listed and
  of the unfinished files, and while anything is reserved both together stay within the limit.\<close>
theorem share_accounting:
  assumes "share_reach jsize (ShareUp s l)"
  shows "distinct (map rd_id (ss_records s)) \<and> list_all record_ok (ss_records s)
    \<and> ss_kept s = sum_list (map rd_size (ss_records s))
    \<and> ss_reserved s = sum_list (map (in_size \<circ> fst) (live_shares l))
    \<and> (lm_unlimited (ss_total s) \<or> ss_reserved s = 0 \<or> ss_kept s + ss_reserved s \<le> lm_bytes (ss_total s))
    \<and> unseen ` set (ss_records s) \<subseteq> unseen ` set (index_records (sd_index (ss_disk s)))"
  using share_reach_ok [OF assms] unfolding share_ok.simps store_ok_def core_ok_def records_ok_def covered_def live_ok_def by blast


lemma share_accounting_witness:
  "ss_kept shared_sample_shared = 3 \<and> map rd_name (ss_records shared_sample_shared) = [''file'']
   \<and> ss_kept shared_sample_shared = sum_list (map rd_size (ss_records shared_sample_shared))"
  using share_accounting [OF shared_sample_reach] by (simp add: shared_sample_shared_def shared_sample_record_def)

section \<open>The files a store shows\<close>

text \<open>What the store promises: a map from IDs to the shared files, each with what the list says of it and its bytes.\<close>
definition shared_files :: "share_store \<Rightarrow> string \<rightharpoonup> share_record \<times> string" where
  "shared_files s i = map_option (\<lambda>(b, r). (unseen r, b)) (open_share (\<lambda>_. False) i s)"

lemma find_map_seen: "find (\<lambda>r. rd_id r = i) (map (mark_seen h) rs) = map_option (mark_seen h) (find (\<lambda>r. rd_id r = i) rs)"
  by (induction rs) auto

lemma open_shared_cong: "map_of F' (rd_id r) = map_of F (rd_id r) \<Longrightarrow> open_shared fs F' r = open_shared fs F r"
  by (simp only: open_shared_def)

lemma open_shared_seen [simp]: "open_shared fs F (mark_seen h r) = open_shared fs F r"
  by (simp only: open_shared_def mark_seen_simps)

lemma shared_files_keep:
  "ss_records s' = ss_records s \<Longrightarrow> sd_folders (ss_disk s') = sd_folders (ss_disk s) \<Longrightarrow> shared_files s' = shared_files s"
  by (rule ext) (simp only: shared_files_def open_share_def)

lemma set_view_files: "shared_files (set_view env owner v s) = shared_files s"
proof (cases v)
  case None
  then show ?thesis by (intro shared_files_keep) (simp_all add: set_view_def)
next
  case (Some w)
  let ?h = "\<lambda>r. \<not> rd_seen r \<and> view_matches w r (ss_current s)"
  let ?s1 = "s\<lparr>ss_views := AList.update owner w (ss_views s)\<rparr>"
  let ?s2 = "?s1\<lparr>ss_records := map (mark_seen ?h) (ss_records s)\<rparr>"
  obtain r s3 where wr: "write_index (se_io env) ?s2 = (r, s3)" by (meson surj_pair)
  have "shared_files (notify_shares s3) = shared_files ?s2"
    using write_index_keeps(1,3) [OF wr] by (intro shared_files_keep) (simp_all add: notify_shares_def)
  also have "\<dots> = shared_files s"
  proof
    fix i
    show "shared_files ?s2 i = shared_files s i"
      by (cases "find (\<lambda>r. rd_id r = i) (ss_records s)")
        (simp_all add: shared_files_def open_share_def find_map_seen option.map_comp comp_def)
  qed
  finally have 2: "shared_files (notify_shares s3) = shared_files s" .
  have "set_view env owner v s = (if list_ex ?h (ss_records s) then notify_shares s3 else ?s1)"
    by (simp add: set_view_def Some Let_def wr)
  then show ?thesis using 2 shared_files_keep [of ?s1 s] by simp
qed

lemma begin_files: "shared_files (snd (begin_share env random name sz s)) = shared_files s"
proof (cases "begin_share env random name sz s")
  case (Pair r s')
  show ?thesis
  proof (cases r)
    case (Inl e)
    then have "s' = s" using begin_error_same Pair by blast
    then show ?thesis using Pair by simp
  next
    case (Inr inc)
    then show ?thesis using begin_ok_parts [of env random name sz s inc s'] Pair by (intro shared_files_keep) simp_all
  qed
qed

lemma copy_files: "shared_files (snd (copy_share es inc s)) = shared_files s"
  by (intro shared_files_keep) (simp_all add: copy_share_def split: prod.split)

lemma abort_keeps: "ss_records (snd (abort_share env inc s)) = ss_records s" "sd_folders (ss_disk (snd (abort_share env inc s))) = sd_folders (ss_disk s)"
  by (simp_all add: abort_share_def release_share_def Let_def)

lemma abort_files: "shared_files (snd (abort_share env inc s)) = shared_files s"
  by (intro shared_files_keep) (simp_all add: abort_keeps)

text \<open>Folders of other IDs do not matter.\<close>
lemma shared_files_folders:
  assumes "store_ok s" "\<And>j. j \<in> rd_id ` set (ss_records s) \<Longrightarrow> map_of (sd_folders (ss_disk s')) j = map_of (sd_folders (ss_disk s)) j"
    "ss_records s' = ss_records s"
  shows "shared_files s' = shared_files s"
proof
  fix i
  show "shared_files s' i = shared_files s i"
  proof (cases "find (\<lambda>r. rd_id r = i) (ss_records s)")
    case None
    then show ?thesis by (simp add: shared_files_def open_share_def assms(3))
  next
    case (Some r)
    then have "rd_id r \<in> rd_id ` set (ss_records s)" using find_in [OF Some] by (intro imageI) (rule conjunct1)
    then have "open_shared (\<lambda>_. False) (sd_folders (ss_disk s')) r = open_shared (\<lambda>_. False) (sd_folders (ss_disk s)) r"
      by (intro open_shared_cong assms(2))
    then show ?thesis by (simp add: shared_files_def open_share_def assms(3) Some)
  qed
qed

lemma listed_folder: "store_ok s \<Longrightarrow> j \<in> rd_id ` set (ss_records s) \<Longrightarrow> map_of (sd_folders (ss_disk s)) j \<noteq> None"
  using backed_listed by (auto simp: store_ok_def core_ok_def list_all_iff simp del: not_None_eq)

lemma dropped_files:
  assumes "store_ok s" "map_of (sd_folders (ss_disk s)) (in_id inc) = None"
  shows "shared_files (dropped env inc s) = shared_files s"
proof (rule shared_files_folders [OF assms(1)])
  fix j assume "j \<in> rd_id ` set (ss_records s)"
  then have "map_of (sd_folders (ss_disk s)) j \<noteq> None" by (rule listed_folder [OF assms(1)])
  then have j: "j \<noteq> in_id inc" using assms(2) by blast
  obtain b F where rm: "remove_all (se_fs env) (in_id inc) ((in_id inc, empty_folder) # sd_folders (ss_disk s)) = (b, F)" by (meson surj_pair)
  have "sd_folders (ss_disk (dropped env inc s)) = F" by (simp add: dropped_def set_folders_def rm)
  then show "map_of (sd_folders (ss_disk (dropped env inc s))) j = map_of (sd_folders (ss_disk s)) j"
    using remove_all_other [OF rm j] j by (simp only: map_of.simps fst_conv snd_conv fun_upd_apply if_False)
qed (simp add: dropped_def)


lemma find_none_id: "i \<notin> rd_id ` set rs \<Longrightarrow> find (\<lambda>r. rd_id r = i) rs = None"
  by (induction rs) auto

lemma find_append1: "find P (xs @ [x]) = (case find P xs of None \<Rightarrow> if P x then Some x else None | Some y \<Rightarrow> Some y)"
  by (induction xs) auto

lemma received_seen:
  "unseen (received_record t source inc\<lparr>rd_seen := b\<rparr>) = received_record t source inc"
  "rd_id (received_record t source inc\<lparr>rd_seen := b\<rparr>) = in_id inc" "rd_name (received_record t source inc\<lparr>rd_seen := b\<rparr>) = in_name inc"
  by (simp_all add: received_record_def unseen_def)

text \<open>Listing a file that was moved into its folder.\<close>
lemma list_share_files:
  assumes "list_share env inc (received_record t source inc) (moved inc bytes s) = (r, s')" "store_ok s"
    "map_of (sd_folders (ss_disk s)) (in_id inc) = None"
  shows "shared_files s' = (case r of Inr _ \<Rightarrow> (shared_files s)(in_id inc \<mapsto> (received_record t source inc, bytes)) | Inl _ \<Rightarrow> shared_files s)
    \<and> (\<forall>q. r = Inr q \<longrightarrow> unseen q = received_record t source inc)"
proof -
  let ?m = "moved inc bytes s" and ?base = "received_record t source inc"
  let ?r = "?base\<lparr>rd_seen := list_ex (\<lambda>(_, v). view_matches v ?base (\<lambda>_. True)) (ss_views ?m)\<rparr>"
  let ?s1 = "?m\<lparr>ss_reserved := ss_reserved ?m - in_size inc, ss_records := ss_records ?m @ [?r], ss_kept := ss_kept ?m + rd_size ?r\<rparr>"
  obtain w s2 where w: "write_index (se_io env) ?s1 = (w, s2)" by (meson surj_pair)
  note k = write_index_keeps [OF w]
  have id: "rd_id ?r = in_id inc" "rd_id ?r = in_id inc" "rd_name ?r = in_name inc" "unseen ?r = ?base" by (simp_all only: received_seen)
  have new: "in_id inc \<notin> rd_id ` set (ss_records s)" using listed_folder [OF assms(2)] assms(3) by blast
  show ?thesis
  proof (cases w)
    case (Inr u)
    have rs: "r = Inr ?r" "s' = notify_shares s2" using assms(1) unfolding list_share_def Let_def w Inr by simp_all
    have rec: "ss_records s' = ss_records s @ [?r]" and fold: "sd_folders (ss_disk s') = (in_id inc, new_folder (in_name inc) bytes) # sd_folders (ss_disk s)"
      using k(1,3) by (simp_all add: rs notify_shares_def moved_fields)
    have "shared_files s' i = ((shared_files s)(in_id inc \<mapsto> (?base, bytes))) i" for i
    proof (cases "i = in_id inc")
      case True
      have "find (\<lambda>r. rd_id r = i) (ss_records s') = Some ?r" using find_none_id [OF new] id(1) by (simp add: rec find_append1 True)
      moreover have "open_shared (\<lambda>_. False) (sd_folders (ss_disk s')) ?r = Some bytes"
        unfolding open_shared_def fold id(1,3) by (simp add: new_folder_def) (simp add: new_file_def private_file_info_def)
      ultimately have "open_share (\<lambda>_. False) i s' = Some (bytes, ?r)" by (simp only: open_share_def option.case option.map)
      then show ?thesis using id(4) True by (simp add: shared_files_def)
    next
      case False
      have f: "find (\<lambda>r. rd_id r = i) (ss_records s') = find (\<lambda>r. rd_id r = i) (ss_records s)"
        using False id(1) by (simp add: rec find_append1 split: option.split)
      have "open_share (\<lambda>_. False) i s' = open_share (\<lambda>_. False) i s"
      proof (cases "find (\<lambda>r. rd_id r = i) (ss_records s)")
        case None
        then show ?thesis by (simp add: open_share_def f)
      next
        case (Some q)
        have "rd_id q \<noteq> in_id inc" using find_in [OF Some] False by simp
        then have "open_shared (\<lambda>_. False) (sd_folders (ss_disk s')) q = open_shared (\<lambda>_. False) (sd_folders (ss_disk s)) q"
          by (intro open_shared_cong) (simp add: fold)
        then show ?thesis by (simp add: open_share_def f Some)
      qed
      then show ?thesis using False by (simp add: shared_files_def)
    qed
    then show ?thesis using id(4) by (auto simp: rs(1))
  next
    case (Inl e)
    let ?F = "snd (remove_all (se_fs env) (in_id inc) (sd_folders (ss_disk s2)))"
    have rs: "r = Inl (ShareIo e)" "s' = s2\<lparr>ss_records := butlast (ss_records s2), ss_kept := ss_kept s2 - rd_size ?r,
        ss_disk := set_folders ?F (ss_disk s2)\<rparr>" using assms(1) unfolding list_share_def Let_def w Inl by simp_all
    have "shared_files s' = shared_files s"
    proof (rule shared_files_folders [OF assms(2)])
      fix j assume "j \<in> rd_id ` set (ss_records s)"
      then have j: "j \<noteq> in_id inc" using new by blast
      have "map_of ?F j = map_of (sd_folders (ss_disk s2)) j"
        using remove_all_other [of "se_fs env" "in_id inc" "sd_folders (ss_disk s2)" _ ?F j] j by (simp add: prod_eq_iff)
      then show "map_of (sd_folders (ss_disk s')) j = map_of (sd_folders (ss_disk s)) j"
        using k(1) j by (simp add: rs set_folders_def moved_fields)
    qed (use k(3) in \<open>simp add: rs moved_fields\<close>)
    then show ?thesis by (simp add: rs(1))
  qed
qed

lemma list_share_inc: "list_share env (inc\<lparr>in_open := b\<rparr>) r0 s = list_share env inc r0 s"
  by (cases inc) (simp only: list_share_def incoming_share.simps)

lemma commit_files:
  assumes "commit_share env t source inc s = (r, inc', s')" "store_ok s"
  shows "case r of
      Inr q \<Rightarrow> unseen q = received_record t source inc \<and> shared_files s (in_id inc) = None
        \<and> (\<exists>bytes. map_of (incoming_files s) (in_id inc) = Some bytes
             \<and> shared_files s' = (shared_files s)(in_id inc \<mapsto> (received_record t source inc, bytes)))
    | Inl _ \<Rightarrow> shared_files s' = shared_files s"
  using commit_cases [OF assms(1)]
proof (rule disjE)
  assume "\<exists>e inc1 s1. r = Inl e \<and> abort_share env inc1 s1 = (inc', s') \<and> inc1 \<in> {inc, inc\<lparr>in_open := False\<rparr>}
       \<and> (s1 = s \<or> s1 = dropped env inc s \<and> map_of (sd_folders (ss_disk s)) (in_id inc) = None)"
  then obtain e inc1 s1 where a: "r = Inl e" "abort_share env inc1 s1 = (inc', s')"
    and s1: "s1 = s \<or> s1 = dropped env inc s \<and> map_of (sd_folders (ss_disk s)) (in_id inc) = None" by blast
  have "shared_files s' = shared_files s1" using abort_files [of env inc1 s1] a(2) by simp
  moreover have "shared_files s1 = shared_files s" using s1 dropped_files [OF assms(2)] by blast
  ultimately show ?thesis by (simp add: a(1))
next
  assume "\<exists>bytes. map_of (incoming_files s) (in_id inc) = Some bytes \<and> in_name inc \<notin> {''.'', ''..''}
       \<and> map_of (sd_folders (ss_disk s)) (in_id inc) = None
       \<and> list_share env (inc\<lparr>in_open := False\<rparr>) (received_record t source inc) (moved inc bytes s) = (r, s')
       \<and> inc' = inc\<lparr>in_open := False, in_done := True\<rparr>"
  then obtain bytes where b: "map_of (incoming_files s) (in_id inc) = Some bytes" "map_of (sd_folders (ss_disk s)) (in_id inc) = None"
    "list_share env inc (received_record t source inc) (moved inc bytes s) = (r, s')" unfolding list_share_inc by blast
  have "in_id inc \<notin> rd_id ` set (ss_records s)" using listed_folder [OF assms(2)] b(2) by blast
  from find_none_id [OF this] have "shared_files s (in_id inc) = None" by (simp add: shared_files_def open_share_def)
  then show ?thesis using list_share_files [OF b(3) assms(2) b(2)] b(1) by (cases r) simp_all
qed


lemma find_delete_other:
  "i \<noteq> j \<Longrightarrow> find (\<lambda>r. rd_id r = j) (delete_first (\<lambda>r. rd_id r = i) rs) = find (\<lambda>r. rd_id r = j) rs"
  by (induction rs) auto

lemma shared_files_at:
  assumes "find (\<lambda>r. rd_id r = i) (ss_records s') = find (\<lambda>r. rd_id r = i) (ss_records s)"
    "map_of (sd_folders (ss_disk s')) i = map_of (sd_folders (ss_disk s)) i"
  shows "shared_files s' i = shared_files s i"
proof (cases "find (\<lambda>r. rd_id r = i) (ss_records s)")
  case None
  then show ?thesis by (simp add: shared_files_def open_share_def assms(1))
next
  case (Some q)
  then have "rd_id q = i" using find_in [OF Some] by simp
  then have "open_shared (\<lambda>_. False) (sd_folders (ss_disk s')) q = open_shared (\<lambda>_. False) (sd_folders (ss_disk s)) q"
    using assms(2) by (intro open_shared_cong) simp
  then show ?thesis by (simp add: shared_files_def open_share_def assms(1) Some)
qed

lemma shared_files_unlisted: "i \<notin> rd_id ` set (ss_records s) \<Longrightarrow> shared_files s i = None"
  using find_none_id [of i "ss_records s"] by (simp add: shared_files_def open_share_def)

text \<open>What a removal that stopped half way has taken from the folder.\<close>
definition emptied :: "(share_call \<Rightarrow> bool) \<Rightarrow> string list \<Rightarrow> string set" where
  "emptied fs failed = {i \<in> set failed. \<not> fs (UnlinkIn i)}"

text \<open>Deleting these IDs in this order did so.\<close>
definition deletes :: "(share_call \<Rightarrow> bool) \<Rightarrow> string set \<Rightarrow> share_store \<Rightarrow> share_store \<Rightarrow> string list \<Rightarrow> string list \<Rightarrow> string list \<Rightarrow> bool" where
  "deletes fs asked s s' del gone fail \<longleftrightarrow>
     asked = set del \<union> set gone \<union> set fail
     \<and> shared_files s' = shared_files s |` (- (set del \<union> emptied fs fail))
     \<and> rd_id ` set (ss_records s') = rd_id ` set (ss_records s) - set del
     \<and> set del \<subseteq> rd_id ` set (ss_records s)
     \<and> (\<forall>i. map_of (sd_folders (ss_disk s')) i = None \<longleftrightarrow> map_of (sd_folders (ss_disk s)) i = None \<or> i \<in> set del)"

lemma restrict_UNIV [simp]: "m |` UNIV = m"
  by (simp add: restrict_map_def)

lemma set_folders_folders [simp]: "sd_folders (set_folders F d) = F"
  by (simp add: set_folders_def)

lemma emptied_append: "emptied fs (xs @ ys) = emptied fs xs \<union> emptied fs ys"
  by (auto simp: emptied_def)

lemma deletes_trans:
  assumes "deletes fs a s s1 d g f" "deletes fs a' s1 s2 d' g' f'"
  shows "deletes fs (a \<union> a') s s2 (d @ d') (g @ g') (f @ f')"
proof -
  note 1 = assms(1) [unfolded deletes_def] and 2 = assms(2) [unfolded deletes_def]
  have "shared_files s2 = shared_files s1 |` (- (set d' \<union> emptied fs f'))" "shared_files s1 = shared_files s |` (- (set d \<union> emptied fs f))"
    using 1 2 by blast+
  then have "shared_files s2 = shared_files s |` (- (set (d @ d') \<union> emptied fs (f @ f')))"
    by (simp only: restrict_restrict set_append emptied_append) (intro arg_cong [of _ _ "restrict_map (shared_files s)"], blast)
  moreover have "a \<union> a' = set (d @ d') \<union> set (g @ g') \<union> set (f @ f')" using 1 2 by auto
  moreover have "rd_id ` set (ss_records s2) = rd_id ` set (ss_records s) - set (d @ d')" using 1 2 by auto
  moreover have "set (d @ d') \<subseteq> rd_id ` set (ss_records s)" using 1 2 by auto
  moreover have "\<forall>i. map_of (sd_folders (ss_disk s2)) i = None \<longleftrightarrow> map_of (sd_folders (ss_disk s)) i = None \<or> i \<in> set (d @ d')" using 1 2 by auto
  ultimately show ?thesis unfolding deletes_def by blast
qed

lemma deletes_gone: "deletes fs {i} s s [] [i] []"
  by (simp add: deletes_def emptied_def)

lemma deletes_removed:
  assumes "core_ok s" "find (\<lambda>r. rd_id r = i) (ss_records s) = Some r" "remove_all fs i (sd_folders (ss_disk s)) = (True, F)"
  shows "deletes fs {i} s (s\<lparr>ss_disk := set_folders F (ss_disk s), ss_kept := ss_kept s - rd_size r,
      ss_records := delete_first (\<lambda>r. rd_id r = i) (ss_records s)\<rparr>) [i] [] []"
proof -
  let ?s = "s\<lparr>ss_disk := set_folders F (ss_disk s), ss_kept := ss_kept s - rd_size r,
      ss_records := delete_first (\<lambda>r. rd_id r = i) (ss_records s)\<rparr>"
  have ids: "rd_id ` set (ss_records ?s) = rd_id ` set (ss_records s) - {i}"
    using assms(1) delete_first_ids [of "ss_records s" i] by (auto simp: core_ok_def records_ok_def)
  have gone: "map_of F i = None" using remove_all_gone [OF assms(3)] .
  have other: "map_of F j = map_of (sd_folders (ss_disk s)) j" if "j \<noteq> i" for j using remove_all_other [OF assms(3) that] .
  have fold: "sd_folders (ss_disk ?s) = F" by (simp add: set_folders_def)
  have "shared_files ?s j = (shared_files s |` (- {i})) j" for j
  proof (cases "j = i")
    case True
    then show ?thesis using shared_files_unlisted [of i ?s] ids by simp
  next
    case False
    have "shared_files ?s j = shared_files s j" using other [OF False] False by (intro shared_files_at) (simp_all add: find_delete_other fold)
    then show ?thesis using False by simp
  qed
  then have "shared_files ?s = shared_files s |` (- {i})" by (rule ext)
  moreover have "map_of F j = None \<longleftrightarrow> map_of (sd_folders (ss_disk s)) j = None \<or> j = i" for j using gone other [of j] by (cases "j = i") simp_all
  moreover have "i \<in> rd_id ` set (ss_records s)" using find_in [OF assms(2)] by blast
  ultimately show ?thesis using ids unfolding deletes_def fold by (simp add: emptied_def)
qed

lemma deletes_failed:
  assumes "find (\<lambda>r. rd_id r = i) (ss_records s) = Some r" "remove_all fs i (sd_folders (ss_disk s)) = (False, F)"
  shows "deletes fs {i} s (s\<lparr>ss_disk := set_folders F (ss_disk s)\<rparr>) [] [] [i]"
proof -
  let ?s = "s\<lparr>ss_disk := set_folders F (ss_disk s)\<rparr>"
  obtain f where f: "map_of (sd_folders (ss_disk s)) i = Some f" "map_of F i = Some (if fs (UnlinkIn i) then f else f\<lparr>fo_files := []\<rparr>)"
    using remove_all_same [OF assms(2)] by blast
  have other: "map_of F j = map_of (sd_folders (ss_disk s)) j" if "j \<noteq> i" for j using remove_all_other [OF assms(2) that] .
  have fold: "sd_folders (ss_disk ?s) = F" "ss_records ?s = ss_records s" by (simp_all add: set_folders_def)
  have id: "rd_id r = i" using find_in [OF assms(1)] by blast
  have "shared_files ?s j = (shared_files s |` (- emptied fs [i])) j" for j
  proof (cases "j = i \<and> \<not> fs (UnlinkIn i)")
    case True
    have "open_shared (\<lambda>_. False) F r = None" using f True id by (simp add: open_shared_def)
    then have "shared_files ?s i = None" by (simp add: shared_files_def open_share_def assms(1) fold)
    then show ?thesis using True by (simp add: emptied_def)
  next
    case False
    then have "map_of F j = map_of (sd_folders (ss_disk s)) j" using f other by (cases "j = i") auto
    then have "shared_files ?s j = shared_files s j" by (intro shared_files_at) (simp_all add: fold)
    then show ?thesis using False by (auto simp: emptied_def)
  qed
  then have "shared_files ?s = shared_files s |` (- emptied fs [i])" by (rule ext)
  moreover have "map_of F j = None \<longleftrightarrow> map_of (sd_folders (ss_disk s)) j = None" for j using f other [of j] by (cases "j = i") simp_all
  ultimately show ?thesis unfolding deletes_def fold by simp
qed

lemma delete_each_files:
  assumes "delete_each fs is s res = (res', s')" "core_ok s"
  shows "\<exists>del gone fail. de_deleted res' = de_deleted res @ del \<and> de_gone res' = de_gone res @ gone \<and> de_failed res' = de_failed res @ fail
    \<and> deletes fs (set is) s s' del gone fail"
  using assms
proof (induction "is" arbitrary: s res)
  case Nil
  then show ?case by (simp add: deletes_def emptied_def)
next
  case (Cons i "is")
  have glue: ?case if one: "deletes fs {i} s s1 d g f" and ok: "core_ok s1"
    and run: "delete_each fs is s1 (res\<lparr>de_deleted := de_deleted res @ d, de_gone := de_gone res @ g, de_failed := de_failed res @ f\<rparr>) = (res', s')" for s1 d g f
  proof -
    obtain del gone fail where r: "de_deleted res' = (de_deleted res @ d) @ del" "de_gone res' = (de_gone res @ g) @ gone"
      "de_failed res' = (de_failed res @ f) @ fail" "deletes fs (set is) s1 s' del gone fail" using Cons.IH [OF run ok] by auto
    then show ?thesis using deletes_trans [OF one r(4)] by (intro exI [of _ "d @ del"] exI [of _ "g @ gone"] exI [of _ "f @ fail"]) simp
  qed
  show ?case
  proof (cases "find (\<lambda>r. rd_id r = i) (ss_records s)")
    case None
    then show ?thesis using Cons.prems by (intro glue [OF deletes_gone]) simp_all
  next
    case (Some r)
    obtain b F where rm: "remove_all fs i (sd_folders (ss_disk s)) = (b, F)" by (meson surj_pair)
    show ?thesis
    proof (cases b)
      case True
      then have t: "remove_all fs i (sd_folders (ss_disk s)) = (True, F)" using rm by simp
      show ?thesis using Cons.prems(1) Some t by (intro glue [OF deletes_removed [OF Cons.prems(2) Some t] delete_one_ok [OF Cons.prems(2) Some t]]) simp
    next
      case False
      then have t: "remove_all fs i (sd_folders (ss_disk s)) = (False, F)" using rm by simp
      have ok: "core_ok (s\<lparr>ss_disk := set_folders F (ss_disk s)\<rparr>)"
        using Cons.prems(2) backed_remove_failed [OF t] by (auto simp: core_ok_def set_folders_def list_all_iff)
      show ?thesis using Cons.prems(1) Some t by (intro glue [OF deletes_failed [OF Some t] ok]) simp
    qed
  qed
qed

lemma delete_files:
  assumes "delete_shares env ids s = (res, s')" "core_ok s"
  shows "deletes (se_fs env) (set ids) s s' (de_deleted res) (de_gone res) (de_failed res)"
proof -
  let ?r = "\<lparr>de_deleted = [], de_gone = [], de_failed = [], de_saved = True\<rparr>"
  obtain res1 s1 where d: "delete_each (se_fs env) ids s ?r = (res1, s1)" by (meson surj_pair)
  obtain r s2 where w: "write_index (se_io env) s1 = (r, s2)" by (meson surj_pair)
  have one: "deletes (se_fs env) (set ids) s s1 (de_deleted res1) (de_gone res1) (de_failed res1)"
    using delete_each_files [OF d assms(2)] by simp
  have "s' = (if de_deleted res1 = [] then s1 else notify_shares s2) \<and> de_deleted res = de_deleted res1 \<and> de_gone res = de_gone res1
      \<and> de_failed res = de_failed res1"
    using assms(1) by (auto simp: delete_shares_def d w split: if_splits sum.splits)
  moreover from this have "ss_records s' = ss_records s1 \<and> sd_folders (ss_disk s') = sd_folders (ss_disk s1)"
    using write_index_keeps(1,3) [OF w] by (simp add: notify_shares_def)
  ultimately show ?thesis using one shared_files_keep [of s' s1] by (simp add: deletes_def)
qed

section \<open>The store implements a map of files\<close>

text \<open>C31.  The store implements a map from IDs to files.  Looking at lists, starting to receive, receiving and giving up change no
  shared file.  A commit adds the received file under its new ID, with exactly the bytes that arrived, and a failed
  one changes nothing.  Deleting takes exactly the listed IDs that could be removed, and each ID asked for is reported.\<close>
theorem share_refines:
  assumes "share_reach jsize (ShareUp s (xs @ (inc, True) # ys))" "\<not> in_done inc"
  shows "shared_files (set_view env owner v s) = shared_files s
    \<and> shared_files (snd (begin_share env random name sz s)) = shared_files s
    \<and> shared_files (snd (copy_share es inc' s)) = shared_files s
    \<and> shared_files (snd (abort_share env inc' s)) = shared_files s
    \<and> (case commit_share env t source inc s of
         (Inr r, _, s') \<Rightarrow> unseen r = received_record t source inc \<and> shared_files s (in_id inc) = None
           \<and> (\<exists>bytes. map_of (incoming_files s) (in_id inc) = Some bytes \<and> int (length bytes) = in_size inc
                \<and> shared_files s' = (shared_files s)(in_id inc \<mapsto> (received_record t source inc, bytes)))
       | (Inl _, _, s') \<Rightarrow> shared_files s' = shared_files s)
    \<and> (case delete_shares env ids s of (res, s') \<Rightarrow>
         shared_files s' = shared_files s |` (- (set (de_deleted res) \<union> emptied (se_fs env) (de_failed res)))
         \<and> set ids = set (de_deleted res) \<union> set (de_gone res) \<union> set (de_failed res)
         \<and> rd_id ` set (ss_records s') = rd_id ` set (ss_records s) - set (de_deleted res))"
proof -
  have ok: "store_ok s" "live_ok s (xs @ (inc, True) # ys)" using share_reach_ok [OF assms(1)] by simp_all
  then have "incoming_ok (incoming_files s) (inc, True)" using assms(2) unfolding live_ok_middle by simp
  then have i: "map_of (incoming_files s) (in_id inc) = Some b \<Longrightarrow> int (length b) = in_size inc" for b by (auto simp: incoming_ok_def)
  obtain r inc1 s1 where c: "commit_share env t source inc s = (r, inc1, s1)" by (metis prod_cases3)
  have "case commit_share env t source inc s of
         (Inr r, _, s') \<Rightarrow> unseen r = received_record t source inc \<and> shared_files s (in_id inc) = None
           \<and> (\<exists>bytes. map_of (incoming_files s) (in_id inc) = Some bytes \<and> int (length bytes) = in_size inc
                \<and> shared_files s' = (shared_files s)(in_id inc \<mapsto> (received_record t source inc, bytes)))
       | (Inl _, _, s') \<Rightarrow> shared_files s' = shared_files s"
    using commit_files [OF c ok(1)] i unfolding c by (cases r) auto
  moreover have "case delete_shares env ids s of (res, s') \<Rightarrow>
         shared_files s' = shared_files s |` (- (set (de_deleted res) \<union> emptied (se_fs env) (de_failed res)))
         \<and> set ids = set (de_deleted res) \<union> set (de_gone res) \<union> set (de_failed res)
         \<and> rd_id ` set (ss_records s') = rd_id ` set (ss_records s) - set (de_deleted res)"
    using delete_files [of env ids s] ok(1) by (auto simp: deletes_def store_ok_def split: prod.split)
  ultimately show ?thesis by (intro conjI set_view_files begin_files copy_files abort_files)
qed

lemma share_refines_witness:
  "shared_files shared_sample_shared = (shared_files shared_sample_copied)(shared_sample_id \<mapsto> (received_record 7 None shared_sample_incoming, ''abc''))"
proof -
  have "share_reach (\<lambda>_. 0) (ShareUp shared_sample_copied ([] @ (shared_sample_incoming, True) # []))" "\<not> in_done shared_sample_incoming"
    using shared_sample_reach_copied by (simp_all add: shared_sample_incoming_def)
  from share_refines [OF this, of no_faults 0 None "[]" "[]" 0 "[]" shared_sample_incoming 7 None "[]"]
  show ?thesis by (simp add: shared_sample_commit [folded shared_sample_copied_def]) (simp add: shared_sample_copied_def shared_sample_incoming_def)
qed

end
