(* ===== verification/ShareReopen.thy ===== *)
theory ShareReopen
  imports ShareClaims
begin

text \<open>
  What the next start finds in the folder of shared files.
\<close>

section \<open>Calls that work\<close>

lemma valid_entries_iff:
  "valid_entries seen rs \<longleftrightarrow> distinct (map rd_id rs) \<and> set seen \<inter> rd_id ` set rs = {}
     \<and> list_all (\<lambda>r. valid_share_id (rd_id r) \<and> rd_name r = safe_share_name (rd_name r) \<and> 0 \<le> rd_size r) rs"
  by (induction rs arbitrary: seen) (auto simp: not_less)

lemma kept_name_safe:
  assumes "record_ok r" "rd_name r \<noteq> marker_name"
  shows "safe_share_name (rd_name r) = rd_name r"
proof -
  obtain n where n: "rd_name r = safe_share_name n" using assms(1) by (auto simp: record_ok_def)
  obtain rs where "safe_share_name n = encode_runes rs" "rs \<noteq> []" using safe_share_name_runes by blast
  then have "rd_name r \<noteq> []" using n by simp
  then have "rd_name r \<notin> set reserved_names" using assms by (simp add: reserved_names_def record_ok_def)
  then show ?thesis using safe_share_name_again [of n] n by simp
qed

lemma read_index_works:
  assumes "index_ok d" "list_all (\<lambda>r. rd_name r \<noteq> marker_name) (index_records d)" "jsize (index_of (index_records d)) \<le> max_index_bytes"
  shows "read_index jsize (\<lambda>_. False) d = Inr (index_records d)"
proof (cases "dk_file d")
  case None
  then show ?thesis by (simp add: read_index_def open_private_regular_def index_records_def)
next
  case (Some f)
  then obtain ix where f: "dk_file d = Some (new_file, ix)" and ix: "ix_version ix = 1" "records_ok (ix_files ix)"
    using assms(1) by (auto simp: index_ok_def split: prod.splits)
  have r: "index_records d = ix_files ix" by (simp add: index_records_def f)
  then have "index_of (index_records d) = ix" using ix(1) by (cases ix) (simp add: index_of_def)
  moreover have "valid_entries [] (ix_files ix)"
    using ix(2) assms(2) kept_name_safe unfolding valid_entries_iff r by (auto simp: records_ok_def list_all_iff record_ok_def)
  moreover have "open_private_regular (\<lambda>_. False) d = Inr ix" by (simp add: open_private_regular_def f) (simp add: new_file_def)
  ultimately show ?thesis using assms(3) ix(1) by (simp add: read_index_def r)
qed

lemma remove_all_works: "remove_all (\<lambda>_. False) i F = (True, snd (remove_all (\<lambda>_. False) i F))"
  by (simp add: remove_all_def split: option.split)

lemma clear_unlisted_works: "clear_unlisted (\<lambda>_. False) known ns F = (True, snd (clear_unlisted (\<lambda>_. False) known ns F))"
proof (induction ns arbitrary: F)
  case (Cons n ns)
  show ?case
  proof (cases "valid_share_id n \<and> n \<notin> known")
    case True
    have "clear_unlisted (\<lambda>_. False) known (n # ns) F = clear_unlisted (\<lambda>_. False) known ns (snd (remove_all (\<lambda>_. False) n F))"
      using True remove_all_works [of n F] by (cases "remove_all (\<lambda>_. False) n F") simp
    then show ?thesis using Cons.IH [of "snd (remove_all (\<lambda>_. False) n F)"] by simp
  next
    case False
    then have "clear_unlisted (\<lambda>_. False) known (n # ns) F = clear_unlisted (\<lambda>_. False) known ns F" by (simp only: clear_unlisted.simps if_False)
    then show ?thesis using Cons.IH [of F] by simp
  qed
qed simp

lemma write_index_works: "\<exists>s'. write_index (\<lambda>_. False) s = (Inr (), s')"
  by (simp add: write_index_def shares_write_index_def replace_via_temp_def first_fault_def)

lemma finish_load_works: "\<exists>s d'. finish_load (\<lambda>_. False) limit tot records kept d = (Inr s, d')"
  using write_index_works [of "new_share_store d limit tot kept"] by (auto simp: finish_load_def Let_def)

lemma settle_load_works: "\<exists>s d'. settle_load no_faults limit tot records d = (Inr s, d')"
proof -
  obtain k F where kp: "keep_present (\<lambda>_. False) records (sd_folders d) = (k, F)" by (meson surj_pair)
  obtain F' where cu: "clear_unlisted (\<lambda>_. False) (rd_id ` set k) (map fst F) F = (True, F')"
    using clear_unlisted_works [of "rd_id ` set k" "map fst F" F] by blast
  show ?thesis unfolding settle_load_def Let_def no_faults_def using finish_load_works by (simp add: kp cu)
qed

lemma open_works:
  assumes "is_abs dir" "pred_option private_dir_info (dk_dir (sd_index d))" "dk_dir (sd_index d) \<noteq> None" "\<not> sd_locked d"
    "read_index jsize (\<lambda>_. False) (sd_index d) = Inr records"
  shows "\<exists>s d'. open_share_store jsize no_faults dir limit tot d = (Inr s, d')
    \<and> load_share jsize no_faults limit tot (d\<lparr>sd_locked := True\<rparr>) = (Inr s, d')"
proof -
  have e: "ensure_private_directory (\<lambda>_. False) True (sd_index d) = (Inr (), sd_index d)"
    using assms(2,3) by (auto simp: ensure_private_directory_def)
  obtain s d' where l: "load_share jsize no_faults limit tot (d\<lparr>sd_locked := True\<rparr>) = (Inr s, d')"
    using settle_load_works [of limit tot records "d\<lparr>sd_locked := True, sd_incoming := Some []\<rparr>"] assms(5)
    by (auto simp: load_share_def no_faults_def)
  have "open_share_store jsize no_faults dir limit tot d = (Inr s, d')"
    using assms(1,4) e l by (simp add: open_share_store_def no_faults_def)
  then show ?thesis using l by blast
qed

section \<open>What is found\<close>

lemma find_id: "distinct (map rd_id rs) \<Longrightarrow> q \<in> set rs \<Longrightarrow> find (\<lambda>r. rd_id r = rd_id q) rs = Some q"
  by (induction rs) auto

lemma find_append_id: "i \<in> rd_id ` set rs \<longleftrightarrow> find (\<lambda>r. rd_id r = i) rs \<noteq> None"
  by (induction rs) auto

lemma present_open: "present fs F r \<longleftrightarrow> backed F r \<and> open_shared fs F r \<noteq> None"
  by (auto simp: present_def open_shared_def backed_def split: option.splits if_splits)

lemma backed_unseen: "unseen q = unseen r \<Longrightarrow> backed F q = backed F r \<and> open_shared fs F q = open_shared fs F r"
proof -
  assume "unseen q = unseen r"
  then have "rd_id q = rd_id r" "rd_name q = rd_name r" "rd_size q = rd_size r" by (metis unseen_simps(1), metis unseen_simps(2), metis unseen_simps(3))
  then show ?thesis by (simp only: backed_def open_shared_def)
qed

text \<open>The folders of a freshly loaded store: those of the listed files, as they were.\<close>
lemma load_folders:
  assumes "load_share jsize env limit tot d = (Inr s, d')" "records_ok (index_records (sd_index d))"
  shows "r \<in> set (ss_records s) \<Longrightarrow> map_of (sd_folders (ss_disk s)) (rd_id r) = map_of (sd_folders d) (rd_id r)"
    and "valid_share_id i \<Longrightarrow> map_of (sd_folders (ss_disk s)) i \<noteq> None \<Longrightarrow> i \<in> rd_id ` set (ss_records s)"
proof -
  let ?fs = "se_fs env" and ?rs = "index_records (sd_index d)"
  obtain F where p: "keep_present ?fs ?rs (sd_folders d) = (ss_records s, F)"
    "clear_unlisted ?fs (rd_id ` set (ss_records s)) (map fst F) F = (True, sd_folders (ss_disk s))"
    "ss_records s = filter (present ?fs (sd_folders d)) ?rs"
    using load_ok_parts [OF assms] by blast
  note c = clear_unlisted_spec [OF p(2)]
  show "map_of (sd_folders (ss_disk s)) (rd_id r) = map_of (sd_folders d) (rd_id r)" if r: "r \<in> set (ss_records s)"
  proof -
    have r': "r \<in> set ?rs" "present ?fs (sd_folders d) r" using r unfolding p(3) by simp_all
    have "\<forall>q \<in> set ?rs. rd_id q = rd_id r \<longrightarrow> present ?fs (sd_folders d) q"
      using r' assms(2) by (auto simp: records_ok_def distinct_map inj_on_def)
    then have "map_of F (rd_id r) = map_of (sd_folders d) (rd_id r)" using keep_present_spec [OF p(1)] assms(2) by (simp add: records_ok_def)
    then show ?thesis using c r by simp
  qed
  show "i \<in> rd_id ` set (ss_records s)" if i: "valid_share_id i" "map_of (sd_folders (ss_disk s)) i \<noteq> None"
  proof (rule ccontr)
    assume n: "i \<notin> rd_id ` set (ss_records s)"
    have "map_of F i \<noteq> None" using c i(2) by (metis empty_iff insert_iff)
    then have "i \<in> set (map fst F)" by (metis list.set_map map_of_eq_None_iff)
    then have "map_of (sd_folders (ss_disk s)) i = None" using c [THEN conjunct2, THEN conjunct2] n i(1) by blast
    then show False using i(2) by contradiction
  qed
qed

text \<open>What a freshly loaded store shows, when the calls of the start work.\<close>
lemma load_shown:
  assumes "load_share jsize no_faults limit tot d = (Inr s, d')" "records_ok (index_records (sd_index d))"
  shows "ss_records s = filter (present (\<lambda>_. False) (sd_folders d)) (index_records (sd_index d))"
    and "q \<in> set (ss_records s) \<Longrightarrow> open_shared (\<lambda>_. False) (sd_folders d) q = Some b \<Longrightarrow> shared_files s (rd_id q) = Some (unseen q, b)"
    and "dom (shared_files s) = rd_id ` set (ss_records s)"
proof -
  show rec: "ss_records s = filter (present (\<lambda>_. False) (sd_folders d)) (index_records (sd_index d))"
    using load_ok_parts [OF assms] by (auto simp: no_faults_def)
  have dist: "distinct (map rd_id (ss_records s))" using assms(2) unfolding rec records_ok_def by (simp add: distinct_map_filter)
  show shown: "shared_files s (rd_id q) = Some (unseen q, b)"
    if q: "q \<in> set (ss_records s)" and b: "open_shared (\<lambda>_. False) (sd_folders d) q = Some b" for q b
  proof -
    have "open_shared (\<lambda>_. False) (sd_folders (ss_disk s)) q = Some b" using load_folders(1) [OF assms q] b open_shared_cong by metis
    then show ?thesis by (simp add: shared_files_def open_share_def find_id [OF dist q])
  qed
  show "dom (shared_files s) = rd_id ` set (ss_records s)"
  proof (intro equalityI subsetI)
    fix i assume "i \<in> dom (shared_files s)"
    then show "i \<in> rd_id ` set (ss_records s)" using shared_files_unlisted [of i s] by (cases "i \<in> rd_id ` set (ss_records s)") auto
  next
    fix i assume "i \<in> rd_id ` set (ss_records s)"
    then obtain q where q: "q \<in> set (ss_records s)" "i = rd_id q" by blast
    then have "present (\<lambda>_. False) (sd_folders d) q" unfolding rec by simp
    then obtain b where "open_shared (\<lambda>_. False) (sd_folders d) q = Some b" unfolding present_open by blast
    then show "i \<in> dom (shared_files s)" using shown q by blast
  qed
qed

lemma load_left:
  assumes "load_share jsize no_faults limit tot d = (Inr s, d')" "records_ok (index_records (sd_index d))"
  shows "{i. valid_share_id i \<and> map_of (sd_folders (ss_disk s)) i \<noteq> None} = rd_id ` set (ss_records s)"
    and "{i. map_of (sd_folders d) i = None} \<inter> rd_id ` set (ss_records s) = {}"
    and "incoming_files s = []"
proof -
  note rec = load_shown(1) [OF assms]
  have listed: "map_of (sd_folders d) (rd_id q) \<noteq> None" if "q \<in> set (ss_records s)" for q
    using that backed_listed [OF present_backed] unfolding rec by (metis (mono_tags, lifting) mem_Collect_eq set_filter)
  show "{i. valid_share_id i \<and> map_of (sd_folders (ss_disk s)) i \<noteq> None} = rd_id ` set (ss_records s)"
  proof (intro equalityI subsetI)
    fix i assume "i \<in> {i. valid_share_id i \<and> map_of (sd_folders (ss_disk s)) i \<noteq> None}"
    then show "i \<in> rd_id ` set (ss_records s)" using load_folders(2) [OF assms] by blast
  next
    fix i assume "i \<in> rd_id ` set (ss_records s)"
    then obtain q where q: "q \<in> set (ss_records s)" "i = rd_id q" by blast
    have "valid_share_id i" using q assms(2) unfolding rec by (auto simp: records_ok_def list_all_iff record_ok_def)
    then show "i \<in> {i. valid_share_id i \<and> map_of (sd_folders (ss_disk s)) i \<noteq> None}"
      using load_folders(1) [OF assms q(1)] listed [OF q(1)] q(2) by simp
  qed
  show "{i. map_of (sd_folders d) i = None} \<inter> rd_id ` set (ss_records s) = {}" using listed by blast
  have "sd_incoming (ss_disk s) = Some []" using load_ok_parts [OF assms] by blast
  then show "incoming_files s = []" by (simp add: incoming_files_def)
qed

text \<open>A file in memory is in the index, possibly as not seen.\<close>
lemma indexed_file:
  assumes "store_ok s" "shared_files s i = Some x"
  shows "\<exists>q b. q \<in> set (index_records (sd_index (ss_disk s))) \<and> rd_id q = i \<and> x = (unseen q, b)
    \<and> present (\<lambda>_. False) (sd_folders (ss_disk s)) q \<and> open_shared (\<lambda>_. False) (sd_folders (ss_disk s)) q = Some b"
proof -
  let ?F = "sd_folders (ss_disk s)"
  obtain r b where f: "find (\<lambda>r. rd_id r = i) (ss_records s) = Some r" "open_shared (\<lambda>_. False) ?F r = Some b" "x = (unseen r, b)"
    using assms(2) by (auto simp: shared_files_def open_share_def split: option.splits)
  have r: "r \<in> set (ss_records s)" "rd_id r = i" using find_in [OF f(1)] by auto
  have "unseen r \<in> unseen ` set (index_records (sd_index (ss_disk s)))" using assms(1) r(1) unfolding store_ok_def covered_def by blast
  then obtain q where q: "q \<in> set (index_records (sd_index (ss_disk s)))" "unseen q = unseen r" by (metis imageE)
  have "backed ?F r" using assms(1) r(1) by (simp add: store_ok_def core_ok_def list_all_iff)
  then have "present (\<lambda>_. False) ?F q \<and> open_shared (\<lambda>_. False) ?F q = Some b" using backed_unseen [OF q(2)] f(2) by (auto simp: present_open)
  moreover have "rd_id q = i" using q(2) r(2) by (metis unseen_simps(1))
  ultimately show ?thesis using q f(3) by metis
qed



section \<open>A name that stops the next start\<close>

lemma encode_ascii: "list_all (\<lambda>c. byte c < 128) t \<Longrightarrow> encode_runes (map byte t) = t"
  by (induction t) (simp_all add: encode_runes_Cons encode_rune_ascii encode_runes_append(2))

definition marker_runes :: "nat list" where "marker_runes = map byte marker_name"

lemma marker_runes_ok:
  "encode_runes marker_runes = marker_name" "list_all scalar_value marker_runes" "list_all base_rune marker_runes" "trimmed marker_runes"
    "marker_runes \<noteq> []" "\<not> is_space (hd marker_runes)" "\<not> is_space (last marker_runes)"
proof -
  show "encode_runes marker_runes = marker_name" unfolding marker_runes_def by (rule encode_ascii) (simp add: marker_name_def)
  have m: "marker_runes = [46, 115, 104, 101, 112, 104, 101, 114, 100, 114, 45, 117, 112, 108, 111, 97, 100]"
    by (simp add: marker_runes_def marker_name_def)
  show "list_all scalar_value marker_runes" by (simp add: m scalar_value_def)
  show "list_all base_rune marker_runes"
    by (simp add: m base_rune_def unsafe_path_rune_def is_control_def is_format_def cf_ranges_def shell_character_def shell_characters_def)
  show "marker_runes \<noteq> []" "\<not> is_space (hd marker_runes)" "\<not> is_space (last marker_runes)" by (simp_all add: m is_space_def)
  then show "trimmed marker_runes" by (simp add: trimmed_def)
qed

lemma safe_share_name_marker: "safe_share_name marker_name = ''file''"
proof -
  have "safe_basename marker_name = ''file''" using safe_basename_clean [OF marker_runes_ok(2-4)] by (simp add: marker_runes_ok(1) reserved_names_def)
  then show ?thesis by (simp add: safe_share_name_def max_name_bytes_def)
qed

text \<open>A name that is the marker of uploads followed by 200 spaces and a letter is not the marker, but cut it becomes the
  marker.\<close>
definition marker_cut :: string where "marker_cut = marker_name @ replicate 200 (CHR '' '') @ ''b''"

lemma space_runes: "base_rune 32" "scalar_value 32" "is_space 32" "encode_rune 32 = '' ''"
proof -
  have "chr 32 = CHR '' ''" by code_simp
  then show "encode_rune 32 = '' ''" by (simp add: encode_rune_ascii)
qed (simp_all add: base_rune_def unsafe_path_rune_def is_control_def is_format_def cf_ranges_def shell_character_def shell_characters_def
      scalar_value_def is_space_def)

lemma encode_spaces: "encode_runes (replicate n 32) = replicate n (CHR '' '')"
  by (induction n) (simp_all add: encode_runes_Cons space_runes(4) encode_runes_append(2))

lemma b_rune: "base_rune 98" "scalar_value 98" "\<not> is_space 98" "encode_rune 98 = ''b''"
proof -
  have "chr 98 = CHR ''b''" by code_simp
  then show "encode_rune 98 = ''b''" by (simp add: encode_rune_ascii)
qed (simp_all add: base_rune_def unsafe_path_rune_def is_control_def is_format_def cf_ranges_def shell_character_def shell_characters_def
      scalar_value_def is_space_def)

lemma marker_cut_runes: "marker_cut = encode_runes (marker_runes @ replicate 200 32 @ [98])"
  by (simp only: encode_runes_append encode_runes_Cons encode_spaces marker_runes_ok(1) b_rune(4) marker_cut_def append_Nil2)

lemma safe_basename_marker_cut: "safe_basename marker_cut = marker_cut"
proof -
  have "length marker_cut = 218" by (simp add: marker_cut_def marker_name_def)
  moreover have "length n < 218" if "n \<in> set reserved_names" for n using that by (auto simp: reserved_names_def marker_name_def)
  ultimately have "marker_cut \<notin> set reserved_names" by force
  moreover have "list_all base_rune (replicate 200 32)" "list_all scalar_value (replicate 200 32)" using space_runes by (simp_all add: list_all_iff)
  then have "list_all base_rune (marker_runes @ replicate 200 32 @ [98])" "list_all scalar_value (marker_runes @ replicate 200 32 @ [98])"
    using marker_runes_ok b_rune by (simp_all del: replicate_Suc)
  moreover have "trimmed (marker_runes @ replicate 200 32 @ [98])" using marker_runes_ok b_rune(3) by (simp add: trimmed_def)
  ultimately show ?thesis using safe_basename_clean [of "marker_runes @ replicate 200 32 @ [98]"] by (simp only: marker_cut_runes if_False)
qed

lemma path_ext_marker_cut: "length (path_ext marker_cut) > 16"
proof -
  have "takeWhile (\<lambda>c. c \<noteq> CHR ''/'') (rev marker_cut) = rev marker_cut"
    unfolding takeWhile_eq_all_conv by (simp add: marker_cut_def marker_name_def)
  then have p: "after_last_slash marker_cut = marker_cut" by (simp only: after_last_slash_def rev_rev_ident)
  have "CHR ''.'' \<in> set marker_cut" by (simp add: marker_cut_def marker_name_def)
  then obtain i where i: "last_index (CHR ''.'') marker_cut = Some i" using last_index_None by (metis not_None_eq)
  note l = last_index_Some [OF i]
  define rest where "rest = ''shepherdr-upload'' @ replicate 200 (CHR '' '') @ ''b''"
  have m: "marker_cut = CHR ''.'' # rest" by (simp add: marker_cut_def marker_name_def rest_def)
  have "i = 0"
  proof (cases i)
    case (Suc k)
    have "marker_cut ! Suc k = CHR ''.''" "Suc k < length marker_cut" using l Suc by blast+
    then have "rest ! k = CHR ''.''" "k < length rest" unfolding m by simp_all
    then have "CHR ''.'' \<in> set rest" by (metis nth_mem)
    then show ?thesis by (simp add: rest_def)
  qed
  then have "path_ext marker_cut = marker_cut" by (simp add: path_ext_def p i)
  then show ?thesis by (simp add: marker_cut_def marker_name_def)
qed

lemma safe_share_name_marker_cut: "safe_share_name marker_cut = marker_name"
proof -
  have len: "length marker_cut = 218" by (simp add: marker_cut_def marker_name_def)
  have s: "marker_cut = (marker_name @ replicate 183 (CHR '' '')) @ replicate 17 (CHR '' '') @ ''b''"
    using replicate_add [of 183 17 "CHR '' ''"] by (simp add: marker_cut_def)
  have "marker_cut ! 200 = CHR '' ''" unfolding s by (simp add: nth_append marker_name_def)
  then have cb: "cut_back marker_cut 200 = 200"
  proof -
    assume n: "marker_cut ! 200 = CHR '' ''"
    have "200 = Suc 199" by simp
    then show ?thesis using n cut_back.simps(2) [of marker_cut 199] by (simp add: rune_start_def is_cont_def)
  qed
  have tk: "take 200 marker_cut = encode_runes (marker_runes @ replicate 183 32)"
    unfolding s encode_runes_append marker_runes_ok(1) encode_spaces by (simp add: marker_name_def)
  have "dropWhile is_space (replicate 183 32 @ rev marker_runes) = rev marker_runes"
  proof -
    have "dropWhile is_space (replicate n 32 @ xs) = dropWhile is_space xs" for n and xs :: "nat list" using space_runes(3) by (induction n) simp_all
    then show ?thesis using marker_runes_ok(5,7) by (simp only:) (rule dropWhile_hd, simp_all add: hd_rev)
  qed
  then have "trim_runes (marker_runes @ replicate 183 32) = marker_runes"
    using marker_runes_ok(5,6) by (simp add: trim_runes_def dropWhile_hd)
  moreover have "list_all scalar_value (replicate 183 32)" using space_runes by (simp add: list_all_iff)
  then have "list_all scalar_value (marker_runes @ replicate 183 32)" using marker_runes_ok(2) by (simp only: list_all_append simp_thms)
  ultimately have "trim_space (take 200 marker_cut) = marker_name" unfolding tk by (simp only: trim_space_encode_eq marker_runes_ok(1))
  then show ?thesis using path_ext_marker_cut len cb by (simp add: safe_share_name_def safe_basename_marker_cut max_name_bytes_def)
qed

lemma index_refused:
  assumes "dk_file d = Some (new_file, index_of rs)" "r \<in> set rs" "rd_name r = marker_name"
  shows "\<exists>e. read_index jsize io d = Inl e"
proof -
  have "safe_share_name marker_name \<noteq> marker_name" using safe_share_name_marker by (simp add: marker_name_def)
  then have "\<not> valid_entries [] rs" using assms(2,3) by (force simp: valid_entries_iff list_all_iff)
  then show ?thesis using assms(1) by (auto simp: read_index_def open_private_regular_def index_of_def split: sum.split io_error.split)
qed

definition marker_store :: share_store where
  "marker_store = shared_sample_start\<lparr>ss_records := [shared_sample_record\<lparr>rd_name := marker_name, rd_size := 0\<rparr>],
     ss_disk := shared_sample_disk\<lparr>sd_index := \<lparr>dk_dir = Some new_dir,
         dk_file = Some (new_file, index_of [shared_sample_record\<lparr>rd_name := marker_name, rd_size := 0\<rparr>]), dk_temps = 0\<rparr>,
       sd_folders := [(shared_sample_id, new_folder marker_name [])]\<rparr>\<rparr>"

lemma marker_commit:
  "begin_share no_faults (replicate 16 (chr 0)) marker_cut 0 shared_sample_start
    = (Inr (shared_sample_incoming\<lparr>in_name := marker_name, in_size := 0\<rparr>), set_incoming [(shared_sample_id, [])] shared_sample_start)"
  "copy_share [] (shared_sample_incoming\<lparr>in_name := marker_name, in_size := 0\<rparr>) (set_incoming [(shared_sample_id, [])] shared_sample_start)
    = (Copied, set_incoming [(shared_sample_id, [])] shared_sample_start)"
  "commit_share no_faults 7 None (shared_sample_incoming\<lparr>in_name := marker_name, in_size := 0\<rparr>) (set_incoming [(shared_sample_id, [])] shared_sample_start)
    = (Inr (shared_sample_record\<lparr>rd_name := marker_name, rd_size := 0\<rparr>),
       shared_sample_incoming\<lparr>in_name := marker_name, in_size := 0, in_open := False, in_done := True\<rparr>, marker_store)"
proof -
  show "begin_share no_faults (replicate 16 (chr 0)) marker_cut 0 shared_sample_start
    = (Inr (shared_sample_incoming\<lparr>in_name := marker_name, in_size := 0\<rparr>), set_incoming [(shared_sample_id, [])] shared_sample_start)"
    unfolding begin_share_def Let_def shared_sample_id_def [symmetric]
    by (simp add: safe_share_name_marker_cut no_faults_def shared_sample_start_def new_share_store_def shared_sample_disk_def shared_sample_limit_def allows_def
        incoming_files_def shared_sample_incoming_def set_incoming_def)
  show "copy_share [] (shared_sample_incoming\<lparr>in_name := marker_name, in_size := 0\<rparr>) (set_incoming [(shared_sample_id, [])] shared_sample_start)
    = (Copied, set_incoming [(shared_sample_id, [])] shared_sample_start)"
    by (simp add: copy_share_def shared_sample_incoming_def set_incoming_def incoming_files_def)
  show "commit_share no_faults 7 None (shared_sample_incoming\<lparr>in_name := marker_name, in_size := 0\<rparr>) (set_incoming [(shared_sample_id, [])] shared_sample_start)
    = (Inr (shared_sample_record\<lparr>rd_name := marker_name, rd_size := 0\<rparr>),
       shared_sample_incoming\<lparr>in_name := marker_name, in_size := 0, in_open := False, in_done := True\<rparr>, marker_store)"
    by (simp add: commit_share_def no_faults_def shared_sample_incoming_def shared_sample_start_def new_share_store_def shared_sample_disk_def set_incoming_def
        incoming_files_def list_share_def write_index_def shares_write_index_def replace_via_temp_def first_fault_def notify_shares_def
        set_folders_def shared_sample_record_def marker_store_def Let_def) (simp add: marker_name_def)
qed

text \<open>One file of that name, shared without any fault, and no later start opens the store.\<close>
lemma marker_stops_start:
  "(\<exists>l. share_reach jsize (ShareUp marker_store l))
   \<and> (\<exists>e. fst (open_share_store jsize env dir limit tot (unlock_share (ss_disk marker_store))) = Inl e)"
proof
  have 1: "share_reach jsize (ShareUp shared_sample_start [])" using shared_sample_open by (metis share_reach.fresh share_reach.step start_ok)
  let ?i = "shared_sample_incoming\<lparr>in_name := marker_name, in_size := 0\<rparr>"
  have 2: "share_reach jsize (ShareUp (set_incoming [(shared_sample_id, [])] shared_sample_start) [(?i, False)])"
    using share_reach.step [OF 1] begin_ok [OF marker_commit(1)] by simp
  have n: "\<not> in_done ?i" by (simp add: shared_sample_incoming_def)
  then have 3: "share_reach jsize (ShareUp (set_incoming [(shared_sample_id, [])] shared_sample_start) [(?i, True)])"
    using share_reach.step [OF 2] share_step.copy [OF marker_commit(2), where xs = "[]" and ys = "[]"] by simp
  show "\<exists>l. share_reach jsize (ShareUp marker_store l)"
    using share_reach.step [OF 3] share_step.commit [OF marker_commit(3) n, where xs = "[]" and ys = "[]"] unfolding append_Nil by blast
  obtain r ixd where e: "ensure_private_directory (se_io env) True (sd_index (unlock_share (ss_disk marker_store))) = (r, ixd)" by (meson surj_pair)
  have "dk_file ixd = Some (new_file, index_of [shared_sample_record\<lparr>rd_name := marker_name, rd_size := 0\<rparr>])"
    using ensure_private_directory_file [OF e] by (simp add: unlock_share_def marker_store_def)
  from index_refused [OF this, where r = "shared_sample_record\<lparr>rd_name := marker_name, rd_size := 0\<rparr>"]
  obtain e2 where "read_index jsize (se_io env) ixd = Inl e2" by auto
  then show "\<exists>e. fst (open_share_store jsize env dir limit tot (unlock_share (ss_disk marker_store))) = Inl e"
    using e by (cases r) (simp_all add: open_share_store_def load_share_def Let_def)
qed

end
