(* ===== verification/ShareService.thy ===== *)
theory ShareService
  imports ShareReopen
begin

text \<open>
  The service that receives shared files on its socket, \<open>internal/shares/service.go\<close>: where a file comes from, and
  one connection.  What the kernel says of processes (\<open>processFacts\<close>) and what the Herdrs answer (\<open>Lookup\<close>) are
  parameters; a process may change between two questions, so the questions are numbered.
\<close>

section \<open>Where a file comes from\<close>

record tui_claim =
  tc_socket :: string
  tc_pane :: string

record core_claim =
  cc_socket :: string
  cc_terminal :: string

record share_claim =
  cl_tui :: "tui_claim option"
  cl_core :: "core_claim option"

record share_terminal =
  tm_pid :: int
  tm_pane :: string
  tm_terminal :: string
  tm_place :: string
  tm_tab :: string
  tm_agent :: string

text \<open>An answer is an error, not found, or the terminal.\<close>
type_synonym share_lookup = "string \<Rightarrow> share_terminal option option"

record share_herdrs =
  hd_tui_socket :: string
  hd_tui :: "share_lookup option"
  hd_core_socket :: string
  hd_core :: "share_lookup option"

text \<open>The parent and the start time of a process, at the n-th question.\<close>
type_synonym process_facts = "nat \<Rightarrow> int \<Rightarrow> (int \<times> nat) option"

record candidate =
  ca_herdr :: string
  ca_socket :: string
  ca_followed :: string
  ca_id :: string
  ca_lookup :: "share_lookup option"

definition claim_candidates :: "share_herdrs \<Rightarrow> share_claim \<Rightarrow> candidate list" where
  "claim_candidates h c =
     (case cl_tui c of None \<Rightarrow> []
      | Some t \<Rightarrow> [\<lparr>ca_herdr = ''tui'', ca_socket = tc_socket t, ca_followed = hd_tui_socket h, ca_id = tc_pane t, ca_lookup = hd_tui h\<rparr>])
     @ (case cl_core c of None \<Rightarrow> []
      | Some t \<Rightarrow> [\<lparr>ca_herdr = ''core'', ca_socket = cc_socket t, ca_followed = hd_core_socket h, ca_id = cc_terminal t,
                    ca_lookup = hd_core h\<rparr>])"

text \<open>\<open>descendant\<close>, with its bound of 256 steps, and the number of the next question.\<close>
fun descendant :: "process_facts \<Rightarrow> nat \<Rightarrow> nat \<Rightarrow> int \<Rightarrow> int \<Rightarrow> bool \<times> nat" where
  "descendant facts 0 n pid anc = (False, n)"
| "descendant facts (Suc k) n pid anc =
     (if pid \<le> 1 then (False, n)
      else if pid = anc then (True, n)
      else case facts n pid of None \<Rightarrow> (False, Suc n)
      | Some (parent, _) \<Rightarrow> if parent = pid then (False, Suc n) else descendant facts k (Suc n) parent anc)"

definition max_parents :: nat where "max_parents = 256"

definition usable_candidate :: "candidate \<Rightarrow> bool" where
  "usable_candidate c \<longleftrightarrow>
     \<not> (ca_lookup c = None \<or> ca_followed c = [] \<or> ca_id c = [] \<or> \<not> is_abs (ca_socket c)
        \<or> path_clean (ca_socket c) \<noteq> path_clean (ca_followed c))"

text \<open>One turn of the loop of \<open>Attribute\<close>.\<close>
definition check_candidate :: "process_facts \<Rightarrow> int \<Rightarrow> candidate \<Rightarrow> nat \<Rightarrow> share_source option \<times> nat" where
  "check_candidate facts peer c n =
     (if \<not> usable_candidate c then (None, n)
      else case the (ca_lookup c) (ca_id c) of
        None \<Rightarrow> (None, n)
      | Some None \<Rightarrow> (None, n)
      | Some (Some t) \<Rightarrow>
        if tm_pid t \<le> 1 then (None, n)
        else case facts n (tm_pid t) of None \<Rightarrow> (None, Suc n)
        | Some (_, start) \<Rightarrow>
          (case descendant facts max_parents (Suc n) peer (tm_pid t) of
             (False, n1) \<Rightarrow> (None, n1)
           | (True, n1) \<Rightarrow>
             (case facts n1 (tm_pid t) of None \<Rightarrow> (None, Suc n1)
              | Some (_, again) \<Rightarrow>
                if again \<noteq> start then (None, Suc n1)
                else (Some \<lparr>sr_herdr = ca_herdr c, sr_pane = tm_pane t, sr_terminal = tm_terminal t, sr_pid = tm_pid t,
                            sr_start = start, sr_place = tm_place t, sr_tab = tm_tab t, sr_agent = tm_agent t\<rparr>, Suc n1))))"

fun attribute_loop :: "process_facts \<Rightarrow> int \<Rightarrow> candidate list \<Rightarrow> nat \<Rightarrow> share_source option \<times> nat" where
  "attribute_loop facts peer [] n = (None, n)"
| "attribute_loop facts peer (c # cs) n =
     (case check_candidate facts peer c n of
        (Some s, n1) \<Rightarrow> (Some s, n1)
      | (None, n1) \<Rightarrow> attribute_loop facts peer cs n1)"

definition share_attribute :: "share_herdrs \<Rightarrow> process_facts \<Rightarrow> int \<Rightarrow> share_claim \<Rightarrow> nat \<Rightarrow> share_source option \<times> nat" where
  "share_attribute h facts peer c n = attribute_loop facts peer (claim_candidates h c) n"

text \<open>\<open>Running\<close>.\<close>
definition share_running :: "process_facts \<Rightarrow> nat \<Rightarrow> share_source \<Rightarrow> bool" where
  "share_running facts n s \<longleftrightarrow> (case facts n (sr_pid s) of None \<Rightarrow> False | Some (_, start) \<Rightarrow> start = sr_start s)"

text \<open>The parents the kernel named, one question after the other, lead from one process to another.\<close>
fun leads :: "process_facts \<Rightarrow> nat \<Rightarrow> int \<Rightarrow> nat \<Rightarrow> int \<Rightarrow> bool" where
  "leads facts 0 pid n anc \<longleftrightarrow> pid = anc"
| "leads facts (Suc k) pid n anc \<longleftrightarrow> pid > 1 \<and> (\<exists>parent start. facts n pid = Some (parent, start) \<and> leads facts k parent (Suc n) anc)"

lemma descendant_leads:
  "descendant facts k n pid anc = (True, n') \<Longrightarrow> \<exists>j < k. leads facts j pid n anc \<and> n' = n + j"
proof (induction k arbitrary: n pid)
  case (Suc k)
  show ?case
  proof (cases "pid = anc")
    case True
    then show ?thesis using Suc.prems by (intro exI [of _ 0]) (auto split: if_splits)
  next
    case False
    then obtain parent start where f: "pid > 1" "facts n pid = Some (parent, start)" "descendant facts k (Suc n) parent anc = (True, n')"
      using Suc.prems by (auto split: if_splits option.splits)
    from Suc.IH [OF f(3)] obtain j where "j < k" "leads facts j parent (Suc n) anc" "n' = Suc n + j" by blast
    then show ?thesis using f by (intro exI [of _ "Suc j"]) auto
  qed
qed simp

text \<open>What a source was checked against.\<close>
definition source_checked :: "share_herdrs \<Rightarrow> share_claim \<Rightarrow> process_facts \<Rightarrow> int \<Rightarrow> nat \<Rightarrow> share_source \<Rightarrow> bool" where
  "source_checked h c facts peer n s \<longleftrightarrow>
     (\<exists>ca t m j.
        ca \<in> set (claim_candidates h c) \<and> usable_candidate ca \<and> ca_herdr ca = sr_herdr s
        \<and> the (ca_lookup ca) (ca_id ca) = Some (Some t)
        \<and> tm_pid t = sr_pid s \<and> tm_pane t = sr_pane s \<and> tm_terminal t = sr_terminal s
        \<and> n \<le> m \<and> share_running facts m s
        \<and> leads facts j peer (Suc m) (sr_pid s) \<and> j < max_parents
        \<and> share_running facts (Suc m + j) s)"

lemma check_candidate_sound:
  assumes "check_candidate facts peer ca n = (Some s, n')"
  shows "usable_candidate ca \<and> ca_herdr ca = sr_herdr s
    \<and> (\<exists>t j. the (ca_lookup ca) (ca_id ca) = Some (Some t) \<and> tm_pid t = sr_pid s \<and> tm_pane t = sr_pane s \<and> tm_terminal t = sr_terminal s
        \<and> share_running facts n s \<and> leads facts j peer (Suc n) (sr_pid s) \<and> j < max_parents \<and> share_running facts (Suc n + j) s)"
proof -
  have u: "usable_candidate ca" using assms by (auto simp: check_candidate_def split: if_splits)
  obtain t where t: "the (ca_lookup ca) (ca_id ca) = Some (Some t)" using assms u by (auto simp: check_candidate_def split: if_splits option.splits)
  obtain p start where f: "facts n (tm_pid t) = Some (p, start)" using assms u t by (auto simp: check_candidate_def split: if_splits option.splits)
  obtain n1 where d: "descendant facts max_parents (Suc n) peer (tm_pid t) = (True, n1)"
    using assms u t f by (auto simp: check_candidate_def split: if_splits prod.splits bool.splits)
  obtain p2 where f2: "facts n1 (tm_pid t) = Some (p2, start)"
    and s: "s = \<lparr>sr_herdr = ca_herdr ca, sr_pane = tm_pane t, sr_terminal = tm_terminal t, sr_pid = tm_pid t,
                            sr_start = start, sr_place = tm_place t, sr_tab = tm_tab t, sr_agent = tm_agent t\<rparr>"
    using assms u t f d by (auto simp: check_candidate_def split: if_splits option.splits)
  obtain j where j: "j < max_parents" "leads facts j peer (Suc n) (tm_pid t)" "n1 = Suc n + j" using descendant_leads [OF d] by blast
  have "share_running facts n s" "share_running facts (Suc n + j) s" using f f2 j(3) by (simp_all add: share_running_def s)
  then show ?thesis using u t j by (auto simp: s)
qed

lemma check_candidate_later: "check_candidate facts peer ca n = (r, n') \<Longrightarrow> n \<le> n'"
proof -
  have d: "descendant facts k n pid anc = (b, n') \<Longrightarrow> n \<le> n'" for k n pid anc b n'
    by (induction k arbitrary: n pid) (auto split: if_splits option.splits, meson Suc_leD)
  show "check_candidate facts peer ca n = (r, n') \<Longrightarrow> n \<le> n'"
    by (auto simp: check_candidate_def split: if_splits option.splits prod.splits bool.splits dest!: d)
qed

lemma attribute_loop_sound:
  "attribute_loop facts peer cs n = (Some s, n') \<Longrightarrow> \<exists>ca \<in> set cs. \<exists>m m'. n \<le> m \<and> check_candidate facts peer ca m = (Some s, m')"
proof (induction cs arbitrary: n)
  case (Cons c cs)
  obtain r n1 where ch: "check_candidate facts peer c n = (r, n1)" by (meson surj_pair)
  show ?case
  proof (cases r)
    case None
    then have "attribute_loop facts peer cs n1 = (Some s, n')" using Cons.prems ch by simp
    then show ?thesis using Cons.IH [of n1] check_candidate_later [OF ch] by (meson le_trans list.set_intros(2))
  next
    case (Some x)
    then have "check_candidate facts peer c n = (Some s, n1)" using Cons.prems ch by simp
    then show ?thesis by auto
  qed
qed simp

text \<open>C34.  A file is attributed to a terminal only after a full check: the claim names the socket of a Herdr that is followed, that
  Herdr knows the terminal, the parents of the connecting process lead to the terminal's process in fewer than 256
  steps, and the terminal's process had the same start time before and after those parents were read.\<close>
theorem attribute_sound:
  assumes "share_attribute h facts peer c n = (Some s, n')"
  shows "source_checked h c facts peer n s"
proof -
  obtain ca m m' where ca: "ca \<in> set (claim_candidates h c)" "n \<le> m" "check_candidate facts peer ca m = (Some s, m')"
    using attribute_loop_sound assms unfolding share_attribute_def by blast
  then show ?thesis using check_candidate_sound [OF ca(3)] unfolding source_checked_def by blast
qed

text \<open>A terminal's shell 40 with a command 41, which shares.\<close>
lemma attribute_sound_witness:
  "source_checked
     \<lparr>hd_tui_socket = ''/h.sock'',
       hd_tui = Some (\<lambda>_. Some (Some \<lparr>tm_pid = 40, tm_pane = ''p'', tm_terminal = ''t'', tm_place = ''w'', tm_tab = [], tm_agent = []\<rparr>)),
       hd_core_socket = [], hd_core = None\<rparr>
     \<lparr>cl_tui = Some \<lparr>tc_socket = ''/h.sock'', tc_pane = ''p''\<rparr>, cl_core = None\<rparr>
     (\<lambda>_ pid. if pid = 41 then Some (40, 9) else if pid = 40 then Some (1, 5) else None) 41 0
     \<lparr>sr_herdr = ''tui'', sr_pane = ''p'', sr_terminal = ''t'', sr_pid = 40, sr_start = 5, sr_place = ''w'', sr_tab = [], sr_agent = []\<rparr>"
proof (rule attribute_sound)
  let ?f = "\<lambda>_ pid. if pid = 41 then Some (40, 9) else if pid = 40 then Some (1, 5) else None"
  have "descendant ?f (Suc (Suc m)) (Suc 0) 41 40 = (True, 2)" for m by simp
  from this [of 254] have k: "descendant ?f max_parents (Suc 0) 41 40 = (True, 2)" by (simp add: max_parents_def)
  show "share_attribute
     \<lparr>hd_tui_socket = ''/h.sock'',
       hd_tui = Some (\<lambda>_. Some (Some \<lparr>tm_pid = 40, tm_pane = ''p'', tm_terminal = ''t'', tm_place = ''w'', tm_tab = [], tm_agent = []\<rparr>)),
       hd_core_socket = [], hd_core = None\<rparr>
     (\<lambda>_ pid. if pid = 41 then Some (40, 9) else if pid = 40 then Some (1, 5) else None) 41
     \<lparr>cl_tui = Some \<lparr>tc_socket = ''/h.sock'', tc_pane = ''p''\<rparr>, cl_core = None\<rparr> 0
     = (Some \<lparr>sr_herdr = ''tui'', sr_pane = ''p'', sr_terminal = ''t'', sr_pid = 40, sr_start = 5, sr_place = ''w'', sr_tab = [], sr_agent = []\<rparr>, 3)"
    by (simp add: share_attribute_def claim_candidates_def check_candidate_def usable_candidate_def is_abs_def k)
qed

section \<open>One connection\<close>

text \<open>One turn of the loop of \<open>handle\<close>: the header, when it can be read; whether the answers are taken; the bytes; the calls
  that fail; what \<open>rand.Read\<close> gives; the time of the commit.\<close>
record share_turn =
  tu_header :: "(string \<times> int) option"
  tu_ready :: bool
  tu_events :: "copy_event list"
  tu_answered :: bool
  tu_env :: share_env
  tu_random :: string
  tu_time :: int

datatype share_reply = Refused share_error | Ready | Stored share_record | NotKept

text \<open>A copy the bytes of which have not all arrived ends with an error when the connection does.\<close>
definition copy_ended :: "copy_result \<Rightarrow> bool" where "copy_ended r \<longleftrightarrow> (case r of Copied \<Rightarrow> True | _ \<Rightarrow> False)"

definition share_turn_step :: "share_source option \<Rightarrow> share_turn \<Rightarrow> share_store \<Rightarrow> bool \<times> share_reply list \<times> share_record list \<times> share_store" where
  "share_turn_step source t s =
     (case tu_header t of None \<Rightarrow> (False, [], [], s)
      | Some (name, sz) \<Rightarrow>
        (case begin_share (tu_env t) (tu_random t) name sz s of
           (Inl e, s1) \<Rightarrow> (tu_ready t, [Refused e], [], s1)
         | (Inr inc, s1) \<Rightarrow>
           if \<not> tu_ready t then (False, [], [], snd (abort_share (tu_env t) inc s1))
           else (case copy_share (tu_events t) inc s1 of (r, s2) \<Rightarrow>
             if \<not> copy_ended r then (False, [Ready], [], snd (abort_share (tu_env t) inc s2))
             else (case commit_share (tu_env t) (tu_time t) source inc s2 of
                (Inl e, _, s3) \<Rightarrow> (False, [Ready, NotKept], [], s3)
              | (Inr rec, _, s3) \<Rightarrow> (tu_answered t, [Ready, Stored rec], [rec], s3)))))"

fun handle_share :: "share_source option \<Rightarrow> share_turn list \<Rightarrow> share_store \<Rightarrow> share_reply list \<times> share_record list \<times> share_store" where
  "handle_share source [] s = ([], [], s)"
| "handle_share source (t # ts) s =
     (case share_turn_step source t s of (go, replies, stored, s1) \<Rightarrow>
        if \<not> go then (replies, stored, s1)
        else (case handle_share source ts s1 of (r2, st2, s2) \<Rightarrow> (replies @ r2, stored @ st2, s2)))"

definition turn_ok :: "share_turn \<Rightarrow> bool" where
  "turn_ok t \<longleftrightarrow> length (tu_random t) = 16 \<and> (case tu_header t of None \<Rightarrow> True | Some (_, sz) \<Rightarrow> reads_fit (tu_events t) sz)"

lemma abort_done: "abort_share env inc s = (inc', s') \<Longrightarrow> in_done inc'"
  by (auto simp: abort_share_def release_share_def Let_def split: if_splits)

lemma commit_done: "commit_share env t source inc s = (r, inc', s') \<Longrightarrow> in_done inc'"
  using commit_cases [of env t source inc s r inc' s'] abort_done by auto

lemma live_done: "in_done inc \<Longrightarrow> live_ok s ((inc, c) # l) = live_ok s l"
  by (simp add: live_ok_def)

lemma aborted_turn:
  assumes "store_ok s" "live_ok s ((inc, c) # l)"
  shows "store_ok (snd (abort_share env inc s)) \<and> live_ok (snd (abort_share env inc s)) l"
proof -
  obtain inc' s' where a: "abort_share env inc s = (inc', s')" by (meson surj_pair)
  show ?thesis using abort_ok [OF a assms(1), of "[]" c l] assms(2) live_done [OF abort_done [OF a]] by (simp add: a)
qed

lemma share_turn_ok:
  assumes "turn_ok t" "store_ok s" "live_ok s l" "share_turn_step source t s = (go, replies, stored, s')"
  shows "store_ok s' \<and> live_ok s' l"
proof (cases "tu_header t")
  case None
  then show ?thesis using assms by (simp add: share_turn_step_def)
next
  case (Some h)
  obtain name sz where h: "tu_header t = Some (name, sz)" using Some by (cases h) simp
  obtain b s1 where b: "begin_share (tu_env t) (tu_random t) name sz s = (b, s1)" by (meson surj_pair)
  show ?thesis
  proof (cases b)
    case (Inl e)
    then have "s1 = s" using b by (intro begin_error_same) simp
    then show ?thesis using assms Inl h b by (simp add: share_turn_step_def)
  next
    case (Inr inc)
    then have b': "begin_share (tu_env t) (tu_random t) name sz s = (Inr inc, s1)" using b by simp
    have 1: "store_ok s1" "live_ok s1 ((inc, False) # l)" using begin_ok_ok [OF b' _ assms(2,3)] assms(1) by (simp_all add: turn_ok_def)
    have inc: "in_size inc = sz" "\<not> in_done inc" using begin_ok_parts [OF b'] by simp_all
    obtain r s2 where c: "copy_share (tu_events t) inc s1 = (r, s2)" by (meson surj_pair)
    have 2: "store_ok s2" "live_ok s2 ((inc, r = Copied) # l)"
      using copy_ok [OF c _ inc(2) 1(1), of "[]" l] 1(2) assms(1) inc(1) h by (simp_all add: turn_ok_def)
    obtain q inc' s3 where k: "commit_share (tu_env t) (tu_time t) source inc s2 = (q, inc', s3)" by (metis prod_cases3)
    have e: "copy_ended r \<longleftrightarrow> r = Copied" by (cases r) (simp_all add: copy_ended_def)
    have 3: "store_ok s3 \<and> live_ok s3 l" if "copy_ended r"
      using commit_ok [OF k inc(2) 2(1), of "[]" l] 2(2) that e live_done [OF commit_done [OF k]] by simp
    have "s' = (if \<not> tu_ready t then snd (abort_share (tu_env t) inc s1) else if \<not> copy_ended r then snd (abort_share (tu_env t) inc s2) else s3)"
      using assms(4) by (auto simp: share_turn_step_def h b' c k split: if_splits sum.splits)
    then show ?thesis using aborted_turn [OF 1] aborted_turn [OF 2] 3 by simp
  qed
qed

text \<open>A connection, however it ends, leaves the store sound and nothing of its own unfinished or reserved.\<close>
lemma handle_share_ok:
  assumes "list_all turn_ok ts" "store_ok s" "live_ok s l" "handle_share source ts s = (replies, stored, s')"
  shows "store_ok s' \<and> live_ok s' l"
  using assms
proof (induction ts arbitrary: s replies stored s')
  case (Cons t ts)
  obtain go r st s1 where st: "share_turn_step source t s = (go, r, st, s1)" by (metis prod_cases4)
  have 1: "store_ok s1 \<and> live_ok s1 l" using share_turn_ok [OF _ Cons.prems(2,3) st] Cons.prems(1) by simp
  obtain r2 st2 s2 where h: "handle_share source ts s1 = (r2, st2, s2)" by (metis prod_cases3)
  have "s' = (if go then s2 else s1)" using Cons.prems(4) by (auto simp: st h split: if_splits)
  then show ?case using 1 Cons.IH [OF _ _ _ h] Cons.prems(1) by (cases go) simp_all
qed simp


text \<open>The start of \<open>handle\<close>: only a process of the same user is served, after its first line was read.\<close>
definition serve_share :: "share_herdrs option \<Rightarrow> process_facts \<Rightarrow> int \<Rightarrow> (int \<times> int) option \<Rightarrow> share_claim option \<Rightarrow> share_turn list
    \<Rightarrow> share_store \<Rightarrow> share_reply list \<times> share_record list \<times> share_store" where
  "serve_share herdrs facts own peer op ts s =
     (case peer of None \<Rightarrow> ([], [], s)
      | Some (pid, uid) \<Rightarrow>
        if uid \<noteq> own then ([], [], s)
        else (case op of None \<Rightarrow> ([], [], s)
          | Some claim \<Rightarrow>
            handle_share (case herdrs of None \<Rightarrow> None | Some h \<Rightarrow> fst (share_attribute h facts pid claim 0)) ts s))"

lemma serve_share_ok:
  assumes "list_all turn_ok ts" "share_reach jsize (ShareUp s l)" "serve_share herdrs facts own peer op ts s = (replies, stored, s')"
  shows "store_ok s' \<and> live_ok s' l"
proof -
  have "store_ok s \<and> live_ok s l" using share_reach_ok [OF assms(2)] by simp
  moreover have "s' = s \<or> (\<exists>source. handle_share source ts s = (replies, stored, s'))"
    using assms(3) unfolding serve_share_def
    by (cases peer; cases op) (simp_all split: prod.splits if_split_asm, metis+)
  ultimately show ?thesis using handle_share_ok [OF assms(1)] by metis
qed

lemma serve_share_stranger: "uid \<noteq> own \<Longrightarrow> serve_share herdrs facts own (Some (pid, uid)) op ts s = ([], [], s)"
  by (simp add: serve_share_def)

end
