(* ===== verification/Projector.thy ===== *)
theory Projector
  imports HerdrProject CoreProject GoPath "HOL-Library.AList"
begin

text \<open>
  The projectors, \<open>internal/herdr/projector.go\<close>, \<open>core_projector.go\<close> and \<open>core_repositories.go\<close>: the state Shepherdr
  publishes, its listeners, and the two loops that keep it current.

  A loop is a step function of its phase and of what the Herdr answers next: a read, a subscription or the loss of
  one.  What only wakes a loop (events, refreshes, timers) is not an input: any next answer may follow.  The texts
  of errors and the answers of the app window are parameters.  The gap is a \<open>nat\<close>: a \<open>uint64\<close> that counts
  connections does not wrap.
\<close>

section \<open>The published state\<close>

datatype connection = ConnectionReconnecting | ConnectionLive | ConnectionNotRunning | ConnectionIncompatible

record 'h pstate =
  ps_connection :: connection
  ps_detail :: string
  ps_gap :: nat
  ps_has_home :: bool
  ps_version :: string
  ps_home :: 'h
  ps_last_known :: bool
  ps_snapshot :: snapshot

definition empty_snapshot :: snapshot where
  "empty_snapshot = \<lparr>sn_agents = [], sn_focused_pane = [], sn_focused_tab = [], sn_focused_workspace = [], sn_layouts = [], sn_panes = [],
     sn_protocol = 0, sn_tabs = [], sn_version = [], sn_workspaces = []\<rparr>"

text \<open>A projector: its state, its listeners, each a channel that holds one state or none, and what the two observers were
  told, oldest first.\<close>
record 'h projector =
  pr_state :: "'h pstate"
  pr_listeners :: "(nat \<times> 'h pstate option) list"
  pr_observed :: "(snapshot \<times> bool) list"
  pr_published :: "(snapshot \<times> bool) list"
  pr_refresh :: bool

definition new_projector :: "'h \<Rightarrow> connection \<Rightarrow> 'h projector" where
  "new_projector home0 c =
     \<lparr>pr_state = \<lparr>ps_connection = c, ps_detail = [], ps_gap = 0, ps_has_home = False, ps_version = [], ps_home = home0,
        ps_last_known = False, ps_snapshot = empty_snapshot\<rparr>,
      pr_listeners = [], pr_observed = [], pr_published = [], pr_refresh = False\<rparr>"

definition same_published :: "'h pstate \<Rightarrow> 'h pstate \<Rightarrow> bool" where
  "same_published l r \<longleftrightarrow>
     ps_connection l = ps_connection r \<and> ps_detail l = ps_detail r \<and> ps_gap l = ps_gap r \<and> ps_has_home l = ps_has_home r
     \<and> ps_version l = ps_version r \<and> ps_last_known l = ps_last_known r \<and> ps_home l = ps_home r"

text \<open>\<open>publishLocked\<close>: a full channel is emptied first, so the send never waits.\<close>
definition publish_locked :: "'h pstate \<Rightarrow> 'h projector \<Rightarrow> 'h projector" where
  "publish_locked st p =
     (let p1 = p\<lparr>pr_state := st\<rparr> in
      if same_published (pr_state p) st then p1
      else p1\<lparr>pr_listeners := map (\<lambda>(n, _). (n, Some st)) (pr_listeners p1)\<rparr>)"

definition subscribe_states :: "nat \<Rightarrow> 'h projector \<Rightarrow> 'h projector" where
  "subscribe_states n p = p\<lparr>pr_listeners := AList.update n (Some (pr_state p)) (pr_listeners p)\<rparr>"

definition unsubscribe_states :: "nat \<Rightarrow> 'h projector \<Rightarrow> 'h projector" where
  "unsubscribe_states n p = p\<lparr>pr_listeners := AList.delete n (pr_listeners p)\<rparr>"

definition request_refresh :: "'h projector \<Rightarrow> 'h projector" where
  "request_refresh p = p\<lparr>pr_refresh := True\<rparr>"

definition mark_gap :: "'h projector \<Rightarrow> 'h projector" where
  "mark_gap p =
     (let st = pr_state p in
      publish_locked (st\<lparr>ps_connection := ConnectionReconnecting, ps_detail := [], ps_gap := Suc (ps_gap st),
        ps_last_known := ps_has_home st\<rparr>) p)"

definition publish_error :: "(herdr_error \<Rightarrow> string) \<Rightarrow> herdr_error \<Rightarrow> 'h projector \<Rightarrow> 'h projector" where
  "publish_error etext e p =
     (let st = pr_state p;
          st1 = (if ps_connection st = ConnectionLive then st\<lparr>ps_gap := Suc (ps_gap st)\<rparr> else st);
          st2 = st1\<lparr>ps_last_known := ps_has_home st1\<rparr>
      in publish_locked
           (if e = NotRunning then st2\<lparr>ps_connection := ConnectionNotRunning, ps_detail := []\<rparr>
            else st2\<lparr>ps_connection := ConnectionIncompatible, ps_detail := etext e\<rparr>) p)"

definition observe_to :: "snapshot \<Rightarrow> bool \<Rightarrow> 'h projector \<Rightarrow> 'h projector" where
  "observe_to sn baseline p = p\<lparr>pr_observed := pr_observed p @ [(sn, baseline)]\<rparr>"

definition publish_home :: "snapshot \<Rightarrow> 'h \<Rightarrow> bool \<Rightarrow> 'h projector \<Rightarrow> 'h projector" where
  "publish_home sn home baseline p =
     (let p1 = observe_to sn baseline p; st = pr_state p1;
          p2 = publish_locked (st\<lparr>ps_connection := ConnectionLive, ps_detail := [], ps_has_home := True, ps_version := sn_version sn,
                 ps_home := home, ps_last_known := False, ps_snapshot := sn\<rparr>) p1
      in p2\<lparr>pr_published := pr_published p2 @ [(sn, baseline)]\<rparr>)"

text \<open>\<open>publishLiveObserved\<close>; \<open>prj\<close> is \<open>Project\<close>.\<close>
definition publish_live_observed ::
  "(herdr_error \<Rightarrow> string) \<Rightarrow> (snapshot \<Rightarrow> herdr_error + 'h) \<Rightarrow> snapshot \<Rightarrow> bool \<Rightarrow> 'h projector \<Rightarrow> bool \<times> 'h projector" where
  "publish_live_observed etext prj sn baseline p =
     (case prj sn of Inl e \<Rightarrow> (False, publish_error etext e p) | Inr home \<Rightarrow> (True, publish_home sn home baseline p))"

section \<open>Following the Herdr TUI\<close>

definition subscription_covers :: "snapshot \<Rightarrow> snapshot \<Rightarrow> bool" where
  "subscription_covers subscribed sn \<longleftrightarrow> list_all (\<lambda>p. pi_id p \<in> pi_id ` set (sn_panes subscribed)) (sn_panes sn)"

definition semantic_event :: "string \<Rightarrow> bool" where
  "semantic_event e \<longleftrightarrow> e \<in> set
     [''workspace_created'', ''workspace_updated'', ''workspace_metadata_updated'', ''workspace_renamed'', ''workspace_moved'',
      ''workspace_reordered'', ''workspace_closed'', ''workspace_focused'', ''worktree_created'', ''worktree_opened'', ''worktree_removed'',
      ''tab_created'', ''tab_closed'', ''tab_renamed'', ''tab_moved'', ''tab_focused'', ''pane_created'', ''pane_closed'', ''pane_updated'',
      ''pane_moved'', ''pane_exited'', ''pane_agent_detected'', ''pane_focused'', ''pane.agent_status_changed'', ''layout_updated'']"

text \<open>Where \<open>Run\<close> and \<open>followSubscription\<close> stand: a first read is needed, a subscription for a read, or the subscription is
  followed.  The flag is \<open>baseline\<close>, which
  \<open>Run\<close> only ever sets: outside a subscription it is true.\<close>
datatype tui_phase = NeedBasis | NeedSubscription snapshot | Following snapshot bool

text \<open>What happens next: an answer to a read or a subscription, an event, or the loss of the
  subscription.  An event that is not expected loses it as well.\<close>
datatype tui_input = TuiRead "herdr_error + snapshot" | TuiSubscribe "herdr_error option" | TuiEvent string | TuiLost

definition tui_step ::
  "(herdr_error \<Rightarrow> string) \<Rightarrow> (snapshot \<Rightarrow> herdr_error + 'h) \<Rightarrow> tui_phase \<Rightarrow> tui_input \<Rightarrow> 'h projector
   \<Rightarrow> (tui_phase \<times> 'h projector) option" where
  "tui_step etext prj ph inp p =
     (case (ph, inp) of
        (NeedBasis, TuiRead (Inl e)) \<Rightarrow> Some (NeedBasis, publish_error etext e p)
      | (NeedBasis, TuiRead (Inr sn)) \<Rightarrow> Some (NeedSubscription sn, p)
      | (NeedSubscription basis, TuiSubscribe (Some e)) \<Rightarrow> Some (NeedBasis, publish_error etext e p)
      | (NeedSubscription basis, TuiSubscribe None) \<Rightarrow> Some (Following basis True, p)
      | (Following basis b, TuiLost) \<Rightarrow> Some (NeedBasis, mark_gap p)
      | (Following basis b, TuiEvent ev) \<Rightarrow> if semantic_event ev then Some (Following basis b, p) else Some (NeedBasis, mark_gap p)
      | (Following basis b, TuiRead (Inl e)) \<Rightarrow> Some (NeedBasis, publish_error etext e (p\<lparr>pr_refresh := False\<rparr>))
      | (Following basis b, TuiRead (Inr sn)) \<Rightarrow>
          if \<not> subscription_covers basis sn
          then Some (NeedSubscription sn, observe_to sn b (p\<lparr>pr_refresh := False\<rparr>))
          else (case publish_live_observed etext prj sn b (p\<lparr>pr_refresh := False\<rparr>) of
                  (ok, p1) \<Rightarrow> Some (Following basis (\<not> ok), p1))
      | _ \<Rightarrow> None)"

section \<open>The app's window and the folders of repositories\<close>

text \<open>The window of the Herdr app: its answers change the state, and \<open>opened\<close> is when it last became open.\<close>
record window_watch =
  ww_state :: app_window
  ww_opened :: time

definition window_changed :: "time \<Rightarrow> bool \<Rightarrow> window_watch \<Rightarrow> bool \<times> window_watch" where
  "window_changed now open w =
     (let st = (if open then AppWindowOpen else AppWindowClosed) in
      if st = ww_state w then (False, w)
      else (True, w\<lparr>ww_state := st, ww_opened := (if open then now else ww_opened w)\<rparr>))"

text \<open>The folders of repositories of \<open>core_repositories.go\<close>: what is used, known, being checked and wanted.\<close>
record repository_folders =
  rf_used :: "string set"
  rf_known :: "string \<rightharpoonup> string"
  rf_checking :: "string set"
  rf_wanted :: "string set"

definition new_repository_folders :: repository_folders where
  "new_repository_folders = \<lparr>rf_used = {}, rf_known = Map.empty, rf_checking = {}, rf_wanted = {}\<rparr>"

definition repository_lookup :: "string \<Rightarrow> repository_folders \<Rightarrow> string \<times> repository_folders" where
  "repository_lookup f r = ((case rf_known r f of None \<Rightarrow> [] | Some v \<Rightarrow> v), r\<lparr>rf_used := insert f (rf_used r)\<rparr>)"

definition repository_settle :: "repository_folders \<Rightarrow> repository_folders" where
  "repository_settle r =
     (let known = rf_known r |` rf_used r in
      r\<lparr>rf_wanted := rf_used r, rf_used := {}, rf_known := known,
        rf_checking := rf_checking r \<union> (rf_used r - dom known)\<rparr>)"

text \<open>The end of a check of \<open>f\<close>; the flag says that Home is asked to publish again.\<close>
definition repository_checked :: "string \<Rightarrow> string \<Rightarrow> repository_folders \<Rightarrow> bool \<times> repository_folders" where
  "repository_checked f v r =
     (let r1 = r\<lparr>rf_checking := rf_checking r - {f}\<rparr> in
      if f \<in> rf_wanted r then (True, r1\<lparr>rf_known := (rf_known r)(f \<mapsto> v)\<rparr>) else (False, r1))"

text \<open>\<open>repositoryFolder\<close>: from the folder itself upwards, its elements innermost first.  \<open>lstat\<close> says whether a path exists and is
  a folder, \<open>stat\<close> whether it exists, and \<open>eval\<close> resolves links to a clean absolute path.\<close>
definition folder_path :: "string list \<Rightarrow> string" where
  "folder_path es = CHR ''/'' # join_slash (rev es)"

fun repository_above :: "(string \<Rightarrow> bool option) \<Rightarrow> (string \<Rightarrow> bool) \<Rightarrow> string list \<Rightarrow> string" where
  "repository_above lstat stat es =
     (case lstat (folder_path (''.git'' # es)) of
        Some d \<Rightarrow> if \<not> d then [] else if \<not> stat (folder_path (''HEAD'' # ''.git'' # es)) then [] else folder_path es
      | None \<Rightarrow> (case es of [] \<Rightarrow> [] | e # es' \<Rightarrow> repository_above lstat stat es'))"

declare repository_above.simps [simp del]

definition repository_folder :: "(string \<Rightarrow> bool option) \<Rightarrow> (string \<Rightarrow> bool) \<Rightarrow> (string \<Rightarrow> string option) \<Rightarrow> string \<Rightarrow> string" where
  "repository_folder lstat stat eval folder =
     (if \<not> is_abs folder then []
      else case eval folder of None \<Rightarrow> []
        | Some p \<Rightarrow> repository_above lstat stat (rev (filter (\<lambda>e. e \<noteq> []) (split_on (CHR ''/'') p))))"

text \<open>A folder that is found is the nearest one upwards with a \<open>.git\<close> entry, which is a folder with a head.\<close>
lemma repository_above_nearest:
  "repository_above lstat stat es \<noteq> [] \<Longrightarrow>
     \<exists>k. repository_above lstat stat es = folder_path (drop k es) \<and> lstat (folder_path (''.git'' # drop k es)) = Some True
       \<and> stat (folder_path (''HEAD'' # ''.git'' # drop k es)) \<and> (\<forall>j<k. lstat (folder_path (''.git'' # drop j es)) = None)"
proof (induction es)
  case Nil
  then show ?case by (intro exI [of _ 0]) (auto simp: repository_above.simps split: option.splits if_splits)
next
  case (Cons e es)
  show ?case
  proof (cases "lstat (folder_path (''.git'' # e # es))")
    case None
    then have r: "repository_above lstat stat (e # es) = repository_above lstat stat es" by (simp add: repository_above.simps)
    with Cons obtain k where k: "repository_above lstat stat es = folder_path (drop k es)"
      "lstat (folder_path (''.git'' # drop k es)) = Some True" "stat (folder_path (''HEAD'' # ''.git'' # drop k es))"
      "\<forall>j<k. lstat (folder_path (''.git'' # drop j es)) = None" by auto
    have "\<forall>j<Suc k. lstat (folder_path (''.git'' # drop j (e # es))) = None" using k(4) None by (auto simp: less_Suc_eq_0_disj)
    then show ?thesis using r k by (intro exI [of _ "Suc k"]) simp
  next
    case (Some d)
    then have "d \<and> stat (folder_path (''HEAD'' # ''.git'' # e # es)) \<and> repository_above lstat stat (e # es) = folder_path (e # es)"
      using Cons.prems by (simp add: repository_above.simps split: if_splits)
    then show ?thesis using Some by (intro exI [of _ 0]) simp
  qed
qed

section \<open>Following herdr-core\<close>

datatype core_phase = CoreSubscribe | CoreFollowing bool

text \<open>What happens next: an answer to a subscription or a read, the loss of the subscription, an answer of the window that the
  loop takes, or the end of a check of a folder.\<close>
datatype core_input =
    CoreSubscribed "herdr_error option"
  | CoreRead "herdr_error + core_read"
  | CoreLost
  | WindowAnswer time bool
  | FolderChecked string string

record core_world =
  cw_proj :: "home projector"
  cw_window :: window_watch
  cw_repos :: repository_folders

definition new_core_world :: "home \<Rightarrow> core_world" where
  "new_core_world home0 =
     \<lparr>cw_proj = new_projector home0 ConnectionReconnecting, cw_window = \<lparr>ww_state = AppWindowUnpaired, ww_opened = 0\<rparr>,
      cw_repos = new_repository_folders\<rparr>"

text \<open>The folders the projection looks up: those of the spaces Home shows, on this machine.\<close>
definition core_folders :: "core_read \<Rightarrow> string list" where
  "core_folders r =
     (case parse_app_document (cr_document r) of Inl e \<Rightarrow> []
      | Inr spaces0 \<Rightarrow>
        (case collect_live (cr_terminals r) [] of Inl e \<Rightarrow> []
         | Inr live \<Rightarrow>
           (case check_spaces spaces0 [] [] of Inl e \<Rightarrow> []
            | Inr placed0 \<Rightarrow>
              let before = (if cr_window r = AppWindowOpen \<and> cr_opened r \<noteq> 0 then unix_milli (cr_opened r) else 0);
                  w = place_waiting spaces0 live placed0 before
              in map aps_folder (filter (\<lambda>s. live_tabs live (wp_placed w) s \<noteq> [] \<and> \<not> aps_machine s) (wp_spaces w)))))"

definition look_up_all :: "string list \<Rightarrow> repository_folders \<Rightarrow> repository_folders" where
  "look_up_all fs r = foldl (\<lambda>r f. snd (repository_lookup f r)) r fs"

text \<open>\<open>runCore\<close> and \<open>followCore\<close>; \<open>folder\<close> is the home folder.  A read gets the window's answer, and a check that ends asks
  for a read only through \<open>resolved\<close>, which is not an input of its own.\<close>
definition core_step ::
  "(herdr_error \<Rightarrow> string) \<Rightarrow> string \<Rightarrow> core_phase \<Rightarrow> core_input \<Rightarrow> core_world \<Rightarrow> (core_phase \<times> core_world) option" where
  "core_step etext folder ph inp w =
     (case inp of
        CoreSubscribed (Some e) \<Rightarrow> (if ph = CoreSubscribe then Some (CoreSubscribe, w\<lparr>cw_proj := publish_error etext e (cw_proj w)\<rparr>) else None)
      | CoreSubscribed None \<Rightarrow> (if ph = CoreSubscribe then Some (CoreFollowing True, w) else None)
      | CoreLost \<Rightarrow> (if ph = CoreSubscribe then None else Some (CoreSubscribe, w\<lparr>cw_proj := mark_gap (cw_proj w)\<rparr>))
      | CoreRead answer \<Rightarrow>
          (case ph of CoreSubscribe \<Rightarrow> None
           | CoreFollowing b \<Rightarrow>
             let p = (cw_proj w)\<lparr>pr_refresh := False\<rparr> in
             case answer of Inl e \<Rightarrow> Some (CoreSubscribe, w\<lparr>cw_proj := publish_error etext e p\<rparr>)
             | Inr r0 \<Rightarrow>
               let r = r0\<lparr>cr_window := ww_state (cw_window w), cr_opened := ww_opened (cw_window w)\<rparr> in
               case project_core r folder (Some (\<lambda>f. fst (repository_lookup f (cw_repos w)))) of
                 Inl e \<Rightarrow> Some (CoreSubscribe, w\<lparr>cw_proj := publish_error etext e p\<rparr>)
               | Inr (sn, home) \<Rightarrow>
                   Some (CoreFollowing False, w\<lparr>cw_repos := repository_settle (look_up_all (core_folders r) (cw_repos w)),
                     cw_proj := publish_home sn home b p\<rparr>))
      | WindowAnswer now open \<Rightarrow>
          (if ph = CoreSubscribe then None else Some (ph, w\<lparr>cw_window := snd (window_changed now open (cw_window w))\<rparr>))
      | FolderChecked f v \<Rightarrow>
          (if f \<in> rf_checking (cw_repos w) then Some (ph, w\<lparr>cw_repos := snd (repository_checked f v (cw_repos w))\<rparr>) else None))"

section \<open>A projector at work\<close>

text \<open>The loop a projector runs: the one of the Herdr TUI, the one of herdr-core, or none.\<close>
datatype loop = TuiLoop tui_phase | CoreLoop core_phase | NoLoop

record watched =
  wd_loop :: loop
  wd_world :: core_world
  wd_seen :: "nat \<rightharpoonup> home pstate"

text \<open>A listener receives: its channel is empty afterwards.\<close>
definition take_state :: "nat \<Rightarrow> 'h projector \<Rightarrow> 'h projector" where
  "take_state n p = p\<lparr>pr_listeners := AList.update n None (pr_listeners p)\<rparr>"

abbreviation wd_proj :: "watched \<Rightarrow> home projector" where
  "wd_proj d \<equiv> cw_proj (wd_world d)"

abbreviation with_proj :: "home projector \<Rightarrow> watched \<Rightarrow> watched" where
  "with_proj p d \<equiv> d\<lparr>wd_world := (wd_world d)\<lparr>cw_proj := p\<rparr>\<rparr>"

definition start_watched :: "home \<Rightarrow> watched \<Rightarrow> bool" where
  "start_watched home0 d \<longleftrightarrow> wd_seen d = Map.empty \<and>
     (wd_loop d = TuiLoop NeedBasis \<and> wd_world d = new_core_world home0
      \<or> wd_loop d = CoreLoop CoreSubscribe \<and> wd_world d = new_core_world home0
      \<or> wd_loop d = NoLoop \<and> wd_world d = (new_core_world home0)\<lparr>cw_proj := new_projector home0 ConnectionNotRunning\<rparr>)"

inductive watch_step :: "(herdr_error \<Rightarrow> string) \<Rightarrow> semver \<Rightarrow> string \<Rightarrow> watched \<Rightarrow> watched \<Rightarrow> bool" for etext sv folder where
  tui: "wd_loop d = TuiLoop ph \<Longrightarrow> tui_step etext (project sv) ph inp (wd_proj d) = Some (ph', p)
    \<Longrightarrow> watch_step etext sv folder d (with_proj p d\<lparr>wd_loop := TuiLoop ph'\<rparr>)"
| core: "wd_loop d = CoreLoop ph \<Longrightarrow> core_step etext folder ph i (wd_world d) = Some (ph', w)
    \<Longrightarrow> watch_step etext sv folder d (d\<lparr>wd_loop := CoreLoop ph', wd_world := w\<rparr>)"
| refresh: "watch_step etext sv folder d (with_proj (request_refresh (wd_proj d)) d)"
| listen: "n \<notin> fst ` set (pr_listeners (wd_proj d))
    \<Longrightarrow> watch_step etext sv folder d (with_proj (subscribe_states n (wd_proj d)) d\<lparr>wd_seen := (wd_seen d)(n := None)\<rparr>)"
| receive: "map_of (pr_listeners (wd_proj d)) n = Some (Some st)
    \<Longrightarrow> watch_step etext sv folder d (with_proj (take_state n (wd_proj d)) d\<lparr>wd_seen := (wd_seen d)(n \<mapsto> st)\<rparr>)"
| leave: "watch_step etext sv folder d (with_proj (unsubscribe_states n (wd_proj d)) d)"

inductive_cases watch_stepE: "watch_step etext sv folder d d'"

end
