(* ===== verification/ProjectorFacts.thy ===== *)
theory ProjectorFacts
  imports Projector
begin

text \<open>
  Facts about the projectors: every listener ends with the current state, the gap separates times at which the Herdr was
  live, and a read is compared only with the read before it.
\<close>

section \<open>The gap\<close>

definition is_live :: "'h pstate \<Rightarrow> bool" where
  "is_live st \<longleftrightarrow> ps_connection st = ConnectionLive"

text \<open>What a change of the state may do: the gap never falls, and as long as it stays, a live Herdr stays live.\<close>
definition gap_ok :: "'h pstate \<Rightarrow> 'h pstate \<Rightarrow> bool" where
  "gap_ok a b \<longleftrightarrow> ps_gap a \<le> ps_gap b \<and> (is_live a \<and> ps_gap b = ps_gap a \<longrightarrow> is_live b)"

lemma gap_ok_refl [simp]: "gap_ok a a"
  by (simp add: gap_ok_def)

lemma gap_ok_trans: "gap_ok a b \<Longrightarrow> gap_ok b c \<Longrightarrow> gap_ok a c"
  by (auto simp: gap_ok_def)

text \<open>What the flags of a state say.\<close>
definition state_ok :: "'h pstate \<Rightarrow> bool" where
  "state_ok st \<longleftrightarrow> (ps_last_known st \<longleftrightarrow> ps_has_home st \<and> \<not> is_live st) \<and> (is_live st \<longrightarrow> ps_has_home st)"

lemma publish_locked_state [simp]: "pr_state (publish_locked st p) = st"
  by (simp add: publish_locked_def Let_def)

lemma publish_locked_kept [simp]:
  "pr_observed (publish_locked st p) = pr_observed p" "pr_published (publish_locked st p) = pr_published p"
  "pr_refresh (publish_locked st p) = pr_refresh p"
  by (simp_all add: publish_locked_def Let_def)

lemma mark_gap_state:
  "gap_ok (pr_state p) (pr_state (mark_gap p))" "state_ok (pr_state (mark_gap p))" "\<not> is_live (pr_state (mark_gap p))"
  "pr_observed (mark_gap p) = pr_observed p"
  by (auto simp: mark_gap_def Let_def gap_ok_def state_ok_def is_live_def)

lemma publish_error_state:
  "gap_ok (pr_state p) (pr_state (publish_error etext e p))" "state_ok (pr_state (publish_error etext e p))"
  "\<not> is_live (pr_state (publish_error etext e p))" "pr_observed (publish_error etext e p) = pr_observed p"
  by (auto simp: publish_error_def Let_def gap_ok_def state_ok_def is_live_def)

lemma publish_home_state:
  "gap_ok (pr_state p) (pr_state (publish_home sn home b p))" "state_ok (pr_state (publish_home sn home b p))"
  "is_live (pr_state (publish_home sn home b p))" "ps_snapshot (pr_state (publish_home sn home b p)) = sn"
  "ps_home (pr_state (publish_home sn home b p)) = home" "ps_gap (pr_state (publish_home sn home b p)) = ps_gap (pr_state p)"
  "pr_observed (publish_home sn home b p) = pr_observed p @ [(sn, b)]"
  "pr_published (publish_home sn home b p) = pr_published p @ [(sn, b)]"
  by (auto simp: publish_home_def observe_to_def Let_def gap_ok_def state_ok_def is_live_def)

lemma listener_ops_state [simp]:
  "pr_state (subscribe_states n p) = pr_state p" "pr_state (unsubscribe_states n p) = pr_state p"
  "pr_state (take_state n p) = pr_state p" "pr_state (request_refresh p) = pr_state p"
  "pr_observed (subscribe_states n p) = pr_observed p" "pr_observed (unsubscribe_states n p) = pr_observed p"
  "pr_observed (take_state n p) = pr_observed p" "pr_observed (request_refresh p) = pr_observed p"
  "pr_published (subscribe_states n p) = pr_published p" "pr_published (unsubscribe_states n p) = pr_published p"
  "pr_published (take_state n p) = pr_published p" "pr_published (request_refresh p) = pr_published p"
  by (simp_all add: subscribe_states_def unsubscribe_states_def take_state_def request_refresh_def)

section \<open>The listeners\<close>

lemma same_published_refl [simp]: "same_published a a"
  by (simp add: same_published_def)

lemma same_published_trans: "same_published a b \<Longrightarrow> same_published b c \<Longrightarrow> same_published a c"
  by (simp add: same_published_def)

text \<open>The newest state a listener has: the one in its channel, or the last one it received.\<close>
definition newest :: "(nat \<rightharpoonup> 'h pstate) \<Rightarrow> nat \<times> 'h pstate option \<Rightarrow> 'h pstate option" where
  "newest seen l = (case snd l of Some st \<Rightarrow> Some st | None \<Rightarrow> seen (fst l))"

definition listeners_ok :: "(nat \<rightharpoonup> 'h pstate) \<Rightarrow> 'h projector \<Rightarrow> bool" where
  "listeners_ok seen p \<longleftrightarrow> distinct (map fst (pr_listeners p))
     \<and> (\<forall>l \<in> set (pr_listeners p). \<exists>st. newest seen l = Some st \<and> same_published st (pr_state p))"

lemma publish_locked_listeners:
  assumes "listeners_ok seen p"
  shows "listeners_ok seen (publish_locked st p)"
proof (cases "same_published (pr_state p) st")
  case True
  then show ?thesis using assms by (fastforce simp: listeners_ok_def publish_locked_def intro: same_published_trans)
next
  case False
  then show ?thesis using assms
    by (auto simp: listeners_ok_def publish_locked_def newest_def comp_def split_beta)
qed

lemma listeners_ok_kept:
  "pr_listeners q = pr_listeners p \<Longrightarrow> pr_state q = pr_state p \<Longrightarrow> listeners_ok seen q = listeners_ok seen p"
  by (simp add: listeners_ok_def)

lemma publish_listeners:
  assumes ok: "listeners_ok seen p"
  shows "listeners_ok seen (mark_gap p)" "listeners_ok seen (publish_error etext e p)" "listeners_ok seen (publish_home sn home b p)"
    "listeners_ok seen (request_refresh p)" "listeners_ok seen (observe_to sn b p)" "listeners_ok seen (p\<lparr>pr_refresh := r\<rparr>)"
proof -
  show "listeners_ok seen (mark_gap p)" unfolding mark_gap_def Let_def by (rule publish_locked_listeners [OF ok])
  show "listeners_ok seen (publish_error etext e p)" unfolding publish_error_def Let_def by (rule publish_locked_listeners [OF ok])
  have keep: "listeners_ok seen (observe_to sn b p)" using ok by (simp add: observe_to_def listeners_ok_def)
  then show "listeners_ok seen (observe_to sn b p)" .
  show "listeners_ok seen (publish_home sn home b p)"
    unfolding publish_home_def Let_def by (subst listeners_ok_kept [OF _ _]) (auto intro: publish_locked_listeners [OF keep])
  show "listeners_ok seen (request_refresh p)" "listeners_ok seen (p\<lparr>pr_refresh := r\<rparr>)"
    using ok by (simp_all add: request_refresh_def listeners_ok_def)
qed

lemma update_fresh: "n \<notin> fst ` set xs \<Longrightarrow> AList.update n v xs = xs @ [(n, v)]"
  by (induction xs) auto

lemma listen_ok:
  assumes "listeners_ok seen p" "n \<notin> fst ` set (pr_listeners p)"
  shows "listeners_ok (seen(n := None)) (subscribe_states n p)"
proof -
  have "newest (seen(n := None)) l = newest seen l" if "l \<in> set (pr_listeners p)" for l
    using that assms(2) by (auto simp: newest_def split: option.splits)
  then show ?thesis using assms by (auto simp: listeners_ok_def subscribe_states_def update_fresh newest_def)
qed

lemma leave_ok: "listeners_ok seen p \<Longrightarrow> listeners_ok seen (unsubscribe_states n p)"
  by (auto simp: listeners_ok_def unsubscribe_states_def AList.delete_eq distinct_map_filter)

lemma receive_ok:
  assumes ok: "listeners_ok seen p" and n: "map_of (pr_listeners p) n = Some (Some st)"
  shows "listeners_ok (seen(n \<mapsto> st)) (take_state n p)"
proof -
  have d: "distinct (map fst (pr_listeners p))" using ok by (simp add: listeners_ok_def)
  have m: "(n, Some st) \<in> set (pr_listeners p)" using n by (rule map_of_SomeD)
  then obtain st' where st': "newest seen (n, Some st) = Some st'" and "same_published st' (pr_state p)"
    using ok unfolding listeners_ok_def by blast
  then have cur: "same_published st (pr_state p)" by (simp add: newest_def)
  have "\<exists>st1. newest (seen(n \<mapsto> st)) l = Some st1 \<and> same_published st1 (pr_state p)"
    if l: "l \<in> set (AList.update n None (pr_listeners p))" for l
  proof (cases "fst l = n")
    case True
    have "map_of (AList.update n None (pr_listeners p)) n = Some (snd l)"
      using l True d by (metis distinct_update map_of_is_SomeI prod.collapse)
    then have "snd l = None" by (simp add: update_conv')
    then show ?thesis using True cur by (simp add: newest_def)
  next
    case False
    have "map_of (AList.update n None (pr_listeners p)) (fst l) = Some (snd l)"
      using l d by (metis distinct_update map_of_is_SomeI prod.collapse)
    then have "map_of (pr_listeners p) (fst l) = Some (snd l)" using False by (simp add: update_conv')
    from map_of_SomeD [OF this] have "l \<in> set (pr_listeners p)" by simp
    then obtain s1 where "newest seen l = Some s1" "same_published s1 (pr_state p)" using ok unfolding listeners_ok_def by blast
    then show ?thesis using False by (auto simp: newest_def split: option.splits)
  qed
  then show ?thesis using d by (simp add: listeners_ok_def take_state_def distinct_update)
qed

section \<open>What the observers are told\<close>

text \<open>A read compared with the one before (no baseline) follows a published read, of which nothing was lost since.\<close>
definition compares :: "'h projector \<Rightarrow> bool" where
  "compares p \<longleftrightarrow> is_live (pr_state p) \<and> pr_observed p \<noteq> [] \<and> pr_published p \<noteq> []
     \<and> last (pr_published p) = last (pr_observed p) \<and> ps_snapshot (pr_state p) = fst (last (pr_observed p))"

lemma publish_home_compares: "compares (publish_home sn home b p)"
  by (simp add: compares_def publish_home_state)

lemma compares_kept [simp]:
  "compares (subscribe_states n p) = compares p" "compares (unsubscribe_states n p) = compares p"
  "compares (take_state n p) = compares p" "compares (request_refresh p) = compares p" "compares (p\<lparr>pr_refresh := r\<rparr>) = compares p"
  by (simp_all add: compares_def request_refresh_def)

text \<open>The phases in which the next read is compared.\<close>
definition comparing :: "loop \<Rightarrow> bool" where
  "comparing l \<longleftrightarrow> (\<exists>sn. l = TuiLoop (Following sn False)) \<or> l = CoreLoop (CoreFollowing False)"

section \<open>One step\<close>

text \<open>What a step of a loop does to its projector.\<close>
definition step_ok :: "loop \<Rightarrow> 'h projector \<Rightarrow> loop \<Rightarrow> 'h projector \<Rightarrow> bool" where
  "step_ok l p l' p' \<longleftrightarrow> gap_ok (pr_state p) (pr_state p') \<and> (state_ok (pr_state p) \<longrightarrow> state_ok (pr_state p'))
     \<and> (\<forall>seen. listeners_ok seen p \<longrightarrow> listeners_ok seen p') \<and> (comparing l' \<and> (comparing l \<longrightarrow> compares p) \<longrightarrow> compares p')
     \<and> (\<forall>sn. pr_observed p' = pr_observed p @ [(sn, False)] \<longrightarrow> comparing l)"

lemma step_okI:
  assumes "gap_ok (pr_state p) (pr_state p')" "state_ok (pr_state p) \<longrightarrow> state_ok (pr_state p')"
    "\<And>seen. listeners_ok seen p \<Longrightarrow> listeners_ok seen p'" "comparing l' \<and> (comparing l \<longrightarrow> compares p) \<longrightarrow> compares p'"
    "\<And>sn. pr_observed p' = pr_observed p @ [(sn, False)] \<Longrightarrow> comparing l"
  shows "step_ok l p l' p'"
  using assms by (simp add: step_ok_def)

text \<open>The phases a read may be compared in, and the changes of a projector a step makes.\<close>
lemma step_ok_same: "comparing l' \<Longrightarrow> comparing l \<Longrightarrow> step_ok l p l' p"
  "\<not> comparing l' \<Longrightarrow> step_ok l p l' p" "step_ok l p l p"
  by (auto simp: step_ok_def)

lemma step_ok_gap: "\<not> comparing l' \<Longrightarrow> step_ok l p l' (mark_gap p)"
  by (rule step_okI) (auto simp: mark_gap_state publish_listeners)

lemma step_ok_error: "\<not> comparing l' \<Longrightarrow> step_ok l p l' (publish_error etext e (p\<lparr>pr_refresh := r\<rparr>))"
  using publish_error_state [where p = "p\<lparr>pr_refresh := r\<rparr>" and etext = etext and e = e] by (intro step_okI) (auto intro: publish_listeners)

lemma step_ok_error': "\<not> comparing l' \<Longrightarrow> step_ok l p l' (publish_error etext e p)"
  by (rule step_okI) (auto simp: publish_error_state publish_listeners)

lemma step_ok_home: "b \<or> comparing l \<Longrightarrow> step_ok l p l' (publish_home sn home b (p\<lparr>pr_refresh := r\<rparr>))"
  using publish_home_state [where p = "p\<lparr>pr_refresh := r\<rparr>" and sn = sn and home = home and b = b]
    publish_home_compares [where p = "p\<lparr>pr_refresh := r\<rparr>" and sn = sn and home = home and b = b]
  by (intro step_okI) (auto intro: publish_listeners)

lemma step_ok_observe: "\<not> comparing l' \<Longrightarrow> b \<or> comparing l \<Longrightarrow> step_ok l p l' (observe_to sn b (p\<lparr>pr_refresh := r\<rparr>))"
  by (rule step_okI) (auto simp: observe_to_def listeners_ok_def)

lemma comparing_simps [simp]:
  "comparing (TuiLoop (Following sn b)) \<longleftrightarrow> \<not> b" "\<not> comparing (TuiLoop NeedBasis)" "\<not> comparing (TuiLoop (NeedSubscription sn))"
  "comparing (CoreLoop (CoreFollowing b)) \<longleftrightarrow> \<not> b" "\<not> comparing (CoreLoop CoreSubscribe)" "\<not> comparing NoLoop"
  by (auto simp: comparing_def)

lemma tui_step_ok:
  assumes "tui_step etext prj ph inp p = Some (ph', p')"
  shows "step_ok (TuiLoop ph) p (TuiLoop ph') p'"
  using assms unfolding tui_step_def publish_live_observed_def
  by (cases ph; cases inp)
     (auto split: sum.splits option.splits if_splits simp del: publish_locked_state
        intro: step_ok_same step_ok_gap step_ok_error step_ok_error' step_ok_home step_ok_observe)

lemma core_step_ok:
  assumes "core_step etext folder ph inp w = Some (ph', w')"
  shows "step_ok (CoreLoop ph) (cw_proj w) (CoreLoop ph') (cw_proj w')"
proof (cases inp)
  case (CoreRead answer)
  have e: "step_ok l p (CoreLoop CoreSubscribe) (publish_error etext e (p\<lparr>pr_refresh := False\<rparr>))" for l e and p :: "home projector"
    by (rule step_ok_error) simp
  have h: "step_ok (CoreLoop (CoreFollowing b)) p (CoreLoop (CoreFollowing False)) (publish_home sn home b (p\<lparr>pr_refresh := False\<rparr>))"
    for b sn home and p :: "home projector"
    by (rule step_ok_home) simp
  show ?thesis using CoreRead assms unfolding core_step_def Let_def
    by (auto split: sum.splits core_phase.splits simp: e h)
next
  case (CoreSubscribed x1)
  then show ?thesis using assms unfolding core_step_def by (auto split: option.splits if_splits simp: step_ok_error' step_ok_same)
next
  case CoreLost
  then show ?thesis using assms unfolding core_step_def by (auto split: if_splits simp: step_ok_gap)
next
  case (WindowAnswer x41 x42)
  then show ?thesis using assms unfolding core_step_def by (auto split: if_splits simp: step_ok_same(3))
next
  case (FolderChecked x51 x52)
  then show ?thesis using assms unfolding core_step_def by (auto split: if_splits simp: step_ok_same(3))
qed

section \<open>Reachable states\<close>

abbreviation watch_steps :: "(herdr_error \<Rightarrow> string) \<Rightarrow> semver \<Rightarrow> string \<Rightarrow> watched \<Rightarrow> watched \<Rightarrow> bool" where
  "watch_steps etext sv folder \<equiv> (watch_step etext sv folder)\<^sup>*\<^sup>*"

definition watched_ok :: "watched \<Rightarrow> bool" where
  "watched_ok d \<longleftrightarrow> state_ok (pr_state (wd_proj d)) \<and> listeners_ok (wd_seen d) (wd_proj d)
     \<and> (comparing (wd_loop d) \<longrightarrow> compares (wd_proj d))"

lemma watch_step_gap: "watch_step etext sv folder d d' \<Longrightarrow> gap_ok (pr_state (wd_proj d)) (pr_state (wd_proj d'))"
  by (induction rule: watch_step.induct) (auto dest!: tui_step_ok core_step_ok simp: step_ok_def)

lemma watch_steps_gap: "watch_steps etext sv folder d d' \<Longrightarrow> gap_ok (pr_state (wd_proj d)) (pr_state (wd_proj d'))"
  by (induction rule: rtranclp_induct) (auto intro: gap_ok_trans dest: watch_step_gap)

lemma watch_step_ok:
  assumes "watch_step etext sv folder d d'" "watched_ok d"
  shows "watched_ok d'"
  using assms
proof (induction rule: watch_step.induct)
  case (tui d ph inp ph' p)
  from tui_step_ok [OF tui(2)] tui(1,3) show ?case by (simp add: step_ok_def watched_ok_def)
next
  case (core d ph i ph' w)
  from core_step_ok [OF core(2)] core(1,3) show ?case by (simp add: step_ok_def watched_ok_def)
next
  case (listen n d)
  then show ?case by (simp add: watched_ok_def listen_ok)
next
  case (receive d n st)
  then show ?case by (simp add: watched_ok_def receive_ok)
qed (simp_all add: watched_ok_def publish_listeners leave_ok)

lemma start_watched_ok: "start_watched home0 d \<Longrightarrow> watched_ok d"
  by (auto simp: start_watched_def watched_ok_def new_core_world_def new_projector_def state_ok_def is_live_def listeners_ok_def)

lemma watch_steps_ok: "watch_steps etext sv folder d d' \<Longrightarrow> watched_ok d \<Longrightarrow> watched_ok d'"
  by (induction rule: rtranclp_induct) (auto intro: watch_step_ok)

text \<open>C36.  What anyone sees of a projector is current.  In every run, of the loop of the Herdr TUI as of herdr-core, each
  listener has, in its channel or as the last state it received, a state that is published as the current one is; the state says
  that its Home is the last known one exactly when there is one and the Herdr is not live; and a read is reported for comparison
  (no baseline) only while the Herdr is live and the read reported before it is the one that was published and is shown, with
  nothing lost in between.\<close>
theorem projector_sound:
  assumes "start_watched home0 d0" "watch_steps etext sv folder d0 d"
  shows "distinct (map fst (pr_listeners (wd_proj d)))
    \<and> (\<forall>l \<in> set (pr_listeners (wd_proj d)). \<exists>st. newest (wd_seen d) l = Some st \<and> same_published st (pr_state (wd_proj d)))
    \<and> (ps_last_known (pr_state (wd_proj d)) \<longleftrightarrow> ps_has_home (pr_state (wd_proj d)) \<and> \<not> is_live (pr_state (wd_proj d)))
    \<and> (\<forall>d' sn. watch_step etext sv folder d d' \<and> pr_observed (wd_proj d') = pr_observed (wd_proj d) @ [(sn, False)]
         \<longrightarrow> compares (wd_proj d))"
proof -
  have ok: "watched_ok d" using assms start_watched_ok watch_steps_ok by blast
  have "compares (wd_proj d)" if s: "watch_step etext sv folder d d'" and o: "pr_observed (wd_proj d') = pr_observed (wd_proj d) @ [(sn, False)]"
    for d' sn
  proof -
    have "comparing (wd_loop d)" using s o
      by (cases rule: watch_step.cases) (auto dest!: tui_step_ok core_step_ok simp: step_ok_def)
    then show ?thesis using ok by (simp add: watched_ok_def)
  qed
  then show ?thesis using ok by (auto simp: watched_ok_def listeners_ok_def state_ok_def)
qed

text \<open>A run: a listener joins a projector of herdr-core, whose first subscription is lost.\<close>
definition empty_home :: home where
  "empty_home = \<lparr>hm_actions = [], hm_app_window = [], hm_blocked = 0, hm_error = 0, hm_working = 0, hm_workspaces = []\<rparr>"

definition sample_watched :: watched where
  "sample_watched = \<lparr>wd_loop = CoreLoop CoreSubscribe, wd_world = new_core_world empty_home, wd_seen = Map.empty\<rparr>"

definition sample_joined :: watched where
  "sample_joined = with_proj (subscribe_states 0 (wd_proj sample_watched)) sample_watched\<lparr>wd_seen := (wd_seen sample_watched)(0 := None)\<rparr>"

definition sample_lost :: watched where
  "sample_lost = with_proj (mark_gap (wd_proj sample_joined)) sample_joined"

lemma sample_run: "watch_steps etext sv folder sample_watched sample_lost"
proof -
  have 1: "watch_step etext sv folder sample_watched sample_joined"
    unfolding sample_joined_def by (rule watch_step.listen) (simp add: sample_watched_def new_core_world_def new_projector_def)
  have l: "wd_loop sample_joined = CoreLoop CoreSubscribe" by (simp add: sample_joined_def sample_watched_def)
  let ?m = "sample_joined\<lparr>wd_loop := CoreLoop (CoreFollowing True), wd_world := wd_world sample_joined\<rparr>"
  have 2: "watch_step etext sv folder sample_joined ?m"
    by (rule watch_step.core [OF l, where i = "CoreSubscribed None"]) (simp add: core_step_def)
  have m: "wd_loop ?m = CoreLoop (CoreFollowing True)" by simp
  have "watch_step etext sv folder ?m
      (?m\<lparr>wd_loop := CoreLoop CoreSubscribe, wd_world := (wd_world ?m)\<lparr>cw_proj := mark_gap (cw_proj (wd_world ?m))\<rparr>\<rparr>)"
    by (rule watch_step.core [OF m, where i = CoreLost]) (simp add: core_step_def)
  moreover have "?m\<lparr>wd_loop := CoreLoop CoreSubscribe, wd_world := (wd_world ?m)\<lparr>cw_proj := mark_gap (cw_proj (wd_world ?m))\<rparr>\<rparr> = sample_lost"
    by (rule watched.equality) (simp_all add: sample_lost_def l)
  ultimately have 3: "watch_step etext sv folder ?m sample_lost" by argo
  show ?thesis using 1 2 3 by (meson rtranclp.rtrancl_into_rtrancl rtranclp.rtrancl_refl)
qed

theorem projector_sound_witness:
  "\<exists>st. newest (wd_seen sample_lost) (0, snd (hd (pr_listeners (wd_proj sample_lost)))) = Some st \<and> ps_gap st = 1
     \<and> \<not> is_live st \<and> \<not> ps_last_known (pr_state (wd_proj sample_lost))"
proof -
  have s: "start_watched empty_home sample_watched" by (simp add: start_watched_def sample_watched_def)
  note c = projector_sound [OF s sample_run [of "\<lambda>_. []" undefined "[]"]]
  have st: "pr_state (wd_proj sample_lost) = (pr_state (wd_proj sample_watched))\<lparr>ps_gap := 1\<rparr>"
    by (simp add: sample_lost_def sample_joined_def sample_watched_def new_core_world_def new_projector_def mark_gap_def Let_def)
  have h: "pr_listeners (wd_proj sample_lost) = [(0, snd (hd (pr_listeners (wd_proj sample_lost))))]"
    by (simp add: sample_lost_def sample_joined_def sample_watched_def new_core_world_def new_projector_def mark_gap_def Let_def
        publish_locked_def same_published_def subscribe_states_def)
  then obtain st where "newest (wd_seen sample_lost) (0, snd (hd (pr_listeners (wd_proj sample_lost)))) = Some st"
    "same_published st (pr_state (wd_proj sample_lost))" using c by (metis list.set_intros(1))
  then show ?thesis using c by (auto simp: st same_published_def is_live_def sample_watched_def new_core_world_def new_projector_def)
qed

end
