(* ===== verification/TerminalTarget.thy ===== *)
theory TerminalTarget
  imports ProjectorFacts
begin

text \<open>
  The terminal a page is bound to, \<open>internal/server/terminal_target.go\<close>: the two rules that find it in a published state,
  and the lease that ends once a state does not hold it any more.  The context and the lock of a lease are one flag.
\<close>

definition identity_char :: "bool \<Rightarrow> char \<Rightarrow> bool" where
  "identity_char first c \<longleftrightarrow> is_lower c \<or> is_upper c \<or> is_digit c \<or> (\<not> first \<and> c \<in> {CHR ''_'', CHR '':'', CHR ''.'', CHR ''-''})"

definition valid_terminal_identity :: "string \<Rightarrow> bool" where
  "valid_terminal_identity v \<longleftrightarrow> v \<noteq> [] \<and> length v \<le> 256 \<and> identity_char True (hd v) \<and> list_all (identity_char False) (tl v)"

record terminal_target =
  tt_workspace :: string
  tt_tab :: string
  tt_cols :: int
  tt_generation :: nat
  tt_pane :: string
  tt_rows :: int
  tt_terminal :: string

type_synonym target_rule = "home pstate \<Rightarrow> string \<Rightarrow> string \<Rightarrow> terminal_target option"

definition bound_pane :: "string \<Rightarrow> string \<Rightarrow> pane_info \<Rightarrow> bool" where
  "bound_pane pane terminal p \<longleftrightarrow> pi_id p = pane \<and> pi_terminal p = terminal"

definition usable_rect :: "string \<Rightarrow> layout_pane \<Rightarrow> bool" where
  "usable_rect pane l \<longleftrightarrow> lp_pane l = pane \<and> 2 \<le> rc_width (lp_rect l) \<and> 1 \<le> rc_height (lp_rect l)"

text \<open>\<open>terminalTargetFromState\<close>: the first pane with both names and the first rectangle of it that is large enough.\<close>
definition terminal_target_from_state :: target_rule where
  "terminal_target_from_state st pane terminal =
     (if ps_connection st \<noteq> ConnectionLive \<or> ps_last_known st then None
      else case find (bound_pane pane terminal) (sn_panes (ps_snapshot st)) of
        None \<Rightarrow> None
      | Some bound \<Rightarrow>
          (case find (usable_rect pane) (concat (map li_panes (sn_layouts (ps_snapshot st)))) of
             None \<Rightarrow> None
           | Some l \<Rightarrow> Some \<lparr>tt_workspace = pi_workspace bound, tt_tab = pi_tab bound, tt_cols = rc_width (lp_rect l),
               tt_generation = ps_gap st, tt_pane = pane, tt_rows = rc_height (lp_rect l), tt_terminal = terminal\<rparr>))"

definition core_terminal_target_from_state :: target_rule where
  "core_terminal_target_from_state st pane terminal =
     (if ps_connection st \<noteq> ConnectionLive \<or> ps_last_known st then None
      else case find (bound_pane pane terminal) (sn_panes (ps_snapshot st)) of
        None \<Rightarrow> None
      | Some _ \<Rightarrow> Some \<lparr>tt_workspace = [], tt_tab = [], tt_cols = 0, tt_generation = ps_gap st, tt_pane = pane, tt_rows = 0,
          tt_terminal = terminal\<rparr>)"

definition target_matches :: "target_rule \<Rightarrow> terminal_target \<Rightarrow> home pstate \<Rightarrow> bool" where
  "target_matches rule t st \<longleftrightarrow> ps_gap st = tt_generation t \<and>
     (case rule st (tt_pane t) (tt_terminal t) of None \<Rightarrow> False
      | Some c \<Rightarrow> tt_generation c = tt_generation t \<and> tt_workspace c = tt_workspace t \<and> tt_tab c = tt_tab t)"

text \<open>A lease listens at the projector under the number \<open>ls_listener\<close>; \<open>ls_done\<close> says that its context ended.\<close>
record target_lease =
  ls_listener :: nat
  ls_rule :: target_rule
  ls_target :: terminal_target
  ls_done :: bool

text \<open>\<open>acquireTerminalTarget\<close>: it subscribes, and the first state it receives is the current one.\<close>
definition acquire_target ::
  "nat \<Rightarrow> target_rule \<Rightarrow> string \<Rightarrow> string \<Rightarrow> home projector \<Rightarrow> target_lease option \<times> home projector" where
  "acquire_target n rule pane terminal p =
     (if \<not> valid_terminal_identity pane \<or> \<not> valid_terminal_identity terminal then (None, p)
      else case rule (pr_state p) pane terminal of
        None \<Rightarrow> (None, unsubscribe_states n (take_state n (subscribe_states n p)))
      | Some t \<Rightarrow> (Some \<lparr>ls_listener = n, ls_rule = rule, ls_target = t, ls_done = False\<rparr>, take_state n (subscribe_states n p)))"

text \<open>The goroutine of a lease receives a state.\<close>
definition lease_receives :: "home pstate \<Rightarrow> target_lease \<Rightarrow> target_lease" where
  "lease_receives st l = (if target_matches (ls_rule l) (ls_target l) st then l else l\<lparr>ls_done := True\<rparr>)"

definition close_lease :: "target_lease \<Rightarrow> home projector \<Rightarrow> target_lease \<times> home projector" where
  "close_lease l p = (l\<lparr>ls_done := True\<rparr>, unsubscribe_states (ls_listener l) p)"

definition lease_current :: "target_lease \<Rightarrow> home projector \<Rightarrow> bool" where
  "lease_current l p \<longleftrightarrow> \<not> ls_done l \<and> target_matches (ls_rule l) (ls_target l) (pr_state p)"

section \<open>What a target says\<close>

text \<open>A terminal is shown by a state: the Herdr is live, and a pane of its snapshot has both names.\<close>
definition shows_terminal :: "home pstate \<Rightarrow> string \<Rightarrow> string \<Rightarrow> bool" where
  "shows_terminal st pane terminal \<longleftrightarrow> is_live st \<and> \<not> ps_last_known st
     \<and> (\<exists>p \<in> set (sn_panes (ps_snapshot st)). pi_id p = pane \<and> pi_terminal p = terminal)"

lemma tui_target_shown:
  assumes "terminal_target_from_state st pane terminal = Some t"
  shows "shows_terminal st pane terminal" "tt_pane t = pane" "tt_terminal t = terminal" "tt_generation t = ps_gap st"
    "2 \<le> tt_cols t" "1 \<le> tt_rows t"
  using assms by (auto simp: terminal_target_from_state_def shows_terminal_def is_live_def bound_pane_def usable_rect_def
      split: if_splits option.splits dest!: find_SomeD)

lemma core_target_shown:
  assumes "core_terminal_target_from_state st pane terminal = Some t"
  shows "shows_terminal st pane terminal" "tt_pane t = pane" "tt_terminal t = terminal" "tt_generation t = ps_gap st"
  using assms by (auto simp: core_terminal_target_from_state_def shows_terminal_def is_live_def bound_pane_def
      split: if_splits option.splits dest!: find_SomeD)

text \<open>The two rules of the program.\<close>
definition known_rule :: "target_rule \<Rightarrow> bool" where
  "known_rule rule \<longleftrightarrow> rule = terminal_target_from_state \<or> rule = core_terminal_target_from_state"

lemma rule_shown:
  assumes "known_rule rule" "rule st pane terminal = Some t"
  shows "shows_terminal st pane terminal" "tt_pane t = pane" "tt_terminal t = terminal" "tt_generation t = ps_gap st"
  using assms by (auto simp: known_rule_def dest: tui_target_shown core_target_shown)

text \<open>In a state of a projector, the rule for herdr-core holds exactly for the terminals the state shows.\<close>
lemma core_target_iff:
  "(\<exists>t. core_terminal_target_from_state st pane terminal = Some t) \<longleftrightarrow> shows_terminal st pane terminal"
  by (auto simp: core_terminal_target_from_state_def shows_terminal_def is_live_def bound_pane_def find_None_iff split: option.splits
      dest!: find_SomeD)

lemma matches_shown:
  assumes "known_rule rule" "target_matches rule t st"
  shows "shows_terminal st (tt_pane t) (tt_terminal t)" "ps_gap st = tt_generation t"
  using assms rule_shown [OF assms(1)] by (auto simp: target_matches_def split: option.splits)

lemma acquire_Some:
  assumes "known_rule rule" "acquire_target n rule pane terminal p = (Some l, p')"
  shows "shows_terminal (pr_state p) pane terminal" "ls_rule l = rule" "tt_pane (ls_target l) = pane"
    "tt_terminal (ls_target l) = terminal" "tt_generation (ls_target l) = ps_gap (pr_state p)" "lease_current l p'"
    "valid_terminal_identity pane" "valid_terminal_identity terminal"
proof -
  from assms(2) obtain t where t: "rule (pr_state p) pane terminal = Some t"
    and l: "l = \<lparr>ls_listener = n, ls_rule = rule, ls_target = t, ls_done = False\<rparr>" "p' = take_state n (subscribe_states n p)"
    and v: "valid_terminal_identity pane" "valid_terminal_identity terminal"
    unfolding acquire_target_def by (auto split: if_splits option.splits)
  note s = rule_shown [OF assms(1) t]
  show "shows_terminal (pr_state p) pane terminal" "ls_rule l = rule" "tt_pane (ls_target l) = pane"
    "tt_terminal (ls_target l) = terminal" "tt_generation (ls_target l) = ps_gap (pr_state p)" using s l by simp_all
  show "lease_current l p'" using s t l by (simp add: lease_current_def target_matches_def)
  show "valid_terminal_identity pane" "valid_terminal_identity terminal" by (fact v)+
qed

section \<open>Leases and the projector\<close>

text \<open>C37.  A lease is never valid across an interruption.  If the target of a lease acquired in one state matches a later state of
  the same projector, then the Herdr was live in every state between the two, with the same gap, the terminal is shown there under
  the same names, and (for the rule of the Herdr TUI) in the same space and tab.  A state in which the Herdr is not live ends the
  lease as soon as any later state reaches it, and nothing makes it valid again.\<close>
theorem lease_unbroken:
  assumes rule: "known_rule rule" and acq: "acquire_target n rule pane terminal (wd_proj d0) = (Some l, p)"
    and run: "watch_steps etext sv folder d0 d1" "watch_steps etext sv folder d1 d2"
  shows "(target_matches (ls_rule l) (ls_target l) (pr_state (wd_proj d2)) \<longrightarrow>
      is_live (pr_state (wd_proj d1)) \<and> ps_gap (pr_state (wd_proj d1)) = ps_gap (pr_state (wd_proj d0))
      \<and> shows_terminal (pr_state (wd_proj d2)) pane terminal
      \<and> (rule = terminal_target_from_state \<longrightarrow>
           (\<exists>x \<in> set (sn_panes (ps_snapshot (pr_state (wd_proj d2)))). pi_id x = pane \<and> pi_terminal x = terminal
              \<and> pi_workspace x = tt_workspace (ls_target l) \<and> pi_tab x = tt_tab (ls_target l))))
    \<and> (\<not> is_live (pr_state (wd_proj d1)) \<longrightarrow> ls_done (lease_receives (pr_state (wd_proj d2)) l) \<and> \<not> lease_current l (wd_proj d2))"
proof -
  note a = acquire_Some [OF rule acq]
  let ?s0 = "pr_state (wd_proj d0)" and ?s1 = "pr_state (wd_proj d1)" and ?s2 = "pr_state (wd_proj d2)"
  have g: "gap_ok ?s0 ?s1" "gap_ok ?s1 ?s2" using run watch_steps_gap by blast+
  have live0: "is_live ?s0" using a(1) by (simp add: shows_terminal_def)
  have same: "is_live ?s1 \<and> ps_gap ?s1 = ps_gap ?s0" if m: "target_matches (ls_rule l) (ls_target l) ?s2"
  proof -
    have "ps_gap ?s2 = ps_gap ?s0" using matches_shown(2) [OF rule] m a(2,5) by simp
    then have "ps_gap ?s1 = ps_gap ?s0" using g by (simp add: gap_ok_def)
    then show ?thesis using g(1) live0 by (simp add: gap_ok_def)
  qed
  have shown: "shows_terminal ?s2 pane terminal" if m: "target_matches (ls_rule l) (ls_target l) ?s2"
    using matches_shown(1) [OF rule m [unfolded a(2)]] a(3,4) by simp
  have place: "\<exists>x \<in> set (sn_panes (ps_snapshot ?s2)). pi_id x = pane \<and> pi_terminal x = terminal
      \<and> pi_workspace x = tt_workspace (ls_target l) \<and> pi_tab x = tt_tab (ls_target l)"
    if m: "target_matches (ls_rule l) (ls_target l) ?s2" and r: "rule = terminal_target_from_state"
  proof -
    from m obtain c where c: "terminal_target_from_state ?s2 pane terminal = Some c"
      and e: "tt_workspace c = tt_workspace (ls_target l)" "tt_tab c = tt_tab (ls_target l)"
      using a r by (auto simp: target_matches_def split: option.splits)
    from c obtain x where "find (bound_pane pane terminal) (sn_panes (ps_snapshot ?s2)) = Some x"
      "tt_workspace c = pi_workspace x" "tt_tab c = pi_tab x"
      unfolding terminal_target_from_state_def by (auto split: if_splits option.splits)
    then show ?thesis using e by (auto simp: bound_pane_def dest!: find_SomeD)
  qed
  have broken: "\<not> target_matches (ls_rule l) (ls_target l) ?s2" if "\<not> is_live ?s1" using same that by blast
  then have ends: "\<not> is_live ?s1 \<longrightarrow> ls_done (lease_receives ?s2 l) \<and> \<not> lease_current l (wd_proj d2)"
    by (simp add: lease_receives_def lease_current_def)
  show ?thesis using same shown place ends by blast
qed

text \<open>A page is bound to a terminal of herdr-core, whose subscription is lost.\<close>
definition sample_pane :: pane_info where
  "sample_pane = \<lparr>pi_cwd = ''/'', pi_focused = False, pi_label = None, pi_id = ''t1'', pi_tab = ''b'', pi_terminal = ''id1'', pi_title = [],
     pi_stripped = [], pi_workspace = ''w''\<rparr>"

definition sample_bound :: watched where
  "sample_bound = sample_watched\<lparr>wd_loop := CoreLoop (CoreFollowing True), wd_world := (wd_world sample_watched)\<lparr>cw_proj :=
     publish_home (empty_snapshot\<lparr>sn_panes := [sample_pane]\<rparr>) empty_home True (wd_proj sample_watched)\<rparr>\<rparr>"

definition sample_unbound :: watched where
  "sample_unbound = sample_bound\<lparr>wd_loop := CoreLoop CoreSubscribe, wd_world := (wd_world sample_bound)\<lparr>cw_proj := mark_gap (wd_proj sample_bound)\<rparr>\<rparr>"

lemma lease_bound:
  "\<exists>l p. acquire_target 0 core_terminal_target_from_state ''t1'' ''id1'' (wd_proj sample_bound) = (Some l, p)"
  "is_live (pr_state (wd_proj sample_bound))"
proof -
  let ?p = "wd_proj sample_bound"
  have st: "is_live (pr_state ?p)" "sn_panes (ps_snapshot (pr_state ?p)) = [sample_pane]" "\<not> ps_last_known (pr_state ?p)"
    by (simp_all add: sample_bound_def publish_home_def Let_def is_live_def)
  have v: "valid_terminal_identity ''t1''" "valid_terminal_identity ''id1''"
    by (simp_all add: valid_terminal_identity_def identity_char_def is_lower_def is_upper_def is_digit_def)
  have "\<exists>t. core_terminal_target_from_state (pr_state ?p) ''t1'' ''id1'' = Some t"
    unfolding core_target_iff shows_terminal_def using st by (simp add: sample_pane_def)
  then show "\<exists>l p. acquire_target 0 core_terminal_target_from_state ''t1'' ''id1'' (wd_proj sample_bound) = (Some l, p)"
    using v by (auto simp: acquire_target_def)
  show "is_live (pr_state ?p)" by (fact st(1))
qed

theorem lease_unbroken_witness:
  "\<exists>l p. acquire_target 0 core_terminal_target_from_state ''t1'' ''id1'' (wd_proj sample_bound) = (Some l, p)
     \<and> is_live (pr_state (wd_proj sample_bound)) \<and> ls_done (lease_receives (pr_state (wd_proj sample_unbound)) l)
     \<and> \<not> lease_current l (wd_proj sample_unbound)"
proof -
  let ?p = "wd_proj sample_bound"
  obtain l p where a: "acquire_target 0 core_terminal_target_from_state ''t1'' ''id1'' ?p = (Some l, p)"
    using lease_bound(1) by blast
  have k: "known_rule core_terminal_target_from_state" by (simp add: known_rule_def)
  have step: "watch_step (\<lambda>_. []) undefined [] sample_bound sample_unbound"
    unfolding sample_unbound_def
    by (rule watch_step.core [where ph = "CoreFollowing True" and i = CoreLost]) (simp_all add: core_step_def sample_bound_def)
  have gone: "\<not> is_live (pr_state (wd_proj sample_unbound))" by (simp add: sample_unbound_def mark_gap_state)
  have "ls_done (lease_receives (pr_state (wd_proj sample_unbound)) l) \<and> \<not> lease_current l (wd_proj sample_unbound)"
    using lease_unbroken [OF k a r_into_rtranclp [where r = "watch_step (\<lambda>_. []) undefined []", OF step] rtranclp.rtrancl_refl] gone by blast
  then show ?thesis using a lease_bound(2) by blast
qed

end
