(* ===== verification/TerminalInput.thy ===== *)
theory TerminalInput
  imports CoreAttach Encoding RuneText
begin

text \<open>
  What a page sends to a terminal and what a terminal sends back, \<open>internal/server/terminal_protocol.go\<close> and
  \<open>terminal_keys.go\<close>: the commands of the browser, the frames of the Herdr TUI, and the names of keys.

  Reading the text of a message as JSON is the library's, as are Unicode lower case and printable characters.
\<close>

record terminal_lib =
  tl_json :: "string \<Rightarrow> json option"
  tl_key_base :: "string \<Rightarrow> string"
  tl_lower :: "string \<Rightarrow> string"
  tl_print :: "nat \<Rightarrow> bool"

section \<open>Decoding\<close>

definition known_fields :: "string list \<Rightarrow> fields \<Rightarrow> bool" where
  "known_fields names fs \<longleftrightarrow> list_all (\<lambda>(k, v). fold_key k \<in> fold_key ` set names) fs"

definition ptr_int :: "string \<Rightarrow> fields \<Rightarrow> int option option" where
  "ptr_int name fs =
     (let vs = entries name fs
      in if list_all (\<lambda>v. v = JNull \<or> int_of v \<noteq> None) vs then Some (int_of (last_or_null vs)) else None)"

definition bool_of :: "json \<Rightarrow> bool option" where
  "bool_of v = (case v of JBool b \<Rightarrow> Some b | _ \<Rightarrow> None)"

definition ptr_bool :: "string \<Rightarrow> fields \<Rightarrow> bool option option" where
  "ptr_bool name fs =
     (let vs = entries name fs
      in if list_all (\<lambda>v. v = JNull \<or> bool_of v \<noteq> None) vs then Some (bool_of (last_or_null vs)) else None)"

definition get_bool :: "string \<Rightarrow> fields \<Rightarrow> bool option" where
  "get_bool name fs =
     (let vs = filter (\<lambda>v. v \<noteq> JNull) (entries name fs)
      in if list_all (\<lambda>v. bool_of v \<noteq> None) vs then Some (vs \<noteq> [] \<and> bool_of (last vs) = Some True) else None)"

definition get_uint64 :: "string \<Rightarrow> fields \<Rightarrow> nat option" where
  "get_uint64 name fs =
     (let vs = filter (\<lambda>v. v \<noteq> JNull) (entries name fs)
      in if list_all (\<lambda>v. uint_of (2 ^ 64) v \<noteq> None) vs then Some (if vs = [] then 0 else the (uint_of (2 ^ 64) (last vs))) else None)"

text \<open>A \<open>[]string\<close> field.  A null in the list leaves what the slice holds at that place, which a list given before for
  the same field may have written; a null for the field and an empty list start over.\<close>
definition decode_strings :: "json list \<Rightarrow> string list \<Rightarrow> string list" where
  "decode_strings xs old =
     map (\<lambda>(i, v). case v of JStr s \<Rightarrow> s | _ \<Rightarrow> if i < length old then old ! i else []) (zip [0..<length xs] xs)"

fun get_strings_from :: "json list \<Rightarrow> string list \<Rightarrow> string list \<Rightarrow> string list option" where
  "get_strings_from [] slots now = Some now"
| "get_strings_from (JNull # vs) slots now = get_strings_from vs [] []"
| "get_strings_from (JArr xs # vs) slots now =
     (if \<not> list_all (\<lambda>v. is_str v \<or> v = JNull) xs then None
      else if xs = [] then get_strings_from vs [] []
      else let ys = decode_strings xs slots in get_strings_from vs (ys @ drop (length ys) slots) ys)"
| "get_strings_from (v # vs) slots now = None"

definition get_strings :: "string \<Rightarrow> fields \<Rightarrow> string list option" where
  "get_strings name fs = get_strings_from (entries name fs) [] []"

section \<open>Keys\<close>

record terminal_key =
  tk_base :: string
  tk_ctrl :: bool
  tk_alt :: bool
  tk_shift :: bool
  tk_super :: bool

definition named_keys :: "string list" where
  "named_keys = [''enter'', ''return'', ''esc'', ''escape'', ''tab'', ''backspace'', ''bs'', ''left'', ''up'', ''down'', ''right'',
     ''space'', ''minus'', ''comma'', ''period'', ''slash'', ''backslash'', ''quote'', ''double_quote'', ''double-quote'',
     ''semicolon'', ''colon'', ''percent'', ''ampersand'', ''backtick'', ''plus'']"

text \<open>\<open>f1\<close> to \<open>f12\<close>, as \<open>strconv.Atoi\<close> reads the number.\<close>
definition function_key :: "string \<Rightarrow> string option" where
  "function_key s =
     (case atoi (trim_prefix s ''f'') of None \<Rightarrow> None
      | Some n \<Rightarrow> if n < 1 \<or> 12 < n \<or> s \<noteq> ''f'' @ itoa (nat n) then None else Some s)"

definition modifiers :: "bool \<Rightarrow> bool \<Rightarrow> bool \<Rightarrow> bool \<Rightarrow> string list" where
  "modifiers ctrl alt shift super =
     (if ctrl then [''ctrl''] else []) @ (if alt then [''alt''] else []) @ (if shift then [''shift''] else [])
     @ (if super then [''super''] else [])"

fun join_plus :: "string list \<Rightarrow> string" where
  "join_plus [] = []"
| "join_plus [p] = p"
| "join_plus (p # q # ps) = p @ CHR ''+'' # join_plus (q # ps)"

definition canonical_base :: "terminal_lib \<Rightarrow> string \<Rightarrow> string option" where
  "canonical_base lib b =
     (let low = tl_lower lib b in
      if low \<in> set named_keys then Some low
      else if b = '' '' then Some ''space''
      else if b = ''+'' then Some ''plus''
      else if valid_utf8 b \<and> rune_count b = 1
        then (let r = hd (runes b) in if \<not> tl_print lib r \<or> is_space r then None else Some b)
      else function_key low)"

definition canonical_key :: "terminal_lib \<Rightarrow> terminal_key \<Rightarrow> string option" where
  "canonical_key lib k =
     (case canonical_base lib (tk_base k) of None \<Rightarrow> None
      | Some b \<Rightarrow> Some (join_plus (modifiers (tk_ctrl k) (tk_alt k) (tk_shift k) (tk_super k) @ [b])))"

definition core_key_names :: "(string \<times> string) list" where
  "core_key_names = [(''enter'', ''enter''), (''return'', ''enter''), (''esc'', ''esc''), (''escape'', ''esc''), (''tab'', ''tab''),
     (''backspace'', ''backspace''), (''bs'', ''backspace''), (''left'', ''left''), (''up'', ''up''), (''down'', ''down''), (''right'', ''right''),
     (''space'', ''space''), (''minus'', ''-''), (''comma'', '',''), (''period'', ''.''), (''slash'', ''/''), (''backslash'', [CHR 0x5C]),
     (''quote'', [CHR 0x27]), (''semicolon'', '';''), (''backtick'', [CHR 0x60])]"

definition core_key_characters :: string where
  "core_key_characters = ''abcdefghijklmnopqrstuvwxyz0123456789'' @ [CHR 0x60, CHR 0x5C] @ ''[],=-.'' @ [CHR 0x27] @ '';/''"

definition core_base :: "terminal_lib \<Rightarrow> terminal_key \<Rightarrow> (string \<times> bool) option" where
  "core_base lib k =
     (let b = tk_base k in
      case map_of core_key_names (tl_lower lib b) of Some n \<Rightarrow> Some (n, tk_shift k)
      | None \<Rightarrow>
        if b = '' '' then Some (''space'', tk_shift k)
        else (case b of [c] \<Rightarrow>
                if is_upper c then Some ([lower_char c], True)
                else if c \<in> set core_key_characters then Some (b, tk_shift k)
                else map_option (\<lambda>n. (n, tk_shift k)) (function_key (tl_lower lib b))
              | _ \<Rightarrow> map_option (\<lambda>n. (n, tk_shift k)) (function_key (tl_lower lib b))))"

definition core_key_name :: "terminal_lib \<Rightarrow> terminal_key \<Rightarrow> string option" where
  "core_key_name lib k =
     (case core_base lib k of None \<Rightarrow> None
      | Some (b, shift) \<Rightarrow> Some (join_plus (modifiers (tk_ctrl k) (tk_alt k) shift (tk_super k) @ [b])))"

section \<open>Commands of the browser\<close>

datatype child_command =
    ChildText string
  | ChildBytes string
  | ChildResize int int
  | ChildScroll string int string int int int
  | ChildRelease

datatype command_error =
    InvalidJson | InputFields | InputTooLarge | InvalidBytes | BatchFields | BatchSize | ResizeFields | ScrollFields | ReleaseFields
  | UnsupportedType string | InvalidKey | UnsupportedKey

record browser_command =
  bc_is_key :: bool
  bc_key :: string
  bc_selection :: "terminal_key option"
  bc_children :: "child_command list"
  bc_release :: bool
  bc_request :: nat
  bc_hold :: "bool option"

record input_envelope =
  ie_bytes :: "string option"
  ie_chunks :: "string list"
  ie_column :: "int option"
  ie_cols :: int
  ie_direction :: string
  ie_keep :: "bool option"
  ie_lines :: int
  ie_modifiers :: "int option"
  ie_request :: nat
  ie_row :: "int option"
  ie_rows :: int
  ie_source :: "string option"
  ie_text :: "string option"
  ie_type :: string

definition envelope_fields :: "string list" where
  "envelope_fields = [''bytes'', ''chunks'', ''column'', ''cols'', ''direction'', ''keep'', ''lines'', ''modifiers'', ''request_id'', ''row'',
     ''rows'', ''source'', ''text'', ''type'']"

definition decode_envelope :: "json \<Rightarrow> input_envelope option" where
  "decode_envelope v =
     (case struct_fields v of None \<Rightarrow> None
      | Some fs \<Rightarrow>
        if \<not> known_fields envelope_fields fs then None
        else (case (get_ptr_string ''bytes'' fs, get_strings ''chunks'' fs, ptr_int ''column'' fs, get_int ''cols'' fs, get_string ''direction'' fs,
                 ptr_bool ''keep'' fs, get_int ''lines'' fs) of
                (Some b, Some ch, Some co, Some cs, Some d, Some kp, Some ln) \<Rightarrow>
                (case (ptr_int ''modifiers'' fs, get_uint64 ''request_id'' fs, ptr_int ''row'' fs, get_int ''rows'' fs, get_ptr_string ''source'' fs,
                   get_ptr_string ''text'' fs, get_string ''type'' fs) of
                  (Some md, Some rq, Some rw, Some rs, Some so, Some tx, Some ty) \<Rightarrow>
                    Some \<lparr>ie_bytes = b, ie_chunks = ch, ie_column = co, ie_cols = cs, ie_direction = d, ie_keep = kp, ie_lines = ln,
                      ie_modifiers = md, ie_request = rq, ie_row = rw, ie_rows = rs, ie_source = so, ie_text = tx, ie_type = ty\<rparr>
                | _ \<Rightarrow> None)
              | _ \<Rightarrow> None))"

section \<open>Validation\<close>

definition max_command_bytes :: nat where "max_command_bytes = 2 ^ 20"
definition max_frame_bytes :: nat where "max_frame_bytes = 4 * 2 ^ 20"

definition max_request_id :: nat where "max_request_id = 2 ^ 53 - 1"

text \<open>\<open>base64.StdEncoding.DecodeString\<close>: the other alphabet, with padding.\<close>
definition std_b64_val :: "char \<Rightarrow> nat option" where
  "std_b64_val c = (if c = CHR ''+'' then Some 62 else if c = CHR ''/'' then Some 63
     else if c = CHR ''-'' \<or> c = CHR ''_'' then None else b64_val c)"

fun std_b64_vals :: "string \<Rightarrow> nat list option" where
  "std_b64_vals [] = Some []"
| "std_b64_vals (c # s) = (case std_b64_val c of None \<Rightarrow> None | Some v \<Rightarrow> map_option (\<lambda>vs. v # vs) (std_b64_vals s))"

definition std_b64_decode :: "string \<Rightarrow> string option" where
  "std_b64_decode s =
     (let t = filter (\<lambda>c. c \<noteq> chr 10 \<and> c \<noteq> chr 13) s;
          body = takeWhile (\<lambda>c. c \<noteq> CHR ''='') t; pad = dropWhile (\<lambda>c. c \<noteq> CHR ''='') t
      in if length t mod 4 = 0 \<and> pad \<in> {[], ''='', ''==''}
         then (case std_b64_vals body of None \<Rightarrow> None | Some vs \<Rightarrow> b64_bytes vs) else None)"

definition plain_command :: "child_command list \<Rightarrow> nat \<Rightarrow> browser_command" where
  "plain_command children request =
     \<lparr>bc_is_key = False, bc_key = [], bc_selection = None, bc_children = children, bc_release = False, bc_request = request, bc_hold = None\<rparr>"

text \<open>The sizes the chunks of a batch add up to, one after the other.\<close>
fun chunks_ok :: "nat \<Rightarrow> string list \<Rightarrow> bool" where
  "chunks_ok n [] = True"
| "chunks_ok n (c # cs) \<longleftrightarrow> c \<noteq> [] \<and> n + length c \<le> max_command_bytes \<and> chunks_ok (n + length c) cs"

definition input_fields_only :: "input_envelope \<Rightarrow> bool" where
  "input_fields_only e \<longleftrightarrow> ie_cols e = 0 \<and> ie_rows e = 0 \<and> ie_direction e = [] \<and> ie_lines e = 0 \<and> ie_keep e = None
     \<and> ie_column e = None \<and> ie_modifiers e = None \<and> ie_row e = None \<and> ie_source e = None"

definition validate_input :: "input_envelope \<Rightarrow> command_error + browser_command" where
  "validate_input e =
     (if \<not> input_fields_only e \<or> ie_request e < 1 \<or> max_request_id < ie_request e \<or> ie_chunks e \<noteq> []
         \<or> (ie_text e = None) = (ie_bytes e = None) then Inl InputFields
      else case ie_text e of
        Some t \<Rightarrow> if max_command_bytes < length t then Inl InputTooLarge else Inr (plain_command [ChildText t] (ie_request e))
      | None \<Rightarrow>
          (case std_b64_decode (the (ie_bytes e)) of None \<Rightarrow> Inl InvalidBytes
           | Some d \<Rightarrow> if max_command_bytes < length d then Inl InvalidBytes
               else Inr (plain_command [ChildBytes (the (ie_bytes e))] (ie_request e))))"

definition validate_batch :: "input_envelope \<Rightarrow> command_error + browser_command" where
  "validate_batch e =
     (if \<not> input_fields_only e \<or> ie_request e < 1 \<or> max_request_id < ie_request e \<or> ie_text e \<noteq> None \<or> ie_bytes e \<noteq> None
         \<or> length (ie_chunks e) < 1 \<or> 256 < length (ie_chunks e) then Inl BatchFields
      else if \<not> chunks_ok 0 (ie_chunks e) then Inl BatchSize
      else Inr (plain_command (map ChildText (ie_chunks e)) (ie_request e)))"

definition validate_resize :: "input_envelope \<Rightarrow> command_error + browser_command" where
  "validate_resize e =
     (if ie_request e \<noteq> 0 \<or> ie_text e \<noteq> None \<or> ie_bytes e \<noteq> None \<or> ie_chunks e \<noteq> [] \<or> ie_direction e \<noteq> [] \<or> ie_lines e \<noteq> 0
         \<or> ie_column e \<noteq> None \<or> ie_modifiers e \<noteq> None \<or> ie_row e \<noteq> None \<or> ie_source e \<noteq> None
         \<or> ie_cols e < 2 \<or> 1000 < ie_cols e \<or> ie_rows e < 1 \<or> 1000 < ie_rows e then Inl ResizeFields
      else Inr ((plain_command [ChildResize (ie_cols e) (ie_rows e)] 0)\<lparr>bc_hold := ie_keep e\<rparr>))"

definition outside :: "int \<Rightarrow> int \<Rightarrow> int option \<Rightarrow> bool" where
  "outside lo hi v \<longleftrightarrow> (case v of None \<Rightarrow> True | Some n \<Rightarrow> n < lo \<or> hi < n)"

definition validate_scroll :: "input_envelope \<Rightarrow> command_error + browser_command" where
  "validate_scroll e =
     (if ie_request e \<noteq> 0 \<or> ie_text e \<noteq> None \<or> ie_bytes e \<noteq> None \<or> ie_chunks e \<noteq> [] \<or> ie_cols e \<noteq> 0 \<or> ie_rows e \<noteq> 0 \<or> ie_keep e \<noteq> None
         \<or> (ie_direction e \<noteq> ''up'' \<and> ie_direction e \<noteq> ''down'') \<or> ie_lines e < 1 \<or> 1000 < ie_lines e
         \<or> ie_source e \<noteq> Some ''wheel'' \<or> outside 0 999 (ie_column e) \<or> outside 0 999 (ie_row e) \<or> outside 0 13 (ie_modifiers e)
      then Inl ScrollFields
      else Inr (plain_command [ChildScroll (ie_direction e) (ie_lines e) (the (ie_source e)) (the (ie_column e)) (the (ie_row e))
        (the (ie_modifiers e))] 0))"

definition validate_release :: "input_envelope \<Rightarrow> command_error + browser_command" where
  "validate_release e =
     (if ie_request e \<noteq> 0 \<or> ie_text e \<noteq> None \<or> ie_bytes e \<noteq> None \<or> ie_chunks e \<noteq> [] \<or> ie_cols e \<noteq> 0 \<or> ie_rows e \<noteq> 0
         \<or> ie_direction e \<noteq> [] \<or> ie_lines e \<noteq> 0 \<or> ie_column e \<noteq> None \<or> ie_modifiers e \<noteq> None \<or> ie_row e \<noteq> None
         \<or> ie_source e \<noteq> None \<or> ie_keep e \<noteq> None then Inl ReleaseFields
      else Inr ((plain_command [ChildRelease] 0)\<lparr>bc_release := True\<rparr>))"

text \<open>The key of a key command: the objects given for it since the last null.\<close>
definition decode_key :: "fields \<Rightarrow> terminal_key option option" where
  "decode_key fs =
     (let vs = entries ''key'' fs; gs = all_fields (since_null vs)
      in if \<not> list_all (\<lambda>v. is_obj v \<or> v = JNull) vs
            \<or> \<not> list_all (\<lambda>v. known_fields [''base'', ''ctrl'', ''alt'', ''shift'', ''super''] (all_fields [v])
                 \<and> get_string ''base'' (all_fields [v]) \<noteq> None \<and> list_all (\<lambda>n. get_bool n (all_fields [v]) \<noteq> None)
                     [''ctrl'', ''alt'', ''shift'', ''super'']) vs then None
         else if since_null vs = [] then Some None
         else (case (get_string ''base'' gs, get_bool ''ctrl'' gs, get_bool ''alt'' gs, get_bool ''shift'' gs, get_bool ''super'' gs) of
                 (Some b, Some c, Some a, Some sh, Some su) \<Rightarrow>
                   Some (Some \<lparr>tk_base = b, tk_ctrl = c, tk_alt = a, tk_shift = sh, tk_super = su\<rparr>)
               | _ \<Rightarrow> None))"

text \<open>The text that denotes the replacement character is the character itself or its escape, in either case.\<close>
definition spells_replacement :: "string \<Rightarrow> bool" where
  "spells_replacement raw \<longleftrightarrow> raw = CHR 0x22 # encode_rune 0xFFFD @ [CHR 0x22]
     \<or> to_lower raw = CHR 0x22 # CHR 0x5C # ''ufffd'' @ [CHR 0x22]"

definition raw_key_fields :: "fields \<Rightarrow> fields" where
  "raw_key_fields fs = all_fields (since_null (entries ''key'' fs))"

text \<open>A key that is refused keeps its request number for the answer in the code; here it is the error alone.\<close>
definition validated_key_command :: "terminal_lib \<Rightarrow> string \<Rightarrow> command_error + browser_command" where
  "validated_key_command lib msg =
     (case map_option struct_fields (tl_json lib msg) of
        Some (Some fs) \<Rightarrow>
          (case (known_fields [''type'', ''request_id'', ''key''] fs, get_string ''type'' fs, get_uint64 ''request_id'' fs, decode_key fs) of
             (True, Some _, Some rq, Some (Some k)) \<Rightarrow>
               if \<not> valid_utf8 msg \<or> rq < 1 \<or> max_request_id < rq then Inl InvalidKey
               else if tk_base k = encode_rune 0xFFFD \<and> \<not> spells_replacement (trim_space (tl_key_base lib msg)) then Inl InvalidKey
               else if list_ex (\<lambda>(n, v). raw_map (raw_key_fields fs) n = Some JNull) (raw_key_fields fs) then Inl InvalidKey
               else (case canonical_key lib k of None \<Rightarrow> Inl UnsupportedKey
                     | Some name \<Rightarrow> Inr \<lparr>bc_is_key = True, bc_key = name, bc_selection = Some k, bc_children = [], bc_release = False,
                         bc_request = rq, bc_hold = None\<rparr>)
           | _ \<Rightarrow> Inl InvalidKey)
      | _ \<Rightarrow> Inl InvalidKey)"

definition message_kind :: "terminal_lib \<Rightarrow> string \<Rightarrow> string option" where
  "message_kind lib msg =
     (case tl_json lib msg of None \<Rightarrow> None
      | Some v \<Rightarrow> (case struct_fields v of None \<Rightarrow> None | Some fs \<Rightarrow> get_string ''type'' fs))"

definition validate_envelope :: "input_envelope \<Rightarrow> command_error + browser_command" where
  "validate_envelope e =
     (if ie_type e = ''terminal.input'' then validate_input e
      else if ie_type e = ''terminal.input-batch'' then validate_batch e
      else if ie_type e = ''terminal.resize'' then validate_resize e
      else if ie_type e = ''terminal.scroll'' then validate_scroll e
      else if ie_type e = ''terminal.release'' then validate_release e
      else Inl (UnsupportedType (ie_type e)))"

definition validated_command :: "terminal_lib \<Rightarrow> string \<Rightarrow> command_error + browser_command" where
  "validated_command lib msg =
     (if message_kind lib msg = Some ''terminal.send-key'' then validated_key_command lib msg
      else case tl_json lib msg of None \<Rightarrow> Inl InvalidJson
      | Some v \<Rightarrow> (case decode_envelope v of None \<Rightarrow> Inl InvalidJson | Some e \<Rightarrow> validate_envelope e))"

section \<open>Frames of the Herdr TUI\<close>

record terminal_frame =
  tf_bytes :: "string option"
  tf_encoding :: "string option"
  tf_full :: "bool option"
  tf_height :: "int option"
  tf_seq :: "nat option"
  tf_type :: string
  tf_width :: "int option"

definition decode_frame :: "json \<Rightarrow> terminal_frame option" where
  "decode_frame v =
     (case struct_fields v of None \<Rightarrow> None
      | Some fs \<Rightarrow>
        if \<not> known_fields [''bytes'', ''encoding'', ''full'', ''height'', ''seq'', ''type'', ''width''] fs then None
        else (case (get_ptr_string ''bytes'' fs, get_ptr_string ''encoding'' fs, ptr_bool ''full'' fs, ptr_int ''height'' fs,
                 ptr_uint (2 ^ 64) ''seq'' fs, get_string ''type'' fs, ptr_int ''width'' fs) of
                (Some b, Some e, Some f, Some h, Some s, Some t, Some w) \<Rightarrow>
                  Some \<lparr>tf_bytes = b, tf_encoding = e, tf_full = f, tf_height = h, tf_seq = s, tf_type = t, tf_width = w\<rparr>
              | _ \<Rightarrow> None))"

record frame_validator =
  fv_last :: nat
  fv_started :: bool

datatype frame_error = FrameDecode | ClosureFields | FrameFields | NotFull | NotFollowing | DeltaGap | FrameBytes

text \<open>A closure is its reason.\<close>
definition accept_closure :: "json \<Rightarrow> frame_error + string" where
  "accept_closure v =
     (case struct_fields v of None \<Rightarrow> Inl ClosureFields
      | Some fs \<Rightarrow>
        (case (known_fields [''reason'', ''type''] fs, get_string ''reason'' fs) of
           (True, Some r) \<Rightarrow> if r = [] \<or> 8192 < length r then Inl ClosureFields else Inr r
         | _ \<Rightarrow> Inl ClosureFields))"

definition frame_fields_ok :: "terminal_frame \<Rightarrow> bool" where
  "frame_fields_ok f \<longleftrightarrow> tf_type f = ''terminal.frame'' \<and> tf_encoding f = Some ''ansi'' \<and> tf_full f \<noteq> None
     \<and> \<not> outside 1 1000 (tf_width f) \<and> \<not> outside 1 1000 (tf_height f) \<and> (\<exists>s. tf_seq f = Some s \<and> 1 \<le> s) \<and> tf_bytes f \<noteq> None"

lemma frame_fields_ok_code [code]:
  "frame_fields_ok f \<longleftrightarrow> tf_type f = ''terminal.frame'' \<and> tf_encoding f = Some ''ansi'' \<and> tf_full f \<noteq> None
     \<and> \<not> outside 1 1000 (tf_width f) \<and> \<not> outside 1 1000 (tf_height f)
     \<and> (case tf_seq f of None \<Rightarrow> False | Some s \<Rightarrow> 1 \<le> s) \<and> tf_bytes f \<noteq> None"
  by (auto simp: frame_fields_ok_def split: option.splits)

definition accept_frame :: "terminal_frame \<Rightarrow> frame_validator \<Rightarrow> (frame_error + string) \<times> frame_validator" where
  "accept_frame f v =
     (if \<not> frame_fields_ok f then (Inl FrameFields, v)
      else let full = (tf_full f = Some True); seq = the (tf_seq f) in
        if \<not> fv_started v \<and> \<not> full then (Inl NotFull, v)
        else if fv_started v \<and> seq \<le> fv_last v then (Inl NotFollowing, v)
        else if fv_started v \<and> \<not> full \<and> seq \<noteq> (fv_last v + 1) mod 2 ^ 64 then (Inl DeltaGap, v)
        else (case std_b64_decode (the (tf_bytes f)) of None \<Rightarrow> (Inl FrameBytes, v)
          | Some d \<Rightarrow> if max_frame_bytes < length d then (Inl FrameBytes, v)
              else (Inr [], \<lparr>fv_last = seq, fv_started = True\<rparr>)))"

text \<open>\<open>Accept\<close>: the empty text for a frame, the reason for a closure.\<close>
definition accept_line :: "terminal_lib \<Rightarrow> string \<Rightarrow> frame_validator \<Rightarrow> (frame_error + string) \<times> frame_validator" where
  "accept_line lib line v =
     (case message_kind lib line of None \<Rightarrow> (Inl FrameDecode, v)
      | Some kind \<Rightarrow>
        if kind = ''terminal.closed'' then (accept_closure (the (tl_json lib line)), v)
        else (case decode_frame (the (tl_json lib line)) of None \<Rightarrow> (Inl FrameDecode, v) | Some f \<Rightarrow> accept_frame f v))"

text \<open>The frames a stream accepts, in order: whether each is full, and its number.\<close>
fun accepted_frames :: "terminal_lib \<Rightarrow> string list \<Rightarrow> frame_validator \<Rightarrow> (bool \<times> nat) list" where
  "accepted_frames lib [] v = []"
| "accepted_frames lib (l # ls) v =
     (case accept_line lib l v of
        (Inr [], v') \<Rightarrow>
          (case decode_frame (the (tl_json lib l)) of
             Some f \<Rightarrow> (tf_full f = Some True, the (tf_seq f)) # accepted_frames lib ls v'
           | None \<Rightarrow> [])
      | _ \<Rightarrow> [])"

section \<open>Requests for a terminal\<close>

record bridge_settings =
  bs_cols :: int
  bs_mode :: string
  bs_pane :: string
  bs_rows :: int
  bs_takeover :: bool

datatype settings_error = BadPane | BadMode | BadCols | BadRows | BadLines | BadSource

text \<open>The query is a function to the values of its keys, the empty text for a key that is missing; \<open>named\<close> is
  \<open>validTerminalIdentity\<close>.\<close>
definition parse_bridge_settings :: "(string \<Rightarrow> bool) \<Rightarrow> (string \<Rightarrow> string) \<Rightarrow> settings_error + bridge_settings" where
  "parse_bridge_settings named q =
     (let pane = q ''pane''; mode = q ''mode''; cols = atoi (q ''cols''); rows = atoi (q ''rows'') in
      if \<not> named pane then Inl BadPane
      else if mode \<notin> {''observe'', ''control'', ''takeover''} then Inl BadMode
      else if outside 2 1000 cols then Inl BadCols
      else if outside 1 1000 rows then Inl BadRows
      else Inr \<lparr>bs_cols = the cols, bs_mode = mode, bs_pane = pane, bs_rows = the rows, bs_takeover = (mode = ''takeover'')\<rparr>)"

record read_settings =
  rd_lines :: int
  rd_pane :: string
  rd_source :: string

definition parse_read_settings :: "(string \<Rightarrow> bool) \<Rightarrow> (string \<Rightarrow> string) \<Rightarrow> settings_error + read_settings" where
  "parse_read_settings named q =
     (let pane = q ''pane''; lines = atoi (q ''lines''); source = q ''source'' in
      if \<not> named pane then Inl BadPane
      else if outside 1 20000 lines then Inl BadLines
      else if source \<notin> {''recent'', ''recent-unwrapped''} then Inl BadSource
      else Inr \<lparr>rd_lines = the lines, rd_pane = pane, rd_source = source\<rparr>)"

definition read_arguments :: "read_settings \<Rightarrow> string list" where
  "read_arguments s = [''pane'', ''read'', rd_pane s, ''--source'', rd_source s, ''--lines'', itoa (nat (rd_lines s)), ''--format'', ''ansi'', ''--raw'']"

definition session_arguments :: "bridge_settings \<Rightarrow> string \<Rightarrow> string list" where
  "session_arguments s target =
     [''terminal'', ''session'', (if bs_mode s = ''takeover'' then ''control'' else bs_mode s), target, ''--cols'', itoa (nat (bs_cols s)),
      ''--rows'', itoa (nat (bs_rows s))] @ (if bs_takeover s then [''--takeover''] else [])"

end
