(* ===== verification/TerminalInputFacts.thy ===== *)
theory TerminalInputFacts
  imports TerminalInput
begin

text \<open>
  Facts about what pages send and terminals answer: the form of every command that passes, the names of keys, and the order
  of the frames.
\<close>

section \<open>Names of keys\<close>

lemma split_on_plain_sep: "c \<notin> set p \<Longrightarrow> split_on c (p @ c # s) = p # split_on c s"
  by (induction p) auto

lemma split_join_plus:
  "ps \<noteq> [] \<Longrightarrow> (\<And>p. p \<in> set ps \<Longrightarrow> CHR ''+'' \<notin> set p) \<Longrightarrow> split_on (CHR ''+'') (join_plus ps) = ps"
proof (induction ps rule: join_plus.induct)
  case (3 p q ps)
  from 3(1) 3(3) have "split_on (CHR ''+'') (join_plus (q # ps)) = q # ps" by simp
  moreover have "CHR ''+'' \<notin> set p" using 3(3) [of p] by simp
  ultimately show ?case by (simp add: split_on_plain_sep)
qed (simp_all add: split_on_no_sep)

lemma modifiers_plain: "p \<in> set (modifiers c a s u) \<Longrightarrow> CHR ''+'' \<notin> set p"
  by (auto simp: modifiers_def split: if_splits)

lemma digits_plain: "CHR ''+'' \<notin> set (itoa n)"
  using all_digits_itoa [of n] by (auto simp: all_digits_def list_all_iff is_digit_def)

lemma function_key_Some: "function_key s = Some b \<Longrightarrow> b = s \<and> (\<exists>n. 1 \<le> n \<and> n \<le> 12 \<and> s = ''f'' @ itoa n)"
  unfolding function_key_def by (auto split: option.splits if_splits intro!: exI [of _ "nat _"])

lemma decode_rune_tail:
  "decode_rune (b0 # bs) = (r, w, ok) \<Longrightarrow> 128 \<le> b0 \<Longrightarrow> x \<in> set (take (w - 1) bs) \<Longrightarrow> 128 \<le> x"
  unfolding decode_rune_def
  by (auto split: list.splits if_splits simp: is_cont_def dest!: second_ok_cont)

lemma one_rune_plain:
  assumes "rune_count b = 1" "b \<noteq> ''+''"
  shows "CHR ''+'' \<notin> set b"
proof (cases b)
  case (Cons c s)
  obtain r w ok where d: "decode_rune (map byte (c # s)) = (r, w, ok)" by (metis prod_cases3)
  then have one: "rune_chunks (drop (max 1 w) (c # s)) = []"
    using assms(1) Cons by (simp add: rune_count_def rune_chunks.simps(2))
  show ?thesis
  proof (cases "byte c < 128")
    case True
    then have "w = 1" using d by (simp add: decode_rune_ascii)
    then have "s = []" using one by simp
    then show ?thesis using assms(2) Cons by simp
  next
    case False
    have "length (c # s) \<le> max 1 w" using one by simp
    then have "s = take (w - 1) s" by simp
    then have "128 \<le> byte x" if "x \<in> set s" for x
      using decode_rune_tail [of "byte c" "map byte s" r w ok "byte x"] d False that by (simp add: take_map)
    then have "CHR ''+'' \<notin> set s" by fastforce
    then show ?thesis using False Cons by auto
  qed
qed simp

lemma canonical_base_plain:
  assumes "canonical_base lib k = Some b"
  shows "CHR ''+'' \<notin> set b" "b \<noteq> []"
proof -
  have named: "CHR ''+'' \<notin> set n \<and> n \<noteq> []" if "n \<in> set named_keys" for n
    using that by (auto simp: named_keys_def)
  have fn: "CHR ''+'' \<notin> set n \<and> n \<noteq> []" if "function_key s = Some n" for s n
    using function_key_Some [OF that] digits_plain by auto
  have one: "CHR ''+'' \<notin> set k \<and> k \<noteq> []" if "rune_count k = 1" "k \<noteq> ''+''"
    using one_rune_plain [OF that] that by (auto simp: rune_count_def)
  show "CHR ''+'' \<notin> set b" "b \<noteq> []"
    using assms named [of b] fn [of "tl_lower lib k" b] one unfolding canonical_base_def Let_def
    by (auto split: if_splits)
qed

text \<open>A name says which modifiers are held and which key is pressed: its parts are exactly these.\<close>
lemma canonical_key_parts:
  assumes "canonical_key lib k = Some name"
  shows "\<exists>b. canonical_base lib (tk_base k) = Some b
    \<and> split_on (CHR ''+'') name = modifiers (tk_ctrl k) (tk_alt k) (tk_shift k) (tk_super k) @ [b]"
proof -
  from assms obtain b where b: "canonical_base lib (tk_base k) = Some b"
    and n: "name = join_plus (modifiers (tk_ctrl k) (tk_alt k) (tk_shift k) (tk_super k) @ [b])"
    unfolding canonical_key_def by (auto split: option.splits)
  have "split_on (CHR ''+'') name = modifiers (tk_ctrl k) (tk_alt k) (tk_shift k) (tk_super k) @ [b]"
    unfolding n by (rule split_join_plus) (auto dest: modifiers_plain simp: canonical_base_plain(1) [OF b])
  then show ?thesis using b by blast
qed

section \<open>Commands\<close>

definition request_ok :: "browser_command \<Rightarrow> bool" where
  "request_ok c \<longleftrightarrow> 1 \<le> bc_request c \<and> bc_request c \<le> max_request_id"

text \<open>The form of a command, by its kind: a key, text or bytes, a size, a scroll or a release.\<close>
definition key_command :: "terminal_lib \<Rightarrow> browser_command \<Rightarrow> bool" where
  "key_command lib c \<longleftrightarrow> bc_is_key c \<and> bc_children c = [] \<and> \<not> bc_release c \<and> bc_hold c = None \<and> request_ok c
     \<and> (\<exists>k b. bc_selection c = Some k \<and> canonical_base lib (tk_base k) = Some b
          \<and> split_on (CHR ''+'') (bc_key c) = modifiers (tk_ctrl k) (tk_alt k) (tk_shift k) (tk_super k) @ [b])"

definition text_command :: "browser_command \<Rightarrow> bool" where
  "text_command c \<longleftrightarrow> \<not> bc_is_key c \<and> \<not> bc_release c \<and> bc_hold c = None \<and> request_ok c
     \<and> (\<exists>ts. bc_children c = map ChildText ts \<and> ts \<noteq> [] \<and> length ts \<le> 256 \<and> sum_list (map length ts) \<le> max_command_bytes)"

definition bytes_command :: "browser_command \<Rightarrow> bool" where
  "bytes_command c \<longleftrightarrow> \<not> bc_is_key c \<and> \<not> bc_release c \<and> bc_hold c = None \<and> request_ok c
     \<and> (\<exists>s d. bc_children c = [ChildBytes s] \<and> std_b64_decode s = Some d \<and> length d \<le> max_command_bytes)"

definition resize_command :: "browser_command \<Rightarrow> bool" where
  "resize_command c \<longleftrightarrow> \<not> bc_is_key c \<and> \<not> bc_release c \<and> bc_request c = 0
     \<and> (\<exists>w h. bc_children c = [ChildResize w h] \<and> 2 \<le> w \<and> w \<le> 1000 \<and> 1 \<le> h \<and> h \<le> 1000)"

definition scroll_command :: "browser_command \<Rightarrow> bool" where
  "scroll_command c \<longleftrightarrow> \<not> bc_is_key c \<and> \<not> bc_release c \<and> bc_hold c = None \<and> bc_request c = 0
     \<and> (\<exists>d n x y m. bc_children c = [ChildScroll d n ''wheel'' x y m] \<and> d \<in> {''up'', ''down''} \<and> 1 \<le> n \<and> n \<le> 1000
          \<and> 0 \<le> x \<and> x \<le> 999 \<and> 0 \<le> y \<and> y \<le> 999 \<and> 0 \<le> m \<and> m \<le> 13)"

definition release_command :: "browser_command \<Rightarrow> bool" where
  "release_command c \<longleftrightarrow> \<not> bc_is_key c \<and> bc_release c \<and> bc_hold c = None \<and> bc_request c = 0 \<and> bc_children c = [ChildRelease]"

definition well_typed_command :: "terminal_lib \<Rightarrow> browser_command \<Rightarrow> bool" where
  "well_typed_command lib c \<longleftrightarrow> key_command lib c \<or> text_command c \<or> bytes_command c \<or> resize_command c \<or> scroll_command c \<or> release_command c"

lemma chunks_ok_sum: "chunks_ok n cs \<Longrightarrow> n \<le> max_command_bytes \<Longrightarrow> n + sum_list (map length cs) \<le> max_command_bytes"
  by (induction cs arbitrary: n) (auto simp: add.assoc [symmetric])

lemma validate_input_typed:
  assumes "validate_input e = Inr c"
  shows "text_command c \<or> bytes_command c"
proof (cases "ie_text e")
  case (Some t)
  then have "text_command c" using assms unfolding validate_input_def text_command_def plain_command_def request_ok_def
    by (auto split: if_splits intro!: exI [of _ "[t]"])
  then show ?thesis by blast
next
  case None
  then have "bytes_command c" using assms unfolding validate_input_def bytes_command_def plain_command_def request_ok_def
    by (auto split: if_splits option.splits)
  then show ?thesis by blast
qed

lemma validate_batch_typed: "validate_batch e = Inr c \<Longrightarrow> text_command c"
  unfolding validate_batch_def text_command_def plain_command_def request_ok_def
  using chunks_ok_sum [of 0 "ie_chunks e"] by (auto split: if_splits)

lemma validate_resize_typed: "validate_resize e = Inr c \<Longrightarrow> resize_command c"
  unfolding validate_resize_def resize_command_def plain_command_def by (auto split: if_splits)

lemma validate_scroll_typed: "validate_scroll e = Inr c \<Longrightarrow> scroll_command c"
  unfolding validate_scroll_def scroll_command_def plain_command_def outside_def by (auto split: if_splits option.splits)

lemma validate_release_typed: "validate_release e = Inr c \<Longrightarrow> release_command c"
  unfolding validate_release_def release_command_def plain_command_def by (auto split: if_splits)

lemma validated_key_typed:
  assumes "validated_key_command lib msg = Inr c"
  shows "key_command lib c"
proof -
  from assms obtain k rq name where r: "1 \<le> rq" "rq \<le> max_request_id" and n: "canonical_key lib k = Some name"
    and c: "c = \<lparr>bc_is_key = True, bc_key = name, bc_selection = Some k, bc_children = [], bc_release = False, bc_request = rq, bc_hold = None\<rparr>"
    unfolding validated_key_command_def by (auto split: option.splits prod.splits bool.splits if_splits)
  then show ?thesis using canonical_key_parts [OF n] by (simp add: key_command_def request_ok_def)
qed

text \<open>C38.  Every command of a browser that passes validation is well typed: it is a key whose name spells exactly the modifiers and
  the key of the selection, text of at most 256 parts or bytes within the size limit under a request number that JavaScript
  represents exactly, a size of 2 to 1000 columns and 1 to 1000 rows, a scroll within the grid, or a bare release; and it is
  nothing else besides.\<close>
theorem validated_command_typed:
  assumes "validated_command lib msg = Inr c"
  shows "well_typed_command lib c"
proof (cases "message_kind lib msg = Some ''terminal.send-key''")
  case True
  then show ?thesis using assms validated_key_typed by (simp add: validated_command_def well_typed_command_def)
next
  case False
  then obtain e where "validate_envelope e = Inr c" using assms unfolding validated_command_def by (auto split: option.splits)
  then show ?thesis
    unfolding validate_envelope_def well_typed_command_def
    using validate_input_typed validate_batch_typed validate_resize_typed validate_scroll_typed validate_release_typed
    by (auto split: if_splits)
qed

text \<open>A page sets the size of its terminal.\<close>
definition sample_lib :: terminal_lib where
  "sample_lib = \<lparr>tl_json = (\<lambda>_. Some (JObj [(''type'', JStr ''terminal.resize''), (''cols'', JNum ''80''), (''rows'', JNum ''24'')])),
     tl_key_base = (\<lambda>_. []), tl_lower = to_lower, tl_print = (\<lambda>r. 32 \<le> r \<and> r < 127)\<rparr>"

definition sample_fields :: fields where
  "sample_fields = [(''type'', JStr ''terminal.resize''), (''cols'', JNum ''80''), (''rows'', JNum ''24'')]"

lemma sample_entries:
  "list_all (\<lambda>n. entries n sample_fields = (if n = ''type'' then [JStr ''terminal.resize''] else if n = ''cols'' then [JNum ''80'']
     else if n = ''rows'' then [JNum ''24''] else [])) envelope_fields"
  by code_simp

lemma sample_known: "known_fields envelope_fields sample_fields"
  unfolding known_fields_def by (auto simp: sample_fields_def envelope_fields_def)

lemma sample_numbers: "parse_int64 ''80'' = Some 80" "parse_int64 ''24'' = Some 24"
  by code_simp+

lemma sample_resize:
  "message_kind sample_lib ''message'' = Some ''terminal.resize''"
  "decode_envelope (JObj sample_fields)
     = Some \<lparr>ie_bytes = None, ie_chunks = [], ie_column = None, ie_cols = 80, ie_direction = [], ie_keep = None, ie_lines = 0,
         ie_modifiers = None, ie_request = 0, ie_row = None, ie_rows = 24, ie_source = None, ie_text = None, ie_type = ''terminal.resize''\<rparr>"
  "validate_envelope \<lparr>ie_bytes = None, ie_chunks = [], ie_column = None, ie_cols = 80, ie_direction = [], ie_keep = None, ie_lines = 0,
         ie_modifiers = None, ie_request = 0, ie_row = None, ie_rows = 24, ie_source = None, ie_text = None, ie_type = ''terminal.resize''\<rparr>
     = Inr (plain_command [ChildResize 80 24] 0)"
proof -
  have e: "entries n sample_fields = (if n = ''type'' then [JStr ''terminal.resize''] else if n = ''cols'' then [JNum ''80'']
     else if n = ''rows'' then [JNum ''24''] else [])" if "n \<in> set envelope_fields" for n
    using sample_entries that by (auto simp: list_all_iff)
  have en: "entries ''type'' sample_fields = [JStr ''terminal.resize'']" "entries ''cols'' sample_fields = [JNum ''80'']"
    "entries ''rows'' sample_fields = [JNum ''24'']" "entries ''bytes'' sample_fields = []" "entries ''chunks'' sample_fields = []"
    "entries ''column'' sample_fields = []" "entries ''direction'' sample_fields = []" "entries ''keep'' sample_fields = []"
    "entries ''lines'' sample_fields = []" "entries ''modifiers'' sample_fields = []" "entries ''request_id'' sample_fields = []"
    "entries ''row'' sample_fields = []" "entries ''source'' sample_fields = []" "entries ''text'' sample_fields = []"
    by (simp_all add: e envelope_fields_def)
  note d = get_ptr_string_def get_string_def get_strings_def ptr_int_def ptr_bool_def get_int_def get_uint64_def is_str_def str_of_def
    last_or_null_def int_of_def bool_of_def
  show "message_kind sample_lib ''message'' = Some ''terminal.resize''"
    by (simp add: message_kind_def sample_lib_def struct_fields_def d en(1) flip: sample_fields_def)
  show "decode_envelope (JObj sample_fields)
     = Some \<lparr>ie_bytes = None, ie_chunks = [], ie_column = None, ie_cols = 80, ie_direction = [], ie_keep = None, ie_lines = 0,
         ie_modifiers = None, ie_request = 0, ie_row = None, ie_rows = 24, ie_source = None, ie_text = None, ie_type = ''terminal.resize''\<rparr>"
    using sample_known sample_numbers by (simp add: decode_envelope_def struct_fields_def d en)
qed (simp add: validate_envelope_def validate_resize_def plain_command_def)

theorem validated_command_typed_witness:
  "\<exists>c. validated_command sample_lib ''message'' = Inr c \<and> bc_children c = [ChildResize 80 24] \<and> resize_command c"
proof -
  have v: "validated_command sample_lib ''message'' = Inr (plain_command [ChildResize 80 24] 0)"
    unfolding validated_command_def sample_resize(1) by (simp add: sample_lib_def sample_resize flip: sample_fields_def)
  from validated_command_typed [OF v] v show ?thesis
    by (auto simp: well_typed_command_def key_command_def text_command_def bytes_command_def scroll_command_def release_command_def plain_command_def)
qed

section \<open>Frames\<close>

lemma accept_frame_Inr:
  assumes "accept_frame f v = (Inr r, v')"
  shows "v' = \<lparr>fv_last = the (tf_seq f), fv_started = True\<rparr>" "\<not> fv_started v \<longrightarrow> tf_full f = Some True"
    "fv_started v \<longrightarrow> fv_last v < the (tf_seq f)"
    "fv_started v \<and> tf_full f \<noteq> Some True \<longrightarrow> the (tf_seq f) = (fv_last v + 1) mod 2 ^ 64"
  using assms unfolding accept_frame_def Let_def by (auto split: if_splits option.splits)

lemma closure_not_empty: "accept_closure v \<noteq> Inr []"
  by (auto simp: accept_closure_def split: option.splits prod.splits bool.splits if_splits)

text \<open>The accepted frames of a stream start with a full one, their numbers rise, and one that is not full follows the frame
  right before it.\<close>
definition frames_follow :: "frame_validator \<Rightarrow> (bool \<times> nat) list \<Rightarrow> bool" where
  "frames_follow v fs \<longleftrightarrow> (fs \<noteq> [] \<and> \<not> fv_started v \<longrightarrow> fst (hd fs)) \<and> (fv_started v \<longrightarrow> (\<forall>f \<in> set fs. fv_last v < snd f))
     \<and> (fs \<noteq> [] \<and> fv_started v \<and> \<not> fst (hd fs) \<longrightarrow> snd (hd fs) = fv_last v + 1) \<and> sorted_wrt (<) (map snd fs)
     \<and> (\<forall>i. Suc i < length fs \<longrightarrow> \<not> fst (fs ! Suc i) \<longrightarrow> snd (fs ! Suc i) = snd (fs ! i) + 1)"

lemma frames_follow_Cons:
  assumes ok: "frames_follow \<lparr>fv_last = s, fv_started = True\<rparr> fs"
    and "\<not> fv_started v \<longrightarrow> full" "fv_started v \<longrightarrow> fv_last v < s" "fv_started v \<and> \<not> full \<longrightarrow> s = fv_last v + 1"
  shows "frames_follow v ((full, s) # fs)"
proof -
  have "snd (((full, s) # fs) ! Suc i) = snd (((full, s) # fs) ! i) + 1"
    if i: "Suc i < length ((full, s) # fs)" "\<not> fst (((full, s) # fs) ! Suc i)" for i
  proof (cases i)
    case 0
    then show ?thesis using i ok by (cases fs) (auto simp: frames_follow_def)
  next
    case (Suc j)
    then show ?thesis using i ok by (simp add: frames_follow_def)
  qed
  then show ?thesis using assms unfolding frames_follow_def by (auto dest: less_trans)
qed

lemma frames_in_order: "frames_follow v (accepted_frames lib ls v)"
proof (induction lib ls v rule: accepted_frames.induct)
  case (1 lib v)
  then show ?case by (simp add: frames_follow_def)
next
  case (2 lib l ls v)
  have nil: "frames_follow v []" by (simp add: frames_follow_def)
  show ?case
  proof (cases "\<exists>v' f. accept_line lib l v = (Inr [], v') \<and> decode_frame (the (tl_json lib l)) = Some f")
    case True
    then obtain v' f where a: "accept_line lib l v = (Inr [], v')" and f: "decode_frame (the (tl_json lib l)) = Some f" by blast
    have acc: "accept_frame f v = (Inr [], v')"
      using a f closure_not_empty unfolding accept_line_def by (auto split: option.splits if_splits)
    note r = accept_frame_Inr [OF acc]
    have last: "the (tf_seq f) = fv_last v + 1" if "fv_started v" "tf_full f \<noteq> Some True"
    proof -
      have "the (tf_seq f) = (fv_last v + 1) mod 2 ^ 64" "fv_last v < the (tf_seq f)" using r(3,4) that by auto
      then show ?thesis using mod_less_eq_dividend [of "fv_last v + 1" "2 ^ 64"] by linarith
    qed
    have ih: "frames_follow v' (accepted_frames lib ls v')" using 2 [OF a [symmetric] refl refl f] .
    have "frames_follow v ((tf_full f = Some True, the (tf_seq f)) # accepted_frames lib ls v')"
      by (rule frames_follow_Cons) (use ih r last in auto)
    then show ?thesis using a f by simp
  next
    case False
    then have "accepted_frames lib (l # ls) v = []"
      by (auto split: prod.splits sum.splits list.splits option.splits)
    then show ?thesis using nil by simp
  qed
qed

end
