(* ===== verification/TerminalBatch.thy ===== *)
theory TerminalBatch
  imports TerminalTarget TerminalInputFacts AccessManager
begin

text \<open>
  Writing input to a terminal, \<open>internal/server/terminal_batch.go\<close> and the input side of \<open>terminal_core_bridge.go\<close>: batches
  of chunks under the authority of a sign-in and of a lease, the controllers that own a stream, and the size a page holds.

  What happens around a chunk is an attempt: the state of the access manager, of the projector and of the lease when the chunk is
  considered and inside the authority's lock, the answer of the validation, and how many bytes the write took.
\<close>

datatype batch_outcome = BatchNotSent | BatchForwarded | BatchOccupied | BatchUnknown

text \<open>The world at a moment: whether the request has ended, the time, the access manager, the projector, and whether
  the lease of the batch was ended.\<close>
record moment =
  mo_ended :: bool
  mo_now :: time
  mo_manager :: manager
  mo_proj :: "home projector"
  mo_lease_done :: bool

text \<open>\<open>requestAuthorityValid\<close> and \<open>withCommitAuthority\<close>; a request without a session is one of a server without sign-in.\<close>
definition request_authority_valid :: "session_identity option \<Rightarrow> moment \<Rightarrow> bool" where
  "request_authority_valid who mo = (case who of None \<Rightarrow> True | Some s \<Rightarrow> recheck (mo_manager mo) (mo_now mo) s)"

definition with_commit_authority :: "session_identity option \<Rightarrow> moment \<Rightarrow> (access_error + 'a) \<Rightarrow> access_error + 'a" where
  "with_commit_authority who mo op =
     (case who of None \<Rightarrow> op | Some s \<Rightarrow> with_session_read (mo_manager mo) (mo_now mo) s (\<lambda>_. op))"

definition moment_current :: "target_lease option \<Rightarrow> moment \<Rightarrow> bool" where
  "moment_current lease mo = (case lease of None \<Rightarrow> True | Some l \<Rightarrow> lease_current (l\<lparr>ls_done := mo_lease_done mo\<rparr>) (mo_proj mo))"

text \<open>\<open>at_write\<close> is \<open>None\<close> for a write of all bytes and the number of bytes before an error otherwise; \<open>at_owner_ended\<close> and
  \<open>at_exited\<close> say that the request of the stream's owner or the child process has ended.\<close>
record attempt =
  at_before :: moment
  at_inside :: moment
  at_validate :: bool
  at_write :: "nat option"
  at_owner_ended :: bool
  at_exited :: bool

section \<open>Batches for the Herdr TUI\<close>

definition failed_outcome :: "bool \<Rightarrow> batch_outcome" where
  "failed_outcome touched = (if touched then BatchUnknown else BatchNotSent)"

text \<open>\<open>forwardTerminalBatch\<close>: the chunks with their attempts, whether there is a validation, and what was written so far: each
  write with its attempt.  \<open>line\<close> is the JSON of a command with its newline.\<close>
fun forward_loop ::
  "session_identity option \<Rightarrow> target_lease option \<Rightarrow> bool \<Rightarrow> ('c \<Rightarrow> string) \<Rightarrow> ('c \<times> attempt) list \<Rightarrow> bool \<Rightarrow> (attempt \<times> string) list
   \<Rightarrow> batch_outcome \<times> (attempt \<times> string) list" where
  "forward_loop who lease has line [] validated out =
     ((if concat (map snd out) = [] then BatchNotSent else BatchForwarded), out)"
| "forward_loop who lease has line ((c, a) # cs) validated out =
     (let failed = failed_outcome (concat (map snd out) \<noteq> []) in
      if mo_ended (at_before a) \<or> \<not> moment_current lease (at_before a) \<or> \<not> request_authority_valid who (at_before a) then (failed, out)
      else case with_commit_authority who (at_inside a) (Inr ()) of Inl e \<Rightarrow> (failed, out)
      | Inr _ \<Rightarrow>
        if \<not> moment_current lease (at_inside a) \<or> \<not> validated \<and> has \<and> \<not> at_validate a then (failed, out)
        else (case at_write a of
                None \<Rightarrow> forward_loop who lease has line cs (validated \<or> has) (out @ [(a, line c)])
              | Some n \<Rightarrow> let out' = out @ [(a, take n (line c))] in (failed_outcome (concat (map snd out') \<noteq> []), out')))"

definition forward_batch ::
  "session_identity option \<Rightarrow> target_lease option \<Rightarrow> bool \<Rightarrow> ('c \<Rightarrow> string) \<Rightarrow> ('c \<times> attempt) list \<Rightarrow> batch_outcome \<times> (attempt \<times> string) list" where
  "forward_batch who lease has line cs = forward_loop who lease has line cs False []"

text \<open>\<open>terminalInputCommands\<close>.\<close>
definition input_commands :: "string list \<Rightarrow> child_command list option" where
  "input_commands chunks = (if [] \<in> set chunks \<or> chunks = [] then None else Some (map ChildText chunks))"

text \<open>\<open>SendBatch\<close>: a short control session of its own.  It got a lease and its child process started or not; what came first is a
  line of the stream, the end of the stream with what the child process wrote, or the end of the request, the lease or the
  bridge; and \<open>last_mo\<close> is the moment of the authority check after the batch.\<close>
datatype first_event = FirstLine string | FirstEnd string | FirstGone

definition occupied_text :: "string \<Rightarrow> bool" where
  "occupied_text t \<longleftrightarrow> bytes_index t ''already has an attached client'' \<noteq> None"

definition send_batch ::
  "terminal_lib \<Rightarrow> session_identity option \<Rightarrow> target_lease option \<Rightarrow> bool \<Rightarrow> first_event \<Rightarrow> (child_command \<Rightarrow> string) \<Rightarrow> string list
   \<Rightarrow> attempt list \<Rightarrow> moment \<Rightarrow> batch_outcome \<times> (attempt \<times> string) list" where
  "send_batch lib who lease started first line chunks tries last_mo =
     (case input_commands chunks of None \<Rightarrow> (BatchNotSent, [])
      | Some cmds \<Rightarrow>
        if lease = None \<or> \<not> started then (BatchNotSent, [])
        else (case first of
            FirstGone \<Rightarrow> (BatchNotSent, [])
          | FirstEnd detail \<Rightarrow> ((if occupied_text (trim_space detail) then BatchOccupied else BatchNotSent), [])
          | FirstLine l \<Rightarrow>
              (case fst (accept_line lib l \<lparr>fv_last = 0, fv_started = False\<rparr>) of
                 Inl e \<Rightarrow> (BatchNotSent, [])
               | Inr reason \<Rightarrow>
                 if reason \<noteq> [] then ((if occupied_text reason then BatchOccupied else BatchNotSent), [])
                 else (case forward_batch who lease True line (zip cmds tries) of (o1, log) \<Rightarrow>
                   if o1 \<noteq> BatchForwarded then (o1, log)
                   else (case with_commit_authority who last_mo (Inr ()) of Inl e \<Rightarrow> (BatchUnknown, log) | Inr _ \<Rightarrow> (BatchForwarded, log))))))"

section \<open>Batches for herdr-core\<close>

text \<open>\<open>forwardCoreBatch\<close>: a write that was attempted counts, whatever it wrote.\<close>
fun core_forward_loop ::
  "session_identity option \<Rightarrow> target_lease option \<Rightarrow> bool \<Rightarrow> (string \<times> attempt) list \<Rightarrow> (attempt \<times> string) list \<Rightarrow> batch_outcome \<times> (attempt \<times> string) list" where
  "core_forward_loop who lease has [] out = (BatchForwarded, out)"
| "core_forward_loop who lease has ((c, a) # cs) out =
     (let failed = failed_outcome (out \<noteq> []) in
      if mo_ended (at_before a) \<or> \<not> moment_current lease (at_before a) then (failed, out)
      else case with_commit_authority who (at_inside a) (Inr ()) of Inl e \<Rightarrow> (failed, out)
      | Inr _ \<Rightarrow>
        if \<not> moment_current lease (at_inside a) \<or> out = [] \<and> has \<and> \<not> at_validate a then (failed, out)
        else (case at_write a of
                None \<Rightarrow> core_forward_loop who lease has cs (out @ [(a, c)])
              | Some n \<Rightarrow> (BatchUnknown, out @ [(a, take n c)])))"

definition core_forward_batch ::
  "session_identity option \<Rightarrow> target_lease option \<Rightarrow> bool \<Rightarrow> (string \<times> attempt) list \<Rightarrow> batch_outcome \<times> (attempt \<times> string) list" where
  "core_forward_batch who lease has cs = (if cs = [] then (BatchNotSent, []) else core_forward_loop who lease has cs [])"

section \<open>Controllers\<close>

text \<open>A stream that controls a terminal, of either Herdr: the session of its request, its lease, and whether it is registered,
  still controls, and its request or its child process has ended.\<close>
record controller =
  ctl_session :: "session_identity option"
  ctl_lease :: target_lease
  ctl_active :: bool
  ctl_controlled :: bool
  ctl_ended :: bool
  ctl_exited :: bool

text \<open>\<open>Write\<close> and the validation of a controller for the Herdr TUI around an attempt.\<close>
definition owner_attempt :: "attempt \<Rightarrow> attempt" where
  "owner_attempt a = a\<lparr>at_validate := \<not> at_owner_ended a \<and> at_validate a,
     at_write := (if at_owner_ended a \<or> at_exited a then Some 0 else at_write a)\<rparr>"

definition core_owner_attempt :: "attempt \<Rightarrow> attempt" where
  "core_owner_attempt a = a\<lparr>at_validate := \<not> at_owner_ended a \<and> at_validate a\<rparr>"

text \<open>Registered controllers by their handles, and whether the request may use one: it names the terminal and belongs to the same
  sign-in.\<close>
definition usable_controller ::
  "(string \<rightharpoonup> controller) \<Rightarrow> session_identity option \<Rightarrow> string \<Rightarrow> string \<Rightarrow> string \<Rightarrow> controller option" where
  "usable_controller cs who handle pane terminal =
     (case cs handle of None \<Rightarrow> None
      | Some c \<Rightarrow>
        if tt_pane (ls_target (ctl_lease c)) \<noteq> pane \<or> tt_terminal (ls_target (ctl_lease c)) \<noteq> terminal \<or> who \<noteq> ctl_session c then None
        else Some c)"

definition send_controller_batch ::
  "(string \<rightharpoonup> controller) \<Rightarrow> session_identity option \<Rightarrow> string \<Rightarrow> string \<Rightarrow> string \<Rightarrow> (child_command \<Rightarrow> string) \<Rightarrow> string list \<Rightarrow> attempt list
   \<Rightarrow> batch_outcome \<times> (attempt \<times> string) list" where
  "send_controller_batch cs who handle pane terminal line chunks tries =
     (case usable_controller cs who handle pane terminal of None \<Rightarrow> (BatchNotSent, [])
      | Some c \<Rightarrow>
        (case input_commands chunks of None \<Rightarrow> (BatchNotSent, [])
         | Some cmds \<Rightarrow>
           if \<not> ctl_active c \<or> \<not> ctl_controlled c \<or> ctl_ended c \<or> ctl_exited c then (BatchNotSent, [])
           else forward_batch who (Some (ctl_lease c)) True line (zip cmds (map owner_attempt tries))))"

definition core_send_controller_batch ::
  "(string \<rightharpoonup> controller) \<Rightarrow> session_identity option \<Rightarrow> string \<Rightarrow> string \<Rightarrow> string \<Rightarrow> string list \<Rightarrow> attempt list
   \<Rightarrow> batch_outcome \<times> (attempt \<times> string) list" where
  "core_send_controller_batch cs who handle pane terminal chunks tries =
     (case usable_controller cs who handle pane terminal of None \<Rightarrow> (BatchNotSent, [])
      | Some c \<Rightarrow>
        if [] \<in> set chunks \<or> \<not> ctl_active c \<or> \<not> ctl_controlled c \<or> ctl_ended c then (BatchNotSent, [])
        else core_forward_batch who (Some (ctl_lease c)) True (zip chunks (map core_owner_attempt tries)))"

text \<open>\<open>registerController\<close> and \<open>unregisterController\<close>.\<close>
definition register_controller :: "string \<Rightarrow> controller \<Rightarrow> (string \<rightharpoonup> controller) \<Rightarrow> (string \<rightharpoonup> controller)" where
  "register_controller handle c cs = cs(handle \<mapsto> c\<lparr>ctl_active := True\<rparr>)"

definition unregister_controller :: "string \<Rightarrow> (string \<rightharpoonup> controller) \<Rightarrow> (string \<rightharpoonup> controller)" where
  "unregister_controller handle cs = cs(handle := None)"

section \<open>A batch is sound\<close>

text \<open>Everything the program checks around a write.\<close>
definition guarded_write :: "session_identity option \<Rightarrow> target_lease option \<Rightarrow> attempt \<Rightarrow> bool" where
  "guarded_write who lease a \<longleftrightarrow> \<not> mo_ended (at_before a) \<and> moment_current lease (at_before a) \<and> moment_current lease (at_inside a)
     \<and> (\<forall>s. who = Some s \<longrightarrow> (\<exists>r. session_of (mo_manager (at_inside a)) s (mo_now (at_inside a)) = Some r
          \<and> active_trust_locked (mo_manager (at_inside a)) (s_trust r)))"

lemma commit_authority_Inr:
  "with_commit_authority who mo (Inr x) = Inr y \<longleftrightarrow> y = x \<and>
     (\<forall>s. who = Some s \<longrightarrow> (\<exists>r. session_of (mo_manager mo) s (mo_now mo) = Some r \<and> active_trust_locked (mo_manager mo) (s_trust r)))"
  by (auto simp: with_commit_authority_def with_session_read_def split: option.splits)

definition written :: "(attempt \<times> string) list \<Rightarrow> string" where
  "written out = concat (map snd out)"

lemma written_simps [simp]: "written [] = []" "written ((a, s) # out) = s @ written out" "written (xs @ ys) = written xs @ written ys"
  by (simp_all add: written_def)

lemma forward_loop_sound:
  assumes "forward_loop who lease has line cs validated out = (o1, out')"
    and "\<forall>x \<in> set out. guarded_write who lease (fst x)"
  shows "(\<forall>x \<in> set out'. guarded_write who lease (fst x)) \<and> (\<exists>more. out' = out @ more
      \<and> (\<exists>rest. concat (map (\<lambda>(c, a). line c) cs) = written more @ rest)
      \<and> (o1 = BatchForwarded \<longrightarrow> written more = concat (map (\<lambda>(c, a). line c) cs))
      \<and> (more \<noteq> [] \<and> has \<and> \<not> validated \<longrightarrow> at_validate (fst (hd more))))
    \<and> (o1 = BatchNotSent \<longrightarrow> written out' = []) \<and> (o1 = BatchForwarded \<or> o1 = BatchUnknown \<longrightarrow> written out' \<noteq> []) \<and> o1 \<noteq> BatchOccupied"
  using assms(1,2)
proof (induction who lease has line cs validated out rule: forward_loop.induct)
  case (1 who lease has line validated out)
  then show ?case by (auto simp: written_def split: if_splits)
next
  case (2 who lease has line c a cs validated out)
  note fo = failed_outcome_def written_def
  show ?case
  proof (cases "guarded_write who lease a \<and> request_authority_valid who (at_before a) \<and> (validated \<or> \<not> has \<or> at_validate a)")
    case False
    then have "o1 = failed_outcome (written out \<noteq> [])" "out' = out"
      using 2(2) by (auto simp: Let_def guarded_write_def commit_authority_Inr written_def split: if_splits sum.splits)
    then show ?thesis using 2(3) by (auto simp: failed_outcome_def split: if_splits)
  next
    case True
    then have g: "guarded_write who lease a" and v: "has \<and> \<not> validated \<longrightarrow> at_validate a" by auto
    have pass: "with_commit_authority who (at_inside a) (Inr ()) = Inr ()"
      using g by (simp add: commit_authority_Inr guarded_write_def)
    show ?thesis
    proof (cases "at_write a")
      case None
      then have e: "forward_loop who lease has line cs (validated \<or> has) (out @ [(a, line c)]) = (o1, out')"
        using 2(2) True pass by (auto simp: Let_def guarded_write_def)
      have ih: "\<forall>x \<in> set (out @ [(a, line c)]). guarded_write who lease (fst x)" using 2(3) g by simp
      note IH = 2(1) [OF refl]
      have "(\<forall>x \<in> set out'. guarded_write who lease (fst x)) \<and> (\<exists>more. out' = (out @ [(a, line c)]) @ more
          \<and> (\<exists>rest. concat (map (\<lambda>(c, a). line c) cs) = written more @ rest)
          \<and> (o1 = BatchForwarded \<longrightarrow> written more = concat (map (\<lambda>(c, a). line c) cs))
          \<and> (more \<noteq> [] \<and> has \<and> \<not> (validated \<or> has) \<longrightarrow> at_validate (fst (hd more))))
        \<and> (o1 = BatchNotSent \<longrightarrow> written out' = []) \<and> (o1 = BatchForwarded \<or> o1 = BatchUnknown \<longrightarrow> written out' \<noteq> []) \<and> o1 \<noteq> BatchOccupied"
        using True by (intro 2(1) [OF refl _ pass _ None e ih]) (auto simp: guarded_write_def)
      then obtain more where m: "out' = (out @ [(a, line c)]) @ more"
          "\<exists>rest. concat (map (\<lambda>(c, a). line c) cs) = written more @ rest"
          "o1 = BatchForwarded \<longrightarrow> written more = concat (map (\<lambda>(c, a). line c) cs)"
        and o: "\<forall>x \<in> set out'. guarded_write who lease (fst x)" "o1 = BatchNotSent \<longrightarrow> written out' = []"
          "o1 = BatchForwarded \<or> o1 = BatchUnknown \<longrightarrow> written out' \<noteq> []" "o1 \<noteq> BatchOccupied" by blast
      have "out' = out @ (a, line c) # more" using m(1) by simp
      moreover have "\<exists>rest. concat (map (\<lambda>(c, a). line c) ((c, a) # cs)) = written ((a, line c) # more) @ rest" using m(2) by auto
      moreover have "o1 = BatchForwarded \<longrightarrow> written ((a, line c) # more) = concat (map (\<lambda>(c, a). line c) ((c, a) # cs))" using m(3) by simp
      moreover have "has \<and> \<not> validated \<longrightarrow> at_validate (fst (hd ((a, line c) # more)))" using v by simp
      ultimately show ?thesis using o by blast
    next
      case (Some n)
      then have e: "out' = out @ [(a, take n (line c))]" "o1 = failed_outcome (written out' \<noteq> [])"
        using 2(2) True pass by (auto simp: Let_def guarded_write_def written_def)
      have "\<exists>rest. concat (map (\<lambda>(c, a). line c) ((c, a) # cs)) = written [(a, take n (line c))] @ rest"
        by (auto intro: exI [of _ "drop n (line c) @ _"] simp flip: append_assoc)
      moreover have "o1 \<noteq> BatchForwarded" "o1 \<noteq> BatchOccupied" "o1 = BatchNotSent \<longrightarrow> written out' = []" "o1 = BatchUnknown \<longrightarrow> written out' \<noteq> []"
        using e(2) by (auto simp: failed_outcome_def split: if_splits)
      moreover have "\<forall>x \<in> set out'. guarded_write who lease (fst x)" using 2(3) g e(1) by simp
      moreover have "has \<and> \<not> validated \<longrightarrow> at_validate (fst (hd [(a, take n (line c))]))" using v by simp
      ultimately show ?thesis using e(1) by blast
    qed
  qed
qed

text \<open>A batch over a session of its own is as honest.\<close>
lemma send_batch_sound:
  assumes "send_batch lib who lease started first line chunks tries last_mo = (o1, log)"
  shows "(\<forall>x \<in> set log. guarded_write who lease (fst x)) \<and> (log \<noteq> [] \<longrightarrow> at_validate (fst (hd log)))
    \<and> (o1 = BatchNotSent \<or> o1 = BatchOccupied \<longrightarrow> written log = []) \<and> (o1 = BatchForwarded \<or> o1 = BatchUnknown \<longrightarrow> written log \<noteq> [])"
proof (cases "log = [] \<and> (o1 = BatchNotSent \<or> o1 = BatchOccupied)")
  case False
  then obtain cmds o2 where f: "forward_batch who lease True line (zip cmds tries) = (o2, log)"
    and o: "o1 = o2 \<or> o2 = BatchForwarded \<and> o1 = BatchUnknown"
    using assms unfolding send_batch_def by (auto split: option.splits if_splits first_event.splits sum.splits prod.splits)
  from forward_loop_sound [OF f [unfolded forward_batch_def]] o show ?thesis by auto
qed auto

lemma core_forward_loop_sound:
  assumes "core_forward_loop who lease has cs out = (o1, out')"
    and "\<forall>x \<in> set out. guarded_write who lease (fst x)"
  shows "(\<forall>x \<in> set out'. guarded_write who lease (fst x)) \<and> (\<exists>more. out' = out @ more
      \<and> (\<exists>rest. concat (map fst cs) = written more @ rest)
      \<and> (o1 = BatchForwarded \<longrightarrow> written more = concat (map fst cs))
      \<and> (more \<noteq> [] \<and> has \<and> out = [] \<longrightarrow> at_validate (fst (hd more))))
    \<and> (o1 = BatchNotSent \<longrightarrow> out' = []) \<and> (o1 = BatchUnknown \<longrightarrow> out' \<noteq> []) \<and> o1 \<noteq> BatchOccupied"
  using assms
proof (induction who lease has cs out rule: core_forward_loop.induct)
  case (1 who lease has out)
  then show ?case by auto
next
  case (2 who lease has c a cs out)
  show ?case
  proof (cases "guarded_write who lease a \<and> (out \<noteq> [] \<or> \<not> has \<or> at_validate a)")
    case False
    then have "o1 = failed_outcome (out \<noteq> [])" "out' = out"
      using 2(2) by (auto simp: Let_def guarded_write_def commit_authority_Inr split: if_splits sum.splits)
    then show ?thesis using 2(3) by (auto simp: failed_outcome_def split: if_splits)
  next
    case True
    then have g: "guarded_write who lease a" and v: "has \<and> out = [] \<longrightarrow> at_validate a" by auto
    have pass: "with_commit_authority who (at_inside a) (Inr ()) = Inr ()"
      using g by (simp add: commit_authority_Inr guarded_write_def)
    show ?thesis
    proof (cases "at_write a")
      case None
      then have e: "core_forward_loop who lease has cs (out @ [(a, c)]) = (o1, out')"
        using 2(2) True pass by (auto simp: Let_def guarded_write_def)
      have ih: "\<forall>x \<in> set (out @ [(a, c)]). guarded_write who lease (fst x)" using 2(3) g by simp
      have "(\<forall>x \<in> set out'. guarded_write who lease (fst x)) \<and> (\<exists>more. out' = (out @ [(a, c)]) @ more
          \<and> (\<exists>rest. concat (map fst cs) = written more @ rest)
          \<and> (o1 = BatchForwarded \<longrightarrow> written more = concat (map fst cs))
          \<and> (more \<noteq> [] \<and> has \<and> out @ [(a, c)] = [] \<longrightarrow> at_validate (fst (hd more))))
        \<and> (o1 = BatchNotSent \<longrightarrow> out' = []) \<and> (o1 = BatchUnknown \<longrightarrow> out' \<noteq> []) \<and> o1 \<noteq> BatchOccupied"
        using True by (intro 2(1) [OF refl _ pass _ None e ih]) (auto simp: guarded_write_def)
      then obtain more where m: "out' = (out @ [(a, c)]) @ more" "\<exists>rest. concat (map fst cs) = written more @ rest"
          "o1 = BatchForwarded \<longrightarrow> written more = concat (map fst cs)"
        and o: "\<forall>x \<in> set out'. guarded_write who lease (fst x)" "o1 = BatchNotSent \<longrightarrow> out' = []"
          "o1 = BatchUnknown \<longrightarrow> out' \<noteq> []" "o1 \<noteq> BatchOccupied" by blast
      have "out' = out @ (a, c) # more" using m(1) by simp
      moreover have "\<exists>rest. concat (map fst ((c, a) # cs)) = written ((a, c) # more) @ rest" using m(2) by auto
      moreover have "o1 = BatchForwarded \<longrightarrow> written ((a, c) # more) = concat (map fst ((c, a) # cs))" using m(3) by simp
      moreover have "has \<and> out = [] \<longrightarrow> at_validate (fst (hd ((a, c) # more)))" using v by simp
      ultimately show ?thesis using o by blast
    next
      case (Some n)
      then have e: "out' = out @ [(a, take n c)]" "o1 = BatchUnknown"
        using 2(2) True pass by (auto simp: Let_def guarded_write_def)
      have "\<exists>rest. concat (map fst ((c, a) # cs)) = written [(a, take n c)] @ rest"
        by (auto intro: exI [of _ "drop n c @ _"] simp flip: append_assoc)
      moreover have "\<forall>x \<in> set out'. guarded_write who lease (fst x)" using 2(3) g e(1) by simp
      moreover have "has \<and> out = [] \<longrightarrow> at_validate (fst (hd [(a, take n c)]))" using v by simp
      ultimately show ?thesis using e by blast
    qed
  qed
qed

text \<open>The bytes a batch is: the JSON lines of its commands for the Herdr TUI, its texts for herdr-core.\<close>
definition batch_bytes :: "bool \<Rightarrow> (child_command \<Rightarrow> string) \<Rightarrow> string list \<Rightarrow> string" where
  "batch_bytes core line chunks = concat (map (if core then id else line \<circ> ChildText) chunks)"

lemma zip_fst_concat: "length ys = length xs \<Longrightarrow> concat (map (\<lambda>(c, a). f c) (zip xs ys)) = concat (map f xs)"
  by (induction xs ys rule: list_induct2') auto

lemma guarded_owner [simp]:
  "guarded_write who lease (owner_attempt a) = guarded_write who lease a" "guarded_write who lease (core_owner_attempt a) = guarded_write who lease a"
  by (simp_all add: guarded_write_def owner_attempt_def core_owner_attempt_def)

text \<open>C39.  A batch of input that a page sends over the stream that controls its terminal (a file's paths) is written under
  authority or not at all.  Whatever was written, was written to a registered, controlling stream of the same terminal and of the
  same sign-in; at every single write the session was active, its sign-in not revoked, and the lease of the terminal current; and the
  caller's validation had passed before the first one.  The outcome is honest: \<open>forwarded\<close> means all bytes of all chunks in order,
  \<open>not sent\<close> means not one byte, and in every case what was written is a beginning of the batch.\<close>
theorem controller_batch_sound:
  assumes len: "length tries = length chunks"
    and run: "(if core then core_send_controller_batch cs who handle pane terminal chunks tries
      else send_controller_batch cs who handle pane terminal line chunks tries) = (outcome, log)"
  shows "(log \<noteq> [] \<longrightarrow> (\<exists>c. cs handle = Some c \<and> ctl_session c = who \<and> ctl_active c \<and> ctl_controlled c \<and> \<not> ctl_ended c
        \<and> tt_pane (ls_target (ctl_lease c)) = pane \<and> tt_terminal (ls_target (ctl_lease c)) = terminal
        \<and> (\<forall>x \<in> set log. guarded_write who (Some (ctl_lease c)) (fst x)) \<and> at_validate (fst (hd log)))
      \<and> (\<exists>rest. batch_bytes core line chunks = written log @ rest))
    \<and> (outcome = BatchForwarded \<longrightarrow> written log = batch_bytes core line chunks)
    \<and> (outcome = BatchNotSent \<longrightarrow> written log = []) \<and> (outcome = BatchUnknown \<longrightarrow> log \<noteq> []) \<and> outcome \<noteq> BatchOccupied"
proof (cases core)
  case True
  note r = run [unfolded if_P [OF True] core_send_controller_batch_def]
  show ?thesis
  proof (cases "\<exists>c. usable_controller cs who handle pane terminal = Some c \<and> \<not> ([] \<in> set chunks \<or> \<not> ctl_active c \<or> \<not> ctl_controlled c \<or> ctl_ended c)
      \<and> zip chunks (map core_owner_attempt tries) \<noteq> []")
    case False
    then show ?thesis using r len by (auto simp: core_forward_batch_def written_def split: option.splits if_splits)
  next
    case usable: True
    then obtain c where u: "usable_controller cs who handle pane terminal = Some c" "ctl_active c" "ctl_controlled c" "\<not> ctl_ended c"
      and f: "core_forward_loop who (Some (ctl_lease c)) True (zip chunks (map core_owner_attempt tries)) [] = (outcome, log)"
      using r by (auto simp: core_forward_batch_def split: if_splits)
    have b: "concat (map fst (zip chunks (map core_owner_attempt tries))) = batch_bytes core line chunks"
      using len by (simp add: batch_bytes_def True)
    from core_forward_loop_sound [OF f] have s: "(\<forall>x \<in> set log. guarded_write who (Some (ctl_lease c)) (fst x))"
        "\<exists>rest. batch_bytes core line chunks = written log @ rest" "outcome = BatchForwarded \<longrightarrow> written log = batch_bytes core line chunks"
        "log \<noteq> [] \<longrightarrow> at_validate (fst (hd log))" "outcome = BatchNotSent \<longrightarrow> log = []" "outcome = BatchUnknown \<longrightarrow> log \<noteq> []" "outcome \<noteq> BatchOccupied"
      unfolding b by auto
    show ?thesis using s u by (auto simp: usable_controller_def split: option.splits if_splits)
  qed
next
  case False
  note r = run [unfolded if_not_P [OF False] send_controller_batch_def]
  show ?thesis
  proof (cases "\<exists>c. usable_controller cs who handle pane terminal = Some c \<and> input_commands chunks = Some (map ChildText chunks)
      \<and> \<not> (\<not> ctl_active c \<or> \<not> ctl_controlled c \<or> ctl_ended c \<or> ctl_exited c)")
    case unusable: False
    then show ?thesis using r by (auto simp: input_commands_def split: option.splits if_splits)
  next
    case True
    then obtain c where u: "usable_controller cs who handle pane terminal = Some c" "ctl_active c" "ctl_controlled c" "\<not> ctl_ended c"
      and f: "forward_loop who (Some (ctl_lease c)) True line (zip (map ChildText chunks) (map owner_attempt tries)) False [] = (outcome, log)"
      using r by (auto simp: forward_batch_def)
    have b: "concat (map (\<lambda>(c, a). line c) (zip (map ChildText chunks) (map owner_attempt tries))) = batch_bytes core line chunks"
      using len by (simp add: batch_bytes_def False zip_fst_concat)
    from forward_loop_sound [OF f] have s: "(\<forall>x \<in> set log. guarded_write who (Some (ctl_lease c)) (fst x))"
        "\<exists>rest. batch_bytes core line chunks = written log @ rest" "outcome = BatchForwarded \<longrightarrow> written log = batch_bytes core line chunks"
        "log \<noteq> [] \<longrightarrow> at_validate (fst (hd log))" "outcome = BatchNotSent \<longrightarrow> written log = []" "outcome = BatchUnknown \<longrightarrow> written log \<noteq> []"
        "outcome \<noteq> BatchOccupied"
      unfolding b by auto
    have "outcome = BatchUnknown \<longrightarrow> log \<noteq> []" using s(6) by auto
    then show ?thesis using s u by (auto simp: usable_controller_def split: option.splits if_splits)
  qed
qed

text \<open>A server without sign-in writes one chunk to a terminal of herdr-core.\<close>
definition sample_moment :: moment where
  "sample_moment = \<lparr>mo_ended = False, mo_now = 0, mo_manager = undefined, mo_proj = wd_proj sample_bound, mo_lease_done = False\<rparr>"

definition sample_attempt :: attempt where
  "sample_attempt = \<lparr>at_before = sample_moment, at_inside = sample_moment, at_validate = True, at_write = None, at_owner_ended = False,
     at_exited = False\<rparr>"

theorem controller_batch_sound_witness:
  "\<exists>c log. core_send_controller_batch [''h'' \<mapsto> c] None ''h'' ''t1'' ''id1'' [''hi''] [sample_attempt] = (BatchForwarded, log)
     \<and> written log = ''hi'' \<and> guarded_write None (Some (ctl_lease c)) (fst (hd log))"
proof -
  obtain l p where a: "acquire_target 0 core_terminal_target_from_state ''t1'' ''id1'' (wd_proj sample_bound) = (Some l, p)"
    using lease_bound by blast
  have k: "known_rule core_terminal_target_from_state" by (simp add: known_rule_def)
  note s = acquire_Some [OF k a]
  have p: "pr_state p = pr_state (wd_proj sample_bound)" "\<not> ls_done l"
    using a s(6) by (auto simp: acquire_target_def lease_current_def split: if_splits option.splits)
  then have l: "lease_current (l\<lparr>ls_done := False\<rparr>) (wd_proj sample_bound)" using s(6) by (simp add: lease_current_def)
  let ?c = "\<lparr>ctl_session = None, ctl_lease = l, ctl_active = True, ctl_controlled = True, ctl_ended = False, ctl_exited = False\<rparr>"
  obtain o1 log where r: "core_send_controller_batch [''h'' \<mapsto> ?c] None ''h'' ''t1'' ''id1'' [''hi''] [sample_attempt] = (o1, log)" by (metis prod.exhaust)
  have "o1 = BatchForwarded \<and> log \<noteq> []"
    using r s(3,4) l by (auto simp: core_send_controller_batch_def usable_controller_def core_forward_batch_def core_owner_attempt_def
        sample_attempt_def sample_moment_def moment_current_def with_commit_authority_def split: if_splits)
  then show ?thesis
    using controller_batch_sound [of "[sample_attempt]" "[''hi'']" True "[''h'' \<mapsto> ?c]" None "''h''" "''t1''" "''id1''" "\<lambda>_. []" o1 log] r
    by (intro exI [of _ ?c] exI [of _ log]) (auto simp: batch_bytes_def)
qed

end
