(* ===== verification/CoreBridge.thy ===== *)
theory CoreBridge
  imports TerminalBatch
begin

text \<open>
  The stream of a herdr-core terminal, \<open>internal/server/terminal_core_bridge.go\<close>: what one command of the browser does, and the
  sizes the pages that control a terminal hold, so that the page used last gets its size back once after another viewer took it.

  A bridge is its open streams by their numbers; every lock of the code is held for one operation here.
\<close>

section \<open>Sizes\<close>

unbundle bit_operations_syntax

type_synonym core_size = "32 word"

text \<open>\<open>coreSize\<close>: the columns above the rows.\<close>
definition core_size :: "int \<Rightarrow> int \<Rightarrow> core_size" where
  "core_size cols rows = push_bit 16 (word_of_int cols) OR (word_of_int rows AND 0xFFFF)"

definition size_cols :: "core_size \<Rightarrow> int" where "size_cols s = uint (drop_bit 16 s)"
definition size_rows :: "core_size \<Rightarrow> int" where "size_rows s = uint (s AND 0xFFFF)"

record size_hold =
  ho_holding :: bool
  ho_armed :: bool
  ho_kept :: nat
  ho_own :: "core_size list"

definition new_hold :: size_hold where
  "new_hold = \<lparr>ho_holding = False, ho_armed = False, ho_kept = 0, ho_own = []\<rparr>"

text \<open>\<open>asked\<close>: the size first, then the others, at most eight in all.\<close>
definition hold_asked :: "core_size \<Rightarrow> size_hold \<Rightarrow> size_hold" where
  "hold_asked s h = h\<lparr>ho_own := s # take 7 (filter (\<lambda>p. p \<noteq> s) (ho_own h))\<rparr>"

definition hold_keep :: "nat \<Rightarrow> size_hold \<Rightarrow> size_hold" where
  "hold_keep order h = h\<lparr>ho_holding := True, ho_armed := True, ho_kept := order\<rparr>"

definition hold_stop :: "size_hold \<Rightarrow> size_hold" where
  "hold_stop h = h\<lparr>ho_holding := False, ho_armed := False\<rparr>"

definition hold_latest :: "size_hold \<Rightarrow> nat \<times> bool" where
  "hold_latest h = (ho_kept h, ho_holding h)"

definition hold_spend :: "size_hold \<Rightarrow> bool \<times> size_hold" where
  "hold_spend h = (ho_armed h, h\<lparr>ho_armed := False\<rparr>)"

definition hold_owns :: "core_size \<Rightarrow> size_hold \<Rightarrow> bool" where
  "hold_owns s h \<longleftrightarrow> s \<in> set (ho_own h)"

definition hold_wanted :: "size_hold \<Rightarrow> core_size option" where
  "hold_wanted h = (if \<not> ho_holding h \<or> ho_own h = [] then None else Some (hd (ho_own h)))"

section \<open>Streams\<close>

record core_session =
  se_terminal :: string
  se_holder :: bool
  se_controlled :: bool
  se_size :: core_size
  se_hold :: size_hold

record core_bridge =
  br_sessions :: "(nat \<times> core_session) list"
  br_keeps :: nat

definition session_at :: "core_bridge \<Rightarrow> nat \<Rightarrow> core_session option" where
  "session_at br n = map_of (br_sessions br) n"

definition set_session :: "nat \<Rightarrow> core_session \<Rightarrow> core_bridge \<Rightarrow> core_bridge" where
  "set_session n s br = br\<lparr>br_sessions := AList.update n s (br_sessions br)\<rparr>"

text \<open>The beginning of \<open>productionSocket\<close>: a stream is known with the size it asks for, then it gets the size core gives.\<close>
definition open_stream :: "nat \<Rightarrow> string \<Rightarrow> bool \<Rightarrow> core_size \<Rightarrow> core_bridge \<Rightarrow> core_bridge" where
  "open_stream n terminal control asked br =
     set_session n \<lparr>se_terminal = terminal, se_holder = control, se_controlled = control, se_size = 0,
       se_hold = hold_asked asked new_hold\<rparr> br"

definition stream_attached :: "nat \<Rightarrow> core_size \<Rightarrow> core_bridge \<Rightarrow> core_bridge" where
  "stream_attached n given br =
     (case session_at br n of None \<Rightarrow> br | Some s \<Rightarrow> set_session n (s\<lparr>se_size := given\<rparr>) br)"

definition close_stream :: "nat \<Rightarrow> core_bridge \<Rightarrow> core_bridge" where
  "close_stream n br = br\<lparr>br_sessions := AList.delete n (br_sessions br)\<rparr>"

text \<open>The holder of a terminal whose \<open>keep:true\<close> came last: one that holds replaces an earlier one.\<close>
definition later_holder :: "string \<Rightarrow> (nat \<times> nat) option \<Rightarrow> nat \<times> core_session \<Rightarrow> (nat \<times> nat) option" where
  "later_holder terminal best e =
     (if se_holder (snd e) \<and> se_terminal (snd e) = terminal \<and> snd (hold_latest (se_hold (snd e)))
         \<and> (case best of None \<Rightarrow> True | Some (_, k) \<Rightarrow> k < fst (hold_latest (se_hold (snd e))))
      then Some (fst e, fst (hold_latest (se_hold (snd e)))) else best)"

definition latest_holder :: "string \<Rightarrow> (nat \<times> core_session) list \<Rightarrow> (nat \<times> nat) option" where
  "latest_holder terminal es = foldl (later_holder terminal) None es"

text \<open>\<open>takesSizeBack\<close>.\<close>
definition takes_size_back :: "nat \<Rightarrow> core_session \<Rightarrow> core_size \<Rightarrow> core_bridge \<Rightarrow> bool \<times> core_bridge" where
  "takes_size_back n s sz br =
     (if list_ex (\<lambda>(_, h). se_holder h \<and> se_terminal h = se_terminal s \<and> hold_owns sz (se_hold h)) (br_sessions br) then (False, br)
      else if map_option fst (latest_holder (se_terminal s) (br_sessions br)) = Some n
        then (case hold_spend (se_hold s) of (armed, h) \<Rightarrow> (armed, set_session n (s\<lparr>se_hold := h\<rparr>) br))
      else (False, br))"

text \<open>The handler of a stream's events gets a size: the flag asks the command loop to take the size back.\<close>
definition size_event :: "nat \<Rightarrow> core_size \<Rightarrow> core_bridge \<Rightarrow> bool \<times> core_bridge" where
  "size_event n sz br =
     (case session_at br n of None \<Rightarrow> (False, br)
      | Some s \<Rightarrow>
        let s' = s\<lparr>se_size := sz\<rparr>; br' = set_session n s' br in
        if se_size s = sz then (False, br') else takes_size_back n s' sz br')"

text \<open>\<open>takeSizeBack\<close>: the size to ask for, if any.\<close>
definition take_size_back :: "nat \<Rightarrow> core_bridge \<Rightarrow> core_size option" where
  "take_size_back n br =
     (case session_at br n of None \<Rightarrow> None
      | Some s \<Rightarrow>
        (case hold_wanted (se_hold s) of None \<Rightarrow> None
         | Some sz \<Rightarrow> if \<not> se_controlled s \<or> se_size s = sz then None else Some sz))"

section \<open>One command\<close>

text \<open>\<open>coreCommandBytes\<close>: the chunks, or the size; \<open>None\<close> when bytes do not decode.\<close>
fun core_command_bytes :: "child_command list \<Rightarrow> string list \<Rightarrow> (string list \<times> (int \<times> int) option) option" where
  "core_command_bytes [] chunks = Some (chunks, None)"
| "core_command_bytes (ChildText t # cs) chunks = core_command_bytes cs (chunks @ [t])"
| "core_command_bytes (ChildBytes b # cs) chunks =
     (case std_b64_decode b of None \<Rightarrow> None | Some d \<Rightarrow> core_command_bytes cs (chunks @ [d]))"
| "core_command_bytes (ChildResize w h # cs) chunks = Some ([], Some (w, h))"
| "core_command_bytes (c # cs) chunks = core_command_bytes cs chunks"

text \<open>What core answers to a key that was pressed.\<close>
datatype key_answer = KeyPressed | KeyRefused string | KeyLost

text \<open>\<open>sendKey\<close>.\<close>
definition core_send_key ::
  "terminal_lib \<Rightarrow> session_identity option \<Rightarrow> target_lease \<Rightarrow> moment \<Rightarrow> key_answer \<Rightarrow> terminal_key \<Rightarrow> batch_outcome" where
  "core_send_key lib who lease mo answer k =
     (case core_key_name lib k of None \<Rightarrow> BatchNotSent
      | Some name \<Rightarrow>
        (case with_commit_authority who mo (Inr ()) of Inl e \<Rightarrow> BatchNotSent
         | Inr _ \<Rightarrow>
           if \<not> moment_current (Some lease) mo then BatchNotSent
           else (case answer of KeyPressed \<Rightarrow> BatchForwarded | KeyRefused code \<Rightarrow> BatchNotSent | KeyLost \<Rightarrow> BatchUnknown)))"

datatype applied =
    Released
  | NotControlled
  | Pressed batch_outcome
  | NotDecoded
  | SizeKept
  | SizeAsked int int
  | NothingSent
  | Sent batch_outcome "(attempt \<times> string) list"

text \<open>What the page says about holding its size.\<close>
definition hold_command :: "bool option \<Rightarrow> nat \<Rightarrow> size_hold \<Rightarrow> size_hold" where
  "hold_command keep order h = (case keep of None \<Rightarrow> h | Some True \<Rightarrow> hold_keep order h | Some False \<Rightarrow> hold_stop h)"

text \<open>\<open>applyCommand\<close>; the moment and the answer are for a key, the attempts for chunks.\<close>
definition apply_command ::
  "terminal_lib \<Rightarrow> session_identity option \<Rightarrow> target_lease \<Rightarrow> moment \<Rightarrow> key_answer \<Rightarrow> attempt list \<Rightarrow> nat \<Rightarrow> browser_command \<Rightarrow> core_bridge
   \<Rightarrow> applied \<times> core_bridge" where
  "apply_command lib who lease mo answer tries n c br =
     (case session_at br n of None \<Rightarrow> (NotControlled, br)
      | Some s \<Rightarrow>
        if bc_release c then (Released, set_session n (s\<lparr>se_controlled := False\<rparr>) br)
        else if \<not> se_controlled s then (NotControlled, br)
        else if bc_is_key c then (Pressed (core_send_key lib who lease mo answer (the (bc_selection c))), br)
        else (case core_command_bytes (bc_children c) [] of
          None \<Rightarrow> (NotDecoded, br)
        | Some (_, Some (cols, rows)) \<Rightarrow>
            let sz = core_size cols rows;
                keeps = (if bc_hold c = Some True then br_keeps br + 1 else br_keeps br);
                s' = s\<lparr>se_hold := hold_command (bc_hold c) keeps (hold_asked sz (se_hold s))\<rparr>
            in ((if bc_hold c = Some False \<or> se_size s = sz then SizeKept else SizeAsked cols rows),
                set_session n s' (br\<lparr>br_keeps := keeps\<rparr>))
        | Some (chunks, None) \<Rightarrow>
            if chunks = [] then (NothingSent, br)
            else (case core_forward_batch who (Some lease) False (zip chunks tries) of (o1, log) \<Rightarrow> (Sent o1 log, br))))"

end
