(* ===== verification/CoreBridgeFacts.thy ===== *)
theory CoreBridgeFacts
  imports CoreBridge
begin

text \<open>
  Facts about the streams of herdr-core: sizes survive their packing, validated commands always decode, and the pages that
  hold their size never fight over it.
\<close>

section \<open>Sizes\<close>

unbundle bit_operations_syntax

lemma core_size_cols_rows:
  assumes "0 \<le> cols" "cols < 2 ^ 16" "0 \<le> rows" "rows < 2 ^ 16"
  shows "size_cols (core_size cols rows) = cols" "size_rows (core_size cols rows) = rows"
proof -
  have high: "\<not> bit v n" if "0 \<le> v" "v < 2 ^ 16" "16 \<le> n" for v :: int and n
  proof -
    have "v = take_bit 16 v" using that(1,2) by (simp add: take_bit_int_eq_self)
    then show ?thesis using that(3) by (metis bit_take_bit_iff not_less)
  qed
  show "size_cols (core_size cols rows) = cols"
  proof (rule bit_eqI)
    fix n
    show "bit (size_cols (core_size cols rows)) n = bit cols n"
      using high [of cols n] assms
      by (cases "n < 16") (auto simp: size_cols_def core_size_def bit_uint_iff bit_simps)
  qed
  show "size_rows (core_size cols rows) = rows"
  proof (rule bit_eqI)
    fix n
    have m: "bit (0xFFFF :: 32 word) n \<longleftrightarrow> n < 16" using bit_mask_iff [of 16 n, where ?'a = "32 word"] by (auto simp: mask_eq_exp_minus_1)
    have mi: "bit (65535 :: int) n \<longleftrightarrow> n < 16" using bit_mask_iff [of 16 n, where ?'a = int] by (simp add: mask_eq_exp_minus_1)
    show "bit (size_rows (core_size cols rows)) n = bit rows n"
      using high [of rows n] assms
      by (cases "n < 16") (auto simp: size_rows_def core_size_def bit_uint_iff bit_simps m mi)
  qed
qed

lemma typed_command_bytes:
  assumes "well_typed_command lib c"
  shows "\<exists>r. core_command_bytes (bc_children c) [] = Some r \<and> (\<forall>w h. snd r = Some (w, h) \<longrightarrow> resize_command c \<and> bc_children c = [ChildResize w h])"
proof -
  have t: "core_command_bytes (map ChildText ts) acc = Some (acc @ ts, None)" for ts acc
    by (induction ts arbitrary: acc) auto
  show ?thesis using assms unfolding well_typed_command_def
    by (auto simp: key_command_def text_command_def bytes_command_def resize_command_def scroll_command_def release_command_def t)
qed

section \<open>Sessions\<close>

lemma session_at_set [simp]: "session_at (set_session m s br) n = (if n = m then Some s else session_at br n)"
  by (simp add: session_at_def set_session_def update_conv')

lemma session_at_close [simp]: "session_at (close_stream m br) n = (if n = m then None else session_at br n)"
  by (auto simp: session_at_def close_stream_def delete_conv')

lemma session_keys [simp]:
  "distinct (map fst (br_sessions br)) \<Longrightarrow> distinct (map fst (br_sessions (set_session n s br)))"
  "distinct (map fst (br_sessions br)) \<Longrightarrow> distinct (map fst (br_sessions (close_stream n br)))"
  by (simp_all add: set_session_def close_stream_def distinct_update distinct_delete)

lemma session_at_mem: "distinct (map fst (br_sessions br)) \<Longrightarrow> (n, s) \<in> set (br_sessions br) \<longleftrightarrow> session_at br n = Some s"
  by (simp add: session_at_def)

lemma set_session_keeps [simp]: "br_keeps (set_session n s br) = br_keeps br" "br_keeps (close_stream n br) = br_keeps br"
  by (simp_all add: set_session_def close_stream_def)

text \<open>A stream that may take the size of its terminal back.\<close>
definition holds_for :: "string \<Rightarrow> core_session \<Rightarrow> bool" where
  "holds_for t s \<longleftrightarrow> se_holder s \<and> se_terminal s = t \<and> ho_holding (se_hold s)"

lemma later_holder_cases:
  "later_holder t best e = (if holds_for t (snd e) \<and> (case best of None \<Rightarrow> True | Some (_, k) \<Rightarrow> k < ho_kept (se_hold (snd e)))
     then Some (fst e, ho_kept (se_hold (snd e))) else best)"
  unfolding later_holder_def holds_for_def hold_latest_def fst_conv snd_conv by (auto split: option.splits)

lemma latest_holder_fold:
  "foldl (later_holder t) best es = Some (n, k) \<Longrightarrow>
     (best = Some (n, k) \<or> (\<exists>s. (n, s) \<in> set es \<and> holds_for t s \<and> ho_kept (se_hold s) = k))
     \<and> (\<forall>e \<in> set es. holds_for t (snd e) \<longrightarrow> ho_kept (se_hold (snd e)) \<le> k) \<and> (\<forall>m j. best = Some (m, j) \<longrightarrow> j \<le> k)"
proof (induction es arbitrary: best)
  case (Cons e es)
  then have ih: "(later_holder t best e = Some (n, k) \<or> (\<exists>s. (n, s) \<in> set es \<and> holds_for t s \<and> ho_kept (se_hold s) = k))
     \<and> (\<forall>e \<in> set es. holds_for t (snd e) \<longrightarrow> ho_kept (se_hold (snd e)) \<le> k)
     \<and> (\<forall>m j. later_holder t best e = Some (m, j) \<longrightarrow> j \<le> k)" by simp
  show ?case
  proof (cases "holds_for t (snd e) \<and> (case best of None \<Rightarrow> True | Some (_, j) \<Rightarrow> j < ho_kept (se_hold (snd e)))")
    case True
    then have "later_holder t best e = Some (fst e, ho_kept (se_hold (snd e)))" by (simp add: later_holder_cases)
    with ih True show ?thesis by (cases e) (fastforce split: option.splits)
  next
    case False
    then have "later_holder t best e = best" unfolding later_holder_cases by argo
    with ih False show ?thesis by (cases best) (auto simp: not_less)
  qed
qed simp

lemma latest_holder_sound:
  assumes "latest_holder t es = Some (n, k)"
  shows "\<exists>s. (n, s) \<in> set es \<and> holds_for t s \<and> ho_kept (se_hold s) = k" "\<forall>e \<in> set es. holds_for t (snd e) \<longrightarrow> ho_kept (se_hold (snd e)) \<le> k"
  using latest_holder_fold [of t None es n k] assms by (auto simp: latest_holder_def)

section \<open>Runs\<close>

text \<open>A run counts, for each stream, how often it was told to keep its size and how often it was asked to take it back.\<close>
record bridge_run =
  rn_bridge :: core_bridge
  rn_kept :: "nat \<Rightarrow> nat"
  rn_taken :: "nat \<Rightarrow> nat"

definition start_run :: bridge_run where
  "start_run = \<lparr>rn_bridge = \<lparr>br_sessions = [], br_keeps = 0\<rparr>, rn_kept = (\<lambda>_. 0), rn_taken = (\<lambda>_. 0)\<rparr>"

text \<open>A command that carries out \<open>keep:true\<close>.\<close>
definition keeps_size :: "nat \<Rightarrow> browser_command \<Rightarrow> core_bridge \<Rightarrow> bool" where
  "keeps_size n c br \<longleftrightarrow> bc_hold c = Some True \<and> (\<exists>s. session_at br n = Some s \<and> se_controlled s)"

inductive bridge_step :: "bridge_run \<Rightarrow> bridge_run \<Rightarrow> bool" where
  stream: "session_at (rn_bridge r) n = None \<Longrightarrow> bridge_step r (r\<lparr>rn_bridge := open_stream n t control asked (rn_bridge r)\<rparr>)"
| attached: "bridge_step r (r\<lparr>rn_bridge := stream_attached n given (rn_bridge r)\<rparr>)"
| gone: "bridge_step r (r\<lparr>rn_bridge := close_stream n (rn_bridge r)\<rparr>)"
| sized: "size_event n sz (rn_bridge r) = (taken, br)
    \<Longrightarrow> bridge_step r (r\<lparr>rn_bridge := br, rn_taken := (rn_taken r)(n := rn_taken r n + (if taken then 1 else 0))\<rparr>)"
| command: "well_typed_command lib c \<Longrightarrow> apply_command lib who lease mo answer tries n c (rn_bridge r) = (done1, br)
    \<Longrightarrow> bridge_step r (r\<lparr>rn_bridge := br, rn_kept := (rn_kept r)(n := rn_kept r n + (if keeps_size n c (rn_bridge r) then 1 else 0))\<rparr>)"

abbreviation bridge_steps :: "bridge_run \<Rightarrow> bridge_run \<Rightarrow> bool" where
  "bridge_steps \<equiv> bridge_step\<^sup>*\<^sup>*"

definition hold_ok :: "nat \<Rightarrow> size_hold \<Rightarrow> bool" where
  "hold_ok keeps h \<longleftrightarrow> (ho_armed h \<longrightarrow> ho_holding h) \<and> ho_own h \<noteq> [] \<and> ho_kept h \<le> keeps"

definition run_ok :: "bridge_run \<Rightarrow> bool" where
  "run_ok r \<longleftrightarrow> distinct (map fst (br_sessions (rn_bridge r)))
     \<and> (\<forall>n. rn_taken r n \<le> rn_kept r n)
     \<and> (\<forall>n s. session_at (rn_bridge r) n = Some s \<longrightarrow> hold_ok (br_keeps (rn_bridge r)) (se_hold s)
          \<and> (ho_armed (se_hold s) \<longrightarrow> rn_taken r n < rn_kept r n))
     \<and> (\<forall>n m s s'. session_at (rn_bridge r) n = Some s \<longrightarrow> session_at (rn_bridge r) m = Some s' \<longrightarrow> n \<noteq> m
          \<longrightarrow> ho_holding (se_hold s) \<longrightarrow> ho_holding (se_hold s') \<longrightarrow> ho_kept (se_hold s) \<noteq> ho_kept (se_hold s'))"

lemma session_cases:
  assumes "distinct (map fst (br_sessions br))" "(n, s) \<in> set (br_sessions br)"
  shows "session_at br n = Some s"
  using assms by (simp add: session_at_def)

lemma takes_size_back_True:
  assumes "takes_size_back n s sz br = (True, br')" "distinct (map fst (br_sessions br))" "session_at br n = Some s"
  shows "holds_for (se_terminal s) s" "ho_armed (se_hold s)" "br' = set_session n (s\<lparr>se_hold := (se_hold s)\<lparr>ho_armed := False\<rparr>\<rparr>) br"
    "\<And>m h. session_at br m = Some h \<Longrightarrow> holds_for (se_terminal s) h \<Longrightarrow> ho_kept (se_hold h) \<le> ho_kept (se_hold s)"
    "\<And>m h. session_at br m = Some h \<Longrightarrow> se_holder h \<Longrightarrow> se_terminal h = se_terminal s \<Longrightarrow> sz \<notin> set (ho_own (se_hold h))"
proof -
  from assms(1) have no: "\<not> list_ex (\<lambda>(_, h). se_holder h \<and> se_terminal h = se_terminal s \<and> hold_owns sz (se_hold h)) (br_sessions br)"
    and l: "map_option fst (latest_holder (se_terminal s) (br_sessions br)) = Some n"
    and a: "ho_armed (se_hold s)" "br' = set_session n (s\<lparr>se_hold := (se_hold s)\<lparr>ho_armed := False\<rparr>\<rparr>) br"
    unfolding takes_size_back_def hold_spend_def by (auto split: if_splits)
  obtain k where k: "latest_holder (se_terminal s) (br_sessions br) = Some (n, k)" using l by auto
  obtain s1 where s1: "(n, s1) \<in> set (br_sessions br)" "holds_for (se_terminal s) s1" "ho_kept (se_hold s1) = k"
    using latest_holder_sound(1) [OF k] by blast
  then have "s1 = s" using session_cases [OF assms(2)] assms(3) by fastforce
  then show "holds_for (se_terminal s) s" using s1(2) by simp
  show "ho_armed (se_hold s)" "br' = set_session n (s\<lparr>se_hold := (se_hold s)\<lparr>ho_armed := False\<rparr>\<rparr>) br" by (fact a)+
  show "ho_kept (se_hold h) \<le> ho_kept (se_hold s)" if "session_at br m = Some h" "holds_for (se_terminal s) h" for m h
  proof -
    have "(m, h) \<in> set (br_sessions br)" using that(1) session_at_mem [OF assms(2)] by blast
    then show ?thesis using latest_holder_sound(2) [OF k] that(2) s1(3) \<open>s1 = s\<close> by force
  qed
  show "sz \<notin> set (ho_own (se_hold h))" if "session_at br m = Some h" "se_holder h" "se_terminal h = se_terminal s" for m h
  proof -
    have "(m, h) \<in> set (br_sessions br)" using that(1) session_at_mem [OF assms(2)] by blast
    then show ?thesis using no that(2,3) by (auto simp: list_ex_iff hold_owns_def)
  qed
qed

lemma takes_size_back_False:
  assumes "takes_size_back n s sz br = (False, br')" "session_at br n = Some s"
  shows "br' = br \<or> br' = set_session n s br \<and> \<not> ho_armed (se_hold s)"
proof -
  have "s\<lparr>se_hold := (se_hold s)\<lparr>ho_armed := False\<rparr>\<rparr> = s" if "\<not> ho_armed (se_hold s)"
    using that by (cases s, cases "se_hold s") simp
  moreover have "br' = br \<or> br' = set_session n (s\<lparr>se_hold := (se_hold s)\<lparr>ho_armed := False\<rparr>\<rparr>) br \<and> \<not> ho_armed (se_hold s)"
    using assms(1) unfolding takes_size_back_def hold_spend_def by (auto split: if_splits)
  ultimately show ?thesis by metis
qed

text \<open>Setting a stream keeps the invariant, when the new hold is in order.\<close>
lemma run_ok_set:
  assumes ok: "run_ok r" and keeps: "br_keeps br \<ge> br_keeps (rn_bridge r)" and br: "br_sessions br = br_sessions (rn_bridge r)"
    and taken: "\<And>m. m \<noteq> n \<Longrightarrow> taken m = rn_taken r m \<and> kept m = rn_kept r m" "taken n \<le> kept n"
    and s: "hold_ok (br_keeps br) (se_hold s)" "ho_armed (se_hold s) \<longrightarrow> taken n < kept n"
    and new: "\<And>m s'. m \<noteq> n \<Longrightarrow> session_at (rn_bridge r) m = Some s' \<Longrightarrow> ho_holding (se_hold s') \<Longrightarrow> ho_holding (se_hold s)
      \<Longrightarrow> ho_kept (se_hold s) \<noteq> ho_kept (se_hold s')"
  shows "run_ok \<lparr>rn_bridge = set_session n s br, rn_kept = kept, rn_taken = taken\<rparr>"
proof -
  have at: "session_at br m = session_at (rn_bridge r) m" for m using br by (simp add: session_at_def)
  have mono: "hold_ok (br_keeps br) h" if "hold_ok (br_keeps (rn_bridge r)) h" for h using that keeps by (auto simp: hold_ok_def)
  have "taken m \<le> kept m" for m using taken ok by (cases "m = n") (auto simp: run_ok_def)
  moreover have "hold_ok (br_keeps br) (se_hold s') \<and> (ho_armed (se_hold s') \<longrightarrow> taken m < kept m)"
    if "session_at (set_session n s br) m = Some s'" for m s'
    using that s ok taken(1) [of m] mono by (cases "m = n") (auto simp: run_ok_def at)
  moreover have "ho_kept (se_hold s1) \<noteq> ho_kept (se_hold s2)"
    if "session_at (set_session n s br) i = Some s1" "session_at (set_session n s br) j = Some s2" "i \<noteq> j"
      "ho_holding (se_hold s1)" "ho_holding (se_hold s2)" for i j s1 s2
    using that ok new [of i s1] new [of j s2] by (auto simp: run_ok_def at split: if_splits)
  moreover have "distinct (map fst (br_sessions br))" using ok br by (simp add: run_ok_def)
  ultimately show ?thesis by (simp add: run_ok_def)
qed

lemma hold_ok_simps [simp]:
  "hold_ok k (hold_asked sz new_hold)" "hold_ok k h \<Longrightarrow> hold_ok k (hold_asked sz h)" "hold_ok k h \<Longrightarrow> hold_ok k (h\<lparr>ho_armed := False\<rparr>)"
  by (auto simp: hold_ok_def hold_asked_def new_hold_def)

lemma run_ok_session:
  assumes "run_ok r" "session_at (rn_bridge r) n = Some s"
  shows "hold_ok (br_keeps (rn_bridge r)) (se_hold s)" "ho_armed (se_hold s) \<longrightarrow> rn_taken r n < rn_kept r n" "rn_taken r n \<le> rn_kept r n"
    "distinct (map fst (br_sessions (rn_bridge r)))"
    "\<And>m s'. m \<noteq> n \<Longrightarrow> session_at (rn_bridge r) m = Some s' \<Longrightarrow> ho_holding (se_hold s') \<Longrightarrow> ho_holding (se_hold s)
       \<Longrightarrow> ho_kept (se_hold s) \<noteq> ho_kept (se_hold s')"
  using assms unfolding run_ok_def by metis+

lemma run_record: "r\<lparr>rn_bridge := b\<rparr> = \<lparr>rn_bridge = b, rn_kept = rn_kept r, rn_taken = rn_taken r\<rparr>"
  "r\<lparr>rn_bridge := b, rn_taken := t\<rparr> = \<lparr>rn_bridge = b, rn_kept = rn_kept r, rn_taken = t\<rparr>"
  "r\<lparr>rn_bridge := b, rn_kept := k\<rparr> = \<lparr>rn_bridge = b, rn_kept = k, rn_taken = rn_taken r\<rparr>"
  by (cases r, simp)+

lemma run_ok_same: "run_ok r \<Longrightarrow> run_ok \<lparr>rn_bridge = rn_bridge r, rn_kept = rn_kept r, rn_taken = rn_taken r\<rparr>"
  by (cases r) simp

text \<open>Changing the size or the control of a stream, or spending what it may take back, keeps the invariant.\<close>
lemma run_ok_change:
  assumes ok: "run_ok r" and s: "session_at (rn_bridge r) n = Some s" and br: "br_sessions br = br_sessions (rn_bridge r)" "br_keeps br = br_keeps (rn_bridge r)"
    and h: "se_hold s' = se_hold s"
  shows "run_ok \<lparr>rn_bridge = set_session n s' br, rn_kept = rn_kept r, rn_taken = rn_taken r\<rparr>"
  using run_ok_session [OF ok s] by (intro run_ok_set [OF ok]) (auto simp: br h)

lemma run_ok_sized:
  assumes ok: "run_ok r" and e: "size_event n sz (rn_bridge r) = (taken, br)"
  shows "run_ok \<lparr>rn_bridge = br, rn_kept = rn_kept r, rn_taken = (rn_taken r)(n := rn_taken r n + (if taken then 1 else 0))\<rparr>"
proof (cases "session_at (rn_bridge r) n")
  case None
  then show ?thesis using e run_ok_same [OF ok] by (simp add: size_event_def)
next
  case (Some s)
  let ?s = "s\<lparr>se_size := sz\<rparr>"
  let ?b = "set_session n ?s (rn_bridge r)"
  have kept: "run_ok \<lparr>rn_bridge = ?b, rn_kept = rn_kept r, rn_taken = rn_taken r\<rparr>" by (rule run_ok_change [OF ok Some]) simp_all
  show ?thesis
  proof (cases taken)
    case False
    have "br = ?b \<or> br = set_session n ?s ?b"
      using e Some False takes_size_back_False [of n ?s sz ?b br] by (auto simp: size_event_def Let_def split: if_splits)
    moreover have "run_ok \<lparr>rn_bridge = set_session n ?s ?b, rn_kept = rn_kept r, rn_taken = rn_taken r\<rparr>"
      using run_ok_change [OF kept, of n ?s ?b ?s] by simp
    ultimately show ?thesis using kept False by auto
  next
    case True
    then have t: "takes_size_back n ?s sz ?b = (True, br)" using e Some by (auto simp: size_event_def Let_def split: if_splits)
    have d: "distinct (map fst (br_sessions ?b))" using run_ok_session(4) [OF ok Some] by simp
    note b = takes_size_back_True [OF t d]
    let ?h = "?s\<lparr>se_hold := (se_hold ?s)\<lparr>ho_armed := False\<rparr>\<rparr>"
    have br: "br = set_session n ?h ?b" "ho_armed (se_hold s)" using b(2,3) by auto
    note rs = run_ok_session [OF ok Some]
    have "run_ok \<lparr>rn_bridge = set_session n ?h ?b, rn_kept = rn_kept r, rn_taken = (rn_taken r)(n := rn_taken r n + 1)\<rparr>"
      by (rule run_ok_set [OF kept]) (use rs br(2) in auto)
    then show ?thesis using br(1) True by simp
  qed
qed

lemma hold_command_ok:
  assumes "hold_ok k h" "k \<le> k'"
  shows "hold_ok k' (hold_command keep k' h)" "keep \<noteq> Some True \<Longrightarrow> ho_armed (hold_command keep k' h) \<Longrightarrow> ho_armed h"
    "keep \<noteq> Some True \<Longrightarrow> ho_kept (hold_command keep k' h) = ho_kept h" "keep = Some True \<Longrightarrow> ho_kept (hold_command keep k' h) = k'"
    "keep \<noteq> Some True \<Longrightarrow> ho_holding (hold_command keep k' h) \<Longrightarrow> ho_holding h"
  using assms by (auto simp: hold_command_def hold_ok_def hold_keep_def hold_stop_def split: option.splits bool.splits)

lemma run_ok_resize:
  assumes ok: "run_ok r" and s: "session_at (rn_bridge r) n = Some s"
    and keeps: "keeps = (if keep = Some True then br_keeps (rn_bridge r) + 1 else br_keeps (rn_bridge r))"
    and h: "se_hold s' = hold_command keep keeps (hold_asked sz (se_hold s))"
  shows "run_ok \<lparr>rn_bridge = set_session n s' ((rn_bridge r)\<lparr>br_keeps := keeps\<rparr>),
    rn_kept = (rn_kept r)(n := rn_kept r n + (if keep = Some True then 1 else 0)), rn_taken = rn_taken r\<rparr>"
proof -
  note rs = run_ok_session [OF ok s]
  have k: "br_keeps (rn_bridge r) \<le> keeps" by (simp add: keeps)
  have a: "hold_ok (br_keeps (rn_bridge r)) (hold_asked sz (se_hold s))" using rs(1) by simp
  have same: "ho_armed (hold_asked sz (se_hold s)) = ho_armed (se_hold s)" "ho_holding (hold_asked sz (se_hold s)) = ho_holding (se_hold s)"
    "ho_kept (hold_asked sz (se_hold s)) = ho_kept (se_hold s)" by (simp_all add: hold_asked_def)
  note c = hold_command_ok [OF a k, where keep = keep, folded h, unfolded same]
  have other: "ho_kept (se_hold s'') \<le> br_keeps (rn_bridge r)" if "session_at (rn_bridge r) m = Some s''" for m s''
    using run_ok_session(1) [OF ok that] by (simp add: hold_ok_def)
  show ?thesis
  proof (rule run_ok_set [OF ok])
    show "ho_kept (se_hold s') \<noteq> ho_kept (se_hold s'')"
      if "m \<noteq> n" "session_at (rn_bridge r) m = Some s''" "ho_holding (se_hold s'')" "ho_holding (se_hold s')" for m s''
    proof (cases "keep = Some True")
      case True
      then show ?thesis using c(4) keeps other [OF that(2)] by simp
    next
      case False
      then show ?thesis using c(3,5) rs(5) [OF that(1-3)] that(4) by simp
    qed
  qed (use c rs k in \<open>auto split: if_splits\<close>)
qed

lemma typed_hold: "well_typed_command lib c \<Longrightarrow> bc_hold c = Some b \<Longrightarrow> resize_command c"
  by (auto simp: well_typed_command_def key_command_def text_command_def bytes_command_def scroll_command_def release_command_def)

lemma run_ok_command:
  assumes ok: "run_ok r" and typed: "well_typed_command lib c"
    and a: "apply_command lib who lease mo answer tries n c (rn_bridge r) = (res, br)"
  shows "run_ok \<lparr>rn_bridge = br, rn_kept = (rn_kept r)(n := rn_kept r n + (if keeps_size n c (rn_bridge r) then 1 else 0)), rn_taken = rn_taken r\<rparr>"
proof (cases "session_at (rn_bridge r) n")
  case None
  then show ?thesis using a run_ok_same [OF ok] by (simp add: apply_command_def keeps_size_def)
next
  case (Some s)
  show ?thesis
  proof (cases "se_controlled s \<and> resize_command c")
    case True
    then obtain w h where c: "bc_children c = [ChildResize w h]" "\<not> bc_is_key c" "\<not> bc_release c" unfolding resize_command_def by blast
    let ?k = "if bc_hold c = Some True then br_keeps (rn_bridge r) + 1 else br_keeps (rn_bridge r)"
    let ?s = "s\<lparr>se_hold := hold_command (bc_hold c) ?k (hold_asked (core_size w h) (se_hold s))\<rparr>"
    have br: "br = set_session n ?s ((rn_bridge r)\<lparr>br_keeps := ?k\<rparr>)" using a Some True c by (simp add: apply_command_def Let_def)
    have k: "keeps_size n c (rn_bridge r) \<longleftrightarrow> bc_hold c = Some True" using Some True by (simp add: keeps_size_def)
    show ?thesis unfolding br k
      by (rule run_ok_resize [OF ok Some refl, where keep = "bc_hold c" and sz = "core_size w h" and s' = ?s]) simp
  next
    case False
    then have k: "\<not> keeps_size n c (rn_bridge r)" using Some typed_hold [OF typed] by (auto simp: keeps_size_def)
    obtain chunks rs where bytes: "core_command_bytes (bc_children c) [] = Some (chunks, rs)" "\<forall>w h. rs = Some (w, h) \<longrightarrow> resize_command c"
      using typed_command_bytes [OF typed] by force
    have "br = rn_bridge r \<or> br = set_session n (s\<lparr>se_controlled := False\<rparr>) (rn_bridge r)"
      using a Some False bytes by (auto simp: apply_command_def split: if_splits option.splits prod.splits)
    moreover have "run_ok \<lparr>rn_bridge = set_session n (s\<lparr>se_controlled := False\<rparr>) (rn_bridge r), rn_kept = rn_kept r, rn_taken = rn_taken r\<rparr>"
      by (rule run_ok_change [OF ok Some]) simp_all
    ultimately show ?thesis using k run_ok_same [OF ok] by auto
  qed
qed

lemma run_ok_gone:
  assumes "run_ok r"
  shows "run_ok \<lparr>rn_bridge = close_stream n (rn_bridge r), rn_kept = rn_kept r, rn_taken = rn_taken r\<rparr>"
  using assms unfolding run_ok_def by (auto split: if_splits)

lemma bridge_step_ok: "bridge_step r r' \<Longrightarrow> run_ok r \<Longrightarrow> run_ok r'"
proof (induction rule: bridge_step.induct)
  case (stream r n t control asked)
  then show ?case unfolding run_record open_stream_def
    by (intro run_ok_set) (auto simp: run_ok_def hold_asked_def new_hold_def hold_ok_def)
next
  case (attached r n given)
  show ?case
  proof (cases "session_at (rn_bridge r) n")
    case None
    then show ?thesis using attached run_ok_same by (simp add: stream_attached_def run_record)
  next
    case (Some s)
    then show ?thesis using run_ok_change [OF attached Some] by (simp add: stream_attached_def run_record)
  qed
next
  case (gone r n)
  then show ?case unfolding run_record by (rule run_ok_gone)
next
  case (sized n sz r taken br)
  then show ?case unfolding run_record(2) by (intro run_ok_sized)
next
  case (command lib c who lease mo answer tries n r done1 br)
  then show ?case unfolding run_record(3) by (intro run_ok_command)
qed

lemma start_run_ok: "run_ok start_run"
  by (simp add: start_run_def run_ok_def session_at_def)

lemma bridge_steps_ok: "bridge_steps start_run r \<Longrightarrow> run_ok r"
  by (induction rule: rtranclp_induct) (auto intro: bridge_step_ok start_run_ok)

section \<open>Nobody fights over a size\<close>

text \<open>C40.  The pages of a herdr-core terminal never fight over its size.  In every run of any number of streams, a page asks for its
  size back at most as often as it said that it keeps it.  It is asked only while it holds the terminal and had not asked since its
  last \<open>keep:true\<close>, which came after that of every other page that holds the same terminal, and only for a size that no page there had
  asked for.  Afterwards it has nothing left to ask for, and the size it then asks for is answered by no page.\<close>
theorem size_hold_bounded:
  assumes run: "bridge_steps start_run r"
  shows "rn_taken r n \<le> rn_kept r n
    \<and> (\<forall>sz br. size_event n sz (rn_bridge r) = (True, br) \<longrightarrow>
        rn_taken r n < rn_kept r n
        \<and> (\<exists>s. session_at (rn_bridge r) n = Some s \<and> holds_for (se_terminal s) s
            \<and> (\<forall>m h. session_at (rn_bridge r) m = Some h \<and> m \<noteq> n \<and> holds_for (se_terminal s) h \<longrightarrow> ho_kept (se_hold h) < ho_kept (se_hold s))
            \<and> (\<forall>m h. session_at (rn_bridge r) m = Some h \<and> se_holder h \<and> se_terminal h = se_terminal s \<longrightarrow> sz \<notin> set (ho_own (se_hold h)))
            \<and> (\<forall>sz'. \<not> fst (size_event n sz' br))
            \<and> (\<forall>w m h. take_size_back n br = Some w \<and> session_at br m = Some h \<and> se_terminal h = se_terminal s \<longrightarrow> \<not> fst (size_event m w br))))"
proof -
  note ok = bridge_steps_ok [OF run]
  have bound: "rn_taken r n \<le> rn_kept r n" using ok by (simp add: run_ok_def)
  have "rn_taken r n < rn_kept r n \<and> (\<exists>s. session_at (rn_bridge r) n = Some s \<and> holds_for (se_terminal s) s
      \<and> (\<forall>m h. session_at (rn_bridge r) m = Some h \<and> m \<noteq> n \<and> holds_for (se_terminal s) h \<longrightarrow> ho_kept (se_hold h) < ho_kept (se_hold s))
      \<and> (\<forall>m h. session_at (rn_bridge r) m = Some h \<and> se_holder h \<and> se_terminal h = se_terminal s \<longrightarrow> sz \<notin> set (ho_own (se_hold h)))
      \<and> (\<forall>sz'. \<not> fst (size_event n sz' br))
      \<and> (\<forall>w m h. take_size_back n br = Some w \<and> session_at br m = Some h \<and> se_terminal h = se_terminal s \<longrightarrow> \<not> fst (size_event m w br)))"
    if e: "size_event n sz (rn_bridge r) = (True, br)" for sz br
  proof -
    obtain s where s: "session_at (rn_bridge r) n = Some s" using e by (auto simp: size_event_def split: option.splits)
    let ?s = "s\<lparr>se_size := sz\<rparr>"
    let ?b = "set_session n ?s (rn_bridge r)"
    note rs = run_ok_session [OF ok s]
    have t: "takes_size_back n ?s sz ?b = (True, br)" using e s by (auto simp: size_event_def Let_def split: if_splits)
    have d: "distinct (map fst (br_sessions ?b))" using rs(4) by simp
    note b = takes_size_back_True [OF t d]
    let ?h = "?s\<lparr>se_hold := (se_hold ?s)\<lparr>ho_armed := False\<rparr>\<rparr>"
    have at: "session_at br m = (if m = n then Some ?h else session_at (rn_bridge r) m)" for m using b(3) by simp
    have hold: "holds_for (se_terminal s) s" using b(1) by (simp add: holds_for_def)
    have last: "ho_kept (se_hold h) < ho_kept (se_hold s)" if "session_at (rn_bridge r) m = Some h" "m \<noteq> n" "holds_for (se_terminal s) h" for m h
    proof -
      have "ho_kept (se_hold h) \<le> ho_kept (se_hold s)" using b(4) [of m h] that by simp
      moreover have "ho_kept (se_hold s) \<noteq> ho_kept (se_hold h)" using rs(5) [OF that(2,1)] that(3) hold by (auto simp: holds_for_def)
      ultimately show ?thesis by simp
    qed
    have foreign: "sz \<notin> set (ho_own (se_hold h))" if "session_at (rn_bridge r) m = Some h" "se_holder h" "se_terminal h = se_terminal s" for m h
      using b(5) [of n ?s] b(5) [of m h] that s by (cases "m = n") auto
    have spent: "\<not> fst (size_event n sz' br)" for sz'
    proof
      assume "fst (size_event n sz' br)"
      then obtain br2 where "takes_size_back n (?h\<lparr>se_size := sz'\<rparr>) sz' (set_session n (?h\<lparr>se_size := sz'\<rparr>) br) = (True, br2)"
        using at [of n] by (cases "takes_size_back n (?h\<lparr>se_size := sz'\<rparr>) sz' (set_session n (?h\<lparr>se_size := sz'\<rparr>) br)")
          (auto simp: size_event_def Let_def split: if_splits)
      then have "ho_armed (se_hold (?h\<lparr>se_size := sz'\<rparr>))" unfolding takes_size_back_def hold_spend_def by (auto split: if_splits)
      then show False by simp
    qed
    have quiet: "\<not> fst (size_event m w br)"
      if w: "take_size_back n br = Some w" and h: "session_at br m = Some h" and th: "se_terminal h = se_terminal s" for w m h
    proof -
      have own: "w \<in> set (ho_own (se_hold s))"
        using w at [of n] by (auto simp: take_size_back_def hold_wanted_def split: if_splits)
      let ?b2 = "set_session m (h\<lparr>se_size := w\<rparr>) br"
      obtain x where x: "session_at ?b2 n = Some x" and keep: "se_holder x" "se_terminal x = se_terminal s" "se_hold x = (se_hold s)\<lparr>ho_armed := False\<rparr>"
        using at [of n] h hold by (cases "m = n") (auto simp: holds_for_def)
      have d2: "distinct (map fst (br_sessions ?b2))" using d b(3) by simp
      have "(n, x) \<in> set (br_sessions ?b2)" using x session_at_mem [OF d2] by blast
      moreover have "hold_owns w (se_hold x)" using own keep(3) by (simp add: hold_owns_def)
      ultimately have "list_ex (\<lambda>(_, y). se_holder y \<and> se_terminal y = se_terminal (h\<lparr>se_size := w\<rparr>) \<and> hold_owns w (se_hold y))
          (br_sessions ?b2)"
        using keep th by (auto simp: list_ex_iff)
      then show ?thesis using h by (simp add: size_event_def Let_def takes_size_back_def)
    qed
    have "rn_taken r n < rn_kept r n" using rs(2) b(2) by simp
    then show ?thesis using s hold last foreign spent quiet by blast
  qed
  then show ?thesis using bound by blast
qed

text \<open>A page opens a terminal, is told to keep its size, and the terminal gets another one.\<close>
definition sample_keep :: browser_command where
  "sample_keep = (plain_command [ChildResize 80 24] 0)\<lparr>bc_hold := Some True\<rparr>"

definition sample_resized :: bridge_run where
  "sample_resized =
     (let b0 = open_stream 7 ''t1'' True (core_size 80 24) (rn_bridge start_run)
      in \<lparr>rn_bridge = snd (apply_command sample_lib None undefined undefined KeyPressed [] 7 sample_keep b0),
          rn_kept = (\<lambda>_. 0)(7 := 1), rn_taken = (\<lambda>_. 0)\<rparr>)"

lemma sample_keep_applied:
  "apply_command sample_lib None l mo KeyPressed [] 7 sample_keep (open_stream 7 ''t1'' True (core_size 80 24) (rn_bridge start_run))
     = (SizeAsked 80 24, \<lparr>br_sessions = [(7, \<lparr>se_terminal = ''t1'', se_holder = True, se_controlled = True, se_size = 0,
          se_hold = \<lparr>ho_holding = True, ho_armed = True, ho_kept = 1, ho_own = [core_size 80 24]\<rparr>\<rparr>)], br_keeps = 1\<rparr>)"
proof -
  have "core_size 80 24 \<noteq> 0" using core_size_cols_rows(1) [of 80 24] by (auto simp: size_cols_def)
  then show ?thesis
    by (simp add: apply_command_def sample_keep_def plain_command_def open_stream_def start_run_def set_session_def session_at_def
        hold_asked_def new_hold_def hold_command_def hold_keep_def Let_def)
qed

lemma sample_resized_run: "bridge_steps start_run sample_resized"
proof -
  let ?b0 = "open_stream 7 ''t1'' True (core_size 80 24) (rn_bridge start_run)"
  let ?r0 = "start_run\<lparr>rn_bridge := ?b0\<rparr>"
  have 1: "bridge_step start_run ?r0" by (rule bridge_step.stream) (simp add: start_run_def session_at_def)
  have typed: "well_typed_command sample_lib sample_keep"
    by (simp add: well_typed_command_def resize_command_def sample_keep_def plain_command_def)
  obtain done1 br where a: "apply_command sample_lib None undefined undefined KeyPressed [] 7 sample_keep ?b0 = (done1, br)" by (metis prod.exhaust)
  have k: "keeps_size 7 sample_keep ?b0"
    by (simp add: keeps_size_def sample_keep_def open_stream_def)
  have "bridge_step ?r0 (?r0\<lparr>rn_bridge := br, rn_kept := (rn_kept ?r0)(7 := rn_kept ?r0 7 + (if keeps_size 7 sample_keep (rn_bridge ?r0) then 1 else 0))\<rparr>)"
    by (rule bridge_step.command [OF typed]) (use a in simp)
  then have 2: "bridge_step ?r0 sample_resized"
    using a k by (simp add: sample_resized_def Let_def start_run_def)
  show ?thesis using 1 2 by (meson rtranclp.rtrancl_into_rtrancl rtranclp.rtrancl_refl)
qed

theorem size_hold_bounded_witness:
  "rn_taken sample_resized 7 \<le> rn_kept sample_resized 7 \<and> (\<exists>br. size_event 7 (core_size 100 30) (rn_bridge sample_resized) = (True, br)
     \<and> rn_taken sample_resized 7 < rn_kept sample_resized 7 \<and> \<not> fst (size_event 7 (core_size 60 20) br))"
proof -
  have b: "rn_bridge sample_resized = \<lparr>br_sessions = [(7, \<lparr>se_terminal = ''t1'', se_holder = True, se_controlled = True, se_size = 0,
          se_hold = \<lparr>ho_holding = True, ho_armed = True, ho_kept = 1, ho_own = [core_size 80 24]\<rparr>\<rparr>)], br_keeps = 1\<rparr>"
    by (simp add: sample_resized_def Let_def sample_keep_applied)
  have ne: "core_size 100 30 \<noteq> core_size 80 24" "core_size 100 30 \<noteq> 0"
    using core_size_cols_rows(1) [of 80 24] core_size_cols_rows(1) [of 100 30] by (auto simp: size_cols_def)
  have "\<exists>br. size_event 7 (core_size 100 30) (rn_bridge sample_resized) = (True, br)"
    using ne unfolding b
    by (simp add: size_event_def session_at_def set_session_def takes_size_back_def latest_holder_def later_holder_def hold_latest_def
        hold_owns_def hold_spend_def Let_def)
  then obtain br where e: "size_event 7 (core_size 100 30) (rn_bridge sample_resized) = (True, br)" by blast
  show ?thesis using size_hold_bounded [OF sample_resized_run, of 7] e by blast
qed

end
