(* ===== verification/AccessBoundary.thy ===== *)
theory AccessBoundary
  imports AccessManagerFacts ShareTypes Json
begin

text \<open>
  The boundary every request passes, \<open>internal/server/access_boundary.go\<close>: which routes need a sign-in, and which hosts, origins,
  content types and sessions are let through, with sign-in and without.

  A request is what the boundary reads of it: its host, path, method, the values of its headers, and the session cookie.
\<close>

record http_request =
  hr_host :: string
  hr_path :: string
  hr_method :: string
  hr_origin :: "string list"
  hr_content_type :: "string list"
  hr_connection :: "string list"
  hr_upgrade :: "string list"
  hr_cookie :: "string option"

datatype route_class = RouteUnknown | RoutePublic | RouteProtected | RouteWebSocket

definition is_mutation :: "string \<Rightarrow> bool" where
  "is_mutation m \<longleftrightarrow> m \<in> {''POST'', ''PUT'', ''PATCH'', ''DELETE''}"

definition api_path :: "string \<Rightarrow> bool" where
  "api_path p \<longleftrightarrow> p = ''/api'' \<or> has_prefix p ''/api/''"

definition public_mutations :: "string list" where
  "public_mutations = [''/api/auth/sign-in/begin'', ''/api/auth/sign-in/finish'', ''/api/auth/trust/begin'', ''/api/auth/trust/finish'']"

definition protected_mutations :: "string list" where
  "protected_mutations = [''/api/auth/reauthenticate/begin'', ''/api/auth/reauthenticate/finish'', ''/api/auth/sign-out'',
     ''/api/devices/invitations'', ''/api/devices/revoke'', ''/api/workspace-actions/prepare'', ''/api/workspace-actions'',
     ''/api/terminal-actions/prepare'', ''/api/terminal-actions'', ''/api/notifications/config'', ''/api/notifications/settings/read'',
     ''/api/notifications/settings'', ''/api/terminal/files'', ''/api/shared/delete'']"

definition classify_route :: "string \<Rightarrow> string \<Rightarrow> route_class" where
  "classify_route p m =
     (if m = ''GET'' \<or> m = ''HEAD'' then
        if p = ''/healthz'' then RoutePublic
        else if p = ''/api/home'' \<or> p = ''/api/terminal'' then (if m = ''GET'' then RouteWebSocket else RouteUnknown)
        else if p = ''/api/terminal/read'' \<or> p = ''/api/devices'' then RouteProtected
        else if has_prefix p ''/api/shared/'' \<and> valid_share_id (trim_prefix p ''/api/shared/'') then RouteProtected
        else if \<not> api_path p then RoutePublic
        else RouteUnknown
      else if is_mutation m then
        if p \<in> set public_mutations then (if m = ''POST'' then RoutePublic else RouteUnknown)
        else if p \<in> set protected_mutations then
          (if m = ''POST'' \<or> p = ''/api/notifications/settings'' \<and> m = ''DELETE'' then RouteProtected else RouteUnknown)
        else RouteUnknown
      else RouteUnknown)"

text \<open>\<open>mime.ParseMediaType\<close> takes the exact value it is asked for, which has no parameters.\<close>
definition exact_json_content_type :: "http_request \<Rightarrow> bool" where
  "exact_json_content_type r \<longleftrightarrow> hr_content_type r = [''application/json'']"

definition exact_file_content_type :: "http_request \<Rightarrow> bool" where
  "exact_file_content_type r \<longleftrightarrow> hr_content_type r = [''application/octet-stream'']"

definition exact_mutation_content_type :: "http_request \<Rightarrow> bool" where
  "exact_mutation_content_type r =
     (if hr_path r = ''/api/terminal/files'' then exact_file_content_type r else exact_json_content_type r)"

text \<open>\<open>strings.EqualFold\<close> folds runes as the keys of JSON are folded: the tokens are ASCII letters.\<close>
definition contains_token :: "string list \<Rightarrow> string \<Rightarrow> bool" where
  "contains_token values token \<longleftrightarrow>
     list_ex (\<lambda>v. list_ex (\<lambda>p. fold_key (trim_space p) = fold_key token) (split_on (CHR '','') v)) values"

definition is_websocket_upgrade :: "http_request \<Rightarrow> bool" where
  "is_websocket_upgrade r \<longleftrightarrow> contains_token (hr_connection r) ''upgrade'' \<and> contains_token (hr_upgrade r) ''websocket''"

text \<open>What becomes of a request: an answer, or it is let through, with the session of its sign-in if it has one.\<close>
datatype boundary_answer = Misdirected | NoSuchRoute | Forbidden | SignInAgain | Served "session_identity option"

definition access_boundary :: "origin \<Rightarrow> 'z manager_scheme \<Rightarrow> time \<Rightarrow> http_request \<Rightarrow> boundary_answer" where
  "access_boundary og m now r =
     (if \<not> validate_host og (hr_host r) then Misdirected
      else let kind = classify_route (hr_path r) (hr_method r) in
        if kind = RouteUnknown then (if api_path (hr_path r) then NoSuchRoute else Served None)
        else if is_mutation (hr_method r) \<and> (\<not> validate_origin_header og (hr_origin r) \<or> \<not> exact_mutation_content_type r) then Forbidden
        else if kind = RouteWebSocket \<and> is_websocket_upgrade r \<and> \<not> validate_origin_header og (hr_origin r) then Forbidden
        else if kind = RoutePublic then Served None
        else (case hr_cookie r of None \<Rightarrow> SignInAgain
          | Some token \<Rightarrow>
            (case authenticate_token m now token of None \<Rightarrow> SignInAgain | Some sid \<Rightarrow> Served (Some sid))))"

text \<open>\<open>ConfigureSignInOff\<close>: the hosts that are accepted, with the origin of each.\<close>
definition sign_in_off_origins :: "string \<Rightarrow> origin option \<Rightarrow> string \<rightharpoonup> string" where
  "sign_in_off_origins listen_port named =
     (let auth = (\<lambda>h. if listen_port = ''80'' then h else h @ '':'' @ listen_port);
          local = (\<lambda>m h. m(auth h \<mapsto> ''http://'' @ auth h));
          base = local (local (local Map.empty ''127.0.0.1'') ''[::1]'') ''localhost''
      in case named of None \<Rightarrow> base | Some og \<Rightarrow> base(authority og \<mapsto> origin_value og))"

definition sign_in_off_boundary :: "bool \<Rightarrow> (string \<rightharpoonup> string) \<Rightarrow> http_request \<Rightarrow> boundary_answer" where
  "sign_in_off_boundary sign_in_off origins r =
     (case origins (hr_host r) of None \<Rightarrow> Misdirected
      | Some og \<Rightarrow>
        if \<not> sign_in_off then Misdirected
        else if (is_mutation (hr_method r) \<or> is_websocket_upgrade r) \<and> hr_origin r \<noteq> [og] then Forbidden
        else Served None)"

section \<open>What passes\<close>

lemma public_api_route:
  assumes "classify_route p m = RoutePublic" "api_path p"
  shows "m = ''POST'' \<and> p \<in> set public_mutations"
  using assms by (auto simp: classify_route_def api_path_def split: if_splits)

lemma stream_routes:
  "classify_route ''/api/home'' m = (if m = ''GET'' then RouteWebSocket else RouteUnknown)"
  "classify_route ''/api/terminal'' m = (if m = ''GET'' then RouteWebSocket else RouteUnknown)"
  by (simp_all add: classify_route_def public_mutations_def protected_mutations_def)

text \<open>C11.  The boundary lets nothing of the API through without authority.  With sign-in, a request that is served came for the
  canonical host; if it is for a path of the API, it is one of the four steps that sign a browser in, or it carries a cookie with the
  token of a session that is stored, has not expired and belongs to a sign-in that is not revoked, and that session is what the
  handlers get; if it changes anything under a known route, it came from the canonical origin with the exact content type; and a
  stream is opened from the canonical origin only.\<close>
theorem boundary_guards:
  assumes served: "access_boundary og m now r = Served who"
  shows "hr_host r = authority og
    \<and> (api_path (hr_path r) \<longrightarrow> hr_method r = ''POST'' \<and> hr_path r \<in> set public_mutations \<and> who = None
        \<or> (\<exists>token sid s. hr_cookie r = Some token \<and> who = Some sid \<and> s \<in> set (sessions (mg_state m)) \<and> s_digest s = digest_token token
            \<and> session_live s now \<and> sid = \<lparr>sid_digest = digest_token token, sid_trust = s_trust s\<rparr> \<and> active_trust_locked m (s_trust s)))
    \<and> (is_mutation (hr_method r) \<and> api_path (hr_path r) \<longrightarrow> validate_origin_header og (hr_origin r) \<and> exact_mutation_content_type r)
    \<and> (is_websocket_upgrade r \<and> hr_path r \<in> {''/api/home'', ''/api/terminal''} \<longrightarrow> validate_origin_header og (hr_origin r))"
proof -
  let ?kind = "classify_route (hr_path r) (hr_method r)"
  have host: "validate_host og (hr_host r)" using served by (auto simp: access_boundary_def split: if_splits)
  have known: "?kind \<noteq> RouteUnknown" if "api_path (hr_path r)" using served that by (auto simp: access_boundary_def Let_def split: if_splits)
  have origin: "validate_origin_header og (hr_origin r) \<and> exact_mutation_content_type r"
    if "is_mutation (hr_method r)" "api_path (hr_path r)"
    using served that known by (auto simp: access_boundary_def Let_def split: if_splits)
  have stream: "validate_origin_header og (hr_origin r)" if "is_websocket_upgrade r" "hr_path r \<in> {''/api/home'', ''/api/terminal''}"
  proof -
    have api: "api_path (hr_path r)" using that(2) by (auto simp: api_path_def)
    have "?kind = RouteWebSocket" using known [OF api] that(2)
      by (auto simp: stream_routes split: if_splits)
    then show ?thesis using served that(1) by (auto simp: access_boundary_def Let_def split: if_splits)
  qed
  have session: "hr_method r = ''POST'' \<and> hr_path r \<in> set public_mutations \<and> who = None
      \<or> (\<exists>token sid s. hr_cookie r = Some token \<and> who = Some sid \<and> s \<in> set (sessions (mg_state m)) \<and> s_digest s = digest_token token
            \<and> session_live s now \<and> sid = \<lparr>sid_digest = digest_token token, sid_trust = s_trust s\<rparr> \<and> active_trust_locked m (s_trust s))"
    if api: "api_path (hr_path r)"
  proof (cases "?kind = RoutePublic")
    case True
    then show ?thesis using public_api_route [OF True api] served by (auto simp: access_boundary_def Let_def split: if_splits)
  next
    case False
    then have c: "(case hr_cookie r of None \<Rightarrow> SignInAgain
          | Some token \<Rightarrow> (case authenticate_token m now token of None \<Rightarrow> SignInAgain | Some sid \<Rightarrow> Served (Some sid))) = Served who"
      using served known [OF api] by (simp add: access_boundary_def Let_def split: if_splits)
    then obtain token where t1: "hr_cookie r = Some token" by (cases "hr_cookie r") auto
    then obtain sid where t: "authenticate_token m now token = Some sid" "who = Some sid"
      using c by (cases "authenticate_token m now token") auto
    then obtain s where s: "active_session_locked m (digest_token token) now = Some s"
      and sid: "sid = \<lparr>sid_digest = digest_token token, sid_trust = s_trust s\<rparr>"
      by (auto simp: authenticate_token_def split: if_splits option.splits)
    from s have "s \<in> set (sessions (mg_state m)) \<and> s_digest s = digest_token token \<and> session_live s now \<and> active_trust_locked m (s_trust s)"
      unfolding active_session_locked_def by (auto dest: find_SomeD)
    then show ?thesis using t1 t sid by blast
  qed
  show ?thesis using host origin stream session by (simp add: validate_host_def)
qed

text \<open>Without sign-in, a request passes under one of the accepted hosts only, and changes and streams under its own origin.\<close>
lemma sign_in_off_guards:
  assumes "sign_in_off_boundary off (sign_in_off_origins lp named) r = Served who"
  shows "off \<and> who = None \<and> (\<exists>og. sign_in_off_origins lp named (hr_host r) = Some og
    \<and> (is_mutation (hr_method r) \<or> is_websocket_upgrade r \<longrightarrow> hr_origin r = [og])
    \<and> (og = ''http://'' @ hr_host r \<or> (\<exists>o1. named = Some o1 \<and> hr_host r = authority o1 \<and> og = origin_value o1)))"
  using assms by (auto simp: sign_in_off_boundary_def sign_in_off_origins_def Let_def split: option.splits if_splits)

text \<open>A signed-in browser reads its terminal.\<close>
definition sample_request :: "string \<Rightarrow> http_request" where
  "sample_request token = \<lparr>hr_host = ''a.example'', hr_path = ''/api/terminal/read'', hr_method = ''GET'', hr_origin = [], hr_content_type = [],
     hr_connection = [], hr_upgrade = [], hr_cookie = Some token\<rparr>"

theorem boundary_guards_witness:
  "\<exists>s \<in> set (sessions (mg_state signed_manager)). s_digest s = digest_token sample_token
     \<and> access_boundary \<lparr>authority = ''a.example'', rpid = ''a.example'', origin_value = ''https://a.example''\<rparr> signed_manager 5000
         (sample_request sample_token) = Served (Some \<lparr>sid_digest = digest_token sample_token, sid_trust = s_trust s\<rparr>)"
proof -
  let ?og = "\<lparr>authority = ''a.example'', rpid = ''a.example'', origin_value = ''https://a.example''\<rparr>"
  have "access_boundary ?og signed_manager 5000 (sample_request sample_token) = Served (Some sample_sid)"
    using authenticate_token_iff_witness
    by (simp add: access_boundary_def sample_request_def validate_host_def classify_route_def is_mutation_def is_websocket_upgrade_def contains_token_def)
  from boundary_guards [OF this] this show ?thesis
    by (auto simp: sample_request_def api_path_def public_mutations_def)
qed

end
