(* ===== verification/Spec2Isabelle.thy ===== *)
theory Spec2Isabelle
  imports AccessClaims HerdrActions CoreProjectFacts CoreAttachFacts NotifyManager ShareService CoreBridgeFacts AccessBoundary
begin

text \<open>
  Verification of Shepherdr, a Go server that shows the terminals of a running Herdr in the browser.

  \<^bold>\<open>The program.\<close>  A browser signs in with a passkey (\<open>internal/access\<close>), sees a Home that is projected from what the Herdr
  TUI or herdr-core reports (\<open>internal/herdr\<close>), opens a terminal over a stream (\<open>internal/server\<close>), gets Web Push notices about
  agents that change (\<open>internal/notifications\<close>), sends files to a terminal (\<open>internal/uploads\<close>) and gets files that agents share
  (\<open>internal/shares\<close>).  The access manager is the authority: notifications follow its revocations, and the server asks it before
  every effect.  The projectors publish the state of a Herdr; notifications observe it, leases of terminals follow it.

  \<^bold>\<open>Shared theories.\<close>  \<open>Prelude\<close> holds times, list updates and the collection \<open>keyed\<close>.  \<open>GoStrings\<close>, \<open>Utf8\<close>, \<open>RuneText\<close>,
  \<open>GoPath\<close>, \<open>GoNet\<close>, \<open>Json\<close> and \<open>Encoding\<close> model what the code uses of Go's library: strings are lists of bytes, runes are
  decoded as \<open>range\<close> does, \<open>encoding/json\<close> decodes JSON values into structs with its folding of keys and its treatment of nulls
  and repeated keys, and base64, hex and SHA-256 are executable.  \<open>P256\<close> is the curve arithmetic that checks notification keys.
  \<open>StateFile\<close> is a directory with the calls that replace a private file, each of which may fail; its locale of stores that
  replace their file is interpreted on the access store and on the notification store.

  \<^bold>\<open>Access\<close> (\<open>internal/access\<close>).  \<open>AccessConfig\<close>: origins and session lifetimes (\<open>config.go\<close>).  \<open>AccessTypes\<close>: the state and
  \<open>validateState\<close> (\<open>types.go\<close>), with a declarative form it is equivalent to.  \<open>AccessStore\<close>: locks, opening and the bootstrap
  (\<open>store.go\<close>).  \<open>AccessManager\<close>: sign-ins, sessions, invitations, leases and revocation (\<open>manager.go\<close>); every operation keeps
  \<open>mgr_inv\<close>, and \<open>AccessManagerFacts\<close> says what each does on every branch.  \<open>AccessCeremony\<close>: passkey ceremonies with their
  tables and limits (\<open>ceremony.go\<close>).  \<open>AccessSystem\<close> composes both as a step relation, and \<open>AccessClaims\<close> proves the
  invariants and the liveness of its reachable states.  WebAuthn verification is a parameter.

  \<^bold>\<open>Herdr\<close> (\<open>internal/herdr\<close>).  \<open>HerdrTypes\<close>: reports, versions and errors.  \<open>HerdrProject\<close> and \<open>HerdrProjectFacts\<close>: the Home
  of the Herdr TUI (\<open>Project\<close> in \<open>types.go\<close>).  \<open>HerdrActions\<close>: what a workspace action may reach (\<open>actions.go\<close>).
  \<open>CoreProject\<close> and \<open>CoreProjectFacts\<close>: the Home of herdr-core (\<open>core_project.go\<close>, \<open>core_labels.go\<close>).  \<open>CoreAttach\<close> and
  \<open>CoreAttachFacts\<close>: the framed stream of a terminal, its keys, first paint and size events (\<open>core_attach.go\<close>).  \<open>Projector\<close>
  and \<open>ProjectorFacts\<close>: both loops that keep the published state current, as step functions of what the Herdr answers next, with
  listeners and observers (\<open>projector.go\<close>, \<open>core_projector.go\<close>, \<open>core_repositories.go\<close>).

  \<^bold>\<open>Server\<close> (\<open>internal/server\<close>).  \<open>AccessBoundary\<close>: the routes and the guards every request passes, with sign-in and
  without (\<open>access_boundary.go\<close>).  \<open>TerminalTarget\<close>: the terminal a page is bound to and its lease (\<open>terminal_target.go\<close>),
  composed with the projector.  \<open>TerminalInput\<close> and \<open>TerminalInputFacts\<close>: commands of the browser, keys and frames
  (\<open>terminal_protocol.go\<close>, \<open>terminal_keys.go\<close>).  \<open>TerminalBatch\<close>: input that is written under authority and lease, and the
  controllers of a terminal (\<open>terminal_batch.go\<close>).  \<open>CoreBridge\<close> and \<open>CoreBridgeFacts\<close>: the pages that share the size of a
  terminal of herdr-core, and what each command of a page does (\<open>terminal_core_bridge.go\<close>).

  \<^bold>\<open>Notifications\<close> (\<open>internal/notifications\<close>).  \<open>NotifyTypes\<close> and \<open>NotifyFacts\<close>: events, names and what comparing two reads
  reports.  \<open>NotifyEndpoint\<close> and \<open>NotifyEndpointFacts\<close>: which addresses may be dialled.  \<open>NotifyStore\<close> and \<open>NotifyStoreFacts\<close>:
  subscriptions on disk.  \<open>NotifyManager\<close>: the queue, the workers and delivery, as a step relation.

  \<^bold>\<open>Files.\<close>  \<open>UploadNames\<close> and \<open>UploadNamesFacts\<close>: names, sizes and free names of uploads (\<open>internal/uploads\<close>).  \<open>ShareTypes\<close>,
  \<open>ShareStore\<close>, \<open>ShareFacts\<close>, \<open>ShareClaims\<close>, \<open>ShareReopen\<close>: the store of shared files with every call that can fail, as a step
  relation whose abstraction is a map of files, and its start after any run (\<open>shares/store.go\<close>).  \<open>ShareService\<close>: to which
  terminal a file is attributed and one connection of the service (\<open>shares/service.go\<close>).

  \<^bold>\<open>Bounds and termination.\<close>  Recursion follows the data or a measure; no function has fuel but \<open>descendant\<close>, whose 256 parents
  are the code's own limit.  Sizes and counters are unbounded numbers where the code bounds them by other means, and words
  where they are packed into bytes.  Times are integers in nanoseconds.

  \<^bold>\<open>Parameters.\<close>  What the code only calls is an argument: WebAuthn, semantic versions, the text of JSON, Unicode case and
  printable characters, the results of system calls, processes and sockets, randomness.  Hypotheses about them state documented
  behaviour, and each has a witness.

  \<^bold>\<open>Not modelled.\<close>  \<open>main.go\<close> and the command line; HTTP routes, headers and bodies (\<open>server.go\<close>, \<open>auth.go\<close>,
  \<open>server/notifications.go\<close>, \<open>shared.go\<close>, \<open>file_uploads.go\<close>); the handlers of actions, which read requests and call the Herdr
  (\<open>workspace_actions.go\<close>, \<open>terminal_actions.go\<close>, \<open>core_actions.go\<close>); sockets, deadlines, child processes and WebSockets
  (\<open>client.go\<close>, \<open>core_client.go\<close>, \<open>app_client.go\<close>, the terminal bridges); staging of uploads on disk; the share command and the
  process table; the browser's own code under \<open>web\<close>.  These are input and output around the decisions modelled here.
\<close>

end
